(* ===== verification/Prelude.thy ===== *)
theory Prelude
  imports Complex_Main
begin

text \<open>
  Shared vocabulary of the development: the values a TypeScript \<open>unknown\<close> can hold
  after JSON decoding, the parts of the JavaScript string library the sources use
  (prefix tests, splitting, joining, case mapping), and the collections of facts the
  component theories fill and use.

  A \<^typ>\<open>char\<close> stands for one UTF-16 code unit below 256, so a \<^typ>\<open>string\<close> is a
  JavaScript string over Latin-1; \<open>length\<close> is the JavaScript \<open>length\<close>.
\<close>

named_theorems store_simps \<open>equations of the store and lease operations\<close>
named_theorems error_simps \<open>equations of the error catalog and its lookups\<close>
named_theorems eff_simps \<open>inversion of effects that answer a value\<close>
named_theorems keeps_intros \<open>effects that keep a predicate of the world\<close>

subsection \<open>Decoded JSON values\<close>

datatype json =
    JNull
  | JBool bool
  | JNum rat
  | JStr string
  | JArr "json list"
  | JObj "(string \<times> json) list"

text \<open>A property read \<open>o.k\<close>: \<open>None\<close> is \<open>undefined\<close>. \<open>JSON.parse\<close> keeps the last of
  duplicate keys; an association list built by the model has each key once.\<close>

definition js_prop :: "(string \<times> json) list \<Rightarrow> string \<Rightarrow> json option" where
  "js_prop ps k = map_of ps k"

fun js_is_string :: "json option \<Rightarrow> bool" where
  "js_is_string (Some (JStr _)) = True"
| "js_is_string _ = False"

text \<open>\<open>isRecord\<close>-style guards accept exactly the object case.\<close>

fun js_record :: "json \<Rightarrow> (string \<times> json) list option" where
  "js_record (JObj ps) = Some ps"
| "js_record _ = None"

text \<open>\<open>k in o\<close>, and \<open>{ ...o, [k]: v }\<close>: a present key keeps its position.\<close>

definition js_has :: "(string \<times> json) list \<Rightarrow> string \<Rightarrow> bool" where
  "js_has ps k \<longleftrightarrow> k \<in> fst ` set ps"

fun js_set :: "(string \<times> json) list \<Rightarrow> string \<Rightarrow> json \<Rightarrow> (string \<times> json) list" where
  "js_set [] k v = [(k, v)]"
| "js_set ((j, x) # ps) k v = (if j = k then (k, v) # ps else (j, x) # js_set ps k v)"

lemma js_prop_set: "js_prop (js_set ps k v) j = (if j = k then Some v else js_prop ps j)"
  by (induction ps k v rule: js_set.induct) (auto simp: js_prop_def)

lemma js_has_iff: "js_has ps k \<longleftrightarrow> js_prop ps k \<noteq> None"
  by (simp add: js_has_def js_prop_def map_of_eq_None_iff)

subsection \<open>Strings\<close>

text \<open>The truthiness of a string: \<open>undefined\<close> and the empty string are false.\<close>

definition nonempty :: "string option \<Rightarrow> string option" where
  "nonempty s = (case s of Some (c # cs) \<Rightarrow> Some (c # cs) | _ \<Rightarrow> None)"

lemma nonempty_simps [simp]:
  "nonempty None = None" "nonempty (Some []) = None" "nonempty (Some (c # cs)) = Some (c # cs)"
  by (simp_all add: nonempty_def)

lemma nonempty_Some: "nonempty s = Some t \<longleftrightarrow> s = Some t \<and> t \<noteq> []"
  by (auto simp: nonempty_def split: option.splits list.splits)

lemma nonempty_None: "nonempty s = None \<longleftrightarrow> s = None \<or> s = Some []"
  by (auto simp: nonempty_def split: option.splits list.splits)

definition starts_with :: "string \<Rightarrow> string \<Rightarrow> bool" where
  "starts_with p s \<longleftrightarrow> take (length p) s = p"

definition ends_with :: "string \<Rightarrow> string \<Rightarrow> bool" where
  "ends_with p s \<longleftrightarrow> starts_with (rev p) (rev s)"

lemma starts_with_append [simp]: "starts_with p (p @ s)"
  by (simp add: starts_with_def)

lemma starts_with_iff: "starts_with p s \<longleftrightarrow> (\<exists>t. s = p @ t)"
  by (metis append_eq_conv_conj append_take_drop_id starts_with_def)

text \<open>\<open>s.split(c)\<close> for a one-character separator, and \<open>parts.join(c)\<close>.\<close>

fun split_on :: "char \<Rightarrow> string \<Rightarrow> string list" where
  "split_on c [] = [[]]"
| "split_on c (x # xs) =
     (if x = c then [] # split_on c xs
      else (case split_on c xs of [] \<Rightarrow> [[x]] | p # ps \<Rightarrow> (x # p) # ps))"

fun join_with :: "char \<Rightarrow> string list \<Rightarrow> string" where
  "join_with c [] = []"
| "join_with c [p] = p"
| "join_with c (p # q # ps) = p @ c # join_with c (q # ps)"

lemma split_on_nonempty: "split_on c s \<noteq> []"
  by (induction s) (auto split: list.splits)

lemma split_on_prefix:
  "c \<notin> set p \<Longrightarrow> split_on c (p @ c # s) = p # split_on c s"
  by (induction p) auto

lemma split_on_single: "c \<notin> set p \<Longrightarrow> split_on c p = [p]"
  by (induction p) auto

text \<open>Splitting undoes joining when no part holds the separator; so joining is injective
  on such lists.\<close>

lemma split_on_join:
  "ps \<noteq> [] \<Longrightarrow> \<forall>p \<in> set ps. c \<notin> set p \<Longrightarrow> split_on c (join_with c ps) = ps"
  by (induction c ps rule: join_with.induct) (auto simp: split_on_prefix split_on_single)

lemma join_with_inj:
  assumes "join_with c ps = join_with c qs" and "ps \<noteq> []" and "qs \<noteq> []"
    and "\<forall>p \<in> set ps. c \<notin> set p" and "\<forall>p \<in> set qs. c \<notin> set p"
  shows "ps = qs"
  using assms by (metis split_on_join)

lemma set_join_with:
  "set (join_with c ps) \<subseteq> insert c (\<Union>p \<in> set ps. set p)"
  by (induction c ps rule: join_with.induct) auto

lemma set_split_on: "set s \<subseteq> insert c (\<Union>p \<in> set (split_on c s). set p)"
proof (induction s)
  case (Cons x xs)
  then show ?case by (cases "split_on c xs") (auto simp: split_on_nonempty)
qed simp

text \<open>Character classes of the regular expressions in the sources.\<close>

definition is_upper :: "char \<Rightarrow> bool" where
  "is_upper c \<longleftrightarrow> of_char c \<in> {65 .. (90::nat)}"

definition is_lower :: "char \<Rightarrow> bool" where
  "is_lower c \<longleftrightarrow> of_char c \<in> {97 .. (122::nat)}"

definition is_digit :: "char \<Rightarrow> bool" where
  "is_digit c \<longleftrightarrow> of_char c \<in> {48 .. (57::nat)}"

definition is_alnum :: "char \<Rightarrow> bool" where
  "is_alnum c \<longleftrightarrow> is_upper c \<or> is_lower c \<or> is_digit c"

text \<open>\<open>\w\<close>, and \<open>\s\<close> within Latin-1.\<close>

definition is_word_char :: "char \<Rightarrow> bool" where
  "is_word_char c \<longleftrightarrow> is_alnum c \<or> c = CHR ''_''"

definition is_space :: "char \<Rightarrow> bool" where
  "is_space c \<longleftrightarrow> of_char c \<in> {9, 10, 11, 12, 13, 32, (160::nat)}"

definition js_trim :: "string \<Rightarrow> string" where
  "js_trim s = rev (dropWhile is_space (rev (dropWhile is_space s)))"

text \<open>Case mapping. \<open>toUpperCase\<close> sends the sharp s to two letters; the two Latin-1
  letters whose upper case lies outside Latin-1 (code units 181 and 255) stay put.\<close>

definition lower_char :: "char \<Rightarrow> char" where
  "lower_char c =
     (let n = of_char c :: nat in
      if n \<in> {65 .. 90} \<or> (n \<in> {192 .. 222} \<and> n \<noteq> 215) then char_of (n + 32) else c)"

definition upper_char :: "char \<Rightarrow> string" where
  "upper_char c =
     (let n = of_char c :: nat in
      if n = 223 then ''SS''
      else if n \<in> {97 .. 122} \<or> (n \<in> {224 .. 254} \<and> n \<noteq> 247) then [char_of (n - 32)]
      else [c])"

definition to_lower :: "string \<Rightarrow> string" where
  "to_lower s = map lower_char s"

definition to_upper :: "string \<Rightarrow> string" where
  "to_upper s = concat (map upper_char s)"

text \<open>\<open>s.replace(/a/g, b)\<close> for single characters.\<close>

definition replace_char :: "char \<Rightarrow> char \<Rightarrow> string \<Rightarrow> string" where
  "replace_char a b s = map (\<lambda>c. if c = a then b else c) s"

subsection \<open>Decimal numbers\<close>

text \<open>\<open>String(n)\<close> of a non-negative integer, and its inverse on digit strings.\<close>

definition digit_char :: "nat \<Rightarrow> char" where
  "digit_char d = char_of (48 + d)"

definition digit_value :: "char \<Rightarrow> nat" where
  "digit_value c = of_char c - 48"

fun show_nat :: "nat \<Rightarrow> string" where
  "show_nat n = (if n < 10 then [digit_char n] else show_nat (n div 10) @ [digit_char (n mod 10)])"

declare show_nat.simps [simp del]

definition parse_digits :: "string \<Rightarrow> nat" where
  "parse_digits s = foldl (\<lambda>n c. 10 * n + digit_value c) 0 s"

definition parse_nat :: "string \<Rightarrow> nat option" where
  "parse_nat s = (if s \<noteq> [] \<and> (\<forall>c \<in> set s. is_digit c) then Some (parse_digits s) else None)"

lemma digit_char_simps:
  assumes "d < 10"
  shows "digit_value (digit_char d) = d" "is_digit (digit_char d)"
  using assms by (simp_all add: digit_value_def digit_char_def is_digit_def)

lemma parse_digits_snoc: "parse_digits (s @ [c]) = 10 * parse_digits s + digit_value c"
  by (simp add: parse_digits_def)

lemma show_nat_props: "show_nat n \<noteq> [] \<and> (\<forall>c \<in> set (show_nat n). is_digit c) \<and> parse_digits (show_nat n) = n"
proof (induction n rule: show_nat.induct)
  case (1 n)
  show ?case
  proof (cases "n < 10")
    case True
    then show ?thesis using digit_char_simps [of n] by (simp add: show_nat.simps parse_digits_def)
  next
    case False
    have "n mod 10 < 10" by simp
    with False 1 digit_char_simps [of "n mod 10"] show ?thesis
      by (auto simp: show_nat.simps [of n] parse_digits_snoc)
  qed
qed

lemma parse_show_nat [simp]: "parse_nat (show_nat n) = Some n"
  using show_nat_props [of n] by (simp add: parse_nat_def)

lemma show_nat_inj: "show_nat n = show_nat m \<longleftrightarrow> n = m"
  by (metis show_nat_props)

text \<open>\<open>Number.isInteger(n) && n > 0\<close> on a finite number.\<close>

definition positive_integer :: "rat \<Rightarrow> bool" where
  "positive_integer r \<longleftrightarrow> of_int (floor r) = r \<and> r > 0"

lemma positive_integer_nat: "positive_integer r \<Longrightarrow> of_nat (nat \<lfloor>r\<rfloor>) = r \<and> 0 < nat \<lfloor>r\<rfloor>"
  unfolding positive_integer_def
  by (metis floor_of_int of_int_0_less_iff of_nat_nat order_less_imp_le of_int_of_nat_eq zero_less_nat_eq)

lemma positive_integer_of_nat [simp]: "positive_integer (of_nat n) \<longleftrightarrow> 0 < n"
  by (simp add: positive_integer_def)

subsection \<open>Lists and options\<close>

definition option_or :: "'a option \<Rightarrow> 'a \<Rightarrow> 'a" where
  "option_or opt d = (case opt of None \<Rightarrow> d | Some x \<Rightarrow> x)"

lemma option_or_simps [simp]: "option_or None d = d" "option_or (Some x) d = x"
  by (simp_all add: option_or_def)

lemma find_Some_mem: "find P xs = Some x \<Longrightarrow> x \<in> set xs \<and> P x"
  by (induction xs) (auto split: if_splits)

lemma map_of_map_pair: "map_of (map (\<lambda>x. (f x, g x)) xs) k = map_option g (find (\<lambda>x. f x = k) xs)"
  by (induction xs) auto

end
