(* ===== verification/Circuit_Breaker.thy ===== *)
theory Circuit_Breaker
  imports Prelude
begin

text \<open>
  The circuit breaker of \<open>common/circuit-breaker/circuit-breaker.ts\<close>. \<open>fire\<close> is two atomic
  steps, \<open>cb_begin\<close> up to the call of \<open>fn\<close> and \<open>cb_settle\<close> when it settles, because other
  calls interleave at the \<open>await\<close>; the step relation keeps the calls in flight, each with its
  \<open>isProbe\<close>. The clock reading of a step is its argument.
\<close>

datatype cb_state = CLOSED | OPEN | HALF_OPEN

record circuit_breaker =
  cb_state :: cb_state
  cb_failures :: nat
  cb_openedAt :: int
  cb_probing :: bool

record breaker_options =
  failureThreshold :: nat
  resetTimeoutMs :: int

definition cb_options :: "nat option \<Rightarrow> int option \<Rightarrow> breaker_options" where
  "cb_options threshold timeout =
     \<lparr>failureThreshold = option_or threshold 5, resetTimeoutMs = option_or timeout 30000\<rparr>"

definition cb_init :: circuit_breaker where
  "cb_init = \<lparr>cb_state = CLOSED, cb_failures = 0, cb_openedAt = 0, cb_probing = False\<rparr>"

text \<open>The code of \<open>fire\<close> before \<open>fn\<close> runs: \<open>None\<close> throws \<open>CircuitBreakerOpenError\<close>, else the
  call proceeds with this \<open>isProbe\<close>.\<close>

definition cb_wake :: "breaker_options \<Rightarrow> int \<Rightarrow> circuit_breaker \<Rightarrow> circuit_breaker option" where
  "cb_wake opts now b =
     (if cb_state b = OPEN
      then (if now - cb_openedAt b \<ge> resetTimeoutMs opts then Some (b\<lparr>cb_state := HALF_OPEN\<rparr>) else None)
      else Some b)"

definition cb_begin :: "breaker_options \<Rightarrow> int \<Rightarrow> circuit_breaker \<Rightarrow> bool option \<times> circuit_breaker" where
  "cb_begin opts now b =
     (case cb_wake opts now b of
        None \<Rightarrow> (None, b)
      | Some b1 \<Rightarrow>
          if cb_state b1 = HALF_OPEN
          then (if cb_probing b1 then (None, b1) else (Some True, b1\<lparr>cb_probing := True\<rparr>))
          else (Some False, b1))"

definition cb_onSuccess :: "circuit_breaker \<Rightarrow> circuit_breaker" where
  "cb_onSuccess b = b\<lparr>cb_failures := 0, cb_state := CLOSED\<rparr>"

definition cb_onFailure :: "breaker_options \<Rightarrow> int \<Rightarrow> circuit_breaker \<Rightarrow> circuit_breaker" where
  "cb_onFailure opts now b =
     (let b1 = b\<lparr>cb_failures := cb_failures b + 1\<rparr> in
      if cb_state b1 = HALF_OPEN \<or> cb_failures b1 \<ge> failureThreshold opts
      then b1\<lparr>cb_state := OPEN, cb_openedAt := now\<rparr> else b1)"

text \<open>The code after \<open>fn\<close> settles, \<open>finally\<close> included.\<close>

definition cb_settle :: "breaker_options \<Rightarrow> int \<Rightarrow> bool \<Rightarrow> bool \<Rightarrow> circuit_breaker \<Rightarrow> circuit_breaker" where
  "cb_settle opts now isProbe ok b =
     (let b1 = (if ok then cb_onSuccess b else cb_onFailure opts now b) in
      if isProbe then b1\<lparr>cb_probing := False\<rparr> else b1)"

subsection \<open>Interleaved calls\<close>

text \<open>A breaker with the \<open>isProbe\<close> flags of the calls in flight.\<close>

inductive cb_step ::
  "breaker_options \<Rightarrow> circuit_breaker \<times> bool list \<Rightarrow> circuit_breaker \<times> bool list \<Rightarrow> bool" for opts where
  admitted: "cb_begin opts now b = (Some p, b') \<Longrightarrow> cb_step opts (b, calls) (b', p # calls)"
| rejected: "cb_begin opts now b = (None, b') \<Longrightarrow> cb_step opts (b, calls) (b', calls)"
| settled: "cb_settle opts now p ok b = b' \<Longrightarrow> cb_step opts (b, xs @ p # ys) (b', xs @ ys)"

inductive cb_reachable :: "breaker_options \<Rightarrow> circuit_breaker \<times> bool list \<Rightarrow> bool" for opts where
  start: "cb_reachable opts (cb_init, [])"
| step: "cb_reachable opts s \<Longrightarrow> cb_step opts s s' \<Longrightarrow> cb_reachable opts s'"

definition cb_inv :: "breaker_options \<Rightarrow> circuit_breaker \<times> bool list \<Rightarrow> bool" where
  "cb_inv opts s \<longleftrightarrow>
     (case s of (b, calls) \<Rightarrow>
        length (filter id calls) = (if cb_probing b then 1 else 0)
        \<and> (cb_state b = CLOSED \<longrightarrow> cb_failures b < failureThreshold opts)
        \<and> (cb_state b = OPEN \<longrightarrow> 0 < cb_failures b))"

lemma cb_begin_inv:
  assumes "cb_inv opts (b, calls)" "cb_begin opts now b = (out, b')"
  shows "cb_inv opts (b', case out of Some p \<Rightarrow> p # calls | None \<Rightarrow> calls)"
  using assms
  by (auto simp: cb_inv_def cb_begin_def cb_wake_def split: option.splits if_splits)

lemma cb_settle_inv:
  assumes "cb_inv opts (b, xs @ p # ys)" "0 < failureThreshold opts"
  shows "cb_inv opts (cb_settle opts now p ok b, xs @ ys)"
  using assms
  by (cases "cb_state b")
    (auto simp: cb_inv_def cb_settle_def cb_onSuccess_def cb_onFailure_def Let_def split: if_splits)

lemma cb_reachable_inv:
  assumes "cb_reachable opts s" "0 < failureThreshold opts"
  shows "cb_inv opts s"
  using assms(1)
proof induction
  case start
  then show ?case using assms(2) by (simp add: cb_inv_def cb_init_def)
next
  case (step s s')
  from step.hyps(2) show ?case
  proof cases
    case (admitted now b p b' calls)
    then show ?thesis using cb_begin_inv [of opts b calls now "Some p" b'] step.IH by simp
  next
    case (rejected now b b' calls)
    then show ?thesis using cb_begin_inv [of opts b calls now None b'] step.IH by simp
  next
    case (settled now p ok b b' xs ys)
    then show ?thesis using cb_settle_inv [of opts b xs p ys now ok] step.IH assms(2) by simp
  qed
qed

subsection \<open>Properties\<close>

text \<open>However calls interleave, at most one probe is ever in flight and \<open>probing\<close> says
  whether one is; a closed circuit has seen fewer consecutive failures than the threshold; and
  while one probe is in flight no call is let through as another, nor at all unless the circuit
  is closed.\<close>

theorem breaker_single_probe:
  assumes "cb_reachable opts (b, calls)" and "0 < failureThreshold opts"
  shows "length (filter id calls) = (if cb_probing b then 1 else 0)
    \<and> (cb_state b = CLOSED \<longrightarrow> cb_failures b < failureThreshold opts)
    \<and> (True \<in> set calls \<longrightarrow> fst (cb_begin opts now b) \<noteq> Some True)
    \<and> (True \<in> set calls \<and> cb_state b \<noteq> CLOSED \<longrightarrow> fst (cb_begin opts now b) = None)"
proof -
  have inv: "cb_inv opts (b, calls)" by (rule cb_reachable_inv [OF assms])
  have "cb_probing b" if "True \<in> set calls"
    using inv that by (auto simp: cb_inv_def filter_empty_conv split: if_splits)
  then show ?thesis
    using inv by (cases "cb_state b") (auto simp: cb_inv_def cb_begin_def cb_wake_def)
qed

lemma breaker_single_probe_witness:
  "fst (cb_begin (cb_options None None) 40000
     \<lparr>cb_state = HALF_OPEN, cb_failures = 1, cb_openedAt = 0, cb_probing = True\<rparr>) = None"
proof -
  let ?o = "\<lparr>failureThreshold = 1, resetTimeoutMs = 30000\<rparr>"
  have "cb_step ?o (cb_init, []) (cb_init, [False])"
    by (rule cb_step.admitted [of _ 0]) (simp add: cb_begin_def cb_wake_def cb_init_def)
  moreover have "cb_step ?o (cb_init, [] @ False # [])
      (\<lparr>cb_state = OPEN, cb_failures = 1, cb_openedAt = 0, cb_probing = False\<rparr>, [] @ [])"
    by (rule cb_step.settled [of _ 0 _ False]) (simp add: cb_settle_def cb_onFailure_def cb_init_def)
  moreover have "cb_step ?o (\<lparr>cb_state = OPEN, cb_failures = 1, cb_openedAt = 0, cb_probing = False\<rparr>, [])
      (\<lparr>cb_state = HALF_OPEN, cb_failures = 1, cb_openedAt = 0, cb_probing = True\<rparr>, [True])"
    by (rule cb_step.admitted [of _ 30000]) (simp add: cb_begin_def cb_wake_def)
  ultimately have "cb_reachable ?o
      (\<lparr>cb_state = HALF_OPEN, cb_failures = 1, cb_openedAt = 0, cb_probing = True\<rparr>, [True])"
    by (metis append.left_neutral cb_reachable.intros)
  from breaker_single_probe [OF this] show ?thesis
    by (simp add: cb_begin_def cb_wake_def)
qed

text \<open>The doc comment says an open circuit rejects calls for the whole reset timeout. A call
  admitted while the circuit was closed that succeeds late closes an open circuit at once,
  without a probe, so the next call is let through inside the timeout.\<close>

theorem breaker_late_success_closes:
  assumes "cb_reachable opts (b, calls)" and "cb_state b = OPEN" and "False \<in> set calls"
    and "0 < failureThreshold opts"
  shows "\<exists>calls'. cb_reachable opts (cb_settle opts now False True b, calls')
    \<and> fst (cb_begin opts now' (cb_settle opts now False True b)) = Some False"
proof -
  obtain xs ys where c: "calls = xs @ False # ys" using split_list [OF assms(3)] by blast
  have "cb_step opts (b, xs @ False # ys) (cb_settle opts now False True b, xs @ ys)"
    by (rule cb_step.settled) (rule refl)
  then have "cb_reachable opts (cb_settle opts now False True b, xs @ ys)"
    using assms(1) c cb_reachable.step by blast
  moreover have "fst (cb_begin opts now' (cb_settle opts now False True b)) = Some False"
    by (simp add: cb_begin_def cb_wake_def cb_settle_def cb_onSuccess_def)
  ultimately show ?thesis by blast
qed

lemma breaker_late_success_closes_witness:
  "\<exists>calls'. cb_reachable \<lparr>failureThreshold = 1, resetTimeoutMs = 30000\<rparr>
     (cb_settle \<lparr>failureThreshold = 1, resetTimeoutMs = 30000\<rparr> 2 False True
        \<lparr>cb_state = OPEN, cb_failures = 1, cb_openedAt = 1, cb_probing = False\<rparr>, calls')"
proof -
  let ?o = "\<lparr>failureThreshold = 1, resetTimeoutMs = 30000\<rparr>"
  have "cb_step ?o (cb_init, c) (cb_init, False # c)" for c
    by (rule cb_step.admitted [of _ 0]) (simp add: cb_begin_def cb_wake_def cb_init_def)
  then have "cb_reachable ?o (cb_init, [False, False])" by (metis cb_reachable.intros)
  moreover have "cb_step ?o (cb_init, [] @ False # [False])
      (\<lparr>cb_state = OPEN, cb_failures = 1, cb_openedAt = 1, cb_probing = False\<rparr>, [] @ [False])"
    by (rule cb_step.settled [of _ 1 _ False]) (simp add: cb_settle_def cb_onFailure_def cb_init_def)
  ultimately have "cb_reachable ?o
      (\<lparr>cb_state = OPEN, cb_failures = 1, cb_openedAt = 1, cb_probing = False\<rparr>, [False])"
    by (metis append.left_neutral cb_reachable.step)
  from breaker_late_success_closes [OF this, of 2 2] show ?thesis by auto
qed

end
