(* ===== verification/Error_Catalog.thy ===== *)
theory Error_Catalog
  imports Prelude
begin

text \<open>
  The error catalog of \<open>packages/shared/src/errors/catalog.ts\<close>: the codes, the entry of
  each code, the generic codes by transport status, and the problem type URIs.
  \<open>ErrorCode\<close>, the type of the catalog's keys, is a datatype, so a lookup with a code is
  total as it is under the source's types; \<open>error_code_text\<close> is the key as text, which is
  what \<open>isErrorCode\<close> compares an unknown value with.
\<close>

datatype rpc_code_name =
    Canceled | Unknown | InvalidArgument | DeadlineExceeded | NotFound | AlreadyExists
  | PermissionDenied | ResourceExhausted | FailedPrecondition | Aborted | OutOfRange
  | Unimplemented | Internal | Unavailable | DataLoss | Unauthenticated

definition RPC_CODES :: "(rpc_code_name \<times> int) list" where
  "RPC_CODES = [(Canceled, 1), (Unknown, 2), (InvalidArgument, 3), (DeadlineExceeded, 4),
     (NotFound, 5), (AlreadyExists, 6), (PermissionDenied, 7), (ResourceExhausted, 8),
     (FailedPrecondition, 9), (Aborted, 10), (OutOfRange, 11), (Unimplemented, 12),
     (Internal, 13), (Unavailable, 14), (DataLoss, 15), (Unauthenticated, 16)]"

datatype error_code =
      BAD_REQUEST | VALIDATION_FAILED | FAILED_PRECONDITION | UNAUTHORIZED
   | FORBIDDEN | NOT_FOUND | METHOD_NOT_ALLOWED | CONFLICT
   | ABORTED | PAYLOAD_TOO_LARGE | UNSUPPORTED_MEDIA_TYPE | UNPROCESSABLE
   | RATE_LIMITED | CANCELLED | INTERNAL | NOT_IMPLEMENTED
   | BAD_GATEWAY | SERVICE_UNAVAILABLE | GATEWAY_TIMEOUT | INTERNAL_ERROR
   | HTTP_ERROR | HEALTH_CHECK_FAILED | CAPABILITY_DISABLED | TENANT_REQUIRED
   | TENANT_INVALID | TENANT_MISMATCH | TENANT_NOT_FOUND | TENANT_INACTIVE
   | TENANT_SIGNUP_CLOSED | USER_NOT_FOUND | USER_ALREADY_EXISTS | USER_LAST_ADMIN
   | AUTH_INVALID_CREDENTIALS | AUTH_TOKEN_INVALID | AUTH_TOKEN_REVOKED | AUTH_ACCOUNT_INACTIVE
   | AUTH_LOGIN_LOCKED | AUTH_CSRF_REJECTED | AUTH_CURRENT_PASSWORD_REQUIRED | OAUTH_ACCOUNT_EXISTS
   | OAUTH_NOT_CONFIGURED | OAUTH_STATE_INVALID | OAUTH_CODE_INVALID | API_KEY_UNKNOWN
   | SIGNATURE_INVALID | SIGNATURE_EXPIRED | NONCE_REUSED

fun error_code_text :: "error_code \<Rightarrow> string" where
  "error_code_text BAD_REQUEST = ''BAD_REQUEST''"
| "error_code_text VALIDATION_FAILED = ''VALIDATION_FAILED''"
| "error_code_text FAILED_PRECONDITION = ''FAILED_PRECONDITION''"
| "error_code_text UNAUTHORIZED = ''UNAUTHORIZED''"
| "error_code_text FORBIDDEN = ''FORBIDDEN''"
| "error_code_text NOT_FOUND = ''NOT_FOUND''"
| "error_code_text METHOD_NOT_ALLOWED = ''METHOD_NOT_ALLOWED''"
| "error_code_text CONFLICT = ''CONFLICT''"
| "error_code_text ABORTED = ''ABORTED''"
| "error_code_text PAYLOAD_TOO_LARGE = ''PAYLOAD_TOO_LARGE''"
| "error_code_text UNSUPPORTED_MEDIA_TYPE = ''UNSUPPORTED_MEDIA_TYPE''"
| "error_code_text UNPROCESSABLE = ''UNPROCESSABLE''"
| "error_code_text RATE_LIMITED = ''RATE_LIMITED''"
| "error_code_text CANCELLED = ''CANCELLED''"
| "error_code_text INTERNAL = ''INTERNAL''"
| "error_code_text NOT_IMPLEMENTED = ''NOT_IMPLEMENTED''"
| "error_code_text BAD_GATEWAY = ''BAD_GATEWAY''"
| "error_code_text SERVICE_UNAVAILABLE = ''SERVICE_UNAVAILABLE''"
| "error_code_text GATEWAY_TIMEOUT = ''GATEWAY_TIMEOUT''"
| "error_code_text INTERNAL_ERROR = ''INTERNAL_ERROR''"
| "error_code_text HTTP_ERROR = ''HTTP_ERROR''"
| "error_code_text HEALTH_CHECK_FAILED = ''HEALTH_CHECK_FAILED''"
| "error_code_text CAPABILITY_DISABLED = ''CAPABILITY_DISABLED''"
| "error_code_text TENANT_REQUIRED = ''TENANT_REQUIRED''"
| "error_code_text TENANT_INVALID = ''TENANT_INVALID''"
| "error_code_text TENANT_MISMATCH = ''TENANT_MISMATCH''"
| "error_code_text TENANT_NOT_FOUND = ''TENANT_NOT_FOUND''"
| "error_code_text TENANT_INACTIVE = ''TENANT_INACTIVE''"
| "error_code_text TENANT_SIGNUP_CLOSED = ''TENANT_SIGNUP_CLOSED''"
| "error_code_text USER_NOT_FOUND = ''USER_NOT_FOUND''"
| "error_code_text USER_ALREADY_EXISTS = ''USER_ALREADY_EXISTS''"
| "error_code_text USER_LAST_ADMIN = ''USER_LAST_ADMIN''"
| "error_code_text AUTH_INVALID_CREDENTIALS = ''AUTH_INVALID_CREDENTIALS''"
| "error_code_text AUTH_TOKEN_INVALID = ''AUTH_TOKEN_INVALID''"
| "error_code_text AUTH_TOKEN_REVOKED = ''AUTH_TOKEN_REVOKED''"
| "error_code_text AUTH_ACCOUNT_INACTIVE = ''AUTH_ACCOUNT_INACTIVE''"
| "error_code_text AUTH_LOGIN_LOCKED = ''AUTH_LOGIN_LOCKED''"
| "error_code_text AUTH_CSRF_REJECTED = ''AUTH_CSRF_REJECTED''"
| "error_code_text AUTH_CURRENT_PASSWORD_REQUIRED = ''AUTH_CURRENT_PASSWORD_REQUIRED''"
| "error_code_text OAUTH_ACCOUNT_EXISTS = ''OAUTH_ACCOUNT_EXISTS''"
| "error_code_text OAUTH_NOT_CONFIGURED = ''OAUTH_NOT_CONFIGURED''"
| "error_code_text OAUTH_STATE_INVALID = ''OAUTH_STATE_INVALID''"
| "error_code_text OAUTH_CODE_INVALID = ''OAUTH_CODE_INVALID''"
| "error_code_text API_KEY_UNKNOWN = ''API_KEY_UNKNOWN''"
| "error_code_text SIGNATURE_INVALID = ''SIGNATURE_INVALID''"
| "error_code_text SIGNATURE_EXPIRED = ''SIGNATURE_EXPIRED''"
| "error_code_text NONCE_REUSED = ''NONCE_REUSED''"

record entry_spec =
  httpStatus :: rat
  rpcCode :: rpc_code_name
  retryable :: bool
  publicMessage :: string
  domain :: "string option"
  deprecated :: bool
  replacedBy :: "error_code option"

record error_definition = entry_spec +
  code :: error_code

definition entry :: "rat \<Rightarrow> rpc_code_name \<Rightarrow> bool \<Rightarrow> string \<Rightarrow> string option \<Rightarrow> entry_spec" where
  "entry status rpc retry msg owner =
     \<lparr>httpStatus = status, rpcCode = rpc, retryable = retry, publicMessage = msg,
      domain = owner, deprecated = False, replacedBy = None\<rparr>"

definition deprecated_entry ::
  "rat \<Rightarrow> rpc_code_name \<Rightarrow> bool \<Rightarrow> string \<Rightarrow> error_code \<Rightarrow> entry_spec" where
  "deprecated_entry status rpc retry msg successor =
     \<lparr>httpStatus = status, rpcCode = rpc, retryable = retry, publicMessage = msg,
      domain = None, deprecated = True, replacedBy = Some successor\<rparr>"

text \<open>The entries, in declaration order, by the section comments of the source.\<close>

definition generic_entries :: "(error_code \<times> entry_spec) list" where
  "generic_entries = [
    (BAD_REQUEST, entry 400 InvalidArgument False
      ''The request is invalid.'' None),
    (VALIDATION_FAILED, entry 400 InvalidArgument False
      ''One or more fields are invalid.'' None),
    (FAILED_PRECONDITION, entry 400 FailedPrecondition False
      ''The request cannot be performed in the current state.'' None),
    (UNAUTHORIZED, entry 401 Unauthenticated False
      ''Authentication is required.'' None),
    (FORBIDDEN, entry 403 PermissionDenied False
      ''You do not have permission to perform this action.'' None),
    (NOT_FOUND, entry 404 NotFound False
      ''The requested resource was not found.'' None),
    (METHOD_NOT_ALLOWED, entry 405 Unimplemented False
      ''This method is not allowed on the resource.'' None),
    (CONFLICT, entry 409 AlreadyExists False
      ''The request conflicts with the current state.'' None),
    (ABORTED, entry 409 Aborted True
      ''The operation was aborted by a concurrent change.'' None),
    (PAYLOAD_TOO_LARGE, entry 413 ResourceExhausted False
      ''The request body is too large.'' None),
    (UNSUPPORTED_MEDIA_TYPE, entry 415 InvalidArgument False
      ''The request content type is not supported.'' None),
    (UNPROCESSABLE, entry 422 InvalidArgument False
      ''The request could not be processed.'' None),
    (RATE_LIMITED, entry 429 ResourceExhausted True
      ''Too many requests. Slow down and try again later.'' None),
    (CANCELLED, entry 499 Canceled False
      ''The request was cancelled.'' None),
    (INTERNAL, entry 500 Internal False
      ''An internal error occurred.'' None),
    (NOT_IMPLEMENTED, entry 501 Unimplemented False
      ''This operation is not implemented.'' None),
    (BAD_GATEWAY, entry 502 Unavailable True
      ''An upstream service returned an invalid response.'' None),
    (SERVICE_UNAVAILABLE, entry 503 Unavailable True
      ''The service is temporarily unavailable.'' None),
    (GATEWAY_TIMEOUT, entry 504 DeadlineExceeded True
      ''The request timed out.'' None),
    (INTERNAL_ERROR, deprecated_entry 500 Internal False
      ''An internal error occurred.'' INTERNAL),
    (HTTP_ERROR, deprecated_entry 500 Unknown False
      ''The request failed.'' BAD_REQUEST)]"

definition platform_entries :: "(error_code \<times> entry_spec) list" where
  "platform_entries = [
    (HEALTH_CHECK_FAILED, entry 503 Unavailable True
      ''One or more dependencies are unavailable.'' (Some ''health'')),
    (CAPABILITY_DISABLED, entry 501 Unimplemented False
      ''This feature is disabled on this server.'' (Some ''capability''))]"

definition tenancy_entries :: "(error_code \<times> entry_spec) list" where
  "tenancy_entries = [
    (TENANT_REQUIRED, entry 400 InvalidArgument False
      ''The request does not identify a tenant.'' (Some ''tenancy'')),
    (TENANT_INVALID, entry 400 InvalidArgument False
      ''The tenant id is malformed.'' (Some ''tenancy'')),
    (TENANT_MISMATCH, entry 403 PermissionDenied False
      ''The requested tenant does not match the credentials.'' (Some ''tenancy'')),
    (TENANT_NOT_FOUND, entry 404 NotFound False
      ''The tenant is not registered.'' (Some ''tenancy'')),
    (TENANT_INACTIVE, entry 403 PermissionDenied False
      ''The tenant is not active.'' (Some ''tenancy'')),
    (TENANT_SIGNUP_CLOSED, entry 403 PermissionDenied False
      ''The tenant does not allow self sign-up.'' (Some ''tenancy''))]"

definition user_entries :: "(error_code \<times> entry_spec) list" where
  "user_entries = [
    (USER_NOT_FOUND, entry 404 NotFound False
      ''The user was not found.'' (Some ''user'')),
    (USER_ALREADY_EXISTS, entry 409 AlreadyExists False
      ''A user with this email already exists.'' (Some ''user'')),
    (USER_LAST_ADMIN, entry 409 FailedPrecondition False
      ''The last admin of a tenant cannot be removed.'' (Some ''user''))]"

definition auth_entries :: "(error_code \<times> entry_spec) list" where
  "auth_entries = [
    (AUTH_INVALID_CREDENTIALS, entry 401 Unauthenticated False
      ''The email or password is incorrect.'' (Some ''auth'')),
    (AUTH_TOKEN_INVALID, entry 401 Unauthenticated False
      ''The access token is invalid or expired.'' (Some ''auth'')),
    (AUTH_TOKEN_REVOKED, entry 401 Unauthenticated False
      ''The access token has been revoked.'' (Some ''auth'')),
    (AUTH_ACCOUNT_INACTIVE, entry 401 Unauthenticated False
      ''The account is not active.'' (Some ''auth'')),
    (AUTH_LOGIN_LOCKED, entry 429 ResourceExhausted True
      ''Too many failed sign-in attempts. Try again later.'' (Some ''auth'')),
    (AUTH_CSRF_REJECTED, entry 403 PermissionDenied False
      ''The request did not come from an allowed origin.'' (Some ''auth'')),
    (AUTH_CURRENT_PASSWORD_REQUIRED, entry 403 PermissionDenied False
      ''Changing the password or email requires the correct current password.'' (Some ''auth'')),
    (OAUTH_ACCOUNT_EXISTS, entry 409 AlreadyExists False
      ''An account with this email already exists. Sign in with its password.'' (Some ''auth'')),
    (OAUTH_NOT_CONFIGURED, entry 501 Unimplemented False
      ''This sign-in provider is not configured.'' (Some ''auth'')),
    (OAUTH_STATE_INVALID, entry 400 InvalidArgument False
      ''The sign-in request is invalid or has expired.'' (Some ''auth'')),
    (OAUTH_CODE_INVALID, entry 401 Unauthenticated False
      ''The sign-in code is invalid or has expired.'' (Some ''auth''))]"

definition signing_entries :: "(error_code \<times> entry_spec) list" where
  "signing_entries = [
    (API_KEY_UNKNOWN, entry 401 Unauthenticated False
      ''The API key is not recognised.'' (Some ''signing'')),
    (SIGNATURE_INVALID, entry 401 Unauthenticated False
      ''The request signature is invalid.'' (Some ''signing'')),
    (SIGNATURE_EXPIRED, entry 401 Unauthenticated False
      ''The request signature has expired.'' (Some ''signing'')),
    (NONCE_REUSED, entry 401 Unauthenticated False
      ''The request nonce was already used.'' (Some ''signing''))]"

text \<open>\<open>defineCatalog\<close> adds to each entry the key it stands under.\<close>

definition defineCatalog :: "(error_code \<times> entry_spec) list \<Rightarrow> (error_code \<times> error_definition) list"
where
  "defineCatalog entries = map (\<lambda>(c, spec). (c, entry_spec.extend spec (error_definition.fields c))) entries"

definition ERROR_CATALOG :: "(error_code \<times> error_definition) list" where
  "ERROR_CATALOG = defineCatalog (generic_entries @ platform_entries @ tenancy_entries @
     user_entries @ auth_entries @ signing_entries)"

definition error_codes :: "error_code list" where
  "error_codes = map fst ERROR_CATALOG"

text \<open>Every value of the key type is a key, so this lookup never takes \<open>the None\<close>
  (lemma \<open>catalog_lookup\<close> below).\<close>

definition getErrorDefinition :: "error_code \<Rightarrow> error_definition" where
  "getErrorDefinition c = the (map_of ERROR_CATALOG c)"

definition listErrorDefinitions :: "error_definition list" where
  "listErrorDefinitions = map snd ERROR_CATALOG"

text \<open>\<open>isErrorCode\<close>, as the code it recognises.\<close>

definition isErrorCode :: "string \<Rightarrow> error_code option" where
  "isErrorCode value = find (\<lambda>c. error_code_text c = value) error_codes"

definition GENERIC_BY_HTTP_STATUS :: "(rat \<times> error_code) list" where
  "GENERIC_BY_HTTP_STATUS = [(400, BAD_REQUEST), (401, UNAUTHORIZED), (403, FORBIDDEN),
     (404, NOT_FOUND), (405, METHOD_NOT_ALLOWED), (409, CONFLICT), (413, PAYLOAD_TOO_LARGE),
     (415, UNSUPPORTED_MEDIA_TYPE), (422, UNPROCESSABLE), (429, RATE_LIMITED),
     (499, CANCELLED), (500, INTERNAL), (501, NOT_IMPLEMENTED), (502, BAD_GATEWAY),
     (503, SERVICE_UNAVAILABLE), (504, GATEWAY_TIMEOUT)]"

text \<open>A JavaScript number is a rational here.\<close>

definition errorCodeForHttpStatus :: "rat \<Rightarrow> error_code" where
  "errorCodeForHttpStatus status =
     (case map_of GENERIC_BY_HTTP_STATUS status of
        Some exact \<Rightarrow> exact
      | None \<Rightarrow> if 400 \<le> status \<and> status < 500 then BAD_REQUEST else INTERNAL)"

fun GENERIC_BY_RPC_CODE :: "rpc_code_name \<Rightarrow> error_code" where
  "GENERIC_BY_RPC_CODE Canceled = CANCELLED"
| "GENERIC_BY_RPC_CODE Unknown = INTERNAL"
| "GENERIC_BY_RPC_CODE InvalidArgument = BAD_REQUEST"
| "GENERIC_BY_RPC_CODE DeadlineExceeded = GATEWAY_TIMEOUT"
| "GENERIC_BY_RPC_CODE NotFound = NOT_FOUND"
| "GENERIC_BY_RPC_CODE AlreadyExists = CONFLICT"
| "GENERIC_BY_RPC_CODE PermissionDenied = FORBIDDEN"
| "GENERIC_BY_RPC_CODE ResourceExhausted = RATE_LIMITED"
| "GENERIC_BY_RPC_CODE FailedPrecondition = FAILED_PRECONDITION"
| "GENERIC_BY_RPC_CODE Aborted = ABORTED"
| "GENERIC_BY_RPC_CODE OutOfRange = BAD_REQUEST"
| "GENERIC_BY_RPC_CODE Unimplemented = NOT_IMPLEMENTED"
| "GENERIC_BY_RPC_CODE Internal = INTERNAL"
| "GENERIC_BY_RPC_CODE Unavailable = SERVICE_UNAVAILABLE"
| "GENERIC_BY_RPC_CODE DataLoss = INTERNAL"
| "GENERIC_BY_RPC_CODE Unauthenticated = UNAUTHORIZED"

definition rpcCodeName :: "int \<Rightarrow> rpc_code_name option" where
  "rpcCodeName value = map_option fst (find (\<lambda>(_, n). n = value) RPC_CODES)"

definition rpcCodeNumber :: "rpc_code_name \<Rightarrow> int" where
  "rpcCodeNumber name = the (map_of RPC_CODES name)"

text \<open>\<open>errorCodeForRpcCode\<close> takes a name or a number.\<close>

definition errorCodeForRpcCode :: "rpc_code_name + int \<Rightarrow> error_code" where
  "errorCodeForRpcCode rpc =
     (case (case rpc of Inl name \<Rightarrow> Some name | Inr n \<Rightarrow> rpcCodeName n) of
        Some name \<Rightarrow> GENERIC_BY_RPC_CODE name
      | None \<Rightarrow> INTERNAL)"

definition ERROR_TYPE_BASE_URI :: string where
  "ERROR_TYPE_BASE_URI = ''https://errors.tropis.dev/''"

definition errorTypeUri :: "error_code \<Rightarrow> string" where
  "errorTypeUri c =
     ERROR_TYPE_BASE_URI @ replace_char CHR ''_'' CHR ''-'' (to_lower (error_code_text c))"

definition errorCodeFromTypeUri :: "string \<Rightarrow> error_code option" where
  "errorCodeFromTypeUri uri =
     (if \<not> starts_with ERROR_TYPE_BASE_URI uri then None
      else isErrorCode (replace_char CHR ''-'' CHR ''_''
             (to_upper (drop (length ERROR_TYPE_BASE_URI) uri))))"

subsection \<open>Lookups\<close>

lemmas catalog_defs = ERROR_CATALOG_def defineCatalog_def generic_entries_def
  platform_entries_def tenancy_entries_def user_entries_def auth_entries_def
  signing_entries_def entry_def deprecated_entry_def entry_spec.defs error_definition.defs

lemma error_codes_eq [error_simps]: "error_codes = [
    BAD_REQUEST, VALIDATION_FAILED, FAILED_PRECONDITION, UNAUTHORIZED, FORBIDDEN,
    NOT_FOUND, METHOD_NOT_ALLOWED, CONFLICT, ABORTED, PAYLOAD_TOO_LARGE,
    UNSUPPORTED_MEDIA_TYPE, UNPROCESSABLE, RATE_LIMITED, CANCELLED, INTERNAL,
    NOT_IMPLEMENTED, BAD_GATEWAY, SERVICE_UNAVAILABLE, GATEWAY_TIMEOUT, INTERNAL_ERROR,
    HTTP_ERROR, HEALTH_CHECK_FAILED, CAPABILITY_DISABLED, TENANT_REQUIRED, TENANT_INVALID,
    TENANT_MISMATCH, TENANT_NOT_FOUND, TENANT_INACTIVE, TENANT_SIGNUP_CLOSED, USER_NOT_FOUND,
    USER_ALREADY_EXISTS, USER_LAST_ADMIN, AUTH_INVALID_CREDENTIALS, AUTH_TOKEN_INVALID, AUTH_TOKEN_REVOKED,
    AUTH_ACCOUNT_INACTIVE, AUTH_LOGIN_LOCKED, AUTH_CSRF_REJECTED, AUTH_CURRENT_PASSWORD_REQUIRED, OAUTH_ACCOUNT_EXISTS,
    OAUTH_NOT_CONFIGURED, OAUTH_STATE_INVALID, OAUTH_CODE_INVALID, API_KEY_UNKNOWN, SIGNATURE_INVALID,
    SIGNATURE_EXPIRED, NONCE_REUSED]"
  by (simp add: error_codes_def catalog_defs)

lemma error_codes_all: "c \<in> set error_codes"
  by (cases c) (simp_all add: error_codes_eq)

lemma error_codes_distinct: "distinct error_codes"
  by (simp add: error_codes_eq)

lemma error_code_text_inj: "error_code_text c = error_code_text d \<Longrightarrow> c = d"
  by (cases c; cases d) simp_all

lemma isErrorCode_text [error_simps]: "isErrorCode (error_code_text c) = Some c"
proof -
  have "\<exists>d. find (\<lambda>d. error_code_text d = error_code_text c) error_codes = Some d"
    using error_codes_all [of c] by (auto simp: find_None_iff not_None_eq [symmetric])
  then show ?thesis
    unfolding isErrorCode_def using error_code_text_inj find_Some_mem by fastforce
qed

lemma isErrorCode_Some: "isErrorCode s = Some c \<Longrightarrow> s = error_code_text c"
  unfolding isErrorCode_def by (auto dest: find_Some_mem)

lemma catalog_lookup [error_simps]:
  "map_of ERROR_CATALOG c = Some (getErrorDefinition c)"
  using error_codes_all [of c]
  by (auto simp: getErrorDefinition_def error_codes_def dom_map_of_conv_image_fst [symmetric])

subsection \<open>The columns of the catalog\<close>

lemma catalog_status: "map (\<lambda>(c, d). (c, httpStatus d)) ERROR_CATALOG =
    [(BAD_REQUEST, 400), (VALIDATION_FAILED, 400), (FAILED_PRECONDITION, 400),
     (UNAUTHORIZED, 401), (FORBIDDEN, 403), (NOT_FOUND, 404),
     (METHOD_NOT_ALLOWED, 405), (CONFLICT, 409), (ABORTED, 409),
     (PAYLOAD_TOO_LARGE, 413), (UNSUPPORTED_MEDIA_TYPE, 415), (UNPROCESSABLE, 422),
     (RATE_LIMITED, 429), (CANCELLED, 499), (INTERNAL, 500),
     (NOT_IMPLEMENTED, 501), (BAD_GATEWAY, 502), (SERVICE_UNAVAILABLE, 503),
     (GATEWAY_TIMEOUT, 504), (INTERNAL_ERROR, 500), (HTTP_ERROR, 500),
     (HEALTH_CHECK_FAILED, 503), (CAPABILITY_DISABLED, 501), (TENANT_REQUIRED, 400),
     (TENANT_INVALID, 400), (TENANT_MISMATCH, 403), (TENANT_NOT_FOUND, 404),
     (TENANT_INACTIVE, 403), (TENANT_SIGNUP_CLOSED, 403), (USER_NOT_FOUND, 404),
     (USER_ALREADY_EXISTS, 409), (USER_LAST_ADMIN, 409), (AUTH_INVALID_CREDENTIALS, 401),
     (AUTH_TOKEN_INVALID, 401), (AUTH_TOKEN_REVOKED, 401), (AUTH_ACCOUNT_INACTIVE, 401),
     (AUTH_LOGIN_LOCKED, 429), (AUTH_CSRF_REJECTED, 403), (AUTH_CURRENT_PASSWORD_REQUIRED, 403),
     (OAUTH_ACCOUNT_EXISTS, 409), (OAUTH_NOT_CONFIGURED, 501), (OAUTH_STATE_INVALID, 400),
     (OAUTH_CODE_INVALID, 401), (API_KEY_UNKNOWN, 401), (SIGNATURE_INVALID, 401),
     (SIGNATURE_EXPIRED, 401), (NONCE_REUSED, 401)]"
  by (simp add: catalog_defs)

lemma catalog_rpc: "map (\<lambda>(c, d). (c, rpcCode d)) ERROR_CATALOG =
    [(BAD_REQUEST, InvalidArgument), (VALIDATION_FAILED, InvalidArgument), (FAILED_PRECONDITION, FailedPrecondition),
     (UNAUTHORIZED, Unauthenticated), (FORBIDDEN, PermissionDenied), (NOT_FOUND, NotFound),
     (METHOD_NOT_ALLOWED, Unimplemented), (CONFLICT, AlreadyExists), (ABORTED, Aborted),
     (PAYLOAD_TOO_LARGE, ResourceExhausted), (UNSUPPORTED_MEDIA_TYPE, InvalidArgument), (UNPROCESSABLE, InvalidArgument),
     (RATE_LIMITED, ResourceExhausted), (CANCELLED, Canceled), (INTERNAL, Internal),
     (NOT_IMPLEMENTED, Unimplemented), (BAD_GATEWAY, Unavailable), (SERVICE_UNAVAILABLE, Unavailable),
     (GATEWAY_TIMEOUT, DeadlineExceeded), (INTERNAL_ERROR, Internal), (HTTP_ERROR, Unknown),
     (HEALTH_CHECK_FAILED, Unavailable), (CAPABILITY_DISABLED, Unimplemented), (TENANT_REQUIRED, InvalidArgument),
     (TENANT_INVALID, InvalidArgument), (TENANT_MISMATCH, PermissionDenied), (TENANT_NOT_FOUND, NotFound),
     (TENANT_INACTIVE, PermissionDenied), (TENANT_SIGNUP_CLOSED, PermissionDenied), (USER_NOT_FOUND, NotFound),
     (USER_ALREADY_EXISTS, AlreadyExists), (USER_LAST_ADMIN, FailedPrecondition), (AUTH_INVALID_CREDENTIALS, Unauthenticated),
     (AUTH_TOKEN_INVALID, Unauthenticated), (AUTH_TOKEN_REVOKED, Unauthenticated), (AUTH_ACCOUNT_INACTIVE, Unauthenticated),
     (AUTH_LOGIN_LOCKED, ResourceExhausted), (AUTH_CSRF_REJECTED, PermissionDenied), (AUTH_CURRENT_PASSWORD_REQUIRED, PermissionDenied),
     (OAUTH_ACCOUNT_EXISTS, AlreadyExists), (OAUTH_NOT_CONFIGURED, Unimplemented), (OAUTH_STATE_INVALID, InvalidArgument),
     (OAUTH_CODE_INVALID, Unauthenticated), (API_KEY_UNKNOWN, Unauthenticated), (SIGNATURE_INVALID, Unauthenticated),
     (SIGNATURE_EXPIRED, Unauthenticated), (NONCE_REUSED, Unauthenticated)]"
  by (simp add: catalog_defs)

lemma catalog_retryable: "map (\<lambda>(c, d). (c, retryable d)) ERROR_CATALOG =
    [(BAD_REQUEST, False), (VALIDATION_FAILED, False), (FAILED_PRECONDITION, False),
     (UNAUTHORIZED, False), (FORBIDDEN, False), (NOT_FOUND, False),
     (METHOD_NOT_ALLOWED, False), (CONFLICT, False), (ABORTED, True),
     (PAYLOAD_TOO_LARGE, False), (UNSUPPORTED_MEDIA_TYPE, False), (UNPROCESSABLE, False),
     (RATE_LIMITED, True), (CANCELLED, False), (INTERNAL, False),
     (NOT_IMPLEMENTED, False), (BAD_GATEWAY, True), (SERVICE_UNAVAILABLE, True),
     (GATEWAY_TIMEOUT, True), (INTERNAL_ERROR, False), (HTTP_ERROR, False),
     (HEALTH_CHECK_FAILED, True), (CAPABILITY_DISABLED, False), (TENANT_REQUIRED, False),
     (TENANT_INVALID, False), (TENANT_MISMATCH, False), (TENANT_NOT_FOUND, False),
     (TENANT_INACTIVE, False), (TENANT_SIGNUP_CLOSED, False), (USER_NOT_FOUND, False),
     (USER_ALREADY_EXISTS, False), (USER_LAST_ADMIN, False), (AUTH_INVALID_CREDENTIALS, False),
     (AUTH_TOKEN_INVALID, False), (AUTH_TOKEN_REVOKED, False), (AUTH_ACCOUNT_INACTIVE, False),
     (AUTH_LOGIN_LOCKED, True), (AUTH_CSRF_REJECTED, False), (AUTH_CURRENT_PASSWORD_REQUIRED, False),
     (OAUTH_ACCOUNT_EXISTS, False), (OAUTH_NOT_CONFIGURED, False), (OAUTH_STATE_INVALID, False),
     (OAUTH_CODE_INVALID, False), (API_KEY_UNKNOWN, False), (SIGNATURE_INVALID, False),
     (SIGNATURE_EXPIRED, False), (NONCE_REUSED, False)]"
  by (simp add: catalog_defs)

lemma catalog_column:
  "f (getErrorDefinition c) = the (map_of (map (\<lambda>(c, d). (c, f d)) ERROR_CATALOG) c)"
  by (simp add: map_of_map catalog_lookup)

lemma error_status [error_simps]:
  "httpStatus (getErrorDefinition BAD_REQUEST) = 400"
  "httpStatus (getErrorDefinition VALIDATION_FAILED) = 400"
  "httpStatus (getErrorDefinition FAILED_PRECONDITION) = 400"
  "httpStatus (getErrorDefinition UNAUTHORIZED) = 401"
  "httpStatus (getErrorDefinition FORBIDDEN) = 403"
  "httpStatus (getErrorDefinition NOT_FOUND) = 404"
  "httpStatus (getErrorDefinition METHOD_NOT_ALLOWED) = 405"
  "httpStatus (getErrorDefinition CONFLICT) = 409"
  "httpStatus (getErrorDefinition ABORTED) = 409"
  "httpStatus (getErrorDefinition PAYLOAD_TOO_LARGE) = 413"
  "httpStatus (getErrorDefinition UNSUPPORTED_MEDIA_TYPE) = 415"
  "httpStatus (getErrorDefinition UNPROCESSABLE) = 422"
  "httpStatus (getErrorDefinition RATE_LIMITED) = 429"
  "httpStatus (getErrorDefinition CANCELLED) = 499"
  "httpStatus (getErrorDefinition INTERNAL) = 500"
  "httpStatus (getErrorDefinition NOT_IMPLEMENTED) = 501"
  "httpStatus (getErrorDefinition BAD_GATEWAY) = 502"
  "httpStatus (getErrorDefinition SERVICE_UNAVAILABLE) = 503"
  "httpStatus (getErrorDefinition GATEWAY_TIMEOUT) = 504"
  "httpStatus (getErrorDefinition INTERNAL_ERROR) = 500"
  "httpStatus (getErrorDefinition HTTP_ERROR) = 500"
  "httpStatus (getErrorDefinition HEALTH_CHECK_FAILED) = 503"
  "httpStatus (getErrorDefinition CAPABILITY_DISABLED) = 501"
  "httpStatus (getErrorDefinition TENANT_REQUIRED) = 400"
  "httpStatus (getErrorDefinition TENANT_INVALID) = 400"
  "httpStatus (getErrorDefinition TENANT_MISMATCH) = 403"
  "httpStatus (getErrorDefinition TENANT_NOT_FOUND) = 404"
  "httpStatus (getErrorDefinition TENANT_INACTIVE) = 403"
  "httpStatus (getErrorDefinition TENANT_SIGNUP_CLOSED) = 403"
  "httpStatus (getErrorDefinition USER_NOT_FOUND) = 404"
  "httpStatus (getErrorDefinition USER_ALREADY_EXISTS) = 409"
  "httpStatus (getErrorDefinition USER_LAST_ADMIN) = 409"
  "httpStatus (getErrorDefinition AUTH_INVALID_CREDENTIALS) = 401"
  "httpStatus (getErrorDefinition AUTH_TOKEN_INVALID) = 401"
  "httpStatus (getErrorDefinition AUTH_TOKEN_REVOKED) = 401"
  "httpStatus (getErrorDefinition AUTH_ACCOUNT_INACTIVE) = 401"
  "httpStatus (getErrorDefinition AUTH_LOGIN_LOCKED) = 429"
  "httpStatus (getErrorDefinition AUTH_CSRF_REJECTED) = 403"
  "httpStatus (getErrorDefinition AUTH_CURRENT_PASSWORD_REQUIRED) = 403"
  "httpStatus (getErrorDefinition OAUTH_ACCOUNT_EXISTS) = 409"
  "httpStatus (getErrorDefinition OAUTH_NOT_CONFIGURED) = 501"
  "httpStatus (getErrorDefinition OAUTH_STATE_INVALID) = 400"
  "httpStatus (getErrorDefinition OAUTH_CODE_INVALID) = 401"
  "httpStatus (getErrorDefinition API_KEY_UNKNOWN) = 401"
  "httpStatus (getErrorDefinition SIGNATURE_INVALID) = 401"
  "httpStatus (getErrorDefinition SIGNATURE_EXPIRED) = 401"
  "httpStatus (getErrorDefinition NONCE_REUSED) = 401"
  by (simp_all add: catalog_column [where f = httpStatus] catalog_status)

lemma error_retryable [error_simps]:
  "retryable (getErrorDefinition BAD_REQUEST) = False"
  "retryable (getErrorDefinition VALIDATION_FAILED) = False"
  "retryable (getErrorDefinition FAILED_PRECONDITION) = False"
  "retryable (getErrorDefinition UNAUTHORIZED) = False"
  "retryable (getErrorDefinition FORBIDDEN) = False"
  "retryable (getErrorDefinition NOT_FOUND) = False"
  "retryable (getErrorDefinition METHOD_NOT_ALLOWED) = False"
  "retryable (getErrorDefinition CONFLICT) = False"
  "retryable (getErrorDefinition ABORTED) = True"
  "retryable (getErrorDefinition PAYLOAD_TOO_LARGE) = False"
  "retryable (getErrorDefinition UNSUPPORTED_MEDIA_TYPE) = False"
  "retryable (getErrorDefinition UNPROCESSABLE) = False"
  "retryable (getErrorDefinition RATE_LIMITED) = True"
  "retryable (getErrorDefinition CANCELLED) = False"
  "retryable (getErrorDefinition INTERNAL) = False"
  "retryable (getErrorDefinition NOT_IMPLEMENTED) = False"
  "retryable (getErrorDefinition BAD_GATEWAY) = True"
  "retryable (getErrorDefinition SERVICE_UNAVAILABLE) = True"
  "retryable (getErrorDefinition GATEWAY_TIMEOUT) = True"
  "retryable (getErrorDefinition INTERNAL_ERROR) = False"
  "retryable (getErrorDefinition HTTP_ERROR) = False"
  "retryable (getErrorDefinition HEALTH_CHECK_FAILED) = True"
  "retryable (getErrorDefinition CAPABILITY_DISABLED) = False"
  "retryable (getErrorDefinition TENANT_REQUIRED) = False"
  "retryable (getErrorDefinition TENANT_INVALID) = False"
  "retryable (getErrorDefinition TENANT_MISMATCH) = False"
  "retryable (getErrorDefinition TENANT_NOT_FOUND) = False"
  "retryable (getErrorDefinition TENANT_INACTIVE) = False"
  "retryable (getErrorDefinition TENANT_SIGNUP_CLOSED) = False"
  "retryable (getErrorDefinition USER_NOT_FOUND) = False"
  "retryable (getErrorDefinition USER_ALREADY_EXISTS) = False"
  "retryable (getErrorDefinition USER_LAST_ADMIN) = False"
  "retryable (getErrorDefinition AUTH_INVALID_CREDENTIALS) = False"
  "retryable (getErrorDefinition AUTH_TOKEN_INVALID) = False"
  "retryable (getErrorDefinition AUTH_TOKEN_REVOKED) = False"
  "retryable (getErrorDefinition AUTH_ACCOUNT_INACTIVE) = False"
  "retryable (getErrorDefinition AUTH_LOGIN_LOCKED) = True"
  "retryable (getErrorDefinition AUTH_CSRF_REJECTED) = False"
  "retryable (getErrorDefinition AUTH_CURRENT_PASSWORD_REQUIRED) = False"
  "retryable (getErrorDefinition OAUTH_ACCOUNT_EXISTS) = False"
  "retryable (getErrorDefinition OAUTH_NOT_CONFIGURED) = False"
  "retryable (getErrorDefinition OAUTH_STATE_INVALID) = False"
  "retryable (getErrorDefinition OAUTH_CODE_INVALID) = False"
  "retryable (getErrorDefinition API_KEY_UNKNOWN) = False"
  "retryable (getErrorDefinition SIGNATURE_INVALID) = False"
  "retryable (getErrorDefinition SIGNATURE_EXPIRED) = False"
  "retryable (getErrorDefinition NONCE_REUSED) = False"
  by (simp_all add: catalog_column [where f = retryable] catalog_retryable)

lemma generic_http_entries:
  "\<forall>(s, c) \<in> set GENERIC_BY_HTTP_STATUS. httpStatus (getErrorDefinition c) = s"
  by (simp add: GENERIC_BY_HTTP_STATUS_def error_status)

lemma generic_rpc_entries:
  "n \<notin> {Unknown, OutOfRange, DataLoss} \<Longrightarrow> rpcCode (getErrorDefinition (GENERIC_BY_RPC_CODE n)) = n"
  by (cases n) (simp_all add: catalog_column [where f = rpcCode] catalog_rpc)

lemma rpcCodeName_Number: "rpcCodeName (rpcCodeNumber n) = Some n"
  by (cases n) (simp_all add: rpcCodeName_def rpcCodeNumber_def RPC_CODES_def)

subsection \<open>Kebab case and back\<close>

lemma upper_lower:
  assumes "is_upper ch"
  shows "upper_char (lower_char ch) = [ch] \<and> lower_char ch \<noteq> CHR ''-'' \<and>
    lower_char ch \<noteq> CHR ''_'' \<and> ch \<noteq> CHR ''-''"
proof -
  define n :: nat where "n = of_char ch"
  from assms have n: "65 \<le> n" "n \<le> 90" by (simp_all add: is_upper_def n_def)
  have low: "lower_char ch = char_of (n + 32)"
    using n by (simp add: lower_char_def Let_def n_def)
  have code: "of_char (lower_char ch) = n + 32"
    using n by (simp add: low)
  have "upper_char (lower_char ch) = [char_of n]"
    unfolding upper_char_def code Let_def using n by simp
  moreover have "char_of n = ch" by (simp add: n_def)
  moreover have "lower_char ch \<noteq> CHR ''-''" "lower_char ch \<noteq> CHR ''_''" "ch \<noteq> CHR ''-''"
    using n code by (auto simp: n_def)
  ultimately show ?thesis by simp
qed

text \<open>Lower-casing with underscores as hyphens is undone character by character.\<close>

definition kebab_char :: "char \<Rightarrow> char" where
  "kebab_char ch = (if lower_char ch = CHR ''_'' then CHR ''-'' else lower_char ch)"

lemma kebab_char_undo:
  assumes "is_upper ch \<or> ch = CHR ''_''"
  shows "map (\<lambda>c. if c = CHR ''-'' then CHR ''_'' else c) (upper_char (kebab_char ch)) = [ch]"
proof (cases "is_upper ch")
  case True
  then show ?thesis using upper_lower [OF True] by (simp add: kebab_char_def)
next
  case False
  with assms have "ch = CHR ''_''" by simp
  then show ?thesis by (simp add: kebab_char_def lower_char_def upper_char_def)
qed

lemma kebab_undo:
  assumes "\<forall>ch \<in> set s. is_upper ch \<or> ch = CHR ''_''"
  shows "replace_char CHR ''-'' CHR ''_'' (to_upper (replace_char CHR ''_'' CHR ''-'' (to_lower s))) = s"
proof -
  have "replace_char CHR ''_'' CHR ''-'' (to_lower s) = map kebab_char s"
    by (simp add: replace_char_def to_lower_def kebab_char_def)
  moreover have "concat (map (\<lambda>ch. map (\<lambda>c. if c = CHR ''-'' then CHR ''_'' else c)
      (upper_char (kebab_char ch))) s) = s"
    using assms
  proof (induction s)
    case (Cons a s)
    then have a: "is_upper a \<or> a = CHR ''_''" and s: "\<forall>ch \<in> set s. is_upper ch \<or> ch = CHR ''_''"
      by simp_all
    show ?case using kebab_char_undo [OF a] Cons.IH [OF s] by simp
  qed simp
  ultimately show ?thesis
    by (simp add: replace_char_def to_upper_def map_concat comp_def)
qed

lemma code_text_chars: "\<forall>ch \<in> set (error_code_text c). is_upper ch \<or> ch = CHR ''_''"
  by (cases c) (simp_all add: is_upper_def)

subsection \<open>Properties\<close>

text \<open>The problem type URI of every code resolves back to that code, so a client can
  recover the code from \<open>type\<close> alone, as the catalog's header promises.\<close>

theorem errorTypeUri_roundtrip: "errorCodeFromTypeUri (errorTypeUri c) = Some c"
  by (simp add: errorCodeFromTypeUri_def errorTypeUri_def kebab_undo code_text_chars isErrorCode_text)

text \<open>Every catalog entry stands under its own code, has an error status (400 to 599)
  and a public message, and is deprecated exactly when it names a successor, which is a
  live entry.\<close>

theorem catalog_well_formed:
  "\<forall>(c, d) \<in> set ERROR_CATALOG.
     code d = c \<and> 400 \<le> httpStatus d \<and> httpStatus d < 600 \<and> publicMessage d \<noteq> [] \<and>
     (case replacedBy d of
        None \<Rightarrow> \<not> deprecated d
      | Some s \<Rightarrow> deprecated d \<and> \<not> deprecated (getErrorDefinition s))"
  by (simp add: catalog_defs getErrorDefinition_def)

lemma catalog_well_formed_witness:
  "(NOT_FOUND, getErrorDefinition NOT_FOUND) \<in> set ERROR_CATALOG
   \<and> code (getErrorDefinition NOT_FOUND) = NOT_FOUND"
proof -
  have m: "(NOT_FOUND, getErrorDefinition NOT_FOUND) \<in> set ERROR_CATALOG"
    using catalog_lookup by (rule map_of_SomeD)
  show ?thesis using m bspec [OF catalog_well_formed m] by simp
qed

text \<open>The generic code chosen for a transport status has that status when the table
  lists it; any other 4xx becomes a 400 entry and anything else a 500 entry. For an RPC
  code, name and number agree, and the generic entry carries the RPC code it was chosen
  for except for the three codes the catalog folds into another entry.\<close>

theorem generic_codes_keep_status:
  "httpStatus (getErrorDefinition (errorCodeForHttpStatus status)) =
     (if status \<in> fst ` set GENERIC_BY_HTTP_STATUS then status
      else if 400 \<le> status \<and> status < 500 then 400 else 500)
   \<and> errorCodeForRpcCode (Inr (rpcCodeNumber n)) = errorCodeForRpcCode (Inl n)
   \<and> (n \<in> {Unknown, OutOfRange, DataLoss} \<or>
      rpcCode (getErrorDefinition (errorCodeForRpcCode (Inl n))) = n)"
proof (intro conjI)
  show "httpStatus (getErrorDefinition (errorCodeForHttpStatus status)) =
     (if status \<in> fst ` set GENERIC_BY_HTTP_STATUS then status
      else if 400 \<le> status \<and> status < 500 then 400 else 500)"
  proof (cases "map_of GENERIC_BY_HTTP_STATUS status")
    case None
    then have "status \<notin> fst ` set GENERIC_BY_HTTP_STATUS"
      by (simp add: map_of_eq_None_iff)
    then show ?thesis using None by (simp add: errorCodeForHttpStatus_def error_status)
  next
    case (Some c)
    then have "(status, c) \<in> set GENERIC_BY_HTTP_STATUS" by (rule map_of_SomeD)
    then show ?thesis
      using Some generic_http_entries by (force simp: errorCodeForHttpStatus_def)
  qed
qed (use generic_rpc_entries in \<open>auto simp: errorCodeForRpcCode_def rpcCodeName_Number\<close>)

end
