(* ===== verification/Errors.thy ===== *)
theory Errors
  imports Error_Catalog
begin

text \<open>
  Thrown values and their normalisation: \<open>common/errors/app-error.ts\<close>,
  \<open>common/errors/validation.ts\<close>, \<open>common/errors/normalize.ts\<close>,
  \<open>common/errors/problem-details.ts\<close> and \<open>infrastructure/capability/permanent-failure.ts\<close>
  of the backend. A thrown value is an element of \<open>thrown\<close>: the \<open>instanceof\<close> tests of the
  sources are its constructors. The reason phrases of Node's \<open>STATUS_CODES\<close> and the
  printing of numbers are arguments of the definitions that use them.
\<close>

record field_violation =
  field :: string
  description :: string

datatype thrown =
    AppError (app_code: error_code) (app_detail: "string option")
      (app_violations: "field_violation list") (app_metadata: "(string \<times> string) list")
      (app_cause: "thrown option")
  | HttpException (http_status: rat) (http_response: json)
  | CapabilityDisabledError string "string option"
  | CircuitBreakerOpenError string
  | PlainError (plain_name: string) (plain_message: string) (plain_props: "(string \<times> json) list")
  | NonError json

text \<open>\<open>new AppError(code)\<close>, \<open>new AppError(code, { detail })\<close> and the other option forms.\<close>

definition app_error :: "error_code \<Rightarrow> thrown" where
  "app_error c = AppError c None [] [] None"

definition app_error_detail :: "error_code \<Rightarrow> string \<Rightarrow> thrown" where
  "app_error_detail c d = AppError c (Some d) [] [] None"

definition app_error_metadata :: "error_code \<Rightarrow> (string \<times> string) list \<Rightarrow> thrown" where
  "app_error_metadata c m = AppError c None [] m None"

definition app_error_cause :: "error_code \<Rightarrow> thrown \<Rightarrow> thrown" where
  "app_error_cause c e = AppError c None [] [] (Some e)"

definition app_error_validation :: "field_violation list \<Rightarrow> string option \<Rightarrow> thrown" where
  "app_error_validation vs d = AppError VALIDATION_FAILED d vs [] None"

fun isAppError :: "thrown \<Rightarrow> bool" where
  "isAppError (AppError _ _ _ _ _) = True"
| "isAppError _ = False"

text \<open>\<open>err instanceof CapabilityDisabledError\<close>.\<close>

fun is_disabled :: "thrown \<Rightarrow> bool" where
  "is_disabled (CapabilityDisabledError _ _) = True"
| "is_disabled _ = False"

text \<open>\<open>err.name\<close> of a thrown \<open>Error\<close>.\<close>

fun error_name :: "thrown \<Rightarrow> string option" where
  "error_name (AppError _ _ _ _ _) = Some ''AppError''"
| "error_name (HttpException _ _) = Some ''HttpException''"
| "error_name (CapabilityDisabledError _ _) = Some ''CapabilityDisabledError''"
| "error_name (CircuitBreakerOpenError _) = Some ''CircuitBreakerOpenError''"
| "error_name (PlainError n _ _) = Some n"
| "error_name (NonError _) = None"

subsection \<open>Field violations\<close>

datatype validation_error =
  ValidationError (ve_property: string) (ve_constraints: "(string \<times> string) list")
    (ve_children: "validation_error list")

fun fieldViolationsFromValidationErrors ::
  "validation_error list \<Rightarrow> string \<Rightarrow> field_violation list" where
  "fieldViolationsFromValidationErrors [] parent = []"
| "fieldViolationsFromValidationErrors (ValidationError prop cs children # es) parent =
     (let fld = (if parent \<noteq> [] then parent @ ''.'' @ prop else prop) in
      map (\<lambda>(_, d). \<lparr>field = fld, description = d\<rparr>) cs @
      (if children \<noteq> [] then fieldViolationsFromValidationErrors children fld else []) @
      fieldViolationsFromValidationErrors es parent)"

definition validationExceptionFactory :: "validation_error list \<Rightarrow> thrown" where
  "validationExceptionFactory es =
     app_error_validation (fieldViolationsFromValidationErrors es []) None"

text \<open>\<open>/^property (\S+) should not exist$/\<close>: the first group of a match.\<close>

definition whitelist_field :: "string \<Rightarrow> string option" where
  "whitelist_field s =
     (let pre = ''property ''; post = '' should not exist'';
          mid = drop (length pre) (take (length s - length post) s) in
      if starts_with pre s \<and> ends_with post s \<and> length pre + length post < length s
         \<and> (\<forall>c \<in> set mid. \<not> is_space c)
      then Some mid else None)"

text \<open>\<open>/^([A-Za-z_$][\w$]*(?:\.[\w$]+)*) /\<close>: neither part of the path holds a space, so the
  group is the text before the first space when that text is a path.\<close>

definition is_path_char :: "char \<Rightarrow> bool" where
  "is_path_char c \<longleftrightarrow> is_word_char c \<or> c = CHR ''$''"

definition is_field_path :: "string \<Rightarrow> bool" where
  "is_field_path s =
     (case split_on CHR ''.'' s of
        [] \<Rightarrow> False
      | p # ps \<Rightarrow>
          (case p of [] \<Rightarrow> False
           | c # cs \<Rightarrow> (is_path_char c \<and> \<not> is_digit c) \<and> (\<forall>x \<in> set cs. is_path_char x))
          \<and> (\<forall>q \<in> set ps. q \<noteq> [] \<and> (\<forall>x \<in> set q. is_path_char x)))"

definition leading_field :: "string \<Rightarrow> string option" where
  "leading_field s =
     (let lead = takeWhile (\<lambda>c. c \<noteq> CHR '' '') s in
      if length lead < length s \<and> is_field_path lead then Some lead else None)"

text \<open>\<open>String(m)\<close> on a decoded value; the printing of a number is a parameter.\<close>

fun js_String :: "(rat \<Rightarrow> string) \<Rightarrow> json \<Rightarrow> string"
  and js_join :: "(rat \<Rightarrow> string) \<Rightarrow> json list \<Rightarrow> string" where
  "js_String num JNull = ''null''"
| "js_String num (JBool b) = (if b then ''true'' else ''false'')"
| "js_String num (JNum n) = num n"
| "js_String num (JStr s) = s"
| "js_String num (JArr xs) = js_join num xs"
| "js_String num (JObj _) = ''[object Object]''"
| "js_join num [] = []"
| "js_join num (x # xs) =
     (if x = JNull then [] else js_String num x) @
     (if xs = [] then [] else '','' @ js_join num xs)"

definition fieldViolationsFromMessages :: "(rat \<Rightarrow> string) \<Rightarrow> json list \<Rightarrow> field_violation list" where
  "fieldViolationsFromMessages num ms =
     map (\<lambda>m. let desc = js_String num m in
        case whitelist_field desc of
          Some f \<Rightarrow> \<lparr>field = f, description = desc\<rparr>
        | None \<Rightarrow>
            \<lparr>field = (case leading_field desc of Some f \<Rightarrow> f | None \<Rightarrow> []), description = desc\<rparr>) ms"

subsection \<open>Normalisation\<close>

datatype probe_status = ProbeUp | ProbeDown

record health_check_status =
  hc_name :: string
  hc_status :: probe_status

record normalized_error =
  ne_code :: error_code
  ne_definition :: error_definition
  ne_httpStatus :: rat
  ne_detail :: "string option"
  ne_fieldViolations :: "field_violation list"
  ne_metadata :: "(string \<times> string) list"
  ne_checks :: "health_check_status list option"
  ne_unexpected :: bool
  ne_cause :: thrown

definition KNOWN_ERROR_NAMES :: "(string \<times> error_code) list" where
  "KNOWN_ERROR_NAMES = [(''CapabilityDisabledError'', CAPABILITY_DISABLED),
     (''CircuitBreakerOpenError'', SERVICE_UNAVAILABLE)]"

definition resolved :: "error_code \<Rightarrow> thrown \<Rightarrow> normalized_error" where
  "resolved c cause =
     (let def = getErrorDefinition c in
      \<lparr>ne_code = c, ne_definition = def, ne_httpStatus = httpStatus def, ne_detail = None,
       ne_fieldViolations = [], ne_metadata = [], ne_checks = None, ne_unexpected = False,
       ne_cause = cause\<rparr>)"

definition healthChecks :: "(string \<times> json) list \<Rightarrow> health_check_status list option" where
  "healthChecks body =
     (if js_prop body ''status'' \<noteq> Some (JStr ''error'') then None
      else case js_prop body ''details'' of
        Some (JObj details) \<Rightarrow>
          Some (map (\<lambda>(name, probe).
            \<lparr>hc_name = name,
             hc_status = (case js_record probe of
                Some p \<Rightarrow> if js_prop p ''status'' = Some (JStr ''up'') then ProbeUp else ProbeDown
              | None \<Rightarrow> ProbeDown)\<rparr>) details)
      | _ \<Rightarrow> None)"

text \<open>\<open>FRAMEWORK_MESSAGES\<close>: \<open>/^Cannot [A-Z]+ /\<close>, \<open>/^ThrottlerException/\<close>, \<open>/^Too Many Requests$/\<close>.\<close>

definition is_framework_message :: "string \<Rightarrow> bool" where
  "is_framework_message m \<longleftrightarrow>
     (starts_with ''Cannot '' m \<and>
      (let rest = drop 7 m; verb = takeWhile is_upper rest in
       verb \<noteq> [] \<and> starts_with '' '' (drop (length verb) rest)))
     \<or> starts_with ''ThrottlerException'' m \<or> m = ''Too Many Requests''"

definition isDefaultMessage ::
  "(rat \<Rightarrow> string option) \<Rightarrow> string \<Rightarrow> rat \<Rightarrow> (string \<times> json) list option \<Rightarrow> error_definition \<Rightarrow> bool"
where
  "isDefaultMessage status_codes m status body def \<longleftrightarrow>
     is_framework_message m
     \<or> (case body of Some b \<Rightarrow> js_prop b ''error'' = Some (JStr m) | None \<Rightarrow> False)
     \<or> status_codes status = Some m
     \<or> m = publicMessage def
     \<or> isErrorCode m \<noteq> None"

text \<open>\<open>fromHttpException\<close>. The local variables of the source are the fields of the tuple
  the branches on the response build: code, message, field violations, checks.\<close>

definition http_exception_parts ::
  "(rat \<Rightarrow> string) \<Rightarrow> rat \<Rightarrow> json \<Rightarrow>
   error_code option \<times> string option \<times> field_violation list \<times> health_check_status list option" where
  "http_exception_parts num status response =
     (case response of
        JStr s \<Rightarrow> (None, Some s, [], None)
      | JObj body \<Rightarrow>
          (let code0 = (case js_prop body ''code'' of Some (JStr c) \<Rightarrow> isErrorCode c | _ \<Rightarrow> None);
               checks = (if status = 503 then healthChecks body else None);
               code1 = (if checks \<noteq> None \<and> code0 = None then Some HEALTH_CHECK_FAILED else code0) in
           case js_prop body ''message'' of
             Some (JArr ms) \<Rightarrow>
               (if code1 = None \<and> status = 400 then Some VALIDATION_FAILED else code1, None,
                fieldViolationsFromMessages num ms, checks)
           | Some (JStr m) \<Rightarrow> (code1, Some m, [], checks)
           | _ \<Rightarrow> (code1, None, [], checks))
      | _ \<Rightarrow> (None, None, [], None))"

definition fromHttpException ::
  "(rat \<Rightarrow> string option) \<Rightarrow> (rat \<Rightarrow> string) \<Rightarrow> rat \<Rightarrow> json \<Rightarrow> normalized_error" where
  "fromHttpException status_codes num status response =
     (case http_exception_parts num status response of (code0, message, violations, checks) \<Rightarrow>
        let code1 = (case code0 of
                Some c \<Rightarrow> Some c
              | None \<Rightarrow> (case message of
                  Some m \<Rightarrow> if m \<noteq> [] then isErrorCode m else None | None \<Rightarrow> None));
            c = (case code1 of Some c \<Rightarrow> c | None \<Rightarrow> errorCodeForHttpStatus status);
            def = getErrorDefinition c;
            detail = (case message of
                Some m \<Rightarrow>
                  if m \<noteq> [] \<and> checks = None
                     \<and> \<not> isDefaultMessage status_codes m status (js_record response) def
                  then Some m else None
              | None \<Rightarrow> None) in
        (resolved c (HttpException status response))
          \<lparr>ne_httpStatus := status, ne_detail := detail, ne_fieldViolations := violations,
           ne_checks := checks\<rparr>)"

text \<open>\<open>fromHttpErrorsLike\<close>: a status that is not a number, zero or outside \<open>[400, 500)\<close> gives
  \<open>undefined\<close>.\<close>

definition http_like_status :: "(string \<times> json) list \<Rightarrow> rat option" where
  "http_like_status props =
     (case js_prop props ''status'' of
        Some (JNum n) \<Rightarrow> Some n
      | _ \<Rightarrow> (case js_prop props ''statusCode'' of Some (JNum n) \<Rightarrow> Some n | _ \<Rightarrow> None))"

definition fromHttpErrorsLike :: "(string \<times> json) list \<Rightarrow> thrown \<Rightarrow> normalized_error option" where
  "fromHttpErrorsLike props err =
     (case http_like_status props of
        Some n \<Rightarrow>
          if js_prop props ''expose'' \<noteq> Some (JBool True) \<or> n = 0 \<or> n < 400 \<or> n \<ge> 500
          then None
          else Some ((resolved (errorCodeForHttpStatus n) err)
            \<lparr>ne_httpStatus := n,
             ne_detail := (if js_prop props ''type'' = Some (JStr ''entity.parse.failed'')
                           then Some ''The request body is not valid JSON.'' else None)\<rparr>)
      | None \<Rightarrow> None)"

definition error_props :: "thrown \<Rightarrow> (string \<times> json) list" where
  "error_props err = (case err of PlainError _ _ props \<Rightarrow> props | _ \<Rightarrow> [])"

definition normalizeError ::
  "(rat \<Rightarrow> string option) \<Rightarrow> (rat \<Rightarrow> string) \<Rightarrow> thrown \<Rightarrow> normalized_error" where
  "normalizeError status_codes num err =
     (case err of
        AppError c d vs m cause \<Rightarrow>
          (resolved c (option_or cause err))
            \<lparr>ne_detail := d, ne_fieldViolations := vs, ne_metadata := m\<rparr>
      | HttpException status response \<Rightarrow> fromHttpException status_codes num status response
      | _ \<Rightarrow>
          (case error_name err of
             Some name \<Rightarrow>
               (case map_of KNOWN_ERROR_NAMES name of
                  Some known \<Rightarrow> resolved known err
                | None \<Rightarrow>
                    (case fromHttpErrorsLike (error_props err) err of
                       Some e \<Rightarrow> e
                     | None \<Rightarrow> (resolved INTERNAL err)\<lparr>ne_unexpected := True\<rparr>))
           | None \<Rightarrow> (resolved INTERNAL err)\<lparr>ne_unexpected := True\<rparr>))"

subsection \<open>Problem details and permanent failures\<close>

record problem_details =
  pd_type :: string
  pd_title :: string
  pd_status :: rat
  pd_instance :: string
  pd_code :: error_code
  pd_traceId :: string
  pd_retryable :: bool
  pd_detail :: "string option"
  pd_errors :: "field_violation list option"
  pd_checks :: "health_check_status list option"

definition toProblemDetails :: "normalized_error \<Rightarrow> string \<Rightarrow> string \<Rightarrow> problem_details" where
  "toProblemDetails err inst trace =
     \<lparr>pd_type = errorTypeUri (ne_code err), pd_title = publicMessage (ne_definition err),
      pd_status = ne_httpStatus err, pd_instance = inst, pd_code = ne_code err,
      pd_traceId = trace, pd_retryable = retryable (ne_definition err),
      pd_detail = (case ne_detail err of Some d \<Rightarrow> if d \<noteq> [] then Some d else None | None \<Rightarrow> None),
      pd_errors = (if ne_fieldViolations err \<noteq> [] then Some (ne_fieldViolations err) else None),
      pd_checks = ne_checks err\<rparr>"

definition pathOf :: "string option \<Rightarrow> string" where
  "pathOf url =
     (let p = takeWhile (\<lambda>c. c \<noteq> CHR ''?'') (option_or url ''/'') in if p = [] then ''/'' else p)"

definition isPermanentFailure :: "thrown \<Rightarrow> bool" where
  "isPermanentFailure err \<longleftrightarrow>
     (case err of
        AppError c _ _ _ _ \<Rightarrow>
          (let status = httpStatus (getErrorDefinition c) in
           400 \<le> status \<and> status < 500 \<and> status \<noteq> 408 \<and> status \<noteq> 429)
      | _ \<Rightarrow> False)"

subsection \<open>Lemmas\<close>

lemma resolved_simps [error_simps]:
  "ne_code (resolved c e) = c" "ne_definition (resolved c e) = getErrorDefinition c"
  "ne_httpStatus (resolved c e) = httpStatus (getErrorDefinition c)"
  "ne_detail (resolved c e) = None" "ne_fieldViolations (resolved c e) = []"
  "ne_metadata (resolved c e) = []" "ne_checks (resolved c e) = None"
  "ne_unexpected (resolved c e) = False" "ne_cause (resolved c e) = e"
  by (simp_all add: resolved_def Let_def)

lemma fromHttpException_fields [error_simps]:
  "ne_definition (fromHttpException sc num st resp) = getErrorDefinition (ne_code (fromHttpException sc num st resp))"
  "ne_httpStatus (fromHttpException sc num st resp) = st"
  "ne_unexpected (fromHttpException sc num st resp) = False"
  "ne_metadata (fromHttpException sc num st resp) = []"
  by (simp_all add: fromHttpException_def Let_def resolved_simps split: prod.split)

lemma fromHttpErrorsLike_fields:
  assumes "fromHttpErrorsLike props err = Some e"
  shows "ne_definition e = getErrorDefinition (ne_code e) \<and> \<not> ne_unexpected e
    \<and> 400 \<le> ne_httpStatus e \<and> ne_httpStatus e < 500"
  using assms
  by (auto simp: fromHttpErrorsLike_def resolved_simps split: option.splits if_splits)

lemma normalizeError_definition:
  "ne_definition (normalizeError sc num err) = getErrorDefinition (ne_code (normalizeError sc num err))"
  by (auto simp: normalizeError_def resolved_simps fromHttpException_fields dest: fromHttpErrorsLike_fields
    split: thrown.split option.split)

text \<open>What an unanticipated error normalises to.\<close>

lemma normalizeError_unexpected_eq:
  assumes "ne_unexpected (normalizeError sc num err)"
  shows "normalizeError sc num err = (resolved INTERNAL err)\<lparr>ne_unexpected := True\<rparr>"
  using assms
  by (auto simp: normalizeError_def resolved_simps fromHttpException_fields dest: fromHttpErrorsLike_fields
    split: thrown.splits option.splits)

subsection \<open>Properties\<close>

text \<open>Errors nobody anticipated are indistinguishable to a caller: any two of them give
  the same problem body, the bare 500 INTERNAL entry with no detail, field or probe.\<close>

theorem unexpected_errors_disclose_nothing:
  assumes "ne_unexpected (normalizeError sc num e1)" and "ne_unexpected (normalizeError sc num e2)"
  shows "toProblemDetails (normalizeError sc num e1) inst trace =
         toProblemDetails (normalizeError sc num e2) inst trace
    \<and> pd_code (toProblemDetails (normalizeError sc num e1) inst trace) = INTERNAL
    \<and> pd_status (toProblemDetails (normalizeError sc num e1) inst trace) = 500
    \<and> pd_detail (toProblemDetails (normalizeError sc num e1) inst trace) = None"
  unfolding normalizeError_unexpected_eq [OF assms(1)] normalizeError_unexpected_eq [OF assms(2)]
  by (simp add: toProblemDetails_def resolved_simps error_status)

lemma unexpected_errors_disclose_nothing_witness:
  "toProblemDetails (normalizeError (\<lambda>_. None) (\<lambda>_. []) (NonError JNull)) ''/p'' ''t'' =
   toProblemDetails (normalizeError (\<lambda>_. None) (\<lambda>_. [])
     (PlainError ''MongoError'' ''E11000 mongo.internal'' [])) ''/p'' ''t''"
proof -
  have "ne_unexpected (normalizeError (\<lambda>_. None) (\<lambda>_. []) (NonError JNull))"
    by (simp add: normalizeError_def resolved_simps)
  moreover have "ne_unexpected (normalizeError (\<lambda>_. None) (\<lambda>_. [])
      (PlainError ''MongoError'' ''E11000 mongo.internal'' []))"
    by (simp add: normalizeError_def resolved_simps KNOWN_ERROR_NAMES_def fromHttpErrorsLike_def
      http_like_status_def error_props_def js_prop_def)
  ultimately show ?thesis by (rule unexpected_errors_disclose_nothing [THEN conjunct1])
qed

text \<open>The detail of a normalised HttpException is the thrower's own text: never a
  framework message, a bare error code, the status's reason phrase or the catalog title,
  and never alongside probe results; the thrower's status is kept.\<close>

theorem http_exception_detail_is_the_throwers:
  assumes "ne_detail (normalizeError sc num (HttpException st resp)) = Some d"
  shows "\<not> is_framework_message d \<and> isErrorCode d = None \<and> sc st \<noteq> Some d
    \<and> d \<noteq> publicMessage (ne_definition (normalizeError sc num (HttpException st resp)))
    \<and> ne_checks (normalizeError sc num (HttpException st resp)) = None
    \<and> ne_httpStatus (normalizeError sc num (HttpException st resp)) = st"
  using assms
  by (auto simp: normalizeError_def fromHttpException_def Let_def isDefaultMessage_def resolved_simps
    split: prod.splits option.splits if_splits)

lemma http_exception_detail_is_the_throwers_witness:
  "\<not> is_framework_message ''Avatar too large'' \<and>
   ne_detail (normalizeError (\<lambda>_. None) (\<lambda>_. []) (HttpException 400 (JStr ''Avatar too large''))) =
     Some ''Avatar too large''"
proof -
  have d: "ne_detail (normalizeError (\<lambda>_. None) (\<lambda>_. []) (HttpException 400 (JStr ''Avatar too large''))) =
     Some ''Avatar too large''"
    by (simp add: normalizeError_def fromHttpException_def http_exception_parts_def isDefaultMessage_def
      is_framework_message_def starts_with_def isErrorCode_def error_codes_eq
      errorCodeForHttpStatus_def GENERIC_BY_HTTP_STATUS_def catalog_column [where f = publicMessage]
      catalog_defs)
  show ?thesis using http_exception_detail_is_the_throwers [OF d] d by simp
qed

text \<open>Every thrown value renders as a problem document whose type URI, code, title and
  retryability all name one catalog entry.\<close>

theorem problem_details_name_one_entry:
  "errorCodeFromTypeUri (pd_type (toProblemDetails (normalizeError sc num err) inst trace)) =
     Some (pd_code (toProblemDetails (normalizeError sc num err) inst trace))
   \<and> pd_title (toProblemDetails (normalizeError sc num err) inst trace) =
     publicMessage (getErrorDefinition (pd_code (toProblemDetails (normalizeError sc num err) inst trace)))
   \<and> pd_retryable (toProblemDetails (normalizeError sc num err) inst trace) =
     retryable (getErrorDefinition (pd_code (toProblemDetails (normalizeError sc num err) inst trace)))"
proof -
  have "errorCodeFromTypeUri (errorTypeUri c) = Some c" for c
    by (simp add: errorCodeFromTypeUri_def errorTypeUri_def kebab_undo code_text_chars isErrorCode_text)
  then show ?thesis by (simp add: toProblemDetails_def normalizeError_definition)
qed

text \<open>The failures job and workflow adapters give up on at once are AppErrors the catalog
  marks as not retryable, with one exception: ABORTED, which the catalog calls retryable,
  is treated as permanent because its status is 409.\<close>

theorem permanent_failure_retryable_only_aborted:
  "isPermanentFailure (AppError c d vs m cause) \<and> retryable (getErrorDefinition c) \<longleftrightarrow> c = ABORTED"
  by (cases c) (simp_all add: isPermanentFailure_def error_status error_retryable)

end
