(* ===== verification/Redis.thy ===== *)
theory Redis
  imports Errors
begin

text \<open>
  What the adapters rely on of the Redis server and its client, as an interface. The server
  is a parameter with a state of its own; \<open>redis_ok\<close> states the documented effect of the
  commands the sources use, on the observed key space, at one time of the server's clock
  (milliseconds). A Lua script passed to EVAL is a program over the same commands and runs
  atomically. A command that errors may or may not have been applied; of a pipeline each
  command is applied in order with its own reply, and when the call itself fails any of them
  may have been applied.
\<close>

type_synonym redis_entry = "string \<times> nat option"

type_synonym redis_db = "string \<Rightarrow> redis_entry option"

datatype redis_reply = ROk | RNil | RInt int | RBulk string | RArr "redis_reply list"

text \<open>The value of a key that has not expired, and its remaining life.\<close>

definition live_entry :: "nat \<Rightarrow> redis_db \<Rightarrow> string \<Rightarrow> redis_entry option" where
  "live_entry now db k =
     (case db k of
        Some (v, Some d) \<Rightarrow> if now < d then Some (v, Some d) else None
      | e \<Rightarrow> e)"

definition live :: "nat \<Rightarrow> redis_db \<Rightarrow> string \<Rightarrow> string option" where
  "live now db k = map_option fst (live_entry now db k)"

text \<open>Primitive commands, shared by the client calls and the scripts.\<close>

definition redis_expire_at :: "nat \<Rightarrow> nat \<Rightarrow> string \<Rightarrow> redis_db \<Rightarrow> int \<times> redis_db" where
  "redis_expire_at now deadline k db =
     (case live now db k of
        Some v \<Rightarrow> (1, db(k := Some (v, Some deadline)))
      | None \<Rightarrow> (0, db))"

definition redis_del :: "nat \<Rightarrow> string \<Rightarrow> redis_db \<Rightarrow> int \<times> redis_db" where
  "redis_del now k db = (case live now db k of Some _ \<Rightarrow> (1, db(k := None)) | None \<Rightarrow> (0, db))"

definition redis_incr :: "nat \<Rightarrow> string \<Rightarrow> redis_db \<Rightarrow> (nat \<times> redis_db) option" where
  "redis_incr now k db =
     (case live_entry now db k of
        None \<Rightarrow> Some (1, db(k := Some (show_nat 1, None)))
      | Some (v, d) \<Rightarrow>
          (case parse_nat v of
             Some n \<Rightarrow> Some (Suc n, db(k := Some (show_nat (Suc n), d)))
           | None \<Rightarrow> None))"

text \<open>TTL: whole seconds, rounded half up; \<open>-1\<close> without expiry, \<open>-2\<close> without key.\<close>

definition redis_ttl :: "nat \<Rightarrow> string \<Rightarrow> redis_db \<Rightarrow> int" where
  "redis_ttl now k db =
     (case live_entry now db k of
        None \<Rightarrow> - 2
      | Some (_, None) \<Rightarrow> - 1
      | Some (_, Some d) \<Rightarrow> int ((d - now + 500) div 1000))"

type_synonym lua_script = "nat \<Rightarrow> redis_db \<Rightarrow> (redis_reply \<times> redis_db) option"

datatype redis_cmd =
    RGet string
  | RSet string string "nat option" bool
  | RDel "string list"
  | RExists string
  | RExpire string nat
  | REval lua_script

text \<open>\<open>RSet k v px nx\<close>: a lifetime in milliseconds if given, only if absent when \<open>nx\<close>.\<close>

fun redis_apply :: "nat \<Rightarrow> redis_cmd \<Rightarrow> redis_db \<Rightarrow> (redis_reply \<times> redis_db) option" where
  "redis_apply now (RGet k) db =
     Some (case live now db k of Some v \<Rightarrow> RBulk v | None \<Rightarrow> RNil, db)"
| "redis_apply now (RSet k v px nx) db =
     Some (if nx \<and> live now db k \<noteq> None then (RNil, db)
           else (ROk, db(k := Some (v, map_option ((+) now) px))))"
| "redis_apply now (RDel ks) db =
     Some (case foldl (\<lambda>(n, m) k. case redis_del now k m of (i, m') \<Rightarrow> (n + i, m')) (0, db) ks of
       (n, db') \<Rightarrow> (RInt n, db'))"
| "redis_apply now (RExists k) db = Some (RInt (if live now db k \<noteq> None then 1 else 0), db)"
| "redis_apply now (RExpire k secs) db =
     Some (case redis_expire_at now (now + 1000 * secs) k db of (n, db') \<Rightarrow> (RInt n, db'))"
| "redis_apply now (REval script) db = script now db"

text \<open>One command with its outcome: a reply is the documented one; after an error the command
  was applied or was not.\<close>

definition redis_step :: "nat \<Rightarrow> redis_cmd \<Rightarrow> thrown + redis_reply \<Rightarrow> redis_db \<Rightarrow> redis_db \<Rightarrow> bool" where
  "redis_step now c res db db' =
     (case res of
        Inr rep \<Rightarrow> redis_apply now c db = Some (rep, db')
      | Inl _ \<Rightarrow> db' = db \<or> (\<exists>rep. redis_apply now c db = Some (rep, db')))"

fun redis_chain ::
  "nat \<Rightarrow> redis_cmd list \<Rightarrow> (thrown + redis_reply) list \<Rightarrow> redis_db \<Rightarrow> redis_db \<Rightarrow> bool" where
  "redis_chain now [] [] db db' \<longleftrightarrow> db' = db"
| "redis_chain now (c # cs) (x # xs) db db' \<longleftrightarrow>
     (\<exists>db1. redis_step now c x db db1 \<and> redis_chain now cs xs db1 db')"
| "redis_chain now _ _ db db' \<longleftrightarrow> False"

type_synonym 'r redis_exec = "nat \<Rightarrow> redis_cmd \<Rightarrow> 'r \<Rightarrow> (thrown + redis_reply) \<times> 'r"

text \<open>\<open>pipeline.exec()\<close>; its promise resolves to \<open>null\<close> only for an aborted transaction, which
  the sources do not use.\<close>

type_synonym 'r redis_pipe =
  "nat \<Rightarrow> redis_cmd list \<Rightarrow> 'r \<Rightarrow> (thrown + (thrown + redis_reply) list option) \<times> 'r"

definition redis_exec_ok :: "'r redis_exec \<Rightarrow> ('r \<Rightarrow> redis_db) \<Rightarrow> bool" where
  "redis_exec_ok exec view \<longleftrightarrow>
     (\<forall>now c r res r'. exec now c r = (res, r') \<longrightarrow> redis_step now c res (view r) (view r'))"

definition redis_pipe_ok :: "'r redis_pipe \<Rightarrow> ('r \<Rightarrow> redis_db) \<Rightarrow> bool" where
  "redis_pipe_ok pipe view \<longleftrightarrow>
     (\<forall>now cs r res r'. pipe now cs r = (res, r') \<longrightarrow>
        (case res of
           Inr (Some reps) \<Rightarrow> redis_chain now cs reps (view r) (view r')
         | Inr None \<Rightarrow> False
         | Inl e \<Rightarrow> redis_chain now cs (replicate (length cs) (Inl e)) (view r) (view r')))"

locale redis_server =
  fixes exec :: "'r redis_exec" and pipe :: "'r redis_pipe" and view :: "'r \<Rightarrow> redis_db"
  assumes exec_ok: "redis_exec_ok exec view" and pipe_ok: "redis_pipe_ok pipe view"
begin

lemma exec_Inr: "exec now c r = (Inr rep, r') \<Longrightarrow> redis_apply now c (view r) = Some (rep, view r')"
  using exec_ok unfolding redis_exec_ok_def redis_step_def by fastforce

lemma exec_Inl:
  "exec now c r = (Inl e, r') \<Longrightarrow>
   view r' = view r \<or> (\<exists>rep. redis_apply now c (view r) = Some (rep, view r'))"
  using exec_ok unfolding redis_exec_ok_def redis_step_def by fastforce

lemma exec_any:
  "exec now c r = (res, r') \<Longrightarrow>
   view r' = view r \<or> (\<exists>rep. redis_apply now c (view r) = Some (rep, view r'))"
  by (cases res) (auto dest: exec_Inr exec_Inl)

lemma pipe_Inr:
  "pipe now cs r = (Inr reps, r') \<Longrightarrow> \<exists>xs. reps = Some xs \<and> redis_chain now cs xs (view r) (view r')"
  using pipe_ok unfolding redis_pipe_ok_def by (cases reps) fastforce+

lemma pipe_Inl:
  "pipe now cs r = (Inl e, r') \<Longrightarrow>
   redis_chain now cs (replicate (length cs) (Inl e)) (view r) (view r')"
  using pipe_ok unfolding redis_pipe_ok_def by fastforce

end

text \<open>A server that never fails, for concrete runs.\<close>

definition sure_exec :: "redis_db redis_exec" where
  "sure_exec now c db =
     (case redis_apply now c db of
        Some (rep, db') \<Rightarrow> (Inr rep, db')
      | None \<Rightarrow> (Inl (PlainError ''ReplyError'' ''ERR'' []), db))"

fun sure_run :: "nat \<Rightarrow> redis_cmd list \<Rightarrow> redis_db \<Rightarrow> (thrown + redis_reply) list \<times> redis_db" where
  "sure_run now [] db = ([], db)"
| "sure_run now (c # cs) db =
     (case sure_exec now c db of (x, db1) \<Rightarrow>
       (case sure_run now cs db1 of (xs, db2) \<Rightarrow> (x # xs, db2)))"

definition sure_pipe :: "redis_db redis_pipe" where
  "sure_pipe now cs db = (case sure_run now cs db of (xs, db') \<Rightarrow> (Inr (Some xs), db'))"

lemma sure_exec_step: "sure_exec now c db = (x, db') \<Longrightarrow> redis_step now c x db db'"
  by (auto simp: sure_exec_def redis_step_def split: option.splits)

lemma sure_run_chain: "sure_run now cs db = (xs, db') \<Longrightarrow> redis_chain now cs xs db db'"
  by (induction cs arbitrary: db xs) (fastforce dest: sure_exec_step split: prod.splits)+

interpretation sure: redis_server sure_exec sure_pipe "\<lambda>db. db"
  by unfold_locales
    (auto simp: redis_exec_ok_def redis_pipe_ok_def sure_pipe_def sure_exec_step sure_run_chain
      split: prod.splits)

subsection \<open>Facts about the commands\<close>

lemma live_upd: "live now (db(k := e)) j = (if j = k then live now (\<lambda>_. e) k else live now db j)"
  by (simp add: live_def live_entry_def)

lemma live_const [store_simps]:
  "live now (\<lambda>_. Some (v, Some d)) k = (if now < d then Some v else None)"
  "live now (\<lambda>_. Some (v, None)) k = Some v" "live now (\<lambda>_. None) k = None"
  by (simp_all add: live_def live_entry_def)

lemma live_later: "now \<le> t \<Longrightarrow> live t db k = Some v \<Longrightarrow> live now db k = Some v"
  by (auto simp: live_def live_entry_def split: option.splits prod.splits if_splits)

lemma live_later_None: "now \<le> t \<Longrightarrow> live now db k = None \<Longrightarrow> live t db k = None"
  by (metis live_later not_Some_eq)

lemma redis_chain_length: "redis_chain now cs xs db db' \<Longrightarrow> length xs = length cs"
  by (induction now cs xs db db' rule: redis_chain.induct) auto

end
