(* ===== verification/Stores.thy ===== *)
theory Stores
  imports Redis
begin

text \<open>
  The stores the rest of the backend shares, as their Redis adapters implement them: leases
  (\<open>infrastructure/lock\<close>), idempotency markers (\<open>infrastructure/dedup\<close>), fixed-window counters
  (\<open>infrastructure/ratelimit\<close>) and keyed state (\<open>infrastructure/kv\<close>), with the TTL check of
  \<open>infrastructure/capability/ttl.ts\<close>. Each adapter is a function of the server, the clock
  and its state. The ports are locales: what a caller may rely on. \<open>sublocale\<close> commands show
  that each adapter over any Redis server satisfies its port.
\<close>

subsection \<open>TTL check\<close>

text \<open>The printed value at the end of the message is left out.\<close>

definition range_error :: "string \<Rightarrow> thrown" where
  "range_error label = PlainError ''RangeError'' (label @ '' must be a positive integer'') []"

definition assertPositiveInteger :: "rat \<Rightarrow> string \<Rightarrow> thrown + unit" where
  "assertPositiveInteger value label =
     (if \<not> positive_integer value then Inl (range_error label) else Inr ())"

definition as_nat :: "rat \<Rightarrow> nat" where
  "as_nat r = nat \<lfloor>r\<rfloor>"

lemma as_nat_of_nat [simp]: "as_nat (of_nat n) = n"
  by (simp add: as_nat_def)

lemma as_nat_numeral [simp]: "as_nat (numeral n) = numeral n"
  by (simp add: as_nat_def)

lemma positive_integer_numeral [simp]: "positive_integer (numeral n)"
  by (simp add: positive_integer_def)

subsection \<open>Leases\<close>

record lease =
  lease_key :: string
  lease_token :: string

definition RENEW_IF_OWNER :: "string \<Rightarrow> string \<Rightarrow> nat \<Rightarrow> lua_script" where
  "RENEW_IF_OWNER key token ttl now db =
     Some (if live now db key = Some token
           then (case redis_expire_at now (now + ttl) key db of (n, db') \<Rightarrow> (RInt n, db'))
           else (RInt 0, db))"

definition RELEASE_IF_OWNER :: "string \<Rightarrow> string \<Rightarrow> lua_script" where
  "RELEASE_IF_OWNER key token now db =
     Some (if live now db key = Some token
           then (case redis_del now key db of (n, db') \<Rightarrow> (RInt n, db'))
           else (RInt 0, db))"

text \<open>\<open>token\<close> is the \<open>randomUUID()\<close> of the call.\<close>

definition lock_acquire ::
  "'r redis_exec \<Rightarrow> string \<Rightarrow> nat \<Rightarrow> string \<Rightarrow> rat \<Rightarrow> 'r \<Rightarrow> (thrown + lease option) \<times> 'r" where
  "lock_acquire exec token now key ttlMs r =
     (case assertPositiveInteger ttlMs ''Lock ttlMs'' of
        Inl e \<Rightarrow> (Inl e, r)
      | Inr _ \<Rightarrow>
          (case exec now (RSet key token (Some (as_nat ttlMs)) True) r of
             (Inl e, r') \<Rightarrow> (Inl e, r')
           | (Inr rep, r') \<Rightarrow>
               (Inr (if rep \<noteq> ROk then None else Some \<lparr>lease_key = key, lease_token = token\<rparr>), r')))"

definition lease_renew ::
  "'r redis_exec \<Rightarrow> nat \<Rightarrow> lease \<Rightarrow> rat \<Rightarrow> 'r \<Rightarrow> (thrown + bool) \<times> 'r" where
  "lease_renew exec now l nextTtlMs r =
     (case assertPositiveInteger nextTtlMs ''Lock ttlMs'' of
        Inl e \<Rightarrow> (Inl e, r)
      | Inr _ \<Rightarrow>
          (case exec now (REval (RENEW_IF_OWNER (lease_key l) (lease_token l) (as_nat nextTtlMs))) r of
             (Inl e, r') \<Rightarrow> (Inl e, r')
           | (Inr rep, r') \<Rightarrow> (Inr (rep = RInt 1), r')))"

definition lease_release :: "'r redis_exec \<Rightarrow> nat \<Rightarrow> lease \<Rightarrow> 'r \<Rightarrow> (thrown + bool) \<times> 'r" where
  "lease_release exec now l r =
     (case exec now (REval (RELEASE_IF_OWNER (lease_key l) (lease_token l))) r of
        (Inl e, r') \<Rightarrow> (Inl e, r')
      | (Inr rep, r') \<Rightarrow> (Inr (rep = RInt 1), r'))"

subsection \<open>Idempotency markers\<close>

definition ANONYMOUS_OWNER :: string where
  "ANONYMOUS_OWNER = ''1''"

definition DEDUP_EXTEND_IF_OWNER :: "string \<Rightarrow> string \<Rightarrow> nat \<Rightarrow> lua_script" where
  "DEDUP_EXTEND_IF_OWNER key owner secs now db =
     Some (if live now db key = Some owner
           then (case redis_expire_at now (now + 1000 * secs) key db of (n, db') \<Rightarrow> (RInt n, db'))
           else (RInt 0, db))"

definition DEDUP_RELEASE_IF_OWNER :: "string \<Rightarrow> string \<Rightarrow> lua_script" where
  "DEDUP_RELEASE_IF_OWNER key owner now db =
     Some (if live now db key = Some owner
           then (case redis_del now key db of (n, db') \<Rightarrow> (RInt n, db'))
           else (RInt 0, db))"

text \<open>\<open>answers\<close>: the first error is thrown, else every reply is judged.\<close>

fun answers :: "(redis_reply \<Rightarrow> bool) \<Rightarrow> (thrown + redis_reply) list \<Rightarrow> thrown + bool list" where
  "answers ok [] = Inr []"
| "answers ok (Inl e # rs) = Inl e"
| "answers ok (Inr x # rs) =
     (case answers ok rs of Inl e \<Rightarrow> Inl e | Inr bs \<Rightarrow> Inr (ok x # bs))"

definition replies_or_none :: "(thrown + redis_reply) list option \<Rightarrow> (thrown + redis_reply) list" where
  "replies_or_none reps = option_or reps []"

definition releaseMany ::
  "'r redis_pipe \<Rightarrow> nat \<Rightarrow> string list \<Rightarrow> string option \<Rightarrow> 'r \<Rightarrow> (thrown + bool list) \<times> 'r" where
  "releaseMany pipe now keys owner r =
     (if keys = [] then (Inr [], r)
      else case pipe now (map (\<lambda>k. case owner of None \<Rightarrow> RDel [k]
                                 | Some w \<Rightarrow> REval (DEDUP_RELEASE_IF_OWNER k w)) keys) r of
        (Inl e, r') \<Rightarrow> (Inl e, r')
      | (Inr reps, r') \<Rightarrow> (answers (\<lambda>x. x = RInt 1) (replies_or_none reps), r'))"

definition first_failure :: "(thrown + redis_reply) list \<Rightarrow> thrown option" where
  "first_failure reps = (case find isl reps of Some (Inl e) \<Rightarrow> Some e | _ \<Rightarrow> None)"

definition won_keys :: "string list \<Rightarrow> (thrown + redis_reply) list \<Rightarrow> string list" where
  "won_keys keys reps = map fst (filter (\<lambda>(k, x). x = Inr ROk) (zip keys reps))"

definition claimMany ::
  "'r redis_exec \<Rightarrow> 'r redis_pipe \<Rightarrow> nat \<Rightarrow> string list \<Rightarrow> rat \<Rightarrow> string option \<Rightarrow> 'r
   \<Rightarrow> (thrown + bool list) \<times> 'r" where
  "claimMany exec pipe now keys ttlSeconds owner_arg r =
     (let owner = option_or owner_arg ANONYMOUS_OWNER in
      case assertPositiveInteger ttlSeconds ''Dedup ttlSeconds'' of
        Inl e \<Rightarrow> (Inl e, r)
      | Inr _ \<Rightarrow>
          if keys = [] then (Inr [], r)
          else case pipe now (map (\<lambda>k. RSet k owner (Some (1000 * as_nat ttlSeconds)) True) keys) r of
            (Inl e, r1) \<Rightarrow>
              (Inl e, if owner \<noteq> ANONYMOUS_OWNER then snd (releaseMany pipe now keys (Some owner) r1)
                      else r1)
          | (Inr reps, r1) \<Rightarrow>
              (case first_failure (replies_or_none reps) of
                 Some failure \<Rightarrow>
                   (let won = won_keys keys (replies_or_none reps) in
                    (Inl failure, if won \<noteq> [] then snd (exec now (RDel won) r1) else r1))
               | None \<Rightarrow> (answers (\<lambda>x. x = ROk) (replies_or_none reps), r1)))"

definition extendMany ::
  "'r redis_pipe \<Rightarrow> nat \<Rightarrow> string list \<Rightarrow> rat \<Rightarrow> string option \<Rightarrow> 'r \<Rightarrow> (thrown + bool list) \<times> 'r"
where
  "extendMany pipe now keys ttlSeconds owner r =
     (case assertPositiveInteger ttlSeconds ''Dedup ttlSeconds'' of
        Inl e \<Rightarrow> (Inl e, r)
      | Inr _ \<Rightarrow>
          if keys = [] then (Inr [], r)
          else case pipe now (map (\<lambda>k. case owner of None \<Rightarrow> RExpire k (as_nat ttlSeconds)
                    | Some w \<Rightarrow> REval (DEDUP_EXTEND_IF_OWNER k w (as_nat ttlSeconds))) keys) r of
            (Inl e, r') \<Rightarrow> (Inl e, r')
          | (Inr reps, r') \<Rightarrow> (answers (\<lambda>x. x = RInt 1) (replies_or_none reps), r'))"

text \<open>\<open>(await ...Many([key]))[0]\<close>: a missing answer is \<open>undefined\<close>, which is false.\<close>

definition first_answer :: "(thrown + bool list) \<times> 'r \<Rightarrow> (thrown + bool) \<times> 'r" where
  "first_answer res =
     (case res of
        (Inl e, r) \<Rightarrow> (Inl e, r)
      | (Inr [], r) \<Rightarrow> (Inr False, r)
      | (Inr (b # _), r) \<Rightarrow> (Inr b, r))"

definition dedup_claim ::
  "'r redis_exec \<Rightarrow> 'r redis_pipe \<Rightarrow> nat \<Rightarrow> string \<Rightarrow> rat \<Rightarrow> string option \<Rightarrow> 'r \<Rightarrow> (thrown + bool) \<times> 'r"
where
  "dedup_claim exec pipe now key ttl owner r = first_answer (claimMany exec pipe now [key] ttl owner r)"

definition dedup_extend ::
  "'r redis_pipe \<Rightarrow> nat \<Rightarrow> string \<Rightarrow> rat \<Rightarrow> string option \<Rightarrow> 'r \<Rightarrow> (thrown + bool) \<times> 'r" where
  "dedup_extend pipe now key ttl owner r = first_answer (extendMany pipe now [key] ttl owner r)"

definition dedup_release ::
  "'r redis_pipe \<Rightarrow> nat \<Rightarrow> string \<Rightarrow> string option \<Rightarrow> 'r \<Rightarrow> (thrown + bool) \<times> 'r" where
  "dedup_release pipe now key owner r = first_answer (releaseMany pipe now [key] owner r)"

subsection \<open>Fixed-window counters\<close>

record rate_limit_policy =
  rl_limit :: rat
  rl_windowSeconds :: rat

record rate_limit_result =
  rl_allowed :: bool
  rl_remaining :: rat
  rl_resetSeconds :: int

definition assertRateLimitPolicy :: "rate_limit_policy \<Rightarrow> thrown + unit" where
  "assertRateLimitPolicy p =
     (case assertPositiveInteger (rl_limit p) ''Rate limit `limit`'' of
        Inl e \<Rightarrow> Inl e
      | Inr _ \<Rightarrow> assertPositiveInteger (rl_windowSeconds p) ''Rate limit `windowSeconds`'')"

definition toRateLimitResult :: "rate_limit_policy \<Rightarrow> int \<Rightarrow> int \<Rightarrow> rate_limit_result" where
  "toRateLimitResult p count reset =
     \<lparr>rl_allowed = (of_int count \<le> rl_limit p), rl_remaining = max 0 (rl_limit p - of_int count),
      rl_resetSeconds = reset\<rparr>"

definition HIT :: "string \<Rightarrow> nat \<Rightarrow> lua_script" where
  "HIT key window now db =
     (case redis_incr now key db of
        None \<Rightarrow> None
      | Some (count, db1) \<Rightarrow>
          (let ttl = redis_ttl now key db1 in
           if ttl < 0
           then Some (RArr [RInt (int count), RInt (int window)],
                      snd (redis_expire_at now (now + 1000 * window) key db1))
           else Some (RArr [RInt (int count), RInt ttl], db1)))"

text \<open>The script answers two integers; any other reply is no \<open>[number, number]\<close>.\<close>

definition ratelimit_hit ::
  "'r redis_exec \<Rightarrow> nat \<Rightarrow> string \<Rightarrow> rate_limit_policy \<Rightarrow> 'r
   \<Rightarrow> (thrown + rate_limit_result) \<times> 'r" where
  "ratelimit_hit exec now key p r =
     (case assertRateLimitPolicy p of
        Inl e \<Rightarrow> (Inl e, r)
      | Inr _ \<Rightarrow>
          (case exec now (REval (HIT key (as_nat (rl_windowSeconds p)))) r of
             (Inl e, r') \<Rightarrow> (Inl e, r')
           | (Inr (RArr [RInt count, RInt ttl]), r') \<Rightarrow> (Inr (toRateLimitResult p count ttl), r')
           | (Inr _, r') \<Rightarrow> (Inl (PlainError ''TypeError'' ''object is not iterable'' []), r')))"

subsection \<open>Keyed state\<close>

definition KV_CODEC_VERSION :: rat where
  "KV_CODEC_VERSION = 1"

definition kv_decode_error :: "string \<Rightarrow> thrown" where
  "kv_decode_error key =
     PlainError ''KvDecodeError'' (''KV value at '' @ key @ '' is not a v1 envelope'') []"

text \<open>\<open>JSON.stringify\<close> and \<open>JSON.parse\<close> are arguments; a value is \<open>None\<close> when \<open>undefined\<close>.\<close>

definition encodeKvValue :: "(json \<Rightarrow> string) \<Rightarrow> json option \<Rightarrow> thrown + string" where
  "encodeKvValue stringify value =
     (case value of
        None \<Rightarrow> Inl (PlainError ''TypeError'' ''Cannot store undefined in kv; use del()'' [])
      | Some v \<Rightarrow> Inr (stringify (JObj [(''v'', JNum KV_CODEC_VERSION), (''d'', v)])))"

definition decodeKvValue ::
  "(string \<Rightarrow> json option) \<Rightarrow> string \<Rightarrow> string option \<Rightarrow> thrown + json option" where
  "decodeKvValue parse key raw =
     (case raw of
        None \<Rightarrow> Inr None
      | Some text \<Rightarrow>
          (case parse text of
             Some (JObj parsed) \<Rightarrow>
               if js_prop parsed ''v'' \<noteq> Some (JNum KV_CODEC_VERSION) \<or> \<not> js_has parsed ''d''
               then Inl (kv_decode_error key)
               else Inr (js_prop parsed ''d'')
           | _ \<Rightarrow> Inl (kv_decode_error key)))"

record kv_write_options =
  kw_ttlSeconds :: "rat option"
  kw_persistent :: "bool option"

text \<open>\<open>None\<close> in the answer is \<open>null\<close>: no expiry.\<close>

definition resolveKvLifetime :: "kv_write_options \<Rightarrow> thrown + nat option" where
  "resolveKvLifetime opts =
     (if kw_persistent opts = Some True \<and> kw_ttlSeconds opts = None then Inr None
      else if kw_persistent opts = None
      then (case kw_ttlSeconds opts of
              None \<Rightarrow> Inl (range_error ''KV ttlSeconds'')
            | Some ttl \<Rightarrow>
                (case assertPositiveInteger ttl ''KV ttlSeconds'' of
                   Inl e \<Rightarrow> Inl e
                 | Inr _ \<Rightarrow> Inr (Some (as_nat ttl))))
      else Inl (PlainError ''TypeError''
        ''KV write needs exactly one of { ttlSeconds } or { persistent: true }'' []))"

definition kv_get ::
  "'r redis_exec \<Rightarrow> (string \<Rightarrow> json option) \<Rightarrow> nat \<Rightarrow> string \<Rightarrow> 'r \<Rightarrow> (thrown + json option) \<times> 'r" where
  "kv_get exec parse now key r =
     (case exec now (RGet key) r of
        (Inl e, r') \<Rightarrow> (Inl e, r')
      | (Inr rep, r') \<Rightarrow>
          (decodeKvValue parse key (case rep of RBulk s \<Rightarrow> Some s | _ \<Rightarrow> None), r'))"

definition kv_set ::
  "'r redis_exec \<Rightarrow> (json \<Rightarrow> string) \<Rightarrow> nat \<Rightarrow> string \<Rightarrow> json option \<Rightarrow> kv_write_options \<Rightarrow> 'r
   \<Rightarrow> (thrown + unit) \<times> 'r" where
  "kv_set exec stringify now key value opts r =
     (case resolveKvLifetime opts of
        Inl e \<Rightarrow> (Inl e, r)
      | Inr ttl \<Rightarrow>
          (case encodeKvValue stringify value of
             Inl e \<Rightarrow> (Inl e, r)
           | Inr encoded \<Rightarrow>
               (case exec now (RSet key encoded (map_option (\<lambda>s. 1000 * s) ttl) False) r of
                  (Inl e, r') \<Rightarrow> (Inl e, r')
                | (Inr _, r') \<Rightarrow> (Inr (), r'))))"

definition kv_del :: "'r redis_exec \<Rightarrow> nat \<Rightarrow> string \<Rightarrow> 'r \<Rightarrow> (thrown + bool) \<times> 'r" where
  "kv_del exec now key r =
     (case exec now (RDel [key]) r of
        (Inl e, r') \<Rightarrow> (Inl e, r')
      | (Inr rep, r') \<Rightarrow> (Inr (case rep of RInt n \<Rightarrow> n > 0 | _ \<Rightarrow> False), r'))"

definition kv_exists :: "'r redis_exec \<Rightarrow> nat \<Rightarrow> string \<Rightarrow> 'r \<Rightarrow> (thrown + bool) \<times> 'r" where
  "kv_exists exec now key r =
     (case exec now (RExists key) r of
        (Inl e, r') \<Rightarrow> (Inl e, r')
      | (Inr rep, r') \<Rightarrow> (Inr (case rep of RInt n \<Rightarrow> n > 0 | _ \<Rightarrow> False), r'))"

subsection \<open>The lease port\<close>

text \<open>Other callers at work: any acquires, and renewals and releases of leases that do not
  carry the token \<open>tok\<close>, while time passes.\<close>

inductive others_run ::
  "(string \<Rightarrow> nat \<Rightarrow> string \<Rightarrow> rat \<Rightarrow> 's \<Rightarrow> (thrown + lease option) \<times> 's)
   \<Rightarrow> (nat \<Rightarrow> lease \<Rightarrow> rat \<Rightarrow> 's \<Rightarrow> (thrown + bool) \<times> 's)
   \<Rightarrow> (nat \<Rightarrow> lease \<Rightarrow> 's \<Rightarrow> (thrown + bool) \<times> 's)
   \<Rightarrow> string \<Rightarrow> nat \<Rightarrow> 's \<Rightarrow> nat \<Rightarrow> 's \<Rightarrow> bool"
  for acquire renew release tok where
  wait: "n \<le> n' \<Longrightarrow> others_run acquire renew release tok n s n' s"
| acquire: "others_run acquire renew release tok n s n1 s1 \<Longrightarrow> n1 \<le> n2
    \<Longrightarrow> acquire other n2 k ttl s1 = (res, s2) \<Longrightarrow> others_run acquire renew release tok n s n2 s2"
| renew: "others_run acquire renew release tok n s n1 s1 \<Longrightarrow> n1 \<le> n2 \<Longrightarrow> lease_token l \<noteq> tok
    \<Longrightarrow> renew n2 l ttl s1 = (res', s2) \<Longrightarrow> others_run acquire renew release tok n s n2 s2"
| release: "others_run acquire renew release tok n s n1 s1 \<Longrightarrow> n1 \<le> n2 \<Longrightarrow> lease_token l \<noteq> tok
    \<Longrightarrow> release n2 l s1 = (res', s2) \<Longrightarrow> others_run acquire renew release tok n s n2 s2"

locale lock_port =
  fixes acquire :: "string \<Rightarrow> nat \<Rightarrow> string \<Rightarrow> rat \<Rightarrow> 's \<Rightarrow> (thrown + lease option) \<times> 's"
    and renew :: "nat \<Rightarrow> lease \<Rightarrow> rat \<Rightarrow> 's \<Rightarrow> (thrown + bool) \<times> 's"
    and release :: "nat \<Rightarrow> lease \<Rightarrow> 's \<Rightarrow> (thrown + bool) \<times> 's"
    and owner :: "nat \<Rightarrow> 's \<Rightarrow> string \<Rightarrow> string option"
  assumes owner_decays: "now \<le> t \<Longrightarrow> owner t s k = Some w \<Longrightarrow> owner now s k = Some w"
    and acquire_won: "acquire tok now k ttl s = (Inr (Some l), s') \<Longrightarrow>
      l = \<lparr>lease_key = k, lease_token = tok\<rparr> \<and> owner now s k = None
      \<and> (\<forall>t. now \<le> t \<and> t < now + as_nat ttl \<longrightarrow> owner t s' k = Some tok)"
    and acquire_keeps: "acquire tok now k ttl s = (res, s') \<Longrightarrow> owner now s j = Some w \<Longrightarrow> now \<le> t \<Longrightarrow>
      owner t s' j = owner t s j"
    and renew_won: "renew now l ttl s = (Inr b, s') \<Longrightarrow>
      (b \<longleftrightarrow> owner now s (lease_key l) = Some (lease_token l))
      \<and> (b \<longrightarrow> (\<forall>t. now \<le> t \<and> t < now + as_nat ttl \<longrightarrow> owner t s' (lease_key l) = Some (lease_token l)))"
    and renew_keeps: "renew now l ttl s = (res', s') \<Longrightarrow>
      owner now s j \<noteq> Some (lease_token l) \<or> j \<noteq> lease_key l \<Longrightarrow> now \<le> t \<Longrightarrow> owner t s' j = owner t s j"
    and release_won: "release now l s = (Inr b, s') \<Longrightarrow>
      (b \<longleftrightarrow> owner now s (lease_key l) = Some (lease_token l))
      \<and> (b \<longrightarrow> (\<forall>t \<ge> now. owner t s' (lease_key l) = None))"
    and release_keeps: "release now l s = (res', s') \<Longrightarrow>
      owner now s j \<noteq> Some (lease_token l) \<or> j \<noteq> lease_key l \<Longrightarrow> now \<le> t \<Longrightarrow> owner t s' j = owner t s j"
begin

text \<open>A lease that others do not touch stays its holder's until its deadline.\<close>

lemma lease_survives_others:
  assumes "others_run acquire renew release tok n s n' s'"
    and "\<forall>t. n \<le> t \<and> t < deadline \<longrightarrow> owner t s k = Some tok"
  shows "\<forall>t. n' \<le> t \<and> t < deadline \<longrightarrow> owner t s' k = Some tok"
  using assms
proof induction
  case (acquire n s n1 s1 n2 other k' ttl res s2)
  show ?case
  proof (intro allI impI)
    fix t assume t: "n2 \<le> t \<and> t < deadline"
    have "owner n2 s1 k = Some tok" using acquire t by (meson le_trans order_le_less_trans order_refl)
    then show "owner t s2 k = Some tok" using acquire_keeps [OF acquire.hyps(3)] acquire t by auto
  qed
next
  case (renew n s n1 s1 n2 l ttl res' s2)
  show ?case
  proof (intro allI impI)
    fix t assume t: "n2 \<le> t \<and> t < deadline"
    have "owner n2 s1 k = Some tok" using renew t by (meson le_trans order_le_less_trans order_refl)
    then show "owner t s2 k = Some tok"
      using renew_keeps [OF renew.hyps(4), of k] renew t by auto
  qed
next
  case (release n s n1 s1 n2 l res' s2)
  show ?case
  proof (intro allI impI)
    fix t assume t: "n2 \<le> t \<and> t < deadline"
    have "owner n2 s1 k = Some tok" using release t by (meson le_trans order_le_less_trans order_refl)
    then show "owner t s2 k = Some tok"
      using release_keeps [OF release.hyps(4), of k] release t by auto
  qed
qed auto

lemma held_lease_excludes:
  assumes "owner now s k = Some tok" "tok' \<noteq> tok"
  shows "fst (acquire tok' now k ttl s) \<noteq> Inr (Some l)"
    and "fst (renew now \<lparr>lease_key = k, lease_token = tok'\<rparr> ttl s) \<noteq> Inr True"
    and "fst (release now \<lparr>lease_key = k, lease_token = tok'\<rparr> s) \<noteq> Inr True"
    and "fst (renew now \<lparr>lease_key = k, lease_token = tok\<rparr> ttl s) \<noteq> Inr False"
    and "fst (release now \<lparr>lease_key = k, lease_token = tok\<rparr> s) \<noteq> Inr False"
proof -
  show "fst (acquire tok' now k ttl s) \<noteq> Inr (Some l)"
    using acquire_won [of tok' now k ttl s l] assms by (cases "acquire tok' now k ttl s") auto
  show "fst (renew now \<lparr>lease_key = k, lease_token = tok'\<rparr> ttl s) \<noteq> Inr True"
    using renew_won [of now "\<lparr>lease_key = k, lease_token = tok'\<rparr>" ttl s True] assms
    by (cases "renew now \<lparr>lease_key = k, lease_token = tok'\<rparr> ttl s") auto
  show "fst (release now \<lparr>lease_key = k, lease_token = tok'\<rparr> s) \<noteq> Inr True"
    using release_won [of now "\<lparr>lease_key = k, lease_token = tok'\<rparr>" s True] assms
    by (cases "release now \<lparr>lease_key = k, lease_token = tok'\<rparr> s") auto
  show "fst (renew now \<lparr>lease_key = k, lease_token = tok\<rparr> ttl s) \<noteq> Inr False"
    using renew_won [of now "\<lparr>lease_key = k, lease_token = tok\<rparr>" ttl s False] assms
    by (cases "renew now \<lparr>lease_key = k, lease_token = tok\<rparr> ttl s") auto
  show "fst (release now \<lparr>lease_key = k, lease_token = tok\<rparr> s) \<noteq> Inr False"
    using release_won [of now "\<lparr>lease_key = k, lease_token = tok\<rparr>" s False] assms
    by (cases "release now \<lparr>lease_key = k, lease_token = tok\<rparr> s") auto
qed

end

lemma assertPositiveInteger_Inr: "assertPositiveInteger v label = Inr u \<longleftrightarrow> positive_integer v"
  by (simp add: assertPositiveInteger_def)

lemma live_set [store_simps]:
  "live t (db(k := Some (v, Some d))) j = (if j = k then (if t < d then Some v else None) else live t db j)"
  "live t (db(k := Some (v, None))) j = (if j = k then Some v else live t db j)"
  "live t (db(k := None)) j = (if j = k then None else live t db j)"
  by (simp_all add: live_def live_entry_def)

lemma redis_expire_at_live:
  "redis_expire_at now d k db = (n, db') \<Longrightarrow>
   (n = 1 \<longleftrightarrow> live now db k \<noteq> None)
   \<and> live t db' j = (if j = k \<and> live now db k \<noteq> None then (if t < d then live now db k else None)
                     else live t db j)"
  by (auto simp: redis_expire_at_def store_simps split: option.splits)

lemma redis_del_live:
  "redis_del now k db = (n, db') \<Longrightarrow>
   (n = 1 \<longleftrightarrow> live now db k \<noteq> None) \<and>
   (now \<le> t \<longrightarrow> live t db' j = (if j = k then None else live t db j))"
  by (auto simp: redis_del_def store_simps split: option.splits dest: live_later_None)

context redis_server
begin

lemma acquire_cases:
  assumes "lock_acquire exec tok now k ttl r = (res, r')"
  shows "view r' = view r \<and> (\<forall>l. res \<noteq> Inr (Some l))
    \<or> live now (view r) k = None \<and> view r' = (view r)(k := Some (tok, Some (now + as_nat ttl)))
      \<and> (\<forall>x. res = Inr x \<longrightarrow> x = Some \<lparr>lease_key = k, lease_token = tok\<rparr>)"
  using assms
  by (auto simp: lock_acquire_def dest!: exec_Inr exec_Inl split: sum.splits prod.splits if_splits)

lemma renew_cases:
  assumes "lease_renew exec now l ttl r = (res, r')"
  shows "view r' = view r \<and> res \<noteq> Inr True \<and> (res = Inr False \<longrightarrow> live now (view r) (lease_key l) \<noteq> Some (lease_token l))
    \<or> live now (view r) (lease_key l) = Some (lease_token l) \<and> res \<noteq> Inr False
      \<and> view r' = (view r)(lease_key l := Some (lease_token l, Some (now + as_nat ttl)))"
  using assms
  by (auto simp: lease_renew_def RENEW_IF_OWNER_def redis_expire_at_def dest!: exec_Inr exec_Inl
      split: sum.splits prod.splits if_splits)

lemma release_cases:
  assumes "lease_release exec now l r = (res, r')"
  shows "view r' = view r \<and> res \<noteq> Inr True \<and> (res = Inr False \<longrightarrow> live now (view r) (lease_key l) \<noteq> Some (lease_token l))
    \<or> live now (view r) (lease_key l) = Some (lease_token l) \<and> res \<noteq> Inr False
      \<and> view r' = (view r)(lease_key l := None)"
  using assms
  by (auto simp: lease_release_def RELEASE_IF_OWNER_def redis_del_def dest!: exec_Inr exec_Inl
      split: sum.splits prod.splits if_splits)

end

sublocale redis_server \<subseteq> lock: lock_port "lock_acquire exec" "lease_renew exec" "lease_release exec"
  "\<lambda>t r. live t (view r)"
proof
  fix now t s k w assume "now \<le> t" "live t (view s) k = Some w"
  then show "live now (view s) k = Some w" by (rule live_later)
next
  fix tok now k ttl s l s' assume "lock_acquire exec tok now k ttl s = (Inr (Some l), s')"
  then show "l = \<lparr>lease_key = k, lease_token = tok\<rparr> \<and> live now (view s) k = None
      \<and> (\<forall>t. now \<le> t \<and> t < now + as_nat ttl \<longrightarrow> live t (view s') k = Some tok)"
    using acquire_cases by (fastforce simp: store_simps)
next
  fix tok now k ttl s res s' j w t
  assume "lock_acquire exec tok now k ttl s = (res, s')" "live now (view s) j = Some w"
  then show "live t (view s') j = live t (view s) j" using acquire_cases by (fastforce simp: store_simps)
next
  fix now l ttl s b s' assume "lease_renew exec now l ttl s = (Inr b, s')"
  then show "(b \<longleftrightarrow> live now (view s) (lease_key l) = Some (lease_token l))
      \<and> (b \<longrightarrow> (\<forall>t. now \<le> t \<and> t < now + as_nat ttl \<longrightarrow> live t (view s') (lease_key l) = Some (lease_token l)))"
    using renew_cases by (cases b) (fastforce simp: store_simps)+
next
  fix now l ttl s res' s' j t
  assume "lease_renew exec now l ttl s = (res', s')"
    "live now (view s) j \<noteq> Some (lease_token l) \<or> j \<noteq> lease_key l"
  then show "live t (view s') j = live t (view s) j" using renew_cases by (fastforce simp: store_simps)
next
  fix now l s b s' assume "lease_release exec now l s = (Inr b, s')"
  then show "(b \<longleftrightarrow> live now (view s) (lease_key l) = Some (lease_token l))
      \<and> (b \<longrightarrow> (\<forall>t \<ge> now. live t (view s') (lease_key l) = None))"
    using release_cases by (cases b) (fastforce simp: store_simps)+
next
  fix now l s res' s' j t
  assume "lease_release exec now l s = (res', s')"
    "live now (view s) j \<noteq> Some (lease_token l) \<or> j \<noteq> lease_key l"
  then show "live t (view s') j = live t (view s) j" using release_cases by (fastforce simp: store_simps)
qed
subsection \<open>The dedup port\<close>

definition marker_owner :: "string option \<Rightarrow> string" where
  "marker_owner o' = option_or o' ANONYMOUS_OWNER"

text \<open>Whether an owner-checked call concerns a marker held by \<open>held\<close>.\<close>

definition concerns :: "string option \<Rightarrow> string option \<Rightarrow> bool" where
  "concerns caller held \<longleftrightarrow> (case caller of None \<Rightarrow> held \<noteq> None | Some w \<Rightarrow> held = Some w)"

locale dedup_port =
  fixes claim :: "nat \<Rightarrow> string \<Rightarrow> rat \<Rightarrow> string option \<Rightarrow> 's \<Rightarrow> (thrown + bool) \<times> 's"
    and extend :: "nat \<Rightarrow> string \<Rightarrow> rat \<Rightarrow> string option \<Rightarrow> 's \<Rightarrow> (thrown + bool) \<times> 's"
    and release :: "nat \<Rightarrow> string \<Rightarrow> string option \<Rightarrow> 's \<Rightarrow> (thrown + bool) \<times> 's"
    and marker :: "nat \<Rightarrow> 's \<Rightarrow> string \<Rightarrow> string option"
  assumes marker_decays: "now \<le> t \<Longrightarrow> marker t s k = Some w \<Longrightarrow> marker now s k = Some w"
    and claim_won: "claim now k ttl c s = (Inr True, s') \<Longrightarrow>
      positive_integer ttl \<and> marker now s k = None
      \<and> (\<forall>t \<ge> now. marker t s' k = (if t < now + 1000 * as_nat ttl then Some (marker_owner c) else None))"
    and claim_lost: "claim now k ttl c s = (Inr False, s') \<Longrightarrow> marker now s k \<noteq> None"
    and claim_keeps: "claim now k ttl c s = (res, s') \<Longrightarrow>
      j \<noteq> k \<or> (\<exists>w. marker now s j = Some w \<and> (w \<noteq> marker_owner c \<or> w = ANONYMOUS_OWNER \<or> res = Inr False))
      \<Longrightarrow> now \<le> t \<Longrightarrow> marker t s' j = marker t s j"
    and extend_won: "extend now k ttl c s = (Inr b, s') \<Longrightarrow>
      (b \<longleftrightarrow> concerns c (marker now s k))
      \<and> (b \<longrightarrow> (\<forall>t \<ge> now. marker t s' k = (if t < now + 1000 * as_nat ttl then marker now s k else None)))"
    and extend_keeps: "extend now k ttl c s = (res, s') \<Longrightarrow> j \<noteq> k \<or> \<not> concerns c (marker now s j) \<Longrightarrow>
      now \<le> t \<Longrightarrow> marker t s' j = marker t s j"
    and release_won: "release now k c s = (Inr b, s') \<Longrightarrow>
      (b \<longleftrightarrow> concerns c (marker now s k)) \<and> (b \<longrightarrow> (\<forall>t \<ge> now. marker t s' k = None))"
    and release_keeps: "release now k c s = (res, s') \<Longrightarrow> j \<noteq> k \<or> \<not> concerns c (marker now s j) \<Longrightarrow>
      now \<le> t \<Longrightarrow> marker t s' j = marker t s j"
begin

lemma claim_at_most_once:
  assumes "marker now s k \<noteq> None"
  shows "fst (claim now k ttl c s) \<noteq> Inr True"
  using claim_won [of now k ttl c s] assms by (cases "claim now k ttl c s") auto

end

lemma redis_chain_single:
  "redis_chain now [c] xs db db' \<longleftrightarrow> (\<exists>x. xs = [x] \<and> redis_step now c x db db')"
  by (cases xs) (auto elim: redis_chain.elims)

lemma release_cmd_cases:
  assumes "redis_step now (case c of None \<Rightarrow> RDel [k] | Some w \<Rightarrow> REval (DEDUP_RELEASE_IF_OWNER k w)) x db db'"
  shows "db' = db \<and> x \<noteq> Inr (RInt 1) \<and> (\<not> isl x \<longrightarrow> \<not> concerns c (live now db k))
    \<or> concerns c (live now db k) \<and> db' = db(k := None) \<and> (\<not> isl x \<longrightarrow> x = Inr (RInt 1))"
  using assms
  by (cases c; cases x)
    (auto simp: redis_step_def redis_del_def DEDUP_RELEASE_IF_OWNER_def concerns_def
      split: option.splits if_splits)

lemma extend_cmd_cases:
  assumes "redis_step now (case c of None \<Rightarrow> RExpire k n | Some w \<Rightarrow> REval (DEDUP_EXTEND_IF_OWNER k w n)) x db db'"
  shows "db' = db \<and> x \<noteq> Inr (RInt 1) \<and> (\<not> isl x \<longrightarrow> \<not> concerns c (live now db k))
    \<or> (\<exists>v. live now db k = Some v \<and> concerns c (Some v) \<and> db' = db(k := Some (v, Some (now + 1000 * n))))
      \<and> (\<not> isl x \<longrightarrow> x = Inr (RInt 1))"
  using assms
  by (cases c; cases x)
    (auto simp: redis_step_def redis_expire_at_def DEDUP_EXTEND_IF_OWNER_def concerns_def
      split: option.splits if_splits)

lemma claim_cmd_cases:
  assumes "redis_step now (RSet k w (Some n) True) x db db'"
  shows "db' = db \<and> x \<noteq> Inr ROk \<and> (\<not> isl x \<longrightarrow> live now db k \<noteq> None)
    \<or> live now db k = None \<and> db' = db(k := Some (w, Some (now + n))) \<and> (\<not> isl x \<longrightarrow> x = Inr ROk)"
  using assms by (cases x) (auto simp: redis_step_def split: if_splits)

context redis_server
begin

lemma dedup_release_cases:
  assumes "dedup_release pipe now k c r = (res, r')"
  shows "view r' = view r \<and> res \<noteq> Inr True \<and> (res = Inr False \<longrightarrow> \<not> concerns c (live now (view r) k))
    \<or> concerns c (live now (view r) k) \<and> view r' = (view r)(k := None) \<and> res \<noteq> Inr False"
proof (cases "pipe now [case c of None \<Rightarrow> RDel [k] | Some w \<Rightarrow> REval (DEDUP_RELEASE_IF_OWNER k w)] r")
  case (Pair out r1)
  have r1: "r1 = r'" and res: "res = fst (first_answer (case out of Inl e \<Rightarrow> (Inl e, r1)
      | Inr reps \<Rightarrow> (answers (\<lambda>x. x = RInt 1) (replies_or_none reps), r1)))"
    using assms Pair
    by (auto simp: dedup_release_def releaseMany_def first_answer_def split: sum.splits list.splits prod.splits)
  show ?thesis
  proof (cases out)
    case (Inl e)
    then have "redis_step now (case c of None \<Rightarrow> RDel [k] | Some w \<Rightarrow> REval (DEDUP_RELEASE_IF_OWNER k w))
        (Inl e) (view r) (view r')"
      using pipe_Inl Pair r1 by (fastforce simp: redis_chain_single)
    from release_cmd_cases [OF this] show ?thesis using res Inl by (auto simp: first_answer_def)
  next
    case (Inr reps)
    then obtain x where x: "reps = Some [x]"
        "redis_step now (case c of None \<Rightarrow> RDel [k] | Some w \<Rightarrow> REval (DEDUP_RELEASE_IF_OWNER k w))
        x (view r) (view r')"
      using pipe_Inr Pair r1 by (fastforce simp: redis_chain_single)
    from release_cmd_cases [OF x(2)] show ?thesis using res Inr x(1)
      by (cases x) (auto simp: first_answer_def replies_or_none_def)
  qed
qed

lemma dedup_extend_cases:
  assumes "dedup_extend pipe now k ttl c r = (res, r')"
  shows "view r' = view r \<and> res \<noteq> Inr True \<and> (res = Inr False \<longrightarrow> \<not> concerns c (live now (view r) k))
    \<or> (\<exists>v. live now (view r) k = Some v \<and> concerns c (Some v)
        \<and> view r' = (view r)(k := Some (v, Some (now + 1000 * as_nat ttl)))) \<and> res \<noteq> Inr False"
proof (cases "positive_integer ttl")
  case False
  then show ?thesis using assms
    by (auto simp: dedup_extend_def extendMany_def assertPositiveInteger_def first_answer_def)
next
  case pos: True
  let ?c = "case c of None \<Rightarrow> RExpire k (as_nat ttl) | Some w \<Rightarrow> REval (DEDUP_EXTEND_IF_OWNER k w (as_nat ttl))"
  obtain out r1 where Pair: "pipe now [?c] r = (out, r1)" by (cases "pipe now [?c] r")
  have r1: "r1 = r'" and res: "res = fst (first_answer (case out of Inl e \<Rightarrow> (Inl e, r1)
      | Inr reps \<Rightarrow> (answers (\<lambda>x. x = RInt 1) (replies_or_none reps), r1)))"
    using assms Pair pos
    by (auto simp: dedup_extend_def extendMany_def first_answer_def assertPositiveInteger_def
      split: sum.splits list.splits prod.splits)
  show ?thesis
  proof (cases out)
    case (Inl e)
    then have "redis_step now ?c (Inl e) (view r) (view r')"
      using pipe_Inl Pair r1 by (fastforce simp: redis_chain_single)
    from extend_cmd_cases [OF this] show ?thesis using res Inl by (auto simp: first_answer_def)
  next
    case (Inr reps)
    then obtain x where x: "reps = Some [x]" "redis_step now ?c x (view r) (view r')"
      using pipe_Inr Pair r1 by (fastforce simp: redis_chain_single)
    from extend_cmd_cases [OF x(2)] show ?thesis using res Inr x(1)
      by (cases x) (auto simp: first_answer_def replies_or_none_def)
  qed
qed

lemma releaseMany_single: "snd (releaseMany pipe now [k] c r) = snd (dedup_release pipe now k c r)"
  by (auto simp: dedup_release_def first_answer_def split: sum.split list.split prod.split)

lemma dedup_claim_cases:
  assumes "dedup_claim exec pipe now k ttl c r = (res, r')"
  shows "view r' = view r \<and> res \<noteq> Inr True \<and> (res = Inr False \<longrightarrow> live now (view r) k \<noteq> None)
    \<or> live now (view r) k = None \<and> positive_integer ttl \<and> res \<noteq> Inr False
      \<and> view r' = (view r)(k := Some (marker_owner c, Some (now + 1000 * as_nat ttl)))
    \<or> (\<exists>e. res = Inl e) \<and> marker_owner c \<noteq> ANONYMOUS_OWNER \<and> view r' = (view r)(k := None)
      \<and> (live now (view r) k = None \<or> live now (view r) k = Some (marker_owner c))"
proof (cases "positive_integer ttl")
  case False
  then show ?thesis using assms
    by (auto simp: dedup_claim_def claimMany_def assertPositiveInteger_def first_answer_def Let_def)
next
  case pos: True
  let ?w = "marker_owner c"
  let ?c = "RSet k ?w (Some (1000 * as_nat ttl)) True"
  obtain out r1 where Pair: "pipe now [?c] r = (out, r1)" by (cases "pipe now [?c] r")
  show ?thesis
  proof (cases out)
    case (Inl e)
    then have "redis_step now ?c (Inl e) (view r) (view r1)"
      using pipe_Inl Pair by (fastforce simp: redis_chain_single)
    then have s: "view r1 = view r \<or> live now (view r) k = None
        \<and> view r1 = (view r)(k := Some (?w, Some (now + 1000 * as_nat ttl)))"
      using claim_cmd_cases by blast
    have res: "res = Inl e \<and> r' = (if ?w \<noteq> ANONYMOUS_OWNER then snd (releaseMany pipe now [k] (Some ?w) r1) else r1)"
      using assms Pair pos Inl
      by (auto simp: dedup_claim_def claimMany_def first_answer_def assertPositiveInteger_def Let_def
        marker_owner_def)
    show ?thesis
    proof (cases "?w = ANONYMOUS_OWNER")
      case True
      then show ?thesis using s res pos by auto
    next
      case False
      have "view r' = view r1 \<or> live now (view r1) k = Some ?w \<and> view r' = (view r1)(k := None)"
        using dedup_release_cases [of now k "Some ?w" r1 "fst (dedup_release pipe now k (Some ?w) r1)" r']
          res False by (auto simp: releaseMany_single concerns_def)
      then show ?thesis using s res pos False by (auto simp: store_simps)
    qed
  next
    case (Inr reps)
    then obtain x where x: "reps = Some [x]" "redis_step now ?c x (view r) (view r1)"
      using pipe_Inr Pair by (fastforce simp: redis_chain_single)
    have res: "res = (case x of Inl e \<Rightarrow> Inl e | Inr y \<Rightarrow> Inr (y = ROk)) \<and> r' = r1"
      using assms Pair pos Inr x(1)
      by (cases x) (auto simp: dedup_claim_def claimMany_def first_answer_def assertPositiveInteger_def Let_def
        marker_owner_def first_failure_def won_keys_def replies_or_none_def)
    from claim_cmd_cases [OF x(2)] show ?thesis using res pos by (cases x) auto
  qed
qed

end

lemma concerns_None [simp]: "\<not> concerns c None"
  by (simp add: concerns_def split: option.split)

sublocale redis_server \<subseteq> dedup: dedup_port "dedup_claim exec pipe" "dedup_extend pipe" "dedup_release pipe"
  "\<lambda>t r. live t (view r)"
proof
  fix now t s k w assume "now \<le> t" "live t (view s) k = Some w"
  then show "live now (view s) k = Some w" by (rule live_later)
next
  fix now k ttl c s s' assume "dedup_claim exec pipe now k ttl c s = (Inr True, s')"
  then show "positive_integer ttl \<and> live now (view s) k = None
      \<and> (\<forall>t \<ge> now. live t (view s') k = (if t < now + 1000 * as_nat ttl then Some (marker_owner c) else None))"
    using dedup_claim_cases by (fastforce simp: store_simps)
next
  fix now k ttl c s s' assume "dedup_claim exec pipe now k ttl c s = (Inr False, s')"
  then show "live now (view s) k \<noteq> None" using dedup_claim_cases by fastforce
next
  fix now k ttl c s res s' j t
  assume a: "dedup_claim exec pipe now k ttl c s = (res, s')" "now \<le> t"
    "j \<noteq> k \<or> (\<exists>w. live now (view s) j = Some w \<and> (w \<noteq> marker_owner c \<or> w = ANONYMOUS_OWNER \<or> res = Inr False))"
  show "live t (view s') j = live t (view s) j"
    using dedup_claim_cases [OF a(1)] a(3) by (elim disjE) (auto simp: store_simps)
next
  fix now k ttl c s b s' assume "dedup_extend pipe now k ttl c s = (Inr b, s')"
  then show "(b \<longleftrightarrow> concerns c (live now (view s) k))
      \<and> (b \<longrightarrow> (\<forall>t \<ge> now. live t (view s') k = (if t < now + 1000 * as_nat ttl then live now (view s) k else None)))"
    using dedup_extend_cases by (cases b) (fastforce simp: store_simps)+
next
  fix now k ttl c s res s' j t
  assume "dedup_extend pipe now k ttl c s = (res, s')" "j \<noteq> k \<or> \<not> concerns c (live now (view s) j)"
  then show "live t (view s') j = live t (view s) j" using dedup_extend_cases by (fastforce simp: store_simps)
next
  fix now k c s b s' assume "dedup_release pipe now k c s = (Inr b, s')"
  then show "(b \<longleftrightarrow> concerns c (live now (view s) k)) \<and> (b \<longrightarrow> (\<forall>t \<ge> now. live t (view s') k = None))"
    using dedup_release_cases by (cases b) (fastforce simp: store_simps)+
next
  fix now k c s res s' j t
  assume "dedup_release pipe now k c s = (res, s')" "j \<noteq> k \<or> \<not> concerns c (live now (view s) j)"
  then show "live t (view s') j = live t (view s) j" using dedup_release_cases by (fastforce simp: store_simps)
qed

context redis_server
begin

lemma lock_port_ok:
  "lock_port (lock_acquire exec) (lease_renew exec) (lease_release exec) (\<lambda>t r. live t (view r))"
  by unfold_locales

lemma dedup_port_ok:
  "dedup_port (dedup_claim exec pipe) (dedup_extend pipe) (dedup_release pipe) (\<lambda>t r. live t (view r))"
  by unfold_locales

end

subsection \<open>Claims of many keys\<close>

lemma claim_chain:
  assumes "redis_chain now (map (\<lambda>k. RSet k w (Some n) True) ks) xs db db'" "distinct ks"
    and "answers (\<lambda>x. x = ROk) xs = Inr bs"
  shows "bs = map (\<lambda>k. live now db k = None) ks
    \<and> db' = (\<lambda>k. if k \<in> set ks \<and> live now db k = None then Some (w, Some (now + n)) else db k)"
  using assms
proof (induction ks arbitrary: xs db bs)
  case Nil
  then show ?case by (cases xs) auto
next
  case (Cons k ks)
  then obtain x ys db1 where xs: "xs = x # ys" and st: "redis_step now (RSet k w (Some n) True) x db db1"
    and ch: "redis_chain now (map (\<lambda>k. RSet k w (Some n) True) ks) ys db1 db'"
    by (cases xs) auto
  from Cons.prems(3) xs obtain y cs where y: "x = Inr y" "bs = (y = ROk) # cs"
      "answers (\<lambda>x. x = ROk) ys = Inr cs"
    by (cases x) (auto split: sum.splits)
  from Cons.IH [OF ch _ y(3)] Cons.prems(2)
  have IH: "cs = map (\<lambda>k. live now db1 k = None) ks"
    "db' = (\<lambda>k. if k \<in> set ks \<and> live now db1 k = None then Some (w, Some (now + n)) else db1 k)"
    by auto
  have d: "db1 = (if live now db k = None then db(k := Some (w, Some (now + n))) else db) \<and> (y = ROk \<longleftrightarrow> live now db k = None)"
    using claim_cmd_cases [OF st] y(1) by auto
  have l: "live now db1 j = live now db j" if "j \<in> set ks" for j
    using d Cons.prems(2) that by (auto simp: store_simps)
  have cs: "cs = map (\<lambda>k. live now db k = None) ks" using IH(1) l by simp
  have db': "db' j = (if j \<in> set ks \<and> live now db j = None then Some (w, Some (now + n)) else db1 j)" for j
    using l [of j] by (cases "j \<in> set ks") (simp_all add: IH(2))
  show ?case
    using d Cons.prems(2) by (cases "live now db k = None") (auto simp: y(2) cs db' fun_eq_iff)
qed

subsection \<open>Counters\<close>

lemma redis_ttl_nonneg: "now < d \<Longrightarrow> db k = Some (v, Some d) \<Longrightarrow> \<not> redis_ttl now k db < 0"
  by (simp add: redis_ttl_def live_entry_def)

lemma HIT_live:
  assumes "db k = Some (show_nat n, Some d)" "now < d"
  shows "\<exists>ttl. HIT k w now db = Some (RArr [RInt (int (Suc n)), RInt ttl], db(k := Some (show_nat (Suc n), Some d)))"
  using assms redis_ttl_nonneg [of now d "db(k := Some (show_nat (Suc n), Some d))" k]
  by (simp add: HIT_def redis_incr_def live_entry_def Let_def)

lemma HIT_absent:
  assumes "live now db k = None"
  shows "HIT k w now db =
    Some (RArr [RInt 1, RInt (int w)], db(k := Some (show_nat 1, Some (now + 1000 * w))))"
  using assms
  by (auto simp: HIT_def redis_incr_def live_def redis_ttl_def live_entry_def Let_def redis_expire_at_def
    split: option.splits prod.splits if_splits)

context redis_server
begin

lemma hit_live_cases:
  assumes "ratelimit_hit exec now k p r = (res, r')" "view r k = Some (show_nat n, Some d)" "now < d"
  shows "view r' k = Some (show_nat n, Some d) \<and> isl res
    \<or> view r' k = Some (show_nat (Suc n), Some d)
      \<and> (\<forall>x. res = Inr x \<longrightarrow> (rl_allowed x \<longleftrightarrow> Suc n \<le> as_nat (rl_limit p))) "
proof (cases "positive_integer (rl_limit p) \<and> positive_integer (rl_windowSeconds p)")
  case False
  then show ?thesis using assms
    by (auto simp: ratelimit_hit_def assertRateLimitPolicy_def assertPositiveInteger_def split: if_splits)
next
  case True
  then have ok: "assertRateLimitPolicy p = Inr ()"
    by (simp add: assertRateLimitPolicy_def assertPositiveInteger_def)
  have le: "(of_int (int (Suc n)) \<le> rl_limit p) \<longleftrightarrow> Suc n \<le> as_nat (rl_limit p)"
    using positive_integer_nat [of "rl_limit p"] True unfolding as_nat_def
    by (metis of_int_of_nat_eq of_nat_le_iff)
  obtain ttl where h: "HIT k (as_nat (rl_windowSeconds p)) now (view r) =
      Some (RArr [RInt (int (Suc n)), RInt ttl], (view r)(k := Some (show_nat (Suc n), Some d)))"
    using HIT_live [of "view r" k n d now] assms(2,3) by blast
  obtain out r1 where e: "exec now (REval (HIT k (as_nat (rl_windowSeconds p)))) r = (out, r1)"
    by (cases "exec now (REval (HIT k (as_nat (rl_windowSeconds p)))) r")
  show ?thesis
  proof (cases out)
    case (Inl err)
    have "view r1 = view r \<or> view r1 = (view r)(k := Some (show_nat (Suc n), Some d))"
      using exec_Inl [OF e [unfolded Inl]] h by auto
    then show ?thesis using Inl e assms ok by (auto simp: ratelimit_hit_def)
  next
    case (Inr rep)
    have "rep = RArr [RInt (int (Suc n)), RInt ttl]" "view r1 = (view r)(k := Some (show_nat (Suc n), Some d))"
      using exec_Inr [OF e [unfolded Inr]] h by auto
    then show ?thesis using Inr e assms ok le by (auto simp: ratelimit_hit_def toRateLimitResult_def)
  qed
qed

lemma hit_absent_cases:
  assumes "ratelimit_hit exec now k p r = (res, r')" "live now (view r) k = None"
  shows "view r' = view r \<and> isl res
    \<or> view r' k = Some (show_nat 1, Some (now + 1000 * as_nat (rl_windowSeconds p)))
      \<and> (\<forall>x. res = Inr x \<longrightarrow> rl_allowed x) \<and> 1 \<le> as_nat (rl_limit p)"
proof (cases "positive_integer (rl_limit p) \<and> positive_integer (rl_windowSeconds p)")
  case False
  then show ?thesis using assms
    by (auto simp: ratelimit_hit_def assertRateLimitPolicy_def assertPositiveInteger_def split: if_splits)
next
  case True
  then have ok: "assertRateLimitPolicy p = Inr ()"
    by (simp add: assertRateLimitPolicy_def assertPositiveInteger_def)
  have pos: "1 \<le> as_nat (rl_limit p) \<and> 1 \<le> rl_limit p"
    using positive_integer_nat [of "rl_limit p"] True unfolding as_nat_def
    by (metis One_nat_def Suc_leI of_nat_1 of_nat_le_iff)
  note h = HIT_absent [OF assms(2), of "as_nat (rl_windowSeconds p)"]
  obtain out r1 where e: "exec now (REval (HIT k (as_nat (rl_windowSeconds p)))) r = (out, r1)"
    by (cases "exec now (REval (HIT k (as_nat (rl_windowSeconds p)))) r")
  show ?thesis
  proof (cases out)
    case (Inl err)
    have "view r1 = view r
        \<or> view r1 = (view r)(k := Some (show_nat 1, Some (now + 1000 * as_nat (rl_windowSeconds p))))"
      using exec_Inl [OF e [unfolded Inl]] h by auto
    then show ?thesis using Inl e assms ok pos by (auto simp: ratelimit_hit_def)
  next
    case (Inr rep)
    have "rep = RArr [RInt 1, RInt (int (as_nat (rl_windowSeconds p)))]"
      "view r1 = (view r)(k := Some (show_nat 1, Some (now + 1000 * as_nat (rl_windowSeconds p))))"
      using exec_Inr [OF e [unfolded Inr]] h by auto
    then show ?thesis using Inr e assms ok pos by (auto simp: ratelimit_hit_def toRateLimitResult_def)
  qed
qed

end

text \<open>A run of hits on one key at the given times.\<close>

fun run_hits ::
  "'r redis_exec \<Rightarrow> string \<Rightarrow> rate_limit_policy \<Rightarrow> nat list \<Rightarrow> 'r \<Rightarrow> (thrown + rate_limit_result) list"
where
  "run_hits exec key p [] r = []"
| "run_hits exec key p (t # ts) r =
     (case ratelimit_hit exec t key p r of (res, r') \<Rightarrow> res # run_hits exec key p ts r')"

definition hit_allowed :: "thrown + rate_limit_result \<Rightarrow> bool" where
  "hit_allowed res = (case res of Inr x \<Rightarrow> rl_allowed x | Inl _ \<Rightarrow> False)"

context redis_server
begin

lemma run_hits_live:
  assumes "view r k = Some (show_nat n, Some d)" "\<forall>t \<in> set ts. t < d"
  shows "length (filter hit_allowed (run_hits exec k p ts r)) \<le> as_nat (rl_limit p) - n
    \<and> (list_all (\<lambda>x. \<not> isl x) (run_hits exec k p ts r) \<longrightarrow>
        length (filter hit_allowed (run_hits exec k p ts r)) = min (as_nat (rl_limit p) - n) (length ts))"
  using assms
proof (induction ts arbitrary: r n)
  case (Cons t ts)
  obtain res r' where h: "ratelimit_hit exec t k p r = (res, r')" by force
  have "t < d" using Cons.prems(2) by simp
  from hit_live_cases [OF h Cons.prems(1) this] show ?case
  proof (elim disjE)
    assume a: "view r' k = Some (show_nat n, Some d) \<and> isl res"
    then have "\<not> hit_allowed res" by (cases res) (auto simp: hit_allowed_def)
    then show ?thesis using Cons.IH [of r' n] a Cons.prems(2) h by simp
  next
    assume a: "view r' k = Some (show_nat (Suc n), Some d)
      \<and> (\<forall>x. res = Inr x \<longrightarrow> (rl_allowed x \<longleftrightarrow> Suc n \<le> as_nat (rl_limit p)))"
    then have "hit_allowed res \<longleftrightarrow> \<not> isl res \<and> Suc n \<le> as_nat (rl_limit p)"
      by (cases res) (auto simp: hit_allowed_def)
    then show ?thesis using Cons.IH [of r' "Suc n"] a Cons.prems(2) h by auto
  qed
qed simp

lemma run_hits_absent:
  assumes "live t0 (view r) k = None" "\<forall>t \<in> set ts. t0 \<le> t \<and> t < t0 + 1000 * as_nat (rl_windowSeconds p)"
  shows "length (filter hit_allowed (run_hits exec k p ts r)) \<le> as_nat (rl_limit p)
    \<and> (list_all (\<lambda>x. \<not> isl x) (run_hits exec k p ts r) \<longrightarrow>
        length (filter hit_allowed (run_hits exec k p ts r)) = min (as_nat (rl_limit p)) (length ts))"
  using assms
proof (induction ts arbitrary: r)
  case (Cons t ts)
  obtain res r' where h: "ratelimit_hit exec t k p r = (res, r')" by force
  have "live t (view r) k = None" using Cons.prems live_later_None by auto
  from hit_absent_cases [OF h this] show ?case
  proof (elim disjE)
    assume a: "view r' = view r \<and> isl res"
    then have "\<not> hit_allowed res" by (cases res) (auto simp: hit_allowed_def)
    then show ?thesis using Cons.IH [of r'] a Cons.prems h by simp
  next
    assume a: "view r' k = Some (show_nat 1, Some (t + 1000 * as_nat (rl_windowSeconds p)))
      \<and> (\<forall>x. res = Inr x \<longrightarrow> rl_allowed x) \<and> 1 \<le> as_nat (rl_limit p)"
    then have "hit_allowed res \<longleftrightarrow> \<not> isl res" by (cases res) (auto simp: hit_allowed_def)
    moreover have "\<forall>u \<in> set ts. u < t + 1000 * as_nat (rl_windowSeconds p)" using Cons.prems by fastforce
    ultimately show ?thesis using run_hits_live [of r' k 1 _ ts p] a h by fastforce
  qed
qed simp

end

subsection \<open>Properties\<close>

text \<open>C19: A lease excludes everyone else until its deadline. After a successful acquire, and
  whatever other callers do meanwhile with their own tokens, until the lease ends no one else
  acquires the key, nobody renews or frees it with another token, and the holder's own renew
  and release never report the lease lost.\<close>

theorem lease_excludes_others:
  assumes "redis_server exec pipe view"
    and "lock_acquire exec tok now k ttl r = (Inr (Some l), r1)"
    and "others_run (lock_acquire exec) (lease_renew exec) (lease_release exec) tok now r1 now' r'"
    and "now' < now + as_nat ttl" and "other \<noteq> tok"
  shows "fst (lock_acquire exec other now' k ttl' r') \<noteq> Inr (Some l')
    \<and> fst (lease_renew exec now' \<lparr>lease_key = k, lease_token = other\<rparr> ttl' r') \<noteq> Inr True
    \<and> fst (lease_release exec now' \<lparr>lease_key = k, lease_token = other\<rparr> r') \<noteq> Inr True
    \<and> fst (lease_renew exec now' l ttl' r') \<noteq> Inr False
    \<and> fst (lease_release exec now' l r') \<noteq> Inr False"
proof -
  note won = redis_server.acquire_cases [OF assms(1,2)]
  have port: "lock_port (lock_acquire exec) (lease_renew exec) (lease_release exec) (\<lambda>t r. live t (view r))"
    by (rule redis_server.lock_port_ok [OF assms(1)])
  have "\<forall>t. now' \<le> t \<and> t < now + as_nat ttl \<longrightarrow> live t (view r') k = Some tok"
    by (rule lock_port.lease_survives_others [OF port assms(3)])
      (use lock_port.acquire_won [OF port assms(2)] in blast)
  then have "live now' (view r') k = Some tok" using assms(4) by simp
  moreover have "l = \<lparr>lease_key = k, lease_token = tok\<rparr>" using lock_port.acquire_won [OF port assms(2)] by simp
  ultimately show ?thesis
    using lock_port.held_lease_excludes [OF port, of now' r' k tok other] assms(5) by metis
qed

lemma lease_excludes_others_witness:
  "\<forall>l. fst (lock_acquire sure_exec ''b'' 900 ''job'' 1000
     (snd (lock_acquire sure_exec ''a'' 0 ''job'' 1000 (\<lambda>_. None)))) \<noteq> Inr (Some l)"
proof
  fix l
  let ?r1 = "snd (lock_acquire sure_exec ''a'' 0 ''job'' 1000 (\<lambda>_. None))"
  have p: "positive_integer 1000" and n: "as_nat 1000 = 1000"
    using positive_integer_of_nat [of 1000] as_nat_of_nat [of 1000] by simp_all
  have a: "lock_acquire sure_exec ''a'' 0 ''job'' 1000 (\<lambda>_. None) =
      (Inr (Some \<lparr>lease_key = ''job'', lease_token = ''a''\<rparr>), ?r1)"
    using p by (simp add: lock_acquire_def assertPositiveInteger_def sure_exec_def store_simps)
  have oth: "others_run (lock_acquire sure_exec) (lease_renew sure_exec) (lease_release sure_exec) ''a'' 0 ?r1 900 ?r1"
    by (rule others_run.wait) simp
  show "fst (lock_acquire sure_exec ''b'' 900 ''job'' 1000 ?r1) \<noteq> Inr (Some l)"
    using lease_excludes_others [OF sure.redis_server_axioms a oth, of "''b''" 1000 l] n by simp
qed

text \<open>A claim of distinct keys that returns answers wins exactly the keys that had no live
  marker, and marks those, and only those, for its owner until the TTL has passed.\<close>

theorem claim_many_wins_free_keys:
  assumes "redis_server exec pipe view"
    and "claimMany exec pipe now keys ttl c r = (Inr wins, r')" and "distinct keys" "now \<le> t"
  shows "wins = map (\<lambda>k. live now (view r) k = None) keys
    \<and> live t (view r') j =
        (if j \<in> set keys \<and> live now (view r) j = None
         then (if t < now + 1000 * as_nat ttl then Some (marker_owner c) else None)
         else live t (view r) j)"
proof (cases "keys = []")
  case True
  then show ?thesis using assms by (auto simp: claimMany_def Let_def split: sum.splits)
next
  case False
  let ?cs = "map (\<lambda>k. RSet k (marker_owner c) (Some (1000 * as_nat ttl)) True) keys"
  obtain reps where p: "pipe now ?cs r = (Inr (Some reps), r')"
    and a: "answers (\<lambda>x. x = ROk) reps = Inr wins"
  proof -
    obtain out r1 where o: "pipe now ?cs r = (out, r1)" by (cases "pipe now ?cs r")
    then have "\<exists>reps. out = Inr reps \<and> r1 = r' \<and> answers (\<lambda>x. x = ROk) (replies_or_none reps) = Inr wins"
      using assms(2) False
      by (cases out) (auto simp: claimMany_def Let_def marker_owner_def split: sum.splits option.splits if_splits)
    then obtain reps where reps: "out = Inr reps" "r1 = r'" "answers (\<lambda>x. x = ROk) (replies_or_none reps) = Inr wins"
      by blast
    moreover obtain xs where "reps = Some xs"
      using redis_server.pipe_Inr [OF assms(1)] o reps by blast
    ultimately show thesis using that o by (auto simp: replies_or_none_def)
  qed
  have "redis_chain now ?cs reps (view r) (view r')"
    using redis_server.pipe_Inr [OF assms(1) p] by blast
  from claim_chain [OF this assms(3) a] show ?thesis
    using live_later_None [OF assms(4)] by (auto simp: live_def live_entry_def)
qed

lemma claim_many_wins_free_keys_witness:
  "fst (claimMany sure_exec sure_pipe 0 [''a'', ''b''] 60 None [''a'' \<mapsto> (''x'', None)]) = Inr [False, True]"
proof -
  let ?r = "[''a'' \<mapsto> (''x'', None)] :: redis_db"
  have p: "positive_integer 60" using positive_integer_of_nat [of 60] by simp
  have "\<exists>wins. fst (claimMany sure_exec sure_pipe 0 [''a'', ''b''] 60 None ?r) = Inr wins"
    using p by (simp add: claimMany_def Let_def assertPositiveInteger_def sure_pipe_def sure_exec_def
      first_failure_def replies_or_none_def store_simps)
  then obtain wins r' where w: "claimMany sure_exec sure_pipe 0 [''a'', ''b''] 60 None ?r = (Inr wins, r')"
    by (metis prod.collapse)
  show ?thesis
    using claim_many_wins_free_keys [OF sure.redis_server_axioms w] w by (simp add: store_simps)
qed

text \<open>In one window of a rate limit, counted from a moment the key has no live counter, the
  hits allowed never exceed the limit, whatever fails on the way; when no call fails exactly the
  first \<open>limit\<close> hits are allowed.\<close>

theorem rate_limit_never_exceeded:
  assumes "redis_server exec pipe view" and "live t0 (view r) key = None"
    and "\<forall>t \<in> set ts. t0 \<le> t \<and> t < t0 + 1000 * as_nat (rl_windowSeconds p)"
  shows "length (filter hit_allowed (run_hits exec key p ts r)) \<le> as_nat (rl_limit p)
    \<and> (list_all (\<lambda>x. \<not> isl x) (run_hits exec key p ts r) \<longrightarrow>
        length (filter hit_allowed (run_hits exec key p ts r)) = min (as_nat (rl_limit p)) (length ts))"
  by (rule redis_server.run_hits_absent [OF assms])

lemma rate_limit_never_exceeded_witness:
  "length (filter hit_allowed (run_hits sure_exec ''k'' \<lparr>rl_limit = 2, rl_windowSeconds = 60\<rparr>
     [5, 10, 10, 59000] (\<lambda>_. None))) \<le> 2"
proof -
  have n: "as_nat 2 = 2" "as_nat 60 = 60" using as_nat_of_nat [of 2] as_nat_of_nat [of 60] by simp_all
  show ?thesis
    using rate_limit_never_exceeded [OF sure.redis_server_axioms, of 0 "\<lambda>_. None" "''k''" "[5, 10, 10, 59000]"
      "\<lparr>rl_limit = 2, rl_windowSeconds = 60\<rparr>"] n by (simp add: store_simps)
qed

text \<open>A value written to kv is read back, equal, for exactly the lifetime the write stated:
  until its TTL has passed, or for good when it was persistent; never as a decode error.\<close>

theorem kv_round_trip:
  assumes "redis_server exec pipe view"
    and "parse (stringify (JObj [(''v'', JNum 1), (''d'', v)])) = Some (JObj [(''v'', JNum 1), (''d'', v)])"
    and "kv_set exec stringify now key (Some v) opts r = (Inr (), r1)"
    and "kv_get exec parse t key r1 = (res, r2)" and "now \<le> t"
  shows "(res = Inr (if case kw_ttlSeconds opts of None \<Rightarrow> True | Some ttl \<Rightarrow> t < now + 1000 * as_nat ttl
                then Some v else None)
      \<or> (\<exists>e. exec t (RGet key) r1 = (Inl e, r2) \<and> res = Inl e))
    \<and> (kw_persistent opts = Some True \<longleftrightarrow> kw_ttlSeconds opts = None)"
proof -
  obtain ttl where ttl: "resolveKvLifetime opts = Inr ttl"
    using assms(3) by (cases "resolveKvLifetime opts") (auto simp: kv_set_def)
  then have t: "ttl = map_option as_nat (kw_ttlSeconds opts)"
    "kw_persistent opts = Some True \<longleftrightarrow> kw_ttlSeconds opts = None"
    by (auto simp: resolveKvLifetime_def assertPositiveInteger_def split: if_splits option.splits)
  let ?text = "stringify (JObj [(''v'', JNum 1), (''d'', v)])"
  obtain rep where "exec now (RSet key ?text (map_option (\<lambda>s. 1000 * s) ttl) False) r = (Inr rep, r1)"
    using assms(3) ttl by (auto simp: kv_set_def encodeKvValue_def KV_CODEC_VERSION_def split: prod.splits sum.splits)
  from redis_server.exec_Inr [OF assms(1) this]
  have v: "view r1 = (view r)(key := Some (?text, map_option ((+) now) (map_option (\<lambda>s. 1000 * s) ttl)))" by simp
  obtain out where o: "exec t (RGet key) r1 = (out, r2)" using assms(4)
    by (auto simp: kv_get_def split: prod.splits sum.splits)
  show ?thesis
  proof (cases out)
    case (Inl e)
    then show ?thesis using assms(4) o t(2) by (auto simp: kv_get_def)
  next
    case (Inr x)
    with redis_server.exec_Inr [OF assms(1), of t "RGet key" r1 x r2] o
    have "x = (case live t (view r1) key of Some v \<Rightarrow> RBulk v | None \<Rightarrow> RNil)" by auto
    then show ?thesis
      using assms(2,4) o Inr t v
      by (auto simp: kv_get_def decodeKvValue_def KV_CODEC_VERSION_def js_prop_def js_has_def store_simps
        live_def live_entry_def split: option.splits)
  qed
qed

lemma kv_round_trip_witness:
  "fst (kv_get sure_exec (\<lambda>_. Some (JObj [(''v'', JNum 1), (''d'', JBool True)])) 59999 ''k''
     (snd (kv_set sure_exec (\<lambda>_. ''x'') 0 ''k'' (Some (JBool True))
        \<lparr>kw_ttlSeconds = Some 60, kw_persistent = None\<rparr> (\<lambda>_. None)))) = Inr (Some (JBool True))"
proof -
  let ?o = "\<lparr>kw_ttlSeconds = Some 60, kw_persistent = None\<rparr>"
  let ?p = "\<lambda>_ :: string. Some (JObj [(''v'', JNum 1), (''d'', JBool True)])"
  let ?set = "kv_set sure_exec (\<lambda>_. ''x'') 0 ''k'' (Some (JBool True)) ?o (\<lambda>_. None)"
  have p: "positive_integer 60" "as_nat 60 = 60"
    using positive_integer_of_nat [of 60] as_nat_of_nat [of 60] by simp_all
  have s: "?set = (Inr (), snd ?set)"
    using p by (simp add: kv_set_def resolveKvLifetime_def assertPositiveInteger_def encodeKvValue_def sure_exec_def)
  show ?thesis
    using kv_round_trip [OF sure.redis_server_axioms _ s prod.collapse [symmetric], of ?p 59999] p
    by (auto simp: sure_exec_def)
qed

end
