(* ===== verification/Outbox.thy ===== *)
theory Outbox
  imports Stores "HOL-Library.Product_Lexorder"
begin

text \<open>
  The transactional outbox: the two tables of \<open>infrastructure/outbox/outbox.schema.ts\<close>, the
  operations of \<open>outbox.service.ts\<close> and the constants of \<open>outbox.constants.ts\<close>. The relay that
  drives them is in theory \<open>Relay\<close>.

  An operation issues database commands one at a time; \<open>db_apply\<close> is the documented effect of
  a command on the tables, and the state the commands run on is a parameter, so that other
  processes may act between any two of them. Dates are milliseconds. Logging and metrics are
  left out.
\<close>

subsection \<open>Tables\<close>

datatype outbox_status = PENDING | DISPATCHED | FAILED | DEAD | SKIPPED

definition OPEN_STATUSES :: "outbox_status list" where
  "OPEN_STATUSES = [PENDING, FAILED, DEAD]"

record outbox_event =
  oe_id :: string
  oe_type :: string
  oe_subject :: "string option"
  oe_tenantId :: string
  oe_time :: nat
  oe_traceparent :: "string option"
  oe_tracestate :: "string option"
  oe_schemaVersion :: string

record outbox_row =
  row_id :: nat
  aggregateId :: string
  topic :: string
  payload :: "(string \<times> json) list"
  event :: outbox_event
  status :: outbox_status
  attempts :: nat
  dispatchedAt :: "nat option"
  lastError :: "string option"
  nextAttemptAt :: "nat option"
  skippedAt :: "nat option"
  expireAt :: "nat option"
  createdAt :: nat

record outbox_head =
  head_id :: string
  dueAt :: "nat option"
  head_v :: nat

record outbox_tables =
  t_rows :: "outbox_row list"
  t_heads :: "outbox_head list"

text \<open>\<open>{ createdAt: 1, _id: 1 }\<close>: the order rows were written in.\<close>

definition row_key :: "outbox_row \<Rightarrow> nat \<times> nat" where
  "row_key r = (createdAt r, row_id r)"

definition is_open :: "outbox_row \<Rightarrow> bool" where
  "is_open r \<longleftrightarrow> status r \<in> set OPEN_STATUSES"

subsection \<open>Database commands\<close>

datatype 'r coll_cmd =
    UpdateOne "'r \<Rightarrow> bool" "'r \<Rightarrow> 'r" "'r option"
  | UpdateMany "'r \<Rightarrow> bool" "'r \<Rightarrow> 'r"
  | InsertOne 'r
  | DeleteOne "'r \<Rightarrow> bool"

text \<open>Reads carry their filter, their order and their limit; \<open>UpdateOne\<close> its upserted document.\<close>

datatype db_cmd =
    FindRows "outbox_row \<Rightarrow> bool" "nat option"
  | FindHeads "outbox_head \<Rightarrow> bool" "nat option"
  | DistinctAggregates "outbox_row \<Rightarrow> bool"
  | CountByStatus "outbox_row \<Rightarrow> bool"
  | OnRows "outbox_row coll_cmd"
  | OnHeads "outbox_head coll_cmd"
  | BulkHeads "outbox_head coll_cmd list"

datatype db_reply =
    Rows "outbox_row list"
  | Heads "outbox_head list"
  | Ids "string list"
  | Counts "(outbox_status \<times> nat) list"
  | Written (matchedCount: nat) (modifiedCount: nat) (upsertedCount: nat)

fun update_first :: "('r \<Rightarrow> bool) \<Rightarrow> ('r \<Rightarrow> 'r) \<Rightarrow> 'r list \<Rightarrow> 'r list" where
  "update_first p f [] = []"
| "update_first p f (r # rs) = (if p r then f r # rs else r # update_first p f rs)"

fun delete_first :: "('r \<Rightarrow> bool) \<Rightarrow> 'r list \<Rightarrow> 'r list" where
  "delete_first p [] = []"
| "delete_first p (r # rs) = (if p r then rs else r # delete_first p rs)"

definition count :: "('r \<Rightarrow> bool) \<Rightarrow> 'r list \<Rightarrow> nat" where
  "count p rs = length (filter p rs)"

fun coll_apply :: "'r coll_cmd \<Rightarrow> 'r list \<Rightarrow> db_reply \<times> 'r list" where
  "coll_apply (UpdateOne p f up) rs =
     (if \<exists>r \<in> set rs. p r then (Written 1 1 0, update_first p f rs)
      else case up of None \<Rightarrow> (Written 0 0 0, rs) | Some d \<Rightarrow> (Written 0 0 1, rs @ [d]))"
| "coll_apply (UpdateMany p f) rs =
     (Written (count p rs) (count p rs) 0, map (\<lambda>r. if p r then f r else r) rs)"
| "coll_apply (InsertOne d) rs = (Written 0 0 0, rs @ [d])"
| "coll_apply (DeleteOne p) rs = (Written 0 0 0, delete_first p rs)"

definition limit_to :: "nat option \<Rightarrow> 'r list \<Rightarrow> 'r list" where
  "limit_to n rs = (case n of None \<Rightarrow> rs | Some k \<Rightarrow> take k rs)"

fun bulk_apply :: "'r coll_cmd list \<Rightarrow> 'r list \<Rightarrow> nat \<times> 'r list" where
  "bulk_apply [] rs = (0, rs)"
| "bulk_apply (c # cs) rs =
     (case coll_apply c rs of (rep, rs1) \<Rightarrow>
       (case bulk_apply cs rs1 of (n, rs2) \<Rightarrow>
         ((case rep of Written _ _ u \<Rightarrow> u | _ \<Rightarrow> 0) + n, rs2)))"

fun db_apply :: "db_cmd \<Rightarrow> outbox_tables \<Rightarrow> db_reply \<times> outbox_tables" where
  "db_apply (FindRows p n) t = (Rows (limit_to n (sort_key row_key (filter p (t_rows t)))), t)"
| "db_apply (FindHeads p n) t = (Heads (limit_to n (sort_key (\<lambda>h. option_or (dueAt h) 0) (filter p (t_heads t)))), t)"
| "db_apply (DistinctAggregates p) t = (Ids (remdups (map aggregateId (filter p (t_rows t)))), t)"
| "db_apply (CountByStatus p) t =
     (let rs = filter p (t_rows t) in
      (Counts (map (\<lambda>s. (s, count (\<lambda>r. status r = s) rs)) (remdups (map status rs))), t))"
| "db_apply (OnRows c) t =
     (case coll_apply c (t_rows t) of (rep, rs) \<Rightarrow> (rep, t\<lparr>t_rows := rs\<rparr>))"
| "db_apply (OnHeads c) t =
     (case coll_apply c (t_heads t) of (rep, hs) \<Rightarrow> (rep, t\<lparr>t_heads := hs\<rparr>))"
| "db_apply (BulkHeads cs) t =
     (case bulk_apply cs (t_heads t) of (n, hs) \<Rightarrow> (Written 0 0 n, t\<lparr>t_heads := hs\<rparr>))"

text \<open>A command that errors may have been applied in full, in part or not at all.\<close>

fun coll_partial :: "'r coll_cmd \<Rightarrow> 'r list \<Rightarrow> 'r list \<Rightarrow> bool" where
  "coll_partial (UpdateMany p f) rs rs' \<longleftrightarrow>
     list_all2 (\<lambda>r r'. r' = r \<or> p r \<and> r' = f r) rs rs'"
| "coll_partial c rs rs' \<longleftrightarrow> rs' = rs \<or> rs' = snd (coll_apply c rs)"

fun db_partial :: "db_cmd \<Rightarrow> outbox_tables \<Rightarrow> outbox_tables \<Rightarrow> bool" where
  "db_partial (OnRows c) t t' \<longleftrightarrow> (\<exists>rs. coll_partial c (t_rows t) rs \<and> t' = t\<lparr>t_rows := rs\<rparr>)"
| "db_partial (OnHeads c) t t' \<longleftrightarrow> (\<exists>hs. coll_partial c (t_heads t) hs \<and> t' = t\<lparr>t_heads := hs\<rparr>)"
| "db_partial (BulkHeads cs) t t' \<longleftrightarrow>
     (\<exists>ds. set ds \<subseteq> set cs \<and> distinct ds \<and> t' = t\<lparr>t_heads := snd (bulk_apply ds (t_heads t))\<rparr>)"
| "db_partial _ t t' \<longleftrightarrow> t' = t"

definition db_step :: "db_cmd \<Rightarrow> thrown + db_reply \<Rightarrow> outbox_tables \<Rightarrow> outbox_tables \<Rightarrow> bool" where
  "db_step c res t t' =
     (case res of Inr rep \<Rightarrow> db_apply c t = (rep, t') | Inl _ \<Rightarrow> db_partial c t t')"

subsection \<open>Service operations\<close>

type_synonym 'w db_exec = "db_cmd \<Rightarrow> 'w \<Rightarrow> (thrown + db_reply) \<times> 'w"

text \<open>Decoding of the replies; a reply of another kind does not occur.\<close>

definition rows_of :: "db_reply \<Rightarrow> outbox_row list" where
  "rows_of rep = (case rep of Rows rs \<Rightarrow> rs | _ \<Rightarrow> [])"

definition heads_of :: "db_reply \<Rightarrow> outbox_head list" where
  "heads_of rep = (case rep of Heads hs \<Rightarrow> hs | _ \<Rightarrow> [])"

definition ids_of :: "db_reply \<Rightarrow> string list" where
  "ids_of rep = (case rep of Ids is \<Rightarrow> is | _ \<Rightarrow> [])"

text \<open>\<open>const x = await command; ...\<close>\<close>

definition db_bind ::
  "'w db_exec \<Rightarrow> db_cmd \<Rightarrow> (db_reply \<Rightarrow> 'w \<Rightarrow> (thrown + 'a) \<times> 'w) \<Rightarrow> 'w \<Rightarrow> (thrown + 'a) \<times> 'w" where
  "db_bind exec c k w = (case exec c w of (Inl e, w') \<Rightarrow> (Inl e, w') | (Inr rep, w') \<Rightarrow> k rep w')"

record outbox_event_input =
  in_topic :: string
  in_aggregateId :: string
  in_type :: string
  in_tenantId :: string
  in_data :: "(string \<times> json) list"
  in_subject :: "string option"
  in_id :: "string option"
  in_schemaVersion :: "string option"

definition DEFAULT_EVENT_SCHEMA_VERSION :: string where
  "DEFAULT_EVENT_SCHEMA_VERSION = ''1''"

text \<open>The event a write fixes: \<open>uuid\<close> is its \<open>randomUUID()\<close>, \<open>carrier\<close> the caller's trace context.\<close>

definition outbox_event_of ::
  "outbox_event_input \<Rightarrow> string \<Rightarrow> string option \<times> string option \<Rightarrow> nat \<Rightarrow> outbox_event" where
  "outbox_event_of input uuid carrier now =
     \<lparr>oe_id = option_or (in_id input) uuid, oe_type = in_type input,
      oe_subject = Some (option_or (in_subject input) (in_aggregateId input)),
      oe_tenantId = in_tenantId input, oe_time = now,
      oe_traceparent = nonempty (fst carrier), oe_tracestate = nonempty (snd carrier),
      oe_schemaVersion = option_or (in_schemaVersion input) DEFAULT_EVENT_SCHEMA_VERSION\<rparr>"

text \<open>The row Mongoose inserts: the schema's defaults, the driver's id and timestamp.\<close>

definition new_outbox_row :: "outbox_event_input \<Rightarrow> outbox_event \<Rightarrow> nat \<Rightarrow> nat \<Rightarrow> outbox_row" where
  "new_outbox_row input ev i created =
     \<lparr>row_id = i, aggregateId = in_aggregateId input, topic = in_topic input, payload = in_data input,
      event = ev, status = PENDING, attempts = 0, dispatchedAt = None, lastError = None,
      nextAttemptAt = None, skippedAt = None, expireAt = None, createdAt = created\<rparr>"

definition upsert_head :: "string \<Rightarrow> nat \<Rightarrow> nat \<Rightarrow> (outbox_head \<Rightarrow> outbox_head) \<Rightarrow> outbox_head coll_cmd" where
  "upsert_head agg due v f =
     UpdateOne (\<lambda>h. head_id h = agg) f (Some \<lparr>head_id = agg, dueAt = Some due, head_v = v\<rparr>)"

text \<open>\<open>write\<close>: the event id, and the commands it issues in the caller's session; \<open>$setOnInsert\<close>
  with \<open>$inc\<close> makes a new head with version 1. The caller's transaction applies them, with its
  own writes, together or not at all.\<close>

definition outbox_write ::
  "outbox_event_input \<Rightarrow> string \<Rightarrow> string option \<times> string option \<Rightarrow> nat \<Rightarrow> nat \<Rightarrow> nat
   \<Rightarrow> string \<times> db_cmd list" where
  "outbox_write input uuid carrier now i created =
     (let ev = outbox_event_of input uuid carrier now in
      (oe_id ev,
       [OnHeads (upsert_head (in_aggregateId input) now 1 (\<lambda>h. h\<lparr>head_v := head_v h + 1\<rparr>)),
        OnRows (InsertOne (new_outbox_row input ev i created))]))"

definition dueAggregates :: "'w db_exec \<Rightarrow> nat \<Rightarrow> nat \<Rightarrow> 'w \<Rightarrow> (thrown + string list) \<times> 'w" where
  "dueAggregates exec limit now =
     db_bind exec (FindHeads (\<lambda>h. case dueAt h of Some d \<Rightarrow> d \<le> now | None \<Rightarrow> False) (Some limit))
       (\<lambda>rep w. (Inr (map head_id (heads_of rep)), w))"

text \<open>\<open>headOf\<close>: the aggregate's oldest open row.\<close>

definition headOf :: "'w db_exec \<Rightarrow> string \<Rightarrow> 'w \<Rightarrow> (thrown + outbox_row option) \<times> 'w" where
  "headOf exec agg =
     db_bind exec (FindRows (\<lambda>r. aggregateId r = agg \<and> is_open r) (Some 1))
       (\<lambda>rep w. (Inr (case rows_of rep of [] \<Rightarrow> None | r # _ \<Rightarrow> Some r), w))"

definition dueAtOf :: "nat \<Rightarrow> outbox_row \<Rightarrow> nat option" where
  "dueAtOf now row =
     (case status row of
        PENDING \<Rightarrow> Some now
      | FAILED \<Rightarrow> Some (option_or (nextAttemptAt row) now)
      | _ \<Rightarrow> None)"

text \<open>\<open>clock w\<close> is what \<open>Date.now()\<close> reads in the state \<open>w\<close>.\<close>

definition settleHead ::
  "'w db_exec \<Rightarrow> ('w \<Rightarrow> nat) \<Rightarrow> string \<Rightarrow> 'w \<Rightarrow> (thrown + unit) \<times> 'w" where
  "settleHead exec clock agg w =
     db_bind exec (FindHeads (\<lambda>h. head_id h = agg) (Some 1)) (\<lambda>rep w1.
       case headOf exec agg w1 of
         (Inl e, w2) \<Rightarrow> (Inl e, w2)
       | (Inr None, w2) \<Rightarrow>
           (case heads_of rep of
              [] \<Rightarrow> (Inr (), w2)
            | head # _ \<Rightarrow>
                db_bind exec (OnHeads (DeleteOne (\<lambda>h. head_id h = agg \<and> head_v h = head_v head)))
                  (\<lambda>_ w3. (Inr (), w3)) w2)
       | (Inr (Some row), w2) \<Rightarrow>
           (let due = dueAtOf (clock w2) row in
            db_bind exec (OnHeads (UpdateOne (\<lambda>h. head_id h = agg) (\<lambda>h. h\<lparr>dueAt := due\<rparr>)
                (Some \<lparr>head_id = agg, dueAt = due, head_v = 0\<rparr>)))
              (\<lambda>_ w3. (Inr (), w3)) w2)) w"

text \<open>The waiting heads of \<open>repairHeads\<close>, one after the other.\<close>

fun repair_waiting ::
  "'w db_exec \<Rightarrow> ('w \<Rightarrow> nat) \<Rightarrow> nat \<Rightarrow> string list \<Rightarrow> nat \<Rightarrow> 'w \<Rightarrow> (thrown + nat) \<times> 'w" where
  "repair_waiting exec clock now [] repaired w = (Inr repaired, w)"
| "repair_waiting exec clock now (agg # rest) repaired w =
     (case headOf exec agg w of
        (Inl e, w1) \<Rightarrow> (Inl e, w1)
      | (Inr row, w1) \<Rightarrow>
          (case (case row of Some r \<Rightarrow> dueAtOf (clock w1) r | None \<Rightarrow> Some now) of
             Some due \<Rightarrow>
               if due \<le> now
               then (case exec (OnHeads (UpdateOne (\<lambda>h. head_id h = agg) (\<lambda>h. h\<lparr>dueAt := Some due\<rparr>) None)) w1 of
                       (Inl e, w2) \<Rightarrow> (Inl e, w2)
                     | (Inr _, w2) \<Rightarrow> repair_waiting exec clock now rest (repaired + 1) w2)
               else repair_waiting exec clock now rest repaired w1
           | None \<Rightarrow> repair_waiting exec clock now rest repaired w1))"

definition expiry :: "nat \<Rightarrow> nat \<Rightarrow> nat" where
  "expiry retentionMs from = from + retentionMs"

definition repairHeads ::
  "'w db_exec \<Rightarrow> ('w \<Rightarrow> nat) \<Rightarrow> nat \<Rightarrow> nat \<Rightarrow> 'w \<Rightarrow> (thrown + nat) \<times> 'w" where
  "repairHeads exec clock retentionMs now w =
     db_bind exec (OnRows (UpdateMany
         (\<lambda>r. (status r = DISPATCHED \<or> status r = SKIPPED) \<and> expireAt r = None)
         (\<lambda>r. r\<lparr>expireAt := Some (expiry retentionMs now)\<rparr>))) (\<lambda>_.
     db_bind exec (DistinctAggregates (\<lambda>r. status r = PENDING \<or> status r = FAILED)) (\<lambda>opn w1.
       case (if ids_of opn = [] then (Inr (Written 0 0 0), w1)
             else exec (BulkHeads (map (\<lambda>agg. upsert_head agg now 0 (\<lambda>h. h)) (ids_of opn))) w1) of
         (Inl e, w2) \<Rightarrow> (Inl e, w2)
       | (Inr res, w2) \<Rightarrow>
           db_bind exec (FindHeads (\<lambda>h. case dueAt h of None \<Rightarrow> True | Some d \<Rightarrow> d > now) None)
             (\<lambda>waiting. repair_waiting exec clock now (map head_id (heads_of waiting)) (upsertedCount res)) w2)) w"

definition requeue :: "'w db_exec \<Rightarrow> ('w \<Rightarrow> nat) \<Rightarrow> string list \<Rightarrow> 'w \<Rightarrow> (thrown + unit) \<times> 'w" where
  "requeue exec clock aggs w =
     (if aggs = [] then (Inr (), w)
      else let now = clock w in
        db_bind exec (BulkHeads (map (\<lambda>agg.
            upsert_head agg now 1 (\<lambda>h. h\<lparr>dueAt := Some now, head_v := head_v h + 1\<rparr>)) aggs))
          (\<lambda>_ w1. (Inr (), w1)) w)"

definition OUTBOX_RETRY_BACKOFF_BASE_MS :: nat where
  "OUTBOX_RETRY_BACKOFF_BASE_MS = 5000"

definition MAX_ATTEMPTS :: nat where
  "MAX_ATTEMPTS = 5"

definition unsettled :: "nat \<Rightarrow> outbox_row \<Rightarrow> bool" where
  "unsettled i r \<longleftrightarrow> row_id r = i \<and> (status r = PENDING \<or> status r = FAILED)"

definition dispatched_row :: "nat \<Rightarrow> nat \<Rightarrow> outbox_row \<Rightarrow> outbox_row" where
  "dispatched_row now expires r =
     r\<lparr>status := DISPATCHED, dispatchedAt := Some now, nextAttemptAt := None, expireAt := Some expires\<rparr>"

definition markDispatched ::
  "'w db_exec \<Rightarrow> ('w \<Rightarrow> nat) \<Rightarrow> nat \<Rightarrow> nat \<Rightarrow> 'w \<Rightarrow> (thrown + unit) \<times> 'w" where
  "markDispatched exec clock retentionMs i w =
     db_bind exec (OnRows (UpdateOne (unsettled i)
         (dispatched_row (clock w) (expiry retentionMs (clock w))) None))
       (\<lambda>_ w1. (Inr (), w1)) w"

definition failed_row :: "nat \<Rightarrow> nat \<Rightarrow> nat \<Rightarrow> string \<Rightarrow> outbox_row \<Rightarrow> outbox_row" where
  "failed_row now tried maxAttempts err r =
     (let dead = tried \<ge> maxAttempts; delayMs = OUTBOX_RETRY_BACKOFF_BASE_MS * 2 ^ (tried - 1) in
      r\<lparr>status := (if dead then DEAD else FAILED), attempts := tried, lastError := Some err,
        nextAttemptAt := (if dead then None else Some (now + delayMs))\<rparr>)"

definition markFailed ::
  "'w db_exec \<Rightarrow> ('w \<Rightarrow> nat) \<Rightarrow> outbox_row \<Rightarrow> string \<Rightarrow> nat \<Rightarrow> 'w \<Rightarrow> (thrown + outbox_status option) \<times> 'w"
where
  "markFailed exec clock row err maxAttempts w =
     (let tried = attempts row + 1 in
      db_bind exec (OnRows (UpdateOne (unsettled (row_id row))
          (failed_row (clock w) tried maxAttempts err) None))
        (\<lambda>rep w1. (Inr (if matchedCount rep = 0 then None
                        else Some (if tried \<ge> maxAttempts then DEAD else FAILED)), w1)) w)"

definition deadLetterExhausted :: "'w db_exec \<Rightarrow> nat \<Rightarrow> 'w \<Rightarrow> (thrown + nat) \<times> 'w" where
  "deadLetterExhausted exec maxAttempts =
     db_bind exec (OnRows (UpdateMany (\<lambda>r. status r = FAILED \<and> attempts r \<ge> maxAttempts)
         (\<lambda>r. r\<lparr>status := DEAD, nextAttemptAt := None\<rparr>)))
       (\<lambda>rep w. (Inr (modifiedCount rep), w))"

definition listDead :: "'w db_exec \<Rightarrow> nat \<Rightarrow> 'w \<Rightarrow> (thrown + outbox_row list) \<times> 'w" where
  "listDead exec limit =
     db_bind exec (FindRows (\<lambda>r. status r = DEAD) (Some limit)) (\<lambda>rep w. (Inr (rows_of rep), w))"

text \<open>A row filter; \<open>parse\<close> is the driver's reading of an object id, \<open>None\<close> when it is not one.\<close>

datatype outbox_row_filter = ById string | ByAggregate string

definition selector :: "(string \<Rightarrow> nat option) \<Rightarrow> outbox_row_filter \<Rightarrow> thrown + (outbox_row \<Rightarrow> bool)" where
  "selector parse filt =
     (case filt of
        ById s \<Rightarrow>
          (case parse s of
             None \<Rightarrow> Inl (PlainError ''Error'' (''Invalid outbox row id '' @ [CHR 0x22] @ s @ [CHR 0x22]) [])
           | Some i \<Rightarrow> Inr (\<lambda>r. row_id r = i))
      | ByAggregate agg \<Rightarrow> Inr (\<lambda>r. aggregateId r = agg))"

text \<open>The common shape of the operator actions: the DEAD rows a filter selects are updated and
  their aggregates put in line again.\<close>

definition operate ::
  "'w db_exec \<Rightarrow> ('w \<Rightarrow> nat) \<Rightarrow> (nat \<Rightarrow> outbox_row \<Rightarrow> outbox_row) \<Rightarrow> (string \<Rightarrow> nat option)
   \<Rightarrow> outbox_row_filter \<Rightarrow> 'w \<Rightarrow> (thrown + nat) \<times> 'w" where
  "operate exec clock f parse filt w =
     (case selector parse filt of
        Inl e \<Rightarrow> (Inl e, w)
      | Inr p \<Rightarrow>
          db_bind exec (DistinctAggregates (\<lambda>r. p r \<and> status r = DEAD)) (\<lambda>aggs w1.
            db_bind exec (OnRows (UpdateMany (\<lambda>r. p r \<and> status r = DEAD) (f (clock w1)))) (\<lambda>rep w2.
              case requeue exec clock (ids_of aggs) w2 of
                (Inl e, w3) \<Rightarrow> (Inl e, w3)
              | (Inr _, w3) \<Rightarrow> (Inr (modifiedCount rep), w3)) w1) w)"

definition redriven_row :: "outbox_row \<Rightarrow> outbox_row" where
  "redriven_row r = r\<lparr>status := PENDING, attempts := 0, nextAttemptAt := None\<rparr>"

definition skipped_row :: "nat \<Rightarrow> nat \<Rightarrow> outbox_row \<Rightarrow> outbox_row" where
  "skipped_row expires now r = r\<lparr>status := SKIPPED, skippedAt := Some now, expireAt := Some expires\<rparr>"

definition redrive ::
  "'w db_exec \<Rightarrow> ('w \<Rightarrow> nat) \<Rightarrow> (string \<Rightarrow> nat option) \<Rightarrow> outbox_row_filter \<Rightarrow> 'w \<Rightarrow> (thrown + nat) \<times> 'w"
where
  "redrive exec clock = operate exec clock (\<lambda>_. redriven_row)"

definition skip ::
  "'w db_exec \<Rightarrow> ('w \<Rightarrow> nat) \<Rightarrow> nat \<Rightarrow> (string \<Rightarrow> nat option) \<Rightarrow> outbox_row_filter \<Rightarrow> 'w
   \<Rightarrow> (thrown + nat) \<times> 'w" where
  "skip exec clock retentionMs =
     operate exec clock (\<lambda>now. skipped_row (expiry retentionMs now) now)"

definition countDead :: "'w db_exec \<Rightarrow> 'w \<Rightarrow> (thrown + nat) \<times> 'w" where
  "countDead exec =
     db_bind exec (CountByStatus (\<lambda>r. status r = DEAD))
       (\<lambda>rep w. (Inr (case rep of Counts ((_, n) # _) \<Rightarrow> n | _ \<Rightarrow> 0), w))"

definition backlogByStatus :: "'w db_exec \<Rightarrow> 'w \<Rightarrow> (thrown + (outbox_status \<times> nat) list) \<times> 'w" where
  "backlogByStatus exec =
     db_bind exec (CountByStatus is_open) (\<lambda>rep w.
       (Inr (map (\<lambda>s. (s, option_or (map_of (case rep of Counts cs \<Rightarrow> cs | _ \<Rightarrow> []) s) 0)) OPEN_STATUSES), w))"

subsection \<open>What a command may do to the rows\<close>

definition terminal :: "outbox_row \<Rightarrow> bool" where
  "terminal r \<longleftrightarrow> status r = DISPATCHED \<or> status r = SKIPPED"

lemma terminal_iff: "terminal r \<longleftrightarrow> \<not> is_open r"
  by (cases "status r") (simp_all add: terminal_def is_open_def OPEN_STATUSES_def)

text \<open>The parts of a row fixed when it is written.\<close>

definition same_row :: "outbox_row \<Rightarrow> outbox_row \<Rightarrow> bool" where
  "same_row r r' \<longleftrightarrow> row_id r' = row_id r \<and> aggregateId r' = aggregateId r \<and> topic r' = topic r
     \<and> payload r' = payload r \<and> event r' = event r \<and> createdAt r' = createdAt r"

fun status_edge :: "outbox_status \<Rightarrow> outbox_status \<Rightarrow> bool" where
  "status_edge PENDING s \<longleftrightarrow> s = DISPATCHED \<or> s = FAILED \<or> s = DEAD"
| "status_edge FAILED s \<longleftrightarrow> s = DISPATCHED \<or> s = FAILED \<or> s = DEAD"
| "status_edge DEAD s \<longleftrightarrow> s = PENDING \<or> s = SKIPPED"
| "status_edge DISPATCHED s \<longleftrightarrow> False"
| "status_edge SKIPPED s \<longleftrightarrow> False"

definition row_step :: "outbox_row \<Rightarrow> outbox_row \<Rightarrow> bool" where
  "row_step r r' \<longleftrightarrow> same_row r r'
     \<and> (r' = r \<or> status_edge (status r) (status r')
             \<and> (if terminal r' then expireAt r' \<noteq> None else expireAt r' = expireAt r)
        \<or> terminal r \<and> (\<exists>d. r' = r\<lparr>expireAt := d\<rparr>))"

lemma row_step_refl [simp]: "row_step r r"
  by (simp add: row_step_def same_row_def)

lemma row_step_updates:
  "unsettled i r \<Longrightarrow> row_step r (dispatched_row now d r)"
  "unsettled i r \<Longrightarrow> row_step r (failed_row now n m err r)"
  "status r = DEAD \<Longrightarrow> row_step r (redriven_row r)"
  "status r = DEAD \<Longrightarrow> row_step r (skipped_row d now r)"
  "status r = FAILED \<Longrightarrow> row_step r (r\<lparr>status := DEAD, nextAttemptAt := None\<rparr>)"
  "terminal r \<Longrightarrow> row_step r (r\<lparr>expireAt := Some d\<rparr>)"
  by (auto simp: row_step_def same_row_def unsettled_def dispatched_row_def failed_row_def redriven_row_def
    skipped_row_def terminal_def Let_def)

lemma row_step_terminal: "row_step r r' \<Longrightarrow> terminal r \<Longrightarrow> terminal r'"
  by (cases "status r") (auto simp: row_step_def terminal_def)

lemma row_step_same: "row_step r r' \<Longrightarrow> same_row r r'"
  by (simp add: row_step_def)

text \<open>The commands on rows the service issues, apart from the insertion of \<open>write\<close>.\<close>

fun cmd_ok :: "db_cmd \<Rightarrow> bool" where
  "cmd_ok (OnRows (UpdateOne p f up)) \<longleftrightarrow> up = None \<and> (\<forall>r. p r \<longrightarrow> row_step r (f r))"
| "cmd_ok (OnRows (UpdateMany p f)) \<longleftrightarrow> (\<forall>r. p r \<longrightarrow> row_step r (f r))"
| "cmd_ok (OnRows (InsertOne d)) \<longleftrightarrow> False"
| "cmd_ok (OnRows (DeleteOne p)) \<longleftrightarrow> False"
| "cmd_ok _ \<longleftrightarrow> True"

lemma update_first_step:
  "\<forall>r. p r \<longrightarrow> row_step r (f r) \<Longrightarrow> list_all2 row_step rs (update_first p f rs)"
  by (induction rs) (auto simp: list.rel_refl)

lemma update_many_step:
  "\<forall>r. p r \<longrightarrow> row_step r (f r) \<Longrightarrow> list_all2 row_step rs (map (\<lambda>r. if p r then f r else r) rs)"
  by (induction rs) auto

lemma coll_partial_step:
  assumes "cmd_ok (OnRows c)" "coll_partial c rs rs'"
  shows "list_all2 row_step rs rs'"
proof (cases c)
  case (UpdateOne p f up)
  then show ?thesis using assms update_first_step [of p f rs]
    by (auto simp: list.rel_refl split: if_splits)
next
  case (UpdateMany p f)
  with assms have "list_all2 (\<lambda>r r'. r' = r \<or> p r \<and> r' = f r) rs rs'" by simp
  then show ?thesis by (rule list_all2_mono) (use assms UpdateMany in auto)
qed (use assms in auto)

lemma coll_apply_partial: "coll_apply c rs = (rep, rs') \<Longrightarrow> coll_partial c rs rs'"
  by (cases c) (auto simp: list_all2_map2 intro!: list.rel_refl)

lemma db_step_rows:
  assumes "cmd_ok c" "db_step c res t t'"
  shows "list_all2 row_step (t_rows t) (t_rows t')"
proof (cases c)
  case (OnRows d)
  have "coll_partial d (t_rows t) (t_rows t')"
    using assms(2) OnRows coll_apply_partial [of d "t_rows t"]
    by (cases res) (auto simp: db_step_def split: prod.splits)
  then show ?thesis using coll_partial_step assms(1) OnRows by blast
qed (use assms(2) in \<open>cases res; auto simp: db_step_def list.rel_refl Let_def split: prod.splits\<close>)+

subsection \<open>Other processes at work\<close>

text \<open>The tables with the ids of the rows that have been visible so far. \<open>others\<close> is what any number of
  other processes may do to them: each later row continues an earlier one, a settled row stays
  settled (or is deleted when its retention ends), and a row that appears has an id of its own. When it
  appears, and its place among the other rows, are free: transactions overlap and the clocks that
  give \<open>createdAt\<close> differ, so a row may become visible after rows with a later key.\<close>

type_synonym outbox_history = "nat set \<times> outbox_tables"

definition ids_known :: "outbox_history \<Rightarrow> bool" where
  "ids_known s \<longleftrightarrow> row_id ` set (t_rows (snd s)) \<subseteq> fst s"

definition others :: "outbox_history \<Rightarrow> outbox_history \<Rightarrow> bool" where
  "others s s' \<longleftrightarrow> (ids_known s \<longrightarrow>
     ids_known s' \<and> fst s \<subseteq> fst s'
     \<and> (\<forall>r' \<in> set (t_rows (snd s')).
          (\<exists>r \<in> set (t_rows (snd s)). same_row r r' \<and> (terminal r \<longrightarrow> terminal r'))
          \<or> row_id r' \<notin> fst s))"

text \<open>Every earlier row of the row's aggregate is settled, of the rows with an id in \<open>K\<close>.\<close>

definition line_clear :: "nat set \<Rightarrow> outbox_history \<Rightarrow> outbox_row \<Rightarrow> bool" where
  "line_clear K s r \<longleftrightarrow>
     (\<forall>x \<in> set (t_rows (snd s)). row_id x \<in> K \<and> aggregateId x = aggregateId r \<and> row_key x < row_key r \<longrightarrow> terminal x)"

lemma same_row_refl [simp]: "same_row r r"
  by (simp add: same_row_def)

lemma same_row_trans: "same_row a b \<Longrightarrow> same_row b c \<Longrightarrow> same_row a c"
  by (simp add: same_row_def)

lemma same_row_key: "same_row r r' \<Longrightarrow> row_key r' = row_key r \<and> aggregateId r' = aggregateId r \<and> row_id r' = row_id r"
  by (simp add: same_row_def row_key_def)

lemma others_refl [simp]: "others s s"
  by (auto simp: others_def intro: same_row_refl)

lemma others_known: "others s s' \<Longrightarrow> ids_known s \<Longrightarrow> ids_known s' \<and> fst s \<subseteq> fst s'"
  by (simp add: others_def)

lemma others_row:
  assumes "others s s'" "ids_known s" "r' \<in> set (t_rows (snd s'))" "row_id r' \<in> fst s"
  obtains r where "r \<in> set (t_rows (snd s))" "same_row r r'" "terminal r \<longrightarrow> terminal r'"
  using assms unfolding others_def by blast

lemma others_trans:
  assumes 1: "others s s'" and 2: "others s' s''"
  shows "others s s''"
proof (unfold others_def, intro impI conjI ballI)
  assume k: "ids_known s"
  note k1 = others_known [OF 1 k] and k2 = others_known [OF 2 conjunct1 [OF others_known [OF 1 k]]]
  show "ids_known s''" "fst s \<subseteq> fst s''" using k1 k2 by auto
  fix r'' assume r'': "r'' \<in> set (t_rows (snd s''))"
  show "(\<exists>r \<in> set (t_rows (snd s)). same_row r r'' \<and> (terminal r \<longrightarrow> terminal r'')) \<or> row_id r'' \<notin> fst s"
  proof (cases "row_id r'' \<in> fst s")
    case True
    then have "row_id r'' \<in> fst s'" using k1 by blast
    from others_row [OF 2 conjunct1 [OF k1] r'' this] obtain r' where
      r': "r' \<in> set (t_rows (snd s'))" "same_row r' r''" "terminal r' \<longrightarrow> terminal r''" .
    have "row_id r' \<in> fst s" using True same_row_key [OF r'(2)] by simp
    from others_row [OF 1 k r'(1) this] obtain r where
      r: "r \<in> set (t_rows (snd s))" "same_row r r'" "terminal r \<longrightarrow> terminal r'" .
    have "same_row r r''" by (rule same_row_trans [OF r(2) r'(2)])
    then show ?thesis using r(1,3) r'(3) by blast
  qed simp
qed

lemma others_line_clear:
  assumes o: "others s s'" and k: "ids_known s" "K \<subseteq> fst s" and c: "line_clear K s r"
  shows "line_clear K s' r"
  unfolding line_clear_def
proof (intro ballI impI)
  fix x assume x: "x \<in> set (t_rows (snd s'))"
    and e: "row_id x \<in> K \<and> aggregateId x = aggregateId r \<and> row_key x < row_key r"
  then have "row_id x \<in> fst s" using k(2) by blast
  from others_row [OF o k(1) x this] obtain q where
    q: "q \<in> set (t_rows (snd s))" "same_row q x" "terminal q \<longrightarrow> terminal x" .
  have "terminal q" using c q(1) e same_row_key [OF q(2)] by (auto simp: line_clear_def)
  then show "terminal x" using q(3) by simp
qed

text \<open>The service's own commands stay within that: so any number of processes running them
  may be the others.\<close>

lemma rows_step_others:
  assumes "list_all2 row_step (t_rows t) (t_rows t')"
  shows "others (h, t) (h, t')"
proof -
  have "\<exists>r \<in> set (t_rows t). row_step r r'" if "r' \<in> set (t_rows t')" for r'
    by (metis (no_types) assms that list_all2_conv_all_nth in_set_conv_nth)
  then show ?thesis
    unfolding others_def ids_known_def
    by (fastforce dest: row_step_same row_step_terminal same_row_key)
qed

lemma write_others:
  assumes "row_id d \<notin> h" "h' = insert (row_id d) h" "t_rows t' = t_rows t @ [d]"
  shows "others (h, t) (h', t')"
  using assms by (auto simp: others_def ids_known_def intro: same_row_refl)

subsection \<open>The table interface\<close>

text \<open>Commands run with their documented effect at some moment between other processes'
  steps. The observer \<open>view\<close> gives the tables and the ids of the rows there have been.\<close>

locale outbox_world =
  fixes exec :: "'w db_exec" and view :: "'w \<Rightarrow> outbox_history"
  assumes exec_ok: "exec c w = (res, w') \<Longrightarrow> cmd_ok c \<Longrightarrow>
    \<exists>h t t'. others (view w) (h, t) \<and> db_step c res t t' \<and> others (h, t') (view w')"
    and start_ok: "ids_known (view w)"
begin

lemma exec_others:
  assumes "exec c w = (res, w')" "cmd_ok c"
  shows "others (view w) (view w')"
proof -
  obtain h t t' where s: "others (view w) (h, t)" "db_step c res t t'" "others (h, t') (view w')"
    using exec_ok [OF assms] by blast
  have "others (h, t) (h, t')" using rows_step_others db_step_rows [OF assms(2) s(2)] by blast
  then show ?thesis using s others_trans by blast
qed

lemma bind_others:
  assumes "db_bind exec c k w = (res, w')" "cmd_ok c"
    and "\<And>rep w1 res w'. k rep w1 = (res, w') \<Longrightarrow> others (view w1) (view w')"
  shows "others (view w) (view w')"
proof -
  obtain out w1 where e: "exec c w = (out, w1)" by force
  have a: "others (view w) (view w1)" by (rule exec_others [OF e assms(2)])
  show ?thesis
  proof (cases out)
    case (Inl err)
    then show ?thesis using assms(1) e a by (simp add: db_bind_def)
  next
    case (Inr rep)
    then show ?thesis using assms(1) e a assms(3) [of rep w1 res w'] others_trans
      by (fastforce simp: db_bind_def)
  qed
qed

text \<open>The head row read is clear to go among the rows visible at the read, then and ever after.\<close>

lemma headOf_read:
  assumes "headOf exec agg w = (Inr (Some r), w')"
  obtains h t where "others (view w) (h, t)" "others (h, t) (view w')" "r \<in> set (t_rows t)" "aggregateId r = agg"
    "is_open r" "line_clear h (h, t) r"
proof -
  let ?p = "\<lambda>r. aggregateId r = agg \<and> is_open r"
  have c: "cmd_ok (FindRows ?p (Some 1))" by simp
  obtain rep where e: "exec (FindRows ?p (Some 1)) w = (Inr rep, w')"
    and r: "rows_of rep = r # tl (rows_of rep)"
    using assms by (auto simp: headOf_def db_bind_def split: sum.splits prod.splits list.splits)
  obtain h t t' where s: "others (view w) (h, t)" "db_step (FindRows ?p (Some 1)) (Inr rep) t t'"
      "others (h, t') (view w')"
    using exec_ok [OF e c] by blast
  then have t': "t' = t" and rep: "rep = Rows (limit_to (Some 1) (sort_key row_key (filter ?p (t_rows t))))"
    by (auto simp: db_step_def)
  let ?l = "sort_key row_key (filter ?p (t_rows t))"
  obtain rest where l: "?l = r # rest"
    using r rep by (cases ?l) (auto simp: rows_of_def limit_to_def)
  have mem: "r \<in> set (t_rows t)" "aggregateId r = agg" "is_open r"
  proof -
    have "r \<in> set ?l" unfolding l by simp
    then show "r \<in> set (t_rows t)" "aggregateId r = agg" "is_open r" by simp_all
  qed
  have min: "row_key r \<le> row_key x" if "x \<in> set (t_rows t)" "aggregateId x = agg" "is_open x" for x
  proof -
    have "x \<in> set ?l" using that by simp
    moreover have "sorted (map row_key ?l)" by simp
    ultimately show ?thesis unfolding l by auto
  qed
  have "line_clear h (h, t) r"
    using mem min unfolding line_clear_def terminal_iff by fastforce
  then show thesis using that s(1,3) mem t' by blast
qed

lemma headOf_clear:
  assumes "headOf exec agg w = (Inr (Some r), w')"
  obtains K where "fst (view w) \<subseteq> K" "K \<subseteq> fst (view w')" "row_id r \<in> K" "line_clear K (view w') r" "aggregateId r = agg"
proof -
  from headOf_read [OF assms] obtain h t where o: "others (view w) (h, t)" "others (h, t) (view w')"
    and r: "r \<in> set (t_rows t)" "aggregateId r = agg" "line_clear h (h, t) r" by blast
  have k: "ids_known (h, t)" "fst (view w) \<subseteq> h" using others_known [OF o(1) start_ok] by simp_all
  have "row_id r \<in> h" using k(1) r(1) by (auto simp: ids_known_def)
  moreover have "h \<subseteq> fst (view w')" using others_known [OF o(2) k(1)] by simp
  moreover have "line_clear h (view w') r" by (rule others_line_clear [OF o(2) k(1) _ r(3)]) simp
  ultimately show thesis using that k(2) r(2) by blast
qed

text \<open>A head read after another row of the aggregate was clear lies before that row only if it became
  visible since.\<close>

lemma headOf_not_before:
  assumes "headOf exec agg w = (Inr (Some r), w')"
    and "line_clear K (view w) q" "K \<subseteq> fst (view w)" "aggregateId q = agg" "row_id r \<in> K"
  shows "row_key q \<le> row_key r"
proof -
  from headOf_read [OF assms(1)] obtain h t where o: "others (view w) (h, t)"
    and r: "r \<in> set (t_rows t)" "aggregateId r = agg" "is_open r" by blast
  have "line_clear K (h, t) q" by (rule others_line_clear [OF o start_ok assms(3,2)])
  then show ?thesis using r assms(4,5) by (fastforce simp: line_clear_def terminal_iff)
qed

lemma headOf_others: "headOf exec agg w = (res, w') \<Longrightarrow> others (view w) (view w')"
  unfolding headOf_def by (erule bind_others) auto

lemma markDispatched_others: "markDispatched exec clock ret i w = (res, w') \<Longrightarrow> others (view w) (view w')"
  unfolding markDispatched_def by (erule bind_others) (auto intro: row_step_updates)

lemma markFailed_others: "markFailed exec clock r err m w = (res, w') \<Longrightarrow> others (view w) (view w')"
  unfolding markFailed_def Let_def by (erule bind_others) (auto intro: row_step_updates)

lemma settleHead_others: "settleHead exec clock agg w = (res, w') \<Longrightarrow> others (view w) (view w')"
  unfolding settleHead_def
proof (erule bind_others)
  fix rep w1 res w'
  assume a: "(case headOf exec agg w1 of
         (Inl e, w2) \<Rightarrow> (Inl e, w2)
       | (Inr None, w2) \<Rightarrow>
           (case heads_of rep of
              [] \<Rightarrow> (Inr (), w2)
            | head # _ \<Rightarrow>
                db_bind exec (OnHeads (DeleteOne (\<lambda>h. head_id h = agg \<and> head_v h = head_v head)))
                  (\<lambda>_ w3. (Inr (), w3)) w2)
       | (Inr (Some row), w2) \<Rightarrow>
           (let due = dueAtOf (clock w2) row in
            db_bind exec (OnHeads (UpdateOne (\<lambda>h. head_id h = agg) (\<lambda>h. h\<lparr>dueAt := due\<rparr>)
                (Some \<lparr>head_id = agg, dueAt = due, head_v = 0\<rparr>)))
              (\<lambda>_ w3. (Inr (), w3)) w2)) = (res, w')"
  obtain out w2 where h: "headOf exec agg w1 = (out, w2)" by force
  have o: "others (view w1) (view w2)" by (rule headOf_others [OF h])
  have b: "others (view w2) (view w')" if "db_bind exec (OnHeads c) (\<lambda>_ w3. (Inr (), w3)) w2 = (res, w')" for c
    using that by (rule bind_others) auto
  show "others (view w1) (view w')"
    using a h o b others_trans [OF o]
    by (auto simp: Let_def split: sum.splits option.splits list.splits)
qed simp

end

subsection \<open>A database without other processes\<close>

definition db_ok :: "'w db_exec \<Rightarrow> ('w \<Rightarrow> outbox_tables) \<Rightarrow> bool" where
  "db_ok exec view \<longleftrightarrow> (\<forall>c w res w'. exec c w = (res, w') \<longrightarrow> db_step c res (view w) (view w'))"

definition sure_db :: "outbox_tables db_exec" where
  "sure_db c t = (case db_apply c t of (rep, t') \<Rightarrow> (Inr rep, t'))"

lemma sure_db_ok: "db_ok sure_db (\<lambda>t. t)"
  by (auto simp: db_ok_def sure_db_def db_step_def split: prod.splits)

lemma row_ids_kept: "list_all2 row_step rs rs' \<Longrightarrow> row_id ` set rs' = row_id ` set rs"
proof -
  assume l: "list_all2 row_step rs rs'"
  have "list_all2 (\<lambda>r r'. row_id r' = row_id r) rs rs'"
    by (rule list_all2_mono [OF l]) (simp add: row_step_same same_row_key)
  then have "map row_id rs' = map row_id rs"
    by (metis (mono_tags, lifting) list_all2_conv_all_nth map_equality_iff)
  then show ?thesis by (metis set_map)
qed

definition known_tables :: "outbox_tables \<Rightarrow> outbox_history" where
  "known_tables t = (row_id ` set (t_rows t), t)"

interpretation sure_world: outbox_world sure_db known_tables
proof
  fix c w w' and res :: "thrown + db_reply" assume e: "sure_db c w = (res, w')" and c: "cmd_ok c"
  then have st: "db_step c res w w'" using sure_db_ok by (auto simp: db_ok_def)
  have "row_id ` set (t_rows w') = row_id ` set (t_rows w)" by (rule row_ids_kept [OF db_step_rows [OF c st]])
  then show "\<exists>h t t'. others (known_tables w) (h, t) \<and> db_step c res t t' \<and> others (h, t') (known_tables w')"
    using st unfolding known_tables_def
    by (intro exI [of _ "row_id ` set (t_rows w)"] exI [of _ w] exI [of _ w']) simp
qed (simp add: known_tables_def ids_known_def)

subsection \<open>The life of a row\<close>

inductive outbox_op :: "'w db_exec \<Rightarrow> ('w \<Rightarrow> nat) \<Rightarrow> nat \<Rightarrow> 'w \<Rightarrow> 'w \<Rightarrow> bool" for exec clock retention where
  settle: "settleHead exec clock agg w = (r1, w') \<Longrightarrow> outbox_op exec clock retention w w'"
| repair: "repairHeads exec clock retention now w = (r2, w') \<Longrightarrow> outbox_op exec clock retention w w'"
| dispatched: "markDispatched exec clock retention i w = (r1, w') \<Longrightarrow> outbox_op exec clock retention w w'"
| failed: "markFailed exec clock row err n w = (r3, w') \<Longrightarrow> outbox_op exec clock retention w w'"
| deadLetter: "deadLetterExhausted exec n w = (r2, w') \<Longrightarrow> outbox_op exec clock retention w w'"
| redrive: "redrive exec clock parse filt w = (r2, w') \<Longrightarrow> outbox_op exec clock retention w w'"
| skip: "skip exec clock retention parse filt w = (r2, w') \<Longrightarrow> outbox_op exec clock retention w w'"

lemma db_bind_cases:
  assumes "db_bind exec c k w = (res, w')"
  obtains (fails) e where "exec c w = (Inl e, w')" "res = Inl e"
    | (goes) rep w1 where "exec c w = (Inr rep, w1)" "k rep w1 = (res, w')"
  using assms by (auto simp: db_bind_def split: prod.splits sum.splits)

definition reads_rows :: "db_cmd \<Rightarrow> bool" where
  "reads_rows c \<longleftrightarrow> (\<forall>d. c \<noteq> OnRows d)"

lemma db_step_same_rows: "reads_rows c \<Longrightarrow> db_step c res t t' \<Longrightarrow> t_rows t' = t_rows t"
  by (cases c; cases res) (auto simp: db_step_def reads_rows_def Let_def split: prod.splits)

lemma exec_same_rows:
  "db_ok exec view \<Longrightarrow> exec c w = (res, w') \<Longrightarrow> reads_rows c \<Longrightarrow> t_rows (view w') = t_rows (view w)"
  using db_step_same_rows unfolding db_ok_def by blast

lemma bind_same_rows:
  assumes "db_bind exec c k w = (res, w')" "db_ok exec view" "reads_rows c"
    and "\<And>rep w1. k rep w1 = (res, w') \<Longrightarrow> t_rows (view w') = t_rows (view w1)"
  shows "t_rows (view w') = t_rows (view w)"
  using assms(1) by (cases rule: db_bind_cases) (use exec_same_rows [OF assms(2) _ assms(3)] assms(4) in fastforce)+

lemma headOf_same_rows:
  "headOf exec agg w = (res, w') \<Longrightarrow> db_ok exec view \<Longrightarrow> t_rows (view w') = t_rows (view w)"
  unfolding headOf_def by (erule bind_same_rows) (auto simp: reads_rows_def)

lemma requeue_same_rows:
  "requeue exec clock aggs w = (res, w') \<Longrightarrow> db_ok exec view \<Longrightarrow> t_rows (view w') = t_rows (view w)"
  unfolding requeue_def Let_def by (auto split: if_splits elim!: bind_same_rows simp: reads_rows_def)

lemma repair_waiting_same_rows:
  "repair_waiting exec clock now aggs n w = (res, w') \<Longrightarrow> db_ok exec view \<Longrightarrow> t_rows (view w') = t_rows (view w)"
proof (induction exec clock now aggs n w arbitrary: res w' rule: repair_waiting.induct)
  case (2 exec clock now agg rest n w)
  obtain out w1 where h: "headOf exec agg w = (out, w1)" by force
  note hs = headOf_same_rows [OF h 2(5)]
  have up: "t_rows (view w2) = t_rows (view w1)" if "exec (OnHeads c) w1 = (out2, w2)" for c out2 w2
    using exec_same_rows [OF 2(5) that] by (simp add: reads_rows_def)
  show ?case
  proof (cases out)
    case (Inl e)
    then show ?thesis using 2(4) h hs by simp
  next
    case (Inr row)
    show ?thesis
      using 2(4) h hs 2(1,2,3)[OF h [symmetric] Inr] 2(5) up Inr
      by (auto split: option.splits if_splits prod.splits sum.splits)
  qed
qed simp

lemma settleHead_same_rows:
  assumes "settleHead exec clock agg w = (res, w')" "db_ok exec view"
  shows "t_rows (view w') = t_rows (view w)"
  using assms(1) unfolding settleHead_def
proof (rule bind_same_rows [OF _ assms(2)])
  fix rep w1
  assume a: "(case headOf exec agg w1 of
         (Inl e, w2) \<Rightarrow> (Inl e, w2)
       | (Inr None, w2) \<Rightarrow>
           (case heads_of rep of
              [] \<Rightarrow> (Inr (), w2)
            | head # _ \<Rightarrow>
                db_bind exec (OnHeads (DeleteOne (\<lambda>h. head_id h = agg \<and> head_v h = head_v head)))
                  (\<lambda>_ w3. (Inr (), w3)) w2)
       | (Inr (Some row), w2) \<Rightarrow>
           (let due = dueAtOf (clock w2) row in
            db_bind exec (OnHeads (UpdateOne (\<lambda>h. head_id h = agg) (\<lambda>h. h\<lparr>dueAt := due\<rparr>)
                (Some \<lparr>head_id = agg, dueAt = due, head_v = 0\<rparr>)))
              (\<lambda>_ w3. (Inr (), w3)) w2)) = (res, w')"
  obtain out w2 where h: "headOf exec agg w1 = (out, w2)" by force
  have b: "t_rows (view w') = t_rows (view w2)" if "db_bind exec (OnHeads c) (\<lambda>_ w3. (Inr (), w3)) w2 = (res, w')" for c
    using that assms(2) by (rule bind_same_rows) (auto simp: reads_rows_def)
  show "t_rows (view w') = t_rows (view w1)"
    using a h headOf_same_rows [OF h assms(2)] b
    by (auto simp: Let_def split: sum.splits option.splits list.splits)
qed (simp add: reads_rows_def)

text \<open>An update of rows, with other commands around it.\<close>

lemma bind_row_update:
  assumes "db_bind exec c k w = (res, w')" "db_ok exec view" "cmd_ok c"
    and "\<And>rep w1. k rep w1 = (res, w') \<Longrightarrow> t_rows (view w') = t_rows (view w1)"
  shows "list_all2 row_step (t_rows (view w)) (t_rows (view w'))"
  using assms(1)
proof (cases rule: db_bind_cases)
  case (fails e)
  then show ?thesis using assms(2,3) db_step_rows unfolding db_ok_def by blast
next
  case (goes rep w1)
  then have "list_all2 row_step (t_rows (view w)) (t_rows (view w1))"
    using assms(2,3) db_step_rows unfolding db_ok_def by blast
  then show ?thesis using assms(4) goes(2) by simp
qed

lemma operate_rows:
  assumes "operate exec clock f parse filt w = (res, w')" "db_ok exec view"
    and "\<And>now r. status r = DEAD \<Longrightarrow> row_step r (f now r)"
  shows "list_all2 row_step (t_rows (view w)) (t_rows (view w'))"
proof (cases "selector parse filt")
  case (Inl e)
  then show ?thesis using assms(1) by (simp add: operate_def list.rel_refl)
next
  case (Inr p)
  let ?inner = "\<lambda>aggs w1. db_bind exec (OnRows (UpdateMany (\<lambda>r. p r \<and> status r = DEAD) (f (clock w1)))) (\<lambda>rep w2.
              case requeue exec clock (ids_of aggs) w2 of
                (Inl e, w3) \<Rightarrow> (Inl e, w3)
              | (Inr _, w3) \<Rightarrow> (Inr (modifiedCount rep), w3)) w1"
  have "db_bind exec (DistinctAggregates (\<lambda>r. p r \<and> status r = DEAD)) ?inner w = (res, w')"
    using assms(1) Inr by (simp add: operate_def)
  then show ?thesis
  proof (cases rule: db_bind_cases)
    case (fails e)
    then have "t_rows (view w') = t_rows (view w)"
      using exec_same_rows [OF assms(2)] by (auto simp: reads_rows_def)
    then show ?thesis by (simp add: list.rel_refl)
  next
    case (goes aggs w1)
    have same: "t_rows (view w1) = t_rows (view w)"
      using exec_same_rows [OF assms(2) goes(1)] by (simp add: reads_rows_def)
    have "list_all2 row_step (t_rows (view w1)) (t_rows (view w'))"
      by (rule bind_row_update [OF goes(2) assms(2)])
        (use assms(3) in \<open>auto split: prod.splits sum.splits dest: requeue_same_rows [OF _ assms(2)]\<close>)
    then show ?thesis by (simp add: same)
  qed
qed

lemma repairHeads_rows:
  assumes "repairHeads exec clock ret now w = (res, w')" "db_ok exec view"
  shows "list_all2 row_step (t_rows (view w)) (t_rows (view w'))"
  using assms(1) unfolding repairHeads_def
proof (rule bind_row_update [OF _ assms(2)])
  fix rep :: db_reply and w1
  assume "db_bind exec (DistinctAggregates (\<lambda>r. status r = PENDING \<or> status r = FAILED)) (\<lambda>opn w1.
       case (if ids_of opn = [] then (Inr (Written 0 0 0), w1)
             else exec (BulkHeads (map (\<lambda>agg. upsert_head agg now 0 (\<lambda>h. h)) (ids_of opn))) w1) of
         (Inl e, w2) \<Rightarrow> (Inl e, w2)
       | (Inr res, w2) \<Rightarrow>
           db_bind exec (FindHeads (\<lambda>h. case dueAt h of None \<Rightarrow> True | Some d \<Rightarrow> d > now) None)
             (\<lambda>waiting. repair_waiting exec clock now (map head_id (heads_of waiting)) (upsertedCount res)) w2) w1
      = (res, w')"
  then show "t_rows (view w') = t_rows (view w1)"
  proof (rule bind_same_rows [OF _ assms(2)])
    fix opn w2
    let ?b = "if ids_of opn = [] then (Inr (Written 0 0 0), w2)
             else exec (BulkHeads (map (\<lambda>agg. upsert_head agg now 0 (\<lambda>h. h)) (ids_of opn))) w2"
    assume a: "(case ?b of
         (Inl e, w3) \<Rightarrow> (Inl e, w3)
       | (Inr res, w3) \<Rightarrow>
           db_bind exec (FindHeads (\<lambda>h. case dueAt h of None \<Rightarrow> True | Some d \<Rightarrow> d > now) None)
             (\<lambda>waiting. repair_waiting exec clock now (map head_id (heads_of waiting)) (upsertedCount res)) w3)
      = (res, w')"
    obtain out w3 where b: "?b = (out, w3)" by force
    have s: "t_rows (view w3) = t_rows (view w2)"
      using b exec_same_rows [OF assms(2)] by (auto simp: reads_rows_def split: if_splits)
    show "t_rows (view w') = t_rows (view w2)"
    proof (cases out)
      case (Inl e)
      then show ?thesis using a b s by simp
    next
      case (Inr r)
      then have "t_rows (view w') = t_rows (view w3)"
        using a b by (auto elim!: bind_same_rows [OF _ assms(2)] repair_waiting_same_rows [OF _ assms(2)]
          simp: reads_rows_def)
      then show ?thesis by (simp add: s)
    qed
  qed (simp add: reads_rows_def)
qed (auto simp: terminal_def intro: row_step_updates)

lemma outbox_op_rows:
  assumes "outbox_op exec clock retention w w'" "db_ok exec view"
  shows "list_all2 row_step (t_rows (view w)) (t_rows (view w'))"
  using assms(1)
proof cases
  case (settle agg r1)
  then show ?thesis using settleHead_same_rows [OF _ assms(2)] by (metis list.rel_refl row_step_refl)
next
  case (dispatched i r1)
  then show ?thesis unfolding markDispatched_def
    by (elim bind_row_update [OF _ assms(2)]) (auto intro: row_step_updates)
next
  case (failed row err n r3)
  then show ?thesis unfolding markFailed_def Let_def
    by (elim bind_row_update [OF _ assms(2)]) (auto intro: row_step_updates)
next
  case (deadLetter n r2)
  then show ?thesis unfolding deadLetterExhausted_def
    by (elim bind_row_update [OF _ assms(2)]) (auto intro: row_step_updates)
next
  case (redrive parse filt r2)
  then show ?thesis unfolding redrive_def
    by (rule operate_rows [OF _ assms(2)]) (rule row_step_updates)
next
  case (skip parse filt r2)
  then show ?thesis unfolding skip_def
    by (rule operate_rows [OF _ assms(2)]) (rule row_step_updates)
qed (rule repairHeads_rows [OF _ assms(2)])

subsection \<open>Heads\<close>

definition head_of :: "string \<Rightarrow> outbox_tables \<Rightarrow> outbox_head option" where
  "head_of agg t = find (\<lambda>h. head_id h = agg) (t_heads t)"

definition no_open :: "string \<Rightarrow> outbox_tables \<Rightarrow> bool" where
  "no_open agg t \<longleftrightarrow> (\<forall>r \<in> set (t_rows t). aggregateId r = agg \<longrightarrow> terminal r)"

text \<open>Open rows have a head, so the relay finds them.\<close>

definition covered :: "string \<Rightarrow> outbox_tables \<Rightarrow> bool" where
  "covered agg t \<longleftrightarrow> no_open agg t \<or> head_of agg t \<noteq> None"

text \<open>What the others may do to an aggregate while one relay holds its lease: they keep its head,
  they never lower its version, and they add or reopen rows only with a higher one. A write,
  with its head update in one transaction, does just that.\<close>

definition lease_others :: "string \<Rightarrow> outbox_tables \<Rightarrow> outbox_tables \<Rightarrow> bool" where
  "lease_others agg t t' \<longleftrightarrow>
     (\<forall>h. head_of agg t = Some h \<longrightarrow>
        (\<exists>h'. head_of agg t' = Some h' \<and> head_v h \<le> head_v h'
           \<and> (head_v h' = head_v h \<and> no_open agg t \<longrightarrow> no_open agg t')))
     \<and> (covered agg t \<longrightarrow> covered agg t')"

lemma lease_others_refl [simp]: "lease_others agg t t"
  by (simp add: lease_others_def)

lemma lease_others_trans:
  assumes "lease_others agg t t'" "lease_others agg t' t''"
  shows "lease_others agg t t''"
proof -
  have "\<exists>h''. head_of agg t'' = Some h'' \<and> head_v h \<le> head_v h''
      \<and> (head_v h'' = head_v h \<and> no_open agg t \<longrightarrow> no_open agg t'')" if h: "head_of agg t = Some h" for h
  proof -
    obtain h' where 1: "head_of agg t' = Some h'" "head_v h \<le> head_v h'"
        "head_v h' = head_v h \<and> no_open agg t \<longrightarrow> no_open agg t'"
      using assms(1) h unfolding lease_others_def by blast
    obtain h'' where 2: "head_of agg t'' = Some h''" "head_v h' \<le> head_v h''"
        "head_v h'' = head_v h' \<and> no_open agg t' \<longrightarrow> no_open agg t''"
      using assms(2) 1(1) unfolding lease_others_def by blast
    show ?thesis using 1 2 by (intro exI [of _ h'']) auto
  qed
  then show ?thesis using assms unfolding lease_others_def by blast
qed

definition unique_heads :: "outbox_tables \<Rightarrow> bool" where
  "unique_heads t \<longleftrightarrow> distinct (map head_id (t_heads t))"

text \<open>Commands under a lease: their effect between steps of the others; \<open>_id\<close> is unique.\<close>

definition leased_db :: "string \<Rightarrow> 'w db_exec \<Rightarrow> ('w \<Rightarrow> outbox_tables) \<Rightarrow> bool" where
  "leased_db agg exec view \<longleftrightarrow> (\<forall>c w res w'. exec c w = (res, w') \<longrightarrow>
     (\<exists>t t'. lease_others agg (view w) t \<and> unique_heads t \<and> db_step c res t t' \<and> lease_others agg t' (view w')))"

lemma head_of_simps [simp]:
  "head_of agg (t\<lparr>t_rows := rs\<rparr>) = head_of agg t"
  by (simp add: head_of_def)

lemma no_open_heads [simp]: "no_open agg (t\<lparr>t_heads := hs\<rparr>) = no_open agg t"
  by (simp add: no_open_def)

lemma find_filter: "find P xs = (case filter P xs of [] \<Rightarrow> None | x # _ \<Rightarrow> Some x)"
  by (induction xs) auto

lemma filter_unique_head:
  assumes "unique_heads t"
  shows "filter (\<lambda>h. head_id h = agg) (t_heads t) = (case head_of agg t of None \<Rightarrow> [] | Some h \<Rightarrow> [h])"
proof -
  have "length (filter (\<lambda>h. head_id h = agg) hs) \<le> 1" if "distinct (map head_id hs)" for hs
    using that by (induction hs) (auto simp: filter_empty_conv image_iff)
  then have "length (filter (\<lambda>h. head_id h = agg) (t_heads t)) \<le> 1"
    using assms unfolding unique_heads_def by blast
  then show ?thesis
    by (cases "filter (\<lambda>h. head_id h = agg) (t_heads t)") (auto simp: head_of_def find_filter)
qed

lemma find_update_first:
  assumes "\<And>h. head_id (f h) = head_id h"
  shows "head_of agg (t\<lparr>t_heads := update_first (\<lambda>h. head_id h = agg) f (t_heads t)\<rparr>) =
    map_option f (head_of agg t)"
proof -
  have "find (\<lambda>h. head_id h = agg) (update_first (\<lambda>h. head_id h = agg) f hs) =
      map_option f (find (\<lambda>h. head_id h = agg) hs)" for hs
    using assms by (induction hs) auto
  then show ?thesis by (simp add: head_of_def)
qed

lemma find_append: "find P (xs @ ys) = (case find P xs of None \<Rightarrow> find P ys | Some y \<Rightarrow> Some y)"
  by (induction xs) auto

lemma head_of_append: "head_of agg (t\<lparr>t_heads := t_heads t @ [h]\<rparr>) =
  (case head_of agg t of None \<Rightarrow> (if head_id h = agg then Some h else None) | Some x \<Rightarrow> Some x)"
  by (simp add: head_of_def find_append split: option.split)

lemma db_partial_cases:
  "db_step (OnHeads (DeleteOne p)) res t t' \<Longrightarrow> t' = t \<or> t' = t\<lparr>t_heads := delete_first p (t_heads t)\<rparr>"
  "db_step (OnHeads (UpdateOne p f up)) res t t' \<Longrightarrow>
     t' = t \<or> t' = t\<lparr>t_heads := snd (coll_apply (UpdateOne p f up) (t_heads t))\<rparr>"
  by (cases res; auto simp: db_step_def split: prod.splits if_splits option.splits)+

lemma delete_first_other:
  assumes "\<And>h. p h \<Longrightarrow> head_id h = agg" "unique_heads t"
  shows "(\<exists>h. head_of agg t = Some h \<and> p h) \<or> t\<lparr>t_heads := delete_first p (t_heads t)\<rparr> = t"
proof -
  have "(\<exists>h. find (\<lambda>h. head_id h = agg) hs = Some h \<and> p h) \<or> delete_first p hs = hs"
    if "distinct (map head_id hs)" for hs
    using that assms(1)
  proof (induction hs)
    case (Cons x hs)
    have none: "delete_first p hs = hs" if "agg \<notin> head_id ` set hs" for hs
      using that Cons.prems(2) by (induction hs) auto
    show ?case
    proof (cases "head_id x = agg")
      case True
      then show ?thesis using Cons.prems(1) none [of hs] by auto
    next
      case False
      then have "\<not> p x" using Cons.prems(2) by blast
      then show ?thesis using Cons False by auto
    qed
  qed simp
  then show ?thesis using assms(2) by (force simp: unique_heads_def head_of_def)
qed

text \<open>The three commands of a settle, each between steps of the others.\<close>

lemma settleHead_covered:
  assumes "leased_db agg exec view" "covered agg (view w)" "settleHead exec clock agg w = (res, w')"
  shows "covered agg (view w')"
proof -
  have law: "\<exists>t t'. lease_others agg (view w) t \<and> unique_heads t \<and> db_step c res t t' \<and> lease_others agg t' (view w')"
    if "exec c w = (res, w')" for c w res w'
    using assms(1) that unfolding leased_db_def by blast
  have keep: "covered agg t'" if "lease_others agg t t'" "covered agg t" for t t'
    using that by (simp add: lease_others_def)
  let ?find = "FindHeads (\<lambda>h. head_id h = agg) (Some 1)"
  let ?rows = "FindRows (\<lambda>r. aggregateId r = agg \<and> is_open r) (Some 1)"
  show ?thesis
    using assms(3) unfolding settleHead_def
  proof (cases rule: db_bind_cases)
    case (fails e)
    then obtain t t' where "lease_others agg (view w) t" "db_step ?find (Inl e) t t'" "lease_others agg t' (view w')"
      using law by blast
    then show ?thesis using keep assms(2) by (auto simp: db_step_def)
  next
    case (goes rep w1)
    obtain t1 where t1: "lease_others agg (view w) t1" "unique_heads t1" "lease_others agg t1 (view w1)"
        "rep = Heads (limit_to (Some 1) (sort_key (\<lambda>h. option_or (dueAt h) 0) (filter (\<lambda>h. head_id h = agg) (t_heads t1))))"
      using law [OF goes(1)] by (auto simp: db_step_def)
    have heads: "heads_of rep = (case head_of agg t1 of None \<Rightarrow> [] | Some h \<Rightarrow> [h])"
      using t1(4) filter_unique_head [OF t1(2)] by (auto simp: heads_of_def limit_to_def split: option.splits)
    have c1: "covered agg (view w1)" using keep t1(1,3) assms(2) by blast
    obtain out w2 where h: "headOf exec agg w1 = (out, w2)" by force
    obtain t2 where t2: "lease_others agg (view w1) t2" "lease_others agg t2 (view w2)" "out = Inr None \<Longrightarrow> no_open agg t2"
    proof -
      obtain x w3 where e: "exec ?rows w1 = (x, w3)" by force
      then have x: "exec ?rows w1 = (x, w2)"
          "out = (case x of Inl e \<Rightarrow> Inl e | Inr rep \<Rightarrow> Inr (case rows_of rep of [] \<Rightarrow> None | r # _ \<Rightarrow> Some r))"
        using h by (cases x; auto simp: headOf_def db_bind_def)+
      obtain t t' where t: "lease_others agg (view w1) t" "db_step ?rows x t t'" "lease_others agg t' (view w2)"
        using law [OF x(1)] by blast
      have same: "t' = t" using t(2) by (cases x) (auto simp: db_step_def)
      have "no_open agg t" if none: "out = Inr None"
      proof -
        obtain rep where rep: "x = Inr rep" "rows_of rep = []"
          using x(2) none by (cases x) (auto split: list.splits)
        then have "take 1 (sort_key row_key (filter (\<lambda>r. aggregateId r = agg \<and> is_open r) (t_rows t))) = []"
          using t(2) by (auto simp: db_step_def rows_of_def limit_to_def)
        then have "filter (\<lambda>r. aggregateId r = agg \<and> is_open r) (t_rows t) = []"
          by (metis length_0_conv length_sort list.size(3) take_eq_Nil zero_neq_one)
        then show ?thesis by (auto simp: no_open_def filter_empty_conv terminal_iff)
      qed
      then show thesis using that t same by blast
    qed
    have c2: "covered agg (view w2)" using keep t2(1,2) c1 by blast
    show ?thesis
    proof (cases out)
      case (Inl e)
      then show ?thesis using goes(2) h c2 by simp
    next
      case (Inr found)
      show ?thesis
      proof (cases found)
        case (Some row)
        let ?up = "OnHeads (UpdateOne (\<lambda>h. head_id h = agg) (\<lambda>h. h\<lparr>dueAt := dueAtOf (clock w2) row\<rparr>)
            (Some \<lparr>head_id = agg, dueAt = dueAtOf (clock w2) row, head_v = 0\<rparr>))"
        obtain x where x: "exec ?up w2 = (x, w')"
          using goes(2) h Inr Some by (auto simp: db_bind_def Let_def split: prod.splits sum.splits)
        obtain t t' where t: "lease_others agg (view w2) t" "db_step ?up x t t'" "lease_others agg t' (view w')"
          using law [OF x] by blast
        have "covered agg t'" if "covered agg t"
          using db_partial_cases(2) [OF t(2)] that
          by (auto simp: covered_def find_update_first head_of_append split: if_splits option.splits)
        then show ?thesis using keep t(1,3) c2 by blast
      next
        case None
        show ?thesis
        proof (cases "head_of agg t1")
          case None
          then show ?thesis using goes(2) h Inr \<open>found = None\<close> heads c2 by simp
        next
          case (Some head)
          let ?p = "\<lambda>h. head_id h = agg \<and> head_v h = head_v head"
          obtain x where x: "exec (OnHeads (DeleteOne ?p)) w2 = (x, w')"
            using goes(2) h Inr \<open>found = None\<close> heads Some
            by (auto simp: db_bind_def split: prod.splits sum.splits)
          obtain t t' where t: "lease_others agg (view w2) t" "unique_heads t" "db_step (OnHeads (DeleteOne ?p)) x t t'"
              "lease_others agg t' (view w')"
            using law [OF x] by blast
          have l12: "lease_others agg t1 t2" using lease_others_trans t1(3) t2(1) by blast
          have l23: "lease_others agg t2 t" using lease_others_trans t2(2) t(1) by blast
          obtain h2 where h2: "head_of agg t2 = Some h2" "head_v head \<le> head_v h2"
            using l12 Some unfolding lease_others_def by blast
          obtain h3 where h3: "head_of agg t = Some h3" "head_v h2 \<le> head_v h3"
              "head_v h3 = head_v h2 \<and> no_open agg t2 \<longrightarrow> no_open agg t"
            using l23 h2(1) unfolding lease_others_def by blast
          have "no_open agg t" if "?p h3"
          proof -
            have "head_v h3 = head_v h2" using that h2(2) h3(2) by simp
            then show ?thesis using h3(3) t2(3) Inr \<open>found = None\<close> by blast
          qed
          then have "t\<lparr>t_heads := delete_first ?p (t_heads t)\<rparr> = t \<or> no_open agg t"
            using delete_first_other [of ?p agg t] t(2) h3(1) by auto
          then have "covered agg t'"
            using db_partial_cases(1) [OF t(3)] keep [OF t(1) c2] by (auto simp: covered_def)
          then show ?thesis using keep t(4) by blast
        qed
      qed
    qed
  qed
qed

subsection \<open>Repair\<close>

lemma upsert_keeps:
  assumes "find (\<lambda>h. head_id h = agg) hs = Some h" "\<And>h. head_id (f h) = head_id h"
  shows "\<exists>h'. find (\<lambda>h. head_id h = agg) (snd (coll_apply (upsert_head a due v f) hs)) = Some h'
    \<and> (h' = h \<or> h' = f h)"
proof -
  have "\<exists>h'. find (\<lambda>h. head_id h = agg) (update_first (\<lambda>h. head_id h = a) f hs) = Some h' \<and> (h' = h \<or> h' = f h)"
    using assms by (induction hs) (auto split: if_splits)
  then show ?thesis using assms(1) by (auto simp: upsert_head_def find_append)
qed

lemma upsert_makes:
  "\<exists>h. find (\<lambda>h. head_id h = agg) (snd (coll_apply (upsert_head agg due v (\<lambda>h. h)) hs)) = Some h"
proof -
  show ?thesis
  proof (cases "find (\<lambda>h. head_id h = agg) hs")
    case None
    then have "\<not> (\<exists>h \<in> set hs. head_id h = agg)" by (simp add: find_None_iff)
    then show ?thesis using None by (simp add: upsert_head_def find_append)
  next
    case (Some h)
    then show ?thesis using upsert_keeps [OF Some, of "\<lambda>h. h" agg due v] by auto
  qed
qed

text \<open>Unchanged upserts keep every head and make those they name.\<close>

lemma bulk_upserts:
  assumes "\<forall>c \<in> set cs. \<exists>a. c = upsert_head a due 0 (\<lambda>h. h)"
  shows "(\<forall>h. find (\<lambda>h. head_id h = agg) hs = Some h \<longrightarrow>
        find (\<lambda>h. head_id h = agg) (snd (bulk_apply cs hs)) = Some h)
    \<and> (upsert_head agg due 0 (\<lambda>h. h) \<in> set cs \<longrightarrow>
        find (\<lambda>h. head_id h = agg) (snd (bulk_apply cs hs)) \<noteq> None)"
  using assms
proof (induction cs arbitrary: hs)
  case (Cons c cs)
  obtain a where a: "c = upsert_head a due 0 (\<lambda>h. h)" using Cons.prems by auto
  have step: "snd (bulk_apply (c # cs) hs) = snd (bulk_apply cs (snd (coll_apply c hs)))"
    by (simp split: prod.splits)
  have keeps: "find (\<lambda>h. head_id h = agg) (snd (coll_apply c hs)) = Some h"
    if "find (\<lambda>h. head_id h = agg) hs = Some h" for h
    using upsert_keeps [OF that, of "\<lambda>h. h" a due 0] a by auto
  show ?case
    using Cons.IH [of "snd (coll_apply c hs)"] Cons.prems keeps upsert_makes [of agg due 0 hs]
    unfolding step by auto
qed simp

definition has_head :: "string \<Rightarrow> outbox_tables \<Rightarrow> bool" where
  "has_head agg t \<longleftrightarrow> head_of agg t \<noteq> None"

lemma head_of_due_update:
  assumes "db_step (OnHeads (UpdateOne (\<lambda>h. head_id h = a) (\<lambda>h. h\<lparr>dueAt := d\<rparr>) None)) res t t'"
  shows "(head_of agg t' = None \<longleftrightarrow> head_of agg t = None) \<and> (a \<noteq> agg \<longrightarrow> head_of agg t' = head_of agg t)"
proof -
  have fu: "find (\<lambda>h. head_id h = agg) (update_first (\<lambda>h. head_id h = a) (\<lambda>h. h\<lparr>dueAt := d\<rparr>) hs) =
      (if a = agg then map_option (\<lambda>h. h\<lparr>dueAt := d\<rparr>) (find (\<lambda>h. head_id h = agg) hs)
       else find (\<lambda>h. head_id h = agg) hs)" for hs
    by (induction hs) auto
  have "t' = t \<or> t' = t\<lparr>t_heads := update_first (\<lambda>h. head_id h = a) (\<lambda>h. h\<lparr>dueAt := d\<rparr>) (t_heads t)\<rparr>"
    using db_partial_cases(2) [OF assms] by (auto split: if_splits)
  then show ?thesis by (elim disjE) (simp_all add: head_of_def fu)
qed

lemma headOf_same:
  assumes "headOf exec agg w = (res, w')" "db_ok exec view"
  shows "view w' = view w"
    and "\<And>x. res = Inr x \<Longrightarrow> x = (case sort_key row_key (filter (\<lambda>r. aggregateId r = agg \<and> is_open r) (t_rows (view w)))
            of [] \<Rightarrow> None | r # _ \<Rightarrow> Some r)"
proof -
  obtain out where e: "exec (FindRows (\<lambda>r. aggregateId r = agg \<and> is_open r) (Some 1)) w = (out, w')"
    and o: "res = (case out of Inl e \<Rightarrow> Inl e | Inr rep \<Rightarrow> Inr (case rows_of rep of [] \<Rightarrow> None | r # _ \<Rightarrow> Some r))"
    using assms(1) unfolding headOf_def by (cases rule: db_bind_cases) auto
  have st: "db_step (FindRows (\<lambda>r. aggregateId r = agg \<and> is_open r) (Some 1)) out (view w) (view w')"
    using assms(2) e unfolding db_ok_def by blast
  then show "view w' = view w" by (cases out) (auto simp: db_step_def)
  show "x = (case sort_key row_key (filter (\<lambda>r. aggregateId r = agg \<and> is_open r) (t_rows (view w)))
            of [] \<Rightarrow> None | r # _ \<Rightarrow> Some r)" if "res = Inr x" for x
    using st o that by (cases out) (auto simp: db_step_def rows_of_def limit_to_def split: list.splits)
qed

text \<open>What the loop over the waiting heads keeps: every head, and a head whose rows are due only
  later than \<open>now\<close>.\<close>

lemma repair_waiting_keeps:
  assumes "repair_waiting exec clock now aggs n w = (res, w')" "db_ok exec view"
  shows "(has_head agg (view w') \<longleftrightarrow> has_head agg (view w))
    \<and> ((\<exists>r \<in> set (t_rows (view w)). aggregateId r = agg \<and> is_open r)
        \<and> (\<forall>r \<in> set (t_rows (view w)). aggregateId r = agg \<and> is_open r \<longrightarrow> status r = PENDING)
        \<and> (\<forall>w. now < clock w) \<longrightarrow> head_of agg (view w') = head_of agg (view w))"
  using assms
proof (induction exec clock now aggs n w arbitrary: res w' rule: repair_waiting.induct)
  case (2 exec clock now a rest n w)
  obtain out w1 where h: "headOf exec a w = (out, w1)" by force
  note same = headOf_same(1) [OF h 2(5)]
  show ?case
  proof (cases out)
    case (Inl e)
    then show ?thesis using 2(4) h same by simp
  next
    case (Inr row)
    define due where "due = (case row of Some r \<Rightarrow> dueAtOf (clock w1) r | None \<Rightarrow> Some now)"
    show ?thesis
    proof (cases "\<exists>d. due = Some d \<and> d \<le> now")
      case False
      have rw: "repair_waiting exec clock now rest n w1 = (res, w')"
        using 2(4) h Inr False by (auto simp: due_def split: option.splits if_splits)
      have "(has_head agg (view w') \<longleftrightarrow> has_head agg (view w1))
        \<and> ((\<exists>r \<in> set (t_rows (view w1)). aggregateId r = agg \<and> is_open r)
        \<and> (\<forall>r \<in> set (t_rows (view w1)). aggregateId r = agg \<and> is_open r \<longrightarrow> status r = PENDING)
        \<and> (\<forall>w. now < clock w) \<longrightarrow> head_of agg (view w') = head_of agg (view w1))"
      proof (cases due)
        case None
        show ?thesis
          by (rule 2(1)[OF h [symmetric] Inr None [unfolded due_def]]) (use 2(5) rw in simp_all)
      next
        case (Some d)
        then have "\<not> d \<le> now" using False by simp
        then show ?thesis
          by (rule 2(3)[OF h [symmetric] Inr Some [unfolded due_def]]) (use 2(5) rw in simp_all)
      qed
      then show ?thesis by (simp add: same)
    next
      case True
      then obtain d where d: "due = Some d" "d \<le> now" by blast
      let ?up = "OnHeads (UpdateOne (\<lambda>h. head_id h = a) (\<lambda>h. h\<lparr>dueAt := Some d\<rparr>) None)"
      obtain x w2 where e: "exec ?up w1 = (x, w2)" by force
      have st: "db_step ?up x (view w1) (view w2)" using 2(5) e unfolding db_ok_def by blast
      note hu = head_of_due_update [OF st, of agg]
      have rows2: "t_rows (view w2) = t_rows (view w)"
        using db_step_same_rows [OF _ st] same by (simp add: reads_rows_def)
      have ne: "a \<noteq> agg" if "\<exists>r \<in> set (t_rows (view w)). aggregateId r = agg \<and> is_open r"
          "\<forall>r \<in> set (t_rows (view w)). aggregateId r = agg \<and> is_open r \<longrightarrow> status r = PENDING"
          "\<forall>w. now < clock w"
      proof
        assume "a = agg"
        let ?l = "sort_key row_key (filter (\<lambda>r. aggregateId r = agg \<and> is_open r) (t_rows (view w)))"
        have row: "row = (case ?l of [] \<Rightarrow> None | r # _ \<Rightarrow> Some r)"
          using headOf_same(2) [OF h 2(5) Inr] \<open>a = agg\<close> by simp
        have "set ?l \<noteq> {}" using that(1) by auto
        then obtain r rs where l: "?l = r # rs" by (cases ?l) auto
        then have "r \<in> set ?l" by simp
        then have "status r = PENDING" using that(2) by simp
        then have "due = Some (clock w1)" using row l by (simp add: due_def dueAtOf_def)
        then show False using d that(3) by (metis leD option.inject)
      qed
      have out: "(has_head agg (view w2) \<longleftrightarrow> has_head agg (view w))
        \<and> ((\<exists>r \<in> set (t_rows (view w)). aggregateId r = agg \<and> is_open r)
        \<and> (\<forall>r \<in> set (t_rows (view w)). aggregateId r = agg \<and> is_open r \<longrightarrow> status r = PENDING)
        \<and> (\<forall>w. now < clock w) \<longrightarrow> head_of agg (view w2) = head_of agg (view w))"
        using hu ne same by (auto simp: has_head_def)
      show ?thesis
      proof (cases x)
        case (Inl err)
        then show ?thesis using 2(4) h Inr d e out by (simp add: due_def)
      next
        case (Inr y)
        then have rest: "repair_waiting exec clock now rest (n + 1) w2 = (res, w')"
          using 2(4) h \<open>out = Inr row\<close> d e by (simp add: due_def)
        have "(has_head agg (view w') \<longleftrightarrow> has_head agg (view w2))
        \<and> ((\<exists>r \<in> set (t_rows (view w2)). aggregateId r = agg \<and> is_open r)
        \<and> (\<forall>r \<in> set (t_rows (view w2)). aggregateId r = agg \<and> is_open r \<longrightarrow> status r = PENDING)
        \<and> (\<forall>w. now < clock w) \<longrightarrow> head_of agg (view w') = head_of agg (view w2))"
          using 2(2)[OF h [symmetric] \<open>out = Inr row\<close> d(1)[unfolded due_def] d(2) e [symmetric] Inr rest 2(5)] .
        then show ?thesis using out rows2 by auto
      qed
    qed
  qed
qed simp

lemma db_step_rows_heads: "db_step (OnRows c) res t t' \<Longrightarrow> t_heads t' = t_heads t"
  by (cases res) (force simp: db_step_def split: prod.splits)+

lemma onrows_reply: "db_step (OnRows c) (Inr rep) t t' \<Longrightarrow> coll_apply c (t_rows t) = (rep, t_rows t')"
  by (cases "coll_apply c (t_rows t)") (auto simp: db_step_def)

lemma onrows_partial: "db_step (OnRows c) res t t' \<Longrightarrow> coll_partial c (t_rows t) (t_rows t')"
  by (cases res) (auto simp: db_step_def dest: coll_apply_partial split: prod.splits)

lemma bulk_partial_heads:
  assumes "db_step (BulkHeads (map (\<lambda>a. upsert_head a due 0 (\<lambda>h. h)) ids)) res t t'"
  shows "(\<forall>h. head_of agg t = Some h \<longrightarrow> head_of agg t' = Some h)
    \<and> (\<not> isl res \<and> agg \<in> set ids \<longrightarrow> has_head agg t')"
proof -
  have b: "(\<forall>h. head_of agg t = Some h \<longrightarrow> head_of agg (t\<lparr>t_heads := snd (bulk_apply cs (t_heads t))\<rparr>) = Some h)
    \<and> (upsert_head agg due 0 (\<lambda>h. h) \<in> set cs \<longrightarrow> has_head agg (t\<lparr>t_heads := snd (bulk_apply cs (t_heads t))\<rparr>))"
    if "set cs \<subseteq> set (map (\<lambda>a. upsert_head a due 0 (\<lambda>h. h)) ids)" for cs
    using bulk_upserts [of cs due agg "t_heads t"] that by (auto simp: head_of_def has_head_def)
  show ?thesis
  proof (cases res)
    case (Inl e)
    then show ?thesis using assms b by (auto simp: db_step_def)
  next
    case (Inr r)
    then show ?thesis
      using assms b [of "map (\<lambda>a. upsert_head a due 0 (\<lambda>h. h)) ids"]
      by (auto simp: db_step_def split: prod.splits)
  qed
qed

lemma repairHeads_heads:
  assumes "repairHeads exec clock ret now w = (res, w')" "db_ok exec view"
  shows "(\<not> isl res \<longrightarrow> (\<forall>r \<in> set (t_rows (view w')). status r = PENDING \<or> status r = FAILED
            \<longrightarrow> has_head (aggregateId r) (view w')))
    \<and> ((\<exists>r \<in> set (t_rows (view w)). aggregateId r = agg \<and> is_open r)
        \<and> (\<forall>r \<in> set (t_rows (view w)). aggregateId r = agg \<and> is_open r \<longrightarrow> status r = PENDING)
        \<and> (\<forall>w. now < clock w) \<and> head_of agg (view w) = Some h \<longrightarrow> head_of agg (view w') = Some h)"
  (is "?A w w' \<and> ?B w w'")
proof -
  let ?stuck = "\<lambda>w. (\<exists>r \<in> set (t_rows (view w)). aggregateId r = agg \<and> is_open r)
        \<and> (\<forall>r \<in> set (t_rows (view w)). aggregateId r = agg \<and> is_open r \<longrightarrow> status r = PENDING)"
  let ?upd = "OnRows (UpdateMany (\<lambda>r. (status r = DISPATCHED \<or> status r = SKIPPED) \<and> expireAt r = None)
         (\<lambda>r. r\<lparr>expireAt := Some (expiry ret now)\<rparr>))"
  have st: "db_step c res (view w) (view w')" if "exec c w = (res, w')" for c res w w'
    using assms(2) that unfolding db_ok_def by blast
  have keep_stuck: "?stuck w1 \<longleftrightarrow> ?stuck w" "head_of agg (view w1) = head_of agg (view w)"
    if "db_step ?upd res (view w) (view w1)" for res w w1
  proof -
    have heads: "t_heads (view w1) = t_heads (view w)"
      by (rule db_step_rows_heads [OF that])
    have l2: "list_all2 (\<lambda>r r'. r' = r \<or> terminal r \<and> terminal r' \<and> same_row r r') (t_rows (view w)) (t_rows (view w1))"
    proof -
      have "coll_partial (UpdateMany (\<lambda>r. (status r = DISPATCHED \<or> status r = SKIPPED) \<and> expireAt r = None)
         (\<lambda>r. r\<lparr>expireAt := Some (expiry ret now)\<rparr>)) (t_rows (view w)) (t_rows (view w1))"
        by (rule onrows_partial [OF that])
      then show ?thesis unfolding coll_partial.simps
        by (rule list_all2_mono) (auto simp: terminal_def same_row_def)
    qed
    have "(\<exists>r \<in> set (t_rows (view w1)). aggregateId r = agg \<and> is_open r \<and> P r)
        \<longleftrightarrow> (\<exists>r \<in> set (t_rows (view w)). aggregateId r = agg \<and> is_open r \<and> P r)" for P
      using l2 by (induction rule: list_all2_induct) (auto simp: terminal_iff)
    from this [of "\<lambda>_. True"] this [of "\<lambda>r. status r \<noteq> PENDING"]
    show "?stuck w1 \<longleftrightarrow> ?stuck w" by auto
    show "head_of agg (view w1) = head_of agg (view w)" using heads by (simp add: head_of_def)
  qed
  show ?thesis
    using assms(1) unfolding repairHeads_def
  proof (cases rule: db_bind_cases)
    case (fails e)
    then show ?thesis using keep_stuck(2) [OF st [OF fails(1)]] by auto
  next
    case (goes rep1 w1)
    note s1 = st [OF goes(1)]
    from goes(2) show ?thesis
    proof (cases rule: db_bind_cases)
      case (fails e)
      have "view w' = view w1" using st [OF fails(1)] by (auto simp: db_step_def)
      then show ?thesis using keep_stuck [OF s1] fails by auto
    next
      case (goes opn w2)
      have v2: "view w2 = view w1" and ids: "ids_of opn = remdups (map aggregateId
          (filter (\<lambda>r. status r = PENDING \<or> status r = FAILED) (t_rows (view w1))))"
        using st [OF goes(1)] by (auto simp: db_step_def ids_of_def)
      let ?bulk = "BulkHeads (map (\<lambda>agg. upsert_head agg now 0 (\<lambda>h. h)) (ids_of opn))"
      obtain out w3 where b: "(if ids_of opn = [] then (Inr (Written 0 0 0), w2) else exec ?bulk w2) = (out, w3)" by force
      have s3: "db_step ?bulk out (view w2) (view w3)"
        using b st by (auto simp: db_step_def split: if_splits)
      note heads3 = bulk_partial_heads [OF s3]
      have rows3: "t_rows (view w3) = t_rows (view w1)"
        using db_step_same_rows [OF _ s3] v2 by (simp add: reads_rows_def)
      have cov3: "\<not> isl out \<longrightarrow> (\<forall>r \<in> set (t_rows (view w3)). status r = PENDING \<or> status r = FAILED
            \<longrightarrow> has_head (aggregateId r) (view w3))"
        using heads3 rows3 ids by auto
      have stuck3: "head_of agg (view w3) = Some h" if "head_of agg (view w) = Some h"
        using heads3 [of agg] keep_stuck(2) [OF s1] v2 that by auto
      show ?thesis
      proof (cases out)
        case (Inl e)
        then show ?thesis using goes(2) b stuck3 by auto
      next
        case (Inr r)
        then have "db_bind exec (FindHeads (\<lambda>h. case dueAt h of None \<Rightarrow> True | Some d \<Rightarrow> d > now) None)
             (\<lambda>waiting. repair_waiting exec clock now (map head_id (heads_of waiting)) (upsertedCount r)) w3 = (res, w')"
          using goes(2) b by simp
        then show ?thesis
        proof (cases rule: db_bind_cases)
          case (fails e)
          have "view w' = view w3" using st [OF fails(1)] by (auto simp: db_step_def)
          then show ?thesis using stuck3 fails by auto
        next
          case (goes waiting w4)
          have v4: "view w4 = view w3" using st [OF goes(1)] by (auto simp: db_step_def)
          note keeps = repair_waiting_keeps [OF goes(2) assms(2)]
          have rows': "t_rows (view w') = t_rows (view w3)"
            using repair_waiting_same_rows [OF goes(2) assms(2)] v4 by simp
          have "?stuck w3 \<longleftrightarrow> ?stuck w" using keep_stuck(1) [OF s1] rows3 by simp
          then have "?B w w'" using keeps [of agg] v4 stuck3 by auto
          moreover have "?A w w'" using keeps cov3 Inr v4 rows' by auto
          ultimately show ?thesis by blast
        qed
      qed
    qed
  qed
qed

subsection \<open>Properties\<close>

text \<open>C32: The life of an outbox row. Whatever the service does and whatever fails on the way, no
  row is lost, duplicated or rewritten: a DISPATCHED or SKIPPED row never changes status again,
  a DEAD row moves only to PENDING or SKIPPED, an unsettled one never straight to SKIPPED.\<close>

theorem outbox_row_lifecycle:
  assumes "db_ok exec view" and "outbox_op exec clock retention w w'"
    and "i < length (t_rows (view w))"
  shows "length (t_rows (view w')) = length (t_rows (view w))
    \<and> same_row (t_rows (view w) ! i) (t_rows (view w') ! i)
    \<and> (status (t_rows (view w') ! i) = status (t_rows (view w) ! i)
       \<or> status_edge (status (t_rows (view w) ! i)) (status (t_rows (view w') ! i)))"
proof -
  have "list_all2 row_step (t_rows (view w)) (t_rows (view w'))"
    by (rule outbox_op_rows [OF assms(2,1)])
  then show ?thesis using assms(3) by (auto simp: list_all2_conv_all_nth row_step_def)
qed

definition example_row :: outbox_row where
  "example_row = \<lparr>row_id = 1, aggregateId = ''a'', topic = ''t'', payload = [],
     event = \<lparr>oe_id = ''e'', oe_type = ''x'', oe_subject = None, oe_tenantId = ''acme'', oe_time = 0,
       oe_traceparent = None, oe_tracestate = None, oe_schemaVersion = ''1''\<rparr>,
     status = PENDING, attempts = 0, dispatchedAt = None, lastError = None, nextAttemptAt = None,
     skippedAt = None, expireAt = None, createdAt = 5\<rparr>"

definition example_tables :: outbox_tables where
  "example_tables = \<lparr>t_rows = [example_row], t_heads = [\<lparr>head_id = ''a'', dueAt = None, head_v = 1\<rparr>]\<rparr>"

lemma outbox_row_lifecycle_witness:
  "status (t_rows (snd (markDispatched sure_db (\<lambda>_. 7) 100 1 example_tables)) ! 0) \<noteq> SKIPPED"
proof -
  have "outbox_op sure_db (\<lambda>_. 7) 100 example_tables (snd (markDispatched sure_db (\<lambda>_. 7) 100 1 example_tables))"
    by (rule outbox_op.dispatched [OF prod.collapse [symmetric]])
  from outbox_row_lifecycle [OF sure_db_ok this, of 0]
  show ?thesis by (auto simp: example_tables_def example_row_def)
qed

text \<open>A failed publish is retried after 5, 10, 20 and 40 seconds and the fifth failure makes
  the row DEAD: those are the only changes \<open>markFailed\<close> makes, and it reports which one it made,
  or none when no unsettled row with the id was there.\<close>

theorem mark_failed_schedule:
  assumes "db_ok exec view" and "markFailed exec clock row err MAX_ATTEMPTS w = (Inr out, w')"
  shows "out = (if \<exists>r \<in> set (t_rows (view w)). unsettled (row_id row) r
                then Some (if attempts row + 1 \<ge> 5 then DEAD else FAILED) else None)
    \<and> (\<forall>r \<in> set (t_rows (view w')). r \<in> set (t_rows (view w))
        \<or> row_id r = row_id row \<and> attempts r = attempts row + 1
          \<and> (if attempts r \<ge> 5 then status r = DEAD \<and> nextAttemptAt r = None
             else status r = FAILED
               \<and> nextAttemptAt r = Some (clock w + [5000, 10000, 20000, 40000] ! attempts row)))"
proof -
  let ?f = "failed_row (clock w) (attempts row + 1) MAX_ATTEMPTS err"
  obtain rep w1 where e: "exec (OnRows (UpdateOne (unsettled (row_id row)) ?f None)) w = (Inr rep, w')"
    and out: "out = (if matchedCount rep = 0 then None
                 else Some (if attempts row + 1 \<ge> MAX_ATTEMPTS then DEAD else FAILED))"
    using assms(2) by (auto simp: markFailed_def Let_def db_bind_def split: prod.splits sum.splits)
  have "db_step (OnRows (UpdateOne (unsettled (row_id row)) ?f None)) (Inr rep) (view w) (view w')"
    using assms(1) e unfolding db_ok_def by blast
  from onrows_reply [OF this]
  have st: "coll_apply (UpdateOne (unsettled (row_id row)) ?f None) (t_rows (view w)) = (rep, t_rows (view w'))" .
  have mem: "r \<in> set (update_first p f rs) \<Longrightarrow> r \<in> set rs \<or> (\<exists>q \<in> set rs. p q \<and> r = f q)"
    for r p f and rs :: "outbox_row list"
    by (induction rs) (auto split: if_splits)
  have delay: "5000 * 2 ^ n = [5000, 10000, 20000, 40000 :: nat] ! n" if "n < 4" for n :: nat
  proof -
    have "n = 0 \<or> n = 1 \<or> n = 2 \<or> n = 3" using that by linarith
    then show ?thesis by auto
  qed
  let ?hit = "\<exists>r \<in> set (t_rows (view w)). unsettled (row_id row) r"
  have rows: "t_rows (view w') = (if ?hit then update_first (unsettled (row_id row)) ?f (t_rows (view w)) else t_rows (view w))"
    and rep: "matchedCount rep = (if ?hit then 1 else 0)"
    using st by (auto split: if_splits)
  have new: "row_id r = row_id row \<and> attempts r = attempts row + 1
          \<and> (if attempts r \<ge> 5 then status r = DEAD \<and> nextAttemptAt r = None
             else status r = FAILED
               \<and> nextAttemptAt r = Some (clock w + [5000, 10000, 20000, 40000] ! attempts row))"
    if "unsettled (row_id row) q" "r = ?f q" for r q
    using that delay [of "attempts row"]
    by (simp add: failed_row_def Let_def MAX_ATTEMPTS_def OUTBOX_RETRY_BACKOFF_BASE_MS_def unsettled_def)
  have "r \<in> set (t_rows (view w)) \<or> (\<exists>q. unsettled (row_id row) q \<and> r = ?f q)" if "r \<in> set (t_rows (view w'))" for r
    using that mem [of r] unfolding rows by (auto split: if_splits)
  then have "\<forall>r \<in> set (t_rows (view w')). r \<in> set (t_rows (view w))
        \<or> row_id r = row_id row \<and> attempts r = attempts row + 1
          \<and> (if attempts r \<ge> 5 then status r = DEAD \<and> nextAttemptAt r = None
             else status r = FAILED
               \<and> nextAttemptAt r = Some (clock w + [5000, 10000, 20000, 40000] ! attempts row))"
    using new by blast
  moreover have "out = (if ?hit then Some (if attempts row + 1 \<ge> 5 then DEAD else FAILED) else None)"
    by (simp add: out rep MAX_ATTEMPTS_def)
  ultimately show ?thesis by blast
qed

lemma mark_failed_schedule_witness:
  "\<exists>w'. markFailed sure_db (\<lambda>_. 7) example_row ''boom'' MAX_ATTEMPTS example_tables = (Inr (Some FAILED), w')
    \<and> (\<forall>r \<in> set (t_rows w'). r = example_row \<or> nextAttemptAt r = Some 5007)"
proof -
  obtain out w' where e: "markFailed sure_db (\<lambda>_. 7) example_row ''boom'' MAX_ATTEMPTS example_tables = (Inr out, w')"
    by (simp add: markFailed_def db_bind_def sure_db_def case_prod_beta)
  show ?thesis
    using mark_failed_schedule [OF sure_db_ok e] e
    by (auto simp: example_tables_def example_row_def unsettled_def)
qed

text \<open>C3: The relay never strands an aggregate: while it holds the lease, and whatever the writers
  do between the three commands of \<open>settleHead\<close> and whichever of them fails, an aggregate whose
  open rows had a head still has one afterwards if any row is open. The version on the head is
  what makes the retirement safe against a concurrent write.\<close>

theorem settle_head_never_strands:
  assumes "leased_db agg exec view" and "covered agg (view w)"
    and "settleHead exec clock agg w = (res, w')"
  shows "\<forall>r \<in> set (t_rows (view w')). aggregateId r = agg \<and> is_open r \<longrightarrow> head_of agg (view w') \<noteq> None"
  using settleHead_covered [OF assms] by (auto simp: covered_def no_open_def terminal_iff)

text \<open>A database that refuses a duplicate head.\<close>

definition with_unique_heads :: "outbox_tables \<Rightarrow> outbox_tables" where
  "with_unique_heads t = (if unique_heads t then t else example_tables)"

definition careful_db :: "outbox_tables db_exec" where
  "careful_db c t =
     (case db_apply c (with_unique_heads t) of (rep, t') \<Rightarrow>
        if unique_heads t' then (Inr rep, t')
        else (Inl (PlainError ''MongoServerError'' ''E11000'' []), with_unique_heads t))"

lemma db_partial_refl: "db_partial c t t"
proof -
  have refl: "coll_partial d rs rs" for d :: "'r coll_cmd" and rs
    by (cases d) (auto intro: list.rel_refl)
  show ?thesis
  proof (cases c)
    case (BulkHeads cs)
    then show ?thesis by (auto intro!: exI [of _ "[]"])
  next
    case (OnRows d)
    then show ?thesis using refl [of d "t_rows t"] by (auto intro!: exI [of _ "t_rows t"])
  next
    case (OnHeads d)
    then show ?thesis using refl [of d "t_heads t"] by (auto intro!: exI [of _ "t_heads t"])
  qed simp_all
qed

lemma careful_db_leased: "leased_db agg careful_db with_unique_heads"
proof (unfold leased_db_def, intro allI impI)
  fix c w res w' assume e: "careful_db c w = (res, w')"
  have u: "unique_heads (with_unique_heads w)" for w
    by (simp add: with_unique_heads_def example_tables_def unique_heads_def)
  obtain rep t' where a: "db_apply c (with_unique_heads w) = (rep, t')" by force
  have "db_step c res (with_unique_heads w) (with_unique_heads w')"
  proof (cases "unique_heads t'")
    case True
    then show ?thesis using e a by (auto simp: careful_db_def db_step_def with_unique_heads_def)
  next
    case False
    then have "with_unique_heads w' = with_unique_heads w" "isl res"
      using e a u by (auto simp: careful_db_def with_unique_heads_def split: if_splits)
    then show ?thesis by (cases res) (auto simp: db_step_def db_partial_refl)
  qed
  then show "\<exists>t t'. lease_others agg (with_unique_heads w) t \<and> unique_heads t \<and> db_step c res t t'
      \<and> lease_others agg t' (with_unique_heads w')"
    using u lease_others_refl by blast
qed

lemma settle_head_never_strands_witness:
  "covered ''a'' (with_unique_heads (snd (settleHead careful_db (\<lambda>_. 7) ''a'' example_tables)))"
proof -
  have "covered ''a'' (with_unique_heads example_tables)"
    by (simp add: covered_def with_unique_heads_def unique_heads_def example_tables_def head_of_def)
  from settle_head_never_strands [OF careful_db_leased this prod.collapse [symmetric]] show ?thesis
    by (auto simp: covered_def no_open_def terminal_iff)
qed

text \<open>Without the lease the version does not protect a head: it starts again at 1 when a
  retired head is written anew, so a slow relay that read version 1, found no open row and lost
  its lease deletes the new head of a row written since, and leaves that row without one.\<close>

theorem head_version_reused_after_retirement:
  assumes "head_of (in_aggregateId input) t = Some h" and "head_v h = 1" and "unique_heads t"
    and "t1 = snd (db_apply (OnHeads (DeleteOne (\<lambda>x. head_id x = in_aggregateId input \<and> head_v x = 1))) t)"
    and "t2 = fold (\<lambda>c t. snd (db_apply c t)) (snd (outbox_write input uuid carrier now i created)) t1"
    and "t3 = snd (db_apply (OnHeads (DeleteOne (\<lambda>x. head_id x = in_aggregateId input \<and> head_v x = head_v h))) t2)"
  shows "\<not> covered (in_aggregateId input) t3"
proof -
  let ?a = "in_aggregateId input"
  have none: "find (\<lambda>x. head_id x = ?a) (delete_first (\<lambda>x. head_id x = ?a \<and> head_v x = 1) hs) = None"
    if "find (\<lambda>x. head_id x = ?a) hs = Some h" "distinct (map head_id hs)" for hs
    using that assms(2)
  proof (induction hs)
    case (Cons x hs)
    then show ?case by (auto simp: find_None_iff split: if_splits) force
  qed simp
  let ?hs = "delete_first (\<lambda>x. head_id x = ?a \<and> head_v x = 1) (t_heads t)"
  have h1: "find (\<lambda>x. head_id x = ?a) ?hs = None"
    using none assms(1,3) by (simp add: head_of_def unique_heads_def)
  then have no: "\<forall>x \<in> set ?hs. head_id x \<noteq> ?a" by (simp add: find_None_iff)
  let ?new = "\<lparr>head_id = ?a, dueAt = Some now, head_v = 1\<rparr>"
  have t2: "t_heads t2 = ?hs @ [?new]" "\<exists>r \<in> set (t_rows t2). aggregateId r = ?a \<and> \<not> terminal r"
    using no unfolding assms(5,4)
    by (auto simp: outbox_write_def Let_def upsert_head_def new_outbox_row_def terminal_def)
  have del: "delete_first p (xs @ [y]) = xs" if "\<forall>x \<in> set xs. \<not> p x" "p y"
    for p and xs :: "outbox_head list" and y using that by (induction xs) auto
  have "t_heads t3 = ?hs" using t2 no del assms(2) unfolding assms(6) by simp
  moreover have "t_rows t3 = t_rows t2" unfolding assms(6) by simp
  ultimately show ?thesis using t2(2) h1 by (auto simp: covered_def no_open_def head_of_def)
qed

definition example_input :: outbox_event_input where
  "example_input = \<lparr>in_topic = ''t'', in_aggregateId = ''a'', in_type = ''x'', in_tenantId = ''acme'',
     in_data = [], in_subject = None, in_id = None, in_schemaVersion = None\<rparr>"

lemma head_version_reused_after_retirement_witness:
  "\<exists>t. \<not> covered ''a'' t \<and> t_heads t = []"
proof -
  let ?t = "\<lparr>t_rows = [], t_heads = [\<lparr>head_id = ''a'', dueAt = None, head_v = 1\<rparr>]\<rparr> :: outbox_tables"
  have a: "in_aggregateId example_input = ''a''" by (simp add: example_input_def)
  have h: "head_of (in_aggregateId example_input) ?t = Some \<lparr>head_id = ''a'', dueAt = None, head_v = 1\<rparr>"
    "unique_heads ?t" by (simp_all add: head_of_def a unique_heads_def)
  show ?thesis
    using head_version_reused_after_retirement [OF h(1) _ h(2) refl refl refl, of "''u''" "(None, None)" 7 1 7]
    by (auto simp: a outbox_write_def Let_def upsert_head_def intro: exI)
qed

text \<open>The sweep restores lost heads: after a repair that did not fail, every aggregate with a
  PENDING or FAILED row has a head.\<close>

theorem repair_heads_restores_coverage:
  assumes "db_ok exec view" and "repairHeads exec clock retention now w = (Inr n, w')"
    and "r \<in> set (t_rows (view w'))" and "status r = PENDING \<or> status r = FAILED"
  shows "\<exists>h \<in> set (t_heads (view w')). head_id h = aggregateId r"
proof -
  have "has_head (aggregateId r) (view w')"
    using repairHeads_heads [OF assms(2,1), of "[]" undefined] assms(3,4) by auto
  then show ?thesis by (auto simp: has_head_def head_of_def find_None_iff)
qed

lemma repair_heads_restores_coverage_witness:
  "\<exists>h \<in> set (t_heads (snd (repairHeads sure_db (\<lambda>_. 7) 100 7 \<lparr>t_rows = [example_row], t_heads = []\<rparr>))). head_id h = ''a''"
proof -
  let ?t = "\<lparr>t_rows = [example_row], t_heads = []\<rparr> :: outbox_tables"
  have nf: "\<not> isl (fst (repairHeads sure_db (\<lambda>_. 7) 100 7 ?t))"
    and rows: "t_rows (snd (repairHeads sure_db (\<lambda>_. 7) 100 7 ?t)) = [example_row]"
    by (simp_all add: repairHeads_def db_bind_def sure_db_def example_row_def ids_of_def upsert_head_def heads_of_def
      limit_to_def)
  obtain n w' where e: "repairHeads sure_db (\<lambda>_. 7) 100 7 ?t = (Inr n, w')"
    using nf by (cases "repairHeads sure_db (\<lambda>_. 7) 100 7 ?t"; cases "fst (repairHeads sure_db (\<lambda>_. 7) 100 7 ?t)") auto
  show ?thesis
    using repair_heads_restores_coverage [OF sure_db_ok e, of example_row] rows e by (simp add: example_row_def)
qed

text \<open>But it does not put a blocked head back in line: the due time it computes for a PENDING
  row is the clock's reading after its own start, which it then finds to lie in the future. An
  aggregate whose DEAD row was redriven without its head (a crash between the two updates)
  stays blocked for good, however often the sweep runs.\<close>

theorem repair_heads_leaves_pending_blocked:
  assumes "db_ok exec view" and "repairHeads exec clock retention now w = (res, w')"
    and "\<forall>w. now < clock w"
    and "r \<in> set (t_rows (view w))" and "aggregateId r = agg" and "is_open r"
    and "\<forall>r \<in> set (t_rows (view w)). aggregateId r = agg \<and> is_open r \<longrightarrow> status r = PENDING"
    and "head_of agg (view w) = Some h" and "dueAt h = None"
  shows "\<exists>h. head_of agg (view w') = Some h \<and> dueAt h = None"
  using repairHeads_heads [OF assms(2,1), of agg h] assms(3-9) by blast

lemma repair_heads_leaves_pending_blocked_witness:
  "\<exists>h. head_of ''a'' (snd (repairHeads sure_db (\<lambda>_. 8) 100 7 example_tables)) = Some h \<and> dueAt h = None"
  by (rule repair_heads_leaves_pending_blocked [OF sure_db_ok prod.collapse [symmetric], of 7 "\<lambda>_. 8" example_row])
    (auto simp: example_tables_def example_row_def is_open_def OPEN_STATUSES_def head_of_def)

end
