(* ===== verification/Keyspace.thy ===== *)
theory Keyspace
  imports Prelude
begin

text \<open>
  The keyspace of the backend: \<open>common/keyspace/tenant-id.ts\<close> and
  \<open>common/keyspace/keyspace.ts\<close>, and the two other places that build tenant-scoped names
  from them, the rooms of \<open>infrastructure/realtime/realtime.rooms.ts\<close> and the object keys
  of \<open>infrastructure/objects/objects.port.ts\<close>. Each \<open>throw\<close> site is a constructor of
  \<open>key_error\<close>. A numeric id enters as its \<open>String(id)\<close> text.
\<close>

datatype key_error =
    InvalidTenantIdError string
  | InvalidSegment string string
  | AbbreviatedName string string
  | EmptyKeyId
  | UnknownCapability string
  | InvalidVersion string
  | InvalidObjectKeyError string

subsection \<open>Tenant ids\<close>

text \<open>\<open>/^[A-Za-z0-9][A-Za-z0-9_.-]{0,127}$/\<close>\<close>

definition is_tenant_char :: "char \<Rightarrow> bool" where
  "is_tenant_char c \<longleftrightarrow> is_alnum c \<or> c = CHR ''_'' \<or> c = CHR ''.'' \<or> c = CHR ''-''"

definition isTenantId :: "string \<Rightarrow> bool" where
  "isTenantId raw =
     (case raw of [] \<Rightarrow> False
      | c # cs \<Rightarrow> is_alnum c \<and> length cs \<le> 127 \<and> (\<forall>x \<in> set cs. is_tenant_char x))"

definition toTenantId :: "string \<Rightarrow> key_error + string" where
  "toTenantId raw = (if isTenantId raw then Inr raw else Inl (InvalidTenantIdError raw))"

subsection \<open>Key segments\<close>

text \<open>\<open>/^[a-z][a-z0-9]*(-[a-z0-9]+)*$/\<close>\<close>

definition is_seg_char :: "char \<Rightarrow> bool" where
  "is_seg_char c \<longleftrightarrow> is_lower c \<or> is_digit c"

definition is_segment :: "string \<Rightarrow> bool" where
  "is_segment s =
     (case split_on CHR ''-'' s of
        [] \<Rightarrow> False
      | p # ps \<Rightarrow>
          (case p of [] \<Rightarrow> False | c # cs \<Rightarrow> is_lower c \<and> (\<forall>x \<in> set cs. is_seg_char x))
          \<and> (\<forall>q \<in> set ps. q \<noteq> [] \<and> (\<forall>x \<in> set q. is_seg_char x)))"

text \<open>\<open>/^v[1-9][0-9]*$/\<close>\<close>

definition is_version :: "string \<Rightarrow> bool" where
  "is_version s =
     (case s of
        v # d # ds \<Rightarrow> v = CHR ''v'' \<and> is_digit d \<and> d \<noteq> CHR ''0'' \<and> (\<forall>x \<in> set ds. is_digit x)
      | _ \<Rightarrow> False)"

definition ABBREVIATIONS :: "string list" where
  "ABBREVIATIONS = [''cfg'', ''conf'', ''usr'', ''msg'', ''msgs'', ''tmp'', ''ctx'', ''req'', ''res'',
     ''resp'', ''idx'', ''cnt'', ''num'', ''str'', ''obj'', ''val'', ''mgr'', ''svc'', ''pref'', ''prefs'',
     ''perm'', ''perms'', ''pwd'']"

definition assertSegment :: "string \<Rightarrow> string \<Rightarrow> key_error + unit" where
  "assertSegment label value =
     (if is_segment value then Inr () else Inl (InvalidSegment label value))"

definition assertName :: "string \<Rightarrow> key_error + unit" where
  "assertName name =
     (case assertSegment ''name'' name of
        Inl e \<Rightarrow> Inl e
      | Inr _ \<Rightarrow>
          (case find (\<lambda>word. word \<in> set ABBREVIATIONS) (split_on CHR ''-'' name) of
             Some abbreviation \<Rightarrow> Inl (AbbreviatedName name abbreviation)
           | None \<Rightarrow> Inr ()))"

subsection \<open>Escaping\<close>

text \<open>\<open>encodeURIComponent\<close> of the standard library, on Latin-1 code units: the unreserved
  characters stay, any other becomes the percent-escaped bytes of its UTF-8 encoding.\<close>

definition hex_digit :: "nat \<Rightarrow> char" where
  "hex_digit n = char_of (if n < 10 then 48 + n else 55 + n)"

definition pct_byte :: "nat \<Rightarrow> string" where
  "pct_byte n = [CHR ''%'', hex_digit (n div 16), hex_digit (n mod 16)]"

definition utf8_pct :: "char \<Rightarrow> string" where
  "utf8_pct c =
     (let n = of_char c in
      if n < 128 then pct_byte n else pct_byte (192 + n div 64) @ pct_byte (128 + n mod 64))"

definition uri_unreserved :: "char \<Rightarrow> bool" where
  "uri_unreserved c \<longleftrightarrow> is_alnum c \<or> c \<in> set ''-_.!~*'' \<or> c = CHR 0x27 \<or> c \<in> set ''()''"

definition encodeURIComponent :: "string \<Rightarrow> string" where
  "encodeURIComponent s = concat (map (\<lambda>c. if uri_unreserved c then [c] else utf8_pct c) s)"

text \<open>The second pass of \<open>escapeKeyId\<close>: \<open>/[!'()*~.]/g\<close> to its percent form.\<close>

definition is_key_reserved :: "char \<Rightarrow> bool" where
  "is_key_reserved c \<longleftrightarrow> c \<in> set ''!()*~.'' \<or> c = CHR 0x27"

definition escapeKeyId :: "string \<Rightarrow> key_error + string" where
  "escapeKeyId raw =
     (if raw = [] then Inl EmptyKeyId
      else Inr (concat (map (\<lambda>c. if is_key_reserved c then pct_byte (of_char c) else [c])
             (encodeURIComponent raw))))"

subsection \<open>Key builders\<close>

record key_spec =
  capability :: string
  key_module :: string
  key_name :: string
  version :: string

record keyspace_settings =
  ks_app :: string
  ks_env :: string

definition KEY_CAPABILITIES :: "string list" where
  "KEY_CAPABILITIES = [''cache'', ''kv'', ''lock'', ''ratelimit'', ''dedup'']"

definition DEFAULT_KEYSPACE_APP :: string where
  "DEFAULT_KEYSPACE_APP = ''tropis''"

text \<open>\<open>env.A || b\<close>: an unset or empty variable falls through.\<close>

definition env_or :: "(string \<Rightarrow> string option) \<Rightarrow> string \<Rightarrow> string \<Rightarrow> string" where
  "env_or env name fallback =
     (case env name of Some v \<Rightarrow> if v \<noteq> [] then v else fallback | None \<Rightarrow> fallback)"

definition resolveKeyspaceSettings :: "(string \<Rightarrow> string option) \<Rightarrow> keyspace_settings" where
  "resolveKeyspaceSettings env =
     \<lparr>ks_app = env_or env ''KEYSPACE_APP'' DEFAULT_KEYSPACE_APP,
      ks_env = env_or env ''KEYSPACE_ENV'' (env_or env ''NODE_ENV'' ''development'')\<rparr>"

fun escape_all :: "string list \<Rightarrow> key_error + string list" where
  "escape_all [] = Inr []"
| "escape_all (i # is) =
     (case escapeKeyId i of
        Inl e \<Rightarrow> Inl e
      | Inr x \<Rightarrow> (case escape_all is of Inl e \<Rightarrow> Inl e | Inr xs \<Rightarrow> Inr (x # xs)))"

definition build :: "key_spec \<Rightarrow> keyspace_settings \<Rightarrow> string \<Rightarrow> string list \<Rightarrow> key_error + string" where
  "build spec settings scope ids =
     (case assertSegment ''app'' (ks_app settings) of
        Inl e \<Rightarrow> Inl e
      | Inr _ \<Rightarrow>
          (case assertSegment ''env'' (ks_env settings) of
             Inl e \<Rightarrow> Inl e
           | Inr _ \<Rightarrow>
               (case escape_all ids of
                  Inl e \<Rightarrow> Inl e
                | Inr xs \<Rightarrow>
                    Inr (join_with CHR '':''
                      ([ks_app settings, ks_env settings, scope, capability spec, key_module spec,
                        key_name spec, version spec] @ xs)))))"

text \<open>A builder is a spec with the settings its keys use: fixed by \<open>withKeyspace\<close>, else
  resolved from the environment at each call.\<close>

record key_builder =
  kb_spec :: key_spec
  kb_fixed :: "keyspace_settings option"

definition kb_settings :: "key_builder \<Rightarrow> (string \<Rightarrow> string option) \<Rightarrow> keyspace_settings" where
  "kb_settings b env = option_or (kb_fixed b) (resolveKeyspaceSettings env)"

definition forTenant ::
  "key_builder \<Rightarrow> (string \<Rightarrow> string option) \<Rightarrow> string \<Rightarrow> string list \<Rightarrow> key_error + string" where
  "forTenant b env tenant ids =
     (if \<not> isTenantId tenant then Inl (InvalidTenantIdError tenant)
      else case escapeKeyId tenant of
        Inl e \<Rightarrow> Inl e
      | Inr t \<Rightarrow> build (kb_spec b) (kb_settings b env) (''t.'' @ t) ids)"

definition global :: "key_builder \<Rightarrow> (string \<Rightarrow> string option) \<Rightarrow> string list \<Rightarrow> key_error + string"
where
  "global b env ids = build (kb_spec b) (kb_settings b env) ''global'' ids"

definition withKeyspace :: "key_builder \<Rightarrow> keyspace_settings \<Rightarrow> key_error + key_builder" where
  "withKeyspace b explicit =
     (case assertSegment ''app'' (ks_app explicit) of
        Inl e \<Rightarrow> Inl e
      | Inr _ \<Rightarrow>
          (case assertSegment ''env'' (ks_env explicit) of
             Inl e \<Rightarrow> Inl e
           | Inr _ \<Rightarrow> Inr (b\<lparr>kb_fixed := Some explicit\<rparr>)))"

definition defineKey :: "key_spec \<Rightarrow> key_error + key_builder" where
  "defineKey spec =
     (if capability spec \<notin> set KEY_CAPABILITIES then Inl (UnknownCapability (capability spec))
      else case assertSegment ''module'' (key_module spec) of
        Inl e \<Rightarrow> Inl e
      | Inr _ \<Rightarrow>
          (case assertName (key_name spec) of
             Inl e \<Rightarrow> Inl e
           | Inr _ \<Rightarrow>
               if \<not> is_version (version spec) then Inl (InvalidVersion (version spec))
               else Inr \<lparr>kb_spec = spec, kb_fixed = None\<rparr>))"

subsection \<open>Realtime rooms and object keys\<close>

definition tenantScope :: "string \<Rightarrow> key_error + string" where
  "tenantScope tenant =
     (if \<not> isTenantId tenant then Inl (InvalidTenantIdError tenant)
      else case escapeKeyId tenant of Inl e \<Rightarrow> Inl e | Inr t \<Rightarrow> Inr (''t.'' @ t))"

definition tenantRoom :: "string \<Rightarrow> key_error + string" where
  "tenantRoom tenant = tenantScope tenant"

definition member_room :: "string \<Rightarrow> string \<Rightarrow> string \<Rightarrow> key_error + string" where
  "member_room kind tenant i =
     (case tenantScope tenant of
        Inl e \<Rightarrow> Inl e
      | Inr s \<Rightarrow>
          (case escapeKeyId i of Inl e \<Rightarrow> Inl e | Inr x \<Rightarrow> Inr (s @ kind @ x)))"

definition userRoom :: "string \<Rightarrow> string \<Rightarrow> key_error + string" where
  "userRoom tenant userId = member_room '':user:'' tenant userId"

definition roleRoom :: "string \<Rightarrow> string \<Rightarrow> key_error + string" where
  "roleRoom tenant role = member_room '':role:'' tenant role"

definition tenantObjectKey :: "string \<Rightarrow> string \<Rightarrow> key_error + string" where
  "tenantObjectKey tenant key =
     (if \<not> isTenantId tenant then Inl (InvalidObjectKeyError (tenant @ ''/'' @ key))
      else if key = [] \<or> starts_with ''/'' key
              \<or> (\<exists>part \<in> set (split_on CHR ''/'' key). part = ''..'' \<or> part = [])
      then Inl (InvalidObjectKeyError key)
      else Inr (''t.'' @ tenant @ ''/'' @ key))"

subsection \<open>Escaping is injective and never yields a separator\<close>

definition is_key_char :: "char \<Rightarrow> bool" where
  "is_key_char c \<longleftrightarrow> is_alnum c \<or> c = CHR ''-'' \<or> c = CHR ''_''"

definition esc :: "char \<Rightarrow> string" where
  "esc c = (if is_key_char c then [c] else utf8_pct c)"

lemma of_char_hex: "n < 16 \<Longrightarrow> of_char (hex_digit n) = (if n < 10 then 48 + n else 55 + n :: nat)"
  by (simp add: hex_digit_def)

lemma hex_digit_inj: "n < 16 \<Longrightarrow> m < 16 \<Longrightarrow> hex_digit n = hex_digit m \<Longrightarrow> n = m"
  by (drule arg_cong [where f = "of_char :: char \<Rightarrow> nat"]) (simp add: of_char_hex split: if_splits)

lemma hex_digit_alnum: "n < 16 \<Longrightarrow> is_alnum (hex_digit n)"
  by (auto simp: is_alnum_def is_upper_def is_digit_def of_char_hex)

lemma pct_byte_inj:
  assumes "pct_byte n = pct_byte m" and "n < 256" and "m < 256"
  shows "n = m"
proof -
  have "n div 16 < 16" "m div 16 < 16" using assms by simp_all
  moreover have "n mod 16 < 16" "m mod 16 < 16" by simp_all
  ultimately have "n div 16 = m div 16" "n mod 16 = m mod 16"
    using assms(1) by (simp_all only: pct_byte_def list.inject) (blast intro: hex_digit_inj)+
  then show ?thesis by (metis div_mult_mod_eq)
qed

lemma of_char_inj: "(of_char c :: nat) = of_char d \<Longrightarrow> c = d"
  by simp

lemma utf8_pct_head: "utf8_pct c @ s = x # xs \<Longrightarrow> x = CHR ''%''"
  by (auto simp: utf8_pct_def pct_byte_def Let_def split: if_splits)

lemma utf8_pct_prefix:
  assumes "utf8_pct c @ s = utf8_pct d @ t"
  shows "c = d \<and> s = t"
proof -
  define n m :: nat where "n = of_char c" and "m = of_char d"
  have lt: "n < 256" "m < 256" by (simp_all add: n_def m_def)
  have eq: "(if n < 128 then pct_byte n else pct_byte (192 + n div 64) @ pct_byte (128 + n mod 64)) @ s =
        (if m < 128 then pct_byte m else pct_byte (192 + m div 64) @ pct_byte (128 + m mod 64)) @ t"
    using assms by (simp only: utf8_pct_def Let_def n_def m_def)
  have lead: "(192 + k div 64) div 16 = (12 :: nat)" if "k < 256" for k :: nat
  proof -
    have "k div 64 < 4" using that by (intro less_mult_imp_div_less) simp
    then have "k div 64 \<in> {0, 1, 2, 3}" by auto
    then show ?thesis by auto
  qed
  have mixed: False if "k < 128" "j < 256" "pct_byte k @ s' = pct_byte (192 + j div 64) @ t'"
    for k j :: nat and s' t'
  proof -
    from that(3) have "hex_digit (k div 16) = hex_digit ((192 + j div 64) div 16)"
      by (simp add: pct_byte_def)
    then have "hex_digit (k div 16) = hex_digit 12" by (simp only: lead [OF that(2)])
    moreover have "k div 16 < 8" using that(1) by (intro less_mult_imp_div_less) simp
    ultimately show False using hex_digit_inj [of "k div 16" 12] by simp
  qed
  consider "n < 128" "m < 128" | "n < 128" "\<not> m < 128" | "\<not> n < 128" "m < 128"
    | "\<not> n < 128" "\<not> m < 128" by blast
  then have "n = m \<and> s = t"
  proof cases
    case 1
    with eq have "pct_byte n = pct_byte m" "s = t" by (simp_all add: pct_byte_def)
    then show ?thesis using pct_byte_inj lt by blast
  next
    case 2
    with eq mixed [of n m s "pct_byte (128 + m mod 64) @ t"] lt show ?thesis by simp
  next
    case 3
    with eq [symmetric] mixed [of m n t "pct_byte (128 + n mod 64) @ s"] lt show ?thesis by simp
  next
    case 4
    with eq have "pct_byte (192 + n div 64) = pct_byte (192 + m div 64)"
      "pct_byte (128 + n mod 64) = pct_byte (128 + m mod 64)" and st: "s = t"
      by (simp_all add: pct_byte_def)
    moreover have "n div 64 < 4" "m div 64 < 4" using lt by (auto intro!: less_mult_imp_div_less)
    moreover have "n mod 64 < 64" "m mod 64 < 64" by simp_all
    ultimately have "192 + n div 64 = 192 + m div 64" "128 + n mod 64 = 128 + m mod 64"
      using pct_byte_inj [of "192 + n div 64" "192 + m div 64"]
        pct_byte_inj [of "128 + n mod 64" "128 + m mod 64"] by simp_all
    then have "n div 64 = m div 64" "n mod 64 = m mod 64" by simp_all
    then show ?thesis using st by (metis div_mult_mod_eq)
  qed
  then show ?thesis by (simp add: n_def m_def)
qed

lemma key_char_not_percent: "is_key_char c \<Longrightarrow> c \<noteq> CHR ''%''"
  by (auto simp: is_key_char_def is_alnum_def is_upper_def is_lower_def is_digit_def)

lemma esc_prefix: "esc c @ s = esc d @ t \<Longrightarrow> c = d \<and> s = t"
  by (auto simp: esc_def split: if_splits
      dest: utf8_pct_prefix utf8_pct_head utf8_pct_head [OF sym] key_char_not_percent)

lemma esc_nonempty: "esc c \<noteq> []"
  by (simp add: esc_def utf8_pct_def pct_byte_def Let_def)

lemma concat_esc_inj: "concat (map esc xs) = concat (map esc ys) \<Longrightarrow> xs = ys"
proof (induction xs arbitrary: ys)
  case Nil
  then show ?case using esc_nonempty by (cases ys) auto
next
  case (Cons x xs)
  then obtain y zs where ys: "ys = y # zs" using esc_nonempty by (cases ys) auto
  with Cons.prems have "x = y \<and> concat (map esc xs) = concat (map esc zs)"
    by (intro esc_prefix) simp
  then show ?case using Cons.IH ys by simp
qed

lemma pct_byte_chars: "n < 256 \<Longrightarrow> ch \<in> set (pct_byte n) \<Longrightarrow> is_key_char ch \<or> ch = CHR ''%''"
  using hex_digit_alnum by (auto simp: pct_byte_def is_key_char_def)

lemma utf8_pct_chars: "ch \<in> set (utf8_pct c) \<Longrightarrow> is_key_char ch \<or> ch = CHR ''%''"
proof -
  have lt: "of_char c < (256 :: nat)" by simp
  then have "of_char c div 64 < (4 :: nat)" by (intro less_mult_imp_div_less) simp
  then have "192 + of_char c div 64 < (256 :: nat)" by simp
  note b1 = pct_byte_chars [OF this]
  have "of_char c mod 64 < (64 :: nat)" by simp
  then have "128 + of_char c mod 64 < (256 :: nat)" by linarith
  note b2 = pct_byte_chars [OF this]
  show "ch \<in> set (utf8_pct c) \<Longrightarrow> ?thesis"
    using b1 b2 pct_byte_chars [OF lt] by (cases "of_char c < (128 :: nat)") (auto simp: utf8_pct_def Let_def)
qed

lemma esc_chars: "ch \<in> set (esc c) \<Longrightarrow> is_key_char ch \<or> ch = CHR ''%''"
  using utf8_pct_chars by (cases "is_key_char c") (auto simp: esc_def)

lemma key_char_not_reserved: "is_key_char ch \<or> ch = CHR ''%'' \<Longrightarrow> \<not> is_key_reserved ch"
  by (auto simp: is_key_char_def is_key_reserved_def is_alnum_def is_upper_def is_lower_def is_digit_def)

text \<open>The two passes of the source together escape each character on its own.\<close>

lemma escape_char:
  "concat (map (\<lambda>c. if is_key_reserved c then pct_byte (of_char c) else [c])
     (if uri_unreserved c then [c] else utf8_pct c)) = esc c"
proof (cases "uri_unreserved c")
  case True
  show ?thesis
  proof (cases "is_key_char c")
    case True
    then have "\<not> is_key_reserved c" by (simp add: key_char_not_reserved)
    then show ?thesis using True \<open>uri_unreserved c\<close> by (simp add: esc_def)
  next
    case False
    with True have "c \<in> {CHR ''.'', CHR ''!'', CHR ''~'', CHR ''*'', CHR 0x27, CHR ''('', CHR '')''}"
      by (auto simp: is_key_char_def uri_unreserved_def)
    then have "is_key_reserved c \<and> of_char c < (128 :: nat)"
      by (auto simp: is_key_reserved_def)
    then show ?thesis using True False by (simp add: esc_def utf8_pct_def)
  qed
next
  case False
  have "concat (map (\<lambda>c. if is_key_reserved c then pct_byte (of_char c) else [c]) xs) = xs"
    if "\<forall>x \<in> set xs. \<not> is_key_reserved x" for xs
    using that by (induction xs) auto
  moreover have "\<forall>x \<in> set (utf8_pct c). \<not> is_key_reserved x"
    using utf8_pct_chars key_char_not_reserved by blast
  moreover have "\<not> is_key_char c"
    using False by (auto simp: is_key_char_def uri_unreserved_def)
  ultimately show ?thesis using False by (simp add: esc_def)
qed

lemma escapeKeyId_eq:
  "escapeKeyId raw = (if raw = [] then Inl EmptyKeyId else Inr (concat (map esc raw)))"
proof -
  let ?f = "\<lambda>c. if is_key_reserved c then pct_byte (of_char c) else [c]"
  have "concat (map ?f (encodeURIComponent raw)) = concat (map esc raw)"
  proof (induction raw)
    case (Cons a raw)
    then show ?case using escape_char [of a] by (simp add: encodeURIComponent_def)
  qed (simp add: encodeURIComponent_def)
  then show ?thesis by (simp add: escapeKeyId_def)
qed

lemma escapeKeyId_inj: "escapeKeyId i = Inr x \<Longrightarrow> escapeKeyId j = Inr x \<Longrightarrow> i = j"
  using concat_esc_inj [of i j] by (simp add: escapeKeyId_eq split: if_splits)

lemma escapeKeyId_chars: "escapeKeyId i = Inr x \<Longrightarrow> ch \<in> set x \<Longrightarrow> is_key_char ch \<or> ch = CHR ''%''"
  by (auto simp: escapeKeyId_eq split: if_splits dest: esc_chars)

subsection \<open>The parts of a key hold no separator\<close>

definition is_part_char :: "char \<Rightarrow> bool" where
  "is_part_char c \<longleftrightarrow> is_key_char c \<or> c = CHR ''%'' \<or> c = CHR ''.''"

lemma part_char_no_colon: "is_part_char c \<Longrightarrow> c \<noteq> CHR '':''"
  by (auto simp: is_part_char_def is_key_char_def is_alnum_def is_upper_def is_lower_def is_digit_def)

lemma is_segment_chars:
  assumes "is_segment s" "c \<in> set s"
  shows "is_seg_char c \<or> c = CHR ''-''"
proof -
  obtain d ds ps where p: "split_on CHR ''-'' s = (d # ds) # ps" "is_lower d" "\<forall>x \<in> set ds. is_seg_char x"
    "\<forall>q \<in> set ps. \<forall>x \<in> set q. is_seg_char x"
    using assms(1) by (auto simp: is_segment_def split: list.splits)
  have "c = CHR ''-'' \<or> (\<exists>q \<in> set ((d # ds) # ps). c \<in> set q)"
    using set_split_on [of s "CHR ''-''"] assms(2) unfolding p(1) by blast
  then show ?thesis using p(2-4) by (auto simp: is_seg_char_def)
qed

lemma seg_part: "is_segment s \<Longrightarrow> c \<in> set s \<Longrightarrow> is_part_char c"
  by (drule is_segment_chars)
    (auto simp: is_seg_char_def is_part_char_def is_key_char_def is_alnum_def)

lemma version_part: "is_version s \<Longrightarrow> c \<in> set s \<Longrightarrow> is_part_char c"
  by (auto simp: is_version_def is_part_char_def is_key_char_def is_alnum_def is_lower_def
      split: list.splits)

lemma capability_part:
  assumes "s \<in> set KEY_CAPABILITIES" "c \<in> set s"
  shows "is_part_char c"
proof -
  have "list_all (list_all is_part_char) KEY_CAPABILITIES" by code_simp
  then show ?thesis using assms by (auto simp: list_all_iff)
qed

lemma escape_part: "escapeKeyId i = Inr x \<Longrightarrow> c \<in> set x \<Longrightarrow> is_part_char c"
  by (auto simp: is_part_char_def dest: escapeKeyId_chars)

lemma escape_all_parts: "escape_all is = Inr xs \<Longrightarrow> x \<in> set xs \<Longrightarrow> c \<in> set x \<Longrightarrow> is_part_char c"
  by (induction "is" arbitrary: xs) (auto split: sum.splits dest: escape_part)

lemma escape_all_inj: "escape_all is = Inr xs \<Longrightarrow> escape_all js = Inr xs \<Longrightarrow> is = js"
proof (induction "is" arbitrary: js xs)
  case Nil
  then show ?case by (cases js) (auto split: sum.splits)
next
  case (Cons i "is")
  then obtain x ys where x: "escapeKeyId i = Inr x" "escape_all is = Inr ys" "xs = x # ys"
    by (auto split: sum.splits)
  with Cons.prems(2) obtain j js' where "js = j # js'" "escapeKeyId j = Inr x" "escape_all js' = Inr ys"
    by (cases js) (auto split: sum.splits)
  with x Cons.IH escapeKeyId_inj show ?case by blast
qed

text \<open>A builder made by \<open>defineKey\<close>, and perhaps \<open>withKeyspace\<close>, has checked parts.\<close>

definition valid_spec :: "key_spec \<Rightarrow> bool" where
  "valid_spec spec \<longleftrightarrow> capability spec \<in> set KEY_CAPABILITIES \<and> is_segment (key_module spec)
     \<and> is_segment (key_name spec) \<and> is_version (version spec)"

lemma defineKey_valid: "defineKey spec = Inr b \<Longrightarrow> valid_spec spec \<and> kb_spec b = spec \<and> kb_fixed b = None"
  by (auto simp: defineKey_def valid_spec_def assertName_def assertSegment_def
      split: if_splits sum.splits option.splits)

lemma withKeyspace_spec: "withKeyspace b s = Inr b' \<Longrightarrow> kb_spec b' = kb_spec b \<and> kb_fixed b' = Some s"
  by (auto simp: withKeyspace_def split: sum.splits)

definition key_parts :: "key_spec \<Rightarrow> keyspace_settings \<Rightarrow> string \<Rightarrow> string list \<Rightarrow> string list" where
  "key_parts spec s scope xs = [ks_app s, ks_env s, scope, capability spec, key_module spec,
     key_name spec, version spec] @ xs"

lemma build_parts:
  assumes "build spec s scope ids = Inr k"
  obtains xs where "escape_all ids = Inr xs" "k = join_with CHR '':'' (key_parts spec s scope xs)"
    "is_segment (ks_app s)" "is_segment (ks_env s)"
  using assms by (auto simp: build_def key_parts_def assertSegment_def split: sum.splits if_splits)

lemma key_parts_chars:
  assumes "valid_spec spec" "is_segment (ks_app s)" "is_segment (ks_env s)" "escape_all ids = Inr xs"
    "\<forall>c \<in> set scope. is_part_char c"
  shows "\<forall>p \<in> set (key_parts spec s scope xs). \<forall>c \<in> set p. is_part_char c"
  using assms escape_all_parts [OF assms(4)]
  by (auto simp: key_parts_def valid_spec_def dest: seg_part version_part capability_part)

lemma build_inj:
  assumes "build spec s scope ids = Inr k" "build spec' s' scope' ids' = Inr k"
    and "valid_spec spec" "valid_spec spec'"
    and "\<forall>c \<in> set scope. is_part_char c" "\<forall>c \<in> set scope'. is_part_char c"
  shows "spec = spec' \<and> s = s' \<and> scope = scope' \<and> ids = ids'"
proof -
  obtain xs where a: "escape_all ids = Inr xs" "k = join_with CHR '':'' (key_parts spec s scope xs)"
    "is_segment (ks_app s)" "is_segment (ks_env s)" using build_parts [OF assms(1)] by metis
  obtain ys where b: "escape_all ids' = Inr ys" "k = join_with CHR '':'' (key_parts spec' s' scope' ys)"
    "is_segment (ks_app s')" "is_segment (ks_env s')" using build_parts [OF assms(2)] by metis
  have "\<forall>p \<in> set (key_parts spec s scope xs). CHR '':'' \<notin> set p"
    using key_parts_chars [OF assms(3) a(3,4,1) assms(5)] part_char_no_colon by blast
  moreover have "\<forall>p \<in> set (key_parts spec' s' scope' ys). CHR '':'' \<notin> set p"
    using key_parts_chars [OF assms(4) b(3,4,1) assms(6)] part_char_no_colon by blast
  ultimately have eq: "key_parts spec s scope xs = key_parts spec' s' scope' ys"
    using a(2) b(2) by (intro join_with_inj [where c = "CHR '':''"]) (auto simp: key_parts_def)
  then have "spec = spec'" "s = s'" "scope = scope'" "xs = ys" by (simp_all add: key_parts_def)
  then show ?thesis using escape_all_inj a(1) b(1) by blast
qed

lemma build_chars:
  assumes "build spec s scope ids = Inr k" "valid_spec spec" "\<forall>c \<in> set scope. is_part_char c"
    and "c \<in> set k"
  shows "is_part_char c \<or> c = CHR '':''"
proof -
  obtain xs where a: "escape_all ids = Inr xs" "k = join_with CHR '':'' (key_parts spec s scope xs)"
    "is_segment (ks_app s)" "is_segment (ks_env s)" using build_parts [OF assms(1)] by metis
  then show ?thesis
    using key_parts_chars [OF assms(2) a(3,4,1) assms(3)] assms(4)
      set_join_with [of "CHR '':''" "key_parts spec s scope xs"] by blast
qed

lemma tenant_scope_parts: "escapeKeyId t = Inr x \<Longrightarrow> \<forall>c \<in> set (''t.'' @ x). is_part_char c"
  using escape_part by (auto simp: is_part_char_def is_key_char_def is_alnum_def is_lower_def)

lemma global_scope_parts: "\<forall>c \<in> set ''global''. is_part_char c"
  by (simp add: is_part_char_def is_key_char_def is_alnum_def is_lower_def)

lemma forTenant_build:
  assumes "forTenant b env t ids = Inr k"
  obtains x where "isTenantId t" "escapeKeyId t = Inr x"
    "build (kb_spec b) (kb_settings b env) (''t.'' @ x) ids = Inr k"
  using assms by (auto simp: forTenant_def split: if_splits sum.splits)

subsection \<open>Properties\<close>

text \<open>C8: Two keys that coincide were built from the same specification, the same deployment,
  the same tenant and the same ids, whatever bytes the ids hold: no id can be chosen so that
  its key is another tenant's or another module's. This holds through \<open>withKeyspace\<close> too.\<close>

theorem tenant_keys_injective:
  assumes "defineKey spec = Inr b" "defineKey spec' = Inr b'"
    and "c = b \<or> withKeyspace b s = Inr c" "c' = b' \<or> withKeyspace b' s' = Inr c'"
    and "forTenant c env t ids = Inr k" "forTenant c' env' t' ids' = Inr k"
  shows "spec = spec' \<and> kb_settings c env = kb_settings c' env' \<and> t = t' \<and> ids = ids'"
proof -
  have v: "valid_spec spec" "valid_spec spec'" "kb_spec c = spec" "kb_spec c' = spec'"
    using assms(1-4) by (auto dest: defineKey_valid withKeyspace_spec)
  obtain x where x: "escapeKeyId t = Inr x" "build spec (kb_settings c env) (''t.'' @ x) ids = Inr k"
    using forTenant_build [OF assms(5)] v by metis
  obtain y where y: "escapeKeyId t' = Inr y" "build spec' (kb_settings c' env') (''t.'' @ y) ids' = Inr k"
    using forTenant_build [OF assms(6)] v by metis
  have "spec = spec' \<and> kb_settings c env = kb_settings c' env' \<and> ''t.'' @ x = ''t.'' @ y \<and> ids = ids'"
    by (rule build_inj [OF x(2) y(2) v(1,2) tenant_scope_parts [OF x(1)] tenant_scope_parts [OF y(1)]])
  then show ?thesis using escapeKeyId_inj x(1) y(1) by simp
qed

lemma tenant_keys_injective_witness:
  "forTenant \<lparr>kb_spec = \<lparr>capability = ''kv'', key_module = ''a'', key_name = ''b'', version = ''v1''\<rparr>,
      kb_fixed = None\<rparr> (\<lambda>_. None) ''x'' [''1:2''] \<noteq>
   forTenant \<lparr>kb_spec = \<lparr>capability = ''kv'', key_module = ''a'', key_name = ''b'', version = ''v1''\<rparr>,
      kb_fixed = None\<rparr> (\<lambda>_. None) ''x'' [''1'', ''2'']"
proof
  let ?s = "\<lparr>capability = ''kv'', key_module = ''a'', key_name = ''b'', version = ''v1''\<rparr>"
  let ?b = "\<lparr>kb_spec = ?s, kb_fixed = None\<rparr>"
  assume eq: "forTenant ?b (\<lambda>_. None) ''x'' [''1:2''] = forTenant ?b (\<lambda>_. None) ''x'' [''1'', ''2'']"
  have d: "defineKey ?s = Inr ?b" by code_simp
  have "\<not> isl (forTenant ?b (\<lambda>_. None) ''x'' [''1:2''])" by code_simp
  then have "\<exists>k. forTenant ?b (\<lambda>_. None) ''x'' [''1:2''] = Inr k" by (metis sum.exhaust_sel isl_def)
  then obtain k where k: "forTenant ?b (\<lambda>_. None) ''x'' [''1:2''] = Inr k" ..
  have "[''1:2''] = [''1'', ''2'']"
    using tenant_keys_injective [OF d d disjI1 [OF refl] disjI1 [OF refl] k k [unfolded eq]] by blast
  then show False by simp
qed

text \<open>A tenant's keys and the global keys never meet, and no key holds a character Redis
  reads as a glob pattern, a space or a control character.\<close>

theorem key_alphabet_and_scopes_disjoint:
  assumes "defineKey spec = Inr b" "defineKey spec' = Inr b'" and "forTenant b env t ids = Inr k"
  shows "global b' env' ids' \<noteq> Inr k
    \<and> (\<forall>ch \<in> set k. is_alnum ch \<or> ch \<in> set ''-_%.:'')"
proof
  have v: "valid_spec spec" "valid_spec spec'" "kb_spec b = spec" "kb_spec b' = spec'"
    using assms(1,2) by (auto dest: defineKey_valid)
  obtain x where x: "escapeKeyId t = Inr x" "build spec (kb_settings b env) (''t.'' @ x) ids = Inr k"
    using forTenant_build [OF assms(3)] v by metis
  show "global b' env' ids' \<noteq> Inr k"
  proof
    assume "global b' env' ids' = Inr k"
    then have g: "build spec' (kb_settings b' env') ''global'' ids' = Inr k"
      by (simp add: global_def v)
    show False using build_inj [OF x(2) g v(1,2) tenant_scope_parts [OF x(1)] global_scope_parts] by simp
  qed
  show "\<forall>ch \<in> set k. is_alnum ch \<or> ch \<in> set ''-_%.:''"
    using build_chars [OF x(2) v(1) tenant_scope_parts [OF x(1)]]
    by (auto simp: is_part_char_def is_key_char_def)
qed

lemma key_alphabet_and_scopes_disjoint_witness:
  "\<exists>k. forTenant \<lparr>kb_spec = \<lparr>capability = ''kv'', key_module = ''a'', key_name = ''b'', version = ''v1''\<rparr>,
      kb_fixed = None\<rparr> (\<lambda>_. None) ''x'' [''1*''] = Inr k \<and>
   global \<lparr>kb_spec = \<lparr>capability = ''kv'', key_module = ''a'', key_name = ''b'', version = ''v1''\<rparr>,
      kb_fixed = None\<rparr> (\<lambda>_. None) [''1''] \<noteq> Inr k"
proof -
  let ?s = "\<lparr>capability = ''kv'', key_module = ''a'', key_name = ''b'', version = ''v1''\<rparr>"
  let ?b = "\<lparr>kb_spec = ?s, kb_fixed = None\<rparr>"
  have d: "defineKey ?s = Inr ?b" by code_simp
  have "\<not> isl (forTenant ?b (\<lambda>_. None) ''x'' [''1*''])" by code_simp
  then have "\<exists>k. forTenant ?b (\<lambda>_. None) ''x'' [''1*''] = Inr k" by (metis sum.exhaust_sel isl_def)
  then obtain k where k: "forTenant ?b (\<lambda>_. None) ''x'' [''1*''] = Inr k" ..
  show ?thesis
    using key_alphabet_and_scopes_disjoint [OF d d k] k by blast
qed

text \<open>Realtime rooms and object keys are isolated per tenant: equal member rooms name the
  same tenant and the same user, a user room is never a role room or a tenant room, and equal
  object keys name the same tenant and the same object.\<close>

theorem rooms_and_objects_isolated:
  assumes "isTenantId t" and "u \<noteq> []"
  shows "(userRoom t u = userRoom t' u' \<longrightarrow> t = t' \<and> u = u')
    \<and> userRoom t u \<noteq> roleRoom t' r \<and> userRoom t u \<noteq> tenantRoom t'
    \<and> (tenantObjectKey t i = Inr k \<and> tenantObjectKey t' j = Inr k \<longrightarrow> t = t' \<and> i = j)"
proof -
  have sc: "\<exists>x. escapeKeyId t = Inr x" "\<exists>y. escapeKeyId u = Inr y"
    using assms by (auto simp: escapeKeyId_eq isTenantId_def split: list.splits)
  then obtain x y where xy: "escapeKeyId t = Inr x" "escapeKeyId u = Inr y" by blast
  have room: "userRoom t u = Inr (join_with CHR '':'' [''t.'' @ x, ''user'', y])"
    using assms xy by (simp add: userRoom_def member_room_def tenantScope_def)
  have parts: "CHR '':'' \<notin> set (''t.'' @ z)" "CHR '':'' \<notin> set z" if "escapeKeyId w = Inr z" for w z
    using tenant_scope_parts [OF that] escape_part [OF that] part_char_no_colon by blast+
  have other: "\<exists>z v. member_room ('':'' @ kind @ '':'') t' w = Inr (join_with CHR '':'' [''t.'' @ z, kind, v])
      \<and> escapeKeyId t' = Inr z \<and> escapeKeyId w = Inr v"
    if "member_room ('':'' @ kind @ '':'') t' w = Inr m" for kind w m :: string
    using that by (auto simp: member_room_def tenantScope_def split: if_splits sum.splits)
  have inj: "[''t.'' @ x, ''user'', y] = [''t.'' @ z, kind, v]"
    if "userRoom t u = Inr (join_with CHR '':'' [''t.'' @ z, kind, v])" "escapeKeyId t' = Inr z"
      "escapeKeyId w = Inr v" "CHR '':'' \<notin> set kind" for z kind v w
    using that room parts [OF xy(1)] parts [OF xy(2)] parts [OF that(2)] parts [OF that(3)]
    by (intro join_with_inj [where c = "CHR '':''"]) auto
  have c1: "t = t' \<and> u = u'" if eq: "userRoom t u = userRoom t' u'"
  proof -
    obtain z v where zv: "userRoom t' u' = Inr (join_with CHR '':'' [''t.'' @ z, ''user'', v])"
        "escapeKeyId t' = Inr z" "escapeKeyId u' = Inr v"
      using other [of "''user''" u'] eq room by (auto simp: userRoom_def)
    then have "x = z" "y = v" using inj [of z "''user''" v u'] eq by simp_all
    then show ?thesis using escapeKeyId_inj xy zv by blast
  qed
  have c2: "userRoom t u \<noteq> roleRoom t' r"
  proof
    assume eq: "userRoom t u = roleRoom t' r"
    obtain z v where zv: "roleRoom t' r = Inr (join_with CHR '':'' [''t.'' @ z, ''role'', v])"
        "escapeKeyId t' = Inr z" "escapeKeyId r = Inr v"
      using other [of "''role''" r, OF trans [OF _ room]] eq by (fastforce simp: roleRoom_def)
    then show False using inj [of z "''role''" v r] eq by simp
  qed
  have c3: "userRoom t u \<noteq> tenantRoom t'"
  proof
    assume eq: "userRoom t u = tenantRoom t'"
    then obtain z where "escapeKeyId t' = Inr z" "userRoom t u = Inr (''t.'' @ z)"
      by (auto simp: tenantRoom_def tenantScope_def room split: if_splits sum.splits)
    then have "CHR '':'' \<notin> set (''t.'' @ x @ '':user:'' @ y)" using parts room by auto
    then show False by simp
  qed
  have c4: "t = t' \<and> i = j" if "tenantObjectKey t i = Inr k" "tenantObjectKey t' j = Inr k"
  proof -
    have "isTenantId t'" "t @ CHR ''/'' # i = t' @ CHR ''/'' # j"
      using that by (auto simp: tenantObjectKey_def split: if_splits)
    moreover have "CHR ''/'' \<notin> set s" if "isTenantId s" for s
      using that by (auto simp: isTenantId_def is_tenant_char_def is_alnum_def is_upper_def is_lower_def
        is_digit_def split: list.splits)
    ultimately show ?thesis
      using assms(1) split_on_prefix [of "CHR ''/''" t i] split_on_prefix [of "CHR ''/''" t' j]
      by (metis append_same_eq list.inject same_append_eq)
  qed
  show ?thesis using c1 c2 c3 c4 by blast
qed

lemma rooms_and_objects_isolated_witness:
  "userRoom ''acme'' ''7'' \<noteq> userRoom ''beta'' ''7'' \<and> userRoom ''acme'' ''7'' \<noteq> roleRoom ''acme'' ''7''"
  using rooms_and_objects_isolated [of "''acme''" "''7''" "''beta''" "''7''" "''7''"]
    rooms_and_objects_isolated [of "''acme''" "''7''" "''acme''" "''7''" "''7''"]
  by (simp add: isTenantId_def is_alnum_def is_upper_def is_lower_def is_digit_def is_tenant_char_def)

end
