(* ===== verification/Tenancy.thy ===== *)
theory Tenancy
  imports Errors Keyspace
begin

text \<open>
  The tenant of a unit of work, from the wire to the document store:
  \<open>common/tenant/{tenant.context,tenant-resolution,tenant-directory.port,tenant.middleware}.ts\<close>,
  \<open>common/auth/{token-verifier.port,request-credentials}.ts\<close>,
  \<open>common/interceptors/http-tenant.interceptor.ts\<close>, \<open>modules/auth/guards/jwt-auth.guard.ts\<close>,
  \<open>common/authz/*.ts\<close> and \<open>infrastructure/documents/tenant-scope.ts\<close>.

  The AsyncLocalStorage slot is the argument of a computation: a function of type
  \<open>'a scoped\<close> is code that runs with the slot's value. The token verifier is a parameter
  with a state of its own, so that how often it is called can be told.
\<close>

subsection \<open>Tenant context\<close>

datatype tenant_scope = TenantScope string | GlobalScope

type_synonym 'a scoped = "tenant_scope option \<Rightarrow> 'a"

definition TENANT_INVALID_error :: thrown where
  "TENANT_INVALID_error =
     app_error_detail TENANT_INVALID ''Tenant ids are 1-128 characters of [A-Za-z0-9_.-]''"

definition parseTenantId :: "json option \<Rightarrow> thrown + string" where
  "parseTenantId raw =
     (case raw of
        Some (JStr s) \<Rightarrow> if isTenantId s then Inr s else Inl TENANT_INVALID_error
      | _ \<Rightarrow> Inl TENANT_INVALID_error)"

definition runInTenant :: "string \<Rightarrow> (thrown + 'a) scoped \<Rightarrow> (thrown + 'a) scoped" where
  "runInTenant tenant fn =
     (\<lambda>_. case parseTenantId (Some (JStr tenant)) of
        Inl e \<Rightarrow> Inl e
      | Inr t \<Rightarrow> fn (Some (TenantScope t)))"

definition runGlobal :: "'a scoped \<Rightarrow> 'a scoped" where
  "runGlobal fn = (\<lambda>_. fn (Some GlobalScope))"

definition currentTenant :: "string option scoped" where
  "currentTenant slot = (case slot of Some (TenantScope t) \<Rightarrow> Some t | _ \<Rightarrow> None)"

definition isGlobalScope :: "bool scoped" where
  "isGlobalScope slot \<longleftrightarrow> slot = Some GlobalScope"

definition requireTenant :: "(thrown + string) scoped" where
  "requireTenant slot =
     (case currentTenant slot of
        Some t \<Rightarrow> if t = [] then Inl (app_error TENANT_REQUIRED) else Inr t
      | None \<Rightarrow> Inl (app_error TENANT_REQUIRED))"

subsection \<open>Resolution\<close>

text \<open>The verified tenant and the hint of a request; \<open>None\<close> is \<open>undefined\<close>.\<close>

definition requested_tenant :: "json option \<Rightarrow> thrown + string option" where
  "requested_tenant hint =
     (case hint of
        Some (JStr s) \<Rightarrow>
          if s = [] then Inr None
          else (case parseTenantId hint of Inl e \<Rightarrow> Inl e | Inr t \<Rightarrow> Inr (Some t))
      | _ \<Rightarrow> Inr None)"

definition resolveTenant :: "string option \<Rightarrow> json option \<Rightarrow> thrown + string option" where
  "resolveTenant verified hint =
     (case requested_tenant hint of
        Inl e \<Rightarrow> Inl e
      | Inr requested \<Rightarrow>
          (case nonempty verified of
             Some v \<Rightarrow>
               (case requested of
                  Some r \<Rightarrow> if r \<noteq> v then Inl (app_error TENANT_MISMATCH) else Inr (Some v)
                | None \<Rightarrow> Inr (Some v))
           | None \<Rightarrow> Inr requested))"

datatype tenant_status = TenantActive | TenantSuspended

record tenant_record =
  tr_id :: string
  tr_name :: string
  tr_status :: tenant_status
  tr_selfSignup :: bool

definition assertTenantActive :: "tenant_record option \<Rightarrow> thrown + unit" where
  "assertTenantActive r =
     (case r of
        None \<Rightarrow> Inl (app_error TENANT_NOT_FOUND)
      | Some t \<Rightarrow> if tr_status t \<noteq> TenantActive then Inl (app_error TENANT_INACTIVE) else Inr ())"

subsection \<open>Request credentials\<close>

record principal =
  p_userId :: string
  p_email :: string
  p_roles :: "string list"
  p_tenantId :: string
  p_jti :: string
  p_exp :: rat

datatype header_value = HeaderOne string | HeaderMany "string list"

text \<open>\<open>req.headers[name]\<close> read as \<open>Array.isArray(raw) ? raw[0] : raw\<close>.\<close>

definition header_first :: "header_value option \<Rightarrow> string option" where
  "header_first h =
     (case h of
        None \<Rightarrow> None
      | Some (HeaderOne s) \<Rightarrow> Some s
      | Some (HeaderMany (s # _)) \<Rightarrow> Some s
      | Some (HeaderMany []) \<Rightarrow> None)"

text \<open>\<open>/^Bearer\s+(.+)$/i\<close> on the trimmed header. The group is greedy and \<open>.\<close> stops at line
  terminators; the text after the white space holds all that is left of a trimmed value.\<close>

definition bearerFromHeader :: "string option \<Rightarrow> string option" where
  "bearerFromHeader raw =
     (case nonempty raw of
        None \<Rightarrow> None
      | Some r \<Rightarrow>
          (let s = js_trim r; sep = takeWhile is_space (drop 6 s); rest = dropWhile is_space (drop 6 s) in
           if to_lower (take 6 s) = ''bearer'' \<and> sep \<noteq> []
              \<and> (\<forall>c \<in> set rest. of_char c \<noteq> (10 :: nat) \<and> of_char c \<noteq> (13 :: nat))
           then nonempty (Some (js_trim rest)) else None))"

record request_credentials =
  rc_token :: "string option"
  rc_principal :: "principal option"
  rc_error :: "thrown option"

record http_request =
  req_headers :: "string \<Rightarrow> header_value option"
  req_query :: "(string \<times> json) list option"
  req_credentials :: "request_credentials option"
  req_tenantId :: "string option"
  req_tenantError :: "thrown option"
  req_user :: "principal option"

type_synonym 's token_verifier = "string \<Rightarrow> 's \<Rightarrow> (thrown + principal) \<times> 's"

definition verify_once :: "'s token_verifier \<Rightarrow> string option \<Rightarrow> 's \<Rightarrow> request_credentials \<times> 's" where
  "verify_once verify token s =
     (case token of
        None \<Rightarrow> (\<lparr>rc_token = None, rc_principal = None, rc_error = None\<rparr>, s)
      | Some t \<Rightarrow>
          (case verify t s of
             (Inr p, s') \<Rightarrow> (\<lparr>rc_token = Some t, rc_principal = Some p, rc_error = None\<rparr>, s')
           | (Inl e, s') \<Rightarrow> (\<lparr>rc_token = Some t, rc_principal = None, rc_error = Some e\<rparr>, s')))"

definition requestCredentials ::
  "'s token_verifier \<Rightarrow> http_request \<Rightarrow> 's \<Rightarrow> request_credentials \<times> http_request \<times> 's" where
  "requestCredentials verify req s =
     (case req_credentials req of
        Some c \<Rightarrow> (c, req, s)
      | None \<Rightarrow>
          (case verify_once verify (bearerFromHeader (header_first (req_headers req ''authorization''))) s of
             (c, s') \<Rightarrow> (c, req\<lparr>req_credentials := Some c\<rparr>, s')))"

subsection \<open>Middleware, guards and interceptor\<close>

definition query_hint :: "http_request \<Rightarrow> string option" where
  "query_hint req =
     (case req_query req of
        None \<Rightarrow> None
      | Some q \<Rightarrow> (case js_prop q ''tenant'' of Some (JStr s) \<Rightarrow> Some s | _ \<Rightarrow> None))"

definition tenantHint :: "http_request \<Rightarrow> json option" where
  "tenantHint req =
     map_option JStr
       (case req_headers req ''x-tenant-id'' of
          Some (HeaderOne s) \<Rightarrow> if s \<noteq> [] then Some s else query_hint req
        | _ \<Rightarrow> query_hint req)"

definition tenant_middleware :: "'s token_verifier \<Rightarrow> http_request \<Rightarrow> 's \<Rightarrow> http_request \<times> 's" where
  "tenant_middleware verify req s =
     (case requestCredentials verify req s of
        (c, req', s') \<Rightarrow>
          ((case resolveTenant (map_option p_tenantId (rc_principal c)) (tenantHint req') of
              Inr t \<Rightarrow> req'\<lparr>req_tenantId := t\<rparr>
            | Inl e \<Rightarrow> req'\<lparr>req_tenantError := Some e\<rparr>), s'))"

text \<open>\<open>JwtAuthGuard.canActivate\<close>: the verdict, and the request with \<open>user\<close> set. \<open>error instanceof
  Error\<close> holds of every thrown value but \<open>NonError\<close>.\<close>

fun is_Error :: "thrown \<Rightarrow> bool" where
  "is_Error (NonError _) = False"
| "is_Error _ = True"

definition jwt_auth_guard ::
  "'s token_verifier \<Rightarrow> bool \<Rightarrow> bool \<Rightarrow> http_request \<Rightarrow> 's \<Rightarrow> (thrown + bool) \<times> http_request \<times> 's"
where
  "jwt_auth_guard verify is_http is_public req s =
     (if \<not> is_http \<or> is_public then (Inr True, req, s)
      else case requestCredentials verify req s of
        (c, req', s') \<Rightarrow>
          (case rc_principal c of
             Some p \<Rightarrow> (Inr True, req'\<lparr>req_user := Some p\<rparr>, s')
           | None \<Rightarrow>
               if nonempty (rc_token c) = None then (Inl (app_error UNAUTHORIZED), req', s')
               else (case rc_error c of
                   Some e \<Rightarrow> (Inl (if is_Error e then e else app_error AUTH_TOKEN_INVALID), req', s')
                 | None \<Rightarrow> (Inl (app_error AUTH_TOKEN_INVALID), req', s'))))"

record permission =
  perm_resource :: string
  perm_action :: string

definition authorize ::
  "(string list \<Rightarrow> permission \<Rightarrow> thrown + bool) \<Rightarrow> string list \<Rightarrow> permission \<Rightarrow> thrown + unit" where
  "authorize allow rs p =
     (case allow rs p of
        Inl e \<Rightarrow> Inl e
      | Inr ok \<Rightarrow>
          if ok then Inr ()
          else Inl (app_error_detail FORBIDDEN
            (''Permission denied: '' @ perm_action p @ '' on '' @ perm_resource p)))"

definition authorize_guard ::
  "(string list \<Rightarrow> permission \<Rightarrow> thrown + bool) \<Rightarrow> bool \<Rightarrow> permission option \<Rightarrow> http_request
   \<Rightarrow> thrown + bool" where
  "authorize_guard allow is_http perm req =
     (if \<not> is_http then Inr True
      else case perm of
        None \<Rightarrow> Inr True
      | Some p \<Rightarrow>
          (case req_user req of
             None \<Rightarrow> Inl (app_error UNAUTHORIZED)
           | Some u \<Rightarrow> (case authorize allow (p_roles u) p of Inl e \<Rightarrow> Inl e | Inr _ \<Rightarrow> Inr True)))"

text \<open>\<open>HttpTenantInterceptor.intercept\<close>: the tenant recorded on the request context and the
  span (if any), and the handler as it runs when the observable is subscribed.\<close>

definition http_tenant_interceptor ::
  "bool \<Rightarrow> http_request option \<Rightarrow> (thrown + 'a) scoped \<Rightarrow> string option \<times> (thrown + 'a) scoped" where
  "http_tenant_interceptor is_http req handle =
     (if \<not> is_http then (None, handle)
      else case req of
        None \<Rightarrow> (None, handle)
      | Some r \<Rightarrow>
          (case req_tenantError r of
             Some e \<Rightarrow> (None, \<lambda>_. Inl e)
           | None \<Rightarrow>
               (case nonempty (req_tenantId r) of
                  None \<Rightarrow> (None, handle)
                | Some t \<Rightarrow> (Some t, runInTenant t handle))))"

subsection \<open>The document fence\<close>

datatype document_tenancy_error =
    InvalidDocumentTenant "json option"
  | UpdateChangesTenant
  | FilterNamesOtherTenant
  | DocumentNamesOtherTenant

type_synonym js_object = "(string \<times> json) list"

definition DOCUMENT_TENANT_FIELD :: string where
  "DOCUMENT_TENANT_FIELD = ''tenantId''"

definition assertTenant :: "json option \<Rightarrow> document_tenancy_error + unit" where
  "assertTenant v =
     (case v of
        Some (JStr s) \<Rightarrow> if isTenantId s then Inr () else Inl (InvalidDocumentTenant v)
      | _ \<Rightarrow> Inl (InvalidDocumentTenant v))"

fun setsTenant :: "json \<Rightarrow> bool" where
  "setsTenant (JArr us) = (\<exists>u \<in> set us. setsTenant u)"
| "setsTenant (JObj u) =
     (js_has u DOCUMENT_TENANT_FIELD
      \<or> (\<exists>(opr, v) \<in> set u. starts_with ''$'' opr
            \<and> (case v of JObj inner \<Rightarrow> js_has inner DOCUMENT_TENANT_FIELD | _ \<Rightarrow> False)))"
| "setsTenant _ = False"

definition sets_tenant :: "json option \<Rightarrow> bool" where
  "sets_tenant update = (case update of None \<Rightarrow> False | Some u \<Rightarrow> setsTenant u)"

text \<open>The hooks of \<open>tenantScopePlugin\<close>, each the check that runs before the operation.\<close>

definition pre_query :: "js_object \<Rightarrow> json option \<Rightarrow> (document_tenancy_error + unit) scoped" where
  "pre_query filt update slot =
     (if isGlobalScope slot then Inr ()
      else case assertTenant (js_prop filt DOCUMENT_TENANT_FIELD) of
        Inl e \<Rightarrow> Inl e
      | Inr _ \<Rightarrow> if sets_tenant update then Inl UpdateChangesTenant else Inr ())"

definition match_tenant :: "json list \<Rightarrow> json option" where
  "match_tenant pipeline =
     (case pipeline of
        JObj stage # _ \<Rightarrow>
          (case js_prop stage ''$match'' of
             Some (JObj filt) \<Rightarrow> js_prop filt DOCUMENT_TENANT_FIELD
           | _ \<Rightarrow> None)
      | _ \<Rightarrow> None)"

definition pre_aggregate :: "json list \<Rightarrow> (document_tenancy_error + unit) scoped" where
  "pre_aggregate pipeline slot =
     (if isGlobalScope slot then Inr () else assertTenant (match_tenant pipeline))"

definition pre_save :: "js_object \<Rightarrow> (document_tenancy_error + unit) scoped" where
  "pre_save doc _ = assertTenant (js_prop doc DOCUMENT_TENANT_FIELD)"

fun pre_insertMany :: "js_object list \<Rightarrow> (document_tenancy_error + unit) scoped" where
  "pre_insertMany [] _ = Inr ()"
| "pre_insertMany (d # ds) slot =
     (case assertTenant (js_prop d DOCUMENT_TENANT_FIELD) of
        Inl e \<Rightarrow> Inl e
      | Inr _ \<Rightarrow> pre_insertMany ds slot)"

text \<open>The operations of a Mongoose model that run the plugin's hooks: the thirteen query operations, each with
  its filter and its update (an object, or a pipeline) or replacement, then \<open>aggregate\<close>, \<open>save\<close> (also behind
  \<open>create\<close>) and \<open>insertMany\<close>. \<open>bulkWrite\<close> and the driver's own collection run none of them.\<close>

datatype model_op =
    ModelFind js_object
  | ModelFindOne js_object
  | ModelCountDocuments js_object
  | ModelEstimatedDocumentCount js_object
  | ModelDistinct js_object
  | ModelFindOneAndDelete js_object
  | ModelDeleteOne js_object
  | ModelDeleteMany js_object
  | ModelFindOneAndUpdate js_object json js_object
  | ModelUpdateOne js_object json js_object
  | ModelUpdateMany js_object json js_object
  | ModelFindOneAndReplace js_object js_object
  | ModelReplaceOne js_object js_object
  | ModelAggregate "json list"
  | ModelCreate js_object
  | ModelInsertMany "js_object list"

text \<open>\<open>TenantScopedRepository\<close>: the operation each method hands to the Mongoose model.\<close>

definition scope :: "string \<Rightarrow> js_object \<Rightarrow> document_tenancy_error + js_object" where
  "scope tenant filt =
     (case assertTenant (Some (JStr tenant)) of
        Inl e \<Rightarrow> Inl e
      | Inr _ \<Rightarrow>
          if js_has filt DOCUMENT_TENANT_FIELD
             \<and> js_prop filt DOCUMENT_TENANT_FIELD \<noteq> Some (JStr tenant)
          then Inl FilterNamesOtherTenant
          else Inr (js_set filt DOCUMENT_TENANT_FIELD (JStr tenant)))"

definition scoped_op :: "(js_object \<Rightarrow> model_op) \<Rightarrow> string \<Rightarrow> js_object \<Rightarrow> document_tenancy_error + model_op"
where
  "scoped_op mk tenant filt = (case scope tenant filt of Inl e \<Rightarrow> Inl e | Inr f \<Rightarrow> Inr (mk f))"

definition repo_find :: "string \<Rightarrow> js_object \<Rightarrow> document_tenancy_error + model_op" where
  "repo_find = scoped_op ModelFind"

definition repo_findOne :: "string \<Rightarrow> js_object \<Rightarrow> document_tenancy_error + model_op" where
  "repo_findOne = scoped_op ModelFindOne"

definition repo_countDocuments :: "string \<Rightarrow> js_object \<Rightarrow> document_tenancy_error + model_op" where
  "repo_countDocuments = scoped_op ModelCountDocuments"

definition repo_findOneAndUpdate ::
  "string \<Rightarrow> js_object \<Rightarrow> js_object \<Rightarrow> js_object \<Rightarrow> document_tenancy_error + model_op" where
  "repo_findOneAndUpdate tenant filt update options =
     (if setsTenant (JObj update) then Inl UpdateChangesTenant
      else scoped_op (\<lambda>f. ModelFindOneAndUpdate f (JObj update)
        (js_set (js_set options ''returnDocument'' (JStr ''after'')) ''includeResultMetadata'' (JBool False)))
        tenant filt)"

definition repo_updateOne ::
  "string \<Rightarrow> js_object \<Rightarrow> js_object \<Rightarrow> js_object \<Rightarrow> document_tenancy_error + model_op" where
  "repo_updateOne tenant filt update options =
     (if setsTenant (JObj update) then Inl UpdateChangesTenant
      else scoped_op (\<lambda>f. ModelUpdateOne f (JObj update) options) tenant filt)"

definition repo_findOneAndDelete :: "string \<Rightarrow> js_object \<Rightarrow> document_tenancy_error + model_op" where
  "repo_findOneAndDelete = scoped_op ModelFindOneAndDelete"

definition repo_insert :: "string \<Rightarrow> js_object \<Rightarrow> document_tenancy_error + model_op" where
  "repo_insert tenant data =
     (case assertTenant (Some (JStr tenant)) of
        Inl e \<Rightarrow> Inl e
      | Inr _ \<Rightarrow>
          (case js_prop data DOCUMENT_TENANT_FIELD of
             Some own \<Rightarrow>
               if own \<noteq> JStr tenant then Inl DocumentNamesOtherTenant
               else Inr (ModelCreate (js_set data DOCUMENT_TENANT_FIELD (JStr tenant)))
           | None \<Rightarrow> Inr (ModelCreate (js_set data DOCUMENT_TENANT_FIELD (JStr tenant)))))"

text \<open>The hook Mongoose runs for each operation.\<close>

fun fence :: "model_op \<Rightarrow> (document_tenancy_error + unit) scoped" where
  "fence (ModelFind f) = pre_query f None"
| "fence (ModelFindOne f) = pre_query f None"
| "fence (ModelCountDocuments f) = pre_query f None"
| "fence (ModelEstimatedDocumentCount f) = pre_query f None"
| "fence (ModelDistinct f) = pre_query f None"
| "fence (ModelFindOneAndDelete f) = pre_query f None"
| "fence (ModelDeleteOne f) = pre_query f None"
| "fence (ModelDeleteMany f) = pre_query f None"
| "fence (ModelFindOneAndUpdate f u _) = pre_query f (Some u)"
| "fence (ModelUpdateOne f u _) = pre_query f (Some u)"
| "fence (ModelUpdateMany f u _) = pre_query f (Some u)"
| "fence (ModelFindOneAndReplace f r) = pre_query f (Some (JObj r))"
| "fence (ModelReplaceOne f r) = pre_query f (Some (JObj r))"
| "fence (ModelAggregate p) = pre_aggregate p"
| "fence (ModelCreate d) = pre_save d"
| "fence (ModelInsertMany ds) = pre_insertMany ds"

text \<open>The operations a repository of a tenant can issue, and what each is about.\<close>

inductive repo_issues :: "string \<Rightarrow> model_op \<Rightarrow> bool" for t where
  find: "repo_find t f = Inr op \<Longrightarrow> repo_issues t op"
| findOne: "repo_findOne t f = Inr op \<Longrightarrow> repo_issues t op"
| countDocuments: "repo_countDocuments t f = Inr op \<Longrightarrow> repo_issues t op"
| findOneAndUpdate: "repo_findOneAndUpdate t f u opts = Inr op \<Longrightarrow> repo_issues t op"
| updateOne: "repo_updateOne t f u opts = Inr op \<Longrightarrow> repo_issues t op"
| findOneAndDelete: "repo_findOneAndDelete t f = Inr op \<Longrightarrow> repo_issues t op"
| insert: "repo_insert t data = Inr op \<Longrightarrow> repo_issues t op"

text \<open>The filter that selects the documents of an operation, in an aggregation that of its first stage;
  \<open>estimatedDocumentCount\<close> counts the collection whatever its filter.\<close>

fun op_filter :: "model_op \<Rightarrow> js_object option" where
  "op_filter (ModelFind f) = Some f"
| "op_filter (ModelFindOne f) = Some f"
| "op_filter (ModelCountDocuments f) = Some f"
| "op_filter (ModelDistinct f) = Some f"
| "op_filter (ModelFindOneAndDelete f) = Some f"
| "op_filter (ModelDeleteOne f) = Some f"
| "op_filter (ModelDeleteMany f) = Some f"
| "op_filter (ModelFindOneAndUpdate f _ _) = Some f"
| "op_filter (ModelUpdateOne f _ _) = Some f"
| "op_filter (ModelUpdateMany f _ _) = Some f"
| "op_filter (ModelFindOneAndReplace f _) = Some f"
| "op_filter (ModelReplaceOne f _) = Some f"
| "op_filter (ModelAggregate (JObj stage # _)) =
     (case js_prop stage ''$match'' of Some (JObj f) \<Rightarrow> Some f | _ \<Rightarrow> None)"
| "op_filter _ = None"

fun op_update :: "model_op \<Rightarrow> json option" where
  "op_update (ModelFindOneAndUpdate _ u _) = Some u"
| "op_update (ModelUpdateOne _ u _) = Some u"
| "op_update (ModelUpdateMany _ u _) = Some u"
| "op_update _ = None"

fun op_replacement :: "model_op \<Rightarrow> js_object option" where
  "op_replacement (ModelFindOneAndReplace _ r) = Some r"
| "op_replacement (ModelReplaceOne _ r) = Some r"
| "op_replacement _ = None"

fun op_inserts :: "model_op \<Rightarrow> js_object list" where
  "op_inserts (ModelCreate d) = [d]"
| "op_inserts (ModelInsertMany ds) = ds"
| "op_inserts _ = []"

subsection \<open>Lemmas\<close>

lemma resolveTenant_cases:
  assumes "hint = None \<or> (\<exists>s. hint = Some (JStr s))"
  shows "resolveTenant (Some v) hint = Inr (Some t) \<and> v \<noteq> [] \<longleftrightarrow>
      v \<noteq> [] \<and> t = v \<and> (hint \<in> {None, Some (JStr [])} \<or> hint = Some (JStr t) \<and> isTenantId t)"
    and "resolveTenant None hint = Inr (Some t) \<longleftrightarrow> hint = Some (JStr t) \<and> isTenantId t"
  using assms
  by (auto simp: resolveTenant_def requested_tenant_def parseTenantId_def nonempty_def isTenantId_def
      split: option.splits list.splits if_splits sum.splits)

lemma parseTenantId_JStr: "parseTenantId (Some (JStr s)) = (if isTenantId s then Inr s else Inl TENANT_INVALID_error)"
  by (simp add: parseTenantId_def)

lemma isTenantId_nonempty: "isTenantId t \<Longrightarrow> t \<noteq> []"
  by (auto simp: isTenantId_def)

lemma tenantHint_JStr: "tenantHint req = Some v \<Longrightarrow> \<exists>s. v = JStr s"
  by (auto simp: tenantHint_def)

lemma requireTenant_bound: "requireTenant (Some (TenantScope t)) = (if t = [] then Inl (app_error TENANT_REQUIRED) else Inr t)"
  by (simp add: requireTenant_def currentTenant_def)

lemma requireTenant_unbound: "requireTenant None = Inl (app_error TENANT_REQUIRED)"
  "requireTenant (Some GlobalScope) = Inl (app_error TENANT_REQUIRED)"
  by (simp_all add: requireTenant_def currentTenant_def)

lemma interceptor_tenant:
  assumes "req_tenantError req = None"
  shows "snd (http_tenant_interceptor True (Some req) requireTenant) None = Inr t
    \<longleftrightarrow> req_tenantId req = Some t \<and> isTenantId t"
  using assms isTenantId_nonempty
  by (auto simp: http_tenant_interceptor_def runInTenant_def parseTenantId_JStr requireTenant_bound
      requireTenant_unbound nonempty_Some nonempty_None split: option.split)

lemma assertTenant_Inr: "assertTenant v = Inr () \<longleftrightarrow> (\<exists>s. v = Some (JStr s) \<and> isTenantId s)"
  by (auto simp: assertTenant_def split: option.splits json.splits)

lemma scope_Inr:
  "scope t f = Inr g \<Longrightarrow> isTenantId t \<and> js_prop g DOCUMENT_TENANT_FIELD = Some (JStr t)"
  by (auto simp: scope_def assertTenant_def js_prop_set split: if_splits)

lemma scoped_op_Inr:
  "scoped_op mk t f = Inr op \<Longrightarrow>
   \<exists>g. op = mk g \<and> isTenantId t \<and> js_prop g DOCUMENT_TENANT_FIELD = Some (JStr t)"
  by (auto simp: scoped_op_def dest: scope_Inr split: sum.splits)

lemma pre_query_tenant:
  assumes "isTenantId t" "js_prop g DOCUMENT_TENANT_FIELD = Some (JStr t)" "\<not> sets_tenant u"
  shows "pre_query g u slot = Inr ()"
  using assms by (simp add: pre_query_def assertTenant_def)

lemma pre_query_Inr:
  assumes "pre_query g u slot = Inr ()" "\<not> isGlobalScope slot"
  shows "(\<exists>t. isTenantId t \<and> js_prop g DOCUMENT_TENANT_FIELD = Some (JStr t)) \<and> \<not> sets_tenant u"
  using assms by (auto simp: pre_query_def assertTenant_Inr split: sum.splits if_splits)

text \<open>The documented meaning of an equality condition in a filter, and of an update: it
  leaves a string field alone unless it names the field, as a key of a replacement, as a key
  of an operator, or as the target of \<open>$rename\<close>; writing below a string field fails.\<close>

definition filter_equality_law :: "(js_object \<Rightarrow> js_object \<Rightarrow> bool) \<Rightarrow> bool" where
  "filter_equality_law matches \<longleftrightarrow>
     (\<forall>f d k s. matches f d \<and> js_prop f k = Some (JStr s) \<and> CHR ''$'' \<notin> set k \<and> CHR ''.'' \<notin> set k
        \<longrightarrow> js_prop d k = Some (JStr s)
            \<or> (\<exists>xs. js_prop d k = Some (JArr xs) \<and> JStr s \<in> set xs))"

definition update_names :: "js_object \<Rightarrow> string \<Rightarrow> bool" where
  "update_names u k \<longleftrightarrow>
     js_has u k
     \<or> (\<exists>opr inner. (opr, JObj inner) \<in> set u \<and> starts_with ''$'' opr
          \<and> (js_has inner k \<or> (opr = ''$rename'' \<and> JStr k \<in> snd ` set inner)))"

definition update_law :: "(js_object \<Rightarrow> js_object \<Rightarrow> js_object option) \<Rightarrow> bool" where
  "update_law apply_update \<longleftrightarrow>
     (\<forall>u d d' k s. apply_update u d = Some d' \<and> js_prop d k = Some (JStr s)
        \<and> CHR ''.'' \<notin> set k \<and> \<not> update_names u k \<longrightarrow> js_prop d' k = Some (JStr s))"

lemma setsTenant_names:
  assumes "\<not> setsTenant (JObj u)" "\<not> js_has u ''$rename''"
  shows "\<not> update_names u DOCUMENT_TENANT_FIELD"
proof
  assume "update_names u DOCUMENT_TENANT_FIELD"
  then consider "js_has u DOCUMENT_TENANT_FIELD"
    | opr inner where "(opr, JObj inner) \<in> set u" "starts_with ''$'' opr"
        "js_has inner DOCUMENT_TENANT_FIELD \<or> opr = ''$rename''"
    unfolding update_names_def by blast
  then show False
  proof cases
    case 2
    then have "opr \<noteq> ''$rename''" using assms(2) unfolding js_has_def by (metis fst_conv imageI)
    with 2 assms(1) show False by fastforce
  qed (use assms(1) in simp)
qed

lemma pre_insertMany_Inr:
  "pre_insertMany ds slot = Inr () \<Longrightarrow> d \<in> set ds \<Longrightarrow> \<exists>t. js_prop d DOCUMENT_TENANT_FIELD = Some (JStr t) \<and> isTenantId t"
  by (induction ds) (auto simp: assertTenant_Inr split: sum.splits)

lemma fence_aggregate:
  assumes "fence (ModelAggregate p) slot = Inr ()" "\<not> isGlobalScope slot"
  shows "\<exists>f t. op_filter (ModelAggregate p) = Some f \<and> js_prop f DOCUMENT_TENANT_FIELD = Some (JStr t) \<and> isTenantId t"
  using assms
  by (auto simp: pre_aggregate_def assertTenant_Inr match_tenant_def split: list.splits json.splits option.splits)

lemma fence_filter:
  assumes "fence op slot = Inr ()" "\<not> isGlobalScope slot" "op_filter op = Some f"
  shows "(\<exists>t. isTenantId t \<and> js_prop f DOCUMENT_TENANT_FIELD = Some (JStr t))
    \<and> (\<forall>u. op_update op = Some u \<longrightarrow> \<not> setsTenant u) \<and> (\<forall>r. op_replacement op = Some r \<longrightarrow> \<not> setsTenant (JObj r))"
proof (cases "\<exists>p. op = ModelAggregate p")
  case True
  then obtain p where p: "op = ModelAggregate p" ..
  then obtain f' t where "op_filter op = Some f'" "js_prop f' DOCUMENT_TENANT_FIELD = Some (JStr t)" "isTenantId t"
    using fence_aggregate [OF _ assms(2)] assms(1) by blast
  then show ?thesis using assms(3) p by auto
next
  case False
  then show ?thesis using assms by (cases op) (auto simp: sets_tenant_def dest!: pre_query_Inr)
qed

subsection \<open>Properties\<close>

text \<open>C9: The scope an HTTP handler runs in. A request with a token that verifies runs its handler in that
  token's tenant, if the hint names no other; one without runs it in the hint's tenant, or, with no hint
  at all, in the scope there was. A hint that is malformed or names another tenant answers its error,
  and so does a token whose tenant id is malformed: the answer is the same for every handler, which is
  not run. The authentication guard that runs after the middleware does not verify again and admits the
  request exactly if the token verified.\<close>

theorem http_handler_tenant:
  fixes handle :: "(thrown + 'a) scoped"
  assumes "req_credentials req = None" "req_tenantId req = None" "req_tenantError req = None"
    and "tenant_middleware verify req s = (req1, s1)"
    and "verify_once verify (bearerFromHeader (header_first (req_headers req ''authorization''))) s = (c, s2)"
    and "\<forall>p. rc_principal c = Some p \<longrightarrow> p_tenantId p \<noteq> []"
  shows "snd (http_tenant_interceptor True (Some req1) handle) slot =
      (case rc_principal c of
         Some p \<Rightarrow>
           if tenantHint req \<in> {None, Some (JStr []), Some (JStr (p_tenantId p))} \<and> isTenantId (p_tenantId p)
           then handle (Some (TenantScope (p_tenantId p)))
           else Inl (if \<exists>h. tenantHint req = Some (JStr h) \<and> isTenantId h then app_error TENANT_MISMATCH
                     else TENANT_INVALID_error)
       | None \<Rightarrow>
           (case tenantHint req of
              Some (JStr h) \<Rightarrow>
                if h = [] then handle slot
                else if isTenantId h then handle (Some (TenantScope h)) else Inl TENANT_INVALID_error
            | _ \<Rightarrow> handle slot))
    \<and> snd (snd (jwt_auth_guard verify True False req1 s1)) = s1
    \<and> (fst (jwt_auth_guard verify True False req1 s1) = Inr True \<longleftrightarrow> rc_principal c \<noteq> None)"
proof -
  let ?out = "resolveTenant (map_option p_tenantId (rc_principal c)) (tenantHint req)"
  have hint: "tenantHint (req\<lparr>req_credentials := Some c\<rparr>) = tenantHint req"
  proof -
    have "query_hint (req\<lparr>req_credentials := Some c\<rparr>) = query_hint req" by (simp add: query_hint_def)
    then show ?thesis by (simp add: tenantHint_def split: option.split header_value.split)
  qed
  have req1: "req1 = (case ?out of
        Inr t \<Rightarrow> req\<lparr>req_credentials := Some c, req_tenantId := t\<rparr>
      | Inl e \<Rightarrow> req\<lparr>req_credentials := Some c, req_tenantError := Some e\<rparr>)"
    using assms(4) unfolding tenant_middleware_def requestCredentials_def assms(1,5) option.case
      prod.case hint by (auto split: sum.splits)
  then have memo: "req_credentials req1 = Some c" by (simp split: sum.split)
  have guard: "snd (snd (jwt_auth_guard verify True False req1 s1)) = s1
    \<and> (fst (jwt_auth_guard verify True False req1 s1) = Inr True \<longleftrightarrow> rc_principal c \<noteq> None)"
    using memo by (auto simp: jwt_auth_guard_def requestCredentials_def split: option.splits)
  have run: "snd (http_tenant_interceptor True (Some req1) handle) slot =
      (case ?out of
         Inl e \<Rightarrow> Inl e
       | Inr None \<Rightarrow> handle slot
       | Inr (Some t) \<Rightarrow>
           if t = [] then handle slot else if isTenantId t then handle (Some (TenantScope t)) else Inl TENANT_INVALID_error)"
    using assms(3)
    by (auto simp: req1 http_tenant_interceptor_def runInTenant_def parseTenantId_JStr nonempty_def
      split: sum.split option.split list.split)
  have "snd (http_tenant_interceptor True (Some req1) handle) slot =
      (case rc_principal c of
         Some p \<Rightarrow>
           if tenantHint req \<in> {None, Some (JStr []), Some (JStr (p_tenantId p))} \<and> isTenantId (p_tenantId p)
           then handle (Some (TenantScope (p_tenantId p)))
           else Inl (if \<exists>h. tenantHint req = Some (JStr h) \<and> isTenantId h then app_error TENANT_MISMATCH
                     else TENANT_INVALID_error)
       | None \<Rightarrow>
           (case tenantHint req of
              Some (JStr h) \<Rightarrow>
                if h = [] then handle slot
                else if isTenantId h then handle (Some (TenantScope h)) else Inl TENANT_INVALID_error
            | _ \<Rightarrow> handle slot))"
  proof (cases "tenantHint req")
    case None
    then show ?thesis using assms(6)
      by (auto simp: run resolveTenant_def requested_tenant_def nonempty_def split: option.split list.split)
  next
    case (Some v)
    then obtain h where h: "tenantHint req = Some (JStr h)" using tenantHint_JStr by blast
    have "\<not> isTenantId []" by (simp add: isTenantId_def)
    then show ?thesis using assms(6)
      by (auto simp: run h resolveTenant_def requested_tenant_def parseTenantId_JStr nonempty_def
        split: option.split list.split)
  qed
  then show ?thesis using guard by blast
qed

text \<open>A handler that answers its tenant, and one request whose hint contradicts its token.\<close>

lemma http_handler_tenant_witness:
  "snd (http_tenant_interceptor True (Some (fst (tenant_middleware
     (\<lambda>t s. (Inr \<lparr>p_userId = t, p_email = [], p_roles = [], p_tenantId = ''acme'', p_jti = [], p_exp = 0\<rparr>, s))
     \<lparr>req_headers = [''authorization'' \<mapsto> HeaderOne ''Bearer x'', ''x-tenant-id'' \<mapsto> HeaderOne ''other''],
      req_query = None, req_credentials = None, req_tenantId = None, req_tenantError = None, req_user = None\<rparr> ())))
     (\<lambda>slot. Inr slot)) None = Inl (app_error TENANT_MISMATCH)"
proof -
  let ?req = "\<lparr>req_headers = [''authorization'' \<mapsto> HeaderOne ''Bearer x'', ''x-tenant-id'' \<mapsto> HeaderOne ''other''],
      req_query = None, req_credentials = None, req_tenantId = None, req_tenantError = None, req_user = None\<rparr>"
  let ?p = "\<lambda>t. \<lparr>p_userId = t, p_email = [], p_roles = [], p_tenantId = ''acme'', p_jti = [], p_exp = 0\<rparr>"
  let ?v = "\<lambda>t s. (Inr (?p t), s) :: (thrown + principal) \<times> unit"
  have "bearerFromHeader (Some ''Bearer x'') = Some ''x''" by code_simp
  then have b: "verify_once ?v (bearerFromHeader (header_first (req_headers ?req ''authorization''))) ()
      = (\<lparr>rc_token = Some ''x'', rc_principal = Some (?p ''x''), rc_error = None\<rparr>, ())"
    by (simp add: header_first_def verify_once_def)
  have a: "isTenantId ''acme''" "isTenantId ''other''" by code_simp+
  have h: "tenantHint ?req = Some (JStr ''other'')" by (simp add: tenantHint_def)
  show ?thesis
    using http_handler_tenant [OF _ _ _ prod.collapse [symmetric] b, where handle = "\<lambda>slot. Inr slot" and slot = None] a h
    by simp
qed

text \<open>Every operation a tenant-scoped repository method issues passes the schema fence in
  any scope and is confined to the repository's tenant: its filter, or the document it
  inserts, names exactly that tenant, whatever filter, update and options the caller gave.\<close>

theorem repository_ops_confined:
  assumes "repo_issues t op"
  shows "isTenantId t \<and> fence op slot = Inr ()
    \<and> (case op_filter op of
         Some f \<Rightarrow> js_prop f DOCUMENT_TENANT_FIELD = Some (JStr t) \<and> op_inserts op = []
       | None \<Rightarrow> \<exists>d. op_inserts op = [d] \<and> js_prop d DOCUMENT_TENANT_FIELD = Some (JStr t))"
  using assms
proof induction
  case (insert data op)
  then show ?case
    by (auto simp: repo_insert_def assertTenant_def pre_save_def js_prop_set split: if_splits option.splits)
qed (auto simp: repo_find_def repo_findOne_def repo_countDocuments_def repo_findOneAndUpdate_def
    repo_updateOne_def repo_findOneAndDelete_def pre_query_tenant sets_tenant_def split: if_splits
    dest!: scoped_op_Inr)

lemma repository_ops_confined_witness:
  "repo_findOne ''acme'' [(''email'', JStr ''a@b.c'')] =
     Inr (ModelFindOne [(''email'', JStr ''a@b.c''), (''tenantId'', JStr ''acme'')])
   \<and> fence (ModelFindOne [(''email'', JStr ''a@b.c''), (''tenantId'', JStr ''acme'')]) None = Inr ()"
proof -
  have a: "isTenantId ''acme''"
    by (simp add: isTenantId_def is_alnum_def is_upper_def is_lower_def is_digit_def is_tenant_char_def)
  have e: "repo_findOne ''acme'' [(''email'', JStr ''a@b.c'')] =
     Inr (ModelFindOne [(''email'', JStr ''a@b.c''), (''tenantId'', JStr ''acme'')])"
    using a by (simp add: repo_findOne_def scoped_op_def scope_def assertTenant_def js_has_def
      DOCUMENT_TENANT_FIELD_def)
  show ?thesis using repository_ops_confined [OF repo_issues.findOne [OF e]] e by blast
qed



text \<open>The check looks one level below the stages of a pipeline, so an update that computes the tenant field
  deeper passes, here one that replaces a document by itself with another tenant's id.\<close>

lemma fence_admits_pipeline_onto_tenant:
  assumes "isTenantId t"
  shows "fence (ModelUpdateOne [(''tenantId'', JStr t)]
      (JArr [JObj [(''$replaceWith'', JObj [(''$mergeObjects'', JArr [JStr ''$$ROOT'', JObj [(''tenantId'', JStr other)]])])]]) []) None
    = Inr ()"
  using assms
  by (simp add: pre_query_def isGlobalScope_def assertTenant_def js_prop_def sets_tenant_def js_has_def
      starts_with_def DOCUMENT_TENANT_FIELD_def)

text \<open>C38: The check that no update may change \<open>tenantId\<close> looks at the keys of operators only: an
  update that renames another field onto \<open>tenantId\<close> passes the fence for every tenant.\<close>

theorem fence_admits_rename_onto_tenant:
  assumes "isTenantId t"
  shows "fence (ModelUpdateOne [(''tenantId'', JStr t)] (JObj [(''$rename'', JObj [(other, JStr ''tenantId'')])]) []) None
      = Inr () \<longleftrightarrow> other \<noteq> ''tenantId''"
  using assms
  by (simp add: pre_query_def isGlobalScope_def assertTenant_def js_prop_def sets_tenant_def js_has_def
      starts_with_def DOCUMENT_TENANT_FIELD_def)

lemma fence_admits_rename_onto_tenant_witness:
  "fence (ModelUpdateOne [(''tenantId'', JStr ''acme'')]
     (JObj [(''$rename'', JObj [(''owner'', JStr ''tenantId'')])]) []) None = Inr ()"
  using fence_admits_rename_onto_tenant [of "''acme''" "''owner''"]
  by (simp add: isTenantId_def is_alnum_def is_upper_def is_lower_def is_digit_def is_tenant_char_def)

end
