(* ===== verification/Messaging.thy ===== *)
theory Messaging
  imports Tenancy Stores "HOL-Library.AList"
begin

text \<open>
  Messaging: the event envelope (\<open>packages/shared/src/events/envelope.ts\<close>), its wire form and
  its handling on receipt (\<open>infrastructure/messaging/messaging.envelope.ts\<close>), the redelivery
  policy (\<open>messaging.port.ts\<close>) and the consumer base (\<open>event-consumer.ts\<close>).

  The broker, JSON, the random ids, the clock and the ambient trace context are arguments.
  Spans, log lines and metric counters carry no result and are left out.
\<close>

subsection \<open>The envelope\<close>

datatype msg_body = BodyJson json | BodyBytes string

text \<open>An envelope is an object: its attributes by name, and its \<open>data\<close>. One built here has
  string attributes; a structured-mode body brings whatever its sender put there.\<close>

record event_envelope =
  env_attrs :: "(string \<times> json) list"
  env_data :: "msg_body option"

definition EVENT_SPEC_VERSION :: string where "EVENT_SPEC_VERSION = ''1.0''"
definition EVENT_DATA_CONTENT_TYPE :: string where "EVENT_DATA_CONTENT_TYPE = ''application/json''"
definition EVENT_BINARY_CONTENT_TYPE :: string where
  "EVENT_BINARY_CONTENT_TYPE = ''application/octet-stream''"
definition UNKNOWN_EVENT_SOURCE :: string where "UNKNOWN_EVENT_SOURCE = ''urn:tropis:unknown-source''"
definition EVENT_STRUCTURED_CONTENT_TYPE :: string where
  "EVENT_STRUCTURED_CONTENT_TYPE = ''application/cloudevents+json''"
definition ENVELOPE_SCHEMA_VERSION :: string where "ENVELOPE_SCHEMA_VERSION = ''1''"
definition EVENT_ATTRIBUTE_PREFIX :: string where "EVENT_ATTRIBUTE_PREFIX = ''ce_''"

definition BINARY_ATTRIBUTES :: "string list" where
  "BINARY_ATTRIBUTES = [''specversion'', ''id'', ''source'', ''type'', ''time'', ''subject'',
     ''datacontenttype'', ''dataschema'', ''tenantid'', ''schemaversion'']"

text \<open>\<open>EVENT_TYPE_PATTERN\<close> and the irregular verbs: three dot-separated segments.\<close>

definition is_event_segment :: "string \<Rightarrow> bool" where
  "is_event_segment s =
     (case s of [] \<Rightarrow> False
      | c # cs \<Rightarrow> is_lower c \<and> list_all (\<lambda>x. is_lower x \<or> is_digit x \<or> x = CHR ''-'') cs)"

definition event_type_pattern :: "string \<Rightarrow> bool" where
  "event_type_pattern t =
     (case split_on (CHR ''.'') t of
        [a, b, c] \<Rightarrow> is_event_segment a \<and> is_event_segment b
          \<and> is_event_segment c \<and> ends_with ''ed'' (tl c)
      | _ \<Rightarrow> False)"

definition IRREGULAR_PAST_TENSE :: "string list" where
  "IRREGULAR_PAST_TENSE = [''sent'', ''built'', ''paid'', ''lost'']"

definition isConformingEventType :: "string \<Rightarrow> bool" where
  "isConformingEventType t =
     (event_type_pattern t \<or>
      (let parts = split_on (CHR ''.'') t in
       length parts = 3 \<and> list_all is_event_segment parts \<and> parts ! 2 \<in> set IRREGULAR_PAST_TENSE))"

record envelope_attributes =
  ea_id :: string
  ea_source :: string
  ea_type :: string
  ea_time :: string
  ea_tenantid :: "string option"
  ea_subject :: "string option"
  ea_schemaversion :: "string option"
  ea_dataschema :: "string option"
  ea_datacontenttype :: "string option"
  ea_traceparent :: "string option"
  ea_tracestate :: "string option"

definition contentType :: "string option \<Rightarrow> string" where
  "contentType v = (if v = Some EVENT_BINARY_CONTENT_TYPE then EVENT_BINARY_CONTENT_TYPE
                    else EVENT_DATA_CONTENT_TYPE)"

text \<open>\<open>if (value) envelope[name] = value\<close>.\<close>

definition attr_if :: "string \<Rightarrow> string option \<Rightarrow> (string \<times> json) list" where
  "attr_if name v = (case nonempty v of None \<Rightarrow> [] | Some s \<Rightarrow> [(name, JStr s)])"

definition createEventEnvelope :: "msg_body option \<Rightarrow> envelope_attributes \<Rightarrow> event_envelope" where
  "createEventEnvelope body a =
     \<lparr>env_attrs =
        [(''specversion'', JStr EVENT_SPEC_VERSION),
         (''id'', JStr (ea_id a)),
         (''source'', JStr (if ea_source a = [] then UNKNOWN_EVENT_SOURCE else ea_source a)),
         (''type'', JStr (ea_type a)),
         (''time'', JStr (ea_time a)),
         (''datacontenttype'', JStr (contentType (ea_datacontenttype a))),
         (''schemaversion'', JStr (option_or (ea_schemaversion a) ENVELOPE_SCHEMA_VERSION))]
        @ attr_if ''dataschema'' (ea_dataschema a)
        @ attr_if ''tenantid'' (ea_tenantid a)
        @ attr_if ''subject'' (ea_subject a)
        @ attr_if ''traceparent'' (ea_traceparent a)
        @ attr_if ''tracestate'' (ea_tracestate a),
      env_data = body\<rparr>"

text \<open>A string attribute of an envelope; \<open>None\<close> when it is absent or not a string.\<close>

definition env_str :: "event_envelope \<Rightarrow> string \<Rightarrow> string option" where
  "env_str e k = (case js_prop (env_attrs e) k of Some (JStr s) \<Rightarrow> Some s | _ \<Rightarrow> None)"

type_synonym msg_props = "(string \<times> string) list"

definition prop_if :: "string \<Rightarrow> string option \<Rightarrow> msg_props" where
  "prop_if name v = (case nonempty v of None \<Rightarrow> [] | Some s \<Rightarrow> [(name, s)])"

definition envelopeToProperties :: "event_envelope \<Rightarrow> msg_props" where
  "envelopeToProperties e =
     concat (map (\<lambda>attr. case env_str e attr of
                           Some v \<Rightarrow> [(EVENT_ATTRIBUTE_PREFIX @ attr, v)] | None \<Rightarrow> [])
       BINARY_ATTRIBUTES)
     @ prop_if ''traceparent'' (env_str e ''traceparent'')
     @ prop_if ''tracestate'' (env_str e ''tracestate'')"

definition envelopeFromProperties :: "msg_props \<Rightarrow> msg_body option \<Rightarrow> event_envelope option" where
  "envelopeFromProperties props body =
     (let get = (\<lambda>attr. map_of props (EVENT_ATTRIBUTE_PREFIX @ attr)) in
      if get ''specversion'' \<noteq> Some EVENT_SPEC_VERSION then None
      else case (nonempty (get ''id''), nonempty (get ''type'')) of
        (Some i, Some t) \<Rightarrow>
          Some \<lparr>env_attrs =
             [(''specversion'', JStr EVENT_SPEC_VERSION),
              (''id'', JStr i),
              (''source'', JStr (option_or (nonempty (get ''source'')) UNKNOWN_EVENT_SOURCE)),
              (''type'', JStr t),
              (''time'', JStr (option_or (get ''time'') [])),
              (''datacontenttype'', JStr (contentType (get ''datacontenttype''))),
              (''schemaversion'', JStr (option_or (get ''schemaversion'') ENVELOPE_SCHEMA_VERSION))]
             @ attr_if ''dataschema'' (get ''dataschema'')
             @ attr_if ''tenantid'' (get ''tenantid'')
             @ attr_if ''subject'' (get ''subject'')
             @ attr_if ''traceparent'' (map_of props ''traceparent'')
             @ attr_if ''tracestate'' (map_of props ''tracestate''),
            env_data = body\<rparr>
      | _ \<Rightarrow> None)"

text \<open>\<open>isStructuredEnvelope\<close>, giving the object's properties.\<close>

definition structured_of :: "json option \<Rightarrow> (string \<times> json) list option" where
  "structured_of body =
     (case body of
        Some (JObj ps) \<Rightarrow>
          if js_prop ps ''specversion'' = Some (JStr EVENT_SPEC_VERSION)
             \<and> js_is_string (js_prop ps ''id'') \<and> js_is_string (js_prop ps ''type'') \<and> js_has ps ''data''
          then Some ps else None
      | _ \<Rightarrow> None)"

subsection \<open>Event types\<close>

definition EVENT_TYPES :: "(string \<times> string) list" where
  "EVENT_TYPES =
     [(''USER_CREATED'', ''identity.user.created''), (''USER_UPDATED'', ''identity.user.updated''),
      (''USER_DELETED'', ''identity.user.deleted''),
      (''ANALYTICS_EVENT_RECORDED'', ''analytics.event.recorded''),
      (''TRACKING_BATCH_RECEIVED'', ''tracking.batch.received''),
      (''MESSAGE_PUBLISHED'', ''tropis.message.published'')]"

definition LEGACY_EVENT_TYPES :: "(string \<times> string) list" where
  "LEGACY_EVENT_TYPES =
     [(''user.created'', ''identity.user.created''), (''user.updated'', ''identity.user.updated''),
      (''user.deleted'', ''identity.user.deleted'')]"

definition canonicalEventType :: "string \<Rightarrow> string" where
  "canonicalEventType t = option_or (map_of LEGACY_EVENT_TYPES t) t"

subsection \<open>Wire form\<close>

definition EVENT_SOURCE :: string where "EVENT_SOURCE = ''/tropis/backend''"
definition DEFAULT_EVENT_TYPE :: string where "DEFAULT_EVENT_TYPE = ''tropis.message.published''"

text \<open>The short name: \<open>topic.replace(/^[a-z-]+:\/\//, '')\<close>.\<close>

definition destinationName :: "string \<Rightarrow> string" where
  "destinationName t =
     (let scheme = takeWhile (\<lambda>c. is_lower c \<or> c = CHR ''-'') t; rest = drop (length scheme) t in
      if scheme \<noteq> [] \<and> starts_with ''://'' rest then drop 3 rest else t)"

record event_attributes =
  at_id :: "string option"
  at_type :: "string option"
  at_subject :: "string option"
  at_tenantId :: "string option"
  at_schemaVersion :: "string option"
  at_source :: "string option"
  at_time :: "string option"

record publish_options =
  po_properties :: msg_props
  po_event :: event_attributes
  po_key :: "string option"

definition no_event_attributes :: event_attributes where
  "no_event_attributes = \<lparr>at_id = None, at_type = None, at_subject = None, at_tenantId = None,
     at_schemaVersion = None, at_source = None, at_time = None\<rparr>"

datatype msg_payload = PayBytes string | PayObj "(string \<times> json) list"

record outgoing_message =
  og_data :: string
  og_properties :: msg_props
  og_envelope :: event_envelope

text \<open>What a publish reads from its surroundings: a random id, the time, the caller's tenant and
  the injected trace context.\<close>

record publish_context =
  pc_uuid :: string
  pc_now :: string
  pc_tenant :: "string option"
  pc_traceparent :: "string option"
  pc_tracestate :: "string option"

definition outgoing_envelope ::
  "publish_context \<Rightarrow> msg_payload \<Rightarrow> event_attributes \<Rightarrow> event_envelope" where
  "outgoing_envelope c p ev =
     createEventEnvelope (case p of PayBytes _ \<Rightarrow> None | PayObj ps \<Rightarrow> Some (BodyJson (JObj ps)))
       \<lparr>ea_id = option_or (at_id ev) (pc_uuid c),
        ea_source = option_or (at_source ev) EVENT_SOURCE,
        ea_type = option_or (at_type ev) DEFAULT_EVENT_TYPE,
        ea_time = option_or (at_time ev) (pc_now c),
        ea_tenantid = (case at_tenantId ev of None \<Rightarrow> pc_tenant c | t \<Rightarrow> t),
        ea_subject = at_subject ev,
        ea_schemaversion = at_schemaVersion ev,
        ea_dataschema = None,
        ea_datacontenttype = (case p of PayBytes _ \<Rightarrow> Some EVENT_BINARY_CONTENT_TYPE | _ \<Rightarrow> None),
        ea_traceparent = pc_traceparent c,
        ea_tracestate = pc_tracestate c\<rparr>"

text \<open>\<open>{ ...a, ...b }\<close> keeps the place of a repeated key and takes its last value.\<close>

definition spread_properties :: "msg_props \<Rightarrow> msg_props \<Rightarrow> msg_props" where
  "spread_properties a b = AList.updates (map fst b) (map snd b) a"

definition encodeOutgoing ::
  "(json \<Rightarrow> string) \<Rightarrow> publish_context \<Rightarrow> msg_payload \<Rightarrow> publish_options option \<Rightarrow> outgoing_message" where
  "encodeOutgoing stringify c p opts =
     (let envelope = outgoing_envelope c p (case opts of None \<Rightarrow> no_event_attributes | Some po \<Rightarrow> po_event po) in
      \<lparr>og_data = (case p of PayBytes b \<Rightarrow> b | PayObj ps \<Rightarrow> stringify (JObj ps)),
       og_properties = spread_properties (case opts of None \<Rightarrow> [] | Some po \<Rightarrow> po_properties po)
                         (envelopeToProperties envelope),
       og_envelope = envelope\<rparr>)"

text \<open>\<open>publishEnveloped\<close>: the message is built and handed to the broker's \<open>send\<close>.\<close>

definition publishEnveloped ::
  "(json \<Rightarrow> string) \<Rightarrow> publish_context \<Rightarrow> msg_payload \<Rightarrow> publish_options option
   \<Rightarrow> (outgoing_message \<Rightarrow> 'w \<Rightarrow> (thrown + unit) \<times> 'w) \<Rightarrow> 'w \<Rightarrow> (thrown + unit) \<times> 'w" where
  "publishEnveloped stringify c p opts send w = send (encodeOutgoing stringify c p opts) w"

text \<open>Decoding. \<open>parse\<close> is \<open>JSON.parse\<close>, \<open>None\<close> where it throws; a structured envelope is taken
  as its sender wrote it, and its data printed again for the handler.\<close>

definition decodeIncoming ::
  "(json \<Rightarrow> string) \<Rightarrow> (string \<Rightarrow> json option) \<Rightarrow> string \<Rightarrow> string \<Rightarrow> string \<Rightarrow> msg_props
   \<Rightarrow> string \<times> event_envelope" where
  "decodeIncoming stringify parse uuid now raw props =
     (let structured = map_of props ''content-type'' = Some EVENT_STRUCTURED_CONTENT_TYPE
                       \<or> map_of props ''ce_specversion'' = None;
          parsed = parse raw in
      case (if structured then structured_of parsed else None) of
        Some ps \<Rightarrow>
          (let d = option_or (js_prop ps ''data'') JNull in
           (stringify d, \<lparr>env_attrs = filter (\<lambda>(k, _). k \<noteq> ''data'') ps, env_data = Some (BodyJson d)\<rparr>))
      | None \<Rightarrow>
          (let body = (case parsed of None \<Rightarrow> BodyBytes raw | Some j \<Rightarrow> if j = JNull then BodyBytes raw else BodyJson j) in
           (raw,
            case envelopeFromProperties props (Some body) of
              Some e \<Rightarrow> e
            | None \<Rightarrow>
                createEventEnvelope (Some body)
                  \<lparr>ea_id = uuid, ea_source = UNKNOWN_EVENT_SOURCE, ea_type = DEFAULT_EVENT_TYPE, ea_time = now,
                   ea_tenantid = None, ea_subject = None, ea_schemaversion = None, ea_dataschema = None,
                   ea_datacontenttype = None, ea_traceparent = map_of props ''traceparent'',
                   ea_tracestate = map_of props ''tracestate''\<rparr>)))"

text \<open>\<open>consumeEnveloped\<close>: the handler runs in the envelope's tenant when that is a valid id, and
  in the scope of the receive loop, \<open>slot\<close>, otherwise; its error is rethrown, which makes the adapter redeliver.\<close>

type_synonym 'w msg_handler =
  "string \<Rightarrow> event_envelope \<Rightarrow> tenant_scope option \<Rightarrow> 'w \<Rightarrow> (thrown + unit) \<times> 'w"

definition envelope_tenant :: "event_envelope \<Rightarrow> string option" where
  "envelope_tenant e = (case env_str e ''tenantid'' of Some t \<Rightarrow> if isTenantId t then Some t else None | None \<Rightarrow> None)"

definition consumeEnveloped ::
  "(json \<Rightarrow> string) \<Rightarrow> (string \<Rightarrow> json option) \<Rightarrow> string \<Rightarrow> string \<Rightarrow> string \<Rightarrow> msg_props
   \<Rightarrow> 'w msg_handler \<Rightarrow> tenant_scope option \<Rightarrow> 'w \<Rightarrow> (thrown + unit) \<times> 'w" where
  "consumeEnveloped stringify parse uuid now raw props handler slot w =
     (case decodeIncoming stringify parse uuid now raw props of
        (d, e) \<Rightarrow>
          (case envelope_tenant e of
             Some t \<Rightarrow> handler d e (Some (TenantScope t)) w
           | None \<Rightarrow> handler d e slot w))"

text \<open>Header values as strings: of a repeated header the first.\<close>

datatype broker_header = HvOne string | HvMany "string list" | HvUndefined

definition headersToStrings :: "(string \<times> broker_header) list \<Rightarrow> msg_props" where
  "headersToStrings hs =
     concat (map (\<lambda>(k, v). case v of HvOne s \<Rightarrow> [(k, s)] | HvMany (s # _) \<Rightarrow> [(k, s)] | _ \<Rightarrow> []) hs)"

subsection \<open>Redelivery\<close>

definition MESSAGING_ACK_TIMEOUT_MS :: nat where "MESSAGING_ACK_TIMEOUT_MS = 60000"

record redelivery_options =
  maxRedeliveries :: nat
  redeliveryDelayMs :: nat
  maxRedeliveryDelayMs :: "nat option"

definition DEFAULT_REDELIVERY :: redelivery_options where
  "DEFAULT_REDELIVERY = \<lparr>maxRedeliveries = 10, redeliveryDelayMs = 1000, maxRedeliveryDelayMs = Some 30000\<rparr>"

definition redeliveryDelay :: "redelivery_options \<Rightarrow> int \<Rightarrow> nat" where
  "redeliveryDelay opts redelivery =
     (let ceiling_ms = option_or (maxRedeliveryDelayMs opts) (redeliveryDelayMs opts);
          delay = redeliveryDelayMs opts * 2 ^ nat (max 0 redelivery) in
      min (max ceiling_ms (redeliveryDelayMs opts)) delay)"

definition deadLetterTopic :: "string \<Rightarrow> string" where "deadLetterTopic t = t @ ''-DLQ''"
definition deadLetterSubscription :: "string \<Rightarrow> string" where "deadLetterSubscription s = s @ ''-DLQ''"

subsection \<open>Consumers\<close>

definition CONSUMER_CLAIM_TTL_SECONDS :: rat where "CONSUMER_CLAIM_TTL_SECONDS = 30"
definition CONSUMER_SEEN_TTL_SECONDS :: rat where "CONSUMER_SEEN_TTL_SECONDS = 86400"

text \<open>The handler \<open>EventConsumer.start\<close> subscribes: the body must be an object, the scope a
  tenant, and a tenant named in the data the scope's; an event that names another is dropped,
  which acknowledges it.\<close>

type_synonym 'w spec_handle =
  "(string \<times> json) list \<Rightarrow> event_envelope \<Rightarrow> string \<Rightarrow> 'w \<Rightarrow> (thrown + unit) \<times> 'w"

definition consumer_handler :: "'w spec_handle \<Rightarrow> 'w msg_handler" where
  "consumer_handler handle raw e slot w =
     (case env_data e of
        Some (BodyJson (JObj ps)) \<Rightarrow>
          (case requireTenant slot of
             Inl err \<Rightarrow> (Inl err, w)
           | Inr tenantId \<Rightarrow>
               (case js_prop ps ''tenantId'' of
                  Some (JStr t) \<Rightarrow> if t \<noteq> tenantId then (Inr (), w) else handle ps e tenantId w
                | _ \<Rightarrow> handle ps e tenantId w))
      | _ \<Rightarrow> (Inl (PlainError ''Error'' ''Message body is not a JSON object'' []), w))"

text \<open>The claims of a dedup port, at the moment \<open>now\<close> each call is made.\<close>

record 'w dedup_ops =
  do_claimMany :: "string list \<Rightarrow> rat \<Rightarrow> string \<Rightarrow> 'w \<Rightarrow> (thrown + bool list) \<times> 'w"
  do_releaseMany :: "string list \<Rightarrow> string \<Rightarrow> 'w \<Rightarrow> (thrown + bool list) \<times> 'w"
  do_extendMany :: "string list \<Rightarrow> rat \<Rightarrow> string \<Rightarrow> 'w \<Rightarrow> (thrown + bool list) \<times> 'w"

text \<open>\<open>items.filter((_, i) => claims[i])\<close>: a missing answer is false.\<close>

fun pick :: "'e list \<Rightarrow> bool list \<Rightarrow> 'e list" where
  "pick (x # xs) (b # bs) = (if b then x # pick xs bs else pick xs bs)"
| "pick _ _ = []"

definition onceEach ::
  "'w dedup_ops \<Rightarrow> string \<Rightarrow> 'e list \<Rightarrow> ('e \<Rightarrow> string) \<Rightarrow> ('e list \<Rightarrow> 'w \<Rightarrow> (thrown + unit) \<times> 'w)
   \<Rightarrow> rat option \<Rightarrow> 'w \<Rightarrow> (thrown + 'e list) \<times> 'w" where
  "onceEach ops owner items keyOf work seenTtl w =
     (if items = [] then (Inr [], w)
      else let keys = map keyOf items in
        case do_claimMany ops keys CONSUMER_CLAIM_TTL_SECONDS owner w of
          (Inl e, w1) \<Rightarrow> (Inl e, w1)
        | (Inr claims, w1) \<Rightarrow>
            (let fresh = pick items claims; claimed = pick keys claims in
             if fresh = [] then (Inr [], w1)
             else case work fresh w1 of
               (Inl e, w2) \<Rightarrow> (Inl e, snd (do_releaseMany ops claimed owner w2))
             | (Inr _, w2) \<Rightarrow>
                 (Inr fresh, snd (do_extendMany ops claimed (option_or seenTtl CONSUMER_SEEN_TTL_SECONDS) owner w2))))"

definition once ::
  "'w dedup_ops \<Rightarrow> string \<Rightarrow> string \<Rightarrow> ('w \<Rightarrow> (thrown + unit) \<times> 'w) \<Rightarrow> rat option \<Rightarrow> 'w
   \<Rightarrow> (thrown + bool) \<times> 'w" where
  "once ops owner key work seenTtl w =
     (case onceEach ops owner [key] (\<lambda>k. k) (\<lambda>_. work) seenTtl w of
        (Inl e, w') \<Rightarrow> (Inl e, w')
      | (Inr fresh, w') \<Rightarrow> (Inr (length fresh > 0), w'))"

text \<open>One started consumer. Its fields, the timer with its delay, and whether \<open>connect\<close> awaits
  its subscribe call; \<open>co_closing\<close> is a \<open>close()\<close> that awaits the attempt in flight.\<close>

datatype consumer_state = Starting | Running | Retrying | Disabled

definition RESUBSCRIBE_BASE_MS :: nat where "RESUBSCRIBE_BASE_MS = 1000"
definition RESUBSCRIBE_MAX_MS :: nat where "RESUBSCRIBE_MAX_MS = 30000"

record running_consumer =
  co_state :: consumer_state
  co_failures :: nat
  co_subscription :: "nat option"
  co_timer :: "nat option"
  co_closed :: bool
  co_attempting :: bool
  co_closing :: bool

definition consumer_init :: running_consumer where
  "consumer_init = \<lparr>co_state = Starting, co_failures = 0, co_subscription = None, co_timer = None,
     co_closed = False, co_attempting = False, co_closing = False\<rparr>"

definition consumer_delay :: "running_consumer \<Rightarrow> nat" where
  "consumer_delay c = min RESUBSCRIBE_MAX_MS (RESUBSCRIBE_BASE_MS * 2 ^ (co_failures c - 1))"

definition retryAfter :: "nat \<Rightarrow> running_consumer \<Rightarrow> running_consumer" where
  "retryAfter d c = (if co_closed c then c else c\<lparr>co_timer := Some d\<rparr>)"

definition consumer_begin :: "running_consumer \<Rightarrow> running_consumer" where
  "consumer_begin c = (if co_closed c then c else c\<lparr>co_attempting := True\<rparr>)"

text \<open>\<open>connect\<close> after its \<open>subscribe()\<close> settled; the subscriptions it closes are returned.\<close>

definition consumer_connected ::
  "thrown + nat \<Rightarrow> running_consumer \<Rightarrow> running_consumer \<times> nat list" where
  "consumer_connected res c =
     (let c = c\<lparr>co_attempting := False\<rparr> in
      case res of
        Inl (CapabilityDisabledError _ _) \<Rightarrow> (c\<lparr>co_state := Disabled\<rparr>, [])
      | Inl _ \<Rightarrow>
          (let c1 = c\<lparr>co_failures := co_failures c + 1, co_state := Retrying\<rparr> in
           (retryAfter (consumer_delay c1) c1, []))
      | Inr sub \<Rightarrow>
          if co_closed c then (c, [sub])
          else (c\<lparr>co_subscription := Some sub, co_failures := 0, co_state := Running\<rparr>, []))"

text \<open>\<open>sub.stopped\<close> settled.\<close>

definition consumer_stopped :: "nat \<Rightarrow> running_consumer \<Rightarrow> running_consumer" where
  "consumer_stopped sub c =
     (if co_closed c \<or> co_subscription c \<noteq> Some sub then c
      else let c1 = c\<lparr>co_subscription := None, co_state := Retrying, co_failures := co_failures c + 1\<rparr> in
        retryAfter (consumer_delay c1) c1)"

definition consumer_timer :: "running_consumer \<Rightarrow> running_consumer" where
  "consumer_timer c = consumer_begin (c\<lparr>co_timer := None\<rparr>)"

text \<open>\<open>close()\<close> up to its await, and after it.\<close>

definition consumer_close :: "running_consumer \<Rightarrow> running_consumer" where
  "consumer_close c = c\<lparr>co_closed := True, co_timer := None, co_closing := True\<rparr>"

definition consumer_closed :: "running_consumer \<Rightarrow> running_consumer \<times> nat list" where
  "consumer_closed c =
     (c\<lparr>co_subscription := None, co_closing := False\<rparr>,
      case co_subscription c of None \<Rightarrow> [] | Some sub \<Rightarrow> [sub])"

text \<open>\<open>EventConsumer\<close>: what it reports of its consumers.\<close>

record consumer_status =
  cs_topic :: string
  cs_subscription :: string
  cs_state :: consumer_state
  cs_failures :: nat

definition consumer_status_of :: "string \<Rightarrow> string \<Rightarrow> running_consumer \<Rightarrow> consumer_status" where
  "consumer_status_of t s c =
     \<lparr>cs_topic = t, cs_subscription = s, cs_state = co_state c, cs_failures = co_failures c\<rparr>"

definition show_consumer_state :: "consumer_state \<Rightarrow> string" where
  "show_consumer_state s =
     (case s of Starting \<Rightarrow> ''starting'' | Running \<Rightarrow> ''running'' | Retrying \<Rightarrow> ''retrying''
      | Disabled \<Rightarrow> ''disabled'')"

fun join_str :: "string \<Rightarrow> string list \<Rightarrow> string" where
  "join_str sep [] = []"
| "join_str sep [p] = p"
| "join_str sep (p # q # ps) = p @ sep @ join_str sep (q # ps)"

text \<open>\<open>None\<close> is \<open>capabilityUp\<close>, otherwise the detail of \<open>capabilityDown\<close>.\<close>

definition consumers_health :: "consumer_status list \<Rightarrow> string option" where
  "consumers_health sts =
     (let waiting = filter (\<lambda>c. cs_state c \<noteq> Running \<and> cs_state c \<noteq> Disabled) sts in
      if waiting = [] then None
      else Some (''not subscribed: '' @ join_str '', ''
        (map (\<lambda>c. cs_subscription c @ '' ('' @ show_consumer_state (cs_state c) @ '')'') waiting)))"

subsection \<open>Lookups\<close>

lemma map_of_rev_keys: "distinct (map fst xs) \<Longrightarrow> map_of (rev xs) = map_of xs"
  by (induction xs) (force simp: map_add_def fun_eq_iff dest: map_of_SomeD split: option.splits)+

lemma map_of_spread:
  assumes "distinct (map fst b)"
  shows "map_of (spread_properties a b) k = (case map_of b k of None \<Rightarrow> map_of a k | Some v \<Rightarrow> Some v)"
proof -
  have "map_of (spread_properties a b) = map_of a ++ map_of (rev b)"
    by (simp add: spread_properties_def updates_conv' map_upds_def zip_map_fst_snd)
  also have "map_of (rev b) = map_of b" using assms by (simp add: map_of_rev_keys)
  finally show ?thesis by (simp add: map_add_def split: option.splits)
qed

lemma map_of_attr_if: "map_of (attr_if n v) k = (if k = n then map_option JStr (nonempty v) else None)"
  by (auto simp: attr_if_def split: option.splits)

lemma map_of_prop_if: "map_of (prop_if n v) k = (if k = n then nonempty v else None)"
  by (auto simp: prop_if_def split: option.splits)

lemma set_prop_if: "fst ` set (prop_if n v) \<subseteq> {n}"
  by (auto simp: prop_if_def split: option.splits)

lemma js_str_case: "(case map_option JStr s of Some (JStr t) \<Rightarrow> Some t | _ \<Rightarrow> None) = s"
  by (cases s) auto

lemma env_str_create:
  "env_str (createEventEnvelope body a) k =
     (if k = ''specversion'' then Some EVENT_SPEC_VERSION
      else if k = ''id'' then Some (ea_id a)
      else if k = ''source'' then Some (if ea_source a = [] then UNKNOWN_EVENT_SOURCE else ea_source a)
      else if k = ''type'' then Some (ea_type a)
      else if k = ''time'' then Some (ea_time a)
      else if k = ''datacontenttype'' then Some (contentType (ea_datacontenttype a))
      else if k = ''schemaversion'' then Some (option_or (ea_schemaversion a) ENVELOPE_SCHEMA_VERSION)
      else if k = ''dataschema'' then nonempty (ea_dataschema a)
      else if k = ''tenantid'' then nonempty (ea_tenantid a)
      else if k = ''subject'' then nonempty (ea_subject a)
      else if k = ''traceparent'' then nonempty (ea_traceparent a)
      else if k = ''tracestate'' then nonempty (ea_tracestate a)
      else None)"
  unfolding env_str_def js_prop_def createEventEnvelope_def event_envelope.simps map_of_append map_add_def
  by (simp add: map_of_attr_if js_str_case split: option.splits)

lemma map_of_binary:
  "map_of (concat (map (\<lambda>attr. case f attr of Some v \<Rightarrow> [(p @ attr, v)] | None \<Rightarrow> []) as)) (p @ k) =
     (if k \<in> set as then f k else None)"
  by (induction as) (auto simp: map_add_def split: option.splits)

lemma fst_binary:
  "set (map fst (concat (map (\<lambda>attr. case f attr of Some v \<Rightarrow> [(p @ attr, v)] | None \<Rightarrow> []) as))) \<subseteq> (@) p ` set as"
  by (induction as) (auto split: option.splits)

lemma distinct_binary:
  "distinct as \<Longrightarrow> distinct (map fst (concat (map (\<lambda>attr. case f attr of Some v \<Rightarrow> [(p @ attr, v)] | None \<Rightarrow> []) as)))"
proof (induction as)
  case (Cons a as)
  then show ?case using fst_binary [where f = f and p = p and as = as] by (auto split: option.splits)
qed simp

lemma distinct_two_more:
  "distinct xs \<Longrightarrow> p \<notin> set xs \<Longrightarrow> q \<notin> set xs \<Longrightarrow> p \<noteq> q \<Longrightarrow> as = [] \<or> as = [p] \<Longrightarrow> bs = [] \<or> bs = [q]
   \<Longrightarrow> distinct (xs @ as @ bs)"
  by auto

lemma mem_two_more:
  "k \<in> set (xs @ as @ bs) \<Longrightarrow> as = [] \<or> as = [p] \<Longrightarrow> bs = [] \<or> bs = [q] \<Longrightarrow> k \<in> set xs \<or> k = p \<or> k = q"
  by auto

lemma envelopeToProperties_keys:
  "distinct (map fst (envelopeToProperties e))"
  "k \<in> fst ` set (envelopeToProperties e) \<Longrightarrow> starts_with ''ce_'' k \<or> k = ''traceparent'' \<or> k = ''tracestate''"
proof -
  define b where "b = concat (map (\<lambda>attr. case env_str e attr of
      Some v \<Rightarrow> [(EVENT_ATTRIBUTE_PREFIX @ attr, v)] | None \<Rightarrow> []) BINARY_ATTRIBUTES)"
  have sub: "fst ` set b \<subseteq> (@) ''ce_'' ` set BINARY_ATTRIBUTES"
    using fst_binary [where f = "env_str e" and p = EVENT_ATTRIBUTE_PREFIX and as = BINARY_ATTRIBUTES]
    unfolding b_def by (simp only: EVENT_ATTRIBUTE_PREFIX_def set_map)
  have ce: "\<forall>j \<in> set (map fst b). starts_with ''ce_'' j"
  proof
    fix j assume "j \<in> set (map fst b)"
    then have "j \<in> fst ` set b" unfolding set_map .
    then have "j \<in> (@) ''ce_'' ` set BINARY_ATTRIBUTES" by (rule subsetD [OF sub])
    then obtain k where j: "j = ''ce_'' @ k" by blast
    show "starts_with ''ce_'' j" unfolding j by (rule starts_with_append)
  qed
  have d: "distinct (map fst b)"
    unfolding b_def by (rule distinct_binary) (simp add: BINARY_ATTRIBUTES_def)
  have two: "map fst (prop_if n v) = [] \<or> map fst (prop_if n v) = [n]" for n v
    by (simp add: prop_if_def split: option.splits)
  have no: "\<not> starts_with ''ce_'' ''traceparent''" "\<not> starts_with ''ce_'' ''tracestate''"
    by (simp_all add: starts_with_def)
  have eq: "map fst (envelopeToProperties e) = map fst b
      @ map fst (prop_if ''traceparent'' (env_str e ''traceparent''))
      @ map fst (prop_if ''tracestate'' (env_str e ''tracestate''))"
    unfolding envelopeToProperties_def b_def by simp
  show "distinct (map fst (envelopeToProperties e))"
    unfolding eq by (rule distinct_two_more [OF d _ _ _ two two]) (use ce no in auto)
  show "starts_with ''ce_'' k \<or> k = ''traceparent'' \<or> k = ''tracestate''"
    if "k \<in> fst ` set (envelopeToProperties e)"
  proof -
    have "k \<in> set (map fst (envelopeToProperties e))" using that by simp
    from mem_two_more [OF this [unfolded eq] two two] show ?thesis using ce by blast
  qed
qed

lemma map_of_envelopeToProperties:
  "map_of (envelopeToProperties e) (''ce_'' @ k) = (if k \<in> set BINARY_ATTRIBUTES then env_str e k else None)"
  "map_of (envelopeToProperties e) ''traceparent'' = nonempty (env_str e ''traceparent'')"
  "map_of (envelopeToProperties e) ''tracestate'' = nonempty (env_str e ''tracestate'')"
proof -
  let ?f = "env_str e"
  have b: "map_of (concat (map (\<lambda>attr. case ?f attr of Some v \<Rightarrow> [(''ce_'' @ attr, v)] | None \<Rightarrow> []) as)) j = None"
    if "\<not> starts_with ''ce_'' j" for as j
    using fst_binary [where f = ?f and p = "''ce_''" and as = as] that by (force simp: map_of_eq_None_iff starts_with_def)
  show "map_of (envelopeToProperties e) (''ce_'' @ k) = (if k \<in> set BINARY_ATTRIBUTES then env_str e k else None)"
    using map_of_binary [where f = ?f and p = "''ce_''" and as = BINARY_ATTRIBUTES and k = k]
    unfolding envelopeToProperties_def EVENT_ATTRIBUTE_PREFIX_def map_of_append map_add_def map_of_prop_if
    by (auto split: option.splits)
  show "map_of (envelopeToProperties e) ''traceparent'' = nonempty (env_str e ''traceparent'')"
    "map_of (envelopeToProperties e) ''tracestate'' = nonempty (env_str e ''tracestate'')"
    unfolding envelopeToProperties_def EVENT_ATTRIBUTE_PREFIX_def map_of_append map_add_def map_of_prop_if
    by (simp_all add: b starts_with_def split: option.splits)
qed

lemma nonempty_idem [simp]: "nonempty (nonempty s) = nonempty s"
  by (cases "nonempty s") (auto simp: nonempty_def split: option.splits list.splits)

lemma attr_if_nonempty [simp]: "attr_if n (nonempty s) = attr_if n s"
  by (simp add: attr_if_def)

lemma contentType_idem [simp]: "contentType (Some (contentType v)) = contentType v"
  by (simp add: contentType_def EVENT_BINARY_CONTENT_TYPE_def EVENT_DATA_CONTENT_TYPE_def)

text \<open>Reading back an envelope built here, from any properties that agree with its own on the
  attribute names.\<close>

lemma envelope_from_own_properties:
  assumes e: "e = createEventEnvelope body a" and "ea_id a \<noteq> []" and "ea_type a \<noteq> []"
    and p: "\<And>k. map_of props (''ce_'' @ k) = map_of (envelopeToProperties e) (''ce_'' @ k)"
    and t: "map_of props ''traceparent'' = map_of (envelopeToProperties e) ''traceparent''"
      "map_of props ''tracestate'' = map_of (envelopeToProperties e) ''tracestate''"
  shows "envelopeFromProperties props d = Some (e\<lparr>env_data := d\<rparr>)"
proof -
  have b: "k \<in> set BINARY_ATTRIBUTES" if "k \<in> {''specversion'', ''id'', ''source'', ''type'', ''time'', ''subject'',
     ''datacontenttype'', ''dataschema'', ''tenantid'', ''schemaversion''}" for k
    using that by (simp add: BINARY_ATTRIBUTES_def)
  note lk = p [folded EVENT_ATTRIBUTE_PREFIX_def] map_of_envelopeToProperties [folded EVENT_ATTRIBUTE_PREFIX_def]
  have ne: "nonempty (Some s) = Some s" if "s \<noteq> []" for s using that by (cases s) auto
  have src: "option_or (nonempty (Some (if s = [] then UNKNOWN_EVENT_SOURCE else s))) UNKNOWN_EVENT_SOURCE =
      (if s = [] then UNKNOWN_EVENT_SOURCE else s)" for s
    by (cases s) (simp_all add: UNKNOWN_EVENT_SOURCE_def)
  show ?thesis
    unfolding envelopeFromProperties_def Let_def lk t
    using assms(2,3)
    by (simp add: b e env_str_create ne src) (simp add: createEventEnvelope_def)
qed

subsection \<open>Claims of one key\<close>

text \<open>The dedup port of a Redis server, with claims made at \<open>t0\<close> and settled at \<open>t1\<close>.\<close>

definition redis_dedup :: "'r redis_exec \<Rightarrow> 'r redis_pipe \<Rightarrow> nat \<Rightarrow> nat \<Rightarrow> 'r dedup_ops" where
  "redis_dedup exec pipe t0 t1 =
     \<lparr>do_claimMany = (\<lambda>ks ttl owner. claimMany exec pipe t0 ks ttl (Some owner)),
      do_releaseMany = (\<lambda>ks owner. releaseMany pipe t1 ks (Some owner)),
      do_extendMany = (\<lambda>ks ttl owner. extendMany pipe t1 ks ttl (Some owner))\<rparr>"

lemma pick_Nil [simp]: "pick [] bs = []"
  by (cases bs) simp_all

text \<open>\<open>once\<close> through the single-key operations.\<close>

lemma once_single:
  "once (redis_dedup exec pipe t0 t1) owner key work seen r =
     (case dedup_claim exec pipe t0 key CONSUMER_CLAIM_TTL_SECONDS (Some owner) r of
        (Inl e, r1) \<Rightarrow> (Inl e, r1)
      | (Inr False, r1) \<Rightarrow> (Inr False, r1)
      | (Inr True, r1) \<Rightarrow>
          (case work r1 of
             (Inl e, r2) \<Rightarrow> (Inl e, snd (dedup_release pipe t1 key (Some owner) r2))
           | (Inr _, r2) \<Rightarrow>
               (Inr True, snd (dedup_extend pipe t1 key (option_or seen CONSUMER_SEEN_TTL_SECONDS) (Some owner) r2))))"
proof -
  have p: "snd (first_answer x) = snd x" for x :: "(thrown + bool list) \<times> 'a"
    by (auto simp: first_answer_def split: prod.splits sum.splits list.splits)
  obtain out r1 where c: "claimMany exec pipe t0 [key] CONSUMER_CLAIM_TTL_SECONDS (Some owner) r = (out, r1)"
    by force
  have d: "dedup_claim exec pipe t0 key CONSUMER_CLAIM_TTL_SECONDS (Some owner) r =
      (case out of Inl e \<Rightarrow> Inl e | Inr [] \<Rightarrow> Inr False | Inr (b # _) \<Rightarrow> Inr b, r1)"
    using c by (auto simp: dedup_claim_def first_answer_def split: sum.splits list.splits)
  note defs = once_def onceEach_def redis_dedup_def Let_def c dedup_release_def dedup_extend_def p
  consider e where "out = Inl e" | "out = Inr []" | rest where "out = Inr (False # rest)"
    | rest where "out = Inr (True # rest)"
    by (metis (full_types) list.exhaust sum.exhaust)
  then show ?thesis
    by cases (simp_all add: defs d split: prod.splits sum.splits)
qed

text \<open>A server on which no call fails, unless a script in it does.\<close>

definition reliable :: "'r redis_pipe \<Rightarrow> bool" where
  "reliable pipe \<longleftrightarrow> (\<forall>now cs r. (\<forall>c \<in> set cs. \<forall>db. redis_apply now c db \<noteq> None) \<longrightarrow>
     (\<exists>reps r'. pipe now cs r = (Inr (Some reps), r') \<and> list_all (\<lambda>x. \<not> isl x) reps))"

lemma sure_run_reliable:
  "\<forall>c \<in> set cs. \<forall>db. redis_apply now c db \<noteq> None \<Longrightarrow> list_all (\<lambda>x. \<not> isl x) (fst (sure_run now cs db))"
proof (induction cs arbitrary: db)
  case (Cons c cs)
  then obtain rep db1 where "redis_apply now c db = Some (rep, db1)" by fastforce
  then show ?case using Cons.IH [of db1] Cons.prems
    by (cases "sure_run now cs db1") (auto simp: sure_exec_def split: prod.splits)
qed simp

lemma sure_pipe_reliable: "reliable sure_pipe"
proof -
  have "\<exists>reps r'. sure_pipe now cs r = (Inr (Some reps), r') \<and> list_all (\<lambda>x. \<not> isl x) reps"
    if "\<forall>c \<in> set cs. \<forall>db. redis_apply now c db \<noteq> None" for now cs r
    using sure_run_reliable [OF that, of r] by (cases "sure_run now cs r") (simp add: sure_pipe_def)
  then show ?thesis unfolding reliable_def by blast
qed

lemma answers_reliable: "list_all (\<lambda>x. \<not> isl x) reps \<Longrightarrow> \<exists>bs. answers ok reps = Inr bs"
  by (induction ok reps rule: answers.induct) auto

lemma first_failure_reliable: "list_all (\<lambda>x. \<not> isl x) reps \<Longrightarrow> first_failure reps = None"
  by (auto simp: first_failure_def list_all_iff find_None_iff split: option.splits)
    (metis find_Some_mem list_all_iff)

lemma reliable_one:
  assumes "reliable pipe" "\<forall>db. redis_apply now c db \<noteq> None"
  obtains reps r' where "pipe now [c] r = (Inr (Some reps), r')" "first_failure reps = None"
    "\<And>ok. \<exists>bs. answers ok reps = Inr bs"
proof -
  obtain reps r' where "pipe now [c] r = (Inr (Some reps), r')" "list_all (\<lambda>x. \<not> isl x) reps"
    using assms unfolding reliable_def by (metis empty_iff empty_set set_ConsD)
  then show thesis using that answers_reliable first_failure_reliable by blast
qed

lemma reliable_calls:
  assumes "reliable pipe" "positive_integer ttl"
  shows "\<exists>b r'. dedup_claim exec pipe now key ttl c r = (Inr b, r')"
    "\<exists>b r'. dedup_extend pipe now key ttl c r = (Inr b, r')"
    "\<exists>b r'. dedup_release pipe now key c r = (Inr b, r')"
proof -
  have f: "\<exists>b r'. first_answer (Inr bs, r1) = (Inr b, r')" for bs and r1 :: 'a
    by (cases bs) (auto simp: first_answer_def)
  let ?claim = "RSet key (option_or c ANONYMOUS_OWNER) (Some (1000 * as_nat ttl)) True"
  obtain reps r' where p: "pipe now [?claim] r = (Inr (Some reps), r')" "first_failure reps = None"
    and a: "\<And>ok. \<exists>bs. answers ok reps = Inr bs"
    by (rule reliable_one [OF assms(1), of now ?claim r]) simp_all
  obtain bs where "answers (\<lambda>x. x = ROk) reps = Inr bs" using a by blast
  then show "\<exists>b r'. dedup_claim exec pipe now key ttl c r = (Inr b, r')"
    using p assms(2) f
    by (simp add: dedup_claim_def claimMany_def Let_def assertPositiveInteger_def replies_or_none_def)
next
  have f: "\<exists>b r'. first_answer (Inr bs, r1) = (Inr b, r')" for bs and r1 :: 'a
    by (cases bs) (auto simp: first_answer_def)
  let ?ext = "case c of None \<Rightarrow> RExpire key (as_nat ttl) | Some w \<Rightarrow> REval (DEDUP_EXTEND_IF_OWNER key w (as_nat ttl))"
  obtain reps r' where p: "pipe now [?ext] r = (Inr (Some reps), r')"
    and a: "\<And>ok. \<exists>bs. answers ok reps = Inr bs"
    by (rule reliable_one [OF assms(1), of now ?ext r])
      (simp_all add: DEDUP_EXTEND_IF_OWNER_def split: option.split)
  obtain bs where "answers (\<lambda>x. x = RInt 1) reps = Inr bs" using a by blast
  then show "\<exists>b r'. dedup_extend pipe now key ttl c r = (Inr b, r')"
    using p assms(2) f
    by (simp add: dedup_extend_def extendMany_def Let_def assertPositiveInteger_def replies_or_none_def)
next
  have f: "\<exists>b r'. first_answer (Inr bs, r1) = (Inr b, r')" for bs and r1 :: 'a
    by (cases bs) (auto simp: first_answer_def)
  let ?rel = "case c of None \<Rightarrow> RDel [key] | Some w \<Rightarrow> REval (DEDUP_RELEASE_IF_OWNER key w)"
  obtain reps r' where p: "pipe now [?rel] r = (Inr (Some reps), r')"
    and a: "\<And>ok. \<exists>bs. answers ok reps = Inr bs"
    by (rule reliable_one [OF assms(1), of now ?rel r])
      (simp_all add: DEDUP_RELEASE_IF_OWNER_def split: option.split)
  obtain bs where "answers (\<lambda>x. x = RInt 1) reps = Inr bs" using a by blast
  then show "\<exists>b r'. dedup_release pipe now key c r = (Inr b, r')"
    using p f by (simp add: dedup_release_def releaseMany_def Let_def replies_or_none_def)
qed

context redis_server
begin

text \<open>The marker a run of \<open>once\<close> leaves, when the work does not touch it.\<close>

lemma once_runs:
  assumes "once (redis_dedup exec pipe t0 t1) owner key work seen r = (res, r')"
    and work: "\<And>r t. live t (view (snd (work r))) key = live t (view r) key"
    and "reliable pipe" "positive_integer (option_or seen CONSUMER_SEEN_TTL_SECONDS)"
    and "t0 \<le> t1" "t1 < t0 + 30000" "t1 \<le> t" "live t0 (view r) key = None"
  obtains r1 out r2 where "dedup_claim exec pipe t0 key 30 (Some owner) r = (Inr True, r1)" "work r1 = (out, r2)"
    "\<And>e. out = Inl e \<Longrightarrow> res = Inl e \<and> live t (view r') key = None"
    "\<And>u. out = Inr u \<Longrightarrow> res = Inr True \<and> live t (view r') key =
       (if t < t1 + 1000 * as_nat (option_or seen CONSUMER_SEEN_TTL_SECONDS) then Some owner else None)"
proof -
  have thirty: "positive_integer CONSUMER_CLAIM_TTL_SECONDS" "as_nat CONSUMER_CLAIM_TTL_SECONDS = 30"
    by (simp_all add: CONSUMER_CLAIM_TTL_SECONDS_def)
  obtain b r1 where c: "dedup_claim exec pipe t0 key CONSUMER_CLAIM_TTL_SECONDS (Some owner) r = (Inr b, r1)"
    using reliable_calls(1) [OF assms(3) thirty(1)] by blast
  have b: "b = True" using dedup.claim_lost [of t0 key CONSUMER_CLAIM_TTL_SECONDS "Some owner" r r1] c assms(8)
    by (cases b) auto
  have m1: "live t1 (view r1) key = Some owner"
    using dedup.claim_won [OF c [unfolded b]] assms(5,6) thirty by (simp add: marker_owner_def)
  obtain out r2 where w: "work r1 = (out, r2)" by force
  have m2: "live t1 (view r2) key = Some owner" using work [of t1 r1] w m1 by simp
  have con: "concerns (Some owner) (live t1 (view r2) key)" using m2 by (simp add: concerns_def)
  have fails: "res = Inl e \<and> live t (view r') key = None" if Inl: "out = Inl e" for e
  proof -
    obtain b2 r3 where rl: "dedup_release pipe t1 key (Some owner) r2 = (Inr b2, r3)"
      using reliable_calls(3) [OF assms(3) thirty(1)] by blast
    have "live t (view r3) key = None" using dedup.release_won [OF rl] con assms(7) by simp
    moreover have "res = Inl e" "r' = r3" using assms(1) c b w Inl rl by (simp_all add: once_single)
    ultimately show ?thesis by simp
  qed
  have succeeds: "res = Inr True \<and> live t (view r') key =
       (if t < t1 + 1000 * as_nat (option_or seen CONSUMER_SEEN_TTL_SECONDS) then Some owner else None)"
    if Inr: "out = Inr u" for u
  proof -
    obtain b2 r3 where ex: "dedup_extend pipe t1 key (option_or seen CONSUMER_SEEN_TTL_SECONDS) (Some owner) r2 = (Inr b2, r3)"
      using reliable_calls(2) [OF assms(3,4)] by blast
    have "live t (view r3) key =
       (if t < t1 + 1000 * as_nat (option_or seen CONSUMER_SEEN_TTL_SECONDS) then Some owner else None)"
      using dedup.extend_won [OF ex] con assms(7) m2 by simp
    moreover have "res = Inr True" "r' = r3" using assms(1) c b w Inr ex by (simp_all add: once_single)
    ultimately show ?thesis by simp
  qed
  show ?thesis by (rule that [OF c [unfolded b CONSUMER_CLAIM_TTL_SECONDS_def] w fails succeeds])
qed

lemma once_seen:
  assumes "once (redis_dedup exec pipe t0 t1) owner key work seen r = (res, r')"
    and "live t0 (view r) key \<noteq> None" and "reliable pipe"
  shows "res = Inr False \<and> (\<forall>t \<ge> t0. live t (view r') key = live t (view r) key)
    \<and> once (redis_dedup exec pipe t0 t1) owner key work' seen' r = (Inr False, r')"
proof -
  have thirty: "positive_integer CONSUMER_CLAIM_TTL_SECONDS"
    by (simp add: CONSUMER_CLAIM_TTL_SECONDS_def)
  obtain b r1 where c: "dedup_claim exec pipe t0 key CONSUMER_CLAIM_TTL_SECONDS (Some owner) r = (Inr b, r1)"
    using reliable_calls(1) [OF assms(3) thirty] by blast
  have b: "b = False" using dedup.claim_won [of t0 key CONSUMER_CLAIM_TTL_SECONDS "Some owner" r r1] c assms(2)
    by (cases b) auto
  have "live t (view r1) key = live t (view r) key" if "t0 \<le> t" for t
    using dedup.claim_keeps [OF c _ that, of key] assms(2) b by auto
  moreover have "res = Inr False" "r' = r1" using assms(1) c b by (simp_all add: once_single)
  moreover have "once (redis_dedup exec pipe t0 t1) owner key work' seen' r = (Inr False, r1)"
    using c b by (simp add: once_single)
  ultimately show ?thesis by simp
qed

end

subsection \<open>The life of a started consumer\<close>

text \<open>Runs of one consumer: its state, the subscriptions the broker keeps open for it, and those
  it ever made. A subscription may stop on its own at any time, and \<open>close()\<close> may come at any
  time, also while a subscribe call is in flight.\<close>

inductive consumer_run :: "running_consumer \<Rightarrow> nat set \<Rightarrow> nat set \<Rightarrow> bool" where
  start: "consumer_run (consumer_begin consumer_init) {} {}"
| connected: "consumer_run c alive used \<Longrightarrow> co_attempting c \<Longrightarrow> consumer_connected (Inl e) c = (c', ended)
    \<Longrightarrow> consumer_run c' alive used"
| subscribed: "consumer_run c alive used \<Longrightarrow> co_attempting c \<Longrightarrow> sub \<notin> used
    \<Longrightarrow> consumer_connected (Inr sub) c = (c', ended)
    \<Longrightarrow> consumer_run c' (insert sub alive - set ended) (insert sub used)"
| stopped: "consumer_run c alive used \<Longrightarrow> sub \<in> used
    \<Longrightarrow> consumer_run (consumer_stopped sub c) (alive - {sub}) used"
| timer: "consumer_run c alive used \<Longrightarrow> co_timer c \<noteq> None \<Longrightarrow> consumer_run (consumer_timer c) alive used"
| closing: "consumer_run c alive used \<Longrightarrow> consumer_run (consumer_close c) alive used"
| closed: "consumer_run c alive used \<Longrightarrow> co_closing c \<Longrightarrow> \<not> co_attempting c
    \<Longrightarrow> consumer_closed c = (c', ended) \<Longrightarrow> consumer_run c' (alive - set ended) used"

lemma consumer_delay_bounds: "1000 \<le> consumer_delay c \<and> consumer_delay c \<le> 30000"
  by (simp add: consumer_delay_def RESUBSCRIBE_MAX_MS_def RESUBSCRIBE_BASE_MS_def)

definition consumer_inv :: "running_consumer \<Rightarrow> nat set \<Rightarrow> nat set \<Rightarrow> bool" where
  "consumer_inv c alive used \<longleftrightarrow>
     alive \<subseteq> set_option (co_subscription c) \<and> set_option (co_subscription c) \<subseteq> used
     \<and> (co_subscription c \<noteq> None \<longrightarrow> co_timer c = None \<and> \<not> co_attempting c)
     \<and> (co_timer c \<noteq> None \<longrightarrow> \<not> co_attempting c \<and> \<not> co_closed c)
     \<and> (\<forall>d. co_timer c = Some d \<longrightarrow> 1000 \<le> d \<and> d \<le> 30000)
     \<and> (co_closing c \<longrightarrow> co_closed c)
     \<and> (co_closed c \<and> \<not> co_closing c \<longrightarrow> co_subscription c = None \<and> \<not> co_attempting c)
     \<and> (\<not> co_closed c \<longrightarrow>
          (co_state c = Running \<longleftrightarrow> co_subscription c \<noteq> None)
          \<and> (co_state c = Disabled \<longrightarrow> co_timer c = None \<and> \<not> co_attempting c)
          \<and> (co_subscription c \<noteq> None \<or> co_timer c \<noteq> None \<or> co_attempting c \<or> co_state c = Disabled))"

lemmas consumer_step_defs = consumer_begin_def consumer_connected_def consumer_stopped_def
  consumer_timer_def consumer_close_def consumer_closed_def retryAfter_def Let_def

lemma consumer_connected_failed:
  assumes "consumer_connected (Inl e) c = (c', ended)"
  shows "ended = [] \<and> (c' = c\<lparr>co_attempting := False, co_state := Disabled\<rparr>
    \<or> (\<exists>d n. 1000 \<le> d \<and> d \<le> 30000
         \<and> c' = retryAfter d (c\<lparr>co_attempting := False, co_failures := n, co_state := Retrying\<rparr>)))"
  using assms consumer_delay_bounds by (cases e) (fastforce simp: consumer_connected_def Let_def)+

lemma consumer_stopped_cases:
  "consumer_stopped sub c = c \<and> (co_closed c \<or> co_subscription c \<noteq> Some sub)
   \<or> \<not> co_closed c \<and> co_subscription c = Some sub \<and> (\<exists>d n. 1000 \<le> d \<and> d \<le> 30000
        \<and> consumer_stopped sub c = c\<lparr>co_subscription := None, co_state := Retrying, co_failures := n, co_timer := Some d\<rparr>)"
proof (cases "co_closed c \<or> co_subscription c \<noteq> Some sub")
  case True
  then show ?thesis by (simp add: consumer_stopped_def)
next
  case False
  then show ?thesis
    using consumer_delay_bounds [of "c\<lparr>co_subscription := None, co_state := Retrying, co_failures := co_failures c + 1\<rparr>"]
    by (simp add: consumer_stopped_def retryAfter_def Let_def) blast
qed

lemma consumer_run_inv: "consumer_run c alive used \<Longrightarrow> consumer_inv c alive used"
proof (induction rule: consumer_run.induct)
  case start
  then show ?case by (simp add: consumer_inv_def consumer_begin_def consumer_init_def)
next
  case (connected c alive used e c' ended)
  from consumer_connected_failed [OF connected(3)] show ?case
  proof (elim conjE disjE exE)
    assume "c' = c\<lparr>co_attempting := False, co_state := Disabled\<rparr>"
    then show ?thesis using connected(2,4) by (auto simp: consumer_inv_def)
  next
    fix d n assume "1000 \<le> d" "d \<le> 30000"
      "c' = retryAfter d (c\<lparr>co_attempting := False, co_failures := n, co_state := Retrying\<rparr>)"
    then show ?thesis using connected(2,4) by (cases "co_closed c") (auto simp: consumer_inv_def retryAfter_def)
  qed
next
  case (subscribed c alive used sub c' ended)
  then show ?case by (auto simp: consumer_inv_def consumer_step_defs split: if_splits)
next
  case (stopped c alive used sub)
  from consumer_stopped_cases [of sub c] show ?case
  proof (elim conjE disjE exE)
    fix d n assume "\<not> co_closed c" "co_subscription c = Some sub" "1000 \<le> d" "d \<le> 30000"
      "consumer_stopped sub c = c\<lparr>co_subscription := None, co_state := Retrying, co_failures := n, co_timer := Some d\<rparr>"
    then show ?thesis using stopped(3) by (auto simp: consumer_inv_def)
  next
    assume eq: "consumer_stopped sub c = c"
    show ?thesis unfolding eq using stopped(3) unfolding consumer_inv_def by blast
  next
    assume eq: "consumer_stopped sub c = c"
    show ?thesis unfolding eq using stopped(3) unfolding consumer_inv_def by blast
  qed
next
  case (timer c alive used)
  then show ?case by (auto simp: consumer_inv_def consumer_step_defs)
next
  case (closing c alive used)
  let ?c = "consumer_close c"
  have eqs: "co_subscription ?c = co_subscription c" "co_timer ?c = None" "co_attempting ?c = co_attempting c"
    "co_closed ?c" "co_closing ?c"
    by (simp_all add: consumer_close_def)
  have "alive \<subseteq> set_option (co_subscription c)" "set_option (co_subscription c) \<subseteq> used"
    "co_subscription c \<noteq> None \<longrightarrow> \<not> co_attempting c"
    using closing(2) unfolding consumer_inv_def by blast+
  then show ?case by (simp add: consumer_inv_def eqs)
next
  case (closed c alive used c' ended)
  then show ?case by (auto simp: consumer_inv_def consumer_step_defs split: option.splits)
qed

subsection \<open>Properties\<close>

text \<open>C23: The wire form loses nothing. What a consumer decodes from a published message is the
  envelope its publisher built: the same attributes in the same order, and for an object
  payload the same data; the body the handler gets is the payload as sent.\<close>

theorem published_envelope_round_trip:
  assumes "m = encodeOutgoing stringify c p opts"
    and "\<forall>s. p = PayObj s \<longrightarrow> parse (stringify (JObj s)) = Some (JObj s)"
    and "pc_uuid c \<noteq> []"
    and "\<forall>po. opts = Some po \<longrightarrow> at_id (po_event po) \<noteq> Some [] \<and> at_type (po_event po) \<noteq> Some []
      \<and> (\<forall>k \<in> fst ` set (po_properties po). \<not> starts_with ''ce_'' k
           \<and> k \<notin> {''traceparent'', ''tracestate'', ''content-type''})"
  shows "case decodeIncoming stringify parse uuid now (og_data m) (og_properties m) of
     (body, e) \<Rightarrow> body = og_data m \<and> env_attrs e = env_attrs (og_envelope m)
       \<and> (\<forall>s. p = PayObj s \<longrightarrow> e = og_envelope m)"
proof -
  define ev where "ev = (case opts of None \<Rightarrow> no_event_attributes | Some po \<Rightarrow> po_event po)"
  define ps where "ps = (case opts of None \<Rightarrow> [] | Some po \<Rightarrow> po_properties po)"
  have e: "og_envelope m = outgoing_envelope c p ev"
    and props: "og_properties m = spread_properties ps (envelopeToProperties (og_envelope m))"
    by (simp_all add: assms(1) encodeOutgoing_def Let_def ev_def ps_def)
  have ids: "at_id ev \<noteq> Some []" "at_type ev \<noteq> Some []"
    and own: "\<And>k. k \<in> fst ` set ps \<Longrightarrow> \<not> starts_with ''ce_'' k \<and> k \<notin> {''traceparent'', ''tracestate'', ''content-type''}"
    using assms(4) by (auto simp: ev_def ps_def no_event_attributes_def split: option.splits)
  let ?b = "envelopeToProperties (og_envelope m)"
  have sp: "map_of (og_properties m) k = (case map_of ?b k of None \<Rightarrow> map_of ps k | Some v \<Rightarrow> Some v)" for k
    unfolding props by (rule map_of_spread [OF envelopeToProperties_keys(1)])
  have none: "map_of ps k = None" if "starts_with ''ce_'' k \<or> k \<in> {''traceparent'', ''tracestate'', ''content-type''}" for k
    using own that by (meson map_of_eq_None_iff)
  have same: "map_of (og_properties m) k = map_of ?b k" if "starts_with ''ce_'' k \<or> k = ''traceparent'' \<or> k = ''tracestate''" for k
    using sp [of k] none [of k] that by (auto split: option.splits)
  define a where "a = \<lparr>ea_id = option_or (at_id ev) (pc_uuid c),
        ea_source = option_or (at_source ev) EVENT_SOURCE,
        ea_type = option_or (at_type ev) DEFAULT_EVENT_TYPE,
        ea_time = option_or (at_time ev) (pc_now c),
        ea_tenantid = (case at_tenantId ev of None \<Rightarrow> pc_tenant c | t \<Rightarrow> t),
        ea_subject = at_subject ev,
        ea_schemaversion = at_schemaVersion ev,
        ea_dataschema = None,
        ea_datacontenttype = (case p of PayBytes _ \<Rightarrow> Some EVENT_BINARY_CONTENT_TYPE | _ \<Rightarrow> None),
        ea_traceparent = pc_traceparent c,
        ea_tracestate = pc_tracestate c\<rparr>"
  have ea: "og_envelope m = createEventEnvelope (case p of PayBytes _ \<Rightarrow> None | PayObj s \<Rightarrow> Some (BodyJson (JObj s))) a"
    unfolding e outgoing_envelope_def a_def ..
  have ne: "ea_id a \<noteq> []" "ea_type a \<noteq> []"
    using ids assms(3) by (auto simp: a_def option_or_def DEFAULT_EVENT_TYPE_def split: option.splits)
  have readback: "envelopeFromProperties (og_properties m) d = Some ((og_envelope m)\<lparr>env_data := d\<rparr>)" for d
    by (rule envelope_from_own_properties [OF ea ne]) (rule same, simp add: starts_with_def)+
  have "''content-type'' \<notin> fst ` set ?b"
    using envelopeToProperties_keys(2) [of "''content-type''" "og_envelope m"] by (auto simp: starts_with_def)
  then have "map_of ?b ''content-type'' = None" by (simp only: map_of_eq_None_iff simp_thms)
  moreover have "map_of ps ''content-type'' = None" by (rule none) simp
  ultimately have ct: "map_of (og_properties m) ''content-type'' = None"
    unfolding sp by (simp only: option.case)
  have "map_of (og_properties m) ''ce_specversion'' = Some EVENT_SPEC_VERSION"
    using same [of "''ce_specversion''"] map_of_envelopeToProperties(1) [of "og_envelope m" "''specversion''"]
    by (simp add: starts_with_def BINARY_ATTRIBUTES_def ea env_str_create)
  then have dec: "decodeIncoming stringify parse uuid now (og_data m) (og_properties m) =
      (og_data m, (og_envelope m)\<lparr>env_data := Some (case parse (og_data m) of None \<Rightarrow> BodyBytes (og_data m)
         | Some j \<Rightarrow> if j = JNull then BodyBytes (og_data m) else BodyJson j)\<rparr>)"
    using ct by (simp add: decodeIncoming_def Let_def readback)
  have "og_data m = stringify (JObj s)" "env_data (og_envelope m) = Some (BodyJson (JObj s))" if "p = PayObj s" for s
    by (simp add: assms(1) encodeOutgoing_def Let_def that) (simp add: ea createEventEnvelope_def that)
  then show ?thesis using dec assms(2) by (cases p) simp_all
qed

definition example_context :: publish_context where
  "example_context = \<lparr>pc_uuid = ''u1'', pc_now = ''2026-01-01T00:00:00.000Z'', pc_tenant = Some ''acme'',
     pc_traceparent = None, pc_tracestate = None\<rparr>"

lemma published_envelope_round_trip_witness:
  "env_str (snd (decodeIncoming (\<lambda>_. ''{}'') (\<lambda>_. Some (JObj [])) ''x'' ''n''
      (og_data (encodeOutgoing (\<lambda>_. ''{}'') example_context (PayObj []) None))
      (og_properties (encodeOutgoing (\<lambda>_. ''{}'') example_context (PayObj []) None)))) ''tenantid'' = Some ''acme''"
proof -
  let ?m = "encodeOutgoing (\<lambda>_. ''{}'') example_context (PayObj []) None"
  have "snd (decodeIncoming (\<lambda>_. ''{}'') (\<lambda>_. Some (JObj [])) ''x'' ''n'' (og_data ?m) (og_properties ?m)) = og_envelope ?m"
    using published_envelope_round_trip [OF refl, of "PayObj []" "\<lambda>_. Some (JObj [])" "\<lambda>_. ''{}''" example_context None
      "''x''" "''n''"]
    by (simp add: example_context_def split: prod.splits)
  then show ?thesis
    by (simp add: encodeOutgoing_def Let_def outgoing_envelope_def env_str_create no_event_attributes_def
      example_context_def)
qed

text \<open>A consumer handles an event only in the tenant its envelope names: without a valid
  tenant the delivery fails with TENANT_REQUIRED and is redelivered; data that names another
  tenant is dropped; a body that is not an object fails; every other event is handed over once,
  in that tenant.\<close>

theorem consumed_event_bound_to_its_tenant:
  "consumeEnveloped stringify parse uuid now raw props (consumer_handler handle) None w =
     (let e = snd (decodeIncoming stringify parse uuid now raw props) in
      case env_data e of
        Some (BodyJson (JObj ps)) \<Rightarrow>
          (case env_str e ''tenantid'' of
             Some t \<Rightarrow>
               if \<not> isTenantId t then (Inl (app_error TENANT_REQUIRED), w)
               else if \<exists>t'. js_prop ps ''tenantId'' = Some (JStr t') \<and> t' \<noteq> t then (Inr (), w)
               else handle ps e t w
           | None \<Rightarrow> (Inl (app_error TENANT_REQUIRED), w))
      | _ \<Rightarrow> (Inl (PlainError ''Error'' ''Message body is not a JSON object'' []), w))"
proof -
  have ne: "isTenantId t \<Longrightarrow> t \<noteq> []" for t by (auto simp: isTenantId_def)
  have one: "(case js_prop ps k of Some (JStr t') \<Rightarrow> if t' \<noteq> t then x else y | _ \<Rightarrow> y) =
      (if \<exists>t'. js_prop ps k = Some (JStr t') \<and> t' \<noteq> t then x else y)" for ps k t and x y :: 'b
    by (auto split: option.splits json.splits)
  show ?thesis
    by (auto simp: consumeEnveloped_def consumer_handler_def envelope_tenant_def requireTenant_def currentTenant_def
      Let_def one ne split: prod.splits option.splits msg_body.splits json.splits)
qed

text \<open>C20: On a server whose calls succeed, \<open>once\<close> settles an event by the outcome of its work. With no
  marker on the key it claims it for thirty seconds and runs the work: when the work throws, \<open>once\<close> throws the
  same error and leaves no marker, so a redelivery runs it again; when the work succeeds within the claim,
  \<open>once\<close> answers true and leaves its marker for the seen window, in which every further attempt answers false
  whatever its work. With a marker on the key it answers false, leaves the marker as it was, and its work is not
  run: another work gives the same answer and the same store.\<close>

theorem once_commits_or_releases:
  assumes "redis_server exec pipe view" and "reliable pipe"
    and "once (redis_dedup exec pipe t0 t1) owner key work seen r = (res, r')"
    and "\<forall>r t. live t (view (snd (work r))) key = live t (view r) key"
    and "positive_integer (option_or seen CONSUMER_SEEN_TTL_SECONDS)"
    and "t0 \<le> t1" and "t1 < t0 + 30000" and "t1 \<le> t2"
  shows "if live t0 (view r) key = None
    then \<exists>r1. dedup_claim exec pipe t0 key 30 (Some owner) r = (Inr True, r1)
      \<and> (case fst (work r1) of
           Inl e \<Rightarrow> res = Inl e \<and> live t2 (view r') key = None
         | Inr _ \<Rightarrow> res = Inr True
             \<and> live t2 (view r') key
                 = (if t2 < t1 + 1000 * as_nat (option_or seen CONSUMER_SEEN_TTL_SECONDS) then Some owner else None)
             \<and> (t2 < t1 + 1000 * as_nat (option_or seen CONSUMER_SEEN_TTL_SECONDS) \<longrightarrow>
                  fst (once (redis_dedup exec pipe t2 t3) owner2 key work2 seen2 r') = Inr False))
    else res = Inr False \<and> live t2 (view r') key = live t2 (view r) key
      \<and> once (redis_dedup exec pipe t0 t1) owner key work2 seen2 r = (Inr False, r')"
proof (cases "live t0 (view r) key = None")
  case True
  obtain r1 out r2 where ran: "dedup_claim exec pipe t0 key 30 (Some owner) r = (Inr True, r1)" "work r1 = (out, r2)"
    "\<And>e. out = Inl e \<Longrightarrow> res = Inl e \<and> live t2 (view r') key = None"
    "\<And>u. out = Inr u \<Longrightarrow> res = Inr True \<and> live t2 (view r') key =
       (if t2 < t1 + 1000 * as_nat (option_or seen CONSUMER_SEEN_TTL_SECONDS) then Some owner else None)"
    by (rule redis_server.once_runs [OF assms(1,3) _ assms(2,5-8) True]) (use assms(4) in blast)+
  have again: "fst (once (redis_dedup exec pipe t2 t3) owner2 key work2 seen2 r') = Inr False"
    if "live t2 (view r') key \<noteq> None"
    using redis_server.once_seen [OF assms(1) prod.collapse [symmetric] that assms(2)] by blast
  show ?thesis
  proof (cases out)
    case (Inl e)
    then show ?thesis using True ran(1,2) ran(3) [OF Inl] by simp
  next
    case (Inr u)
    then show ?thesis using True ran(1,2) ran(4) [OF Inr] again by simp
  qed
next
  case False
  have "res = Inr False \<and> live t2 (view r') key = live t2 (view r) key
      \<and> once (redis_dedup exec pipe t0 t1) owner key work2 seen2 r = (Inr False, r')"
    using redis_server.once_seen [OF assms(1,3) False assms(2), of work2 seen2] assms(6,8) by (metis le_trans)
  then show ?thesis by (subst if_not_P [OF False])
qed

lemma once_commits_or_releases_witness:
  "\<exists>r'. once (redis_dedup sure_exec sure_pipe 0 1000) ''a'' ''k'' (\<lambda>r. (Inl (NonError JNull), r)) None (\<lambda>_. None)
      = (Inl (NonError JNull), r') \<and> live 2000 r' ''k'' = None"
proof -
  let ?o = "once (redis_dedup sure_exec sure_pipe 0 1000) ''a'' ''k'' (\<lambda>r. (Inl (NonError JNull), r)) None (\<lambda>_. None)"
  have pos: "positive_integer (option_or None CONSUMER_SEEN_TTL_SECONDS)" by (simp add: CONSUMER_SEEN_TTL_SECONDS_def)
  have "fst ?o = Inl (NonError JNull) \<and> live 2000 (snd ?o) ''k'' = None"
    using once_commits_or_releases [OF sure.redis_server_axioms sure_pipe_reliable prod.collapse [symmetric],
      where key = "''k''" and work = "\<lambda>r. (Inl (NonError JNull), r)" and seen = None and ?t0.0 = 0 and ?t1.0 = 1000
        and ?t2.0 = 2000 and owner = "''a''" and r = "\<lambda>_. None"] pos
    by (auto simp: store_simps split: if_splits)
  then show ?thesis by (intro exI [of _ "snd ?o"]) (metis prod.collapse)
qed

text \<open>C24: A started consumer is never silently idle and never holds two subscriptions: until it
  is closed it is subscribed, waits between one and thirty seconds to subscribe again, has a
  subscribe call in flight, or found messaging switched off; it reports running exactly while
  it is subscribed; and once \<open>close()\<close> has returned nothing of it is left.\<close>

theorem consumer_never_idle_nor_leaking:
  assumes "consumer_run c alive used"
  shows "card alive \<le> 1
    \<and> (\<not> co_closed c \<longrightarrow>
         (co_state c = Running \<longleftrightarrow> co_subscription c \<noteq> None)
         \<and> (co_subscription c \<noteq> None \<or> (\<exists>d. co_timer c = Some d \<and> 1000 \<le> d \<and> d \<le> 30000)
            \<or> co_attempting c \<or> co_state c = Disabled))
    \<and> (co_closed c \<and> \<not> co_closing c \<longrightarrow> alive = {} \<and> co_timer c = None \<and> \<not> co_attempting c)"
proof -
  have i: "consumer_inv c alive used" by (rule consumer_run_inv [OF assms])
  then have "alive = {} \<or> (\<exists>s. alive = {s})" by (cases "co_subscription c") (auto simp: consumer_inv_def)
  then have "card alive \<le> 1" by auto
  moreover have "co_timer c = None \<or> (\<exists>d. co_timer c = Some d \<and> 1000 \<le> d \<and> d \<le> 30000)"
    using i by (cases "co_timer c") (simp_all add: consumer_inv_def)
  moreover have "co_closed c \<and> \<not> co_closing c \<longrightarrow> alive = {} \<and> co_timer c = None \<and> \<not> co_attempting c"
    using i unfolding consumer_inv_def by (metis option.set(1) subset_empty)
  moreover have "\<not> co_closed c \<longrightarrow> (co_state c = Running \<longleftrightarrow> co_subscription c \<noteq> None)
      \<and> (co_subscription c \<noteq> None \<or> co_timer c \<noteq> None \<or> co_attempting c \<or> co_state c = Disabled)"
    using i unfolding consumer_inv_def by blast
  ultimately show ?thesis by force
qed

lemma consumer_never_idle_nor_leaking_witness:
  "\<exists>c. co_closed c \<and> co_timer c = None \<and> consumer_run c {} {4}"
proof -
  let ?c1 = "fst (consumer_connected (Inr 4) (consumer_begin consumer_init))"
  let ?c2 = "fst (consumer_closed (consumer_close ?c1))"
  have "consumer_run ?c1 (insert 4 {} - set []) (insert 4 {})"
    by (rule consumer_run.subscribed [OF consumer_run.start]) (simp_all add: consumer_step_defs consumer_init_def)
  then have "consumer_run (consumer_close ?c1) {4} {4}" by (simp add: consumer_run.closing)
  then have r: "consumer_run ?c2 ({4} - set [4]) {4}"
    by (rule consumer_run.closed) (simp_all add: consumer_step_defs consumer_init_def)
  have "co_closed ?c2" "\<not> co_closing ?c2" by (simp_all add: consumer_step_defs consumer_init_def)
  then show ?thesis using consumer_never_idle_nor_leaking [OF r] r by auto
qed

end
