(* ===== verification/Relay.thy ===== *)
theory Relay
  imports Outbox Messaging "HOL-Library.Multiset"
begin

text \<open>
  The outbox relay, \<open>infrastructure/outbox/outbox.relay.ts\<close>: it takes the lease of one due
  aggregate at a time and publishes that aggregate's open rows in order.

  The database, the lock port, the broker, the clock and the random choice are the fields of
  \<open>relay_env\<close>, all on one state of the world, so other instances and writers may act between
  any two calls. The instance's own fields and the metrics it exports are \<open>relay_state\<close> (the
  heartbeat gauge in milliseconds); log lines are left out.
\<close>

subsection \<open>Constants\<close>

definition OUTBOX_AGGREGATE_LEASE :: key_builder where
  "OUTBOX_AGGREGATE_LEASE =
     \<lparr>kb_spec = \<lparr>capability = ''lock'', key_module = ''outbox'', key_name = ''aggregate'', version = ''v1''\<rparr>,
      kb_fixed = None\<rparr>"

definition OUTBOX_PUBLISH_TIMEOUT_MS :: nat where "OUTBOX_PUBLISH_TIMEOUT_MS = 30000"
definition AGGREGATE_LEASE_TTL_MS :: nat where "AGGREGATE_LEASE_TTL_MS = 45000"
definition LEASE_RENEW_INTERVAL_MS :: nat where "LEASE_RENEW_INTERVAL_MS = 5000"
definition OUTBOX_POLL_INTERVAL_MS :: nat where "OUTBOX_POLL_INTERVAL_MS = 5000"
definition OUTBOX_REPOLL_DELAY_MS :: nat where "OUTBOX_REPOLL_DELAY_MS = 10"
definition BACKLOG_GAUGE_INTERVAL_MS :: nat where "BACKLOG_GAUGE_INTERVAL_MS = 60000"
definition AGGREGATES_PER_POLL :: nat where "AGGREGATES_PER_POLL = 50"
definition CANDIDATES_PER_POLL :: nat where "CANDIDATES_PER_POLL = 200"
definition ROWS_PER_AGGREGATE :: nat where "ROWS_PER_AGGREGATE = 20"
definition OUTBOX_EVENT_SOURCE :: string where "OUTBOX_EVENT_SOURCE = ''/tropis/backend/outbox''"

lemma OUTBOX_AGGREGATE_LEASE_defined: "defineKey (kb_spec OUTBOX_AGGREGATE_LEASE) = Inr OUTBOX_AGGREGATE_LEASE"
  by code_simp

subsection \<open>The environment\<close>

text \<open>How a call to the broker ends: settled, or not before the timer of \<open>withTimeout\<close> fires.\<close>

datatype broker_outcome = Settled "thrown + unit" | NoAnswer

record outbox_message =
  om_topic :: string
  om_payload :: msg_payload
  om_options :: publish_options

record 'w relay_env =
  re_exec :: "'w db_exec"
  re_clock :: "'w \<Rightarrow> nat"
  re_retentionMs :: nat
  re_vars :: "string \<Rightarrow> string option"
  re_iso :: "nat \<Rightarrow> string"
  re_message :: "thrown \<Rightarrow> string"
  re_draw :: "'w \<Rightarrow> nat \<Rightarrow> nat"
  re_stopping :: "'w \<Rightarrow> bool"
  re_acquire :: "string \<Rightarrow> nat \<Rightarrow> 'w \<Rightarrow> (thrown + lease option) \<times> 'w"
  re_renew :: "lease \<Rightarrow> nat \<Rightarrow> 'w \<Rightarrow> (thrown + bool) \<times> 'w"
  re_release :: "lease \<Rightarrow> 'w \<Rightarrow> (thrown + bool) \<times> 'w"
  re_publish :: "outbox_message \<Rightarrow> 'w \<Rightarrow> broker_outcome \<times> 'w"

record relay_state =
  rs_headsRepaired :: bool
  rs_disabledLogged :: bool
  rs_published :: nat
  rs_failed :: nat
  rs_dead :: nat
  rs_lastPoll :: "nat option"
  rs_backlog :: "(outbox_status \<times> nat) list"

definition relay_init :: relay_state where
  "relay_init = \<lparr>rs_headsRepaired = False, rs_disabledLogged = False, rs_published = 0, rs_failed = 0,
     rs_dead = 0, rs_lastPoll = None, rs_backlog = []\<rparr>"

subsection \<open>One row\<close>

text \<open>The CloudEvents attributes of a row; its stored trace context becomes the ambient one of the
  publish, which the wire form reads.\<close>

definition eventAttributesOf :: "(nat \<Rightarrow> string) \<Rightarrow> outbox_row \<Rightarrow> event_attributes" where
  "eventAttributesOf isoDate r =
     (let ev = event r in
      \<lparr>at_id = Some (oe_id ev), at_type = Some (oe_type ev),
       at_subject = Some (option_or (oe_subject ev) (aggregateId r)),
       at_tenantId = Some (oe_tenantId ev), at_schemaVersion = Some (oe_schemaVersion ev),
       at_source = Some OUTBOX_EVENT_SOURCE, at_time = Some (isoDate (oe_time ev))\<rparr>)"

definition outbox_message_of :: "(nat \<Rightarrow> string) \<Rightarrow> outbox_row \<Rightarrow> outbox_message" where
  "outbox_message_of isoDate r =
     \<lparr>om_topic = topic r, om_payload = PayObj (payload r),
      om_options = \<lparr>po_properties = [], po_event = eventAttributesOf isoDate r, po_key = Some (aggregateId r)\<rparr>\<rparr>"

definition withTimeout :: "broker_outcome \<Rightarrow> nat \<Rightarrow> thrown + unit" where
  "withTimeout out ms =
     (case out of
        Settled r \<Rightarrow> r
      | NoAnswer \<Rightarrow> Inl (PlainError ''Error'' (''Publish timed out after '' @ show_nat ms @ ''ms'') []))"

definition isDue :: "outbox_row \<Rightarrow> nat \<Rightarrow> bool" where
  "isDue r now \<longleftrightarrow>
     (status r = PENDING
      \<or> status r = FAILED \<and> (case nextAttemptAt r of None \<Rightarrow> True | Some d \<Rightarrow> d \<le> now))"

datatype publish_outcome = Published | PublishFailed | PublishDisabled

definition recordFailure ::
  "'w relay_env \<Rightarrow> outbox_row \<Rightarrow> thrown \<Rightarrow> relay_state \<Rightarrow> 'w \<Rightarrow> relay_state \<times> 'w" where
  "recordFailure env r err s w =
     (case markFailed (re_exec env) (re_clock env) r (re_message env err) MAX_ATTEMPTS w of
        (Inl _, w') \<Rightarrow> (s, w')
      | (Inr None, w') \<Rightarrow> (s, w')
      | (Inr (Some st), w') \<Rightarrow>
          (if st = DEAD then s\<lparr>rs_dead := rs_dead s + 1\<rparr> else s\<lparr>rs_failed := rs_failed s + 1\<rparr>, w'))"

definition relay_publish ::
  "'w relay_env \<Rightarrow> outbox_row \<Rightarrow> relay_state \<Rightarrow> 'w \<Rightarrow> publish_outcome \<times> relay_state \<times> 'w" where
  "relay_publish env r s w =
     (case re_publish env (outbox_message_of (re_iso env) r) w of
        (out, w1) \<Rightarrow>
          (case withTimeout out OUTBOX_PUBLISH_TIMEOUT_MS of
             Inl (CapabilityDisabledError _ _) \<Rightarrow> (PublishDisabled, s\<lparr>rs_disabledLogged := True\<rparr>, w1)
           | Inl err \<Rightarrow> (PublishFailed, recordFailure env r err s w1)
           | Inr _ \<Rightarrow>
               (let s1 = s\<lparr>rs_published := rs_published s + 1\<rparr> in
                case markDispatched (re_exec env) (re_clock env) (re_retentionMs env) (row_id r) w1 of
                  (Inl _, w2) \<Rightarrow> (PublishFailed, s1, w2)
                | (Inr _, w2) \<Rightarrow> (Published, s1, w2))))"

text \<open>\<open>withRenewal\<close>: the heartbeat renews once per interval while the work runs. Its renewals are
  placed after the work, which does not look at the lease.\<close>

primrec heartbeats :: "'w relay_env \<Rightarrow> lease \<Rightarrow> nat \<Rightarrow> 'w \<Rightarrow> 'w" where
  "heartbeats env l 0 w = w"
| "heartbeats env l (Suc n) w = heartbeats env l n (snd (re_renew env l AGGREGATE_LEASE_TTL_MS w))"

definition withRenewal ::
  "'w relay_env \<Rightarrow> lease \<Rightarrow> ('w \<Rightarrow> publish_outcome \<times> relay_state \<times> 'w) \<Rightarrow> 'w
   \<Rightarrow> publish_outcome \<times> relay_state \<times> 'w" where
  "withRenewal env l work w =
     (case work w of (out, s, w') \<Rightarrow>
        (out, s, heartbeats env l ((re_clock env w' - re_clock env w) div LEASE_RENEW_INTERVAL_MS) w'))"

subsection \<open>One aggregate\<close>

datatype aggregate_outcome = Held | Relayed | Drained | LockDown | MessagingDisabled

text \<open>The loop over at most \<open>n\<close> rows, under the lease.\<close>

fun relay_rows ::
  "'w relay_env \<Rightarrow> string \<Rightarrow> lease \<Rightarrow> nat \<Rightarrow> relay_state \<Rightarrow> 'w
   \<Rightarrow> (thrown + aggregate_outcome) \<times> relay_state \<times> 'w" where
  "relay_rows env agg l 0 s w = (Inr Drained, s, w)"
| "relay_rows env agg l (Suc n) s w =
     (case headOf (re_exec env) agg w of
        (Inl e, w1) \<Rightarrow> (Inl e, s, w1)
      | (Inr None, w1) \<Rightarrow> (Inr Relayed, s, w1)
      | (Inr (Some r), w1) \<Rightarrow>
          if \<not> isDue r (re_clock env w1) then (Inr Relayed, s, w1)
          else case re_renew env l AGGREGATE_LEASE_TTL_MS w1 of (renewed, w2) \<Rightarrow>
            if renewed \<noteq> Inr True then (Inr Relayed, s, w2)
            else case withRenewal env l (relay_publish env r s) w2 of
              (PublishDisabled, s1, w3) \<Rightarrow> (Inr MessagingDisabled, s1, w3)
            | (PublishFailed, s1, w3) \<Rightarrow> (Inr Relayed, s1, w3)
            | (Published, s1, w3) \<Rightarrow> relay_rows env agg l n s1 w3)"

text \<open>A key that cannot be built throws inside the \<open>try\<close> that acquires the lease.\<close>

definition relayAggregate ::
  "'w relay_env \<Rightarrow> string \<Rightarrow> relay_state \<Rightarrow> 'w \<Rightarrow> (thrown + aggregate_outcome) \<times> relay_state \<times> 'w" where
  "relayAggregate env agg s w =
     (case global OUTBOX_AGGREGATE_LEASE (re_vars env) [agg] of
        Inl _ \<Rightarrow> (Inr LockDown, s, w)
      | Inr key \<Rightarrow>
          (case re_acquire env key AGGREGATE_LEASE_TTL_MS w of
             (Inl _, w1) \<Rightarrow> (Inr LockDown, s, w1)
           | (Inr None, w1) \<Rightarrow> (Inr Held, s, w1)
           | (Inr (Some l), w1) \<Rightarrow>
               (case relay_rows env agg l ROWS_PER_AGGREGATE s w1 of
                  (res, s1, w2) \<Rightarrow>
                    (res, s1, snd (re_release env l (snd (settleHead (re_exec env) (re_clock env) agg w2)))))))"

subsection \<open>One poll\<close>

text \<open>Fisher-Yates from the last place down; \<open>draw i\<close> is \<open>Math.floor(Math.random() * (i + 1))\<close>.\<close>

fun shuffle_down :: "(nat \<Rightarrow> nat) \<Rightarrow> nat \<Rightarrow> 'a list \<Rightarrow> 'a list" where
  "shuffle_down draw 0 xs = xs"
| "shuffle_down draw (Suc i) xs =
     (let j = draw (Suc i) mod Suc (Suc i) in
      shuffle_down draw i (xs[Suc i := xs ! j, j := xs ! Suc i]))"

definition shuffle :: "(nat \<Rightarrow> nat) \<Rightarrow> 'a list \<Rightarrow> 'a list" where
  "shuffle draw xs = shuffle_down draw (length xs - 1) xs"

text \<open>The loop over the candidates: \<open>None\<close> when the poll stops early, otherwise how many
  aggregates were relayed and whether one was drained.\<close>

fun poll_loop ::
  "'w relay_env \<Rightarrow> string list \<Rightarrow> nat \<Rightarrow> bool \<Rightarrow> relay_state \<Rightarrow> 'w
   \<Rightarrow> (thrown + (nat \<times> bool) option) \<times> relay_state \<times> 'w" where
  "poll_loop env [] relayed full s w = (Inr (Some (relayed, full)), s, w)"
| "poll_loop env (agg # rest) relayed full s w =
     (if re_stopping env w \<or> relayed \<ge> AGGREGATES_PER_POLL then (Inr (Some (relayed, full)), s, w)
      else case relayAggregate env agg s w of
        (Inl e, s1, w1) \<Rightarrow> (Inl e, s1, w1)
      | (Inr LockDown, s1, w1) \<Rightarrow> (Inr None, s1, w1)
      | (Inr MessagingDisabled, s1, w1) \<Rightarrow> (Inr None, s1, w1)
      | (Inr Held, s1, w1) \<Rightarrow> poll_loop env rest relayed full s1 w1
      | (Inr Relayed, s1, w1) \<Rightarrow> poll_loop env rest (relayed + 1) full s1 w1
      | (Inr Drained, s1, w1) \<Rightarrow> poll_loop env rest (relayed + 1) True s1 w1)"

text \<open>The once-per-process repair at the start of a poll.\<close>

definition poll_repair :: "'w relay_env \<Rightarrow> relay_state \<Rightarrow> 'w \<Rightarrow> (thrown + unit) \<times> relay_state \<times> 'w" where
  "poll_repair env s w =
     (if rs_headsRepaired s then (Inr (), s, w)
      else case repairHeads (re_exec env) (re_clock env) (re_retentionMs env) (re_clock env w) w of
        (Inl e, w1) \<Rightarrow> (Inl e, s, w1)
      | (Inr _, w1) \<Rightarrow> (Inr (), s\<lparr>rs_headsRepaired := True\<rparr>, w1))"

definition poll :: "'w relay_env \<Rightarrow> relay_state \<Rightarrow> 'w \<Rightarrow> bool \<times> relay_state \<times> 'w" where
  "poll env s w =
     (case poll_repair env s w of
        (Inl _, s1, w1) \<Rightarrow> (False, s1, w1)
      | (Inr _, s1, w1) \<Rightarrow>
          (case dueAggregates (re_exec env) CANDIDATES_PER_POLL (re_clock env w1) w1 of
             (Inl _, w2) \<Rightarrow> (False, s1, w2)
           | (Inr candidates, w2) \<Rightarrow>
               (let order = (if length candidates > AGGREGATES_PER_POLL
                             then shuffle (re_draw env w2) candidates else candidates) in
                case poll_loop env order 0 False s1 w2 of
                  (Inl _, s2, w3) \<Rightarrow> (False, s2, w3)
                | (Inr None, s2, w3) \<Rightarrow> (False, s2, w3)
                | (Inr (Some (relayed, full)), s2, w3) \<Rightarrow>
                    ((full \<or> relayed \<ge> AGGREGATES_PER_POLL) \<and> \<not> re_stopping env w3,
                     s2\<lparr>rs_lastPoll := Some (re_clock env w3)\<rparr>, w3))))"

text \<open>\<open>relay\<close>: one poll at a time per instance, and none once it is stopping; then the pause
  \<open>tick\<close> makes before the next.\<close>

definition relay ::
  "bool \<Rightarrow> 'w relay_env \<Rightarrow> relay_state \<Rightarrow> 'w \<Rightarrow> bool \<times> relay_state \<times> 'w" where
  "relay inFlight env s w = (if inFlight \<or> re_stopping env w then (False, s, w) else poll env s w)"

definition next_tick_ms :: "bool \<Rightarrow> nat" where
  "next_tick_ms full = (if full then OUTBOX_REPOLL_DELAY_MS else OUTBOX_POLL_INTERVAL_MS)"

subsection \<open>The sweep\<close>

definition publishBacklogGauge :: "'w relay_env \<Rightarrow> relay_state \<Rightarrow> 'w \<Rightarrow> relay_state \<times> 'w" where
  "publishBacklogGauge env s w =
     (case backlogByStatus (re_exec env) w of
        (Inl _, w1) \<Rightarrow> (s, w1)
      | (Inr counts, w1) \<Rightarrow> (s\<lparr>rs_backlog := counts\<rparr>, w1))"

text \<open>One tick of the loop: a relay, then the gauge when its interval has passed; the new time
  of the gauge and the pause before the next tick come back with the states.\<close>

definition relay_tick ::
  "'w relay_env \<Rightarrow> nat \<Rightarrow> relay_state \<Rightarrow> 'w \<Rightarrow> nat \<times> nat \<times> relay_state \<times> 'w" where
  "relay_tick env gaugeAt s w =
     (case relay False env s w of
        (full, s1, w1) \<Rightarrow>
          if \<not> re_stopping env w1 \<and> re_clock env w1 - gaugeAt \<ge> BACKLOG_GAUGE_INTERVAL_MS
          then (case publishBacklogGauge env s1 w1 of
                  (s2, w2) \<Rightarrow> (re_clock env w1, next_tick_ms full, s2, w2))
          else (gaugeAt, next_tick_ms full, s1, w1))"

definition sweep :: "'w relay_env \<Rightarrow> relay_state \<Rightarrow> 'w \<Rightarrow> relay_state \<times> 'w" where
  "sweep env s w =
     (if re_stopping env w then (s, w)
      else publishBacklogGauge env s
        (case deadLetterExhausted (re_exec env) MAX_ATTEMPTS w of
           (Inl _, w1) \<Rightarrow> w1
         | (Inr _, w1) \<Rightarrow>
             (case countDead (re_exec env) w1 of
                (Inl _, w2) \<Rightarrow> w2
              | (Inr _, w2) \<Rightarrow>
                  snd (repairHeads (re_exec env) (re_clock env) (re_retentionMs env) (re_clock env w2) w2))))"

subsection \<open>The commands of an operation\<close>

text \<open>\<open>db_run exec C w w'\<close>: from \<open>w\<close> to \<open>w'\<close> by commands within \<open>C\<close>.\<close>

inductive db_run :: "'w db_exec \<Rightarrow> (db_cmd \<Rightarrow> bool) \<Rightarrow> 'w \<Rightarrow> 'w \<Rightarrow> bool" for exec C where
  stay: "db_run exec C w w"
| step: "exec c w = (res, w1) \<Longrightarrow> C c \<Longrightarrow> db_run exec C w1 w' \<Longrightarrow> db_run exec C w w'"

lemma bind_run:
  assumes "db_bind exec c k w = (res, w')" and "C c"
    and "\<And>rep w1 res w'. k rep w1 = (res, w') \<Longrightarrow> db_run exec C w1 w'"
  shows "db_run exec C w w'"
proof (cases "exec c w")
  case (Pair out w1)
  then have "db_run exec C w1 w'"
    using assms(1) assms(3) [of _ w1 res w'] by (cases out) (auto simp: db_bind_def db_run.stay)
  with Pair assms(2) show ?thesis by (blast intro: db_run.step)
qed

lemma run_trans: "db_run exec C w w1 \<Longrightarrow> db_run exec C w1 w' \<Longrightarrow> db_run exec C w w'"
  by (induction rule: db_run.induct) (auto intro: db_run.step)

lemma bind_unit_run: "db_bind exec c (\<lambda>_ w. (Inr x, w)) w = (res, w') \<Longrightarrow> C c \<Longrightarrow> db_run exec C w w'"
  by (erule bind_run) (auto intro: db_run.stay)

lemma headOf_run: "headOf exec agg w = (res, w') \<Longrightarrow> db_run exec cmd_ok w w'"
  unfolding headOf_def by (erule bind_run) (auto intro: db_run.stay)

lemma dueAggregates_run: "dueAggregates exec n now w = (res, w') \<Longrightarrow> db_run exec cmd_ok w w'"
  unfolding dueAggregates_def by (erule bind_run) (auto intro: db_run.stay)

lemma markDispatched_run: "markDispatched exec clock ret i w = (res, w') \<Longrightarrow> db_run exec cmd_ok w w'"
  unfolding markDispatched_def by (erule bind_run) (auto intro: db_run.stay row_step_updates)

lemma markFailed_run: "markFailed exec clock r err m w = (res, w') \<Longrightarrow> db_run exec cmd_ok w w'"
  unfolding markFailed_def Let_def by (erule bind_run) (auto intro: db_run.stay row_step_updates)

lemma settleHead_run: "settleHead exec clock agg w = (res, w') \<Longrightarrow> db_run exec cmd_ok w w'"
  unfolding settleHead_def
proof (erule bind_run, simp, goal_cases)
  case (1 rep w1 res w')
  obtain out w2 where h: "headOf exec agg w1 = (out, w2)" by force
  have b: "db_run exec cmd_ok w2 w'" if "db_bind exec (OnHeads c) (\<lambda>_ w3. (Inr (), w3)) w2 = (res, w')" for c
    using that by (rule bind_unit_run) simp
  have "db_run exec cmd_ok w2 w'"
    using 1 h b by (auto simp: Let_def db_run.stay split: sum.splits option.splits list.splits)
  with headOf_run [OF h] show ?case by (rule run_trans)
qed

lemma repair_waiting_run:
  "repair_waiting exec clock now aggs n w = (res, w') \<Longrightarrow> db_run exec cmd_ok w w'"
proof (induction aggs arbitrary: n w)
  case (Cons agg aggs)
  obtain out w1 where h: "headOf exec agg w = (out, w1)" by force
  have "db_run exec cmd_ok w1 w'"
  proof (cases out)
    case (Inl e)
    then show ?thesis using Cons.prems h by (simp add: db_run.stay)
  next
    case (Inr row)
    let ?due = "case row of Some r \<Rightarrow> dueAtOf (clock w1) r | None \<Rightarrow> Some now"
    show ?thesis
    proof (cases "\<exists>due. ?due = Some due \<and> due \<le> now")
      case False
      then have "repair_waiting exec clock now aggs n w1 = (res, w')"
        using Cons.prems h Inr by (cases ?due) auto
      then show ?thesis by (rule Cons.IH)
    next
      case True
      then obtain due where due: "?due = Some due" "due \<le> now" by blast
      let ?c = "OnHeads (UpdateOne (\<lambda>h. head_id h = agg) (\<lambda>h. h\<lparr>dueAt := Some due\<rparr>) None)"
      obtain o2 w2 where e: "exec ?c w1 = (o2, w2)" by force
      have "db_run exec cmd_ok w2 w'"
        using Cons h Inr due e by (cases o2) (auto simp: db_run.stay)
      moreover have "cmd_ok ?c" by simp
      ultimately show ?thesis by (metis e db_run.step)
    qed
  qed
  with headOf_run [OF h] show ?case by (rule run_trans)
qed (simp add: db_run.stay)

lemma repairHeads_run: "repairHeads exec clock ret now w = (res, w') \<Longrightarrow> db_run exec cmd_ok w w'"
  unfolding repairHeads_def
proof (erule bind_run, goal_cases)
  case 1
  show ?case by (auto simp: terminal_def intro: row_step_updates)
next
  case (2 rep w1 res w')
  then show ?case
  proof (rule bind_run, goal_cases)
    case (2 opn w2 res w')
    let ?b = "if ids_of opn = [] then (Inr (Written 0 0 0), w2)
             else exec (BulkHeads (map (\<lambda>agg. upsert_head agg now 0 (\<lambda>h. h)) (ids_of opn))) w2"
    obtain out w3 where b: "?b = (out, w3)" by force
    have "db_run exec cmd_ok w2 w3" using b by (auto split: if_splits intro: db_run.intros)
    moreover have "db_run exec cmd_ok w3 w'"
      using 2 b by (cases out) (auto intro: db_run.stay elim!: bind_run dest: repair_waiting_run)
    ultimately show ?case by (rule run_trans)
  qed simp
qed

subsection \<open>Under interference\<close>

text \<open>The world of a relay instance: every call stays within what other processes may do, and the
  observer \<open>sent\<close> shows the calls made to the broker, with their outcomes.\<close>

locale relay_world = outbox_world "re_exec env" view
  for env :: "'w relay_env" and view :: "'w \<Rightarrow> outbox_history" +
  fixes sent :: "'w \<Rightarrow> (outbox_message \<times> broker_outcome) list"
  assumes exec_sent: "re_exec env c w = (res, w') \<Longrightarrow> sent w' = sent w"
    and acquire_ok: "re_acquire env k ttl w = (la, w') \<Longrightarrow> others (view w) (view w') \<and> sent w' = sent w"
    and renew_ok: "re_renew env l ttl w = (lr, w') \<Longrightarrow> others (view w) (view w') \<and> sent w' = sent w"
    and release_ok: "re_release env l w = (lr, w') \<Longrightarrow> others (view w) (view w') \<and> sent w' = sent w"
    and publish_ok: "re_publish env m w = (out, w') \<Longrightarrow>
      others (view w) (view w') \<and> sent w' = sent w @ [(m, out)]"
begin

lemma run_ok:
  "db_run (re_exec env) cmd_ok w w' \<Longrightarrow> others (view w) (view w') \<and> sent w' = sent w"
proof (induction rule: db_run.induct)
  case (step c w res w1 w')
  then show ?case using exec_others [OF step(1,2)] exec_sent [OF step(1)] others_trans by auto
qed simp

lemma heartbeats_ok: "others (view w) (view (heartbeats env l n w)) \<and> sent (heartbeats env l n w) = sent w"
proof (induction n arbitrary: w)
  case (Suc n)
  have "others (view w) (view (snd (re_renew env l AGGREGATE_LEASE_TTL_MS w)))
      \<and> sent (snd (re_renew env l AGGREGATE_LEASE_TTL_MS w)) = sent w"
    using renew_ok [OF prod.collapse [symmetric]] .
  then show ?case using Suc.IH others_trans by fastforce
qed simp

lemma recordFailure_ok:
  "recordFailure env r err s w = (s', w') \<Longrightarrow> others (view w) (view w') \<and> sent w' = sent w"
  by (auto simp: recordFailure_def dest!: markFailed_run [THEN run_ok] split: prod.splits sum.splits option.splits)

text \<open>One publish makes one call to the broker; it counts as published only when that call was
  acknowledged.\<close>

lemma publish_turn:
  assumes "withRenewal env l (relay_publish env r s) w = (out, s', w')"
  obtains b where "sent w' = sent w @ [(outbox_message_of (re_iso env) r, b)]"
    "others (view w) (view w')" "out = Published \<Longrightarrow> b = Settled (Inr ())"
proof -
  obtain w2 n where p: "relay_publish env r s w = (out, s', w2)" and w': "w' = heartbeats env l n w2"
    using assms by (auto simp: withRenewal_def split: prod.splits)
  obtain b w1 where b: "re_publish env (outbox_message_of (re_iso env) r) w = (b, w1)" by force
  note 1 = publish_ok [OF b]
  have 2: "others (view w1) (view w2) \<and> sent w2 = sent w1"
    using p b by (auto simp: relay_publish_def Let_def dest: markDispatched_run [THEN run_ok] recordFailure_ok
      split: sum.splits thrown.splits prod.splits)
  have 3: "b = Settled (Inr ())" if "out = Published"
    using p b that by (cases b) (auto simp: relay_publish_def withTimeout_def Let_def split: sum.splits thrown.splits prod.splits)
  show thesis using that 1 2 3 w' heartbeats_ok [of w2 l n] others_trans by metis
qed

end

text \<open>What a turn on an aggregate sends: rows of the aggregate, each with the ids of the rows that had been
  visible when it was picked. At least the rows of \<open>S\<close> had; every earlier one of them is settled; a
  later row of the turn comes after it, or had not been visible; none leaves after one that was not
  acknowledged.\<close>

type_synonym turn = "(outbox_row \<times> broker_outcome \<times> nat set) list"

definition in_turn :: "turn \<Rightarrow> bool" where
  "in_turn = sorted_wrt (\<lambda>(r, _, K) (r', _, K'). K \<subseteq> K' \<and> (row_id r' \<in> K \<longrightarrow> row_key r \<le> row_key r'))"

definition turn_ok :: "string \<Rightarrow> nat set \<Rightarrow> outbox_history \<Rightarrow> turn \<Rightarrow> bool" where
  "turn_ok agg S s xs \<longleftrightarrow>
     (\<forall>(r, b, K) \<in> set xs. aggregateId r = agg \<and> row_id r \<in> K \<and> S \<subseteq> K \<and> K \<subseteq> fst s \<and> line_clear K s r)
     \<and> in_turn xs
     \<and> (\<forall>(r, b, K) \<in> set (butlast xs). b = Settled (Inr ()))"

definition turn_messages :: "(nat \<Rightarrow> string) \<Rightarrow> turn \<Rightarrow> (outbox_message \<times> broker_outcome) list" where
  "turn_messages isoDate = map (\<lambda>(r, b, K). (outbox_message_of isoDate r, b))"

lemma turn_ok_Nil [simp]: "turn_ok agg S s []"
  by (simp add: turn_ok_def in_turn_def)

text \<open>The rows that were visible from the start leave in the order they were written.\<close>

lemma in_turn_sorted:
  assumes "in_turn xs" "\<forall>(r, b, K) \<in> set xs. S \<subseteq> K"
  shows "sorted (map (\<lambda>(r, b, K). row_key r) (filter (\<lambda>(r, b, K). row_id r \<in> S) xs))"
  using assms by (induction xs) (auto simp: in_turn_def)

context relay_world
begin

lemma known: "others (view w) (view w') \<Longrightarrow> fst (view w) \<subseteq> fst (view w')"
  using others_known start_ok by blast

lemma later_clear: "others (view w) (view w') \<Longrightarrow> K \<subseteq> fst (view w) \<Longrightarrow> line_clear K (view w) r \<Longrightarrow> line_clear K (view w') r"
  using others_line_clear start_ok by blast

lemma turn_ok_later:
  assumes o: "others (view w) (view w')" and t: "turn_ok agg S (view w) xs" and S: "S' \<subseteq> S"
  shows "turn_ok agg S' (view w') xs"
proof -
  have t': "\<forall>(r, b, K) \<in> set xs. aggregateId r = agg \<and> row_id r \<in> K \<and> S \<subseteq> K \<and> K \<subseteq> fst (view w) \<and> line_clear K (view w) r"
    and rest: "in_turn xs" "\<forall>(r, b, K) \<in> set (butlast xs). b = Settled (Inr ())"
    using t unfolding turn_ok_def by simp_all
  have "\<forall>(r, b, K) \<in> set xs. aggregateId r = agg \<and> row_id r \<in> K \<and> S' \<subseteq> K \<and> K \<subseteq> fst (view w') \<and> line_clear K (view w') r"
  proof (clarify, goal_cases)
    case (1 r b K)
    then have "aggregateId r = agg" "row_id r \<in> K" "S \<subseteq> K" and K: "K \<subseteq> fst (view w)" "line_clear K (view w) r"
      using t' by auto
    moreover have "line_clear K (view w') r" by (rule later_clear [OF o K])
    moreover have "K \<subseteq> fst (view w')" using K(1) known [OF o] by (rule subset_trans)
    ultimately show ?case using S by simp
  qed
  then show ?thesis using rest unfolding turn_ok_def by simp
qed

text \<open>One row in front of the rest of the turn.\<close>

lemma turn_ok_Cons:
  assumes o: "others (view w1) (view w')" and K: "S \<subseteq> K" "K \<subseteq> fst (view w1)" "row_id r \<in> K" "line_clear K (view w1) r"
    and r: "aggregateId r = agg" and b: "ys \<noteq> [] \<longrightarrow> b = Settled (Inr ())"
    and ys: "turn_ok agg (fst (view w1)) (view w') ys" "\<forall>(x, b, K') \<in> set ys. row_id x \<in> K \<longrightarrow> row_key r \<le> row_key x"
  shows "turn_ok agg S (view w') ((r, b, K) # ys)"
proof -
  have ys': "turn_ok agg K (view w') ys" using turn_ok_later [OF others_refl ys(1) K(2)] .
  then have "in_turn ys" and sub: "\<forall>(x, b, K') \<in> set ys. K \<subseteq> K'" unfolding turn_ok_def by auto
  then have "in_turn ((r, b, K) # ys)" using ys(2) by (auto simp: in_turn_def)
  moreover have "turn_ok agg S (view w') ys" using turn_ok_later [OF others_refl ys' K(1)] .
  moreover have "K \<subseteq> fst (view w')" using known [OF o] K(2) by blast
  moreover have "line_clear K (view w') r" by (rule later_clear [OF o K(2,4)])
  ultimately show ?thesis using K(1,3) r b unfolding turn_ok_def by (cases ys) auto
qed

lemma relay_rows_turn:
  "relay_rows env agg l n s w = (res, s', w') \<Longrightarrow>
   \<exists>xs. sent w' = sent w @ turn_messages (re_iso env) xs \<and> length xs \<le> n \<and> turn_ok agg (fst (view w)) (view w') xs
     \<and> others (view w) (view w')
     \<and> (\<forall>q K. K \<subseteq> fst (view w) \<and> line_clear K (view w) q \<and> aggregateId q = agg \<longrightarrow>
          (\<forall>(r, b, K') \<in> set xs. row_id r \<in> K \<longrightarrow> row_key q \<le> row_key r))"
proof (induction n arbitrary: s w)
  case 0
  then show ?case by (intro exI [of _ "[]"]) (simp add: turn_messages_def)
next
  case (Suc n)
  have idle: ?case if "sent w' = sent w" "others (view w) (view w')"
    using that by (intro exI [of _ "[]"]) (simp add: turn_messages_def)
  obtain out w1 where h: "headOf (re_exec env) agg w = (out, w1)" by force
  note h_ok = run_ok [OF headOf_run [OF h], THEN conjunct1] run_ok [OF headOf_run [OF h], THEN conjunct2]
  consider (none) "w' = w1" | (row) r where "out = Inr (Some r)" "isDue r (re_clock env w1)"
    using Suc.prems h by (cases out) (auto split: option.splits if_splits)
  then show ?case
  proof cases
    case none
    then show ?thesis using idle h_ok by simp
  next
    case row
    have hr: "headOf (re_exec env) agg w = (Inr (Some r), w1)" using h row by simp
    from headOf_clear [OF hr] obtain K where K: "fst (view w) \<subseteq> K" "K \<subseteq> fst (view w1)" "row_id r \<in> K"
      "line_clear K (view w1) r" and agg: "aggregateId r = agg" .
    have first: "row_key q \<le> row_key r"
      if "K' \<subseteq> fst (view w)" "line_clear K' (view w) q" "aggregateId q = agg" "row_id r \<in> K'" for q K'
      by (rule headOf_not_before [OF hr that(2,1,3,4)])
    obtain lr w2 where n: "re_renew env l AGGREGATE_LEASE_TTL_MS w1 = (lr, w2)" by force
    note n_ok = renew_ok [OF n]
    show ?thesis
    proof (cases "lr = Inr True")
      case False
      then have "w' = w2" using Suc.prems h row n by (auto split: sum.splits)
      moreover have "others (view w) (view w2)" using h_ok(1) n_ok others_trans by blast
      ultimately show ?thesis using idle h_ok(2) n_ok by simp
    next
      case True
      obtain o1 s1 w3 where p: "withRenewal env l (relay_publish env r s) w2 = (o1, s1, w3)"
        by (cases "withRenewal env l (relay_publish env r s) w2")
      obtain b where b: "sent w3 = sent w2 @ [(outbox_message_of (re_iso env) r, b)]"
        "others (view w2) (view w3)" "o1 = Published \<longrightarrow> b = Settled (Inr ())"
        using publish_turn [OF p] by blast
      have o3: "others (view w1) (view w3)" using n_ok b(2) others_trans by blast
      have o03: "others (view w) (view w3)" using h_ok(1) o3 others_trans by blast
      show ?thesis
      proof (cases "o1 = Published")
        case False
        then have "w' = w3" using Suc.prems h row n True p by (cases o1) auto
        moreover have "turn_ok agg (fst (view w)) (view w3) [(r, b, K)]"
          by (rule turn_ok_Cons [OF o3 K agg]) simp_all
        ultimately show ?thesis using b(1) h_ok n_ok o03 first
          by (intro exI [of _ "[(r, b, K)]"]) (auto simp: turn_messages_def)
      next
        case True
        then have "relay_rows env agg l n s1 w3 = (res, s', w')"
          using Suc.prems h row n \<open>lr = Inr True\<close> p by simp
        from Suc.IH [OF this] obtain ys where ys: "sent w' = sent w3 @ turn_messages (re_iso env) ys" "length ys \<le> n"
            "turn_ok agg (fst (view w3)) (view w') ys" "others (view w3) (view w')"
            "\<forall>q K. K \<subseteq> fst (view w3) \<and> line_clear K (view w3) q \<and> aggregateId q = agg \<longrightarrow>
               (\<forall>(r, b, K') \<in> set ys. row_id r \<in> K \<longrightarrow> row_key q \<le> row_key r)"
          by blast
        have o1': "others (view w1) (view w')" by (rule others_trans [OF o3 ys(4)])
        have "K \<subseteq> fst (view w3)" "line_clear K (view w3) r"
          using known [OF o3] K(2) later_clear [OF o3 K(2,4)] by blast+
        then have after: "\<forall>(x, b, K') \<in> set ys. row_id x \<in> K \<longrightarrow> row_key r \<le> row_key x" using ys(5) agg by blast
        have "turn_ok agg (fst (view w1)) (view w') ys"
          by (rule turn_ok_later [OF others_refl ys(3) known [OF o3]])
        then have turn: "turn_ok agg (fst (view w)) (view w') ((r, b, K) # ys)"
          using turn_ok_Cons [OF o1' K agg _ _ after] b(3) True by simp
        have before: "\<forall>(x, c, K') \<in> set ((r, b, K) # ys). row_id x \<in> K0 \<longrightarrow> row_key q \<le> row_key x"
          if q: "K0 \<subseteq> fst (view w)" "line_clear K0 (view w) q" "aggregateId q = agg" for q K0
        proof -
          have "K0 \<subseteq> fst (view w3)" "line_clear K0 (view w3) q"
            using known [OF o03] q(1) later_clear [OF o03 q(1,2)] by blast+
          then have "\<forall>(x, c, K') \<in> set ys. row_id x \<in> K0 \<longrightarrow> row_key q \<le> row_key x" using ys(5) q(3) by blast
          then show ?thesis using first [OF q] by simp
        qed
        have "others (view w) (view w')" by (rule others_trans [OF o03 ys(4)])
        moreover have "sent w' = sent w @ turn_messages (re_iso env) ((r, b, K) # ys)"
          using b(1) h_ok n_ok ys(1) by (simp add: turn_messages_def)
        moreover have "length ((r, b, K) # ys) \<le> Suc n" using ys(2) by simp
        ultimately show ?thesis using turn before by blast
      qed
    qed
  qed
qed

lemma relayAggregate_turn:
  assumes "relayAggregate env agg s w = (res, s', w')"
  shows "\<exists>xs. sent w' = sent w @ turn_messages (re_iso env) xs \<and> length xs \<le> ROWS_PER_AGGREGATE
    \<and> turn_ok agg (fst (view w)) (view w') xs \<and> others (view w) (view w')"
proof -
  have idle: ?thesis if "sent w' = sent w" "others (view w) (view w')"
    using that by (intro exI [of _ "[]"]) (simp add: turn_messages_def)
  show ?thesis
  proof (cases "global OUTBOX_AGGREGATE_LEASE (re_vars env) [agg]")
    case (Inl e)
    then show ?thesis using assms idle by (simp add: relayAggregate_def)
  next
    case (Inr key)
    obtain out w1 where a: "re_acquire env key AGGREGATE_LEASE_TTL_MS w = (out, w1)" by force
    note a_ok = acquire_ok [OF a]
    show ?thesis
    proof (cases "\<exists>l. out = Inr (Some l)")
      case False
      then have "w' = w1" using assms Inr a by (auto simp: relayAggregate_def split: sum.splits option.splits)
      then show ?thesis using idle a_ok by simp
    next
      case True
      then obtain l where l: "out = Inr (Some l)" ..
      obtain r1 s1 w2 where t: "relay_rows env agg l ROWS_PER_AGGREGATE s w1 = (r1, s1, w2)"
        by (cases "relay_rows env agg l ROWS_PER_AGGREGATE s w1")
      obtain xs where xs: "sent w2 = sent w1 @ turn_messages (re_iso env) xs" "length xs \<le> ROWS_PER_AGGREGATE"
          "turn_ok agg (fst (view w1)) (view w2) xs" "others (view w1) (view w2)"
        using relay_rows_turn [OF t] by blast
      obtain r3 w3 where st: "settleHead (re_exec env) (re_clock env) agg w2 = (r3, w3)" by force
      obtain r4 w4 where rl: "re_release env l w3 = (r4, w4)" by force
      have w': "w' = w4" using assms Inr a l t st rl by (simp add: relayAggregate_def)
      have o: "others (view w2) (view w4)"
        using run_ok [OF settleHead_run [OF st]] release_ok [OF rl] others_trans by blast
      have "sent w4 = sent w2" using run_ok [OF settleHead_run [OF st]] release_ok [OF rl] by simp
      moreover have "others (view w) (view w4)" using a_ok xs(4) o others_trans by blast
      moreover have "fst (view w) \<subseteq> fst (view w1)" using a_ok known by blast
      ultimately show ?thesis using xs a_ok turn_ok_later [OF o xs(3)] w'
        by (intro exI [of _ xs]) simp
    qed
  qed
qed

end

lemma relay_rows_outcome: "relay_rows env agg l n s w = (res, s', w') \<Longrightarrow> res \<noteq> Inr Held \<and> res \<noteq> Inr LockDown"
proof (induction n arbitrary: s w)
  case (Suc n)
  then show ?case
    by (auto split: prod.splits sum.splits option.splits if_splits publish_outcome.splits)
qed auto

context relay_world
begin

lemma relayAggregate_idle:
  assumes "relayAggregate env agg s w = (res, s', w')" and "res = Inr Held \<or> res = Inr LockDown"
  shows "others (view w) (view w') \<and> sent w' = sent w"
proof (cases "global OUTBOX_AGGREGATE_LEASE (re_vars env) [agg]")
  case (Inl e)
  then show ?thesis using assms by (simp add: relayAggregate_def)
next
  case (Inr key)
  then show ?thesis
    using assms acquire_ok [of key AGGREGATE_LEASE_TTL_MS w]
    by (auto simp: relayAggregate_def dest: relay_rows_outcome split: prod.splits sum.splits option.splits)
qed

lemma poll_loop_turns:
  "poll_loop env aggs relayed full s w = (res, s', w') \<Longrightarrow> relayed \<le> AGGREGATES_PER_POLL \<Longrightarrow>
   \<exists>turns. sent w' = sent w @ concat (map (\<lambda>(agg, xs). turn_messages (re_iso env) xs) turns)
     \<and> length turns + relayed \<le> AGGREGATES_PER_POLL
     \<and> (\<forall>(agg, xs) \<in> set turns. length xs \<le> ROWS_PER_AGGREGATE \<and> turn_ok agg (fst (view w)) (view w') xs)
     \<and> others (view w) (view w')"
proof (induction aggs arbitrary: relayed full s w)
  case Nil
  then show ?case by (intro exI [of _ "[]"]) simp
next
  case (Cons agg rest)
  show ?case
  proof (cases "re_stopping env w \<or> relayed \<ge> AGGREGATES_PER_POLL")
    case True
    then show ?thesis using Cons.prems by (intro exI [of _ "[]"]) simp
  next
    case False
    obtain out s1 w1 where a: "relayAggregate env agg s w = (out, s1, w1)"
      by (cases "relayAggregate env agg s w")
    show ?thesis
    proof (cases "out = Inr Held \<or> out = Inr LockDown")
      case True
      then have i: "others (view w) (view w1)" "sent w1 = sent w"
        using relayAggregate_idle [OF a] by simp_all
      show ?thesis
      proof (cases "out = Inr Held")
        case True
        then have "poll_loop env rest relayed full s1 w1 = (res, s', w')" using Cons.prems(1) False a by simp
        from Cons.IH [OF this Cons.prems(2)] obtain turns where
            "sent w' = sent w1 @ concat (map (\<lambda>(agg, xs). turn_messages (re_iso env) xs) turns)"
            "length turns + relayed \<le> AGGREGATES_PER_POLL"
            and t: "\<forall>(agg, xs) \<in> set turns. length xs \<le> ROWS_PER_AGGREGATE \<and> turn_ok agg (fst (view w1)) (view w') xs"
            and "others (view w1) (view w')" by blast
        moreover have "\<forall>(agg, xs) \<in> set turns. length xs \<le> ROWS_PER_AGGREGATE \<and> turn_ok agg (fst (view w)) (view w') xs"
          using t turn_ok_later [OF others_refl _ known [OF i(1)]] by blast
        ultimately show ?thesis using i(2) others_trans [OF i(1)] by (intro exI [of _ turns]) simp
      next
        case held: False
        then have "w' = w1" using Cons.prems(1) False a True by auto
        then show ?thesis using i Cons.prems(2) by (intro exI [of _ "[]"]) simp
      qed
    next
      case busy: False
      obtain xs where xs: "sent w1 = sent w @ turn_messages (re_iso env) xs" "length xs \<le> ROWS_PER_AGGREGATE"
          "turn_ok agg (fst (view w)) (view w1) xs" "others (view w) (view w1)"
        using relayAggregate_turn [OF a] by blast
      have r: "Suc relayed \<le> AGGREGATES_PER_POLL" using False by simp
      consider (stop) "w' = w1" | (more) full' where "poll_loop env rest (relayed + 1) full' s1 w1 = (res, s', w')"
        using Cons.prems(1) False a busy by (auto split: sum.splits aggregate_outcome.splits)
      then show ?thesis
      proof cases
        case stop
        then show ?thesis using xs r by (intro exI [of _ "[(agg, xs)]"]) simp
      next
        case more
        then obtain turns where t: "sent w' = sent w1 @ concat (map (\<lambda>(agg, xs). turn_messages (re_iso env) xs) turns)"
            "length turns + Suc relayed \<le> AGGREGATES_PER_POLL"
            "\<forall>(agg, xs) \<in> set turns. length xs \<le> ROWS_PER_AGGREGATE \<and> turn_ok agg (fst (view w1)) (view w') xs"
            "others (view w1) (view w')"
          using Cons.IH [of "relayed + 1" full' s1 w1] r by auto
        have "\<forall>(agg, xs) \<in> set turns. length xs \<le> ROWS_PER_AGGREGATE \<and> turn_ok agg (fst (view w)) (view w') xs"
          using t(3) turn_ok_later [OF others_refl _ known [OF xs(4)]] by blast
        then show ?thesis using xs t(1,2) turn_ok_later [OF t(4) xs(3) order_refl] others_trans [OF xs(4) t(4)]
          by (intro exI [of _ "(agg, xs) # turns"]) auto
      qed
    qed
  qed
qed

lemma poll_turns:
  assumes "poll env s w = (full, s', w')"
  shows "\<exists>turns. sent w' = sent w @ concat (map (\<lambda>(agg, xs). turn_messages (re_iso env) xs) turns)
     \<and> length turns \<le> AGGREGATES_PER_POLL
     \<and> (\<forall>(agg, xs) \<in> set turns. length xs \<le> ROWS_PER_AGGREGATE \<and> turn_ok agg (fst (view w)) (view w') xs)"
proof -
  have idle: ?thesis if "sent w' = sent w" using that by (intro exI [of _ "[]"]) simp
  obtain r1 s1 w1 where p: "poll_repair env s w = (r1, s1, w1)" by (cases "poll_repair env s w")
  have p_ok: "sent w1 = sent w" "others (view w) (view w1)"
    using p by (auto simp: poll_repair_def dest!: repairHeads_run [THEN run_ok] split: if_splits prod.splits sum.splits)
  obtain r2 w2 where d: "dueAggregates (re_exec env) CANDIDATES_PER_POLL (re_clock env w1) w1 = (r2, w2)" by force
  have d_ok: "sent w2 = sent w1" "others (view w1) (view w2)" using run_ok [OF dueAggregates_run [OF d]] by simp_all
  consider "w' = w1" | "w' = w2" | order r3 s3 where "poll_loop env order 0 False s1 w2 = (r3, s3, w')"
    using assms p d
    by (auto simp: poll_def Let_def split: sum.splits prod.splits option.splits)
  then show ?thesis
  proof cases
    case (3 order r3 s3)
    have k: "fst (view w) \<subseteq> fst (view w2)" by (rule known [OF others_trans [OF p_ok(2) d_ok(2)]])
    obtain turns where t: "sent w' = sent w2 @ concat (map (\<lambda>(agg, xs). turn_messages (re_iso env) xs) turns)"
      "length turns + 0 \<le> AGGREGATES_PER_POLL"
      "\<forall>(agg, xs) \<in> set turns. length xs \<le> ROWS_PER_AGGREGATE \<and> turn_ok agg (fst (view w2)) (view w') xs"
      using poll_loop_turns [OF 3] by blast
    have "\<forall>(agg, xs) \<in> set turns. length xs \<le> ROWS_PER_AGGREGATE \<and> turn_ok agg (fst (view w)) (view w') xs"
      using t(3) turn_ok_later [OF others_refl _ k] by blast
    then show ?thesis using t(1,2) p_ok(1) d_ok(1) by (intro exI [of _ turns]) simp
  qed (use idle p_ok(1) d_ok(1) in simp_all)
qed

end

subsection \<open>Without interference\<close>

text \<open>The open rows of an aggregate in the order of their turn.\<close>

definition open_line :: "string \<Rightarrow> outbox_tables \<Rightarrow> outbox_row list" where
  "open_line agg t = sort_key row_key (filter (\<lambda>r. aggregateId r = agg \<and> is_open r) (t_rows t))"

definition distinct_rows :: "outbox_tables \<Rightarrow> bool" where
  "distinct_rows t \<longleftrightarrow> distinct (map row_id (t_rows t))"

lemma distinct_map_sort_key: "distinct (map f (sort_key k xs)) = distinct (map f xs)"
  by (metis mset_eq_imp_distinct_iff mset_map mset_sort)

lemma open_line_ids: "distinct_rows t \<Longrightarrow> distinct (map row_id (open_line agg t))"
  by (simp add: open_line_def distinct_rows_def distinct_map_sort_key distinct_map_filter)

lemma update_first_map:
  "distinct (map f rs) \<Longrightarrow> (\<And>r. p r \<Longrightarrow> f r = i) \<Longrightarrow>
   update_first p g rs = map (\<lambda>r. if p r then g r else r) rs"
proof (induction rs)
  case (Cons r rs)
  show ?case
  proof (cases "p r")
    case True
    have "\<not> p x" if "x \<in> set rs" for x
    proof
      assume "p x"
      then have "f x = f r" using True Cons.prems(2) by simp
      then show False using Cons.prems(1) that by (simp add: rev_image_eqI)
    qed
    then show ?thesis using True by (simp add: map_idI)
  next
    case False
    then show ?thesis using Cons by simp
  qed
qed simp

lemma dispatch_head:
  assumes d: "distinct_rows t" and l: "open_line agg t = r # rest" and p: "status r = PENDING"
    and t'_def: "t' = snd (db_apply (OnRows (UpdateOne (unsettled (row_id r)) (dispatched_row a b) None)) t)"
  shows "open_line agg t' = rest" and "distinct_rows t'"
proof -
  let ?u = "unsettled (row_id r)" and ?p = "\<lambda>r. aggregateId r = agg \<and> is_open r"
  let ?g = "\<lambda>x. if ?u x then dispatched_row a b x else x"
  have "r \<in> set (open_line agg t)" using l by simp
  then have mem: "r \<in> set (t_rows t)" "?u r" using p by (auto simp: open_line_def unsettled_def)
  have "update_first ?u (dispatched_row a b) (t_rows t) = map ?g (t_rows t)"
    by (rule update_first_map [OF d [unfolded distinct_rows_def]]) (simp add: unsettled_def)
  then have rows: "t_rows t' = map ?g (t_rows t)"
    using mem unfolding t'_def by (auto split: if_splits)
  have id: "row_id (?g x) = row_id x" for x by (simp add: dispatched_row_def)
  show "distinct_rows t'" using d by (simp add: distinct_rows_def rows id comp_def)
  have f: "filter ?p (map ?g xs) = filter (\<lambda>x. \<not> ?u x) (filter ?p xs)" for xs
    by (induction xs) (auto simp: dispatched_row_def is_open_def OPEN_STATUSES_def)
  have "open_line agg t' = filter (\<lambda>x. \<not> ?u x) (open_line agg t)"
    unfolding open_line_def rows f by (simp add: filter_sort)
  moreover have "\<not> ?u x" if "x \<in> set rest" for x
  proof
    assume "?u x"
    then have "row_id x = row_id r" by (simp add: unsettled_def)
    then show False using open_line_ids [OF d, of agg] that by (simp add: l rev_image_eqI)
  qed
  ultimately show "open_line agg t' = rest" using mem(2) by (simp add: l)
qed

text \<open>A world in which every call succeeds and nobody else acts on the tables.\<close>

definition calm :: "'w relay_env \<Rightarrow> ('w \<Rightarrow> outbox_tables) \<Rightarrow> ('w \<Rightarrow> (outbox_message \<times> broker_outcome) list) \<Rightarrow> bool" where
  "calm env tabs outlog \<longleftrightarrow>
     (\<forall>c w. \<exists>w'. re_exec env c w = (Inr (fst (db_apply c (tabs w))), w')
        \<and> tabs w' = snd (db_apply c (tabs w)) \<and> outlog w' = outlog w)
     \<and> (\<forall>l ttl w. \<exists>w'. re_renew env l ttl w = (Inr True, w') \<and> tabs w' = tabs w \<and> outlog w' = outlog w)
     \<and> (\<forall>l w. tabs (snd (re_release env l w)) = tabs w \<and> outlog (snd (re_release env l w)) = outlog w)
     \<and> (\<forall>m w. \<exists>w'. re_publish env m w = (Settled (Inr ()), w') \<and> tabs w' = tabs w
        \<and> outlog w' = outlog w @ [(m, Settled (Inr ()))])"

lemma calm_exec:
  assumes "calm env tabs outlog"
  obtains w' where "re_exec env c w = (Inr (fst (db_apply c (tabs w))), w')"
    "tabs w' = snd (db_apply c (tabs w))" "outlog w' = outlog w"
  using assms unfolding calm_def by blast

lemma calm_headOf:
  assumes "calm env tabs outlog"
  shows "\<exists>w'. headOf (re_exec env) agg w = (Inr (case open_line agg (tabs w) of [] \<Rightarrow> None | r # _ \<Rightarrow> Some r), w')
    \<and> tabs w' = tabs w \<and> outlog w' = outlog w"
proof -
  let ?c = "FindRows (\<lambda>r. aggregateId r = agg \<and> is_open r) (Some 1)"
  obtain w' where e: "re_exec env ?c w = (Inr (fst (db_apply ?c (tabs w))), w')"
    "tabs w' = snd (db_apply ?c (tabs w))" "outlog w' = outlog w"
    by (rule calm_exec [OF assms])
  then show ?thesis
    by (cases "open_line agg (tabs w)")
      (simp_all add: headOf_def db_bind_def rows_of_def limit_to_def open_line_def)
qed

lemma calm_heartbeats:
  "calm env tabs outlog \<Longrightarrow> tabs (heartbeats env l n w) = tabs w \<and> outlog (heartbeats env l n w) = outlog w"
proof (induction n arbitrary: w)
  case (Suc n)
  obtain w1 where "re_renew env l AGGREGATE_LEASE_TTL_MS w = (Inr True, w1)" "tabs w1 = tabs w" "outlog w1 = outlog w"
    using Suc.prems unfolding calm_def by blast
  then show ?case using Suc.IH [OF Suc.prems, of w1] by simp
qed simp

lemma calm_publish:
  assumes "calm env tabs outlog" "distinct_rows (tabs w)" "open_line agg (tabs w) = r # rest" "status r = PENDING"
  shows "\<exists>s' w'. withRenewal env l (relay_publish env r s) w = (Published, s', w')
    \<and> open_line agg (tabs w') = rest \<and> distinct_rows (tabs w')
    \<and> outlog w' = outlog w @ [(outbox_message_of (re_iso env) r, Settled (Inr ()))]"
proof -
  obtain w1 where p: "re_publish env (outbox_message_of (re_iso env) r) w = (Settled (Inr ()), w1)"
    "tabs w1 = tabs w" "outlog w1 = outlog w @ [(outbox_message_of (re_iso env) r, Settled (Inr ()))]"
    using assms(1) unfolding calm_def by blast
  let ?c = "OnRows (UpdateOne (unsettled (row_id r))
      (dispatched_row (re_clock env w1) (expiry (re_retentionMs env) (re_clock env w1))) None)"
  obtain w2 where e: "re_exec env ?c w1 = (Inr (fst (db_apply ?c (tabs w1))), w2)"
    "tabs w2 = snd (db_apply ?c (tabs w1))" "outlog w2 = outlog w1"
    by (rule calm_exec [OF assms(1)])
  have "relay_publish env r s w = (Published, s\<lparr>rs_published := rs_published s + 1\<rparr>, w2)"
    using p(1) e(1) by (simp add: relay_publish_def withTimeout_def Let_def markDispatched_def db_bind_def)
  moreover have "open_line agg (tabs w2) = rest" "distinct_rows (tabs w2)"
    unfolding e(2) p(2) by (rule dispatch_head [OF assms(2-4) refl])+
  ultimately show ?thesis
    using calm_heartbeats [OF assms(1)] p(3) e(3) by (simp add: withRenewal_def)
qed

lemma calm_rows:
  "calm env tabs outlog \<Longrightarrow> distinct_rows (tabs w) \<Longrightarrow> \<forall>r \<in> set (open_line agg (tabs w)). status r = PENDING \<Longrightarrow>
   \<exists>res s' w'. relay_rows env agg l n s w = (res, s', w')
     \<and> open_line agg (tabs w') = drop n (open_line agg (tabs w)) \<and> distinct_rows (tabs w')
     \<and> outlog w' = outlog w @ map (\<lambda>r. (outbox_message_of (re_iso env) r, Settled (Inr ()))) (take n (open_line agg (tabs w)))"
proof (induction n arbitrary: s w)
  case (Suc n)
  obtain w1 where h: "headOf (re_exec env) agg w = (Inr (case open_line agg (tabs w) of [] \<Rightarrow> None | r # _ \<Rightarrow> Some r), w1)"
    and w1: "tabs w1 = tabs w" "outlog w1 = outlog w"
    using calm_headOf [OF Suc.prems(1)] by blast
  show ?case
  proof (cases "open_line agg (tabs w)")
    case Nil
    then show ?thesis using h w1 Suc.prems by simp
  next
    case (Cons r rest)
    have st: "status r = PENDING" using Suc.prems(3) Cons by simp
    obtain w2 where n: "re_renew env l AGGREGATE_LEASE_TTL_MS w1 = (Inr True, w2)" "tabs w2 = tabs w" "outlog w2 = outlog w"
      using Suc.prems(1) w1 unfolding calm_def by metis
    obtain s3 w3 where p: "withRenewal env l (relay_publish env r s) w2 = (Published, s3, w3)"
      "open_line agg (tabs w3) = rest" "distinct_rows (tabs w3)"
      "outlog w3 = outlog w2 @ [(outbox_message_of (re_iso env) r, Settled (Inr ()))]"
      using calm_publish [OF Suc.prems(1), of w2 agg r rest] Suc.prems(2) Cons st n(2) by metis
    have "\<forall>x \<in> set (open_line agg (tabs w3)). status x = PENDING" using Suc.prems(3) Cons p(2) by simp
    from Suc.IH [OF Suc.prems(1) p(3) this, of s3] show ?thesis
      using h Cons st n p by (simp add: isDue_def)
  qed
qed simp

lemma calm_db_ok: "calm env tabs outlog \<Longrightarrow> db_ok (re_exec env) tabs"
  unfolding db_ok_def
proof (intro allI impI)
  fix c w res w' assume c: "calm env tabs outlog" and e: "re_exec env c w = (res, w')"
  obtain w1 where "re_exec env c w = (Inr (fst (db_apply c (tabs w))), w1)" "tabs w1 = snd (db_apply c (tabs w))"
    by (rule calm_exec [OF c])
  then show "db_step c res (tabs w) (tabs w')" using e by (auto simp: db_step_def)
qed

lemma calm_run: "db_run (re_exec env) C w w' \<Longrightarrow> calm env tabs outlog \<Longrightarrow> outlog w' = outlog w"
proof (induction rule: db_run.induct)
  case (step c w res w1 w')
  then show ?case by (metis calm_exec Pair_inject)
qed simp

subsection \<open>A relay on the lock of a Redis server\<close>

type_synonym sure_world = "outbox_tables \<times> redis_db \<times> (outbox_message \<times> broker_outcome) list"

definition sure_relay :: "nat \<Rightarrow> sure_world relay_env" where
  "sure_relay now =
     \<lparr>re_exec = (\<lambda>c (t, db, ms). case sure_db c t of (r, t') \<Rightarrow> (r, t', db, ms)),
      re_clock = (\<lambda>_. now), re_retentionMs = 100, re_vars = (\<lambda>_. None), re_iso = show_nat,
      re_message = (\<lambda>_. ''failed''), re_draw = (\<lambda>_ i. i), re_stopping = (\<lambda>_. False),
      re_acquire = (\<lambda>k ttl (t, db, ms).
        case lock_acquire sure_exec ''relay'' now k (of_nat ttl) db of (r, db') \<Rightarrow> (r, t, db', ms)),
      re_renew = (\<lambda>l ttl (t, db, ms).
        case lease_renew sure_exec now l (of_nat ttl) db of (r, db') \<Rightarrow> (r, t, db', ms)),
      re_release = (\<lambda>l (t, db, ms). case lease_release sure_exec now l db of (r, db') \<Rightarrow> (r, t, db', ms)),
      re_publish = (\<lambda>m (t, db, ms). (Settled (Inr ()), t, db, ms @ [(m, Settled (Inr ()))]))\<rparr>"

interpretation sure_relay_world: relay_world "sure_relay now" "\<lambda>(t, _, _). known_tables t"
  "\<lambda>(_, _, ms). ms" for now
proof
  fix c w w' and res :: "thrown + db_reply"
  assume e: "re_exec (sure_relay now) c w = (res, w')" and c: "cmd_ok c"
  obtain t db ms where w: "w = (t, db, ms)" by (cases w)
  obtain t' where t': "sure_db c t = (res, t')" "w' = (t', db, ms)"
    using e by (auto simp: sure_relay_def w split: prod.splits)
  show "\<exists>h u u'. others ((\<lambda>(t, _, _). known_tables t) w) (h, u) \<and> db_step c res u u'
      \<and> others (h, u') ((\<lambda>(t, _, _). known_tables t) w')"
    using sure_world.exec_ok [OF t'(1) c] by (simp add: w t'(2))
next
  fix w :: sure_world
  show "ids_known ((\<lambda>(t, _, _). known_tables t) w)"
    by (cases w) (simp add: ids_known_def known_tables_def)
qed (auto simp: sure_relay_def split: prod.splits)

subsection \<open>Properties\<close>

text \<open>C1: Order. Whatever other instances, writers and operators do during a poll, also when a row becomes
  visible after rows with a later key (overlapping transactions, skewed clocks), and whichever call
  fails, the messages a relay hands to the broker are at most fifty turns of at most twenty rows, each
  turn on one aggregate. With \<open>K\<close> the ids of the rows that had been visible when a row was picked, which
  are at least those visible before the poll: every row of the aggregate in \<open>K\<close> with an earlier key is
  settled, then and ever after; a row sent later in the turn has a later key unless it was not in \<open>K\<close>; so
  the rows visible before the poll leave in key order; and none leaves after one the broker has not
  acknowledged. A row that appears late with an earlier key is the one case sent out of key order.\<close>

theorem relay_poll_in_order:
  assumes "relay_world env view sent" and "poll env s w = (full, s', w')"
  shows "\<exists>turns :: (string \<times> turn) list. sent w' = sent w @ concat (map (\<lambda>(agg, xs). turn_messages (re_iso env) xs) turns)
    \<and> length turns \<le> 50
    \<and> (\<forall>(agg, xs) \<in> set turns. length xs \<le> 20
        \<and> (\<forall>(r, b, K) \<in> set xs. aggregateId r = agg \<and> row_id r \<in> K \<and> fst (view w) \<subseteq> K \<and> line_clear K (view w') r)
        \<and> in_turn xs
        \<and> sorted (map (\<lambda>(r, b, K). row_key r) (filter (\<lambda>(r, b, K). row_id r \<in> fst (view w)) xs))
        \<and> (\<forall>(r, b, K) \<in> set (butlast xs). b = Settled (Inr ())))"
proof -
  obtain turns where t: "sent w' = sent w @ concat (map (\<lambda>(agg, xs). turn_messages (re_iso env) xs) turns)"
    "length turns \<le> AGGREGATES_PER_POLL"
    "\<forall>(agg, xs) \<in> set turns. length xs \<le> ROWS_PER_AGGREGATE \<and> turn_ok agg (fst (view w)) (view w') xs"
    using relay_world.poll_turns [OF assms] by blast
  have "sorted (map (\<lambda>(r, b, K). row_key r) (filter (\<lambda>(r, b, K). row_id r \<in> fst (view w)) xs))"
    if "turn_ok agg (fst (view w)) (view w') xs" for agg xs
    by (rule in_turn_sorted) (use that in \<open>auto simp: turn_ok_def\<close>)
  then show ?thesis using t unfolding AGGREGATES_PER_POLL_def ROWS_PER_AGGREGATE_def
    by (intro exI [of _ turns]) (fastforce simp: turn_ok_def)
qed

lemma relay_poll_in_order_witness:
  "\<exists>turns :: (string \<times> turn) list.
     snd (snd (snd (snd (poll (sure_relay 7) relay_init (example_tables, \<lambda>_. None, []))))) =
       concat (map (\<lambda>(agg, xs). turn_messages show_nat xs) turns) \<and> length turns \<le> 50"
proof -
  obtain full s' t db ms where p: "poll (sure_relay 7) relay_init (example_tables, \<lambda>_. None, []) = (full, s', t, db, ms)"
    by (metis prod.collapse)
  have i: "re_iso (sure_relay 7) = show_nat" by (simp add: sure_relay_def)
  show ?thesis
    using relay_poll_in_order [OF sure_relay_world.relay_world_axioms p] unfolding p i prod.case snd_conv append_Nil
    by (elim exE conjE) (rule exI, rule conjI, assumption+)
qed

text \<open>C33: Progress. When every call succeeds, nobody interferes and the rows of an aggregate are
  pending, one turn sends its first twenty open rows, once each and in order, and afterwards
  they are settled.\<close>

theorem relay_drains_aggregate:
  assumes "calm env tabs sent" and "global OUTBOX_AGGREGATE_LEASE (re_vars env) [agg] = Inr key"
    and "re_acquire env key 45000 w = (Inr (Some l), w1)" and "tabs w1 = tabs w" and "sent w1 = sent w"
    and "distinct_rows (tabs w)" and "\<forall>r \<in> set (open_line agg (tabs w)). status r = PENDING"
    and "relayAggregate env agg s w = (res, s', w')"
  shows "open_line agg (tabs w') = drop 20 (open_line agg (tabs w))
    \<and> sent w' = sent w @ map (\<lambda>r. (outbox_message_of (re_iso env) r, Settled (Inr ())))
        (take 20 (open_line agg (tabs w)))"
proof -
  have a: "re_acquire env key AGGREGATE_LEASE_TTL_MS w = (Inr (Some l), w1)"
    using assms(3) by (simp add: AGGREGATE_LEASE_TTL_MS_def)
  obtain r2 s2 w2 where r: "relay_rows env agg l ROWS_PER_AGGREGATE s w1 = (r2, s2, w2)"
    and l2: "open_line agg (tabs w2) = drop 20 (open_line agg (tabs w))"
    and m2: "sent w2 = sent w @ map (\<lambda>r. (outbox_message_of (re_iso env) r, Settled (Inr ())))
        (take 20 (open_line agg (tabs w)))"
    using calm_rows [OF assms(1), of w1 agg l ROWS_PER_AGGREGATE s] assms(4-7)
    by (auto simp: ROWS_PER_AGGREGATE_def)
  obtain r3 w3 where st: "settleHead (re_exec env) (re_clock env) agg w2 = (r3, w3)" by force
  have w': "w' = snd (re_release env l w3)" using assms(2,8) a r st by (simp add: relayAggregate_def)
  have "t_rows (tabs w3) = t_rows (tabs w2)"
    by (rule settleHead_same_rows [OF st calm_db_ok [OF assms(1)]])
  moreover have "sent w3 = sent w2" by (rule calm_run [OF settleHead_run [OF st] assms(1)])
  moreover have "tabs w' = tabs w3" "sent w' = sent w3" using assms(1) unfolding w' calm_def by blast+
  ultimately show ?thesis using l2 m2 by (simp add: open_line_def)
qed

definition calm_relay :: "sure_world relay_env" where
  "calm_relay = (sure_relay 7)\<lparr>re_acquire := (\<lambda>k ttl w. (Inr (Some \<lparr>lease_key = k, lease_token = ''t''\<rparr>), w)),
     re_renew := (\<lambda>_ _ w. (Inr True, w)), re_release := (\<lambda>_ w. (Inr True, w))\<rparr>"

lemma calm_relay_calm: "calm calm_relay (\<lambda>(t, _, _). t) (\<lambda>(_, _, ms). ms)"
  by (auto simp: calm_def calm_relay_def sure_relay_def sure_db_def split: prod.splits)

lemma relay_drains_aggregate_witness:
  "\<exists>res s' t' db' ms'. relayAggregate calm_relay ''a'' relay_init (example_tables, \<lambda>_. None, []) = (res, s', t', db', ms')
    \<and> open_line ''a'' t' = [] \<and> length ms' = 1"
proof -
  let ?w = "(example_tables, \<lambda>_. None, []) :: sure_world"
  have line: "open_line ''a'' example_tables = [example_row]"
    by (simp add: open_line_def example_tables_def example_row_def is_open_def OPEN_STATUSES_def)
  obtain key where k: "global OUTBOX_AGGREGATE_LEASE (re_vars calm_relay) [''a''] = Inr key"
  proof -
    have "\<not> isl (global OUTBOX_AGGREGATE_LEASE (\<lambda>_. None) [''a''])" by code_simp
    then show thesis using that
      by (cases "global OUTBOX_AGGREGATE_LEASE (\<lambda>_. None) [''a'']") (simp_all add: calm_relay_def sure_relay_def)
  qed
  have a: "re_acquire calm_relay key 45000 ?w = (Inr (Some \<lparr>lease_key = key, lease_token = ''t''\<rparr>), ?w)"
    by (simp add: calm_relay_def)
  obtain res s' t' db' ms' where e: "relayAggregate calm_relay ''a'' relay_init ?w = (res, s', t', db', ms')"
    by (cases "relayAggregate calm_relay ''a'' relay_init ?w") auto
  have "distinct_rows example_tables" by (simp add: distinct_rows_def example_tables_def)
  then show ?thesis
    using relay_drains_aggregate [OF calm_relay_calm k a _ _ _ _ e] line e by (simp add: example_row_def)
qed

end
