(* ===== verification/Effects.thy ===== *)
theory Effects
  imports Errors
begin

text \<open>
  Asynchronous code over a world: an effect takes the world as it is when it starts and
  answers a value or a thrown error, with the world it leaves. \<open>andThen\<close> is \<open>await\<close> followed by
  the rest, \<open>rescue\<close> is \<open>try/catch\<close>, \<open>forget\<close> is a call whose promise is not awaited and whose
  failure is logged; \<open>both\<close> is \<open>Promise.all\<close> of two calls. The world contains the other
  callers, so a step may change anything they may change.
\<close>

type_synonym ('w, 'a) eff = "'w \<Rightarrow> (thrown + 'a) \<times> 'w"

definition ret :: "'a \<Rightarrow> ('w, 'a) eff" where
  "ret x w = (Inr x, w)"

definition raise :: "thrown \<Rightarrow> ('w, 'a) eff" where
  "raise e w = (Inl e, w)"

definition lift :: "thrown + 'a \<Rightarrow> ('w, 'a) eff" where
  "lift r w = (r, w)"

definition asks :: "('w \<Rightarrow> 'a) \<Rightarrow> ('w, 'a) eff" where
  "asks f w = (Inr (f w), w)"

definition andThen :: "('w, 'a) eff \<Rightarrow> ('a \<Rightarrow> ('w, 'b) eff) \<Rightarrow> ('w, 'b) eff" where
  "andThen f g w = (case f w of (Inl e, w') \<Rightarrow> (Inl e, w') | (Inr x, w') \<Rightarrow> g x w')"

definition rescue :: "('w, 'a) eff \<Rightarrow> (thrown \<Rightarrow> ('w, 'a) eff) \<Rightarrow> ('w, 'a) eff" where
  "rescue f h w = (case f w of (Inl e, w') \<Rightarrow> h e w' | (Inr x, w') \<Rightarrow> (Inr x, w'))"

definition forget :: "('w, 'a) eff \<Rightarrow> ('w, unit) eff" where
  "forget f w = (Inr (), snd (f w))"

text \<open>\<open>Promise.all\<close> starts every call and rejects with the first rejection in time; when both
  reject, \<open>first\<close> tells whether the first call did so first.\<close>

definition both :: "('w \<Rightarrow> bool) \<Rightarrow> ('w, 'a) eff \<Rightarrow> ('w, 'b) eff \<Rightarrow> ('w, 'a \<times> 'b) eff" where
  "both first f g w =
     (case f w of (x, w1) \<Rightarrow>
        (case g w1 of (y, w2) \<Rightarrow>
           ((case (x, y) of
               (Inr a, Inr b) \<Rightarrow> Inr (a, b)
             | (Inl e, Inr b) \<Rightarrow> Inl e
             | (Inr a, Inl e) \<Rightarrow> Inl e
             | (Inl e, Inl e') \<Rightarrow> Inl (if first w2 then e else e')), w2)))"

definition unless :: "bool \<Rightarrow> thrown \<Rightarrow> ('w, unit) eff" where
  "unless ok e = (if ok then ret () else raise e)"

subsection \<open>Running effects\<close>

lemma run_simps [simp]:
  "ret x w = (Inr x, w)" "raise e w = (Inl e, w)" "lift r w = (r, w)" "asks f w = (Inr (f w), w)"
  "forget g w = (Inr (), snd (g w))"
  by (simp_all add: ret_def raise_def lift_def asks_def forget_def)

lemma andThen_Inr [eff_simps]:
  "andThen f g w = (Inr y, w') \<longleftrightarrow> (\<exists>x w1. f w = (Inr x, w1) \<and> g x w1 = (Inr y, w'))"
  by (auto simp: andThen_def split: prod.splits sum.splits)

lemma andThen_Inl:
  "andThen f g w = (Inl e, w') \<longleftrightarrow>
     f w = (Inl e, w') \<or> (\<exists>x w1. f w = (Inr x, w1) \<and> g x w1 = (Inl e, w'))"
  by (auto simp: andThen_def split: prod.splits sum.splits)

lemma andThen_run:
  "f w = (Inr x, w1) \<Longrightarrow> andThen f g w = g x w1"
  "f w = (Inl e, w1) \<Longrightarrow> andThen f g w = (Inl e, w1)"
  by (simp_all add: andThen_def)

lemma andThen_pure [simp]:
  "andThen (ret x) g = g x" "andThen (raise e) g = raise e" "andThen (lift (Inr x)) g = g x"
  "andThen (lift (Inl e)) g = raise e"
  by (simp_all add: andThen_def fun_eq_iff)

lemma rescue_Inr [eff_simps]:
  "rescue f h w = (Inr y, w') \<longleftrightarrow>
     f w = (Inr y, w') \<or> (\<exists>e w1. f w = (Inl e, w1) \<and> h e w1 = (Inr y, w'))"
  by (auto simp: rescue_def split: prod.splits sum.splits)

lemma unless_Inr [eff_simps]: "unless ok e w = (Inr u, w') \<longleftrightarrow> ok \<and> w' = w"
  by (auto simp: unless_def)

lemma both_Inr [eff_simps]:
  "both first f g w = (Inr p, w') \<longleftrightarrow>
     (\<exists>w1. f w = (Inr (fst p), w1) \<and> g w1 = (Inr (snd p), w'))"
  by (cases p) (auto simp: both_def split: prod.splits sum.splits)

lemma lift_Inr [eff_simps]: "lift r w = (Inr x, w') \<longleftrightarrow> r = Inr x \<and> w' = w"
  by auto

subsection \<open>What an effect leaves as it was\<close>

definition keeps :: "('w \<Rightarrow> bool) \<Rightarrow> ('w, 'a) eff \<Rightarrow> bool" where
  "keeps P f \<longleftrightarrow> (\<forall>w. P w \<longrightarrow> P (snd (f w)))"

lemma keepsD: "keeps P f \<Longrightarrow> f w = (res, w') \<Longrightarrow> P w \<Longrightarrow> P w'"
  unfolding keeps_def by (metis snd_conv)

lemma keepsI: "(\<And>w res w'. f w = (res, w') \<Longrightarrow> P w \<Longrightarrow> P w') \<Longrightarrow> keeps P f"
  unfolding keeps_def by (metis prod.collapse)

lemma keeps_pure [keeps_intros]:
  "keeps P (ret x)" "keeps P (raise e)" "keeps P (lift r)" "keeps P (asks f)" "keeps P (unless ok e)"
  by (simp_all add: keeps_def unless_def)

lemma keeps_andThen [keeps_intros]: "keeps P f \<Longrightarrow> (\<And>x. keeps P (g x)) \<Longrightarrow> keeps P (andThen f g)"
  by (rule keepsI) (auto simp: andThen_def split: prod.splits sum.splits dest: keepsD)

lemma keeps_rescue [keeps_intros]: "keeps P f \<Longrightarrow> (\<And>e. keeps P (h e)) \<Longrightarrow> keeps P (rescue f h)"
  by (rule keepsI) (auto simp: rescue_def split: prod.splits sum.splits dest: keepsD)

lemma keeps_forget [keeps_intros]: "keeps P f \<Longrightarrow> keeps P (forget f)"
  by (simp add: keeps_def)

lemma keeps_both [keeps_intros]: "keeps P f \<Longrightarrow> keeps P g \<Longrightarrow> keeps P (both first f g)"
  by (rule keepsI) (auto simp: both_def split: prod.splits dest: keepsD)

lemma keeps_if [keeps_intros]: "(b \<Longrightarrow> keeps P f) \<Longrightarrow> (\<not> b \<Longrightarrow> keeps P g) \<Longrightarrow> keeps P (if b then f else g)"
  by simp

lemma keeps_option [keeps_intros]:
  "keeps P f \<Longrightarrow> (\<And>x. keeps P (g x)) \<Longrightarrow> keeps P (case v of None \<Rightarrow> f | Some x \<Rightarrow> g x)"
  by (cases v) simp_all

end
