(* ===== verification/Guards.thy ===== *)
theory Guards
  imports Tenancy Stores
begin

text \<open>
  Request signing (\<open>common/guards/signature.guard.ts\<close>, \<open>signature.constants.ts\<close>,
  \<open>api-key.service.ts\<close>) and HTTP throttling (\<open>ratelimit-throttler.storage.ts\<close>,
  \<open>throttler-behind-proxy.guard.ts\<close>). Parameters: \<open>Number\<close> on a string (\<open>None\<close> is NaN or
  infinite), \<open>JSON.parse\<close>, the signing capability, the tenant directory and the stores, the last
  through their ports.
\<close>

subsection \<open>API keys\<close>

record api_key =
  ak_secret :: string
  ak_tenantId :: string

text \<open>\<open>keys[id] = ...\<close> for each valid entry; assigning \<open>__proto__\<close> makes no own property.\<close>

fun api_key_entry :: "json \<Rightarrow> api_key option" where
  "api_key_entry (JObj ent) =
     (case (js_prop ent ''secret'', js_prop ent ''tenantId'') of
        (Some (JStr secret), Some (JStr tenant)) \<Rightarrow>
          if secret \<noteq> [] \<and> isTenantId tenant
          then Some \<lparr>ak_secret = secret, ak_tenantId = tenant\<rparr> else None
      | _ \<Rightarrow> None)"
| "api_key_entry _ = None"

fun collect_keys :: "(string \<times> json) list \<Rightarrow> (string \<Rightarrow> api_key option) \<Rightarrow> string \<Rightarrow> api_key option" where
  "collect_keys [] keys = keys"
| "collect_keys ((i, ent) # rest) keys =
     (case api_key_entry ent of
        Some k \<Rightarrow> collect_keys rest (if i = ''__proto__'' then keys else keys(i := Some k))
      | None \<Rightarrow> collect_keys rest keys)"

definition parseApiKeys :: "(string \<Rightarrow> json option) \<Rightarrow> string \<Rightarrow> string \<Rightarrow> api_key option" where
  "parseApiKeys parse raw =
     (case parse raw of
        Some (JObj parsed) \<Rightarrow> collect_keys parsed (\<lambda>_. None)
      | _ \<Rightarrow> (\<lambda>_. None))"

text \<open>\<open>ApiKeyService.getKey\<close> with its cache; the raw setting is read on first use.\<close>

type_synonym key_cache = "(string \<Rightarrow> api_key option) option"

definition getKey :: "(string \<Rightarrow> json option) \<Rightarrow> string \<Rightarrow> string \<Rightarrow> key_cache \<Rightarrow> api_key option \<times> key_cache" where
  "getKey parse raw keyId cache =
     (let keys = (case cache of Some ks \<Rightarrow> ks | None \<Rightarrow> parseApiKeys parse raw) in
      (keys keyId, Some keys))"

subsection \<open>The signature guard\<close>

definition SIGNATURE_MAX_SKEW_SECONDS :: nat where
  "SIGNATURE_MAX_SKEW_SECONDS = 300"

definition NONCE_TTL_SECONDS :: nat where
  "NONCE_TTL_SECONDS = SIGNATURE_MAX_SKEW_SECONDS"

definition SIGNATURE_NONCE_KEY :: key_builder where
  "SIGNATURE_NONCE_KEY =
     \<lparr>kb_spec = \<lparr>capability = ''dedup'', key_module = ''signature'', key_name = ''nonce'', version = ''v1''\<rparr>,
      kb_fixed = None\<rparr>"

lemma SIGNATURE_NONCE_KEY_defined: "defineKey (kb_spec SIGNATURE_NONCE_KEY) = Inr SIGNATURE_NONCE_KEY"
  by code_simp

record signed_request = http_request +
  sr_method :: string
  sr_originalUrl :: "string option"
  sr_url :: string
  sr_rawBody :: "string option"

record signature_input =
  si_method :: string
  si_path :: string
  si_timestamp :: string
  si_nonce :: string
  si_body :: string
  si_keyId :: string

text \<open>What the guard calls. \<open>sd_now\<close> is \<open>Date.now()\<close>, in milliseconds, of the call.\<close>

record 's signature_deps =
  sd_number :: "string \<Rightarrow> rat option"
  sd_env :: "string \<Rightarrow> string option"
  sd_getKey :: "string \<Rightarrow> api_key option"
  sd_verify :: "signature_input \<Rightarrow> string \<Rightarrow> string \<Rightarrow> thrown + bool"
  sd_findTenant :: "string \<Rightarrow> thrown + tenant_record option"
  sd_claim :: "nat \<Rightarrow> string \<Rightarrow> rat \<Rightarrow> string option \<Rightarrow> 's \<Rightarrow> (thrown + bool) \<times> 's"

definition key_thrown :: "key_error \<Rightarrow> thrown" where
  "key_thrown e = PlainError ''InvalidKeyError'' [] []"

definition req_header :: "'a http_request_scheme \<Rightarrow> string \<Rightarrow> string option" where
  "req_header req name = nonempty (header_first (req_headers req name))"

definition findTenant :: "(string \<Rightarrow> thrown + tenant_record option) \<Rightarrow> string \<Rightarrow> thrown + tenant_record option"
where
  "findTenant lookup i =
     (case lookup i of
        Inr r \<Rightarrow> Inr r
      | Inl err \<Rightarrow> Inl (if isAppError err then err else app_error_cause SERVICE_UNAVAILABLE err))"

definition signed_tenantHint :: "'a http_request_scheme \<Rightarrow> string option" where
  "signed_tenantHint req =
     (case req_header req ''x-tenant-id'' of
        Some h \<Rightarrow> Some h
      | None \<Rightarrow>
          (case req_query req of
             None \<Rightarrow> None
           | Some q \<Rightarrow> (case js_prop q ''tenant'' of Some (JStr s) \<Rightarrow> nonempty (Some s) | _ \<Rightarrow> None)))"

text \<open>The four signing headers, all present.\<close>

record signing_headers =
  sh_keyId :: string
  sh_timestamp :: string
  sh_nonce :: string
  sh_signature :: string

definition signing_headers_of :: "'a http_request_scheme \<Rightarrow> signing_headers option" where
  "signing_headers_of req =
     (case (req_header req ''x-api-key'', req_header req ''x-timestamp'', req_header req ''x-nonce'',
            req_header req ''x-signature'') of
        (Some k, Some t, Some n, Some s) \<Rightarrow>
          Some \<lparr>sh_keyId = k, sh_timestamp = t, sh_nonce = n, sh_signature = s\<rparr>
      | _ \<Rightarrow> None)"

definition timestamp_fresh :: "(string \<Rightarrow> rat option) \<Rightarrow> nat \<Rightarrow> string \<Rightarrow> bool" where
  "timestamp_fresh num now timestamp =
     (case num timestamp of
        None \<Rightarrow> False
      | Some ts \<Rightarrow>
          of_int \<lfloor>ts\<rfloor> = ts \<and> \<bar>of_nat (now div 1000) - ts\<bar> \<le> of_nat SIGNATURE_MAX_SKEW_SECONDS)"

definition signature_input_of :: "signed_request \<Rightarrow> signing_headers \<Rightarrow> signature_input" where
  "signature_input_of req h =
     \<lparr>si_method = sr_method req, si_path = option_or (sr_originalUrl req) (sr_url req),
      si_timestamp = sh_timestamp h, si_nonce = sh_nonce h, si_body = option_or (sr_rawBody req) [],
      si_keyId = sh_keyId h\<rparr>"

text \<open>Checks 1 to 6: the headers and the key of a request that may consume its nonce.\<close>

definition signature_checks ::
  "('s, 'b) signature_deps_scheme \<Rightarrow> nat \<Rightarrow> signed_request \<Rightarrow> thrown + signing_headers \<times> api_key" where
  "signature_checks deps now req =
     (case signing_headers_of req of
        None \<Rightarrow> Inl (app_error_detail SIGNATURE_INVALID
          ''Missing signing headers (X-Api-Key, X-Timestamp, X-Nonce, X-Signature)'')
      | Some h \<Rightarrow>
          if \<not> timestamp_fresh (sd_number deps) now (sh_timestamp h)
          then Inl (app_error_detail SIGNATURE_EXPIRED
            (''X-Timestamp outside the '' @ [CHR 0xB1] @ ''300s window''))
          else case sd_getKey deps (sh_keyId h) of
            None \<Rightarrow> Inl (app_error_detail API_KEY_UNKNOWN ''Unknown API key'')
          | Some key \<Rightarrow>
              (case sd_verify deps (signature_input_of req h) (sh_signature h) (ak_secret key) of
                 Inl e \<Rightarrow> Inl e
               | Inr valid \<Rightarrow>
                   if \<not> valid
                   then Inl (app_error_detail SIGNATURE_INVALID ''Signature verification failed'')
                   else if signed_tenantHint req \<notin> {None, Some (ak_tenantId key)}
                   then Inl (app_error_detail TENANT_MISMATCH ''The API key is bound to a different tenant'')
                   else case findTenant (sd_findTenant deps) (ak_tenantId key) of
                     Inl e \<Rightarrow> Inl e
                   | Inr r \<Rightarrow>
                       (case assertTenantActive r of Inl e \<Rightarrow> Inl e | Inr _ \<Rightarrow> Inr (h, key))))"

text \<open>\<open>SignatureGuard.canActivate\<close>.\<close>

definition signature_guard ::
  "('s, 'b) signature_deps_scheme \<Rightarrow> nat \<Rightarrow> signed_request \<Rightarrow> 's \<Rightarrow> (thrown + bool) \<times> signed_request \<times> 's"
where
  "signature_guard deps now req s =
     (case signature_checks deps now req of
        Inl e \<Rightarrow> (Inl e, req, s)
      | Inr (h, key) \<Rightarrow>
          (case global SIGNATURE_NONCE_KEY (sd_env deps) [sh_keyId h, sh_nonce h] of
             Inl e \<Rightarrow> (Inl (key_thrown e), req, s)
           | Inr k \<Rightarrow>
               (case sd_claim deps now k (of_nat NONCE_TTL_SECONDS) None s of
                  (Inl e, s') \<Rightarrow> (Inl e, req, s')
                | (Inr fresh, s') \<Rightarrow>
                    if \<not> fresh
                    then (Inl (app_error_detail NONCE_REUSED ''Nonce already used''), req, s')
                    else (Inr True,
                      req\<lparr>req_tenantId := Some (ak_tenantId key), req_tenantError := None\<rparr>, s'))))"

subsection \<open>Throttling\<close>

definition HTTP_THROTTLE_KEY :: key_builder where
  "HTTP_THROTTLE_KEY =
     \<lparr>kb_spec = \<lparr>capability = ''ratelimit'', key_module = ''http'', key_name = ''throttle'', version = ''v1''\<rparr>,
      kb_fixed = None\<rparr>"

lemma HTTP_THROTTLE_KEY_defined: "defineKey (kb_spec HTTP_THROTTLE_KEY) = Inr HTTP_THROTTLE_KEY"
  by code_simp

record throttler_record =
  th_totalHits :: rat
  th_timeToExpire :: rat
  th_isBlocked :: bool
  th_timeToBlockExpire :: rat

text \<open>\<open>RateLimitThrottlerStorage.increment\<close>: the record, the \<open>warned\<close> flag and the store. A key
  that cannot be built is inside the \<open>try\<close> and counts as an unavailable store.\<close>

definition throttler_increment ::
  "(string \<Rightarrow> rate_limit_policy \<Rightarrow> 's \<Rightarrow> (thrown + rate_limit_result) \<times> 's) \<Rightarrow> (string \<Rightarrow> string option)
   \<Rightarrow> string \<Rightarrow> rat \<Rightarrow> rat \<Rightarrow> string \<Rightarrow> bool \<times> 's \<Rightarrow> throttler_record \<times> bool \<times> 's" where
  "throttler_increment hit env key ttl limit throttler st =
     (case st of (warned, s) \<Rightarrow>
        let windowSeconds = max 1 (of_int \<lceil>ttl / 1000\<rceil>);
            unavailable = \<lparr>th_totalHits = 0, th_timeToExpire = windowSeconds, th_isBlocked = False,
                           th_timeToBlockExpire = 0\<rparr> in
        case global HTTP_THROTTLE_KEY env [throttler, key] of
          Inl _ \<Rightarrow> (unavailable, True, s)
        | Inr k \<Rightarrow>
            (case hit k \<lparr>rl_limit = limit, rl_windowSeconds = windowSeconds\<rparr> s of
               (Inr res, s') \<Rightarrow>
                 (\<lparr>th_totalHits = (if rl_allowed res then limit - rl_remaining res else limit + 1),
                   th_timeToExpire = of_int (rl_resetSeconds res), th_isBlocked = \<not> rl_allowed res,
                   th_timeToBlockExpire = (if rl_allowed res then 0 else of_int (rl_resetSeconds res))\<rparr>,
                  False, s')
             | (Inl _, s') \<Rightarrow> (unavailable, True, s')))"

definition retry_after_seconds :: "rat \<Rightarrow> int" where
  "retry_after_seconds timeToBlockExpire = max 1 \<lceil>timeToBlockExpire\<rceil>"

definition throttling_exception :: "rat \<Rightarrow> thrown" where
  "throttling_exception timeToBlockExpire =
     app_error_metadata RATE_LIMITED
       [(''retryAfterSeconds'', show_nat (nat (retry_after_seconds timeToBlockExpire)))]"

definition throttle_tracker :: "string list option \<Rightarrow> string option \<Rightarrow> string option" where
  "throttle_tracker ips ip = (case ips of Some (a # _) \<Rightarrow> Some a | _ \<Rightarrow> ip)"

text \<open>\<open>handleRequest\<close>: whether the request is passed on to the throttler's own check.\<close>

definition throttler_applies :: "string option \<Rightarrow> (string \<Rightarrow> bool) \<Rightarrow> bool" where
  "throttler_applies throttler declares =
     (let name = option_or throttler ''default'' in \<not> (name \<noteq> ''default'' \<and> \<not> declares name))"

subsection \<open>Lemmas\<close>

lemma signature_guard_accepts:
  assumes "signature_guard deps now req s = (Inr b, req', s')"
  obtains h key k where "b" "signature_checks deps now req = Inr (h, key)"
    "global SIGNATURE_NONCE_KEY (sd_env deps) [sh_keyId h, sh_nonce h] = Inr k"
    "sd_claim deps now k (of_nat NONCE_TTL_SECONDS) None s = (Inr True, s')"
    "req' = req\<lparr>req_tenantId := Some (ak_tenantId key), req_tenantError := None\<rparr>"
  using assms by (auto simp: signature_guard_def split: sum.splits prod.splits if_splits)

lemma signature_guard_admitted:
  assumes "signature_guard deps now req s = (Inr b, req', s')"
  shows "\<exists>h key k. signature_checks deps now req = Inr (h, key)
    \<and> global SIGNATURE_NONCE_KEY (sd_env deps) [sh_keyId h, sh_nonce h] = Inr k
    \<and> sd_claim deps now k (of_nat NONCE_TTL_SECONDS) None s = (Inr True, s')"
  using assms by (auto elim!: signature_guard_accepts)

lemma signature_checks_Inr:
  assumes "signature_checks deps now req = Inr (h, key)"
  shows "signing_headers_of req = Some h \<and> timestamp_fresh (sd_number deps) now (sh_timestamp h)
    \<and> sd_getKey deps (sh_keyId h) = Some key
    \<and> sd_verify deps (signature_input_of req h) (sh_signature h) (ak_secret key) = Inr True
    \<and> signed_tenantHint req \<in> {None, Some (ak_tenantId key)}
    \<and> (\<exists>t. sd_findTenant deps (ak_tenantId key) = Inr (Some t) \<and> tr_status t = TenantActive)"
  using assms
  by (auto simp: signature_checks_def findTenant_def assertTenantActive_def
    split: option.splits sum.splits if_splits)

text \<open>A time passes and guarded requests are handled, over one dedup store.\<close>

inductive guard_run ::
  "('s, 'b) signature_deps_scheme \<Rightarrow> nat \<Rightarrow> 's \<Rightarrow> nat \<Rightarrow> 's \<Rightarrow> bool" for deps where
  wait: "n \<le> n' \<Longrightarrow> guard_run deps n s n' s"
| guard: "guard_run deps n s n1 s1 \<Longrightarrow> n1 \<le> n2 \<Longrightarrow> signature_guard deps n2 req s1 = (res, req', s2)
    \<Longrightarrow> guard_run deps n s n2 s2"

context dedup_port
begin

lemma anonymous_claim_keeps:
  assumes "claim now k ttl None s = (res, s')" "marker now s j = Some ANONYMOUS_OWNER" "now \<le> t"
  shows "marker t s' j = marker t s j"
  using claim_keeps [OF assms(1) _ assms(3)] assms(2) by blast

lemma guard_state:
  assumes "signature_guard deps now req s = (res, req', s')" "sd_claim deps = claim"
    "marker now s j = Some ANONYMOUS_OWNER" "now \<le> t"
  shows "marker t s' j = marker t s j"
  using assms anonymous_claim_keeps
  by (auto simp: signature_guard_def split: sum.splits prod.splits if_splits)

text \<open>A consumed nonce stays consumed until its marker's deadline.\<close>

lemma nonce_stays:
  assumes "guard_run deps n s n' s'" "sd_claim deps = claim"
    and "\<forall>t. n \<le> t \<and> t < deadline \<longrightarrow> marker t s k = Some ANONYMOUS_OWNER"
  shows "\<forall>t. n' \<le> t \<and> t < deadline \<longrightarrow> marker t s' k = Some ANONYMOUS_OWNER"
  using assms
proof induction
  case (guard n s n1 s1 n2 req res req' s2)
  show ?case
  proof (intro allI impI)
    fix t assume t: "n2 \<le> t \<and> t < deadline"
    then have m: "marker n2 s1 k = Some ANONYMOUS_OWNER" using guard by (meson le_trans order_le_less_trans order_refl)
    show "marker t s2 k = Some ANONYMOUS_OWNER"
      using guard_state [OF guard.hyps(3) guard.prems(1) m] guard t by auto
  qed
qed auto

end

text \<open>A concrete signed request, admitted.\<close>

definition example_deps :: "redis_db signature_deps" where
  "example_deps = \<lparr>sd_number = (\<lambda>_. Some 0), sd_env = (\<lambda>_. None),
     sd_getKey = (\<lambda>_. Some \<lparr>ak_secret = ''s'', ak_tenantId = ''acme''\<rparr>), sd_verify = (\<lambda>_ _ _. Inr True),
     sd_findTenant = (\<lambda>_. Inr (Some \<lparr>tr_id = ''acme'', tr_name = [], tr_status = TenantActive, tr_selfSignup = False\<rparr>)),
     sd_claim = dedup_claim sure_exec sure_pipe\<rparr>"

definition example_request :: signed_request where
  "example_request = \<lparr>req_headers = (\<lambda>h. if starts_with ''x-'' h \<and> h \<noteq> ''x-tenant-id'' then Some (HeaderOne h) else None),
     req_query = None, req_credentials = None, req_tenantId = None, req_tenantError = None, req_user = None,
     sr_method = ''POST'', sr_originalUrl = None, sr_url = ''/'', sr_rawBody = None\<rparr>"

lemma example_headers: "signing_headers_of example_request = Some \<lparr>sh_keyId = ''x-api-key'',
    sh_timestamp = ''x-timestamp'', sh_nonce = ''x-nonce'', sh_signature = ''x-signature''\<rparr>"
  by (simp add: signing_headers_of_def req_header_def header_first_def example_request_def starts_with_def)

lemma example_admitted:
  "\<exists>req1 db1. signature_guard example_deps 0 example_request (\<lambda>_. None) = (Inr True, req1, db1)"
proof -
  have "\<not> isl (global SIGNATURE_NONCE_KEY (\<lambda>_. None) [''x-api-key'', ''x-nonce''])" by code_simp
  then obtain k where k: "global SIGNATURE_NONCE_KEY (\<lambda>_. None) [''x-api-key'', ''x-nonce''] = Inr k"
    by (metis sum.exhaust_sel isl_def)
  have c: "signature_checks example_deps 0 example_request =
      Inr (\<lparr>sh_keyId = ''x-api-key'', sh_timestamp = ''x-timestamp'', sh_nonce = ''x-nonce'',
             sh_signature = ''x-signature''\<rparr>, \<lparr>ak_secret = ''s'', ak_tenantId = ''acme''\<rparr>)"
    by (simp add: signature_checks_def example_headers)
      (simp add: example_deps_def example_request_def timestamp_fresh_def signed_tenantHint_def req_header_def
        header_first_def findTenant_def assertTenantActive_def starts_with_def SIGNATURE_MAX_SKEW_SECONDS_def)
  show ?thesis
    using k by (simp add: signature_guard_def c)
      (simp add: example_deps_def dedup_claim_def claimMany_def Let_def assertPositiveInteger_def sure_pipe_def
        sure_exec_def first_answer_def first_failure_def replies_or_none_def store_simps NONCE_TTL_SECONDS_def
        SIGNATURE_MAX_SKEW_SECONDS_def)
qed

subsection \<open>Properties\<close>

text \<open>The signature guard admits a request only when every check holds: all four headers,
  a timestamp within 300 s of the clock, a known key, a signature that verifies over the
  request's own method, path, timestamp, nonce and body, no contradicting tenant hint, an
  active tenant and a nonce claimed just now; the request then runs in the key's tenant. A
  request that fails an earlier check leaves the nonce store untouched.\<close>

theorem signature_guard_admits_only_signed:
  assumes "signature_guard deps now req s = (res, req', s')"
  shows "case signature_checks deps now req of
      Inl e \<Rightarrow> res = Inl e \<and> s' = s \<and> req' = req
    | Inr (h, key) \<Rightarrow>
        signing_headers_of req = Some h \<and> timestamp_fresh (sd_number deps) now (sh_timestamp h)
        \<and> sd_getKey deps (sh_keyId h) = Some key
        \<and> sd_verify deps (signature_input_of req h) (sh_signature h) (ak_secret key) = Inr True
        \<and> signed_tenantHint req \<in> {None, Some (ak_tenantId key)}
        \<and> (\<exists>t. sd_findTenant deps (ak_tenantId key) = Inr (Some t) \<and> tr_status t = TenantActive)
        \<and> (\<forall>b. res = Inr b \<longrightarrow> b \<and> req_tenantId req' = Some (ak_tenantId key) \<and> req_tenantError req' = None
            \<and> (\<exists>k. global SIGNATURE_NONCE_KEY (sd_env deps) [sh_keyId h, sh_nonce h] = Inr k
                 \<and> sd_claim deps now k 300 None s = (Inr True, s')))"
proof (cases "signature_checks deps now req")
  case (Inl e)
  then show ?thesis using assms by (simp add: signature_guard_def)
next
  case (Inr hk)
  obtain h key where hk: "hk = (h, key)" by force
  have "\<forall>b. res = Inr b \<longrightarrow> b \<and> req_tenantId req' = Some (ak_tenantId key) \<and> req_tenantError req' = None
            \<and> (\<exists>k. global SIGNATURE_NONCE_KEY (sd_env deps) [sh_keyId h, sh_nonce h] = Inr k
                 \<and> sd_claim deps now k 300 None s = (Inr True, s'))"
    using assms Inr hk
    by (auto simp: NONCE_TTL_SECONDS_def SIGNATURE_MAX_SKEW_SECONDS_def elim: signature_guard_accepts)
  then show ?thesis using signature_checks_Inr Inr hk by fastforce
qed

lemma signature_guard_admits_only_signed_witness:
  "\<exists>h. signing_headers_of example_request = Some h \<and>
     sd_verify example_deps (signature_input_of example_request h) (sh_signature h) ''s'' = Inr True"
proof -
  obtain req1 db1 where g: "signature_guard example_deps 0 example_request (\<lambda>_. None) = (Inr True, req1, db1)"
    using example_admitted by blast
  obtain h key where "signature_checks example_deps 0 example_request = Inr (h, key)"
    using signature_guard_admitted [OF g] by blast
  then show ?thesis
    using signature_guard_admits_only_signed [OF g] by (auto simp: example_deps_def)
qed

text \<open>C26: A nonce is single use for its 300 seconds: once the guard has admitted a request, and
  whatever requests it handles next, no request with the same key and nonce is admitted before
  300 seconds have passed.\<close>

theorem signature_nonce_single_use:
  assumes "redis_server exec pipe view" and "sd_claim deps = dedup_claim exec pipe"
    and "signature_guard deps now req s = (Inr True, req1, s1)"
    and "guard_run deps now s1 now' s2" and "now' < now + 300000"
    and "signing_headers_of req = Some h" and "signing_headers_of req2 = Some h2"
    and "sh_keyId h2 = sh_keyId h" and "sh_nonce h2 = sh_nonce h"
  shows "fst (signature_guard deps now' req2 s2) \<noteq> Inr True"
proof
  assume again: "fst (signature_guard deps now' req2 s2) = Inr True"
  have port: "dedup_port (dedup_claim exec pipe) (dedup_extend pipe) (dedup_release pipe) (\<lambda>t r. live t (view r))"
    by (rule redis_server.dedup_port_ok [OF assms(1)])
  obtain h1 key k where a: "signature_checks deps now req = Inr (h1, key)"
    "global SIGNATURE_NONCE_KEY (sd_env deps) [sh_keyId h1, sh_nonce h1] = Inr k"
    "sd_claim deps now k (of_nat NONCE_TTL_SECONDS) None s = (Inr True, s1)"
    using signature_guard_admitted [OF assms(3)] by blast
  have h1: "h1 = h" using signature_checks_Inr [OF a(1)] assms(6) by simp
  have ttl: "NONCE_TTL_SECONDS = 300"
    by (simp add: NONCE_TTL_SECONDS_def SIGNATURE_MAX_SKEW_SECONDS_def)
  have "\<forall>t. now \<le> t \<and> t < now + 300000 \<longrightarrow> live t (view s1) k = Some ANONYMOUS_OWNER"
    using dedup_port.claim_won [OF port a(3) [unfolded assms(2)]] by (simp add: ttl marker_owner_def)
  from dedup_port.nonce_stays [OF port assms(4,2) this]
  have "live now' (view s2) k \<noteq> None" using assms(5) by auto
  then have no: "fst (dedup_claim exec pipe now' k ttl None s2) \<noteq> Inr True" for ttl
    by (rule dedup_port.claim_at_most_once [OF port])
  obtain res3 req3 s3 where g: "signature_guard deps now' req2 s2 = (Inr True, req3, s3)"
    using again by (metis prod.collapse)
  obtain h3 key3 k3 where b: "signature_checks deps now' req2 = Inr (h3, key3)"
    "global SIGNATURE_NONCE_KEY (sd_env deps) [sh_keyId h3, sh_nonce h3] = Inr k3"
    "sd_claim deps now' k3 (of_nat NONCE_TTL_SECONDS) None s2 = (Inr True, s3)"
    using signature_guard_admitted [OF g] by blast
  have "h3 = h2" using signature_checks_Inr [OF b(1)] assms(7) by simp
  then have "k3 = k" using a(2) b(2) h1 assms(8,9) by simp
  then show False using no [of "of_nat NONCE_TTL_SECONDS"] b(3) assms(2) by (metis fst_conv)
qed

lemma signature_nonce_single_use_witness:
  "\<exists>s1. fst (signature_guard example_deps 299999 example_request s1) \<noteq> Inr True"
proof -
  obtain req1 db1 where g: "signature_guard example_deps 0 example_request (\<lambda>_. None) = (Inr True, req1, db1)"
    using example_admitted by blast
  have r: "guard_run example_deps 0 db1 299999 db1" by (rule guard_run.wait) simp
  have c: "sd_claim example_deps = dedup_claim sure_exec sure_pipe" by (simp add: example_deps_def)
  show ?thesis
    using signature_nonce_single_use [OF sure.redis_server_axioms c g r _ example_headers example_headers]
    by auto
qed

text \<open>But the nonce is forgotten inside the validity window of the signature: a request
  whose timestamp is not behind the clock, once admitted, is admitted a second time 300
  seconds later, when its nonce has expired and its timestamp is still within the skew.\<close>

theorem signature_replay_after_nonce_expiry:
  assumes "sd_claim deps = dedup_claim sure_exec sure_pipe"
    and "signature_guard deps now req db = (Inr True, req1, db1)"
    and "signing_headers_of req = Some h" and "sd_number deps (sh_timestamp h) = Some ts"
    and "of_nat (now div 1000) \<le> ts"
  shows "fst (signature_guard deps (now + 300000) req db1) = Inr True"
proof -
  obtain h1 key k where a: "signature_checks deps now req = Inr (h1, key)"
    "global SIGNATURE_NONCE_KEY (sd_env deps) [sh_keyId h1, sh_nonce h1] = Inr k"
    "sd_claim deps now k (of_nat NONCE_TTL_SECONDS) None db = (Inr True, db1)"
    using signature_guard_admitted [OF assms(2)] by blast
  note c = signature_checks_Inr [OF a(1)]
  have h1: "h1 = h" using c assms(3) by simp
  have fresh: "timestamp_fresh (sd_number deps) (now + 300000) (sh_timestamp h)"
  proof -
    have "(now + 300000) div 1000 = now div 1000 + 300" by simp
    then show ?thesis using c assms(4,5) h1
      by (auto simp: timestamp_fresh_def SIGNATURE_MAX_SKEW_SECONDS_def)
  qed
  have checks: "signature_checks deps (now + 300000) req = Inr (h, key)"
    using a(1) c fresh h1
    by (auto simp: signature_checks_def findTenant_def assertTenantActive_def split: option.splits sum.splits)
  have ttl: "NONCE_TTL_SECONDS = 300" "positive_integer (of_nat NONCE_TTL_SECONDS)"
    by (simp_all add: NONCE_TTL_SECONDS_def SIGNATURE_MAX_SKEW_SECONDS_def)
  have "\<forall>t \<ge> now. live t db1 k = (if t < now + 300000 then Some (marker_owner None) else None)"
    using dedup_port.claim_won [OF sure.dedup_port_ok a(3) [unfolded assms(1)]] ttl by simp
  then have free: "live (now + 300000) db1 k = None" by auto
  have "fst (dedup_claim sure_exec sure_pipe (now + 300000) k (of_nat NONCE_TTL_SECONDS) None db1) = Inr True"
    using free ttl(2)
    by (simp add: dedup_claim_def claimMany_def Let_def assertPositiveInteger_def sure_pipe_def sure_exec_def
      first_answer_def first_failure_def replies_or_none_def)
  then obtain db2 where "sd_claim deps (now + 300000) k (of_nat NONCE_TTL_SECONDS) None db1 = (Inr True, db2)"
    using assms(1) by (metis prod.collapse)
  then show ?thesis using checks a(2) h1 by (simp add: signature_guard_def)
qed

lemma signature_replay_after_nonce_expiry_witness:
  "\<exists>db1. fst (signature_guard example_deps 300000 example_request db1) = Inr True"
proof -
  obtain req1 db1 where g: "signature_guard example_deps 0 example_request (\<lambda>_. None) = (Inr True, req1, db1)"
    using example_admitted by blast
  have c: "sd_claim example_deps = dedup_claim sure_exec sure_pipe" by (simp add: example_deps_def)
  show ?thesis
    using signature_replay_after_nonce_expiry [OF c g example_headers, of 0] by (auto simp: example_deps_def)
qed

text \<open>HTTP throttling fails open and only open: the record blocks a request exactly when the
  store answered that the limit is used up, an unavailable store blocks nothing, and a
  rejected request is told to wait at least one second.\<close>

theorem throttler_blocks_only_on_answer:
  assumes "throttler_increment hit env key ttl limit throttler (warned, s) = (r, warned', s')"
  shows "(th_isBlocked r \<longleftrightarrow> (\<exists>k res s1. global HTTP_THROTTLE_KEY env [throttler, key] = Inr k
        \<and> hit k \<lparr>rl_limit = limit, rl_windowSeconds = max 1 (of_int \<lceil>ttl / 1000\<rceil>)\<rparr> s = (Inr res, s1)
        \<and> \<not> rl_allowed res))
    \<and> (warned' \<longrightarrow> \<not> th_isBlocked r \<and> th_totalHits r = 0)
    \<and> 1 \<le> retry_after_seconds (th_timeToBlockExpire r)"
  using assms
  by (auto simp: throttler_increment_def Let_def retry_after_seconds_def split: sum.splits prod.splits)

lemma throttler_blocks_only_on_answer_witness:
  "\<not> th_isBlocked (fst (throttler_increment (\<lambda>_ _ s. (Inl (NonError JNull), s)) (\<lambda>_. None) ''1.2.3.4'' 60000 10
     ''default'' (False, ())))"
  using throttler_blocks_only_on_answer [of "\<lambda>_ _ s. (Inl (NonError JNull), s)" "\<lambda>_. None" "''1.2.3.4''"
    60000 10 "''default''" False "()"]
  by (metis Inl_Inr_False fst_conv prod.inject surj_pair)

end
