(* ===== verification/Auth.thy ===== *)
theory Auth
  imports Effects Guards
begin

text \<open>
  Password login, refresh tokens and access tokens: \<open>modules/auth/constants/auth.constants.ts\<close>
  and \<open>modules/auth/services/{session,login-lockout,token-verifier,auth}.service.ts\<close>. What the
  services call is a record of effects over a world: the kv, rate limit, tenant and user
  ports, bcrypt, the JWT library, the digests of Node's crypto, \<open>JSON\<close> and \<open>Buffer\<close> codecs,
  random ids and the clock.
\<close>

subsection \<open>Constants\<close>

definition auth_key :: "string \<Rightarrow> string \<Rightarrow> string \<Rightarrow> key_builder" where
  "auth_key cap m name =
     \<lparr>kb_spec = \<lparr>capability = cap, key_module = m, key_name = name, version = ''v1''\<rparr>, kb_fixed = None\<rparr>"

definition TOKEN_REVOKED_KEY :: key_builder where
  "TOKEN_REVOKED_KEY = auth_key ''kv'' ''auth'' ''token-revoked''"

definition REFRESH_TOKEN_KEY :: key_builder where
  "REFRESH_TOKEN_KEY = auth_key ''kv'' ''auth'' ''refresh-token''"

definition SESSION_KEY :: key_builder where
  "SESSION_KEY = auth_key ''kv'' ''auth'' ''session''"

definition LOGIN_EMAIL_RATE_LIMIT :: key_builder where
  "LOGIN_EMAIL_RATE_LIMIT = auth_key ''ratelimit'' ''auth'' ''login-email''"

definition LOGIN_IP_RATE_LIMIT :: key_builder where
  "LOGIN_IP_RATE_LIMIT = auth_key ''ratelimit'' ''auth'' ''login-ip''"

definition LOGIN_LOCKOUT_KEY :: key_builder where
  "LOGIN_LOCKOUT_KEY = auth_key ''kv'' ''auth'' ''login-lockout''"

definition RPC_LOGIN_RATE_LIMIT :: key_builder where
  "RPC_LOGIN_RATE_LIMIT = auth_key ''ratelimit'' ''auth'' ''rpc-login-email''"

definition ACCOUNT_SUSPENDED_KEY :: key_builder where
  "ACCOUNT_SUSPENDED_KEY = auth_key ''kv'' ''user'' ''account-suspended''"

definition REFRESH_TOKEN_TTL_SECONDS :: nat where "REFRESH_TOKEN_TTL_SECONDS = 7 * 24 * 60 * 60"
definition SESSION_TTL_SECONDS :: nat where "SESSION_TTL_SECONDS = 7 * 24 * 60 * 60"
definition LOCKOUT_MAX_ATTEMPTS :: nat where "LOCKOUT_MAX_ATTEMPTS = 5"
definition LOCKOUT_EMAIL_MAX :: nat where "LOCKOUT_EMAIL_MAX = 30"
definition LOCKOUT_WINDOW_S :: nat where "LOCKOUT_WINDOW_S = 15 * 60"

definition RPC_LOGIN_RATE_LIMIT_POLICY :: rate_limit_policy where
  "RPC_LOGIN_RATE_LIMIT_POLICY = \<lparr>rl_limit = 10, rl_windowSeconds = 60\<rparr>"

definition IP_POLICY :: rate_limit_policy where
  "IP_POLICY = \<lparr>rl_limit = of_nat LOCKOUT_MAX_ATTEMPTS, rl_windowSeconds = of_nat LOCKOUT_WINDOW_S\<rparr>"

definition EMAIL_POLICY :: rate_limit_policy where
  "EMAIL_POLICY = \<lparr>rl_limit = of_nat LOCKOUT_EMAIL_MAX, rl_windowSeconds = of_nat LOCKOUT_WINDOW_S\<rparr>"

text \<open>Every builder passes the checks of \<open>defineKey\<close>.\<close>

lemma auth_keys_defined:
  "list_all (\<lambda>b. defineKey (kb_spec b) = Inr b)
     [TOKEN_REVOKED_KEY, REFRESH_TOKEN_KEY, SESSION_KEY, LOGIN_EMAIL_RATE_LIMIT, LOGIN_IP_RATE_LIMIT,
      LOGIN_LOCKOUT_KEY, RPC_LOGIN_RATE_LIMIT, ACCOUNT_SUSPENDED_KEY]"
  by code_simp

subsection \<open>What the services call\<close>

datatype user_status = UserActive | UserInactive

record member_access =
  ma_status :: user_status
  ma_roles :: "string list"
  ma_tokenVersion :: "rat option"

record auth_user =
  au_id :: string
  au_email :: string
  au_passwordHash :: "string option"
  au_roles :: "string list option"
  au_tenantId :: string
  au_status :: user_status
  au_tokenVersion :: "rat option"

text \<open>\<open>ax_jwtVerify\<close> is \<open>jwt.verify\<close> with HS256 at the world's time: \<open>None\<close> when it throws.\<close>

record 'w auth_deps =
  ax_env :: "string \<Rightarrow> string option"
  ax_secret :: string
  ax_now :: "'w \<Rightarrow> nat"
  ax_first :: "'w \<Rightarrow> bool"
  ax_kvGet :: "string \<Rightarrow> ('w, json option) eff"
  ax_kvSet :: "string \<Rightarrow> json option \<Rightarrow> kv_write_options \<Rightarrow> ('w, unit) eff"
  ax_kvDel :: "string \<Rightarrow> ('w, bool) eff"
  ax_kvExists :: "string \<Rightarrow> ('w, bool) eff"
  ax_hit :: "string \<Rightarrow> rate_limit_policy \<Rightarrow> ('w, rate_limit_result) eff"
  ax_findTenant :: "string \<Rightarrow> ('w, tenant_record option) eff"
  ax_findMember :: "string \<Rightarrow> string \<Rightarrow> ('w, member_access option) eff"
  ax_findByEmail :: "string \<Rightarrow> string \<Rightarrow> ('w, auth_user option) eff"
  ax_findById :: "string \<Rightarrow> string \<Rightarrow> ('w, auth_user option) eff"
  ax_recordLogin :: "string \<Rightarrow> string \<Rightarrow> ('w, unit) eff"
  ax_bcrypt :: "string \<Rightarrow> string \<Rightarrow> ('w, bool) eff"
  ax_uuid :: "('w, string) eff"
  ax_jwtSign :: "(string \<times> json) list \<Rightarrow> ('w, string) eff"
  ax_jwtVerify :: "string \<Rightarrow> string \<Rightarrow> 'w \<Rightarrow> json option"
  ax_sha256 :: "string \<Rightarrow> string"
  ax_hmac :: "string \<Rightarrow> string \<Rightarrow> string"
  ax_stringify :: "json \<Rightarrow> string"
  ax_parse :: "string \<Rightarrow> json option"
  ax_toBase64url :: "string \<Rightarrow> string"
  ax_fromBase64url :: "string \<Rightarrow> string"

text \<open>A key as the builders make it: an invalid part throws.\<close>

definition keyed :: "key_error + 'a \<Rightarrow> ('w, 'a) eff" where
  "keyed k = lift (case k of Inl e \<Rightarrow> Inl (key_thrown e) | Inr x \<Rightarrow> Inr x)"

definition tenant_key ::
  "('w, 'm) auth_deps_scheme \<Rightarrow> key_builder \<Rightarrow> string \<Rightarrow> string list \<Rightarrow> ('w, string) eff" where
  "tenant_key d b tenant ids = keyed (forTenant b (ax_env d) tenant ids)"

definition global_key ::
  "('w, 'm) auth_deps_scheme \<Rightarrow> key_builder \<Rightarrow> string list \<Rightarrow> ('w, string) eff" where
  "global_key d b ids = keyed (global b (ax_env d) ids)"

definition for_seconds :: "rat \<Rightarrow> kv_write_options" where
  "for_seconds s = \<lparr>kw_ttlSeconds = Some s, kw_persistent = None\<rparr>"

subsection \<open>Sessions\<close>

record session_record =
  sn_userId :: string
  sn_email :: string
  sn_loginAt :: rat
  sn_ip :: string

definition session_json :: "session_record \<Rightarrow> json" where
  "session_json s = JObj [(''userId'', JStr (sn_userId s)), (''email'', JStr (sn_email s)),
     (''loginAt'', JNum (sn_loginAt s)), (''ip'', JStr (sn_ip s))]"

definition session_create ::
  "('w, 'm) auth_deps_scheme \<Rightarrow> string \<Rightarrow> string \<Rightarrow> string \<Rightarrow> string \<Rightarrow> ('w, unit) eff" where
  "session_create d tenant userId email ip =
     rescue
       (andThen (asks (ax_now d)) (\<lambda>now.
        andThen (tenant_key d SESSION_KEY tenant [userId]) (\<lambda>k.
        ax_kvSet d k
          (Some (session_json \<lparr>sn_userId = userId, sn_email = email, sn_loginAt = of_nat now, sn_ip = ip\<rparr>))
          (for_seconds (of_nat SESSION_TTL_SECONDS)))))
       (\<lambda>_. ret ())"

text \<open>\<open>(await get(...)) ?? null\<close>: the stored value, \<open>None\<close> for \<open>null\<close> and on failure.\<close>

definition session_get :: "('w, 'm) auth_deps_scheme \<Rightarrow> string \<Rightarrow> string \<Rightarrow> ('w, json option) eff" where
  "session_get d tenant userId =
     rescue (andThen (tenant_key d SESSION_KEY tenant [userId]) (\<lambda>k.
        andThen (ax_kvGet d k) (\<lambda>v. ret (if v = Some JNull then None else v)))) (\<lambda>_. ret None)"

definition session_invalidate :: "('w, 'm) auth_deps_scheme \<Rightarrow> string \<Rightarrow> string \<Rightarrow> ('w, unit) eff" where
  "session_invalidate d tenant userId =
     rescue
       (andThen (tenant_key d SESSION_KEY tenant [userId]) (\<lambda>k.
        andThen (ax_kvDel d k) (\<lambda>_. ret ())))
       (\<lambda>_. ret ())"

subsection \<open>Login lockout\<close>

definition lockout_ip_key ::
  "('w, 'm) auth_deps_scheme \<Rightarrow> string \<Rightarrow> string \<Rightarrow> string \<Rightarrow> ('w, string) eff" where
  "lockout_ip_key d tenant normalized ip = tenant_key d LOGIN_LOCKOUT_KEY tenant [''ip'', normalized, ip]"

definition lockout_email_key :: "('w, 'm) auth_deps_scheme \<Rightarrow> string \<Rightarrow> string \<Rightarrow> ('w, string) eff" where
  "lockout_email_key d tenant normalized = tenant_key d LOGIN_LOCKOUT_KEY tenant [''email'', normalized]"

definition isMarked :: "('w, 'm) auth_deps_scheme \<Rightarrow> string \<Rightarrow> ('w, bool) eff" where
  "isMarked d k = rescue (ax_kvExists d k) (\<lambda>_. ret False)"

definition login_locked :: thrown where
  "login_locked = app_error_metadata AUTH_LOGIN_LOCKED [(''retryAfterSeconds'', show_nat LOCKOUT_WINDOW_S)]"

definition assertNotLocked ::
  "('w, 'm) auth_deps_scheme \<Rightarrow> string \<Rightarrow> string \<Rightarrow> string \<Rightarrow> ('w, unit) eff" where
  "assertNotLocked d tenant email ip =
     (let normalized = to_lower email in
      andThen (lockout_ip_key d tenant normalized ip) (\<lambda>kIp.
      andThen (isMarked d kIp) (\<lambda>ipLocked.
      andThen (lockout_email_key d tenant normalized) (\<lambda>kEmail.
      andThen (isMarked d kEmail) (\<lambda>emailLocked.
      unless (\<not> (ipLocked \<or> emailLocked)) login_locked)))))"

definition assertAllowed ::
  "('w, 'm) auth_deps_scheme \<Rightarrow> string \<Rightarrow> string \<Rightarrow> string \<Rightarrow> ('w, unit) eff" where
  "assertAllowed d tenant email ip = assertNotLocked d tenant email ip"

definition countFailure ::
  "('w, 'm) auth_deps_scheme \<Rightarrow> string \<Rightarrow> rate_limit_policy \<Rightarrow> string \<Rightarrow> ('w, unit) eff" where
  "countFailure d counter policy marker =
     rescue
       (andThen (ax_hit d counter policy) (\<lambda>result.
        if rl_remaining result = 0
        then ax_kvSet d marker (Some (JBool True)) (for_seconds (of_int (max 1 (rl_resetSeconds result))))
        else ret ()))
       (\<lambda>_. ret ())"

text \<open>The two counts start in this order; neither can reject once its keys are built.\<close>

definition recordFailure ::
  "('w, 'm) auth_deps_scheme \<Rightarrow> string \<Rightarrow> string \<Rightarrow> string \<Rightarrow> ('w, unit) eff" where
  "recordFailure d tenant email ip =
     (let normalized = to_lower email in
      andThen (tenant_key d LOGIN_IP_RATE_LIMIT tenant [normalized, ip]) (\<lambda>cIp.
      andThen (lockout_ip_key d tenant normalized ip) (\<lambda>mIp.
      andThen (countFailure d cIp IP_POLICY mIp) (\<lambda>_.
      andThen (tenant_key d LOGIN_EMAIL_RATE_LIMIT tenant [normalized]) (\<lambda>cEmail.
      andThen (lockout_email_key d tenant normalized) (\<lambda>mEmail.
      countFailure d cEmail EMAIL_POLICY mEmail))))))"

definition lockout_reset ::
  "('w, 'm) auth_deps_scheme \<Rightarrow> string \<Rightarrow> string \<Rightarrow> string \<Rightarrow> ('w, unit) eff" where
  "lockout_reset d tenant email ip =
     (let normalized = to_lower email in
      andThen (lockout_ip_key d tenant normalized ip) (\<lambda>kIp.
      andThen (rescue (ax_kvDel d kIp) (\<lambda>_. ret False)) (\<lambda>_.
      andThen (lockout_email_key d tenant normalized) (\<lambda>kEmail.
      andThen (rescue (ax_kvDel d kEmail) (\<lambda>_. ret False)) (\<lambda>_. ret ())))))"

definition show_int :: "int \<Rightarrow> string" where
  "show_int i = (if i < 0 then ''-'' @ show_nat (nat (- i)) else show_nat (nat i))"

definition too_many_logins :: "int \<Rightarrow> thrown" where
  "too_many_logins resetSeconds =
     AppError RATE_LIMITED (Some ''Too many login attempts'') []
       [(''retryAfterSeconds'', show_int resetSeconds)] None"

definition assertRpcLoginAllowed :: "('w, 'm) auth_deps_scheme \<Rightarrow> string \<Rightarrow> string \<Rightarrow> ('w, unit) eff" where
  "assertRpcLoginAllowed d tenant email =
     andThen
       (rescue
          (andThen (tenant_key d RPC_LOGIN_RATE_LIMIT tenant [to_lower email]) (\<lambda>k.
           andThen (ax_hit d k RPC_LOGIN_RATE_LIMIT_POLICY) (\<lambda>r. ret (Some r))))
          (\<lambda>_. ret None))
       (\<lambda>result. case result of
          None \<Rightarrow> ret ()
        | Some r \<Rightarrow> unless (rl_allowed r) (too_many_logins (rl_resetSeconds r)))"

subsection \<open>Access tokens\<close>

definition nonEmpty :: "json option \<Rightarrow> string option" where
  "nonEmpty v = (case v of Some (JStr s) \<Rightarrow> nonempty (Some s) | _ \<Rightarrow> None)"

definition tenant_claim :: "json option \<Rightarrow> string option" where
  "tenant_claim v = (case v of Some (JStr s) \<Rightarrow> if isTenantId s then Some s else None | _ \<Rightarrow> None)"

definition number_claim :: "json option \<Rightarrow> rat option" where
  "number_claim v = (case v of Some (JNum x) \<Rightarrow> Some x | _ \<Rightarrow> None)"

text \<open>\<open>tv\<close>: absent is 0, anything but an integer is refused.\<close>

definition version_claim :: "json option \<Rightarrow> rat option" where
  "version_claim v =
     (case v of
        None \<Rightarrow> Some 0
      | Some (JNum x) \<Rightarrow> if of_int \<lfloor>x\<rfloor> = x then Some x else None
      | _ \<Rightarrow> None)"

record access_claims =
  ac_userId :: string
  ac_tokenVersion :: rat
  ac_email :: string
  ac_tenantId :: string
  ac_jti :: string
  ac_exp :: rat

text \<open>\<open>jwt.verify\<close> answers a string or an object; a string is refused.\<close>

definition claims_of :: "(string \<times> json) list \<Rightarrow> access_claims option" where
  "claims_of payload =
     (case (nonEmpty (js_prop payload ''sub''), nonEmpty (js_prop payload ''jti''),
            tenant_claim (js_prop payload ''tenantId''), number_claim (js_prop payload ''exp''),
            version_claim (js_prop payload ''tv'')) of
        (Some sub, Some jti, Some tenant, Some expiry, Some tv) \<Rightarrow>
          Some \<lparr>ac_userId = sub, ac_tokenVersion = tv,
            ac_email = (case js_prop payload ''email'' of Some (JStr s) \<Rightarrow> s | _ \<Rightarrow> ''''),
            ac_tenantId = tenant, ac_jti = jti, ac_exp = expiry\<rparr>
      | _ \<Rightarrow> None)"

definition decode_access_token ::
  "('w, 'm) auth_deps_scheme \<Rightarrow> string \<Rightarrow> 'w \<Rightarrow> thrown + access_claims" where
  "decode_access_token d token w =
     (case ax_jwtVerify d token (ax_secret d) w of
        Some (JObj payload) \<Rightarrow>
          (case claims_of payload of
             Some c \<Rightarrow> Inr c
           | None \<Rightarrow> Inl (app_error AUTH_TOKEN_INVALID))
      | _ \<Rightarrow> Inl (app_error AUTH_TOKEN_INVALID))"

definition unavailable :: "thrown \<Rightarrow> thrown" where
  "unavailable err =
     AppError SERVICE_UNAVAILABLE (Some ''Credentials cannot be verified right now'') [] [] (Some err)"

definition guardStores :: "('w, 'a) eff \<Rightarrow> ('w, 'a) eff" where
  "guardStores f = rescue f (\<lambda>err. raise (if isAppError err then err else unavailable err))"

text \<open>The four lookups of \<open>verify\<close>: \<open>revoked\<close>, \<open>suspended\<close>, \<open>member\<close>, \<open>tenant\<close>.\<close>

definition verify_lookups ::
  "('w, 'm) auth_deps_scheme \<Rightarrow> access_claims
   \<Rightarrow> ('w, (bool \<times> bool) \<times> (member_access option \<times> tenant_record option)) eff" where
  "verify_lookups d c =
     andThen (global_key d TOKEN_REVOKED_KEY [ac_jti c]) (\<lambda>kRevoked.
     andThen (tenant_key d ACCOUNT_SUSPENDED_KEY (ac_tenantId c) [ac_userId c]) (\<lambda>kSuspended.
     both (ax_first d)
       (both (ax_first d) (ax_kvExists d kRevoked) (ax_kvExists d kSuspended))
       (both (ax_first d) (ax_findMember d (ac_tenantId c) (ac_userId c))
          (ax_findTenant d (ac_tenantId c)))))"

definition token_verdict ::
  "access_claims \<Rightarrow> bool \<Rightarrow> bool \<Rightarrow> member_access option \<Rightarrow> tenant_record option \<Rightarrow> thrown + principal" where
  "token_verdict c revoked suspended member tenant =
     (if revoked then Inl (app_error AUTH_TOKEN_REVOKED)
      else case (member, tenant) of
        (Some m, Some t) \<Rightarrow>
          if ac_tokenVersion c \<noteq> option_or (ma_tokenVersion m) 0 then Inl (app_error AUTH_TOKEN_REVOKED)
          else if tr_status t \<noteq> TenantActive then Inl (app_error TENANT_INACTIVE)
          else if suspended \<or> ma_status m \<noteq> UserActive then Inl (app_error AUTH_ACCOUNT_INACTIVE)
          else Inr \<lparr>p_userId = ac_userId c, p_email = ac_email c, p_roles = ma_roles m,
            p_tenantId = ac_tenantId c, p_jti = ac_jti c, p_exp = ac_exp c\<rparr>
      | _ \<Rightarrow> Inl (app_error AUTH_TOKEN_INVALID))"

definition verify_token :: "('w, 'm) auth_deps_scheme \<Rightarrow> string \<Rightarrow> ('w, principal) eff" where
  "verify_token d token =
     andThen (\<lambda>w. (decode_access_token d token w, w)) (\<lambda>c.
     andThen (guardStores (verify_lookups d c)) (\<lambda>((revoked, suspended), (member, tenant)).
     lift (token_verdict c revoked suspended member tenant)))"

subsection \<open>Refresh tokens\<close>

record refresh_claims =
  rt_tenantId :: string
  rt_userId :: string
  rt_tokenId :: string

definition tokenVersionOf :: "auth_user \<Rightarrow> rat" where
  "tokenVersionOf u = option_or (au_tokenVersion u) 0"

definition storedVersion :: "json option \<Rightarrow> rat" where
  "storedVersion value =
     (case value of
        Some (JObj ps) \<Rightarrow> (case js_prop ps ''tv'' of Some (JNum x) \<Rightarrow> x | _ \<Rightarrow> 0)
      | _ \<Rightarrow> 0)"

definition refreshKey :: "('w, 'm) auth_deps_scheme \<Rightarrow> refresh_claims \<Rightarrow> ('w, string) eff" where
  "refreshKey d c =
     tenant_key d REFRESH_TOKEN_KEY (rt_tenantId c) [rt_userId c, ax_sha256 d (rt_tokenId c)]"

definition refresh_text :: "refresh_claims \<Rightarrow> string" where
  "refresh_text c = rt_tenantId c @ CHR 0x0A # rt_userId c @ CHR 0x0A # rt_tokenId c"

definition signRefresh :: "('w, 'm) auth_deps_scheme \<Rightarrow> refresh_claims \<Rightarrow> string" where
  "signRefresh d c = ax_hmac d (ax_secret d) (refresh_text c)"

definition tenantOf :: "auth_user \<Rightarrow> thrown + string" where
  "tenantOf u = (case toTenantId (au_tenantId u) of Inl e \<Rightarrow> Inl (key_thrown e) | Inr t \<Rightarrow> Inr t)"

text \<open>The expected signature has the length and the bytes of the presented one.\<close>

definition decodeRefreshToken :: "('w, 'm) auth_deps_scheme \<Rightarrow> string \<Rightarrow> refresh_claims option" where
  "decodeRefreshToken d token =
     (case ax_parse d (ax_fromBase64url d token) of
        Some (JObj parsed) \<Rightarrow>
          (case (js_prop parsed ''tenantId'', js_prop parsed ''userId'', js_prop parsed ''tokenId'',
                 js_prop parsed ''sig'') of
             (Some (JStr tenant), Some (JStr user), Some (JStr tid), Some (JStr sig)) \<Rightarrow>
               (case toTenantId tenant of
                  Inl _ \<Rightarrow> None
                | Inr t \<Rightarrow>
                    (let claims = \<lparr>rt_tenantId = t, rt_userId = user, rt_tokenId = tid\<rparr> in
                     if sig \<noteq> signRefresh d claims then None else Some claims))
           | _ \<Rightarrow> None)
      | _ \<Rightarrow> None)"

definition encode_refresh_token :: "('w, 'm) auth_deps_scheme \<Rightarrow> refresh_claims \<Rightarrow> string" where
  "encode_refresh_token d c =
     ax_toBase64url d (ax_stringify d (JObj [(''tenantId'', JStr (rt_tenantId c)),
       (''userId'', JStr (rt_userId c)), (''tokenId'', JStr (rt_tokenId c)), (''sig'', JStr (signRefresh d c))]))"

definition createRefreshToken :: "('w, 'm) auth_deps_scheme \<Rightarrow> auth_user \<Rightarrow> ('w, string) eff" where
  "createRefreshToken d user =
     andThen (lift (tenantOf user)) (\<lambda>tenant.
     andThen (ax_uuid d) (\<lambda>tokenId.
     let claims = \<lparr>rt_tenantId = tenant, rt_userId = au_id user, rt_tokenId = tokenId\<rparr> in
     andThen (refreshKey d claims) (\<lambda>k.
     andThen (ax_kvSet d k (Some (JObj [(''tv'', JNum (tokenVersionOf user))]))
       (for_seconds (of_nat REFRESH_TOKEN_TTL_SECONDS))) (\<lambda>_.
     ret (encode_refresh_token d claims)))))"

definition signAccessToken :: "('w, 'm) auth_deps_scheme \<Rightarrow> auth_user \<Rightarrow> ('w, string) eff" where
  "signAccessToken d user =
     andThen (lift (tenantOf user)) (\<lambda>tenant.
     andThen (ax_uuid d) (\<lambda>jti.
     ax_jwtSign d
       [(''sub'', JStr (au_id user)), (''email'', JStr (au_email user)),
        (''roles'', JArr (map JStr (option_or (au_roles user) []))), (''tenantId'', JStr tenant),
        (''jti'', JStr jti), (''tv'', JNum (tokenVersionOf user))]))"

record auth_tokens =
  at_accessToken :: string
  at_refreshToken :: string

definition issueTokenPair :: "('w, 'm) auth_deps_scheme \<Rightarrow> auth_user \<Rightarrow> ('w, auth_tokens) eff" where
  "issueTokenPair d user =
     andThen (signAccessToken d user) (\<lambda>access.
     andThen (createRefreshToken d user) (\<lambda>refresh.
     ret \<lparr>at_accessToken = access, at_refreshToken = refresh\<rparr>))"

definition auth_assertTenantActive :: "('w, 'm) auth_deps_scheme \<Rightarrow> string \<Rightarrow> ('w, unit) eff" where
  "auth_assertTenantActive d tenant =
     andThen (ax_findTenant d tenant) (\<lambda>r. lift (assertTenantActive r))"

subsection \<open>The authentication service\<close>

record login_dto =
  ld_email :: string
  ld_password :: string

text \<open>\<open>recordLogin\<close> and \<open>sessions.create\<close> are not awaited; their effects are placed here.\<close>

definition authenticate ::
  "('w, 'm) auth_deps_scheme \<Rightarrow> string \<Rightarrow> login_dto \<Rightarrow> string \<Rightarrow> ('w, auth_user) eff" where
  "authenticate d tenant dto ip =
     (if ld_email dto = [] \<or> ld_password dto = [] then raise (app_error AUTH_INVALID_CREDENTIALS)
      else
       andThen (ax_findTenant d tenant) (\<lambda>r.
       andThen (unless (r \<noteq> None \<and> map_option tr_status r = Some TenantActive)
         (app_error AUTH_INVALID_CREDENTIALS)) (\<lambda>_.
       andThen (assertNotLocked d tenant (ld_email dto) ip) (\<lambda>_.
       andThen (ax_findByEmail d tenant (ld_email dto)) (\<lambda>user.
       andThen (case user of
           None \<Rightarrow> ret False
         | Some u \<Rightarrow>
             (case nonempty (au_passwordHash u) of
                None \<Rightarrow> ret False
              | Some h \<Rightarrow> ax_bcrypt d (ld_password dto) h)) (\<lambda>valid.
       case user of
         None \<Rightarrow>
           andThen (recordFailure d tenant (ld_email dto) ip) (\<lambda>_.
           raise (app_error AUTH_INVALID_CREDENTIALS))
       | Some u \<Rightarrow>
           if \<not> valid then
             andThen (recordFailure d tenant (ld_email dto) ip) (\<lambda>_.
             raise (app_error AUTH_INVALID_CREDENTIALS))
           else if au_status u \<noteq> UserActive then raise (app_error AUTH_ACCOUNT_INACTIVE)
           else
             andThen (lockout_reset d tenant (ld_email dto) ip) (\<lambda>_.
             andThen (forget (ax_recordLogin d tenant (au_id u))) (\<lambda>_.
             andThen (forget (session_create d tenant (au_id u) (au_email u) ip)) (\<lambda>_.
             ret u)))))))))"

definition login ::
  "('w, 'm) auth_deps_scheme \<Rightarrow> string \<Rightarrow> login_dto \<Rightarrow> string \<Rightarrow> ('w, auth_tokens) eff" where
  "login d tenant dto ip = andThen (authenticate d tenant dto ip) (issueTokenPair d)"

definition loginAccessOnly ::
  "('w, 'm) auth_deps_scheme \<Rightarrow> string \<Rightarrow> login_dto \<Rightarrow> string \<Rightarrow> ('w, string) eff" where
  "loginAccessOnly d tenant dto ip = andThen (authenticate d tenant dto ip) (signAccessToken d)"

definition revocation_ttl :: "rat option \<Rightarrow> nat \<Rightarrow> int" where
  "revocation_ttl expiry now =
     (case expiry of None \<Rightarrow> 0 | Some e \<Rightarrow> \<lceil>(e * 1000 - of_nat now) / 1000\<rceil>)"

definition logout ::
  "('w, 'm) auth_deps_scheme \<Rightarrow> string option \<Rightarrow> rat option \<Rightarrow> string option \<Rightarrow> ('w, unit) eff" where
  "logout d jti expiry refreshToken =
     andThen (asks (ax_now d)) (\<lambda>now.
     let ttlSeconds = revocation_ttl expiry now in
     andThen
       (case nonempty jti of
          None \<Rightarrow> ret ()
        | Some j \<Rightarrow>
            if ttlSeconds > 0
            then andThen (global_key d TOKEN_REVOKED_KEY [j]) (\<lambda>k.
              ax_kvSet d k (Some (JBool True)) (for_seconds (of_int ttlSeconds)))
            else ret ()) (\<lambda>_.
     case nonempty refreshToken of
       None \<Rightarrow> ret ()
     | Some token \<Rightarrow>
         (case decodeRefreshToken d token of
            None \<Rightarrow> ret ()
          | Some parsed \<Rightarrow>
              andThen (refreshKey d parsed) (\<lambda>k.
              andThen (ax_kvDel d k) (\<lambda>_.
              forget (session_invalidate d (rt_tenantId parsed) (rt_userId parsed)))))))"

definition refreshTokenOwner ::
  "('w, 'm) auth_deps_scheme \<Rightarrow> string option \<Rightarrow> (string \<times> string) option" where
  "refreshTokenOwner d refreshToken =
     (case nonempty refreshToken of
        None \<Rightarrow> None
      | Some token \<Rightarrow> map_option (\<lambda>c. (rt_tenantId c, rt_userId c)) (decodeRefreshToken d token))"

definition isBlacklisted :: "('w, 'm) auth_deps_scheme \<Rightarrow> string \<Rightarrow> ('w, bool) eff" where
  "isBlacklisted d jti = andThen (global_key d TOKEN_REVOKED_KEY [jti]) (\<lambda>k. ax_kvExists d k)"

text \<open>\<open>refresh\<close> up to the deletion, and what it does with the account the token names.\<close>

definition spend_refresh_token ::
  "('w, 'm) auth_deps_scheme \<Rightarrow> refresh_claims \<Rightarrow> ('w, json option) eff" where
  "spend_refresh_token d parsed =
     andThen (refreshKey d parsed) (\<lambda>k.
     andThen (ax_kvGet d k) (\<lambda>record.
     andThen (ax_kvDel d k) (\<lambda>existed.
     andThen (unless existed (app_error AUTH_TOKEN_REVOKED)) (\<lambda>_. ret record))))"

definition refresh_for ::
  "('w, 'm) auth_deps_scheme \<Rightarrow> refresh_claims \<Rightarrow> json option \<Rightarrow> auth_user option \<Rightarrow> ('w, auth_tokens) eff" where
  "refresh_for d parsed record user =
     (case user of
        None \<Rightarrow> raise (app_error AUTH_TOKEN_INVALID)
      | Some u \<Rightarrow>
          if storedVersion record \<noteq> tokenVersionOf u then raise (app_error AUTH_TOKEN_REVOKED)
          else if au_status u \<noteq> UserActive
          then andThen (forget (session_invalidate d (rt_tenantId parsed) (rt_userId parsed))) (\<lambda>_.
            raise (app_error AUTH_ACCOUNT_INACTIVE))
          else andThen (forget (session_create d (rt_tenantId parsed) (rt_userId parsed) (au_email u) '''')) (\<lambda>_.
            issueTokenPair d u))"

definition refresh :: "('w, 'm) auth_deps_scheme \<Rightarrow> string \<Rightarrow> ('w, auth_tokens) eff" where
  "refresh d refreshToken =
     (case decodeRefreshToken d refreshToken of
        None \<Rightarrow> raise (app_error AUTH_TOKEN_INVALID)
      | Some parsed \<Rightarrow>
          andThen (auth_assertTenantActive d (rt_tenantId parsed)) (\<lambda>_.
          andThen (spend_refresh_token d parsed) (\<lambda>record.
          andThen (ax_findById d (rt_tenantId parsed) (rt_userId parsed)) (\<lambda>user.
          refresh_for d parsed record user))))"

subsection \<open>The services over a Redis server\<close>

text \<open>The world is the server's state with the rest; the stores are the Redis adapters.\<close>

definition on_fst :: "('r \<Rightarrow> 'a \<times> 'r) \<Rightarrow> 'r \<times> 's \<Rightarrow> 'a \<times> ('r \<times> 's)" where
  "on_fst f w = (case f (fst w) of (x, r) \<Rightarrow> (x, (r, snd w)))"

definition over_redis ::
  "'r redis_exec \<Rightarrow> ('s \<Rightarrow> nat) \<Rightarrow> ('r \<times> 's, 'm) auth_deps_scheme \<Rightarrow> ('r \<times> 's, 'm) auth_deps_scheme" where
  "over_redis exec clock d =
     d\<lparr>ax_now := (\<lambda>w. clock (snd w)),
       ax_kvGet := (\<lambda>k w. on_fst (kv_get exec (ax_parse d) (clock (snd w)) k) w),
       ax_kvSet := (\<lambda>k v opts w. on_fst (kv_set exec (ax_stringify d) (clock (snd w)) k v opts) w),
       ax_kvDel := (\<lambda>k w. on_fst (kv_del exec (clock (snd w)) k) w),
       ax_kvExists := (\<lambda>k w. on_fst (kv_exists exec (clock (snd w)) k) w),
       ax_hit := (\<lambda>k p w. on_fst (ratelimit_hit exec (clock (snd w)) k p) w)\<rparr>"

lemma over_redis_simps [simp]:
  "ax_env (over_redis exec clock d) = ax_env d" "ax_secret (over_redis exec clock d) = ax_secret d"
  "ax_now (over_redis exec clock d) = (\<lambda>w. clock (snd w))"
  "ax_first (over_redis exec clock d) = ax_first d"
  "ax_findTenant (over_redis exec clock d) = ax_findTenant d"
  "ax_findMember (over_redis exec clock d) = ax_findMember d"
  "ax_findByEmail (over_redis exec clock d) = ax_findByEmail d"
  "ax_findById (over_redis exec clock d) = ax_findById d"
  "ax_recordLogin (over_redis exec clock d) = ax_recordLogin d"
  "ax_bcrypt (over_redis exec clock d) = ax_bcrypt d" "ax_uuid (over_redis exec clock d) = ax_uuid d"
  "ax_jwtSign (over_redis exec clock d) = ax_jwtSign d"
  "ax_jwtVerify (over_redis exec clock d) = ax_jwtVerify d"
  "ax_sha256 (over_redis exec clock d) = ax_sha256 d" "ax_hmac (over_redis exec clock d) = ax_hmac d"
  "ax_stringify (over_redis exec clock d) = ax_stringify d" "ax_parse (over_redis exec clock d) = ax_parse d"
  "ax_toBase64url (over_redis exec clock d) = ax_toBase64url d"
  "ax_fromBase64url (over_redis exec clock d) = ax_fromBase64url d"
  "ax_kvGet (over_redis exec clock d) k w = on_fst (kv_get exec (ax_parse d) (clock (snd w)) k) w"
  "ax_kvSet (over_redis exec clock d) k v opts w =
     on_fst (kv_set exec (ax_stringify d) (clock (snd w)) k v opts) w"
  "ax_kvDel (over_redis exec clock d) k w = on_fst (kv_del exec (clock (snd w)) k) w"
  "ax_kvExists (over_redis exec clock d) k w = on_fst (kv_exists exec (clock (snd w)) k) w"
  "ax_hit (over_redis exec clock d) k p w = on_fst (ratelimit_hit exec (clock (snd w)) k p) w"
  by (simp_all add: over_redis_def)

lemma on_fst_eq: "on_fst f w = (x, w') \<longleftrightarrow> f (fst w) = (x, fst w') \<and> snd w' = snd w"
  by (cases w') (auto simp: on_fst_def split: prod.splits)

text \<open>What the kv adapter does to the server.\<close>

context redis_server
begin

lemma kv_get_view: "kv_get exec parse now k r = (res, r') \<Longrightarrow> view r' = view r"
  by (auto simp: kv_get_def split: prod.splits sum.splits dest!: exec_any)

lemma kv_exists_view: "kv_exists exec now k r = (res, r') \<Longrightarrow> view r' = view r"
  by (auto simp: kv_exists_def split: prod.splits sum.splits dest!: exec_any)

lemma kv_set_view: "kv_set exec stringify now k v opts r = (res, r') \<Longrightarrow> j \<noteq> k \<Longrightarrow> view r' j = view r j"
  by (auto simp: kv_set_def split: prod.splits sum.splits dest!: exec_any) (metis fun_upd_other)+

lemma redis_del_single:
  "redis_apply now (RDel [k]) db = Some (rep, db') \<longleftrightarrow>
     rep = RInt (if live now db k = None then 0 else 1)
     \<and> db' = (if live now db k = None then db else db(k := None))"
  by (auto simp: redis_del_def split: option.splits)

lemma kv_del_view:
  assumes "kv_del exec now k r = (res, r')"
  shows "view r' = view r \<or> view r' = (view r)(k := None)"
    and "res = Inr True \<Longrightarrow> live now (view r) k \<noteq> None \<and> view r' = (view r)(k := None)"
    and "res = Inr False \<Longrightarrow> live now (view r) k = None"
proof -
  obtain out where e: "exec now (RDel [k]) r = (out, r')"
    using assms by (auto simp: kv_del_def split: prod.splits sum.splits)
  show "view r' = view r \<or> view r' = (view r)(k := None)"
    using exec_any [OF e] unfolding redis_del_single by (auto split: if_splits)
  show "res = Inr True \<Longrightarrow> live now (view r) k \<noteq> None \<and> view r' = (view r)(k := None)"
    "res = Inr False \<Longrightarrow> live now (view r) k = None"
    using assms e exec_Inr [of now "RDel [k]" r _ r'] unfolding redis_del_single
    by (cases out; auto simp: kv_del_def split: if_splits)+
qed

lemma hit_view:
  assumes "ratelimit_hit exec now k p r = (res, r')" "j \<noteq> k"
  shows "view r' j = view r j"
proof (cases "assertRateLimitPolicy p")
  case (Inl e)
  then show ?thesis using assms by (simp add: ratelimit_hit_def)
next
  case (Inr u)
  let ?c = "REval (HIT k (as_nat (rl_windowSeconds p)))"
  obtain out where e: "exec now ?c r = (out, r')"
    using assms(1) Inr
    by (auto simp: ratelimit_hit_def split: prod.splits sum.splits redis_reply.splits list.splits)
  have "HIT k w now db = Some (rep, db') \<Longrightarrow> db' j = db j" for w db rep db'
    using assms(2)
    by (auto simp: HIT_def redis_incr_def redis_expire_at_def Let_def split: option.splits prod.splits if_splits)
  then show ?thesis using exec_any [OF e] by auto
qed

end

subsection \<open>Keys of the module are told apart\<close>

lemma valid_auth_keys:
  "b \<in> set [TOKEN_REVOKED_KEY, REFRESH_TOKEN_KEY, SESSION_KEY, LOGIN_EMAIL_RATE_LIMIT, LOGIN_IP_RATE_LIMIT,
      LOGIN_LOCKOUT_KEY, RPC_LOGIN_RATE_LIMIT, ACCOUNT_SUSPENDED_KEY] \<Longrightarrow> valid_spec (kb_spec b)"
  using auth_keys_defined by (auto simp: list_all_iff dest!: defineKey_valid)

lemma valid_refresh_key: "valid_spec (kb_spec REFRESH_TOKEN_KEY)"
  by (rule valid_auth_keys) simp

lemma tenant_key_inj:
  assumes "forTenant b env t ids = Inr k" "forTenant b' env' t' ids' = Inr k"
    and "valid_spec (kb_spec b)" "valid_spec (kb_spec b')"
  shows "kb_spec b = kb_spec b' \<and> t = t' \<and> ids = ids'"
proof -
  obtain x where x: "isTenantId t" "escapeKeyId t = Inr x"
    "build (kb_spec b) (kb_settings b env) (''t.'' @ x) ids = Inr k" using assms(1) by (rule forTenant_build)
  obtain y where y: "isTenantId t'" "escapeKeyId t' = Inr y"
    "build (kb_spec b') (kb_settings b' env') (''t.'' @ y) ids' = Inr k" using assms(2) by (rule forTenant_build)
  have "kb_spec b = kb_spec b' \<and> ''t.'' @ x = ''t.'' @ y \<and> ids = ids'"
    using build_inj [OF x(3) y(3) assms(3,4) tenant_scope_parts [OF x(2)] tenant_scope_parts [OF y(2)]] by blast
  then show ?thesis using escapeKeyId_inj x(2) y(2) by auto
qed

lemma global_key_inj:
  assumes "global b env ids = Inr k" "global b' env' ids' = Inr k"
    and "valid_spec (kb_spec b)" "valid_spec (kb_spec b')"
  shows "kb_spec b = kb_spec b' \<and> ids = ids'"
  using build_inj [OF assms(1,2) [unfolded global_def] assms(3,4) global_scope_parts global_scope_parts] by blast

lemma tenant_global_keys:
  assumes "forTenant b env t ids = Inr k" "global b' env' ids' = Inr k"
    and "valid_spec (kb_spec b)" "valid_spec (kb_spec b')"
  shows False
proof -
  obtain x where x: "escapeKeyId t = Inr x"
    "build (kb_spec b) (kb_settings b env) (''t.'' @ x) ids = Inr k" using assms(1) by (rule forTenant_build)
  show False
    using build_inj [OF x(2) assms(2) [unfolded global_def] assms(3,4) tenant_scope_parts [OF x(1)] global_scope_parts]
    by simp
qed

lemma keyed_Inr [eff_simps]: "keyed k w = (Inr x, w') \<longleftrightarrow> k = Inr x \<and> w' = w"
  by (auto simp: keyed_def split: sum.splits)

lemma keyed_world [simp]: "snd (keyed k w) = w"
  by (simp add: keyed_def)

lemmas key_effs = tenant_key_def global_key_def

subsection \<open>The world of the tokens\<close>

text \<open>The calls that neither write kv, nor count, nor draw an id keep a predicate of the world.\<close>

definition calls_keep :: "('w, 'm) auth_deps_scheme \<Rightarrow> ('w \<Rightarrow> bool) \<Rightarrow> bool" where
  "calls_keep d P \<longleftrightarrow>
     (\<forall>k. keeps P (ax_kvGet d k) \<and> keeps P (ax_kvDel d k) \<and> keeps P (ax_kvExists d k))
     \<and> (\<forall>t. keeps P (ax_findTenant d t))
     \<and> (\<forall>t x. keeps P (ax_findMember d t x) \<and> keeps P (ax_findByEmail d t x) \<and> keeps P (ax_findById d t x)
          \<and> keeps P (ax_recordLogin d t x) \<and> keeps P (ax_bcrypt d t x))
     \<and> (\<forall>ps. keeps P (ax_jwtSign d ps))"

lemma calls_keepD:
  assumes "calls_keep d P"
  shows "keeps P (ax_kvGet d k)" "keeps P (ax_kvDel d k)" "keeps P (ax_kvExists d k)"
    "keeps P (ax_findTenant d t)" "keeps P (ax_findMember d t x)" "keeps P (ax_findByEmail d t x)"
    "keeps P (ax_findById d t x)" "keeps P (ax_recordLogin d t x)" "keeps P (ax_bcrypt d t x)"
    "keeps P (ax_jwtSign d ps)"
  using assms by (auto simp: calls_keep_def)

text \<open>What the tokens need of kv and of the random ids: only a write or a
  count under that key makes a deleted key come back, a deletion that answers \<open>true\<close> found the key and removed it, and no id is drawn twice.\<close>

locale token_world =
  fixes d :: "('w, 'm) auth_deps_scheme" and gone drawn :: "string \<Rightarrow> 'w \<Rightarrow> bool"
  assumes calls: "calls_keep d (gone j)" "calls_keep d (drawn i)"
    and set_gone: "j \<noteq> k \<Longrightarrow> keeps (gone j) (ax_kvSet d k v opts)"
    and hit_gone: "j \<noteq> k \<Longrightarrow> keeps (gone j) (ax_hit d k p)"
    and hit_drawn: "keeps (drawn i) (ax_hit d k p)"
    and set_drawn: "keeps (drawn i) (ax_kvSet d k v opts)"
    and uuid_gone: "keeps (gone j) (ax_uuid d)"
    and uuid_drawn: "keeps (drawn i) (ax_uuid d)"
    and uuid_new: "ax_uuid d w = (Inr u, w') \<Longrightarrow> \<not> drawn u w"
    and del_true: "ax_kvDel d k w = (Inr True, w') \<Longrightarrow> \<not> gone k w \<and> gone k w'"
begin

text \<open>A spent token: its key is gone and its id was drawn before.\<close>

definition spent :: "string \<Rightarrow> string \<Rightarrow> 'w \<Rightarrow> bool" where
  "spent k tid w \<longleftrightarrow> gone k w \<and> drawn tid w"

lemma keeps_spent: "keeps (gone k) f \<Longrightarrow> keeps (drawn tid) f \<Longrightarrow> keeps (spent k tid) f"
  by (simp add: keeps_def spent_def)

lemma calls_spent: "calls_keep d (spent k tid)"
  unfolding calls_keep_def
  by (intro conjI allI keeps_spent calls_keepD [OF calls(1)] calls_keepD [OF calls(2)])

lemmas spent_calls [keeps_intros] = calls_keepD [OF calls_spent]

lemma spent_set: "j \<noteq> k \<Longrightarrow> keeps (spent j tid) (ax_kvSet d k v opts)"
  by (intro keeps_spent set_gone set_drawn)

lemma spent_hit: "j \<noteq> k \<Longrightarrow> keeps (spent j tid) (ax_hit d k p)"
  by (intro keeps_spent hit_gone hit_drawn)

lemma spent_uuid [keeps_intros]: "keeps (spent k tid) (ax_uuid d)"
  by (intro keeps_spent uuid_gone uuid_drawn)

lemma spent_keyed [keeps_intros]: "keeps (spent k tid) (keyed x)"
  by (simp add: keeps_def)

text \<open>A write under another key of the module.\<close>

lemma other_tenant_key:
  assumes "forTenant REFRESH_TOKEN_KEY env t ids = Inr k" "forTenant b env' t' ids' = Inr j"
    and "b \<in> set [SESSION_KEY, LOGIN_EMAIL_RATE_LIMIT, LOGIN_IP_RATE_LIMIT, LOGIN_LOCKOUT_KEY, RPC_LOGIN_RATE_LIMIT]"
  shows "k \<noteq> j"
proof -
  have "valid_spec (kb_spec b)" using assms(3) valid_auth_keys by auto
  moreover have "kb_spec b \<noteq> kb_spec REFRESH_TOKEN_KEY"
    using assms(3) by (auto simp: auth_key_def SESSION_KEY_def LOGIN_EMAIL_RATE_LIMIT_def
      LOGIN_IP_RATE_LIMIT_def LOGIN_LOCKOUT_KEY_def RPC_LOGIN_RATE_LIMIT_def REFRESH_TOKEN_KEY_def)
  ultimately show ?thesis using tenant_key_inj [OF assms(1) _ valid_refresh_key] assms(2) by metis
qed

lemma spent_tenant_set:
  assumes "forTenant REFRESH_TOKEN_KEY env t ids = Inr k"
    and "b \<in> set [SESSION_KEY, LOGIN_EMAIL_RATE_LIMIT, LOGIN_IP_RATE_LIMIT, LOGIN_LOCKOUT_KEY, RPC_LOGIN_RATE_LIMIT]"
    and "\<And>j. k \<noteq> j \<Longrightarrow> keeps (spent k tid) (f j)"
  shows "keeps (spent k tid) (andThen (tenant_key d b t' ids') f)"
proof (cases "forTenant b (ax_env d) t' ids'")
  case (Inl e)
  then show ?thesis by (simp add: key_effs keyed_def keeps_intros)
next
  case (Inr j)
  then show ?thesis using other_tenant_key [OF assms(1) Inr assms(2)] assms(3)
    by (simp add: key_effs keyed_def)
qed

lemma spent_global_set:
  assumes "forTenant REFRESH_TOKEN_KEY env t ids = Inr k" "valid_spec (kb_spec b)"
  shows "keeps (spent k tid) (andThen (global_key d b ids') (\<lambda>j. ax_kvSet d j v opts))"
proof (cases "global b (ax_env d) ids'")
  case (Inl e)
  then show ?thesis by (simp add: key_effs keyed_def keeps_intros)
next
  case (Inr j)
  then have "k \<noteq> j" using tenant_global_keys [OF assms(1) _ valid_refresh_key assms(2)] by metis
  then show ?thesis using Inr by (simp add: key_effs keyed_def keeps_intros spent_set)
qed

end
context token_world
begin

text \<open>The writes the services make, all under other keys.\<close>

lemma spent_session_create [keeps_intros]:
  assumes "forTenant REFRESH_TOKEN_KEY env t ids = Inr k"
  shows "keeps (spent k tid) (session_create d tenant userId email ip)"
  unfolding session_create_def
  by (intro keeps_intros spent_tenant_set [OF assms] spent_set) simp_all

lemma spent_session_invalidate [keeps_intros]: "keeps (spent k tid) (session_invalidate d tenant userId)"
  unfolding session_invalidate_def key_effs by (intro keeps_intros)

lemma spent_countFailure:
  assumes "j \<noteq> c" "j \<noteq> k"
  shows "keeps (spent j tid) (countFailure d c p k)"
  unfolding countFailure_def using spent_set [OF assms(2)] spent_hit [OF assms(1)] by (intro keeps_intros) auto

lemma spent_recordFailure [keeps_intros]:
  assumes "forTenant REFRESH_TOKEN_KEY env t ids = Inr k"
  shows "keeps (spent k tid) (recordFailure d tenant email ip)"
  unfolding recordFailure_def Let_def lockout_ip_key_def lockout_email_key_def
  by (intro spent_tenant_set [OF assms] keeps_andThen spent_countFailure) simp_all

lemma spent_lockout [keeps_intros]:
  "keeps (spent k tid) (assertNotLocked d tenant email ip)" "keeps (spent k tid) (lockout_reset d tenant email ip)"
  unfolding assertNotLocked_def lockout_reset_def Let_def isMarked_def lockout_ip_key_def
    lockout_email_key_def key_effs
  by (intro keeps_intros)+

lemma spent_rpc_limit:
  assumes "forTenant REFRESH_TOKEN_KEY env t ids = Inr k"
  shows "keeps (spent k tid) (assertRpcLoginAllowed d tenant email)"
  unfolding assertRpcLoginAllowed_def
  by (intro keeps_intros spent_tenant_set [OF assms] spent_hit) simp_all

end

text \<open>One request to the service, by anyone.\<close>

datatype auth_call =
    CallLogin string login_dto string
  | CallLoginAccessOnly string login_dto string
  | CallRefresh string
  | CallLogout "string option" "rat option" "string option"
  | CallVerify string
  | CallRpcLimit string string

primrec serve :: "('w, 'm) auth_deps_scheme \<Rightarrow> auth_call \<Rightarrow> 'w \<Rightarrow> 'w" where
  "serve d (CallLogin tenant dto ip) w = snd (login d tenant dto ip w)"
| "serve d (CallLoginAccessOnly tenant dto ip) w = snd (loginAccessOnly d tenant dto ip w)"
| "serve d (CallRefresh token) w = snd (refresh d token w)"
| "serve d (CallLogout jti expiry token) w = snd (logout d jti expiry token w)"
| "serve d (CallVerify token) w = snd (verify_token d token w)"
| "serve d (CallRpcLimit tenant email) w = snd (assertRpcLoginAllowed d tenant email w)"

definition serve_all :: "('w, 'm) auth_deps_scheme \<Rightarrow> auth_call list \<Rightarrow> 'w \<Rightarrow> 'w" where
  "serve_all d calls w = fold (serve d) calls w"

context token_world
begin

text \<open>No other token id has the digest of \<open>tid\<close>.\<close>

lemma spent_createRefreshToken:
  assumes k: "forTenant REFRESH_TOKEN_KEY env t [u, ax_sha256 d tid] = Inr k"
    and free: "\<forall>x. ax_sha256 d x = ax_sha256 d tid \<longrightarrow> x = tid"
  shows "keeps (spent k tid) (createRefreshToken d user)"
proof (rule keepsI)
  fix w res w' assume run: "createRefreshToken d user w = (res, w')" and s: "spent k tid w"
  show "spent k tid w'"
  proof (cases "tenantOf user")
    case (Inl e)
    then show ?thesis using run s by (simp add: createRefreshToken_def)
  next
    case (Inr tn)
    obtain out w1 where o: "ax_uuid d w = (out, w1)" by force
    have s1: "spent k tid w1" using keepsD [OF spent_uuid o s] .
    show ?thesis
    proof (cases out)
      case (Inl e)
      then show ?thesis using run s1 o \<open>tenantOf user = Inr tn\<close>
        by (simp add: createRefreshToken_def andThen_def)
    next
      case (Inr i)
      have "i \<noteq> tid" using uuid_new o s unfolding Inr spent_def by blast
      then have ne: "forTenant REFRESH_TOKEN_KEY env' t' [u', ax_sha256 d i] \<noteq> Inr k" for env' t' u'
        using tenant_key_inj [OF k _ valid_refresh_key valid_refresh_key, of env' t' "[u', ax_sha256 d i]"] free by auto
      let ?c = "\<lparr>rt_tenantId = tn, rt_userId = au_id user, rt_tokenId = i\<rparr>"
      let ?v = "Some (JObj [(''tv'', JNum (tokenVersionOf user))])"
      let ?o = "for_seconds (of_nat REFRESH_TOKEN_TTL_SECONDS)"
      have K: "keeps (spent k tid) (andThen (refreshKey d ?c) (\<lambda>j. andThen (ax_kvSet d j ?v ?o)
          (\<lambda>_. ret (encode_refresh_token d ?c))))"
      proof (cases "forTenant REFRESH_TOKEN_KEY (ax_env d) tn [au_id user, ax_sha256 d i]")
        case (Inl e)
        then show ?thesis by (simp add: refreshKey_def key_effs keyed_def keeps_intros)
      next
        case (Inr j)
        then have "k \<noteq> j" using ne by blast
        then show ?thesis using Inr by (simp add: refreshKey_def key_effs keyed_def keeps_intros spent_set)
      qed
      have R: "(andThen (refreshKey d ?c) (\<lambda>j. andThen (ax_kvSet d j ?v ?o)
          (\<lambda>_. ret (encode_refresh_token d ?c)))) w1 = (res, w')"
        using run o Inr \<open>tenantOf user = Inr tn\<close> by (simp add: createRefreshToken_def andThen_run Let_def)
      show ?thesis by (rule keepsD [OF K R s1])
    qed
  qed
qed

lemma spent_issue:
  assumes "forTenant REFRESH_TOKEN_KEY env t [u, ax_sha256 d tid] = Inr k"
    and "\<forall>x. ax_sha256 d x = ax_sha256 d tid \<longrightarrow> x = tid"
  shows "keeps (spent k tid) (issueTokenPair d user)" "keeps (spent k tid) (signAccessToken d user)"
  unfolding issueTokenPair_def signAccessToken_def
  by (intro keeps_intros spent_createRefreshToken [OF assms])+

lemma spent_authenticate:
  assumes "forTenant REFRESH_TOKEN_KEY env t ids = Inr k"
  shows "keeps (spent k tid) (authenticate d tenant dto ip)"
  unfolding authenticate_def by (intro keeps_intros) (rule assms)+

lemma spent_refresh:
  assumes "forTenant REFRESH_TOKEN_KEY env t [u, ax_sha256 d tid] = Inr k"
    and "\<forall>x. ax_sha256 d x = ax_sha256 d tid \<longrightarrow> x = tid"
  shows "keeps (spent k tid) (refresh d token)"
  unfolding refresh_def auth_assertTenantActive_def spend_refresh_token_def refreshKey_def key_effs refresh_for_def
  by (intro keeps_intros spent_issue [OF assms]) (rule assms(1))

lemma spent_logout:
  assumes "forTenant REFRESH_TOKEN_KEY env t ids = Inr k"
  shows "keeps (spent k tid) (logout d jti expiry token)"
  unfolding logout_def Let_def refreshKey_def key_effs(1)
  by (intro keeps_intros spent_global_set [OF assms] valid_auth_keys) simp

lemma spent_verify: "keeps (spent k tid) (verify_token d token)"
proof -
  have "keeps (spent k tid) (\<lambda>w. (decode_access_token d token w, w))" by (simp add: keeps_def)
  then show ?thesis
    unfolding verify_token_def guardStores_def verify_lookups_def key_effs
    by (intro keeps_andThen) (auto intro!: keeps_intros split: prod.splits)
qed

lemma spent_serve_all:
  assumes k: "forTenant REFRESH_TOKEN_KEY env t [u, ax_sha256 d tid] = Inr k"
    and free: "\<forall>x. ax_sha256 d x = ax_sha256 d tid \<longrightarrow> x = tid"
  shows "spent k tid w \<Longrightarrow> spent k tid (serve_all d calls w)"
proof (induction calls arbitrary: w)
  case (Cons c calls)
  have ks: "keeps (spent k tid) (login d tenant dto ip)" "keeps (spent k tid) (loginAccessOnly d tenant dto ip)"
    for tenant dto ip
    unfolding login_def loginAccessOnly_def
    by (intro keeps_intros spent_authenticate [OF k] spent_issue [OF k free])+
  have "spent k tid (serve d c w)"
    using Cons.prems ks spent_refresh [OF k free] spent_logout [OF k] spent_verify spent_rpc_limit [OF k]
    unfolding keeps_def by (cases c) auto
  then show ?case using Cons.IH by (simp add: serve_all_def)
qed (simp add: serve_all_def)

text \<open>A token whose key is gone earns nothing.\<close>

lemma spent_refresh_fails:
  assumes "decodeRefreshToken d token = Some c"
    and "forTenant REFRESH_TOKEN_KEY (ax_env d) (rt_tenantId c) [rt_userId c, ax_sha256 d (rt_tokenId c)] = Inr k"
    and "spent k (rt_tokenId c) w"
  shows "isl (fst (refresh d token w))"
proof (rule ccontr)
  assume "\<not> isl (fst (refresh d token w))"
  then obtain pair w' where "refresh d token w = (Inr pair, w')" by (metis prod.collapse sum.collapse(2))
  then obtain w1 w2 w3 r x where run: "auth_assertTenantActive d (rt_tenantId c) w = (Inr x, w1)"
    "ax_kvGet d k w1 = (Inr r, w2)" "ax_kvDel d k w2 = (Inr True, w3)"
    using assms(1,2)
    by (fastforce simp: refresh_def spend_refresh_token_def refreshKey_def key_effs eff_simps)
  have "keeps (spent k (rt_tokenId c)) (auth_assertTenantActive d (rt_tenantId c))"
    unfolding auth_assertTenantActive_def by (intro keeps_intros)
  then have "spent k (rt_tokenId c) w2" using assms(3) run keepsD spent_calls(1) by metis
  then show False using del_true [OF run(3)] by (simp add: spent_def)
qed

lemma refresh_spends:
  assumes "refresh d token w = (Inr pair, w')" "decodeRefreshToken d token = Some c"
    and "drawn (rt_tokenId c) w" and free: "\<forall>x. ax_sha256 d x = ax_sha256 d (rt_tokenId c) \<longrightarrow> x = rt_tokenId c"
  obtains k where
    "forTenant REFRESH_TOKEN_KEY (ax_env d) (rt_tenantId c) [rt_userId c, ax_sha256 d (rt_tokenId c)] = Inr k"
    "spent k (rt_tokenId c) w'"
proof -
  obtain k w1 w2 w3 w4 r x user where k:
    "forTenant REFRESH_TOKEN_KEY (ax_env d) (rt_tenantId c) [rt_userId c, ax_sha256 d (rt_tokenId c)] = Inr k"
    and run: "auth_assertTenantActive d (rt_tenantId c) w = (Inr x, w1)"
    "ax_kvGet d k w1 = (Inr r, w2)" "ax_kvDel d k w2 = (Inr True, w3)"
    "ax_findById d (rt_tenantId c) (rt_userId c) w3 = (Inr user, w4)" "refresh_for d c r user w4 = (Inr pair, w')"
    using assms(1,2)
    by (fastforce simp: refresh_def spend_refresh_token_def refreshKey_def key_effs eff_simps)
  have "keeps (drawn (rt_tokenId c)) (auth_assertTenantActive d (rt_tenantId c))"
    unfolding auth_assertTenantActive_def by (intro keeps_intros calls_keepD [OF calls(2)])
  then have "drawn (rt_tokenId c) w3"
    using assms(3) run keepsD calls_keepD(1,2) [OF calls(2)] by metis
  then have "spent k (rt_tokenId c) w3" using del_true [OF run(3)] by (simp add: spent_def)
  then have "spent k (rt_tokenId c) w4" using run(4) keepsD spent_calls(7) by metis
  moreover have "keeps (spent k (rt_tokenId c)) (refresh_for d c r user)"
    unfolding refresh_for_def by (intro keeps_intros spent_issue [OF k free]) (rule k)
  ultimately show ?thesis using that k run(5) keepsD by metis
qed

end

subsection \<open>Tokens over Redis\<close>

text \<open>The calls that are not stores keep a predicate.\<close>

definition rest_keeps :: "('w, 'm) auth_deps_scheme \<Rightarrow> ('w \<Rightarrow> bool) \<Rightarrow> bool" where
  "rest_keeps d P \<longleftrightarrow>
     (\<forall>t. keeps P (ax_findTenant d t))
     \<and> (\<forall>t x. keeps P (ax_findMember d t x) \<and> keeps P (ax_findByEmail d t x) \<and> keeps P (ax_findById d t x)
          \<and> keeps P (ax_recordLogin d t x) \<and> keeps P (ax_bcrypt d t x))
     \<and> (\<forall>ps. keeps P (ax_jwtSign d ps)) \<and> keeps P (ax_uuid d)"

text \<open>The token laws hold of the kv adapter over any Redis server, when the other calls leave
  deleted keys alone and no id is drawn twice.\<close>

locale redis_tokens = redis_server exec pipe view
  for exec :: "'r redis_exec" and pipe :: "'r redis_pipe" and view :: "'r \<Rightarrow> redis_db" +
  fixes base :: "('r \<times> 's, 'm) auth_deps_scheme" and clock :: "'s \<Rightarrow> nat" and drawn_by :: "string \<Rightarrow> 's \<Rightarrow> bool"
  assumes rest_gone: "rest_keeps base (\<lambda>w. view (fst w) j = None)"
    and rest_drawn: "rest_keeps base (\<lambda>w. drawn_by i (snd w))"
    and new_id: "ax_uuid base w = (Inr u, w') \<Longrightarrow> \<not> drawn_by u (snd w)"

sublocale redis_tokens \<subseteq> tokens: token_world "over_redis exec clock base"
  "\<lambda>j w. view (fst w) j = None" "\<lambda>i w. drawn_by i (snd w)"
proof
  fix j
  have kv: "keeps (\<lambda>w. view (fst w) j = None) (ax_kvGet (over_redis exec clock base) k)"
    "keeps (\<lambda>w. view (fst w) j = None) (ax_kvDel (over_redis exec clock base) k)"
    "keeps (\<lambda>w. view (fst w) j = None) (ax_kvExists (over_redis exec clock base) k)" for k
    by (rule keepsI; auto simp: on_fst_eq dest: kv_get_view kv_exists_view kv_del_view(1))+
  then show "calls_keep (over_redis exec clock base) (\<lambda>w. view (fst w) j = None)"
    using rest_gone by (simp add: calls_keep_def rest_keeps_def)
next
  fix i
  have kv: "keeps (\<lambda>w. drawn_by i (snd w)) (ax_kvGet (over_redis exec clock base) k)"
    "keeps (\<lambda>w. drawn_by i (snd w)) (ax_kvDel (over_redis exec clock base) k)"
    "keeps (\<lambda>w. drawn_by i (snd w)) (ax_kvExists (over_redis exec clock base) k)" for k
    by (rule keepsI; auto simp: on_fst_eq)+
  then show "calls_keep (over_redis exec clock base) (\<lambda>w. drawn_by i (snd w))"
    using rest_drawn by (simp add: calls_keep_def rest_keeps_def)
next
  fix j k :: string and p assume "j \<noteq> k"
  then show "keeps (\<lambda>w. view (fst w) j = None) (ax_hit (over_redis exec clock base) k p)"
    by (auto intro!: keepsI simp: on_fst_eq) (metis hit_view)
next
  fix i k p show "keeps (\<lambda>w. drawn_by i (snd w)) (ax_hit (over_redis exec clock base) k p)"
    by (auto intro!: keepsI simp: on_fst_eq)
next
  fix j k :: string and v opts assume "j \<noteq> k"
  then show "keeps (\<lambda>w. view (fst w) j = None) (ax_kvSet (over_redis exec clock base) k v opts)"
    by (auto intro!: keepsI simp: on_fst_eq) (metis kv_set_view)
next
  fix i k v opts show "keeps (\<lambda>w. drawn_by i (snd w)) (ax_kvSet (over_redis exec clock base) k v opts)"
    by (auto intro!: keepsI simp: on_fst_eq)
next
  show "keeps (\<lambda>w. view (fst w) j = None) (ax_uuid (over_redis exec clock base))" for j
    using rest_gone by (simp add: rest_keeps_def)
  show "keeps (\<lambda>w. drawn_by i (snd w)) (ax_uuid (over_redis exec clock base))" for i
    using rest_drawn by (simp add: rest_keeps_def)
next
  fix w u w' assume "ax_uuid (over_redis exec clock base) w = (Inr u, w')"
  then show "\<not> drawn_by u (snd w)" using new_id by simp
next
  fix k w w' assume "ax_kvDel (over_redis exec clock base) k w = (Inr True, w')"
  then show "view (fst w) k \<noteq> None \<and> view (fst w') k = None"
    by (auto simp: on_fst_eq live_def live_entry_def dest!: kv_del_view(2) split: option.splits)
qed

subsection \<open>A small deployment\<close>

text \<open>One tenant with one active account, a Redis that never fails, ids drawn from a counter and
  digests that keep their input apart. The world beside Redis is the clock and the counter.\<close>

definition alice :: auth_user where
  "alice = \<lparr>au_id = ''u1'', au_email = ''a@x'', au_passwordHash = Some ''secret'', au_roles = Some [''member''],
     au_tenantId = ''acme'', au_status = UserActive, au_tokenVersion = None\<rparr>"

definition small_stringify :: "json \<Rightarrow> string" where
  "small_stringify j =
     (case j of
        JObj [(_, JStr t), (_, JStr u), (_, JStr i), (_, JStr s)] \<Rightarrow> join_with CHR '';'' [t, u, i, s]
      | _ \<Rightarrow> ''value'')"

definition small_parse :: "string \<Rightarrow> json option" where
  "small_parse s =
     (case split_on CHR '';'' s of
        [t, u, i, sig] \<Rightarrow> Some (JObj [(''tenantId'', JStr t), (''userId'', JStr u), (''tokenId'', JStr i), (''sig'', JStr sig)])
      | _ \<Rightarrow> Some (JObj [(''v'', JNum 1), (''d'', JBool True)]))"

definition small_base :: "(redis_db \<times> nat \<times> nat) auth_deps" where
  "small_base =
     \<lparr>ax_env = (\<lambda>_. None), ax_secret = ''k'', ax_now = (\<lambda>w. fst (snd w)), ax_first = (\<lambda>_. True),
      ax_kvGet = (\<lambda>_. ret None), ax_kvSet = (\<lambda>_ _ _. ret ()), ax_kvDel = (\<lambda>_. ret False),
      ax_kvExists = (\<lambda>_. ret False), ax_hit = (\<lambda>_ _. raise (app_error RATE_LIMITED)),
      ax_findTenant = (\<lambda>t. ret (if t = ''acme''
        then Some \<lparr>tr_id = t, tr_name = t, tr_status = TenantActive, tr_selfSignup = False\<rparr> else None)),
      ax_findMember = (\<lambda>t u. ret (if t = ''acme'' \<and> u = ''u1''
        then Some \<lparr>ma_status = UserActive, ma_roles = [''member''], ma_tokenVersion = None\<rparr> else None)),
      ax_findByEmail = (\<lambda>t e. ret (if t = ''acme'' \<and> e = ''a@x'' then Some alice else None)),
      ax_findById = (\<lambda>t u. ret (if t = ''acme'' \<and> u = ''u1'' then Some alice else None)),
      ax_recordLogin = (\<lambda>_ _. ret ()), ax_bcrypt = (\<lambda>p h. ret (p = h)),
      ax_uuid = (\<lambda>(r, now, n). (Inr (show_nat n), (r, now, Suc n))),
      ax_jwtSign = (\<lambda>_. ret ''jwt''),
      ax_jwtVerify = (\<lambda>token _ w. if token = ''jwt'' then Some (JObj [(''sub'', JStr ''u1''),
        (''email'', JStr ''a@x''), (''roles'', JArr [JStr ''admin'']), (''tenantId'', JStr ''acme''),
        (''jti'', JStr ''7''), (''exp'', JNum 900)]) else None),
      ax_sha256 = (\<lambda>s. s), ax_hmac = (\<lambda>k m. k @ replace_char CHR 0x0A CHR ''/'' m),
      ax_stringify = small_stringify, ax_parse = small_parse, ax_toBase64url = (\<lambda>s. s),
      ax_fromBase64url = (\<lambda>s. s)\<rparr>"

definition small_auth :: "(redis_db \<times> nat \<times> nat) auth_deps" where
  "small_auth = over_redis sure_exec fst small_base"

definition small_drawn :: "string \<Rightarrow> nat \<times> nat \<Rightarrow> bool" where
  "small_drawn u s \<longleftrightarrow> (\<exists>m < snd s. u = show_nat m)"

interpretation small: redis_tokens sure_exec sure_pipe "\<lambda>db. db" small_base fst small_drawn
  by unfold_locales
    (auto simp: rest_keeps_def small_base_def keeps_def small_drawn_def show_nat_inj)

lemma small_token_world:
  "token_world small_auth (\<lambda>j w. fst w j = None) (\<lambda>i w. small_drawn i (snd w))"
  unfolding small_auth_def by (rule small.tokens.token_world_axioms)

subsection \<open>Facts the properties share\<close>

lemma refresh_Inr:
  assumes "refresh d token w = (Inr pair, w')"
  obtains c tr stored u w1 w2 w3 w4 where "decodeRefreshToken d token = Some c"
    "ax_findTenant d (rt_tenantId c) w = (Inr (Some tr), w1)" "tr_status tr = TenantActive"
    "spend_refresh_token d c w1 = (Inr stored, w2)"
    "ax_findById d (rt_tenantId c) (rt_userId c) w2 = (Inr (Some u), w3)" "au_status u = UserActive"
    "storedVersion stored = tokenVersionOf u" "issueTokenPair d u w4 = (Inr pair, w')"
  using assms
  by (fastforce simp: refresh_def auth_assertTenantActive_def assertTenantActive_def refresh_for_def eff_simps
    split: option.splits if_splits)

lemma decodeRefreshToken_Some:
  assumes "decodeRefreshToken d token = Some c"
  obtains ps where "ax_parse d (ax_fromBase64url d token) = Some (JObj ps)"
    "js_prop ps ''tenantId'' = Some (JStr (rt_tenantId c))" "js_prop ps ''userId'' = Some (JStr (rt_userId c))"
    "js_prop ps ''tokenId'' = Some (JStr (rt_tokenId c))" "js_prop ps ''sig'' = Some (JStr (signRefresh d c))"
    "isTenantId (rt_tenantId c)"
  using assms
  by (auto simp: decodeRefreshToken_def toTenantId_def Let_def
    split: option.splits json.splits if_splits)

lemma refresh_text_inj:
  assumes "refresh_text c = refresh_text c'" "isTenantId (rt_tenantId c)" "isTenantId (rt_tenantId c')"
    and "CHR 0x0A \<notin> set (rt_userId c)" "CHR 0x0A \<notin> set (rt_tokenId c)"
  shows "c' = c"
proof -
  have t: "CHR 0x0A \<notin> set t" if "isTenantId t" for t
    using that by (cases t)
      (auto simp: isTenantId_def is_tenant_char_def is_alnum_def is_upper_def is_lower_def is_digit_def)
  have split: "x = y \<and> s = s'" if "x @ CHR 0x0A # s = y @ CHR 0x0A # s'" "CHR 0x0A \<notin> set x" "CHR 0x0A \<notin> set y"
    for x y s s' :: string
    using that
  proof (induction x arbitrary: y)
    case Nil
    then show ?case by (cases y) auto
  next
    case (Cons a x)
    then show ?case by (cases y) auto
  qed
  have a: "rt_tenantId c = rt_tenantId c'"
    "rt_userId c @ CHR 0x0A # rt_tokenId c = rt_userId c' @ CHR 0x0A # rt_tokenId c'"
    using split [OF assms(1) [unfolded refresh_text_def] t [OF assms(2)] t [OF assms(3)]] by simp_all
  have n: "CHR 0x0A \<notin> set (rt_userId c')"
  proof
    assume "CHR 0x0A \<in> set (rt_userId c')"
    then obtain p q where "rt_userId c' = p @ CHR 0x0A # q" by (auto simp: in_set_conv_decomp)
    then have "count_list (rt_userId c @ CHR 0x0A # rt_tokenId c) CHR 0x0A \<ge> 2" unfolding a(2) by simp
    moreover have "count_list (rt_userId c) CHR 0x0A = 0" "count_list (rt_tokenId c) CHR 0x0A = 0"
      using assms(4,5) by (simp_all add: count_list_0_iff)
    ultimately show False by simp
  qed
  have "rt_userId c = rt_userId c' \<and> rt_tokenId c = rt_tokenId c'"
    using split [OF a(2) assms(4) n] by simp
  with a(1) show ?thesis by (cases c; cases c') simp
qed

definition small_world :: "redis_db \<times> nat \<times> nat" where
  "small_world = snd (createRefreshToken small_auth alice (\<lambda>_. None, 0, 0))"

definition small_token :: string where "small_token = ''acme;u1;0;kacme/u1/0''"

lemma small_keys:
  "forTenant REFRESH_TOKEN_KEY (\<lambda>_. None) ''acme'' [''u1'', ''0''] =
     Inr ''tropis:development:t.acme:kv:auth:refresh-token:v1:u1:0''"
  "forTenant REFRESH_TOKEN_KEY (\<lambda>_. None) ''acme'' [''u1'', ''2''] =
     Inr ''tropis:development:t.acme:kv:auth:refresh-token:v1:u1:2''"
  "forTenant SESSION_KEY (\<lambda>_. None) ''acme'' [''u1''] = Inr ''tropis:development:t.acme:kv:auth:session:v1:u1''"
  by code_simp+

lemma small_decodes:
  "decodeRefreshToken small_auth small_token = Some \<lparr>rt_tenantId = ''acme'', rt_userId = ''u1'', rt_tokenId = ''0''\<rparr>"
  by code_simp

lemma small_parts [simp]:
  "ax_env small_auth = (\<lambda>_. None)" "ax_now small_auth = (\<lambda>w. fst (snd w))"
  "ax_uuid small_auth w = (Inr (show_nat (snd (snd w))), fst w, fst (snd w), Suc (snd (snd w)))"
  "ax_sha256 small_auth = (\<lambda>s. s)"
  "ax_findTenant small_auth t = ret (if t = ''acme''
     then Some \<lparr>tr_id = t, tr_name = t, tr_status = TenantActive, tr_selfSignup = False\<rparr> else None)"
  "ax_findById small_auth t u = ret (if t = ''acme'' \<and> u = ''u1'' then Some alice else None)"
  "ax_jwtSign small_auth ps = ret ''jwt''"
  by (simp_all add: small_auth_def small_base_def split: prod.splits)

lemma small_stores [simp]:
  "ax_kvGet small_auth k w = on_fst (kv_get sure_exec small_parse (fst (snd w)) k) w"
  "ax_kvSet small_auth k v opts w = on_fst (kv_set sure_exec small_stringify (fst (snd w)) k v opts) w"
  "ax_kvDel small_auth k w = on_fst (kv_del sure_exec (fst (snd w)) k) w"
  by (simp_all add: small_auth_def small_base_def)

lemma alice_simps [simp]:
  "au_id alice = ''u1''" "au_email alice = ''a@x''" "au_roles alice = Some [''member'']" "au_status alice = UserActive"
  "tokenVersionOf alice = 0" "tenantOf alice = Inr ''acme''"
  by (simp_all add: alice_def tokenVersionOf_def) code_simp

lemma kv_set_sure:
  assumes "positive_integer s"
  shows "kv_set sure_exec stringify now k (Some v) (for_seconds s) r =
    (Inr (), r(k := Some (stringify (JObj [(''v'', JNum 1), (''d'', v)]), Some (now + 1000 * as_nat s))))"
  using assms
  by (simp add: kv_set_def for_seconds_def resolveKvLifetime_def assertPositiveInteger_def encodeKvValue_def
    KV_CODEC_VERSION_def sure_exec_def)

lemma token_ttls [simp]:
  "positive_integer (of_nat REFRESH_TOKEN_TTL_SECONDS)" "REFRESH_TOKEN_TTL_SECONDS = 604800"
  "positive_integer (of_nat SESSION_TTL_SECONDS)" "SESSION_TTL_SECONDS = 604800"
  by (simp_all add: REFRESH_TOKEN_TTL_SECONDS_def SESSION_TTL_SECONDS_def)

lemma small_digits [simp]: "show_nat 0 = ''0''" "show_nat (Suc 0) = ''1''" "show_nat (Suc (Suc 0)) = ''2''"
  by code_simp+

lemma small_stringify_value [simp]: "small_stringify (JObj [(''v'', JNum x), (''d'', v)]) = ''value''"
  by (simp add: small_stringify_def split: json.split)

lemmas run_small = andThen_def refreshKey_def key_effs keyed_def small_keys on_fst_def kv_set_sure Let_def

lemma small_world_eq: "small_world =
   ((\<lambda>_. None)(''tropis:development:t.acme:kv:auth:refresh-token:v1:u1:0'' := Some (''value'', Some 604800000)), 0, 1)"
  by (simp add: small_world_def createRefreshToken_def run_small)

lemma small_parse_value [simp]: "small_parse ''value'' = Some (JObj [(''v'', JNum 1), (''d'', JBool True)])"
  by code_simp

lemma small_refreshes: "\<not> isl (fst (refresh small_auth small_token small_world))"
  unfolding refresh_def small_world_eq small_decodes
  by (simp add: run_small auth_assertTenantActive_def assertTenantActive_def spend_refresh_token_def
    kv_get_def kv_del_def sure_exec_def redis_del_def live_def live_entry_def decodeKvValue_def
    KV_CODEC_VERSION_def js_prop_def js_has_def storedVersion_def unless_def session_create_def rescue_def
    refresh_for_def issueTokenPair_def signAccessToken_def createRefreshToken_def)

subsection \<open>Properties\<close>

text \<open>C4: A refresh token is used once. When a refresh has answered a pair, no later refresh with
  the same token does, whatever requests anyone makes in between, as long as no other token id
  has its digest.\<close>

theorem refresh_token_single_use:
  assumes world: "token_world d gone drawn"
    and dec: "decodeRefreshToken d token = Some c" and old: "drawn (rt_tokenId c) w"
    and free: "\<forall>x. ax_sha256 d x = ax_sha256 d (rt_tokenId c) \<longrightarrow> x = rt_tokenId c"
    and run: "refresh d token w = (Inr pair, w1)"
  shows "isl (fst (refresh d token (serve_all d calls w1)))"
proof -
  obtain k where k:
    "forTenant REFRESH_TOKEN_KEY (ax_env d) (rt_tenantId c) [rt_userId c, ax_sha256 d (rt_tokenId c)] = Inr k"
    "token_world.spent gone drawn k (rt_tokenId c) w1"
    using token_world.refresh_spends [OF world run dec old free] by blast
  show ?thesis
    by (rule token_world.spent_refresh_fails [OF world dec k(1)
      token_world.spent_serve_all [OF world k(1) free k(2)]])
qed

lemma refresh_token_single_use_witness:
  "isl (fst (refresh small_auth small_token
     (serve_all small_auth [CallLogin ''acme'' \<lparr>ld_email = ''a@x'', ld_password = ''secret''\<rparr> ''::1'']
       (snd (refresh small_auth small_token small_world)))))"
proof -
  obtain pair where "refresh small_auth small_token small_world =
      (Inr pair, snd (refresh small_auth small_token small_world))"
    using small_refreshes by (metis prod.collapse sum.collapse(2))
  from refresh_token_single_use [OF small_token_world small_decodes _ _ this] show ?thesis
    by (simp add: small_drawn_def small_world_eq)
qed

text \<open>A refresh that answers a pair was asked with a token that carries our signature, in an
  active tenant, for an active account whose token version is the one the store kept with the
  token; and the pair is issued for that account.\<close>

theorem refresh_admits_current_account:
  assumes "refresh d token w = (Inr pair, w')"
  shows "\<exists>ps c tr u stored w1 w2 w3.
    ax_parse d (ax_fromBase64url d token) = Some (JObj ps)
    \<and> js_prop ps ''sig'' = Some (JStr (ax_hmac d (ax_secret d) (refresh_text c)))
    \<and> js_prop ps ''tenantId'' = Some (JStr (rt_tenantId c)) \<and> js_prop ps ''userId'' = Some (JStr (rt_userId c))
    \<and> ax_findTenant d (rt_tenantId c) w = (Inr (Some tr), w1) \<and> tr_status tr = TenantActive
    \<and> spend_refresh_token d c w1 = (Inr stored, w2)
    \<and> fst (ax_findById d (rt_tenantId c) (rt_userId c) w2) = Inr (Some u)
    \<and> au_status u = UserActive \<and> tokenVersionOf u = storedVersion stored
    \<and> issueTokenPair d u w3 = (Inr pair, w')"
  using assms
proof (rule refresh_Inr)
  fix c tr stored u w1 w2 w3 w4
  assume c: "decodeRefreshToken d token = Some c"
    and r: "ax_findTenant d (rt_tenantId c) w = (Inr (Some tr), w1)" "tr_status tr = TenantActive"
      "spend_refresh_token d c w1 = (Inr stored, w2)"
      "ax_findById d (rt_tenantId c) (rt_userId c) w2 = (Inr (Some u), w3)" "au_status u = UserActive"
      "storedVersion stored = tokenVersionOf u" "issueTokenPair d u w4 = (Inr pair, w')"
  from c obtain ps where "ax_parse d (ax_fromBase64url d token) = Some (JObj ps)"
    "js_prop ps ''tenantId'' = Some (JStr (rt_tenantId c))" "js_prop ps ''userId'' = Some (JStr (rt_userId c))"
    "js_prop ps ''sig'' = Some (JStr (signRefresh d c))"
    by (rule decodeRefreshToken_Some) blast
  with r show ?thesis unfolding signRefresh_def by (metis fst_conv)
qed

lemma refresh_admits_current_account_witness:
  "\<exists>stored w2 u. fst (ax_findById small_auth ''acme'' ''u1'' w2) = Inr (Some u)
     \<and> au_status u = UserActive \<and> tokenVersionOf u = storedVersion (stored :: json option)"
proof -
  obtain pair w' where "refresh small_auth small_token small_world = (Inr pair, w')"
    using small_refreshes by (metis prod.collapse sum.collapse(2))
  from refresh_admits_current_account [OF this] show ?thesis
    by (auto simp: small_auth_def small_base_def split: if_splits)
qed

text \<open>An outage of the user store ends the session all the same: the token is deleted before
  the account is read, so when that read fails the refresh answers the failure, and the token,
  which the client still holds, earns nothing ever after.\<close>

theorem refresh_outage_spends_token:
  assumes world: "token_world d gone drawn"
    and dec: "decodeRefreshToken d token = Some c" and old: "drawn (rt_tokenId c) w"
    and free: "\<forall>x. ax_sha256 d x = ax_sha256 d (rt_tokenId c) \<longrightarrow> x = rt_tokenId c"
    and run: "auth_assertTenantActive d (rt_tenantId c) w = (Inr u, w1)"
      "spend_refresh_token d c w1 = (Inr stored, w2)"
      "ax_findById d (rt_tenantId c) (rt_userId c) w2 = (Inl e, w3)"
  shows "refresh d token w = (Inl e, w3) \<and> isl (fst (refresh d token (serve_all d calls w3)))"
proof
  show "refresh d token w = (Inl e, w3)"
    using dec run by (simp add: refresh_def andThen_run)
  obtain k w4 w5 where k:
    "forTenant REFRESH_TOKEN_KEY (ax_env d) (rt_tenantId c) [rt_userId c, ax_sha256 d (rt_tokenId c)] = Inr k"
    and s: "ax_kvGet d k w1 = (Inr stored, w4)" "ax_kvDel d k w4 = (Inr True, w5)" "w5 = w2"
    using run(2) by (auto simp: spend_refresh_token_def refreshKey_def key_effs eff_simps)
  note w = calls_keepD [OF token_world.calls(2) [OF world]]
  have "keeps (drawn (rt_tokenId c)) (auth_assertTenantActive d (rt_tenantId c))"
    unfolding auth_assertTenantActive_def by (intro keeps_intros w)
  then have "drawn (rt_tokenId c) w2"
    using old run(1) s keepsD w(1,2) by metis
  then have "token_world.spent gone drawn k (rt_tokenId c) w2"
    using token_world.del_true [OF world s(2)] s(3) by (simp add: token_world.spent_def [OF world])
  then have "token_world.spent gone drawn k (rt_tokenId c) w3"
    using token_world.spent_calls(7) [OF world] run(3) keepsD by metis
  then show "isl (fst (refresh d token (serve_all d calls w3)))"
    by (intro token_world.spent_refresh_fails [OF world dec k] token_world.spent_serve_all [OF world k free])
qed

text \<open>The small deployment with its user store down.\<close>

definition down_auth :: "(redis_db \<times> nat \<times> nat) auth_deps" where
  "down_auth = over_redis sure_exec fst (small_base\<lparr>ax_findById := (\<lambda>_ _. raise (app_error SERVICE_UNAVAILABLE))\<rparr>)"

interpretation down: redis_tokens sure_exec sure_pipe "\<lambda>db. db"
  "small_base\<lparr>ax_findById := (\<lambda>_ _. raise (app_error SERVICE_UNAVAILABLE))\<rparr>" fst small_drawn
  by unfold_locales
    (auto simp: rest_keeps_def small_base_def keeps_def small_drawn_def show_nat_inj)

lemma refresh_outage_spends_token_witness:
  "fst (refresh down_auth small_token small_world) = Inl (app_error SERVICE_UNAVAILABLE)
   \<and> isl (fst (refresh down_auth small_token (snd (refresh down_auth small_token small_world))))"
proof -
  let ?c = "\<lparr>rt_tenantId = ''acme'', rt_userId = ''u1'', rt_tokenId = ''0''\<rparr>"
  have world: "token_world down_auth (\<lambda>j w. fst w j = None) (\<lambda>i w. small_drawn i (snd w))"
    unfolding down_auth_def by (rule down.tokens.token_world_axioms)
  have dec: "decodeRefreshToken down_auth small_token = Some ?c" by code_simp
  have old: "small_drawn (rt_tokenId ?c) (snd small_world)" by (simp add: small_drawn_def small_world_eq)
  have free: "\<forall>x. ax_sha256 down_auth x = ax_sha256 down_auth (rt_tokenId ?c) \<longrightarrow> x = rt_tokenId ?c"
    by (simp add: down_auth_def small_base_def)
  have a: "auth_assertTenantActive down_auth (rt_tenantId ?c) small_world = (Inr (), small_world)"
    by (simp add: down_auth_def small_base_def auth_assertTenantActive_def assertTenantActive_def)
  have "\<exists>stored w2. spend_refresh_token down_auth ?c small_world = (Inr stored, w2)"
    unfolding small_world_eq
    by (simp add: down_auth_def small_base_def run_small spend_refresh_token_def unless_def
      kv_get_def kv_del_def sure_exec_def redis_del_def live_def live_entry_def decodeKvValue_def
      KV_CODEC_VERSION_def js_prop_def js_has_def)
  then obtain stored w2 where s: "spend_refresh_token down_auth ?c small_world = (Inr stored, w2)" by blast
  have f: "ax_findById down_auth (rt_tenantId ?c) (rt_userId ?c) w2 = (Inl (app_error SERVICE_UNAVAILABLE), w2)"
    by (simp add: down_auth_def)
  show ?thesis
    using refresh_outage_spends_token [OF world dec old free a s f, of "[]"] by (simp add: serve_all_def)
qed

text \<open>A refresh token that was issued decodes to what it was issued for, and its signature
  serves no other tenant, user or token id: a token accepted with that signature names exactly
  those, when HMAC does not collide on the two texts and the issued ids hold no line break.\<close>

theorem refresh_token_round_trip_and_binding:
  assumes tenant: "isTenantId (rt_tenantId c)"
    and "ax_parse d (ax_fromBase64url d (encode_refresh_token d c)) =
      Some (JObj [(''tenantId'', JStr (rt_tenantId c)), (''userId'', JStr (rt_userId c)),
        (''tokenId'', JStr (rt_tokenId c)), (''sig'', JStr (signRefresh d c))])"
    and "CHR 0x0A \<notin> set (rt_userId c)" "CHR 0x0A \<notin> set (rt_tokenId c)"
  shows "decodeRefreshToken d (encode_refresh_token d c) = Some c
    \<and> (decodeRefreshToken d forged = Some c' \<and> ax_parse d (ax_fromBase64url d forged) = Some (JObj ps)
       \<and> js_prop ps ''sig'' = Some (JStr (signRefresh d c))
       \<and> (ax_hmac d (ax_secret d) (refresh_text c) = ax_hmac d (ax_secret d) (refresh_text c')
            \<longrightarrow> refresh_text c = refresh_text c') \<longrightarrow> c' = c)"
proof (intro conjI impI)
  show "decodeRefreshToken d (encode_refresh_token d c) = Some c"
    using assms by (cases c) (simp add: decodeRefreshToken_def js_prop_def toTenantId_def Let_def)
next
  assume a: "decodeRefreshToken d forged = Some c' \<and> ax_parse d (ax_fromBase64url d forged) = Some (JObj ps)
    \<and> js_prop ps ''sig'' = Some (JStr (signRefresh d c))
    \<and> (ax_hmac d (ax_secret d) (refresh_text c) = ax_hmac d (ax_secret d) (refresh_text c')
         \<longrightarrow> refresh_text c = refresh_text c')"
  obtain qs where "ax_parse d (ax_fromBase64url d forged) = Some (JObj qs)"
    "js_prop qs ''sig'' = Some (JStr (signRefresh d c'))" "isTenantId (rt_tenantId c')"
    by (rule decodeRefreshToken_Some [OF conjunct1 [OF a]])
  then show "c' = c"
    using a refresh_text_inj [OF _ tenant _ assms(3,4)] by (auto simp: signRefresh_def)
qed

lemma refresh_token_round_trip_and_binding_witness:
  "decodeRefreshToken small_auth (encode_refresh_token small_auth
     \<lparr>rt_tenantId = ''acme'', rt_userId = ''u2'', rt_tokenId = ''5''\<rparr>) =
   Some \<lparr>rt_tenantId = ''acme'', rt_userId = ''u2'', rt_tokenId = ''5''\<rparr>"
proof -
  let ?c = "\<lparr>rt_tenantId = ''acme'', rt_userId = ''u2'', rt_tokenId = ''5''\<rparr>"
  have "isTenantId (rt_tenantId ?c)" by code_simp
  moreover have "ax_parse small_auth (ax_fromBase64url small_auth (encode_refresh_token small_auth ?c)) =
      Some (JObj [(''tenantId'', JStr (rt_tenantId ?c)), (''userId'', JStr (rt_userId ?c)),
        (''tokenId'', JStr (rt_tokenId ?c)), (''sig'', JStr (signRefresh small_auth ?c))])"
    by code_simp
  ultimately show ?thesis using refresh_token_round_trip_and_binding [of ?c small_auth] by simp
qed

end
