(* ===== verification/Users.thy ===== *)
theory Users
  imports Auth Outbox
begin

text \<open>
  The user module: the document and its repository (\<open>schemas/user.schema.ts\<close>,
  \<open>repositories/user.repository.ts\<close>), the event store (\<open>event-store\<close>), the commands
  (\<open>commands\<close>) and the transaction they run in (\<open>infrastructure/documents\<close>).

  Inside a transaction an operation reads the transaction's view: the snapshot it began on, with
  its own writes. The view records the documents written, the events appended and the outbox
  commands issued; what becomes of them is the commit's affair, in theory \<open>User_History\<close>.
  Every operation may fail with the error the database gives it. Dates are milliseconds.
\<close>

subsection \<open>Constants\<close>

definition PASSWORD_MIN_LENGTH :: nat where "PASSWORD_MIN_LENGTH = 8"
definition IDEMPOTENCY_TTL_SECONDS :: nat where "IDEMPOTENCY_TTL_SECONDS = 86400"
definition SUSPENDED_TTL_SECONDS :: nat where "SUSPENDED_TTL_SECONDS = 7 * 24 * 60 * 60"

definition USER_TOPIC :: string where "USER_TOPIC = ''user-events''"

definition USER_PROFILE_CACHE :: key_builder where
  "USER_PROFILE_CACHE = auth_key ''cache'' ''user'' ''profile''"

definition CREATE_REQUEST_DEDUP :: key_builder where
  "CREATE_REQUEST_DEDUP = auth_key ''dedup'' ''user'' ''create-request''"

definition CREATE_RESPONSE_KEY :: key_builder where
  "CREATE_RESPONSE_KEY = auth_key ''kv'' ''user'' ''create-response''"

definition SIGNUP_IP_RATE_LIMIT :: key_builder where
  "SIGNUP_IP_RATE_LIMIT = auth_key ''ratelimit'' ''user'' ''signup-ip''"

definition SIGNUP_TENANT_RATE_LIMIT :: key_builder where
  "SIGNUP_TENANT_RATE_LIMIT = auth_key ''ratelimit'' ''user'' ''signup-tenant''"

lemma user_keys_defined:
  "list_all (\<lambda>b. defineKey (kb_spec b) = Inr b)
     [USER_PROFILE_CACHE, CREATE_REQUEST_DEDUP, CREATE_RESPONSE_KEY, SIGNUP_IP_RATE_LIMIT, SIGNUP_TENANT_RATE_LIMIT]"
  by code_simp

subsection \<open>Documents\<close>

record user =
  u_id :: string
  u_name :: string
  u_email :: string
  u_passwordHash :: "string option"
  u_age :: "rat option"
  u_status :: user_status
  u_loginCount :: nat
  u_roles :: "string list"
  u_tenantId :: string
  u_tokenVersion :: nat
  u_provider :: "string option"
  u_providerId :: "string option"
  u_deletedAt :: "nat option"
  u_createdAt :: nat
  u_updatedAt :: nat

record user_event =
  ue_tenantId :: string
  ue_aggregateId :: string
  ue_type :: string
  ue_payload :: "(string \<times> json) list"
  ue_version :: nat
  ue_schemaVersion :: nat

definition ADMIN :: string where "ADMIN = ''admin''"
definition MEMBER :: string where "MEMBER = ''member''"

definition is_live :: "user \<Rightarrow> bool" where "is_live u \<longleftrightarrow> u_deletedAt u = None"

text \<open>The unique index: one live document of a tenant has an email.\<close>

definition same_slot :: "user \<Rightarrow> user \<Rightarrow> bool" where
  "same_slot u u' \<longleftrightarrow> is_live u \<and> is_live u' \<and> u_tenantId u = u_tenantId u' \<and> u_email u = u_email u'"

definition index_allows :: "user list \<Rightarrow> user \<Rightarrow> bool" where
  "index_allows us u \<longleftrightarrow> \<not> list_ex (\<lambda>u'. u_id u' \<noteq> u_id u \<and> same_slot u u') us"

definition duplicate_key :: thrown where
  "duplicate_key = PlainError ''MongoServerError'' ''E11000 duplicate key error'' [(''code'', JNum 11000)]"

definition status_name :: "user_status \<Rightarrow> string" where
  "status_name s = (case s of UserActive \<Rightarrow> ''active'' | UserInactive \<Rightarrow> ''inactive'')"

subsection \<open>A transaction\<close>

text \<open>\<open>te_fault n\<close> is the error of the transaction's \<open>n\<close>-th operation, \<open>te_now n\<close> the time it takes;
  then the ids the driver and \<open>randomUUID\<close> draw, and the caller's trace context. \<open>te_undefined\<close> is
  what the store keeps of an undefined property of a payload: nothing, or a null.\<close>

record tx_env =
  te_fault :: "nat \<Rightarrow> thrown option"
  te_now :: "nat \<Rightarrow> nat"
  te_userId :: string
  te_uuid :: string
  te_rowId :: nat
  te_carrier :: "string option \<times> string option"
  te_undefined :: "json option"

record tx_view =
  v_users :: "user list"
  v_events :: "user_event list"
  v_appended :: "user_event list"
  v_wrote :: "string list"
  v_outbox :: "db_cmd list"
  v_ops :: nat

definition tenancy_error :: thrown where
  "tenancy_error = PlainError ''DocumentTenancyError'' [] []"

text \<open>One operation of a tenant's repository, at the time of the operation.\<close>

definition tx_op ::
  "tx_env \<Rightarrow> (nat \<Rightarrow> tx_view \<Rightarrow> (thrown + 'a) \<times> tx_view) \<Rightarrow> (tx_view, 'a) eff" where
  "tx_op e f v =
     (let v' = v\<lparr>v_ops := Suc (v_ops v)\<rparr> in
      case te_fault e (v_ops v) of Some err \<Rightarrow> (Inl err, v') | None \<Rightarrow> f (te_now e (v_ops v)) v')"

definition repo_op ::
  "tx_env \<Rightarrow> string \<Rightarrow> (nat \<Rightarrow> tx_view \<Rightarrow> (thrown + 'a) \<times> tx_view) \<Rightarrow> (tx_view, 'a) eff" where
  "repo_op e tenant f = (if isTenantId tenant then tx_op e f else raise tenancy_error)"

subsection \<open>The repository\<close>

definition is_live_user :: "string \<Rightarrow> string \<Rightarrow> user \<Rightarrow> bool" where
  "is_live_user tenant i u \<longleftrightarrow> u_tenantId u = tenant \<and> u_id u = i \<and> is_live u"

definition repo_findById :: "tx_env \<Rightarrow> string \<Rightarrow> string \<Rightarrow> (tx_view, user option) eff" where
  "repo_findById e tenant i = repo_op e tenant (\<lambda>_ v. (Inr (find (is_live_user tenant i) (v_users v)), v))"

text \<open>A document written back, unless the index refuses it.\<close>

definition put_user :: "user \<Rightarrow> tx_view \<Rightarrow> (thrown + user) \<times> tx_view" where
  "put_user u v =
     (if \<not> index_allows (v_users v) u then (Inl duplicate_key, v)
      else (Inr u, v\<lparr>v_users := map (\<lambda>u'. if u_id u' = u_id u then u else u') (v_users v),
                     v_wrote := u_id u # v_wrote v\<rparr>))"

definition findOneAndUpdate ::
  "tx_env \<Rightarrow> string \<Rightarrow> string \<Rightarrow> (nat \<Rightarrow> user \<Rightarrow> user) \<Rightarrow> (tx_view, user option) eff" where
  "findOneAndUpdate e tenant i f =
     repo_op e tenant (\<lambda>now v.
       case find (is_live_user tenant i) (v_users v) of
         None \<Rightarrow> (Inr None, v)
       | Some u \<Rightarrow> (case put_user (f now u) v of (r, v') \<Rightarrow> (map_sum id Some r, v')))"

text \<open>The \<open>$set\<close> of an update; the schema's setters trim the name and lower-case the email.\<close>

record user_data =
  ud_name :: "string option"
  ud_email :: "string option"
  ud_passwordHash :: "string option"
  ud_age :: "rat option"
  ud_status :: "user_status option"
  ud_roles :: "string list option"

definition no_data :: user_data where
  "no_data = \<lparr>ud_name = None, ud_email = None, ud_passwordHash = None, ud_age = None, ud_status = None,
     ud_roles = None\<rparr>"

definition set_data :: "user_data \<Rightarrow> bool \<Rightarrow> nat \<Rightarrow> user \<Rightarrow> user" where
  "set_data data endSessions now u =
     u\<lparr>u_name := option_or (map_option js_trim (ud_name data)) (u_name u),
       u_email := option_or (map_option to_lower (ud_email data)) (u_email u),
       u_passwordHash := (case ud_passwordHash data of Some h \<Rightarrow> Some h | None \<Rightarrow> u_passwordHash u),
       u_age := (case ud_age data of Some a \<Rightarrow> Some a | None \<Rightarrow> u_age u),
       u_status := option_or (ud_status data) (u_status u),
       u_roles := option_or (ud_roles data) (u_roles u),
       u_tokenVersion := (if endSessions then u_tokenVersion u + 1 else u_tokenVersion u),
       u_updatedAt := now\<rparr>"

definition repo_update ::
  "tx_env \<Rightarrow> string \<Rightarrow> string \<Rightarrow> user_data \<Rightarrow> bool \<Rightarrow> (tx_view, user option) eff" where
  "repo_update e tenant i data endSessions = findOneAndUpdate e tenant i (set_data data endSessions)"

definition repo_updateRoles :: "tx_env \<Rightarrow> string \<Rightarrow> string \<Rightarrow> string list \<Rightarrow> (tx_view, user option) eff" where
  "repo_updateRoles e tenant i roles = repo_update e tenant i (no_data\<lparr>ud_roles := Some roles\<rparr>) True"

definition repo_delete :: "tx_env \<Rightarrow> string \<Rightarrow> string \<Rightarrow> (tx_view, user option) eff" where
  "repo_delete e tenant i =
     findOneAndUpdate e tenant i (\<lambda>now u. u\<lparr>u_deletedAt := Some now, u_updatedAt := now\<rparr>)"

text \<open>\<open>touchOtherAdmins\<close>. The count is \<open>modifiedCount\<close>: a document that already has the new
  \<open>updatedAt\<close> is neither written nor counted.\<close>

definition other_admin :: "string \<Rightarrow> string \<Rightarrow> user \<Rightarrow> bool" where
  "other_admin tenant i u \<longleftrightarrow>
     u_tenantId u = tenant \<and> u_id u \<noteq> i \<and> ADMIN \<in> set (u_roles u) \<and> u_status u = UserActive \<and> is_live u"

definition touchOtherAdmins :: "tx_env \<Rightarrow> string \<Rightarrow> string \<Rightarrow> (tx_view, nat) eff" where
  "touchOtherAdmins e tenant i =
     repo_op e tenant (\<lambda>now v.
       let touched = filter (\<lambda>u. other_admin tenant i u \<and> u_updatedAt u \<noteq> now) (v_users v) in
       (Inr (length touched),
        v\<lparr>v_users := map (\<lambda>u. if other_admin tenant i u then u\<lparr>u_updatedAt := now\<rparr> else u) (v_users v),
          v_wrote := map u_id touched @ v_wrote v\<rparr>))"

text \<open>\<open>create\<close>: the schema's defaults and validators; the new document's id is the driver's.\<close>

record new_user =
  nu_name :: string
  nu_email :: string
  nu_passwordHash :: string
  nu_age :: "rat option"
  nu_identity :: "(string \<times> string) option"

definition user_of_data :: "tx_env \<Rightarrow> string \<Rightarrow> new_user \<Rightarrow> nat \<Rightarrow> user" where
  "user_of_data e tenant data now =
     \<lparr>u_id = te_userId e, u_name = js_trim (nu_name data), u_email = to_lower (nu_email data),
      u_passwordHash = Some (nu_passwordHash data), u_age = nu_age data, u_status = UserActive,
      u_loginCount = 0, u_roles = [MEMBER], u_tenantId = tenant, u_tokenVersion = 0,
      u_provider = map_option fst (nu_identity data), u_providerId = map_option snd (nu_identity data),
      u_deletedAt = None, u_createdAt = now, u_updatedAt = now\<rparr>"

definition user_valid :: "user \<Rightarrow> bool" where
  "user_valid u \<longleftrightarrow> u_name u \<noteq> [] \<and> u_email u \<noteq> []
     \<and> (case u_age u of None \<Rightarrow> True | Some a \<Rightarrow> 0 \<le> a \<and> a \<le> 120)"

definition repo_create :: "tx_env \<Rightarrow> string \<Rightarrow> new_user \<Rightarrow> (tx_view, user) eff" where
  "repo_create e tenant data =
     repo_op e tenant (\<lambda>now v.
       let u = user_of_data e tenant data now in
       if \<not> user_valid u then (Inl (PlainError ''ValidationError'' [] []), v)
       else if u_id u \<in> u_id ` set (v_users v) \<or> \<not> index_allows (v_users v) u then (Inl duplicate_key, v)
       else (Inr u, v\<lparr>v_users := v_users v @ [u], v_wrote := u_id u # v_wrote v\<rparr>))"

subsection \<open>The event store\<close>

definition history_of :: "string \<Rightarrow> string \<Rightarrow> user_event list \<Rightarrow> user_event list" where
  "history_of tenant agg evs = filter (\<lambda>ev. ue_tenantId ev = tenant \<and> ue_aggregateId ev = agg) evs"

definition lastVersion :: "string \<Rightarrow> string \<Rightarrow> user_event list \<Rightarrow> nat" where
  "lastVersion tenant agg evs = Max (insert 0 (set (map ue_version (history_of tenant agg evs))))"

definition event_append ::
  "tx_env \<Rightarrow> string \<Rightarrow> string \<Rightarrow> string \<Rightarrow> (string \<times> json) list \<Rightarrow> (tx_view, unit) eff" where
  "event_append e tenant agg typ pl =
     andThen (repo_op e tenant (\<lambda>_ v. (Inr (lastVersion tenant agg (v_events v @ v_appended v)), v))) (\<lambda>last.
     repo_op e tenant (\<lambda>_ v.
       let ev = \<lparr>ue_tenantId = tenant, ue_aggregateId = agg, ue_type = typ, ue_payload = pl,
                 ue_version = last + 1, ue_schemaVersion = 1\<rparr> in
       if last + 1 \<in> ue_version ` set (history_of tenant agg (v_events v @ v_appended v))
       then (Inl duplicate_key, v)
       else (Inr (), v\<lparr>v_appended := v_appended v @ [ev]\<rparr>)))"

definition getHistory :: "string \<Rightarrow> string \<Rightarrow> user_event list \<Rightarrow> user_event list" where
  "getHistory tenant agg evs = sort_key ue_version (history_of tenant agg evs)"

definition migratePayload :: "string \<Rightarrow> (string \<times> json) list \<Rightarrow> nat \<Rightarrow> (string \<times> json) list" where
  "migratePayload typ pl schemaVersion = pl"

definition spread :: "(string \<times> json) list \<Rightarrow> (string \<times> json) list \<Rightarrow> (string \<times> json) list" where
  "spread state pl = fold (\<lambda>(k, v) ps. js_set ps k v) pl state"

definition applyEvent ::
  "json \<Rightarrow> (string \<times> json) list \<Rightarrow> string \<Rightarrow> (string \<times> json) list \<Rightarrow> (string \<times> json) list" where
  "applyEvent now state typ pl =
     (if typ = ''UserCreated'' then spread [] pl
      else if typ = ''UserUpdated'' then spread state pl
      else if typ = ''UserDeleted'' then js_set state ''deletedAt'' now
      else state)"

definition replay :: "json \<Rightarrow> string \<Rightarrow> string \<Rightarrow> user_event list \<Rightarrow> (string \<times> json) list" where
  "replay now tenant agg evs =
     fold (\<lambda>ev state. applyEvent now state (ue_type ev) (migratePayload (ue_type ev) (ue_payload ev) (ue_schemaVersion ev)))
       (getHistory tenant agg evs) []"

subsection \<open>Events\<close>

definition USER_CREATED :: string where "USER_CREATED = ''identity.user.created''"
definition USER_UPDATED :: string where "USER_UPDATED = ''identity.user.updated''"
definition USER_DELETED :: string where "USER_DELETED = ''identity.user.deleted''"

text \<open>A property that may be undefined, as the store keeps it.\<close>

definition prop_or_undefined :: "tx_env \<Rightarrow> string \<Rightarrow> json option \<Rightarrow> (string \<times> json) list" where
  "prop_or_undefined e k v =
     (case v of Some j \<Rightarrow> [(k, j)] | None \<Rightarrow> (case te_undefined e of Some j \<Rightarrow> [(k, j)] | None \<Rightarrow> []))"

text \<open>\<open>outboxService.write\<close> in the caller's transaction: two commands, one after the other.\<close>

definition outbox_command :: "tx_env \<Rightarrow> db_cmd \<Rightarrow> (tx_view, unit) eff" where
  "outbox_command e c = tx_op e (\<lambda>_ v. (Inr (), v\<lparr>v_outbox := v_outbox v @ [c]\<rparr>))"

definition user_event_input :: "string \<Rightarrow> string \<Rightarrow> string \<Rightarrow> (string \<times> json) list \<Rightarrow> outbox_event_input" where
  "user_event_input tenant i typ data =
     \<lparr>in_topic = USER_TOPIC, in_aggregateId = i, in_type = typ, in_tenantId = tenant, in_data = data,
      in_subject = None, in_id = None, in_schemaVersion = None\<rparr>"

definition outbox_publish ::
  "tx_env \<Rightarrow> string \<Rightarrow> string \<Rightarrow> string \<Rightarrow> (string \<times> json) list \<Rightarrow> (tx_view, unit) eff" where
  "outbox_publish e tenant i typ data v =
     (let now = te_now e (v_ops v) in
      fold (\<lambda>c f. andThen f (\<lambda>_. outbox_command e c))
        (snd (outbox_write (user_event_input tenant i typ data) (te_uuid e) (te_carrier e) now (te_rowId e) now))
        (ret ()) v)"

text \<open>The full current fields an update publishes.\<close>

definition updated_data :: "tx_env \<Rightarrow> string \<Rightarrow> user \<Rightarrow> (string \<times> json) list" where
  "updated_data e tenant u =
     [(''userId'', JStr (u_id u)), (''tenantId'', JStr tenant), (''name'', JStr (u_name u)), (''email'', JStr (u_email u))]
     @ prop_or_undefined e ''age'' (map_option JNum (u_age u))
     @ [(''loginCount'', JNum (of_nat (u_loginCount u))), (''roles'', JArr (map JStr (u_roles u))),
        (''status'', JStr (status_name (u_status u)))]"

subsection \<open>The commands, inside their transaction\<close>

definition user_not_found :: thrown where "user_not_found = app_error USER_NOT_FOUND"

definition last_admin :: "string \<Rightarrow> thrown" where
  "last_admin what = app_error_detail USER_LAST_ADMIN (''Cannot '' @ what @ '' the last admin of this tenant'')"

definition found :: "user option \<Rightarrow> (tx_view, user) eff" where
  "found u = (case u of None \<Rightarrow> raise user_not_found | Some x \<Rightarrow> ret x)"

text \<open>\<open>guarded && (await touchOtherAdmins(...)) === 0\<close>: the error when the last admin would go.\<close>

definition keep_an_admin :: "tx_env \<Rightarrow> string \<Rightarrow> string \<Rightarrow> string \<Rightarrow> bool \<Rightarrow> (tx_view, unit) eff" where
  "keep_an_admin e tenant i what guarded =
     (if guarded
      then andThen (touchOtherAdmins e tenant i) (\<lambda>n. unless (n \<noteq> 0) (last_admin what))
      else ret ())"

definition create_work :: "string \<Rightarrow> new_user \<Rightarrow> tx_env \<Rightarrow> (tx_view, user) eff" where
  "create_work tenant data e =
     andThen (repo_create e tenant data) (\<lambda>u.
     andThen (event_append e tenant (u_id u) ''UserCreated''
       ([(''name'', JStr (nu_name data)), (''email'', JStr (nu_email data))]
        @ prop_or_undefined e ''age'' (map_option JNum (nu_age data)))) (\<lambda>_.
     andThen (outbox_publish e tenant (u_id u) USER_CREATED
       [(''userId'', JStr (u_id u)), (''tenantId'', JStr tenant), (''name'', JStr (nu_name data)),
        (''email'', JStr (nu_email data))]) (\<lambda>_.
     ret u)))"

record user_patch =
  pt_name :: "string option"
  pt_email :: "string option"
  pt_password :: "string option"
  pt_age :: "rat option"
  pt_status :: "user_status option"

text \<open>The event's payload: the patch without the password.\<close>

definition patch_payload :: "user_patch \<Rightarrow> (string \<times> json) list" where
  "patch_payload p =
     (case pt_name p of Some s \<Rightarrow> [(''name'', JStr s)] | None \<Rightarrow> [])
     @ (case pt_email p of Some s \<Rightarrow> [(''email'', JStr s)] | None \<Rightarrow> [])
     @ (case pt_age p of Some a \<Rightarrow> [(''age'', JNum a)] | None \<Rightarrow> [])
     @ (case pt_status p of Some s \<Rightarrow> [(''status'', JStr (status_name s))] | None \<Rightarrow> [])"

text \<open>The \<open>$set\<close>; \<open>hash\<close> is the bcrypt hash of a password that is not empty. An empty one stays
  under the name \<open>password\<close>, which the schema does not have.\<close>

definition patch_data :: "user_patch \<Rightarrow> string option \<Rightarrow> user_data" where
  "patch_data p hash =
     \<lparr>ud_name = pt_name p, ud_email = pt_email p, ud_passwordHash = hash, ud_age = pt_age p,
      ud_status = pt_status p, ud_roles = None\<rparr>"

definition statusChanges :: "user_patch \<Rightarrow> user \<Rightarrow> bool" where
  "statusChanges p current = (case pt_status p of None \<Rightarrow> False | Some s \<Rightarrow> s \<noteq> u_status current)"

definition emailChanges :: "user_patch \<Rightarrow> user \<Rightarrow> bool" where
  "emailChanges p current = (case pt_email p of None \<Rightarrow> False | Some s \<Rightarrow> to_lower s \<noteq> u_email current)"

definition update_work ::
  "string \<Rightarrow> string \<Rightarrow> user_patch \<Rightarrow> string option \<Rightarrow> tx_env \<Rightarrow> (tx_view, user) eff" where
  "update_work tenant i p hash e =
     andThen (andThen (repo_findById e tenant i) found) (\<lambda>current.
     andThen (keep_an_admin e tenant i ''deactivate''
       (statusChanges p current \<and> pt_status p \<noteq> Some UserActive \<and> ADMIN \<in> set (u_roles current))) (\<lambda>_.
     andThen (andThen (repo_update e tenant i (patch_data p hash)
       (nonempty (pt_password p) \<noteq> None \<or> emailChanges p current \<or> statusChanges p current)) found) (\<lambda>u.
     andThen (event_append e tenant i ''UserUpdated'' (patch_payload p)) (\<lambda>_.
     andThen (outbox_publish e tenant i USER_UPDATED (updated_data e tenant u)) (\<lambda>_.
     ret u)))))"

definition roles_work :: "string \<Rightarrow> string \<Rightarrow> string list \<Rightarrow> tx_env \<Rightarrow> (tx_view, user) eff" where
  "roles_work tenant i roles e =
     andThen (andThen (repo_findById e tenant i) found) (\<lambda>current.
     andThen (keep_an_admin e tenant i ''remove'' (ADMIN \<in> set (u_roles current) \<and> ADMIN \<notin> set roles)) (\<lambda>_.
     andThen (andThen (repo_updateRoles e tenant i roles) found) (\<lambda>u.
     andThen (event_append e tenant i ''UserUpdated'' [(''roles'', JArr (map JStr roles))]) (\<lambda>_.
     andThen (outbox_publish e tenant i USER_UPDATED (updated_data e tenant u)) (\<lambda>_.
     ret u)))))"

definition delete_work :: "string \<Rightarrow> string \<Rightarrow> tx_env \<Rightarrow> (tx_view, user) eff" where
  "delete_work tenant i e =
     andThen (andThen (repo_findById e tenant i) found) (\<lambda>current.
     andThen (keep_an_admin e tenant i ''delete'' (ADMIN \<in> set (u_roles current))) (\<lambda>_.
     andThen (andThen (repo_delete e tenant i) found) (\<lambda>u.
     andThen (event_append e tenant i ''UserDeleted'' [(''email'', JStr (u_email u))]) (\<lambda>_.
     andThen (outbox_publish e tenant i USER_DELETED
       [(''userId'', JStr i), (''tenantId'', JStr tenant), (''email'', JStr (u_email u))]) (\<lambda>_.
     ret u)))))"

subsection \<open>What the handlers call\<close>

text \<open>\<open>ux_tx\<close> is \<open>withTransaction\<close>: it may run the work it is given many times, and answers
  the value of the run that committed, or the error of a run that threw.\<close>

record user_response =
  ur_id :: string
  ur_name :: string
  ur_email :: string
  ur_age :: "rat option"
  ur_status :: user_status
  ur_roles :: "string list"
  ur_loginCount :: nat
  ur_createdAt :: nat
  ur_updatedAt :: nat

definition toResponse :: "user \<Rightarrow> user_response" where
  "toResponse u =
     \<lparr>ur_id = u_id u, ur_name = u_name u, ur_email = u_email u, ur_age = u_age u, ur_status = u_status u,
      ur_roles = u_roles u, ur_loginCount = u_loginCount u, ur_createdAt = u_createdAt u,
      ur_updatedAt = u_updatedAt u\<rparr>"

record 'w user_deps =
  ux_env :: "string \<Rightarrow> string option"
  ux_tx :: "(tx_env \<Rightarrow> (tx_view, user) eff) \<Rightarrow> ('w, user) eff"
  ux_findByEmail :: "string \<Rightarrow> string \<Rightarrow> ('w, user option) eff"
  ux_findByIdWithPassword :: "string \<Rightarrow> string \<Rightarrow> ('w, user option) eff"
  ux_hash :: "string \<Rightarrow> ('w, string) eff"
  ux_compare :: "string \<Rightarrow> string \<Rightarrow> ('w, bool) eff"
  ux_cacheDel :: "string \<Rightarrow> ('w, unit) eff"
  ux_claim :: "string \<Rightarrow> rat \<Rightarrow> string option \<Rightarrow> ('w, bool) eff"
  ux_release :: "string \<Rightarrow> string option \<Rightarrow> ('w, bool) eff"
  ux_uuid :: "('w, string) eff"
  ux_getResponse :: "string \<Rightarrow> ('w, user_response option) eff"
  ux_setResponse :: "string \<Rightarrow> user_response \<Rightarrow> rat \<Rightarrow> ('w, unit) eff"
  ux_emit :: "string \<Rightarrow> user \<Rightarrow> ('w, unit) eff"
  ux_kvSetStatus :: "string \<Rightarrow> user_status \<Rightarrow> rat \<Rightarrow> ('w, unit) eff"
  ux_kvDel :: "string \<Rightarrow> ('w, bool) eff"
  ux_findTenant :: "string \<Rightarrow> ('w, tenant_record option) eff"
  ux_hit :: "string \<Rightarrow> rate_limit_policy \<Rightarrow> ('w, rate_limit_result) eff"
  ux_ipPolicy :: rate_limit_policy
  ux_tenantPolicy :: rate_limit_policy
  ux_assertAllowed :: "string \<Rightarrow> string \<Rightarrow> string \<Rightarrow> ('w, unit) eff"
  ux_recordFailure :: "string \<Rightarrow> string \<Rightarrow> string \<Rightarrow> ('w, unit) eff"

definition user_key ::
  "('w, 'm) user_deps_scheme \<Rightarrow> key_builder \<Rightarrow> string \<Rightarrow> string list \<Rightarrow> ('w, string) eff" where
  "user_key d b tenant ids = keyed (forTenant b (ux_env d) tenant ids)"

definition password_violation :: thrown where
  "password_violation = app_error_validation
     [\<lparr>field = ''password'', description = ''Password must be at least 8 characters''\<rparr>] None"

subsection \<open>The handlers\<close>

record create_cmd =
  cc_name :: string
  cc_email :: string
  cc_password :: string
  cc_age :: "rat option"
  cc_idempotencyKey :: "string option"
  cc_identity :: "(string \<times> string) option"
  cc_requester :: string

text \<open>\<open>err.code === 11000\<close>.\<close>

definition is_duplicate_key :: "thrown \<Rightarrow> bool" where
  "is_duplicate_key err =
     (case err of PlainError _ _ props \<Rightarrow> js_prop props ''code'' = Some (JNum 11000) | _ \<Rightarrow> False)"

definition create_data :: "create_cmd \<Rightarrow> string \<Rightarrow> new_user" where
  "create_data cmd hash =
     \<lparr>nu_name = cc_name cmd, nu_email = cc_email cmd, nu_passwordHash = hash, nu_age = cc_age cmd,
      nu_identity = cc_identity cmd\<rparr>"

definition store_response :: "('w, 'm) user_deps_scheme \<Rightarrow> create_cmd \<Rightarrow> string \<Rightarrow> user_response \<Rightarrow> ('w, unit) eff" where
  "store_response d cmd tenant response =
     (case nonempty (cc_idempotencyKey cmd) of
        None \<Rightarrow> ret ()
      | Some key \<Rightarrow>
          andThen (user_key d CREATE_RESPONSE_KEY tenant [cc_requester cmd, key]) (\<lambda>k.
          forget (ux_setResponse d k response (of_nat IDEMPOTENCY_TTL_SECONDS))))"

definition createUser :: "('w, 'm) user_deps_scheme \<Rightarrow> create_cmd \<Rightarrow> string \<Rightarrow> ('w, user_response) eff" where
  "createUser d cmd tenant =
     (if cc_identity cmd = None \<and> length (cc_password cmd) < PASSWORD_MIN_LENGTH
      then raise password_violation
      else
        andThen (ux_findByEmail d tenant (cc_email cmd)) (\<lambda>existing.
        if existing \<noteq> None then raise (app_error USER_ALREADY_EXISTS)
        else
          andThen (if cc_identity cmd \<noteq> None then ret [] else ux_hash d (cc_password cmd)) (\<lambda>hash.
          andThen (rescue (ux_tx d (create_work tenant (create_data cmd hash))) (\<lambda>err.
            raise (if is_duplicate_key err then app_error_cause USER_ALREADY_EXISTS err else err))) (\<lambda>u.
          andThen (ux_emit d USER_CREATED u) (\<lambda>_.
          andThen (store_response d cmd tenant (toResponse u)) (\<lambda>_.
          ret (toResponse u)))))))"

text \<open>The claim of an idempotency key: \<open>Inl\<close> the stored response of the request it repeats, else
  whether this request claimed it.\<close>

definition claim_request ::
  "('w, 'm) user_deps_scheme \<Rightarrow> create_cmd \<Rightarrow> string \<Rightarrow> string \<Rightarrow> ('w, user_response + bool) eff" where
  "claim_request d cmd tenant owner =
     (case nonempty (cc_idempotencyKey cmd) of
        None \<Rightarrow> ret (Inr False)
      | Some key \<Rightarrow>
          andThen (user_key d CREATE_REQUEST_DEDUP tenant [cc_requester cmd, key]) (\<lambda>k.
          andThen (ux_claim d k (of_nat IDEMPOTENCY_TTL_SECONDS) (Some owner)) (\<lambda>claimed.
          if claimed then ret (Inr True)
          else
            andThen (user_key d CREATE_RESPONSE_KEY tenant [cc_requester cmd, key]) (\<lambda>k.
            andThen (ux_getResponse d k) (\<lambda>stored.
            ret (case stored of Some r \<Rightarrow> Inl r | None \<Rightarrow> Inr False))))))"

definition release_claim :: "('w, 'm) user_deps_scheme \<Rightarrow> create_cmd \<Rightarrow> string \<Rightarrow> string \<Rightarrow> ('w, unit) eff" where
  "release_claim d cmd tenant owner =
     (case nonempty (cc_idempotencyKey cmd) of
        None \<Rightarrow> ret ()
      | Some key \<Rightarrow>
          andThen (user_key d CREATE_REQUEST_DEDUP tenant [cc_requester cmd, key]) (\<lambda>k.
          forget (ux_release d k (Some owner))))"

definition create_execute :: "('w, 'm) user_deps_scheme \<Rightarrow> string \<Rightarrow> create_cmd \<Rightarrow> ('w, user_response) eff" where
  "create_execute d tenant cmd =
     andThen (ux_uuid d) (\<lambda>owner.
     andThen (claim_request d cmd tenant owner) (\<lambda>claim.
     case claim of
       Inl stored \<Rightarrow> ret stored
     | Inr claimed \<Rightarrow>
         rescue (createUser d cmd tenant) (\<lambda>err.
           andThen (if claimed then release_claim d cmd tenant owner else ret ()) (\<lambda>_. raise err))))"

definition purge_profile :: "('w, 'm) user_deps_scheme \<Rightarrow> string \<Rightarrow> string \<Rightarrow> ('w, unit) eff" where
  "purge_profile d tenant i = andThen (user_key d USER_PROFILE_CACHE tenant [i]) (ux_cacheDel d)"

definition update_execute ::
  "('w, 'm) user_deps_scheme \<Rightarrow> string \<Rightarrow> string \<Rightarrow> user_patch \<Rightarrow> ('w, user_response) eff" where
  "update_execute d tenant i p =
     andThen (case nonempty (pt_password p) of
         None \<Rightarrow> ret None
       | Some pw \<Rightarrow>
           if length pw < PASSWORD_MIN_LENGTH then raise password_violation
           else andThen (ux_hash d pw) (\<lambda>h. ret (Some h))) (\<lambda>hash.
     andThen (ux_tx d (update_work tenant i p hash)) (\<lambda>u.
     andThen (purge_profile d tenant i) (\<lambda>_.
     andThen (ux_emit d USER_UPDATED u) (\<lambda>_.
     ret (toResponse u)))))"

definition delete_execute :: "('w, 'm) user_deps_scheme \<Rightarrow> string \<Rightarrow> string \<Rightarrow> ('w, string) eff" where
  "delete_execute d tenant i =
     andThen (ux_tx d (delete_work tenant i)) (\<lambda>u.
     andThen (purge_profile d tenant i) (\<lambda>_.
     ret (u_email u)))"

text \<open>Here a failed purge is swallowed; a key that cannot be built is not.\<close>

definition roles_execute ::
  "('w, 'm) user_deps_scheme \<Rightarrow> string \<Rightarrow> string \<Rightarrow> string list \<Rightarrow> ('w, string list) eff" where
  "roles_execute d tenant i roles =
     andThen (ux_tx d (roles_work tenant i roles)) (\<lambda>u.
     andThen (user_key d USER_PROFILE_CACHE tenant [i]) (\<lambda>k.
     andThen (forget (ux_cacheDel d k)) (\<lambda>_.
     ret (u_roles u))))"

subsection \<open>Sign-up policy\<close>

definition signup_count :: "('w, 'm) user_deps_scheme \<Rightarrow> string \<Rightarrow> rate_limit_policy \<Rightarrow> ('w, unit) eff" where
  "signup_count d k policy =
     andThen (rescue (andThen (ux_hit d k policy) (\<lambda>r. ret (rl_allowed r, rl_resetSeconds r)))
                     (\<lambda>_. ret (True, 0))) (\<lambda>(allowed, resetSeconds).
     unless allowed
       (AppError RATE_LIMITED (Some ''Too many sign-ups, try again later'') []
          [(''retryAfterSeconds'', show_int resetSeconds)] None))"

definition signup_assertAllowed :: "('w, 'm) user_deps_scheme \<Rightarrow> string \<Rightarrow> string \<Rightarrow> ('w, unit) eff" where
  "signup_assertAllowed d tenant ip =
     andThen (ux_findTenant d tenant) (\<lambda>r.
     andThen (unless (case r of None \<Rightarrow> False | Some t \<Rightarrow> tr_status t = TenantActive \<and> tr_selfSignup t)
       (app_error TENANT_SIGNUP_CLOSED)) (\<lambda>_.
     andThen (andThen (keyed (global SIGNUP_IP_RATE_LIMIT (ux_env d) [ip])) (\<lambda>k. signup_count d k (ux_ipPolicy d))) (\<lambda>_.
     andThen (user_key d SIGNUP_TENANT_RATE_LIMIT tenant []) (\<lambda>k. signup_count d k (ux_tenantPolicy d)))))"

subsection \<open>The service\<close>

definition is_hex_char :: "char \<Rightarrow> bool" where
  "is_hex_char c \<longleftrightarrow> is_digit c \<or> of_char (lower_char c) \<in> {97 .. (102::nat)}"

definition isValidObjectId :: "string \<Rightarrow> bool" where
  "isValidObjectId s \<longleftrightarrow> length s = 24 \<and> list_all is_hex_char s"

definition assertUserId :: "string \<Rightarrow> thrown + unit" where
  "assertUserId i = (if isValidObjectId i then Inr () else Inl user_not_found)"

definition service_signUp :: "('w, 'm) user_deps_scheme \<Rightarrow> string \<Rightarrow> create_cmd \<Rightarrow> string \<Rightarrow> ('w, user_response) eff" where
  "service_signUp d tenant dto ip =
     andThen (signup_assertAllowed d tenant ip) (\<lambda>_.
     create_execute d tenant (dto\<lparr>cc_identity := None, cc_requester := ''ip:'' @ ip\<rparr>))"

record update_actor =
  ac_userId :: string
  ac_currentPassword :: "string option"
  ac_ip :: "string option"

definition verifyCurrentPassword ::
  "('w, 'm) user_deps_scheme \<Rightarrow> string \<Rightarrow> string \<Rightarrow> string \<Rightarrow> string \<Rightarrow> string \<Rightarrow> ('w, unit) eff" where
  "verifyCurrentPassword d tenant email passwordHash given ip =
     andThen (ux_assertAllowed d tenant email ip) (\<lambda>_.
     andThen (if given = [] then ret False else ux_compare d given passwordHash) (\<lambda>matches.
     if matches then ret ()
     else andThen (ux_recordFailure d tenant email ip) (\<lambda>_. raise (app_error AUTH_CURRENT_PASSWORD_REQUIRED))))"

definition assertCurrentPassword ::
  "('w, 'm) user_deps_scheme \<Rightarrow> string \<Rightarrow> string \<Rightarrow> user_patch \<Rightarrow> update_actor \<Rightarrow> ('w, unit) eff" where
  "assertCurrentPassword d tenant i dto actor =
     andThen (ux_findByIdWithPassword d tenant i) (\<lambda>user.
     case user of
       None \<Rightarrow> raise user_not_found
     | Some u \<Rightarrow>
         if nonempty (pt_password dto) = None \<and> \<not> emailChanges dto u then ret ()
         else (case nonempty (u_passwordHash u) of
             None \<Rightarrow> ret ()
           | Some hash \<Rightarrow> verifyCurrentPassword d tenant (u_email u) hash
               (option_or (ac_currentPassword actor) []) (option_or (ac_ip actor) ''unknown'')))"

definition syncSuspensionMarker :: "('w, 'm) user_deps_scheme \<Rightarrow> string \<Rightarrow> string \<Rightarrow> user_status \<Rightarrow> ('w, unit) eff" where
  "syncSuspensionMarker d tenant i st =
     andThen (user_key d ACCOUNT_SUSPENDED_KEY tenant [i]) (\<lambda>k.
     rescue
       (if st = UserActive then andThen (ux_kvDel d k) (\<lambda>_. ret ())
        else ux_kvSetStatus d k st (of_nat SUSPENDED_TTL_SECONDS)) (\<lambda>_. ret ()))"

definition service_update ::
  "('w, 'm) user_deps_scheme \<Rightarrow> string \<Rightarrow> string \<Rightarrow> user_patch \<Rightarrow> update_actor option \<Rightarrow> ('w, user_response) eff" where
  "service_update d tenant i dto actor =
     andThen (lift (assertUserId i)) (\<lambda>_.
     andThen (case actor of
         Some a \<Rightarrow> if ac_userId a = i then assertCurrentPassword d tenant i dto a else ret ()
       | None \<Rightarrow> ret ()) (\<lambda>_.
     andThen (update_execute d tenant i dto) (\<lambda>response.
     andThen (syncSuspensionMarker d tenant i (ur_status response)) (\<lambda>_.
     ret response))))"

definition service_updateRoles ::
  "('w, 'm) user_deps_scheme \<Rightarrow> string \<Rightarrow> string \<Rightarrow> string list \<Rightarrow> ('w, string list) eff" where
  "service_updateRoles d tenant i roles =
     andThen (lift (assertUserId i)) (\<lambda>_. roles_execute d tenant i roles)"

definition service_delete :: "('w, 'm) user_deps_scheme \<Rightarrow> string \<Rightarrow> string \<Rightarrow> ('w, unit) eff" where
  "service_delete d tenant i =
     andThen (lift (assertUserId i)) (\<lambda>_. andThen (delete_execute d tenant i) (\<lambda>_. ret ()))"

end
