(* ===== verification/User_History.thy ===== *)
theory User_History
  imports Users
begin

text \<open>
  The user collections under concurrent transactions. A history lists the states the database
  went through and the documents each step wrote, the oldest first. A transaction runs a command's
  work on the snapshot it began on, which may be any earlier state, and commits when nothing it
  wrote has been written since: the snapshot isolation and the write conflicts MongoDB documents,
  which \<open>withTransaction\<close> of \<open>adapters/mongoose\<close> relies on. A login counts itself outside any
  transaction (\<open>incrementLoginCount\<close>). Work that throws commits nothing.
\<close>

record user_db =
  db_users :: "user list"
  db_events :: "user_event list"
  db_outbox :: outbox_tables

definition open_view :: "user_db \<Rightarrow> tx_view" where
  "open_view db =
     \<lparr>v_users = db_users db, v_events = db_events db, v_appended = [], v_wrote = [], v_outbox = [], v_ops = 0\<rparr>"

definition doc :: "string \<Rightarrow> user list \<Rightarrow> user option" where
  "doc i us = find (\<lambda>u. u_id u = i) us"

text \<open>What a commit makes of the current state: the documents the transaction wrote, the events it
  appended, the outbox commands it issued, together.\<close>

definition commit_users :: "tx_view \<Rightarrow> user list \<Rightarrow> user list" where
  "commit_users v us =
     map (\<lambda>u. if u_id u \<in> set (v_wrote v) then option_or (doc (u_id u) (v_users v)) u else u) us
     @ filter (\<lambda>u. u_id u \<in> set (v_wrote v) \<and> u_id u \<notin> u_id ` set us) (v_users v)"

definition commit :: "tx_view \<Rightarrow> user_db \<Rightarrow> user_db" where
  "commit v db =
     \<lparr>db_users = commit_users v (db_users db), db_events = db_events db @ v_appended v,
      db_outbox = fold (\<lambda>c t. snd (db_apply c t)) (v_outbox v) (db_outbox db)\<rparr>"

definition count_login :: "string \<Rightarrow> string \<Rightarrow> user_db \<Rightarrow> user_db" where
  "count_login tenant i db =
     db\<lparr>db_users := map (\<lambda>u. if is_live_user tenant i u then u\<lparr>u_loginCount := u_loginCount u + 1\<rparr> else u)
          (db_users db)\<rparr>"

text \<open>The work of the commands.\<close>

inductive user_work :: "(tx_env \<Rightarrow> (tx_view, user) eff) \<Rightarrow> bool" where
  create: "user_work (create_work tenant data)"
| update: "(nonempty (pt_password p) = None \<Longrightarrow> hash = None) \<Longrightarrow> user_work (update_work tenant i p hash)"
| roles: "user_work (roles_work tenant i rs)"
| delete: "user_work (delete_work tenant i)"

type_synonym user_history = "(user_db \<times> string set) list"

inductive history :: "user_db \<Rightarrow> user_history \<Rightarrow> bool" for db where
  start: "history db [(db, {})]"
| commit: "history db h \<Longrightarrow> n < length h \<Longrightarrow> user_work work
    \<Longrightarrow> work e (open_view (fst (h ! n))) = (Inr u, v)
    \<Longrightarrow> te_undefined e \<in> {None, Some JNull}
    \<Longrightarrow> (\<forall>m. n < m \<and> m < length h \<longrightarrow> snd (h ! m) \<inter> set (v_wrote v) = {})
    \<Longrightarrow> history db (h @ [(commit v (fst (last h)), set (v_wrote v))])"
| login: "history db h \<Longrightarrow> history db (h @ [(count_login tenant i (fst (last h)), {i})])"

inductive_cases user_workE: "user_work work"

definition ids :: "user list \<Rightarrow> string list" where "ids us = map u_id us"

subsection \<open>Documents\<close>

lemma doc_Some: "doc i us = Some u \<Longrightarrow> u \<in> set us \<and> u_id u = i"
  unfolding doc_def by (rule find_Some_mem)

lemma doc_None: "doc i us = None \<longleftrightarrow> i \<notin> u_id ` set us"
  by (auto simp: doc_def find_None_iff)

lemma doc_mem: "distinct (ids us) \<Longrightarrow> u \<in> set us \<Longrightarrow> doc (u_id u) us = Some u"
  by (induction us) (auto simp: doc_def ids_def)

lemma doc_map: "(\<And>u. u_id (f u) = u_id u) \<Longrightarrow> doc i (map f us) = map_option f (doc i us)"
  by (induction us) (auto simp: doc_def)

lemma doc_append: "doc i (us @ vs) = (case doc i us of Some u \<Rightarrow> Some u | None \<Rightarrow> doc i vs)"
  by (induction us) (auto simp: doc_def)

lemma doc_filter: "doc i (filter (\<lambda>u. P (u_id u)) us) = (if P i then doc i us else None)"
  by (induction us) (auto simp: doc_def)

lemma ids_map: "(\<And>u. u_id (f u) = u_id u) \<Longrightarrow> ids (map f us) = ids us"
  by (simp add: ids_def)

lemma option_or_doc_id: "u_id (option_or (doc (u_id u) vs) u) = u_id u"
  by (cases "doc (u_id u) vs") (auto dest: doc_Some)

text \<open>A commit takes the written documents from the view and the others from the state.\<close>

lemma doc_commit:
  assumes "i \<in> set (v_wrote v) \<Longrightarrow> doc i (v_users v) \<noteq> None"
  shows "doc i (commit_users v us) = (if i \<in> set (v_wrote v) then doc i (v_users v) else doc i us)"
proof -
  have m: "doc i (map (\<lambda>u. if u_id u \<in> set (v_wrote v) then option_or (doc (u_id u) (v_users v)) u else u) us)
    = map_option (\<lambda>u. if u_id u \<in> set (v_wrote v) then option_or (doc (u_id u) (v_users v)) u else u) (doc i us)"
    by (rule doc_map) (simp add: option_or_doc_id)
  have f: "doc i (filter (\<lambda>u. u_id u \<in> set (v_wrote v) \<and> u_id u \<notin> u_id ` set us) (v_users v))
    = (if i \<in> set (v_wrote v) \<and> i \<notin> u_id ` set us then doc i (v_users v) else None)"
    by (rule doc_filter [where P = "\<lambda>j. j \<in> set (v_wrote v) \<and> j \<notin> u_id ` set us"])
  show ?thesis
  proof (cases "doc i us")
    case None
    then show ?thesis unfolding commit_users_def doc_append m f using assms doc_None [of i us] by auto
  next
    case (Some u)
    then have "u_id u = i" by (auto dest: doc_Some)
    then show ?thesis unfolding commit_users_def doc_append m f using Some assms by auto
  qed
qed

lemma doc_count_login: "doc j (db_users (count_login t i db)) =
  map_option (\<lambda>u. if is_live_user t i u then u\<lparr>u_loginCount := u_loginCount u + 1\<rparr> else u) (doc j (db_users db))"
  by (simp add: count_login_def doc_map)

subsection \<open>What a work does\<close>

lemma repo_op_Inr:
  "repo_op e t f v = (Inr x, v') \<longleftrightarrow> isTenantId t \<and> te_fault e (v_ops v) = None
     \<and> f (te_now e (v_ops v)) (v\<lparr>v_ops := Suc (v_ops v)\<rparr>) = (Inr x, v')"
  by (auto simp: repo_op_def tx_op_def Let_def split: option.splits)

lemma found_Inr: "found r v = (Inr x, v') \<longleftrightarrow> r = Some x \<and> v' = v"
  by (auto simp: found_def split: option.splits)

definition touched :: "string \<Rightarrow> string \<Rightarrow> nat \<Rightarrow> user list \<Rightarrow> user list" where
  "touched tenant i now us = filter (\<lambda>u. other_admin tenant i u \<and> u_updatedAt u \<noteq> now) us"

definition touch :: "string \<Rightarrow> string \<Rightarrow> nat \<Rightarrow> user \<Rightarrow> user" where
  "touch tenant i now u = (if other_admin tenant i u then u\<lparr>u_updatedAt := now\<rparr> else u)"

lemma touch_keeps [simp]:
  "u_id (touch t i now u) = u_id u" "other_admin t' i' (touch t i now u) \<longleftrightarrow> other_admin t' i' u"
  "is_live_user t' i' (touch t i now u) \<longleftrightarrow> is_live_user t' i' u" "is_live (touch t i now u) \<longleftrightarrow> is_live u"
  by (simp_all add: touch_def other_admin_def is_live_user_def is_live_def)

lemma touch_other [simp]: "u_id u = i \<Longrightarrow> touch t i now u = u"
  by (simp add: touch_def other_admin_def)

lemma keep_an_admin_Inr:
  assumes "keep_an_admin e t i what g v = (Inr x, v')"
  shows "v_events v' = v_events v \<and> v_appended v' = v_appended v \<and> v_outbox v' = v_outbox v
    \<and> (if g then \<exists>now. touched t i now (v_users v) \<noteq> []
         \<and> v_users v' = map (touch t i now) (v_users v)
         \<and> v_wrote v' = map u_id (touched t i now (v_users v)) @ v_wrote v
       else v_users v' = v_users v \<and> v_wrote v' = v_wrote v)"
proof (cases g)
  case True
  then have "v' = v\<lparr>v_ops := Suc (v_ops v), v_users := map (touch t i (te_now e (v_ops v))) (v_users v),
       v_wrote := map u_id (touched t i (te_now e (v_ops v)) (v_users v)) @ v_wrote v\<rparr>"
    "touched t i (te_now e (v_ops v)) (v_users v) \<noteq> []"
    using assms
    by (auto simp: keep_an_admin_def eff_simps touchOtherAdmins_def repo_op_Inr Let_def touched_def touch_def [abs_def])
  then show ?thesis using True by auto
qed (use assms in \<open>simp add: keep_an_admin_def\<close>)

lemma findOneAndUpdate_Inr:
  assumes "findOneAndUpdate e t i f v = (Inr (Some u), v')" and "\<And>now x. u_id (f now x) = u_id x"
  obtains now x where "find (is_live_user t i) (v_users v) = Some x" "u = f now x"
    "v_users v' = map (\<lambda>u'. if u_id u' = i then u else u') (v_users v)" "v_wrote v' = i # v_wrote v"
    "v_events v' = v_events v" "v_appended v' = v_appended v" "v_outbox v' = v_outbox v"
    "index_allows (v_users v) u"
proof -
  obtain x where x: "find (is_live_user t i) (v_users v) = Some x"
    "put_user (f (te_now e (v_ops v)) x) (v\<lparr>v_ops := Suc (v_ops v)\<rparr>) = (Inr u, v')"
    using assms(1) by (auto simp: findOneAndUpdate_def repo_op_Inr map_sum_def split: option.splits prod.splits sum.splits)
  then have "u_id x = i" by (auto dest!: find_Some_mem simp: is_live_user_def)
  with x show thesis using that [OF x(1)] assms(2) by (auto simp: put_user_def split: if_splits)
qed

lemma event_append_Inr:
  assumes "event_append e t i typ pl v = (Inr x, v')"
  shows "v_users v' = v_users v \<and> v_wrote v' = v_wrote v \<and> v_events v' = v_events v \<and> v_outbox v' = v_outbox v
    \<and> v_appended v' = v_appended v @
        [\<lparr>ue_tenantId = t, ue_aggregateId = i, ue_type = typ, ue_payload = pl,
          ue_version = lastVersion t i (v_events v @ v_appended v) + 1, ue_schemaVersion = 1\<rparr>]"
  using assms by (auto simp: event_append_def eff_simps repo_op_Inr Let_def split: if_splits)

lemma outbox_command_Inr:
  "outbox_command e c v = (Inr x, v') \<Longrightarrow> v_users v' = v_users v \<and> v_wrote v' = v_wrote v \<and> v_events v' = v_events v
     \<and> v_appended v' = v_appended v \<and> v_outbox v' = v_outbox v @ [c]"
  by (auto simp: outbox_command_def tx_op_def Let_def split: option.splits)

text \<open>The rows a transaction leaves in the outbox: one, for the event it publishes.\<close>

definition published :: "string \<Rightarrow> string \<Rightarrow> string \<Rightarrow> (string \<times> json) list \<Rightarrow> db_cmd list \<Rightarrow> bool" where
  "published t i typ data cs \<longleftrightarrow>
     (\<exists>uuid carrier now row. cs = snd (outbox_write (user_event_input t i typ data) uuid carrier now row now))"

lemma outbox_publish_Inr:
  assumes "outbox_publish e t i typ data v = (Inr x, v')"
  shows "v_users v' = v_users v \<and> v_wrote v' = v_wrote v \<and> v_events v' = v_events v
     \<and> v_appended v' = v_appended v \<and> (\<exists>cs. published t i typ data cs \<and> v_outbox v' = v_outbox v @ cs)"
proof -
  let ?now = "te_now e (v_ops v)"
  let ?w = "snd (outbox_write (user_event_input t i typ data) (te_uuid e) (te_carrier e) ?now (te_rowId e) ?now)"
  obtain c1 c2 where w: "?w = [c1, c2]" by (simp add: outbox_write_def Let_def)
  have "published t i typ data ?w" unfolding published_def by blast
  moreover obtain v1 y z where "outbox_command e c1 v = (Inr y, v1)" "outbox_command e c2 v1 = (Inr z, v')"
    using assms unfolding outbox_publish_def Let_def w by (auto simp: eff_simps)
  ultimately show ?thesis unfolding w by (auto dest!: outbox_command_Inr)
qed

lemma find_doc:
  assumes "distinct (ids us)" "find (is_live_user t i) us = Some x"
  shows "doc i us = Some x \<and> is_live_user t i x"
  using find_Some_mem [OF assms(2)] doc_mem [OF assms(1)] by (auto simp: is_live_user_def)

lemma doc_put: "doc j (map (\<lambda>u'. if u_id u' = i then u else u') us) =
    (if j = i then (case doc i us of None \<Rightarrow> None | Some _ \<Rightarrow> Some u) else doc j us)" if "u_id u = i"
proof -
  have "doc j (map (\<lambda>u'. if u_id u' = i then u else u') us) = map_option (\<lambda>u'. if u_id u' = i then u else u') (doc j us)"
    by (rule doc_map) (simp add: that)
  then show ?thesis using doc_Some [of j us] by (cases "doc j us") auto
qed

text \<open>The three commands that edit a document share their shape.\<close>

lemma edit_steps:
  assumes run: "andThen (andThen (repo_findById e t i) found) (\<lambda>cur.
      andThen (keep_an_admin e t i what (G cur)) (\<lambda>_.
      andThen (andThen (findOneAndUpdate e t i (F cur)) found) (\<lambda>u.
      andThen (event_append e t i typ (P u)) (\<lambda>_.
      andThen (outbox_publish e t i ty (D u)) (\<lambda>_. ret u))))) (open_view db) = (Inr u, v)"
    and dist: "distinct (ids (db_users db))" and F: "\<And>cur now x. u_id (F cur now x) = u_id x"
  obtains cur now T n where "doc i (db_users db) = Some cur" "is_live_user t i cur" "u = F cur now cur"
    "T = (if G cur then touched t i n (db_users db) else [])" "G cur \<Longrightarrow> T \<noteq> []"
    "set (v_wrote v) = insert i (u_id ` set T)" "doc i (v_users v) = Some u"
    "\<And>x. x \<in> set T \<Longrightarrow> doc (u_id x) (v_users v) = Some (x\<lparr>u_updatedAt := n\<rparr>)"
    "v_appended v = [\<lparr>ue_tenantId = t, ue_aggregateId = i, ue_type = typ, ue_payload = P u,
        ue_version = lastVersion t i (db_events db) + 1, ue_schemaVersion = 1\<rparr>]"
    "published t i ty (D u) (v_outbox v)" "ids (v_users v) = ids (db_users db)"
proof -
  let ?us = "db_users db"
  obtain cur v1 v2 v3 v4 x4 x2 where
    c: "repo_findById e t i (open_view db) = (Inr (Some cur), v1)"
    and k: "keep_an_admin e t i what (G cur) v1 = (Inr x2, v2)"
    and f: "findOneAndUpdate e t i (F cur) v2 = (Inr (Some u), v3)"
    and a: "event_append e t i typ (P u) v3 = (Inr x4, v4)"
    and p: "\<exists>x. outbox_publish e t i ty (D u) v4 = (Inr x, v)"
    using run by (auto simp: eff_simps found_Inr)
  have v1: "find (is_live_user t i) ?us = Some cur" "v_users v1 = ?us" "v_events v1 = db_events db"
    "v_appended v1 = []" "v_wrote v1 = []" "v_outbox v1 = []"
    using c by (auto simp: repo_findById_def repo_op_Inr open_view_def)
  have cur: "doc i ?us = Some cur" "is_live_user t i cur" using find_doc [OF dist v1(1)] by auto
  obtain n where n: "v_users v2 = map (if G cur then touch t i n else id) ?us"
    "v_wrote v2 = map u_id (if G cur then touched t i n ?us else [])" "G cur \<Longrightarrow> touched t i n ?us \<noteq> []"
    and v2: "v_events v2 = db_events db" "v_appended v2 = []" "v_outbox v2 = []"
    using keep_an_admin_Inr [OF k] v1 by (cases "G cur") auto
  let ?g = "if G cur then touch t i n else id"
  have g: "u_id (?g x) = u_id x" "is_live_user t i (?g x) = is_live_user t i x" for x by simp_all
  have d2: "distinct (ids (v_users v2))" unfolding n(1) ids_map [OF g(1)] by (rule dist)
  from f F obtain now x where x: "find (is_live_user t i) (v_users v2) = Some x" "u = F cur now x"
    "v_users v3 = map (\<lambda>u'. if u_id u' = i then u else u') (v_users v2)" "v_wrote v3 = i # v_wrote v2"
    "v_events v3 = v_events v2" "v_appended v3 = v_appended v2" "v_outbox v3 = v_outbox v2"
    by (rule findOneAndUpdate_Inr) blast
  have dx: "doc i (v_users v2) = Some x" using find_doc [OF d2 x(1)] by blast
  have "doc i (v_users v2) = map_option ?g (doc i ?us)" unfolding n(1) by (rule doc_map [OF g(1)])
  then have "x = cur" using dx cur by (auto simp: is_live_user_def)
  have ui: "u_id u = i" using x(2) F cur(2) \<open>x = cur\<close> by (simp add: is_live_user_def)
  note d3 = doc_put [OF ui, of _ "v_users v2", folded x(3)]
  note a' = event_append_Inr [OF a]
  obtain xp where "outbox_publish e t i ty (D u) v4 = (Inr xp, v)" using p by blast
  note p' = outbox_publish_Inr [OF this]
  let ?T = "if G cur then touched t i n ?us else []"
  show thesis
  proof (rule that [OF cur, of now ?T n])
    show "u = F cur now cur" using x(2) \<open>x = cur\<close> by simp
    show "G cur \<Longrightarrow> ?T \<noteq> []" using n(3) by simp
    show "set (v_wrote v) = insert i (u_id ` set ?T)" using p' a' x(4) n(2) by simp
    show "doc i (v_users v) = Some u" using p' a' d3 [of i] dx by simp
    show "doc (u_id y) (v_users v) = Some (y\<lparr>u_updatedAt := n\<rparr>)" if "y \<in> set ?T" for y
    proof -
      have y: "G cur" "y \<in> set ?us" "other_admin t i y" using that by (auto simp: touched_def split: if_splits)
      then have "u_id y \<noteq> i" by (simp add: other_admin_def)
      moreover have "doc (u_id y) (v_users v2) = Some (touch t i n y)"
        unfolding n(1) doc_map [OF g(1)] using doc_mem [OF dist y(2)] y(1) by simp
      ultimately show ?thesis using p' a' d3 [of "u_id y"] y(3) by (simp add: touch_def)
    qed
    show "v_appended v = [\<lparr>ue_tenantId = t, ue_aggregateId = i, ue_type = typ, ue_payload = P u,
        ue_version = lastVersion t i (db_events db) + 1, ue_schemaVersion = 1\<rparr>]"
      using p' a' x v2 by simp
    show "published t i ty (D u) (v_outbox v)" using p' a' x v2 by auto
    have "ids (v_users v3) = ids (v_users v2)" unfolding x(3) by (rule ids_map) (simp add: ui)
    then show "ids (v_users v) = ids ?us" using p' a' n(1) ids_map [OF g(1)] by simp
  qed simp
qed

subsection \<open>The change a commit makes\<close>

text \<open>One document and the event that records it; the last argument tells whether the work also
  wrote another active admin of the tenant.\<close>

definition update_guard :: "user_patch \<Rightarrow> user \<Rightarrow> bool" where
  "update_guard p cur \<longleftrightarrow> statusChanges p cur \<and> pt_status p \<noteq> Some UserActive \<and> ADMIN \<in> set (u_roles cur)"

definition update_ends :: "user_patch \<Rightarrow> user \<Rightarrow> bool" where
  "update_ends p cur \<longleftrightarrow> nonempty (pt_password p) \<noteq> None \<or> emailChanges p cur \<or> statusChanges p cur"

inductive change :: "string \<Rightarrow> string \<Rightarrow> user option \<Rightarrow> user \<Rightarrow> string \<Rightarrow> (string \<times> json) list \<Rightarrow> bool \<Rightarrow> bool"
  for t i where
  created: "u = user_of_data e t data now \<Longrightarrow> u_id u = i \<Longrightarrow> te_undefined e \<in> {None, Some JNull} \<Longrightarrow>
    change t i None u ''UserCreated'' ([(''name'', JStr (nu_name data)), (''email'', JStr (nu_email data))]
      @ prop_or_undefined e ''age'' (map_option JNum (nu_age data))) False"
| updated: "is_live_user t i cur \<Longrightarrow> (nonempty (pt_password p) = None \<Longrightarrow> hash = None) \<Longrightarrow> (update_guard p cur \<Longrightarrow> g) \<Longrightarrow>
    u = set_data (patch_data p hash) (update_ends p cur) now cur \<Longrightarrow>
    change t i (Some cur) u ''UserUpdated'' (patch_payload p) g"
| roles: "is_live_user t i cur \<Longrightarrow> (ADMIN \<in> set (u_roles cur) \<and> ADMIN \<notin> set rs \<Longrightarrow> g) \<Longrightarrow>
    u = set_data (no_data\<lparr>ud_roles := Some rs\<rparr>) True now cur \<Longrightarrow>
    change t i (Some cur) u ''UserUpdated'' [(''roles'', JArr (map JStr rs))] g"
| deleted: "is_live_user t i cur \<Longrightarrow> (ADMIN \<in> set (u_roles cur) \<Longrightarrow> g) \<Longrightarrow>
    u = cur\<lparr>u_deletedAt := Some now, u_updatedAt := now\<rparr> \<Longrightarrow>
    change t i (Some cur) u ''UserDeleted'' [(''email'', JStr (u_email u))] g"

inductive_cases change_NoneE: "change t i None u typ pl g"
inductive_cases change_SomeE: "change t i (Some cur) u typ pl g"

definition active_admin :: "string \<Rightarrow> user \<Rightarrow> bool" where
  "active_admin t u \<longleftrightarrow> u_tenantId u = t \<and> ADMIN \<in> set (u_roles u) \<and> u_status u = UserActive \<and> is_live u"

text \<open>What a run of a command's work leaves in its view.\<close>

record outcome =
  oc_tenant :: string
  oc_id :: string
  oc_user :: user
  oc_type :: string
  oc_payload :: "(string \<times> json) list"
  oc_touched :: "user list"
  oc_now :: nat

definition outcome_event :: "user_db \<Rightarrow> outcome \<Rightarrow> user_event" where
  "outcome_event db r =
     \<lparr>ue_tenantId = oc_tenant r, ue_aggregateId = oc_id r, ue_type = oc_type r, ue_payload = oc_payload r,
      ue_version = lastVersion (oc_tenant r) (oc_id r) (db_events db) + 1, ue_schemaVersion = 1\<rparr>"

definition outcome_of :: "user_db \<Rightarrow> tx_view \<Rightarrow> outcome \<Rightarrow> bool" where
  "outcome_of db v r \<longleftrightarrow>
     change (oc_tenant r) (oc_id r) (doc (oc_id r) (db_users db)) (oc_user r) (oc_type r) (oc_payload r) (oc_touched r \<noteq> [])
     \<and> set (v_wrote v) = insert (oc_id r) (u_id ` set (oc_touched r))
     \<and> doc (oc_id r) (v_users v) = Some (oc_user r)
     \<and> (\<forall>x \<in> set (oc_touched r). other_admin (oc_tenant r) (oc_id r) x \<and> doc (u_id x) (db_users db) = Some x
          \<and> doc (u_id x) (v_users v) = Some (x\<lparr>u_updatedAt := oc_now r\<rparr>))
     \<and> v_appended v = [outcome_event db r]
     \<and> set (ids (v_users v)) = insert (oc_id r) (set (ids (db_users db))) \<and> distinct (ids (v_users v))
     \<and> (\<exists>typ data. published (oc_tenant r) (oc_id r) typ data (v_outbox v))"

lemma touched_mem: "x \<in> set (touched t i n us) \<Longrightarrow> x \<in> set us \<and> other_admin t i x"
  by (simp add: touched_def)

text \<open>The outcome of an edit, from its steps.\<close>

lemma edit_outcome:
  assumes run: "andThen (andThen (repo_findById e t i) found) (\<lambda>cur.
      andThen (keep_an_admin e t i what (G cur)) (\<lambda>_.
      andThen (andThen (findOneAndUpdate e t i (F cur)) found) (\<lambda>u.
      andThen (event_append e t i typ (P u)) (\<lambda>_.
      andThen (outbox_publish e t i ty (D u)) (\<lambda>_. ret u))))) (open_view db) = (Inr u, v)"
    and dist: "distinct (ids (db_users db))" and F: "\<And>cur now x. u_id (F cur now x) = u_id x"
    and ch: "\<And>cur now g. is_live_user t i cur \<Longrightarrow> (G cur \<Longrightarrow> g) \<Longrightarrow> change t i (Some cur) (F cur now cur) typ (P (F cur now cur)) g"
  shows "\<exists>r. outcome_of db v r"
  using run dist F
proof (rule edit_steps)
  fix cur now T n
  assume d: "doc i (db_users db) = Some cur" "is_live_user t i cur" "u = F cur now cur"
    and T: "T = (if G cur then touched t i n (db_users db) else [])" "G cur \<Longrightarrow> T \<noteq> []"
    and w: "set (v_wrote v) = insert i (u_id ` set T)" "doc i (v_users v) = Some u"
      "\<And>x. x \<in> set T \<Longrightarrow> doc (u_id x) (v_users v) = Some (x\<lparr>u_updatedAt := n\<rparr>)"
      "v_appended v = [\<lparr>ue_tenantId = t, ue_aggregateId = i, ue_type = typ, ue_payload = P u,
        ue_version = lastVersion t i (db_events db) + 1, ue_schemaVersion = 1\<rparr>]"
    and p: "published t i ty (D u) (v_outbox v)" and ids: "ids (v_users v) = ids (db_users db)"
  let ?r = "\<lparr>oc_tenant = t, oc_id = i, oc_user = u, oc_type = typ, oc_payload = P u, oc_touched = T, oc_now = n\<rparr>"
  have touched: "other_admin t i x \<and> doc (u_id x) (db_users db) = Some x" if "x \<in> set T" for x
    using that touched_mem [of x t i n] doc_mem [OF dist] unfolding T(1) by (auto split: if_splits)
  have i: "i \<in> set (ids (db_users db))" using d(1) by (auto simp: ids_def dest: doc_Some)
  have "change t i (Some cur) u typ (P u) (T \<noteq> [])" using ch [OF d(2), of "T \<noteq> []" now] T(2) d(3) by blast
  then have "outcome_of db v ?r"
    unfolding outcome_of_def using d(1) w p touched dist i by (auto simp: outcome_event_def ids)
  then show ?thesis by blast
qed

lemma create_outcome:
  assumes run: "create_work t data e (open_view db) = (Inr u, v)" and dist: "distinct (ids (db_users db))"
    and und: "te_undefined e \<in> {None, Some JNull}"
  shows "\<exists>r. outcome_of db v r"
proof -
  obtain v1 v2 x where c: "repo_create e t data (open_view db) = (Inr u, v1)"
    and a: "event_append e t (u_id u) ''UserCreated'' ([(''name'', JStr (nu_name data)), (''email'', JStr (nu_email data))]
        @ prop_or_undefined e ''age'' (map_option JNum (nu_age data))) v1 = (Inr x, v2)"
    and p: "\<exists>y. outbox_publish e t (u_id u) USER_CREATED
       [(''userId'', JStr (u_id u)), (''tenantId'', JStr t), (''name'', JStr (nu_name data)),
        (''email'', JStr (nu_email data))] v2 = (Inr y, v)"
    using run unfolding create_work_def by (auto simp: eff_simps)
  obtain now where u: "u = user_of_data e t data now" "u_id u \<notin> u_id ` set (db_users db)"
    "v_users v1 = db_users db @ [u]" "v_wrote v1 = [u_id u]" "v_appended v1 = []" "v_events v1 = db_events db"
    "v_outbox v1 = []"
    using c by (auto simp: repo_create_def repo_op_Inr Let_def open_view_def split: if_splits)
  obtain y where "outbox_publish e t (u_id u) USER_CREATED
       [(''userId'', JStr (u_id u)), (''tenantId'', JStr t), (''name'', JStr (nu_name data)),
        (''email'', JStr (nu_email data))] v2 = (Inr y, v)" using p by blast
  note p' = outbox_publish_Inr [OF this] and a' = event_append_Inr [OF a]
  have none: "doc (u_id u) (db_users db) = None" using u(2) by (simp add: doc_None)
  let ?pl = "[(''name'', JStr (nu_name data)), (''email'', JStr (nu_email data))]
        @ prop_or_undefined e ''age'' (map_option JNum (nu_age data))"
  let ?r = "\<lparr>oc_tenant = t, oc_id = u_id u, oc_user = u, oc_type = ''UserCreated'', oc_payload = ?pl, oc_touched = [], oc_now = 0\<rparr>"
  have "change t (u_id u) None u ''UserCreated'' ?pl False" by (rule change.created [OF u(1) refl und])
  then have "outcome_of db v ?r"
    unfolding outcome_of_def using p' a' u none dist
    by (auto simp: outcome_event_def ids_def doc_append) (simp_all add: doc_def)
  then show ?thesis by blast
qed

lemma set_data_id: "u_id (set_data data ends now x) = u_id x"
  by (simp add: set_data_def)

lemma work_outcome:
  assumes "user_work work" "work e (open_view db) = (Inr u, v)" "distinct (ids (db_users db))"
    and "te_undefined e \<in> {None, Some JNull}"
  shows "\<exists>r. outcome_of db v r"
  using assms(1)
proof (rule user_workE)
  fix tenant data assume "work = create_work tenant data"
  then show ?thesis using create_outcome assms by blast
next
  fix p hash tenant i
  assume w: "work = update_work tenant i p hash" and h: "nonempty (pt_password p) = None \<Longrightarrow> hash = None"
  show ?thesis
    by (rule edit_outcome [OF assms(2) [unfolded w update_work_def repo_update_def
          update_guard_def [symmetric] update_ends_def [symmetric]] assms(3)])
      (rule set_data_id, rule change.updated, assumption, erule h, blast, rule refl)
next
  fix tenant i rs assume w: "work = roles_work tenant i rs"
  show ?thesis
    by (rule edit_outcome [OF assms(2) [unfolded w roles_work_def repo_updateRoles_def repo_update_def] assms(3)])
      (rule set_data_id, rule change.roles, assumption, blast, rule refl)
next
  fix tenant i assume w: "work = delete_work tenant i"
  show ?thesis
    by (rule edit_outcome [OF assms(2) [unfolded w delete_work_def repo_delete_def] assms(3)])
      (simp, rule change.deleted, assumption, blast, rule refl)
qed

subsection \<open>The abstract collection\<close>

text \<open>A map of documents and a log of events, changed by one command at a time.\<close>

type_synonym collection = "(string \<rightharpoonup> user) \<times> user_event list"

definition abs_db :: "user_db \<Rightarrow> collection" where
  "abs_db db = (\<lambda>i. doc i (db_users db), db_events db)"

inductive spec_step :: "collection \<Rightarrow> collection \<Rightarrow> bool" where
  edit: "change t i (D i) u typ pl (T \<noteq> {}) \<Longrightarrow> (\<forall>j \<in> T. \<exists>x. D j = Some x \<and> other_admin t i x) \<Longrightarrow>
    D' = (\<lambda>j. if j = i then Some u else if j \<in> T then map_option (\<lambda>x. x\<lparr>u_updatedAt := n\<rparr>) (D j) else D j) \<Longrightarrow>
    spec_step (D, E) (D', E @ [\<lparr>ue_tenantId = t, ue_aggregateId = i, ue_type = typ, ue_payload = pl,
      ue_version = lastVersion t i E + 1, ue_schemaVersion = 1\<rparr>])"
| login: "D' = (\<lambda>j. map_option (\<lambda>u. if is_live_user t i u then u\<lparr>u_loginCount := u_loginCount u + 1\<rparr> else u) (D j)) \<Longrightarrow>
    spec_step (D, E) (D', E)"

subsection \<open>Histories\<close>

lemma history_of_append: "history_of t i (xs @ ys) = history_of t i xs @ history_of t i ys"
  by (simp add: history_of_def)

lemma last_append [simp]: "fst (last (h @ [(s, F)])) = s"
  by simp

text \<open>What no step since \<open>n\<close> wrote is as it was at \<open>n\<close>.\<close>

definition unwritten :: "user_history \<Rightarrow> nat \<Rightarrow> string \<Rightarrow> bool" where
  "unwritten h n j \<longleftrightarrow> (\<forall>m. n < m \<and> m < length h \<longrightarrow> j \<notin> snd (h ! m))"

definition same_at :: "string \<Rightarrow> user_db \<Rightarrow> user_db \<Rightarrow> bool" where
  "same_at j db db' \<longleftrightarrow> doc j (db_users db') = doc j (db_users db)
     \<and> (\<forall>t. history_of t j (db_events db') = history_of t j (db_events db))"

lemma unwritten_snoc: "unwritten (h @ [x]) n j \<Longrightarrow> unwritten h n j"
  by (auto simp: unwritten_def nth_append)

lemma unwritten_last: "unwritten (h @ [x]) n j \<Longrightarrow> n < length h \<Longrightarrow> j \<notin> snd x"
  by (auto simp: unwritten_def dest: spec [where x = "length h"])

lemma lastVersion_same: "history_of t j E = history_of t j E' \<Longrightarrow> lastVersion t j E = lastVersion t j E'"
  by (simp add: lastVersion_def)

lemma outcome_other:
  assumes "outcome_of snap v r" "j \<notin> set (v_wrote v)"
  shows "same_at j db (commit v db)"
proof -
  have "doc j (commit_users v (db_users db)) = doc j (db_users db)"
    using assms(2) doc_commit [of j v "db_users db"] by simp
  moreover have "j \<noteq> oc_id r" using assms by (auto simp: outcome_of_def)
  ultimately show ?thesis
    using assms(1) by (auto simp: same_at_def commit_def outcome_of_def history_of_append outcome_event_def history_of_def)
qed

lemma ids_append: "ids (us @ vs) = ids us @ ids vs" and set_ids: "set (ids us) = u_id ` set us"
  by (simp_all add: ids_def)

lemma commit_distinct:
  assumes "distinct (ids us)" "distinct (ids (v_users v))"
  shows "distinct (ids (commit_users v us))"
proof -
  have m: "ids (map (\<lambda>u. if u_id u \<in> set (v_wrote v) then option_or (doc (u_id u) (v_users v)) u else u) us) = ids us"
    by (rule ids_map) (simp add: option_or_doc_id)
  have "distinct (ids (filter P (v_users v)))" for P
    using assms(2) unfolding ids_def by (rule distinct_map_filter)
  then show ?thesis unfolding commit_users_def ids_append m using assms(1)
    by (auto simp: set_ids) (metis image_eqI)
qed

lemma login_distinct: "distinct (ids (db_users db)) \<Longrightarrow> distinct (ids (db_users (count_login t i db)))"
  unfolding count_login_def by (simp add: ids_map)

lemma login_same: "j \<noteq> i \<Longrightarrow> same_at j db (count_login t i db)"
  unfolding same_at_def doc_count_login
  by (cases "doc j (db_users db)") (auto simp: count_login_def is_live_user_def dest: doc_Some)

lemma history_facts:
  assumes "history db0 h" "distinct (ids (db_users db0))"
  shows "h \<noteq> [] \<and> (\<forall>n < length h. distinct (ids (db_users (fst (h ! n))))
    \<and> (\<forall>j. unwritten h n j \<longrightarrow> same_at j (fst (h ! n)) (fst (last h))))"
  using assms
proof (induction rule: history.induct)
  case (commit h n work e u v)
  let ?h = "h @ [(commit v (fst (last h)), set (v_wrote v))]"
  from commit have IH: "h \<noteq> []" "\<And>m. m < length h \<Longrightarrow> distinct (ids (db_users (fst (h ! m))))"
    "\<And>m j. m < length h \<Longrightarrow> unwritten h m j \<Longrightarrow> same_at j (fst (h ! m)) (fst (last h))" by auto
  obtain r where r: "outcome_of (fst (h ! n)) v r"
    using work_outcome [OF commit(3,4) IH(2) [OF commit(2)] commit(5)] by blast
  have d: "distinct (ids (db_users (commit v (fst (last h)))))"
    using commit_distinct IH(2) [of "length h - 1"] IH(1) r
    by (simp add: commit_def last_conv_nth outcome_of_def)
  show ?case
  proof (intro conjI allI impI)
    fix m assume m: "m < length ?h"
    show "distinct (ids (db_users (fst (?h ! m))))"
      using m IH(2) d by (cases "m < length h") (simp_all add: nth_append)
    fix j assume u: "unwritten ?h m j"
    show "same_at j (fst (?h ! m)) (fst (last ?h))"
    proof (cases "m < length h")
      case True
      have "same_at j (fst (h ! m)) (fst (last h))" by (rule IH(3) [OF True unwritten_snoc [OF u]])
      moreover have "same_at j (fst (last h)) (commit v (fst (last h)))"
        using outcome_other [OF r] unwritten_last [OF u True] by simp
      ultimately show ?thesis using True by (simp add: nth_append same_at_def)
    qed (use m in \<open>simp add: nth_append same_at_def\<close>)
  qed simp
next
  case (login h t i)
  let ?h = "h @ [(count_login t i (fst (last h)), {i})]"
  from login have IH: "h \<noteq> []" "\<And>m. m < length h \<Longrightarrow> distinct (ids (db_users (fst (h ! m))))"
    "\<And>m j. m < length h \<Longrightarrow> unwritten h m j \<Longrightarrow> same_at j (fst (h ! m)) (fst (last h))" by auto
  show ?case
  proof (intro conjI allI impI)
    fix m assume m: "m < length ?h"
    show "distinct (ids (db_users (fst (?h ! m))))"
      using m IH(2) [of m] IH(2) [of "length h - 1"] IH(1) login_distinct
      by (cases "m < length h") (simp_all add: nth_append last_conv_nth)
    fix j assume u: "unwritten ?h m j"
    show "same_at j (fst (?h ! m)) (fst (last ?h))"
    proof (cases "m < length h")
      case True
      have "same_at j (fst (h ! m)) (fst (last h))" by (rule IH(3) [OF True unwritten_snoc [OF u]])
      moreover have "same_at j (fst (last h)) (count_login t i (fst (last h)))"
        using login_same unwritten_last [OF u True] by simp
      ultimately show ?thesis using True by (simp add: nth_append same_at_def)
    qed (use m in \<open>simp add: nth_append same_at_def\<close>)
  qed simp
qed (auto simp: same_at_def)

lemma history_nonempty: "history db0 h \<Longrightarrow> h \<noteq> []"
  by (induction rule: history.induct) simp_all

lemma commit_spec_step:
  assumes r: "outcome_of snap v r" and same: "\<And>j. j \<in> set (v_wrote v) \<Longrightarrow> same_at j snap db"
  shows "spec_step (abs_db db) (abs_db (commit v db))"
proof -
  let ?t = "oc_tenant r" and ?i = "oc_id r" and ?T = "u_id ` set (oc_touched r)"
  let ?D = "\<lambda>j. doc j (db_users db)"
  have w: "set (v_wrote v) = insert ?i ?T" using r by (simp add: outcome_of_def)
  have i: "?D ?i = doc ?i (db_users snap)" "history_of ?t ?i (db_events db) = history_of ?t ?i (db_events snap)"
    using same [of ?i] w by (auto simp: same_at_def)
  have "change ?t ?i (?D ?i) (oc_user r) (oc_type r) (oc_payload r) (oc_touched r \<noteq> [])"
    using r i(1) by (simp add: outcome_of_def)
  then have ch: "change ?t ?i (?D ?i) (oc_user r) (oc_type r) (oc_payload r) (?T \<noteq> {})" by simp
  have T: "?D (u_id x) = Some x \<and> other_admin ?t ?i x \<and> doc (u_id x) (v_users v) = Some (x\<lparr>u_updatedAt := oc_now r\<rparr>)"
    if "x \<in> set (oc_touched r)" for x
    using that r same [of "u_id x"] w by (auto simp: same_at_def outcome_of_def)
  have docs: "doc j (db_users (commit v db)) = (if j = ?i then Some (oc_user r)
      else if j \<in> ?T then map_option (\<lambda>x. x\<lparr>u_updatedAt := oc_now r\<rparr>) (?D j) else ?D j)" for j
  proof -
    have ex: "doc j (v_users v) \<noteq> None" if "j \<in> set (v_wrote v)"
      using that w T r by (auto simp: outcome_of_def)
    show ?thesis
      unfolding commit_def using doc_commit [OF ex] w T r by (auto simp: outcome_of_def)
  qed
  have ev: "db_events (commit v db) = db_events db @ [\<lparr>ue_tenantId = ?t, ue_aggregateId = ?i, ue_type = oc_type r,
      ue_payload = oc_payload r, ue_version = lastVersion ?t ?i (db_events db) + 1, ue_schemaVersion = 1\<rparr>]"
    using r lastVersion_same [OF i(2)] by (simp add: commit_def outcome_of_def outcome_event_def)
  show ?thesis
    unfolding abs_db_def ev
    by (rule spec_step.edit [where D = ?D and T = ?T and n = "oc_now r", OF ch]) (use T docs in \<open>auto simp: fun_eq_iff\<close>)
qed

lemma history_spec_step:
  assumes "history db0 h" "distinct (ids (db_users db0))" "Suc n < length h"
  shows "spec_step (abs_db (fst (h ! n))) (abs_db (fst (h ! Suc n)))"
  using assms
proof (induction rule: history.induct)
  case (commit h k work e u v)
  have facts: "h \<noteq> []" "distinct (ids (db_users (fst (h ! k))))"
    "\<And>j. unwritten h k j \<Longrightarrow> same_at j (fst (h ! k)) (fst (last h))"
    using history_facts [OF commit(1) commit.prems(1)] commit(2) by auto
  show ?case
  proof (cases "Suc n < length h")
    case False
    then have n: "n = length h - 1" "Suc n = length h" using commit.prems(2) by auto
    obtain r where r: "outcome_of (fst (h ! k)) v r"
      using work_outcome [OF commit(3,4) facts(2) commit(5)] by blast
    have "same_at j (fst (h ! k)) (fst (last h))" if "j \<in> set (v_wrote v)" for j
      by (rule facts(3)) (use that commit(6) in \<open>auto simp: unwritten_def\<close>)
    from commit_spec_step [OF r this] show ?thesis
      using n facts(1) by (simp add: nth_append last_conv_nth)
  qed (use commit.IH commit.prems in \<open>simp add: nth_append\<close>)
next
  case (login h t i)
  have "h \<noteq> []" using history_facts [OF login(1) login.prems(1)] by blast
  have "spec_step (abs_db db) (abs_db (count_login t i db))" for db
    unfolding abs_db_def doc_count_login
    by (simp add: count_login_def) (rule spec_step.login [where t = t and i = i], rule refl)
  then show ?case
    using login \<open>h \<noteq> []\<close> by (cases "Suc n < length h") (auto simp: nth_append last_conv_nth less_Suc_eq dest!: sym [of "Suc n"])
qed simp

subsection \<open>What every step keeps\<close>

definition keyed_docs :: "(string \<rightharpoonup> user) \<Rightarrow> bool" where
  "keyed_docs D \<longleftrightarrow> (\<forall>j u. D j = Some u \<longrightarrow> u_id u = j)"

lemma abs_keyed: "keyed_docs (fst (abs_db db))"
  by (auto simp: keyed_docs_def abs_db_def dest: doc_Some)

definition has_admin :: "string \<Rightarrow> (string \<rightharpoonup> user) \<Rightarrow> bool" where
  "has_admin t D \<longleftrightarrow> (\<exists>j u. D j = Some u \<and> active_admin t u)"

text \<open>A change that writes no other admin leaves an admin an admin.\<close>

lemma change_keeps_admin:
  assumes "change t' i (Some cur) u typ pl False" "active_admin t cur"
  shows "active_admin t u"
  using assms(1)
proof (rule change_SomeE)
  fix p hash now
  assume g: "(update_guard p cur \<Longrightarrow> False)" and u: "u = set_data (patch_data p hash) (update_ends p cur) now cur"
  have "option_or (pt_status p) (u_status cur) = UserActive"
    using g assms(2) by (cases "pt_status p") (auto simp: active_admin_def update_guard_def statusChanges_def)
  then show ?thesis using assms(2) u by (simp add: set_data_def patch_data_def active_admin_def is_live_def)
next
  fix rs now
  assume "(ADMIN \<in> set (u_roles cur) \<and> ADMIN \<notin> set rs \<Longrightarrow> False)" "u = set_data (no_data\<lparr>ud_roles := Some rs\<rparr>) True now cur"
  then show ?thesis using assms(2) by (auto simp: set_data_def no_data_def active_admin_def is_live_def)
next
  assume "ADMIN \<in> set (u_roles cur) \<Longrightarrow> False"
  then show ?thesis using assms(2) by (auto simp: active_admin_def)
qed

lemma change_tenant:
  "change t i (Some cur) u typ pl g \<Longrightarrow> u_tenantId cur = t \<and> u_tenantId u = t \<and> u_id u = u_id cur"
  by (erule change_SomeE) (auto simp: set_data_def is_live_user_def)

lemma spec_step_admin:
  assumes "spec_step c c'" "keyed_docs (fst c)" "has_admin t (fst c)"
  shows "has_admin t (fst c')"
  using assms(1)
proof (cases rule: spec_step.cases)
  case (edit t' i D u ty pl T D' n E)
  have s: "c = (D, E)" "fst c' = D'" "change t' i (D i) u ty pl (T \<noteq> {})"
    "\<forall>j\<in>T. \<exists>x. D j = Some x \<and> other_admin t' i x"
    "D' = (\<lambda>j. if j = i then Some u else if j \<in> T then map_option (\<lambda>x. x\<lparr>u_updatedAt := n\<rparr>) (D j) else D j)"
    using edit by auto
  obtain j a where a: "D j = Some a" "active_admin t a" using assms(3) s(1) by (auto simp: has_admin_def)
  have keyed: "D k = Some x \<Longrightarrow> u_id x = k" for k x using assms(2) s(1) by (simp add: keyed_docs_def)
  have touched: "\<exists>x. D' k = Some x \<and> active_admin t' x" if k: "k \<in> T" for k
  proof -
    obtain x where x: "D k = Some x" "other_admin t' i x" using bspec [OF s(4) k] by auto
    then have "k \<noteq> i" using keyed by (auto simp: other_admin_def)
    then show ?thesis using x k s(5) by (auto simp: other_admin_def active_admin_def is_live_def)
  qed
  consider "j \<in> T" | "j = i" "T = {}" | k where "j = i" "k \<in> T" | "j \<noteq> i" "j \<notin> T" by blast
  then have "has_admin t D'"
  proof cases
    case 1
    then have "t' = t" using s(4) a by (auto simp: other_admin_def active_admin_def)
    then show ?thesis using touched [OF 1] unfolding has_admin_def by blast
  next
    case 2
    have "active_admin t u" by (rule change_keeps_admin [OF _ a(2)]) (use s(3) 2 a(1) in auto)
    then show ?thesis using 2 s(5) unfolding has_admin_def by auto
  next
    case 3
    have "t' = t" using change_tenant s(3) a 3(1) by (auto simp: active_admin_def)
    then show ?thesis using touched [OF 3(2)] unfolding has_admin_def by blast
  next
    case 4
    then show ?thesis using s(5) a unfolding has_admin_def by auto
  qed
  then show ?thesis using s(2) by simp
next
  case (login D' t' i D E)
  obtain j a where a: "D j = Some a" "active_admin t a" using assms(3) login(1) by (auto simp: has_admin_def)
  have "\<exists>b. D' j = Some b \<and> active_admin t b" using a login(3) by (auto simp: active_admin_def is_live_def)
  then show ?thesis using login(2) unfolding has_admin_def by auto
qed

text \<open>What stands between two token versions: an equal version means equal credentials.\<close>

definition same_credentials :: "user \<Rightarrow> user \<Rightarrow> bool" where
  "same_credentials u u' \<longleftrightarrow> u_passwordHash u' = u_passwordHash u \<and> u_email u' = u_email u
     \<and> u_status u' = u_status u \<and> u_roles u' = u_roles u"

definition version_marks :: "user \<Rightarrow> user \<Rightarrow> bool" where
  "version_marks u u' \<longleftrightarrow> u_tokenVersion u \<le> u_tokenVersion u'
     \<and> (u_tokenVersion u = u_tokenVersion u' \<longrightarrow> same_credentials u u')"

lemma version_marks_trans: "version_marks u v \<Longrightarrow> version_marks v w \<Longrightarrow> version_marks u w"
  by (auto simp: version_marks_def same_credentials_def)

lemma version_marks_refl: "version_marks u u"
  by (simp add: version_marks_def same_credentials_def)

lemma updated_marks:
  assumes "nonempty (pt_password p) = None \<Longrightarrow> hash = None"
  shows "version_marks cur (set_data (patch_data p hash) (update_ends p cur) now cur)"
proof (cases "update_ends p cur")
  case False
  then have "hash = None" "\<not> emailChanges p cur" "\<not> statusChanges p cur" using assms by (auto simp: update_ends_def)
  then show ?thesis
    using False by (auto simp: set_data_def patch_data_def version_marks_def same_credentials_def emailChanges_def
      statusChanges_def split: option.splits)
qed (simp add: set_data_def version_marks_def)

lemma change_marks:
  assumes "change t i (Some cur) u ty pl g"
  shows "version_marks cur u"
  using assms
proof (rule change_SomeE)
  fix p hash now
  assume h: "(nonempty (pt_password p) = None \<Longrightarrow> hash = None)"
    and u: "u = set_data (patch_data p hash) (update_ends p cur) now cur"
  show ?thesis unfolding u by (rule updated_marks) (rule h)
qed (auto simp: set_data_def version_marks_def same_credentials_def)

lemma spec_step_marks:
  assumes "spec_step c c'" "fst c j = Some u"
  shows "\<exists>u'. fst c' j = Some u' \<and> version_marks u u'"
  using assms(1)
proof (cases rule: spec_step.cases)
  case (edit t i D v ty pl T D' n E)
  have s: "c = (D, E)" "fst c' = D'" "change t i (D i) v ty pl (T \<noteq> {})"
    "D' = (\<lambda>j. if j = i then Some v else if j \<in> T then map_option (\<lambda>x. x\<lparr>u_updatedAt := n\<rparr>) (D j) else D j)"
    using edit by auto
  show ?thesis
  proof (cases "j = i")
    case True
    then have "version_marks u v" using s(1,3) assms(2) change_marks by auto
    then show ?thesis using s True by simp
  next
    case False
    then show ?thesis using s assms(2) by (auto simp: version_marks_def same_credentials_def)
  qed
next
  case (login D' t i D E)
  then show ?thesis using assms(2) by (auto simp: version_marks_def same_credentials_def)
qed

subsection \<open>The log and the documents\<close>

text \<open>What a replayed state and a document share, up to the schema's setters and defaults.\<close>

definition agrees :: "user \<Rightarrow> (string \<times> json) list \<Rightarrow> bool" where
  "agrees u r \<longleftrightarrow>
     (\<exists>s. js_prop r ''name'' = Some (JStr s) \<and> u_name u = js_trim s)
     \<and> (\<exists>s. js_prop r ''email'' = Some (JStr s) \<and> u_email u = to_lower s)
     \<and> (case u_age u of Some a \<Rightarrow> js_prop r ''age'' = Some (JNum a) | None \<Rightarrow> js_prop r ''age'' \<in> {None, Some JNull})
     \<and> (case js_prop r ''status'' of None \<Rightarrow> u_status u = UserActive | Some j \<Rightarrow> j = JStr (status_name (u_status u)))
     \<and> (case js_prop r ''roles'' of None \<Rightarrow> u_roles u = [MEMBER] | Some j \<Rightarrow> j = JArr (map JStr (u_roles u)))
     \<and> (js_prop r ''deletedAt'' = None \<longleftrightarrow> is_live u)"

definition log_agrees :: "json \<Rightarrow> collection \<Rightarrow> bool" where
  "log_agrees now c \<longleftrightarrow>
     (\<forall>i t. map ue_version (history_of t i (snd c)) = [1 ..< length (history_of t i (snd c)) + 1]
        \<and> (history_of t i (snd c) \<noteq> [] \<longleftrightarrow> (\<exists>u. fst c i = Some u \<and> u_tenantId u = t)))
     \<and> (\<forall>i u. fst c i = Some u \<longrightarrow> agrees u (replay now (u_tenantId u) i (snd c)))"

lemma js_prop_spread:
  "js_prop (spread s ps) k = (case map_of (rev ps) k of Some v \<Rightarrow> Some v | None \<Rightarrow> js_prop s k)"
proof (induction ps arbitrary: s)
  case (Cons p ps)
  then show ?case by (cases p) (auto simp: spread_def js_prop_set map_add_def split: option.splits)
qed (simp add: spread_def)

lemma replay_history:
  assumes "map ue_version (history_of t i E) = [1 ..< length (history_of t i E) + 1]"
  shows "replay now t i E = fold (\<lambda>ev st. applyEvent now st (ue_type ev) (ue_payload ev)) (history_of t i E) []"
proof -
  have "sorted (map ue_version (history_of t i E))" unfolding assms by (rule sorted_upt)
  then have "getHistory t i E = history_of t i E" unfolding getHistory_def by (rule sort_key_id_if_sorted)
  then show ?thesis by (simp add: replay_def migratePayload_def)
qed

lemma lastVersion_log:
  assumes "map ue_version (history_of t i E) = [1 ..< length (history_of t i E) + 1]"
  shows "lastVersion t i E = length (history_of t i E)"
proof -
  have "set (map ue_version (history_of t i E)) = {1 ..< length (history_of t i E) + 1}"
    unfolding assms by (rule set_upt)
  moreover have "Max (insert 0 {1 ..< Suc n}) = n" for n :: nat by (cases n) (auto intro: Max_eqI)
  ultimately show ?thesis by (simp add: lastVersion_def)
qed

lemma patch_props:
  "js_prop (spread r (patch_payload p)) ''name'' = (case pt_name p of Some s \<Rightarrow> Some (JStr s) | None \<Rightarrow> js_prop r ''name'')"
  "js_prop (spread r (patch_payload p)) ''email'' = (case pt_email p of Some s \<Rightarrow> Some (JStr s) | None \<Rightarrow> js_prop r ''email'')"
  "js_prop (spread r (patch_payload p)) ''age'' = (case pt_age p of Some a \<Rightarrow> Some (JNum a) | None \<Rightarrow> js_prop r ''age'')"
  "js_prop (spread r (patch_payload p)) ''status'' =
     (case pt_status p of Some st \<Rightarrow> Some (JStr (status_name st)) | None \<Rightarrow> js_prop r ''status'')"
  "js_prop (spread r (patch_payload p)) ''roles'' = js_prop r ''roles''"
  "js_prop (spread r (patch_payload p)) ''deletedAt'' = js_prop r ''deletedAt''"
  unfolding js_prop_spread patch_payload_def by (simp_all split: option.split)

lemma agrees_update:
  assumes "agrees cur r"
  shows "agrees (set_data (patch_data p hash) ends n cur) (applyEvent now r ''UserUpdated'' (patch_payload p))"
proof -
  have e: "applyEvent now r ''UserUpdated'' (patch_payload p) = spread r (patch_payload p)" by (simp add: applyEvent_def)
  note A = assms [unfolded agrees_def]
  show ?thesis unfolding agrees_def e patch_props
  proof (intro conjI, goal_cases)
    case 1
    show ?case using A by (cases "pt_name p") (auto simp: set_data_def patch_data_def)
  next
    case 2
    show ?case using A by (cases "pt_email p") (auto simp: set_data_def patch_data_def)
  next
    case 3
    show ?case using A by (cases "pt_age p"; cases "u_age cur") (auto simp: set_data_def patch_data_def)
  next
    case 4
    show ?case using A by (cases "pt_status p"; cases "js_prop r ''status''") (auto simp: set_data_def patch_data_def)
  next
    case 5
    show ?case using A by (cases "js_prop r ''roles''") (simp_all add: set_data_def patch_data_def)
  next
    case 6
    show ?case using A by (simp add: set_data_def is_live_def)
  qed
qed

lemma created_props:
  assumes r: "r = spread [] ((''name'', JStr n) # (''email'', JStr m) # prop_or_undefined e ''age'' (map_option JNum a))"
  shows "js_prop r ''name'' = Some (JStr n)" "js_prop r ''email'' = Some (JStr m)"
    "js_prop r ''age'' = (case a of Some x \<Rightarrow> Some (JNum x) | None \<Rightarrow> te_undefined e)"
    "js_prop r ''status'' = None" "js_prop r ''roles'' = None" "js_prop r ''deletedAt'' = None"
  unfolding r js_prop_spread prop_or_undefined_def by (simp_all add: js_prop_def split: option.split)

lemma agrees_new:
  assumes "change t i None u ty pl g"
  shows "agrees u (applyEvent now [] ty pl)"
  using assms
proof (cases rule: change.cases)
  case (created e data n)
  have "applyEvent now [] ty pl = spread [] ((''name'', JStr (nu_name data)) # (''email'', JStr (nu_email data))
      # prop_or_undefined e ''age'' (map_option JNum (nu_age data)))" by (simp add: applyEvent_def created)
  note P = created_props [OF this]
  show ?thesis unfolding agrees_def P using created by (simp add: user_of_data_def is_live_def split: option.split)
qed

lemma agrees_roles:
  assumes "agrees cur r"
  shows "agrees (set_data (no_data\<lparr>ud_roles := Some rs\<rparr>) True n cur) (applyEvent now r ''UserUpdated'' [(''roles'', JArr (map JStr rs))])"
  using assms by (simp add: agrees_def applyEvent_def js_prop_spread set_data_def no_data_def is_live_def cong: option.case_cong)

lemma agrees_edit:
  assumes "change t i (Some cur) u ty pl g" "agrees cur r"
  shows "agrees u (applyEvent now r ty pl)"
  using assms(1)
proof (rule change_SomeE)
  fix n
  assume "u = cur\<lparr>u_deletedAt := Some n, u_updatedAt := n\<rparr>" "ty = ''UserDeleted''"
  then show ?thesis using assms(2) by (simp add: agrees_def applyEvent_def js_prop_set is_live_def cong: option.case_cong)
qed (use assms(2) in \<open>auto intro: agrees_update agrees_roles\<close>)

lemma agrees_others [simp]:
  "agrees (u\<lparr>u_updatedAt := n\<rparr>) = agrees u" "agrees (u\<lparr>u_loginCount := n\<rparr>) = agrees u"
  by (rule ext, simp add: agrees_def is_live_def split: option.split)+

lemma change_result: "change t i old u ty pl g \<Longrightarrow> (\<forall>cur. old = Some cur \<longrightarrow> u_id cur = i) \<Longrightarrow> u_tenantId u = t \<and> u_id u = i"
  by (erule change.cases) (auto simp: user_of_data_def set_data_def is_live_user_def)

lemma log_agreesD:
  assumes "log_agrees now (D, E)"
  shows "map ue_version (history_of t i E) = [1 ..< length (history_of t i E) + 1]"
    "history_of t i E \<noteq> [] \<longleftrightarrow> (\<exists>u. D i = Some u \<and> u_tenantId u = t)"
    "D i = Some u \<Longrightarrow> agrees u (replay now (u_tenantId u) i E)"
  using assms by (auto simp: log_agrees_def)

lemma log_agrees_edit:
  assumes log: "log_agrees now (D, E)" and keyed: "keyed_docs D"
    and ch: "change t i (D i) u ty pl g"
    and ev: "ev = \<lparr>ue_tenantId = t, ue_aggregateId = i, ue_type = ty, ue_payload = pl,
      ue_version = lastVersion t i E + 1, ue_schemaVersion = 1\<rparr>"
    and D': "D' = (\<lambda>j. if j = i then Some u else if j \<in> T then map_option (\<lambda>x. x\<lparr>u_updatedAt := n\<rparr>) (D j) else D j)"
  shows "log_agrees now (D', E @ [ev])"
proof -
  note L = log_agreesD [OF log]
  have u: "u_tenantId u = t" "u_id u = i" using change_result [OF ch] keyed by (auto simp: keyed_docs_def)
  have h: "history_of t' j (E @ [ev]) = (if t' = t \<and> j = i then history_of t i E @ [ev] else history_of t' j E)" for t' j
    by (auto simp: history_of_def ev)
  have vs: "map ue_version (history_of t' j (E @ [ev])) = [1 ..< length (history_of t' j (E @ [ev])) + 1]" for t' j
  proof (cases "t' = t \<and> j = i")
    case True
    let ?n = "length (history_of t i E)"
    have "map ue_version (history_of t i E @ [ev]) = [1 ..< ?n + 1] @ [?n + 1]"
      using L(1) [of t i] lastVersion_log [OF L(1) [of t i]] by (simp add: ev del: upt_Suc)
    also have "\<dots> = [1 ..< ?n + 1 + 1]" by simp
    finally show ?thesis unfolding h using True by (simp del: upt_Suc)
  next
    case False
    then have "history_of t' j (E @ [ev]) = history_of t' j E" unfolding h by argo
    then show ?thesis using L(1) [of t' j] by simp
  qed
  have old: "t' = t \<or> history_of t' i E = []" for t'
  proof (cases "D i")
    case (Some cur)
    then have "u_tenantId cur = t" using ch change_tenant by auto
    then show ?thesis using L(2) [of t' i] Some by auto
  qed (use L(2) [of t' i] in auto)
  have ex: "history_of t' j (E @ [ev]) \<noteq> [] \<longleftrightarrow> (\<exists>x. D' j = Some x \<and> u_tenantId x = t')" for t' j
  proof (cases "j = i")
    case True
    then show ?thesis unfolding h D' using u(1) old [of t'] by auto
  next
    case False
    then show ?thesis unfolding h D' using L(2) [of t' j] by auto
  qed
  have run: "replay now t i (E @ [ev]) = applyEvent now (replay now t i E) ty pl"
    unfolding replay_history [OF vs] replay_history [OF L(1)] h by (simp add: ev)
  have ag: "agrees x (replay now (u_tenantId x) j (E @ [ev]))" if dj: "D' j = Some x" for j x
  proof (cases "j = i")
    case True
    have "agrees u (applyEvent now (replay now t i E) ty pl)"
    proof (cases "D i")
      case None
      then have "replay now t i E = []" using L(2) [of t i] by (simp add: replay_def getHistory_def)
      then show ?thesis using agrees_new ch None by simp
    next
      case (Some cur)
      then have "u_tenantId cur = t" using ch change_tenant by auto
      then have "agrees cur (replay now t i E)" using L(3) [OF Some] by simp
      then show ?thesis using agrees_edit ch Some by simp
    qed
    then show ?thesis using dj True u run by (auto simp: D')
  next
    case False
    then obtain y where y: "D j = Some y" "u_tenantId x = u_tenantId y" "agrees x = agrees y"
      using dj False by (cases "j \<in> T") (auto simp: D')
    have "replay now (u_tenantId y) j (E @ [ev]) = replay now (u_tenantId y) j E"
      unfolding replay_history [OF vs] replay_history [OF L(1)] h using False by simp
    then show ?thesis using y L(3) [OF y(1)] by simp
  qed
  show ?thesis unfolding log_agrees_def using vs ex ag by simp
qed

lemma spec_step_log:
  assumes "spec_step c c'" "keyed_docs (fst c)" "log_agrees now c"
  shows "log_agrees now c'"
  using assms(1)
proof (cases rule: spec_step.cases)
  case (edit t i D u ty pl T D' n E)
  show ?thesis unfolding edit(2) by (rule log_agrees_edit [OF _ _ edit(3) refl edit(5)]) (use assms(2,3) edit(1) in auto)
next
  case (login D' t' i D E)
  note L = log_agreesD [OF assms(3) [unfolded login(1)]]
  have "agrees x (replay now (u_tenantId x) j E)" "\<exists>y. D j = Some y \<and> u_tenantId y = u_tenantId x" if dj: "D' j = Some x" for j x
  proof -
    obtain y where "D j = Some y" "u_tenantId x = u_tenantId y" "agrees x = agrees y"
      using dj login(3) by (auto split: if_splits)
    then show "agrees x (replay now (u_tenantId x) j E)" "\<exists>y. D j = Some y \<and> u_tenantId y = u_tenantId x"
      using L(3) [of j y] by simp_all
  qed
  moreover have "(\<exists>u. D' j = Some u \<and> u_tenantId u = t) \<longleftrightarrow> (\<exists>u. D j = Some u \<and> u_tenantId u = t)" for j t
    unfolding login(3) by (cases "D j") auto
  ultimately show ?thesis unfolding log_agrees_def login(2) using L(1,2) by simp
qed

subsection \<open>Properties\<close>

text \<open>What every abstract step keeps, holds from any state of a history to any later one.\<close>

lemma history_keeps:
  assumes h: "history db0 h" "distinct (ids (db_users db0))" and nm: "n \<le> m" "m < length h"
    and step: "\<And>c c'. spec_step c c' \<Longrightarrow> keyed_docs (fst c) \<Longrightarrow> P c \<Longrightarrow> P c'"
    and start: "P (abs_db (fst (h ! n)))"
  shows "P (abs_db (fst (h ! m)))"
  using nm
proof (induction m rule: dec_induct)
  case (step k)
  then show ?case using assms(5) history_spec_step [OF h] abs_keyed by (metis Suc_lessD)
qed (rule start)

text \<open>C2: Concurrent transactions are as good as one at a time. Whatever snapshots the commands ran
  on, every commit of a history changes the collection exactly as the command does when it runs
  alone on the state it commits to: one document, the admins it locked, and one event with the next
  version of its aggregate.\<close>

theorem transactions_serialize:
  assumes "history db0 h" "distinct (ids (db_users db0))" "Suc n < length h"
  shows "spec_step (abs_db (fst (h ! n))) (abs_db (fst (h ! Suc n)))"
  by (rule history_spec_step [OF assms])

text \<open>C5: A tenant never loses its last admin. Once it has an active one it has one in every later
  state, whichever demotions, deactivations and deletions run concurrently.\<close>

theorem last_admin_survives:
  assumes "history db0 h" "distinct (ids (db_users db0))" "n \<le> m" "m < length h"
    and "has_admin t (fst (abs_db (fst (h ! n))))"
  shows "has_admin t (fst (abs_db (fst (h ! m))))"
  by (rule history_keeps [where P = "\<lambda>c. has_admin t (fst c)", OF assms(1-4) spec_step_admin assms(5)])

text \<open>C22: A session ends with the credentials it was given for. Between two states of a history the
  token version of a user never falls, and when it is the same, so are the password hash, the email,
  the status and the roles.\<close>

theorem token_version_marks_credentials:
  assumes "history db0 h" "distinct (ids (db_users db0))" "n \<le> m" "m < length h"
    and "doc i (db_users (fst (h ! n))) = Some u"
  shows "\<exists>u'. doc i (db_users (fst (h ! m))) = Some u' \<and> u_tokenVersion u \<le> u_tokenVersion u'
    \<and> (u_tokenVersion u = u_tokenVersion u' \<longrightarrow> same_credentials u u')"
proof -
  have "\<exists>u'. fst (abs_db (fst (h ! m))) i = Some u' \<and> version_marks u u'"
    by (rule history_keeps [where P = "\<lambda>c. \<exists>u'. fst c i = Some u' \<and> version_marks u u'", OF assms(1-4)])
      (use spec_step_marks version_marks_trans version_marks_refl assms(5) in \<open>fastforce simp: abs_db_def\<close>)+
  then show ?thesis by (simp add: abs_db_def version_marks_def)
qed


subsection \<open>A small collection\<close>

text \<open>Two admins of one tenant, with their events, and the demotion of one of them.\<close>

definition small_admin :: "string \<Rightarrow> user" where
  "small_admin i =
     \<lparr>u_id = i, u_name = i, u_email = i, u_passwordHash = Some ''h'', u_age = None, u_status = UserActive,
      u_loginCount = 0, u_roles = [ADMIN], u_tenantId = ''acme'', u_tokenVersion = 1, u_provider = None,
      u_providerId = None, u_deletedAt = None, u_createdAt = 0, u_updatedAt = 0\<rparr>"

definition small_log :: "string \<Rightarrow> user_event list" where
  "small_log i =
     [\<lparr>ue_tenantId = ''acme'', ue_aggregateId = i, ue_type = ''UserCreated'',
       ue_payload = [(''name'', JStr i), (''email'', JStr i)], ue_version = 1, ue_schemaVersion = 1\<rparr>,
      \<lparr>ue_tenantId = ''acme'', ue_aggregateId = i, ue_type = ''UserUpdated'',
       ue_payload = [(''roles'', JArr [JStr ADMIN])], ue_version = 2, ue_schemaVersion = 1\<rparr>]"

definition small_db :: user_db where
  "small_db = \<lparr>db_users = [small_admin ''u1'', small_admin ''u2''], db_events = small_log ''u1'' @ small_log ''u2'',
     db_outbox = \<lparr>t_rows = [], t_heads = []\<rparr>\<rparr>"

definition small_tx :: tx_env where
  "small_tx = \<lparr>te_fault = (\<lambda>_. None), te_now = (\<lambda>n. 10 + n), te_userId = ''u3'', te_uuid = ''e'', te_rowId = 1,
     te_carrier = (None, None), te_undefined = None\<rparr>"

definition small_demotion :: "(thrown + user) \<times> tx_view" where
  "small_demotion = roles_work ''acme'' ''u1'' [MEMBER] small_tx (open_view small_db)"

definition small_history :: user_history where
  "small_history = [(small_db, {}), (commit (snd small_demotion) small_db, set (v_wrote (snd small_demotion)))]"

lemma small_distinct: "distinct (ids (db_users small_db))"
  by code_simp

lemma small_demotes: "\<not> isl (fst small_demotion)"
  by code_simp

lemma small_demoted: "u_roles (projr (fst small_demotion)) = [MEMBER]" "map u_roles (v_users (snd small_demotion)) = [[MEMBER], [ADMIN]]"
  by code_simp+

lemma small_is_history: "history small_db small_history"
proof -
  have "small_demotion = (Inr (projr (fst small_demotion)), snd small_demotion)"
    using small_demotes by (metis prod.collapse sum.collapse(2))
  then have run: "roles_work ''acme'' ''u1'' [MEMBER] small_tx (open_view (fst ([(small_db, {})] ! 0)))
      = (Inr (projr (fst small_demotion)), snd small_demotion)"
    by (simp add: small_demotion_def)
  from history.commit [OF history.start _ user_work.roles run] show ?thesis
    by (simp add: small_tx_def small_history_def)
qed

lemma small_log_agrees: "log_agrees JNull (abs_db small_db)"
proof -
  have h: "history_of t i (db_events small_db) = (if t = ''acme'' \<and> i \<in> {''u1'', ''u2''} then small_log i else [])" for t i
    by (auto simp: small_db_def small_log_def history_of_def)
  have d: "doc i (db_users small_db) = (if i \<in> {''u1'', ''u2''} then Some (small_admin i) else None)" for i
    by (simp add: small_db_def doc_def small_admin_def)
  have t: "u_tenantId (small_admin i) = ''acme''" for i by (simp add: small_admin_def)
  have "agrees (small_admin ''u1'') (replay JNull ''acme'' ''u1'' (db_events small_db))"
    "agrees (small_admin ''u2'') (replay JNull ''acme'' ''u2'' (db_events small_db))"
    by (simp_all add: replay_def getHistory_def h small_log_def migratePayload_def applyEvent_def spread_def agrees_def
      js_prop_def small_admin_def is_live_def js_trim_def to_lower_def lower_char_def is_space_def)
  then show ?thesis unfolding log_agrees_def abs_db_def fst_conv snd_conv h d
    by (auto simp: t small_log_def upt_rec)
qed

lemma transactions_serialize_witness:
  "spec_step (abs_db small_db) (abs_db (commit (snd small_demotion) small_db))"
  using transactions_serialize [OF small_is_history small_distinct, of 0] by (simp add: small_history_def)

lemma last_admin_survives_witness:
  "has_admin ''acme'' (fst (abs_db (commit (snd small_demotion) small_db)))"
proof -
  have "has_admin ''acme'' (fst (abs_db small_db))"
    unfolding has_admin_def
    by (rule exI [of _ "''u1''"], rule exI [of _ "small_admin ''u1''"])
      (simp add: abs_db_def doc_def small_db_def small_admin_def active_admin_def is_live_def)
  then show ?thesis
    using last_admin_survives [OF small_is_history small_distinct, of 0 1] by (simp add: small_history_def)
qed

lemma token_version_marks_credentials_witness:
  "\<exists>u'. doc ''u1'' (db_users (commit (snd small_demotion) small_db)) = Some u' \<and> 1 < u_tokenVersion u'"
proof -
  have d: "doc ''u1'' (db_users small_db) = Some (small_admin ''u1'')" by (simp add: small_db_def doc_def small_admin_def)
  have "map_option u_roles (doc ''u1'' (db_users (commit (snd small_demotion) small_db))) = Some [MEMBER]"
    by code_simp
  moreover obtain u' where "doc ''u1'' (db_users (commit (snd small_demotion) small_db)) = Some u'"
    "1 \<le> u_tokenVersion u'" "1 = u_tokenVersion u' \<longrightarrow> same_credentials (small_admin ''u1'') u'"
    using token_version_marks_credentials [OF small_is_history small_distinct, of 0 1 "''u1''" "small_admin ''u1''"] d
    by (auto simp: small_history_def small_admin_def)
  ultimately show ?thesis
    by (auto simp: same_credentials_def small_admin_def ADMIN_def MEMBER_def intro!: exI [of _ u'])
qed


text \<open>The replayed name is the text as given, so it need not be the document's.\<close>

definition blank_db :: user_db where
  "blank_db = \<lparr>db_users = [], db_events = [], db_outbox = \<lparr>t_rows = [], t_heads = []\<rparr>\<rparr>"

lemma replay_keeps_text_as_given:
  "(let (r, v) = create_work ''acme'' \<lparr>nu_name = '' Ann '', nu_email = ''Ann@x.io'', nu_passwordHash = ''h'', nu_age = None,
        nu_identity = None\<rparr> small_tx (open_view blank_db); db = commit v blank_db
    in map u_name (db_users db) = [''Ann''] \<and> map u_email (db_users db) = [''ann@x.io'']
       \<and> js_prop (replay JNull ''acme'' ''u3'' (db_events db)) ''name'' = Some (JStr '' Ann '')
       \<and> js_prop (replay JNull ''acme'' ''u3'' (db_events db)) ''email'' = Some (JStr ''Ann@x.io''))"
  by code_simp

end
