(* ===== verification/User_Service.thy ===== *)
theory User_Service
  imports User_History
begin

text \<open>
  What follows a user command: the errors its caller sees (\<open>create-user.command.ts\<close>,
  \<open>update-user.command.ts\<close>) and the projection of user events onto search, vectors and the
  profile cache (\<open>services/user-projection.service.ts\<close>, \<open>user-search.service.ts\<close>,
  \<open>processors/user.processor.ts\<close>).
\<close>

subsection \<open>A taken email\<close>

lemma duplicate_key_is_duplicate: "is_duplicate_key duplicate_key"
  by (simp add: is_duplicate_key_def duplicate_key_def js_prop_def)

lemma duplicate_key_unexpected:
  "ne_code (normalizeError sc num duplicate_key) = INTERNAL" "ne_unexpected (normalizeError sc num duplicate_key)"
  by (simp_all add: normalizeError_def duplicate_key_def error_name.simps KNOWN_ERROR_NAMES_def error_props_def
    fromHttpErrorsLike_def http_like_status_def js_prop_def resolved_def Let_def split: option.split)

text \<open>An update to an email that another live user of the tenant has, with no operation failing.\<close>

lemma update_taken_email:
  assumes quiet: "\<And>n. te_fault e n = None" and tenant: "isTenantId t"
    and dist: "distinct (ids (db_users db))"
    and cur: "doc i (db_users db) = Some cur" "is_live_user t i cur"
    and taken: "x \<in> set (db_users db)" "is_live x" "u_tenantId x = t" "u_id x \<noteq> i" "u_email x = to_lower email"
    and patch: "pt_email p = Some email" "pt_status p = None"
  shows "fst (update_work t i p hash e (open_view db)) = Inl duplicate_key"
proof -
  have f: "find (is_live_user t i) (db_users db) = Some cur"
  proof -
    obtain y where y: "find (is_live_user t i) (db_users db) = Some y"
      using cur doc_Some [OF cur(1)] by (cases "find (is_live_user t i) (db_users db)") (auto simp: find_None_iff)
    then show ?thesis using find_doc [OF dist y] cur(1) by simp
  qed
  let ?u = "\<lambda>now. set_data (patch_data p hash) (update_ends p cur) now cur"
  have "same_slot (?u now) x" "u_id x \<noteq> u_id (?u now)" for now
    using cur(2) taken patch by (simp_all add: same_slot_def set_data_def patch_data_def is_live_def is_live_user_def)
  then have "\<not> index_allows (db_users db) (?u now)" for now
    using taken(1) by (auto simp: index_allows_def list_ex_iff)
  then show ?thesis
    using tenant quiet f patch
    by (simp add: update_work_def andThen_def repo_findById_def repo_op_def tx_op_def open_view_def found_def
      keep_an_admin_def statusChanges_def repo_update_def findOneAndUpdate_def put_user_def update_ends_def)
qed

text \<open>A taken email is a conflict only for a new account. A create that loses to the unique index
  answers USER_ALREADY_EXISTS; an update to an email another live user of the tenant has answers the
  driver's own error, which normalises to an unexpected INTERNAL.\<close>

theorem taken_email_reported_only_on_create:
  assumes quiet: "\<forall>n. te_fault e n = None" and tenant: "isTenantId t"
    and dist: "distinct (ids (db_users db))"
    and cur: "doc i (db_users db) = Some cur" "is_live_user t i cur"
    and taken: "x \<in> set (db_users db)" "is_live x" "u_tenantId x = t" "u_id x \<noteq> i" "u_email x = to_lower email"
    and patch: "pt_email p = Some email" "pt_status p = None" "nonempty (pt_password p) = None"
    and tx: "\<forall>work w. fst (ux_tx d work w) = fst (work e (open_view db))"
    and create: "ux_findByEmail d t (cc_email cmd) w = (Inr None, w1)" "cc_identity cmd \<noteq> None"
      "fst (create_work t (create_data cmd []) e (open_view db)) = Inl duplicate_key"
  shows "fst (update_execute d t i p w) = Inl duplicate_key
    \<and> ne_code (normalizeError sc num duplicate_key) = INTERNAL \<and> ne_unexpected (normalizeError sc num duplicate_key)
    \<and> fst (createUser d cmd t w) = Inl (app_error_cause USER_ALREADY_EXISTS duplicate_key)"
proof (intro conjI duplicate_key_unexpected)
  have "fst (update_work t i p None e (open_view db)) = Inl duplicate_key"
    using update_taken_email [OF _ tenant dist cur taken patch(1,2)] quiet by blast
  then have "fst (ux_tx d (update_work t i p None) w) = Inl duplicate_key" using tx by simp
  then obtain w2 where "ux_tx d (update_work t i p None) w = (Inl duplicate_key, w2)" by (metis prod.collapse)
  then show "fst (update_execute d t i p w) = Inl duplicate_key"
    using patch(3) by (simp add: update_execute_def andThen_def)
  have "fst (ux_tx d (create_work t (create_data cmd [])) w1) = Inl duplicate_key" using tx create(3) by simp
  then obtain w2 where "ux_tx d (create_work t (create_data cmd [])) w1 = (Inl duplicate_key, w2)"
    by (metis prod.collapse)
  then show "fst (createUser d cmd t w) = Inl (app_error_cause USER_ALREADY_EXISTS duplicate_key)"
    using create(1,2) by (auto simp: createUser_def andThen_def rescue_def duplicate_key_is_duplicate)
qed

text \<open>The small collection behind the handlers; a pre-check that ran before the other sign-up committed.\<close>

definition small_patch :: user_patch where
  "small_patch = \<lparr>pt_name = None, pt_email = Some ''U2'', pt_password = None, pt_age = None, pt_status = None\<rparr>"

definition small_create :: create_cmd where
  "small_create = \<lparr>cc_name = ''n'', cc_email = ''U2'', cc_password = [], cc_age = None, cc_idempotencyKey = None,
     cc_identity = Some (''google'', ''7''), cc_requester = ''anonymous''\<rparr>"

definition small_users :: "unit user_deps" where
  "small_users =
     \<lparr>ux_env = (\<lambda>_. None), ux_tx = (\<lambda>work w. (fst (work small_tx (open_view small_db)), w)),
      ux_findByEmail = (\<lambda>_ _. ret None), ux_findByIdWithPassword = (\<lambda>_ _. ret None), ux_hash = (\<lambda>p. ret p),
      ux_compare = (\<lambda>p h. ret (p = h)), ux_cacheDel = (\<lambda>_. ret ()), ux_claim = (\<lambda>_ _ _. ret True),
      ux_release = (\<lambda>_ _. ret True), ux_uuid = ret ''o'', ux_getResponse = (\<lambda>_. ret None),
      ux_setResponse = (\<lambda>_ _ _. ret ()), ux_emit = (\<lambda>_ _. ret ()), ux_kvSetStatus = (\<lambda>_ _ _. ret ()),
      ux_kvDel = (\<lambda>_. ret False), ux_findTenant = (\<lambda>_. ret None), ux_hit = (\<lambda>_ _. raise (app_error RATE_LIMITED)),
      ux_ipPolicy = \<lparr>rl_limit = 1, rl_windowSeconds = 1\<rparr>, ux_tenantPolicy = \<lparr>rl_limit = 1, rl_windowSeconds = 1\<rparr>,
      ux_assertAllowed = (\<lambda>_ _ _. ret ()), ux_recordFailure = (\<lambda>_ _ _. ret ())\<rparr>"

lemma taken_email_reported_only_on_create_witness:
  "let d = small_users; p = small_patch in
     fst (update_execute d ''acme'' ''u1'' p ()) = Inl duplicate_key
     \<and> fst (createUser d small_create ''acme'' ()) = Inl (app_error_cause USER_ALREADY_EXISTS duplicate_key)"
proof -
  have fs: "\<forall>n. te_fault small_tx n = None" by (simp add: small_tx_def)
  have cur: "doc ''u1'' (db_users small_db) = Some (small_admin ''u1'')" "is_live_user ''acme'' ''u1'' (small_admin ''u1'')"
    by (simp_all add: small_db_def doc_def small_admin_def is_live_user_def is_live_def)
  have taken: "small_admin ''u2'' \<in> set (db_users small_db)" "is_live (small_admin ''u2'')"
    "u_tenantId (small_admin ''u2'') = ''acme''" "u_id (small_admin ''u2'') \<noteq> ''u1''"
    "u_email (small_admin ''u2'') = to_lower ''U2''"
    by (simp add: small_db_def, simp_all add: small_admin_def is_live_def) code_simp
  have patch: "pt_email small_patch = Some ''U2''" "pt_status small_patch = None" "nonempty (pt_password small_patch) = None"
    by (simp_all add: small_patch_def)
  have tx: "\<forall>work w. fst (ux_tx small_users work w) = fst (work small_tx (open_view small_db))"
    by (simp add: small_users_def)
  have create: "ux_findByEmail small_users ''acme'' (cc_email small_create) () = (Inr None, ())"
    "cc_identity small_create \<noteq> None"
    by (simp_all add: small_users_def small_create_def)
  have "isTenantId ''acme''" by code_simp
  have "fst (create_work ''acme'' (create_data small_create []) small_tx (open_view small_db)) = Inl duplicate_key"
    by code_simp
  from taken_email_reported_only_on_create [OF fs \<open>isTenantId ''acme''\<close> small_distinct cur taken patch tx create this]
  show ?thesis by (simp add: Let_def)
qed

subsection \<open>The projection of user events\<close>

definition USER_SEARCH_INDEX :: string where "USER_SEARCH_INDEX = ''users''"

text \<open>What the projection calls: the repository, the search and vector ports, the profile cache, the
  welcome job and the onboarding start, which never fails. \<open>pj_message\<close> is an error's \<open>message\<close>.\<close>

record 'w projection_deps =
  pj_env :: "string \<Rightarrow> string option"
  pj_findById :: "string \<Rightarrow> string \<Rightarrow> ('w, user option) eff"
  pj_cacheDel :: "string \<Rightarrow> ('w, unit) eff"
  pj_index :: "string \<Rightarrow> string \<Rightarrow> string \<Rightarrow> (string \<times> json) list \<Rightarrow> ('w, unit) eff"
  pj_remove :: "string \<Rightarrow> string \<Rightarrow> string \<Rightarrow> ('w, unit) eff"
  pj_upsert :: "string \<Rightarrow> string \<Rightarrow> (string \<times> json) list \<Rightarrow> ('w, unit) eff"
  pj_unvector :: "string \<Rightarrow> string \<Rightarrow> ('w, unit) eff"
  pj_enqueue :: "(string \<times> json) list \<Rightarrow> string \<Rightarrow> ('w, unit) eff"
  pj_onboard :: "string \<Rightarrow> string \<Rightarrow> string \<Rightarrow> string \<Rightarrow> ('w, unit) eff"
  pj_message :: "thrown \<Rightarrow> string"

definition escape_html_char :: "char \<Rightarrow> string" where
  "escape_html_char c =
     (if c = CHR ''&'' then ''&amp;'' else if c = CHR ''<'' then ''&lt;'' else if c = CHR ''>'' then ''&gt;''
      else if c = CHR 0x22 then ''&quot;'' else if c = CHR 0x27 then ''&#39;'' else [c])"

definition escapeHtml :: "string \<Rightarrow> string" where
  "escapeHtml s = concat (map escape_html_char s)"

definition search_fields :: "string \<Rightarrow> user \<Rightarrow> (string \<times> json) list" where
  "search_fields i u =
     [(''id'', JStr i), (''name'', JStr (u_name u)), (''email'', JStr (u_email u)),
      (''status'', JStr (status_name (u_status u))), (''age'', JNum (option_or (u_age u) 0))]"

definition vector_fields :: "user \<Rightarrow> (string \<times> json) list" where
  "vector_fields u =
     [(''name'', JStr (u_name u)), (''email'', JStr (u_email u)), (''age'', JNum (option_or (u_age u) 0)),
      (''status'', JStr (status_name (u_status u))), (''loginCount'', JNum (of_nat (u_loginCount u)))]"

type_synonym 'w sink = "string \<times> ('w, unit) eff"

definition indexSinks :: "('w, 'm) projection_deps_scheme \<Rightarrow> string \<Rightarrow> string \<Rightarrow> user \<Rightarrow> 'w sink list" where
  "indexSinks d tenant i u =
     [(''search'', pj_index d tenant USER_SEARCH_INDEX i (search_fields i u)),
      (''vector'', pj_upsert d tenant i (vector_fields u))]"

definition removeSinks :: "('w, 'm) projection_deps_scheme \<Rightarrow> string \<Rightarrow> string \<Rightarrow> 'w sink list" where
  "removeSinks d tenant i =
     [(''search'', pj_remove d tenant USER_SEARCH_INDEX i), (''vector'', pj_unvector d tenant i)]"

text \<open>\<open>Promise.allSettled\<close>: every sink runs, and the failures are named.\<close>

fun settle :: "'w sink list \<Rightarrow> 'w \<Rightarrow> (string \<times> thrown) list \<times> 'w" where
  "settle [] w = ([], w)"
| "settle ((name, run) # sinks) w =
     (case run w of (r, w1) \<Rightarrow>
        (case settle sinks w1 of (fails, w2) \<Rightarrow>
           ((case r of Inl e \<Rightarrow> (name, e) # fails | Inr _ \<Rightarrow> fails), w2)))"

fun join_text :: "string \<Rightarrow> string list \<Rightarrow> string" where
  "join_text sep [] = []"
| "join_text sep [x] = x"
| "join_text sep (x # xs) = x @ sep @ join_text sep xs"

definition runSinks :: "('w, 'm) projection_deps_scheme \<Rightarrow> string \<Rightarrow> 'w sink list \<Rightarrow> ('w, unit) eff" where
  "runSinks d label sinks w =
     (case settle sinks w of (fails, w') \<Rightarrow>
        (let failed = map (\<lambda>(name, e). name @ '': '' @ pj_message d e) (filter (\<lambda>(_, e). \<not> is_disabled e) fails) in
         if failed = [] then (Inr (), w')
         else (Inl (app_error_detail SERVICE_UNAVAILABLE (label @ '': '' @ join_text ''; '' failed)), w')))"

definition welcome_email :: "('w, 'm) projection_deps_scheme \<Rightarrow> string \<Rightarrow> string \<Rightarrow> user \<Rightarrow> ('w, unit) eff" where
  "welcome_email d tenant i u =
     pj_enqueue d
       [(''tenantId'', JStr tenant), (''userId'', JStr i), (''channel'', JStr ''email''), (''template'', JStr ''welcome''),
        (''payload'', JObj [(''to'', JStr (u_email u)), (''name'', JStr (u_name u)), (''subject'', JStr ''Welcome!''),
           (''html'', JStr (''<p>Hi '' @ escapeHtml (option_or (nonempty (Some (u_name u))) ''there'')
              @ '', welcome to the platform.</p>''))])]
       (''welcome-'' @ i)"

definition profile_purge :: "('w, 'm) projection_deps_scheme \<Rightarrow> string \<Rightarrow> string \<Rightarrow> ('w, unit) eff" where
  "profile_purge d tenant i = andThen (keyed (forTenant USER_PROFILE_CACHE (pj_env d) tenant [i])) (pj_cacheDel d)"

definition onCreated :: "('w, 'm) projection_deps_scheme \<Rightarrow> string \<Rightarrow> string \<Rightarrow> user \<Rightarrow> ('w, unit) eff" where
  "onCreated d tenant i u =
     andThen (runSinks d ''user created'' (indexSinks d tenant i u @ [(''welcome-email'', welcome_email d tenant i u)])) (\<lambda>_.
     pj_onboard d tenant i (u_email u) (option_or (nonempty (Some (u_name u))) ''there''))"

definition onUpdated :: "('w, 'm) projection_deps_scheme \<Rightarrow> string \<Rightarrow> string \<Rightarrow> user \<Rightarrow> ('w, unit) eff" where
  "onUpdated d tenant i u =
     andThen (profile_purge d tenant i) (\<lambda>_. runSinks d ''user updated'' (indexSinks d tenant i u))"

definition onDeleted :: "('w, 'm) projection_deps_scheme \<Rightarrow> string \<Rightarrow> string \<Rightarrow> ('w, unit) eff" where
  "onDeleted d tenant i =
     andThen (profile_purge d tenant i) (\<lambda>_. runSinks d ''user deleted'' (removeSinks d tenant i))"

definition projection_apply ::
  "('w, 'm) projection_deps_scheme \<Rightarrow> string \<Rightarrow> string \<Rightarrow> string \<Rightarrow> ('w, unit) eff" where
  "projection_apply d eventType tenant i =
     (if eventType \<in> {USER_CREATED, USER_UPDATED}
      then andThen (pj_findById d tenant i) (\<lambda>current.
        case current of
          None \<Rightarrow> onDeleted d tenant i
        | Some u \<Rightarrow> if eventType = USER_CREATED then onCreated d tenant i u else onUpdated d tenant i u)
      else if eventType = USER_DELETED then onDeleted d tenant i
      else ret ())"
subsection \<open>Convergence\<close>

text \<open>What the projection needs of the stores behind the ports. \<open>ix\<close> and \<open>vx\<close> are the indexed
  and the vector documents of a world, \<open>live_user\<close> the live user: a write that answers has
  been made, one that fails may or may not have been, and nothing else touches that user's entries;
  the search and vector capabilities are switched on.\<close>

record 'w projected =
  ix :: "'w \<Rightarrow> (string \<times> json) list option"
  vx :: "'w \<Rightarrow> (string \<times> json) list option"
  live_user :: "'w \<Rightarrow> user option"

definition entries :: "('w, 'm) projected_scheme \<Rightarrow> 'w
    \<Rightarrow> (string \<times> json) list option \<times> (string \<times> json) list option \<times> user option" where
  "entries pv w = (ix pv w, vx pv w, live_user pv w)"

definition store_laws :: "('w, 'm) projection_deps_scheme \<Rightarrow> 'w projected \<Rightarrow> string \<Rightarrow> string \<Rightarrow> bool" where
  "store_laws d pv t i \<longleftrightarrow>
     (\<forall>w r w'. pj_findById d t i w = (Inr r, w') \<longrightarrow> r = live_user pv w \<and> entries pv w' = entries pv w)
     \<and> (\<forall>f w r w'. pj_index d t USER_SEARCH_INDEX i f w = (r, w') \<longrightarrow> \<not> (\<exists>e. r = Inl e \<and> is_disabled e)
          \<and> vx pv w' = vx pv w \<and> live_user pv w' = live_user pv w \<and> (r = Inr () \<longrightarrow> ix pv w' = Some f))
     \<and> (\<forall>w r w'. pj_remove d t USER_SEARCH_INDEX i w = (r, w') \<longrightarrow> \<not> (\<exists>e. r = Inl e \<and> is_disabled e)
          \<and> vx pv w' = vx pv w \<and> live_user pv w' = live_user pv w \<and> (r = Inr () \<longrightarrow> ix pv w' = None))
     \<and> (\<forall>f w r w'. pj_upsert d t i f w = (r, w') \<longrightarrow> \<not> (\<exists>e. r = Inl e \<and> is_disabled e)
          \<and> ix pv w' = ix pv w \<and> live_user pv w' = live_user pv w \<and> (r = Inr () \<longrightarrow> vx pv w' = Some f))
     \<and> (\<forall>w r w'. pj_unvector d t i w = (r, w') \<longrightarrow> \<not> (\<exists>e. r = Inl e \<and> is_disabled e)
          \<and> ix pv w' = ix pv w \<and> live_user pv w' = live_user pv w \<and> (r = Inr () \<longrightarrow> vx pv w' = None))
     \<and> (\<forall>k w. entries pv (snd (pj_cacheDel d k w)) = entries pv w)
     \<and> (\<forall>p j w r w'. pj_enqueue d p j w = (r, w') \<longrightarrow> \<not> (\<exists>e. r = Inl e \<and> is_disabled e) \<and> entries pv w' = entries pv w)
     \<and> (\<forall>e n w. entries pv (snd (pj_onboard d t i e n w)) = entries pv w)"

text \<open>The entries a user should have.\<close>

definition in_step :: "'w projected \<Rightarrow> string \<Rightarrow> 'w \<Rightarrow> bool" where
  "in_step pv i w \<longleftrightarrow> ix pv w = map_option (search_fields i) (live_user pv w)
     \<and> vx pv w = map_option vector_fields (live_user pv w)"

definition enabled_sinks :: "'w sink list \<Rightarrow> bool" where
  "enabled_sinks sinks \<longleftrightarrow> (\<forall>s \<in> set sinks. \<forall>w e w'. snd s w = (Inl e, w') \<longrightarrow> \<not> is_disabled e)"

lemma settle_no_fails:
  assumes "settle sinks w = (fails, w')" "enabled_sinks sinks" "\<forall>f \<in> set fails. is_disabled (snd f)"
  shows "fails = []"
  using assms
proof (induction sinks arbitrary: w fails)
  case (Cons s sinks)
  obtain n run r w1 fs w2 where p: "s = (n, run)" "run w = (r, w1)" "settle sinks w1 = (fs, w2)"
    by (metis surj_pair)
  have f: "fails = (case r of Inl e \<Rightarrow> (n, e) # fs | Inr _ \<Rightarrow> fs)" "w2 = w'" using Cons.prems(1) p by simp_all
  have "enabled_sinks sinks" using Cons.prems(2) by (simp add: enabled_sinks_def)
  then have "fs = []" using Cons.IH [of w1 fs] p(3) f Cons.prems(3) by (cases r) auto
  moreover have "\<not> is_disabled e" if "r = Inl e" for e
    using Cons.prems(2) p that by (auto simp: enabled_sinks_def)
  ultimately show ?case using f Cons.prems(3) by (cases r) auto
qed simp

lemma runSinks_Inr:
  assumes "runSinks d label sinks w = (Inr u, w')" "enabled_sinks sinks"
  shows "settle sinks w = ([], w')"
proof -
  obtain fails w2 where s: "settle sinks w = (fails, w2)" by force
  with assms(1) have "w2 = w'" and f: "filter (\<lambda>(_, e). \<not> is_disabled e) fails = []"
    by (auto simp: runSinks_def Let_def split: if_splits)
  have "\<forall>f \<in> set fails. is_disabled (snd f)" using f by (auto simp: filter_empty_conv)
  then show ?thesis using settle_no_fails [OF s assms(2)] s \<open>w2 = w'\<close> by simp
qed

lemma settle_Cons_ok: "settle ((n, f) # ss) w = ([], w') \<longleftrightarrow> (\<exists>w1. f w = (Inr (), w1) \<and> settle ss w1 = ([], w'))"
  by (auto split: prod.splits sum.splits)

lemma settle_Nil: "settle [] w = ([], w') \<longleftrightarrow> w' = w"
  by auto

lemmas settle_oks = settle_Cons_ok settle_Nil append.simps

text \<open>The laws, one call at a time.\<close>

lemma store_lawsD:
  assumes "store_laws d pv t i"
  shows "pj_findById d t i w = (Inr r, w') \<Longrightarrow> r = live_user pv w \<and> entries pv w' = entries pv w"
    "pj_index d t USER_SEARCH_INDEX i f w = (Inr (), w') \<Longrightarrow> entries pv w' = (Some f, snd (entries pv w))"
    "pj_remove d t USER_SEARCH_INDEX i w = (Inr (), w') \<Longrightarrow> entries pv w' = (None, snd (entries pv w))"
    "pj_upsert d t i f w = (Inr (), w') \<Longrightarrow> entries pv w' = (ix pv w, Some f, live_user pv w)"
    "pj_unvector d t i w = (Inr (), w') \<Longrightarrow> entries pv w' = (ix pv w, None, live_user pv w)"
    "pj_cacheDel d k w = (q, w') \<Longrightarrow> entries pv w' = entries pv w"
    "pj_enqueue d p j w = (q, w') \<Longrightarrow> entries pv w' = entries pv w"
    "pj_onboard d t i e n w = (q, w') \<Longrightarrow> entries pv w' = entries pv w"
  using assms unfolding store_laws_def by (metis entries_def snd_conv)+

lemma sinks_enabled:
  assumes "store_laws d pv t i"
  shows "enabled_sinks (indexSinks d t i u)" "enabled_sinks (removeSinks d t i)"
    "enabled_sinks (indexSinks d t i u @ [(''welcome-email'', welcome_email d t i u)])"
  using assms unfolding store_laws_def enabled_sinks_def indexSinks_def removeSinks_def welcome_email_def by fastforce+

lemma purge_Inr:
  assumes "store_laws d pv t i" "profile_purge d t i w = (Inr x, w')"
  shows "entries pv w' = entries pv w"
  using assms(2) store_lawsD(6) [OF assms(1)] by (auto simp: profile_purge_def eff_simps)

lemma onDeleted_Inr:
  assumes laws: "store_laws d pv t i" and run: "onDeleted d t i w = (Inr x, w')"
  shows "entries pv w' = (None, None, live_user pv w)"
proof -
  obtain y w1 where p: "profile_purge d t i w = (Inr y, w1)" "runSinks d ''user deleted'' (removeSinks d t i) w1 = (Inr x, w')"
    using run by (auto simp: onDeleted_def eff_simps)
  obtain w2 where "pj_remove d t USER_SEARCH_INDEX i w1 = (Inr (), w2)" "pj_unvector d t i w2 = (Inr (), w')"
    using runSinks_Inr [OF p(2) sinks_enabled(2) [OF laws]] unfolding removeSinks_def settle_oks by blast
  from store_lawsD(3) [OF laws this(1)] store_lawsD(5) [OF laws this(2)] purge_Inr [OF laws p(1)]
  show ?thesis by (simp add: entries_def)
qed

lemma index_settles:
  assumes laws: "store_laws d pv t i" and run: "settle (indexSinks d t i u) w = ([], w')"
  shows "entries pv w' = (Some (search_fields i u), Some (vector_fields u), live_user pv w)"
proof -
  obtain w1 where "pj_index d t USER_SEARCH_INDEX i (search_fields i u) w = (Inr (), w1)"
    "pj_upsert d t i (vector_fields u) w1 = (Inr (), w')"
    using run unfolding indexSinks_def settle_oks by blast
  from store_lawsD(2) [OF laws this(1)] store_lawsD(4) [OF laws this(2)] show ?thesis by (simp add: entries_def)
qed

lemma onUpdated_Inr:
  assumes laws: "store_laws d pv t i" and run: "onUpdated d t i u w = (Inr x, w')"
  shows "entries pv w' = (Some (search_fields i u), Some (vector_fields u), live_user pv w)"
proof -
  obtain y w1 where p: "profile_purge d t i w = (Inr y, w1)" "runSinks d ''user updated'' (indexSinks d t i u) w1 = (Inr x, w')"
    using run by (auto simp: onUpdated_def eff_simps)
  from index_settles [OF laws runSinks_Inr [OF p(2) sinks_enabled(1) [OF laws]]] purge_Inr [OF laws p(1)]
  show ?thesis by (simp add: entries_def)
qed

lemma onCreated_Inr:
  assumes laws: "store_laws d pv t i" and run: "onCreated d t i u w = (Inr x, w')"
  shows "entries pv w' = (Some (search_fields i u), Some (vector_fields u), live_user pv w)"
proof -
  obtain y w1 where p: "runSinks d ''user created'' (indexSinks d t i u @ [(''welcome-email'', welcome_email d t i u)]) w = (Inr y, w1)"
    "pj_onboard d t i (u_email u) (option_or (nonempty (Some (u_name u))) ''there'') w1 = (Inr x, w')"
    using run by (auto simp: onCreated_def eff_simps)
  obtain w2 w3 where q: "pj_index d t USER_SEARCH_INDEX i (search_fields i u) w = (Inr (), w2)"
    "pj_upsert d t i (vector_fields u) w2 = (Inr (), w3)" "welcome_email d t i u w3 = (Inr (), w1)"
    using runSinks_Inr [OF p(1) sinks_enabled(3) [OF laws]] unfolding indexSinks_def settle_oks by blast
  have "settle (indexSinks d t i u) w = ([], w3)" unfolding indexSinks_def settle_oks using q by blast
  from index_settles [OF laws this] store_lawsD(7) [OF laws q(3) [unfolded welcome_email_def]] store_lawsD(8) [OF laws p(2)]
  show ?thesis by simp
qed

lemma projection_apply_Inr:
  assumes laws: "store_laws d pv t i" and ty: "ty \<in> {USER_CREATED, USER_UPDATED, USER_DELETED}"
    and gone: "ty = USER_DELETED \<Longrightarrow> live_user pv w = None"
    and run: "projection_apply d ty t i w = (Inr x, w')"
  shows "live_user pv w' = live_user pv w \<and> in_step pv i w'"
proof (cases "ty = USER_DELETED")
  case True
  then have "onDeleted d t i w = (Inr x, w')" using run
    by (simp add: projection_apply_def USER_DELETED_def USER_CREATED_def USER_UPDATED_def)
  from onDeleted_Inr [OF laws this] gone [OF True] show ?thesis by (simp add: entries_def in_step_def)
next
  case False
  then obtain cur w1 where f: "pj_findById d t i w = (Inr cur, w1)"
    and go: "(case cur of None \<Rightarrow> onDeleted d t i
        | Some u \<Rightarrow> if ty = USER_CREATED then onCreated d t i u else onUpdated d t i u) w1 = (Inr x, w')"
    using run ty by (auto simp: projection_apply_def eff_simps)
  have c: "cur = live_user pv w" "live_user pv w1 = live_user pv w" using store_lawsD(1) [OF laws f] by (simp_all add: entries_def)
  show ?thesis
  proof (cases cur)
    case None
    then have "onDeleted d t i w1 = (Inr x, w')" using go by simp
    from onDeleted_Inr [OF laws this] show ?thesis using c None by (simp add: entries_def in_step_def)
  next
    case (Some u)
    have "entries pv w' = (Some (search_fields i u), Some (vector_fields u), live_user pv w1)"
      using go Some onCreated_Inr [OF laws] onUpdated_Inr [OF laws] by (auto split: if_splits)
    moreover have "live_user pv w = Some u" using c(1) Some by simp
    ultimately show ?thesis using c(2) by (simp add: entries_def in_step_def)
  qed
qed

text \<open>Deliveries of events of one user, in the order the subscription gives them: failed ones,
  repeated ones and old ones among them.\<close>

definition deliver_all :: "('w, 'm) projection_deps_scheme \<Rightarrow> string \<Rightarrow> string \<Rightarrow> string list \<Rightarrow> 'w \<Rightarrow> 'w" where
  "deliver_all d t i tys = fold (\<lambda>ty w. snd (projection_apply d ty t i w)) tys"

text \<open>C37: The projections catch up, whatever is redelivered. After any deliveries of a user's events,
  in any order, repeated and failed ones included, one delivery that succeeds leaves the search
  entry and the vector those of the current user, and none for a user that is gone; an old update
  that arrives after the deletion does not bring the user back.\<close>

theorem projection_catches_up:
  assumes "store_laws d pv t i" "ty \<in> {USER_CREATED, USER_UPDATED, USER_DELETED}"
    and "ty = USER_DELETED \<longrightarrow> live_user pv (deliver_all d t i tys w) = None"
    and "projection_apply d ty t i (deliver_all d t i tys w) = (Inr u, w')"
  shows "live_user pv w' = live_user pv (deliver_all d t i tys w) \<and> in_step pv i w'"
  by (rule projection_apply_Inr [OF assms(1,2) _ assms(4)]) (use assms(3) in blast)

text \<open>A projection in memory, with a user deleted after its creation.\<close>

type_synonym small_index = "(string \<times> json) list option \<times> (string \<times> json) list option"

definition small_projection :: "user option \<Rightarrow> small_index projection_deps" where
  "small_projection u =
     \<lparr>pj_env = (\<lambda>_. None), pj_findById = (\<lambda>_ _. ret u), pj_cacheDel = (\<lambda>_. ret ()),
      pj_index = (\<lambda>_ _ _ f w. (Inr (), Some f, snd w)), pj_remove = (\<lambda>_ _ _ w. (Inr (), None, snd w)),
      pj_upsert = (\<lambda>_ _ f w. (Inr (), fst w, Some f)), pj_unvector = (\<lambda>_ _ w. (Inr (), fst w, None)),
      pj_enqueue = (\<lambda>_ _. ret ()), pj_onboard = (\<lambda>_ _ _ _. ret ()), pj_message = (\<lambda>_. ''unknown'')\<rparr>"

definition small_projected :: "user option \<Rightarrow> small_index projected" where
  "small_projected u = \<lparr>ix = fst, vx = snd, live_user = (\<lambda>_. u)\<rparr>"

lemma small_store_laws: "store_laws (small_projection u) (small_projected u) t i"
  by (auto simp: store_laws_def small_projection_def small_projected_def entries_def)

lemma projection_catches_up_witness:
  "projection_apply (small_projection None) USER_UPDATED ''acme'' ''u1'' (Some [], None) = (Inr (), None, None)
     \<and> in_step (small_projected None) ''u1'' (None, None)"
proof -
  have run: "projection_apply (small_projection None) USER_UPDATED ''acme'' ''u1'' (Some [], None) = (Inr (), None, None)"
    by code_simp
  have d: "deliver_all (small_projection None) ''acme'' ''u1'' [] (Some [], None) = (Some [], None)"
    by (simp add: deliver_all_def)
  have run': "projection_apply (small_projection None) USER_UPDATED ''acme'' ''u1''
      (deliver_all (small_projection None) ''acme'' ''u1'' [] (Some [], None)) = (Inr (), None, None)"
    unfolding d by (rule run)
  have "in_step (small_projected None) ''u1'' (None, None)"
    using projection_catches_up [OF small_store_laws _ _ run'] by (simp add: USER_UPDATED_def USER_DELETED_def)
  with run show ?thesis by simp
qed

end
