(* ===== verification/Login.thy ===== *)
theory Login
  imports Auth
begin

text \<open>
  The credential checks of \<open>Auth\<close>: which access tokens are admitted, which logins, and when the
  lockout holds, the last over a Redis server with a clock.
\<close>

subsection \<open>Access tokens\<close>

lemma guardStores_Inl: "guardStores f w = (Inl e, w') \<Longrightarrow> isAppError e"
  by (auto simp: guardStores_def rescue_def unavailable_def split: prod.splits sum.splits if_splits)

lemma guardStores_Inr [eff_simps]: "guardStores f w = (Inr x, w') \<longleftrightarrow> f w = (Inr x, w')"
  by (auto simp: guardStores_def rescue_def split: prod.splits sum.splits)

lemma decode_access_token_Inr:
  "decode_access_token d token w = Inr c \<longleftrightarrow>
     (\<exists>ps. ax_jwtVerify d token (ax_secret d) w = Some (JObj ps) \<and> claims_of ps = Some c)"
  by (auto simp: decode_access_token_def split: option.splits json.splits)

lemma decode_access_token_Inl: "decode_access_token d token w = Inl e \<Longrightarrow> isAppError e"
  by (auto simp: decode_access_token_def app_error_def split: option.splits json.splits)

lemma token_verdict_Inl: "token_verdict c revoked suspended member tenant = Inl e \<Longrightarrow> isAppError e"
  by (auto simp: token_verdict_def app_error_def split: option.splits if_splits)

lemma token_verdict_Inr:
  assumes "token_verdict c revoked suspended member tenant = Inr p"
  obtains m t where "\<not> revoked" "\<not> suspended" "member = Some m" "tenant = Some t"
    "ac_tokenVersion c = option_or (ma_tokenVersion m) 0" "tr_status t = TenantActive"
    "ma_status m = UserActive" "p_userId p = ac_userId c" "p_tenantId p = ac_tenantId c" "p_roles p = ma_roles m"
    "p_jti p = ac_jti c"
  using assms by (auto simp: token_verdict_def split: option.splits if_splits)

lemma verify_lookups_Inr:
  assumes "verify_lookups d c w = (Inr ((revoked, suspended), (member, tenant)), w')"
  obtains kR kS w1 w2 w3 where "global TOKEN_REVOKED_KEY (ax_env d) [ac_jti c] = Inr kR"
    "forTenant ACCOUNT_SUSPENDED_KEY (ax_env d) (ac_tenantId c) [ac_userId c] = Inr kS"
    "ax_kvExists d kR w = (Inr revoked, w1)" "ax_kvExists d kS w1 = (Inr suspended, w2)"
    "ax_findMember d (ac_tenantId c) (ac_userId c) w2 = (Inr member, w3)"
    "ax_findTenant d (ac_tenantId c) w3 = (Inr tenant, w')"
  using assms by (auto simp: verify_lookups_def key_effs eff_simps)

text \<open>C34: An access token is admitted only when our signature verifies, its claims are complete,
  every one of the four lookups answered, the token is not revoked, the tenant is active, the
  account is a member, active, not suspended and still at the token's version; the principal's
  roles are the member record's, whatever the token says. Otherwise the answer is an error of
  the catalog: an unreachable store never lets a token through.\<close>

theorem access_token_fails_closed:
  "case verify_token d token w of
     (Inr p, w') \<Rightarrow> \<exists>payload c kR kS m t w1 w2 w3.
       ax_jwtVerify d token (ax_secret d) w = Some (JObj payload) \<and> claims_of payload = Some c
       \<and> global TOKEN_REVOKED_KEY (ax_env d) [ac_jti c] = Inr kR \<and> ax_kvExists d kR w = (Inr False, w1)
       \<and> forTenant ACCOUNT_SUSPENDED_KEY (ax_env d) (ac_tenantId c) [ac_userId c] = Inr kS
       \<and> ax_kvExists d kS w1 = (Inr False, w2)
       \<and> ax_findMember d (ac_tenantId c) (ac_userId c) w2 = (Inr (Some m), w3)
       \<and> ax_findTenant d (ac_tenantId c) w3 = (Inr (Some t), w')
       \<and> tr_status t = TenantActive \<and> ma_status m = UserActive
       \<and> ac_tokenVersion c = option_or (ma_tokenVersion m) 0
       \<and> p_roles p = ma_roles m \<and> p_userId p = ac_userId c \<and> p_tenantId p = ac_tenantId c
   | (Inl e, w') \<Rightarrow> isAppError e"
proof -
  obtain res w' where v: "verify_token d token w = (res, w')" by force
  show ?thesis
  proof (cases res)
    case (Inl e)
    then have "isAppError e" using v
      by (auto simp: verify_token_def andThen_Inl dest: decode_access_token_Inl guardStores_Inl token_verdict_Inl
        split: prod.splits)
    then show ?thesis using v Inl by simp
  next
    case (Inr p)
    then obtain c revoked suspended member tenant where
      c: "decode_access_token d token w = Inr c"
      and l: "verify_lookups d c w = (Inr ((revoked, suspended), (member, tenant)), w')"
      and t: "token_verdict c revoked suspended member tenant = Inr p"
      using v by (auto simp: verify_token_def eff_simps split: prod.splits)
    from t obtain m tr where m: "\<not> revoked" "\<not> suspended" "member = Some m" "tenant = Some tr"
      "ac_tokenVersion c = option_or (ma_tokenVersion m) 0" "tr_status tr = TenantActive"
      "ma_status m = UserActive" "p_userId p = ac_userId c" "p_tenantId p = ac_tenantId c" "p_roles p = ma_roles m"
      by (rule token_verdict_Inr)
    have "revoked = False" "suspended = False" using m(1,2) by simp_all
    note l = l [unfolded this m(3,4)]
    from l obtain kR kS w1 w2 w3 where k: "global TOKEN_REVOKED_KEY (ax_env d) [ac_jti c] = Inr kR"
      "forTenant ACCOUNT_SUSPENDED_KEY (ax_env d) (ac_tenantId c) [ac_userId c] = Inr kS"
      "ax_kvExists d kR w = (Inr False, w1)" "ax_kvExists d kS w1 = (Inr False, w2)"
      "ax_findMember d (ac_tenantId c) (ac_userId c) w2 = (Inr (Some m), w3)"
      "ax_findTenant d (ac_tenantId c) w3 = (Inr (Some tr), w')"
      by (rule verify_lookups_Inr)
    obtain ps where "ax_jwtVerify d token (ax_secret d) w = Some (JObj ps)" "claims_of ps = Some c"
      using c unfolding decode_access_token_Inr by blast
    with k m(5-10) v Inr show ?thesis by auto
  qed
qed

subsection \<open>Logins\<close>

text \<open>A login that answers an account passed every check in order: an active tenant, no
  lockout, an account under that email with a password hash that bcrypt matched, and an active
  account.\<close>

theorem login_passes_every_check:
  assumes "authenticate d tenant dto ip w = (Inr u, w')"
  shows "\<exists>tr h w1 w2 w3 w4. ld_email dto \<noteq> [] \<and> ld_password dto \<noteq> []
    \<and> ax_findTenant d tenant w = (Inr (Some tr), w1) \<and> tr_status tr = TenantActive
    \<and> assertNotLocked d tenant (ld_email dto) ip w1 = (Inr (), w2)
    \<and> ax_findByEmail d tenant (ld_email dto) w2 = (Inr (Some u), w3)
    \<and> au_passwordHash u = Some h \<and> ax_bcrypt d (ld_password dto) h w3 = (Inr True, w4)
    \<and> au_status u = UserActive"
  using assms
  by (auto simp: authenticate_def eff_simps nonempty_Some split: if_splits option.splits)

text \<open>Failed logins look alike to a guesser: an unregistered tenant, a suspended one, an unknown
  email, an account without a password and a wrong password all answer the same
  AUTH_INVALID_CREDENTIALS, and each failure at the password counts against the lockout.\<close>

theorem login_failures_look_alike:
  assumes "ax_findTenant d tenant w = (Inr r, w1)" "assertNotLocked d tenant (ld_email dto) ip w1 = (Inr (), w2)"
    and "ax_findByEmail d tenant (ld_email dto) w2 = (Inr user, w3)"
    and "\<forall>h. (\<exists>u. user = Some u \<and> nonempty (au_passwordHash u) = Some h) \<longrightarrow>
      ax_bcrypt d (ld_password dto) h w3 = (Inr False, w3)"
    and "recordFailure d tenant (ld_email dto) ip w3 = (Inr (), w4)"
  shows "\<exists>w'. authenticate d tenant dto ip w = (Inl (app_error AUTH_INVALID_CREDENTIALS), w')
    \<and> (ld_email dto \<noteq> [] \<and> ld_password dto \<noteq> [] \<and> map_option tr_status r = Some TenantActive \<longrightarrow> w' = w4)"
  using assms
  by (cases user; cases r)
    (auto simp: authenticate_def andThen_def unless_def split: option.splits if_splits)

subsection \<open>The lockout over a Redis server that answers\<close>

text \<open>A server that answers every command with a documented effect.\<close>

definition answering :: "'r redis_exec \<Rightarrow> ('r \<Rightarrow> redis_db) \<Rightarrow> bool" where
  "answering exec view \<longleftrightarrow> (\<forall>now c r. redis_apply now c (view r) \<noteq> None \<longrightarrow> \<not> isl (fst (exec now c r)))"

lemma answering_exec:
  assumes "redis_server exec pipe view" "answering exec view" "redis_apply now c (view r) = Some (rep, db')"
  obtains r' where "exec now c r = (Inr rep, r')" "view r' = db'"
proof -
  obtain out r' where e: "exec now c r = (out, r')" by force
  have "\<not> isl out" using assms(2,3) e unfolding answering_def by (metis fst_conv option.distinct(1))
  then obtain x where o: "out = Inr x" by (cases out) auto
  from redis_server.exec_Inr [OF assms(1) e [unfolded o]] show thesis using that e o assms(3) by auto
qed

lemma sure_exec_answering: "answering sure_exec (\<lambda>db. db)"
  by (auto simp: answering_def sure_exec_def split: option.splits)

text \<open>After \<open>n\<close> hits within a window that ends at \<open>e\<close> or later.\<close>

definition counts :: "nat \<Rightarrow> nat \<Rightarrow> redis_db \<Rightarrow> string \<Rightarrow> nat \<Rightarrow> bool" where
  "counts t0 e db k n \<longleftrightarrow>
     (if n = 0 then live t0 db k = None else \<exists>x. e \<le> x \<and> db k = Some (show_nat n, Some x))"

text \<open>A marker lasts to the end of its counter's window, short of the rounding of TTL.\<close>

definition marks :: "nat \<Rightarrow> nat \<Rightarrow> redis_db \<Rightarrow> string \<Rightarrow> bool \<Rightarrow> bool" where
  "marks t0 e db k b \<longleftrightarrow>
     (if b then \<exists>v x. e \<le> x + 499 \<and> db k = Some (v, Some x) else live t0 db k = None)"

lemma counts_other: "counts t0 e db k n \<Longrightarrow> db' k = db k \<Longrightarrow> counts t0 e db' k n"
  by (auto simp: counts_def live_def live_entry_def)

lemma marks_other: "marks t0 e db k b \<Longrightarrow> db' k = db k \<Longrightarrow> marks t0 e db' k b"
  by (auto simp: marks_def live_def live_entry_def)

lemma marks_live: "marks t0 e db k b \<Longrightarrow> t0 \<le> t \<Longrightarrow> t + 499 < e \<Longrightarrow> live t db k \<noteq> None \<longleftrightarrow> b"
  by (auto simp: marks_def live_def live_entry_def dest: live_later_None split: if_splits option.splits prod.splits)

lemma hit_counts:
  assumes srv: "redis_server exec pipe view" "answering exec view"
    and p: "positive_integer (rl_limit p)" "positive_integer (rl_windowSeconds p)"
    and n: "counts t0 e (view r) k n" and t: "t0 \<le> t" "t < e" "e \<le> t + 1000 * as_nat (rl_windowSeconds p)"
  shows "\<exists>reset r'. ratelimit_hit exec t k p r = (Inr (toRateLimitResult p (int (Suc n)) reset), r')
    \<and> counts t0 e (view r') k (Suc n) \<and> (\<forall>j. j \<noteq> k \<longrightarrow> view r' j = view r j)
    \<and> int e \<le> int t + 1000 * max 1 reset + 499"
proof -
  let ?w = "as_nat (rl_windowSeconds p)"
  have ok: "assertRateLimitPolicy p = Inr ()" using p by (simp add: assertRateLimitPolicy_def assertPositiveInteger_def)
  have "\<exists>ttl db'. HIT k ?w t (view r) = Some (RArr [RInt (int (Suc n)), RInt ttl], db')
      \<and> counts t0 e db' k (Suc n) \<and> (\<forall>j. j \<noteq> k \<longrightarrow> db' j = view r j) \<and> int e \<le> int t + 1000 * max 1 ttl + 499"
  proof (cases n)
    case 0
    then have "live t (view r) k = None" using n t(1) live_later_None by (auto simp: counts_def)
    from HIT_absent [OF this, of ?w] show ?thesis using t(3) 0 by (auto simp: counts_def)
  next
    case (Suc m)
    then obtain x where x: "e \<le> x" "view r k = Some (show_nat n, Some x)" using n by (auto simp: counts_def)
    have "\<not> redis_ttl t k ((view r)(k := Some (show_nat (Suc n), Some x))) < 0"
      using redis_ttl_nonneg [of t x] x t(2) by simp
    moreover have "redis_ttl t k ((view r)(k := Some (show_nat (Suc n), Some x))) = int ((x - t + 500) div 1000)"
      using x t(2) by (simp add: redis_ttl_def live_entry_def)
    ultimately have h: "HIT k ?w t (view r) = Some (RArr [RInt (int (Suc n)), RInt (int ((x - t + 500) div 1000))],
        (view r)(k := Some (show_nat (Suc n), Some x)))"
      using x t(2) by (simp add: HIT_def redis_incr_def live_entry_def Let_def)
    have "y < 1000 * (y div 1000) + 1000" for y :: nat
      using mod_less_divisor [of 1000 y] div_mult_mod_eq [of y 1000] by linarith
    from this [of "x - t + 500"] have "x - t + 500 < 1000 * ((x - t + 500) div 1000) + 1000" .
    then have "int x - int t < 1000 * int ((x - t + 500) div 1000) + 500" using x t(2) by linarith
    then have "int e \<le> int t + 1000 * max 1 (int ((x - t + 500) div 1000)) + 499" using x by linarith
    with h show ?thesis using x by (auto simp: counts_def)
  qed
  then obtain ttl db' where h: "HIT k ?w t (view r) = Some (RArr [RInt (int (Suc n)), RInt ttl], db')"
    "counts t0 e db' k (Suc n)" "\<forall>j. j \<noteq> k \<longrightarrow> db' j = view r j" "int e \<le> int t + 1000 * max 1 ttl + 499" by blast
  have "redis_apply t (REval (HIT k ?w)) (view r) = Some (RArr [RInt (int (Suc n)), RInt ttl], db')" using h(1) by simp
  then obtain r' where e: "exec t (REval (HIT k ?w)) r = (Inr (RArr [RInt (int (Suc n)), RInt ttl]), r')" "view r' = db'"
    by (rule answering_exec [OF srv])
  then show ?thesis using h(2-4) ok by (auto simp: ratelimit_hit_def)
qed

lemma kv_set_answers:
  assumes "redis_server exec pipe view" "answering exec view" "positive_integer s"
  shows "\<exists>v r'. kv_set exec stringify t k (Some x) (for_seconds s) r = (Inr (), r')
    \<and> view r' = (view r)(k := Some (v, Some (t + 1000 * as_nat s)))"
proof -
  let ?v = "stringify (JObj [(''v'', JNum KV_CODEC_VERSION), (''d'', x)])"
  have "redis_apply t (RSet k ?v (Some (1000 * as_nat s)) False) (view r) =
      Some (ROk, (view r)(k := Some (?v, Some (t + 1000 * as_nat s))))" by simp
  then obtain r' where e: "exec t (RSet k ?v (Some (1000 * as_nat s)) False) r = (Inr ROk, r')"
    "view r' = (view r)(k := Some (?v, Some (t + 1000 * as_nat s)))" by (rule answering_exec [OF assms(1,2)])
  then show ?thesis using assms(3)
    by (auto simp: kv_set_def for_seconds_def resolveKvLifetime_def assertPositiveInteger_def encodeKvValue_def)
qed

lemma kv_exists_answers:
  assumes "redis_server exec pipe view" "answering exec view"
  shows "\<exists>r'. kv_exists exec t k r = (Inr (live t (view r) k \<noteq> None), r') \<and> view r' = view r"
proof -
  have "redis_apply t (RExists k) (view r) = Some (RInt (if live t (view r) k \<noteq> None then 1 else 0), view r)" by simp
  then obtain r' where "exec t (RExists k) r = (Inr (RInt (if live t (view r) k \<noteq> None then 1 else 0)), r')"
    "view r' = view r" by (rule answering_exec [OF assms])
  then show ?thesis by (auto simp: kv_exists_def)
qed

text \<open>One counted failure.\<close>

lemma countFailure_counts:
  fixes base :: "('r \<times> nat) auth_deps"
  assumes srv: "redis_server exec pipe view" "answering exec view"
    and p: "p = \<lparr>rl_limit = of_nat l, rl_windowSeconds = of_nat w\<rparr>" "0 < l" "0 < w"
    and n: "counts t0 e (view r) c n" "marks t0 e (view r) m (l \<le> n)" "c \<noteq> m"
    and t: "t0 \<le> t" "t < e" "e \<le> t + 1000 * w"
  shows "\<exists>r'. countFailure (over_redis exec (\<lambda>t. t) base) c p m (r, t) = (Inr (), r', t)
    \<and> counts t0 e (view r') c (Suc n) \<and> marks t0 e (view r') m (l \<le> Suc n)
    \<and> (\<forall>j. j \<noteq> c \<and> j \<noteq> m \<longrightarrow> view r' j = view r j)"
proof -
  let ?d = "over_redis exec (\<lambda>t. t) base"
  have pw: "positive_integer (rl_limit p)" "positive_integer (rl_windowSeconds p)"
    "as_nat (rl_windowSeconds p) = w" using p by simp_all
  obtain reset r1 where h: "ratelimit_hit exec t c p r = (Inr (toRateLimitResult p (int (Suc n)) reset), r1)"
    "counts t0 e (view r1) c (Suc n)" "\<forall>j. j \<noteq> c \<longrightarrow> view r1 j = view r j"
    "int e \<le> int t + 1000 * max 1 reset + 499"
    using hit_counts [OF srv pw(1,2) n(1) t(1,2)] t(3) pw(3) by auto
  let ?x = "toRateLimitResult p (int (Suc n)) reset"
  have z: "rl_remaining ?x = 0 \<longleftrightarrow> l \<le> Suc n" "rl_resetSeconds ?x = reset"
    using p(1) by (auto simp: toRateLimitResult_def max_def of_nat_le_iff [of l "Suc n", where 'a = rat]
      simp del: of_nat_Suc)
  show ?thesis
  proof (cases "l \<le> Suc n")
    case False
    then show ?thesis using h z n
      by (intro exI [of _ r1])
        (auto simp: countFailure_def rescue_def andThen_def on_fst_def intro: marks_other)
  next
    case True
    let ?s = "of_int (max 1 reset) :: rat"
    have s: "?s = of_nat (nat (max 1 reset))" by simp
    have ps: "positive_integer ?s" unfolding s positive_integer_of_nat by simp
    have an: "as_nat ?s = nat (max 1 reset)" unfolding s by (rule as_nat_of_nat)
    obtain v r2 where k: "kv_set exec (ax_stringify base) t m (Some (JBool True)) (for_seconds ?s) r1 = (Inr (), r2)"
      "view r2 = (view r1)(m := Some (v, Some (t + 1000 * nat (max 1 reset))))"
      using kv_set_answers [OF srv ps] unfolding an by blast
    have run: "countFailure ?d c p m (r, t) = (Inr (), r2, t)"
      using h(1) k(1) z True by (simp add: countFailure_def rescue_def andThen_def on_fst_def)
    have "e \<le> t + 1000 * nat (max 1 reset) + 499" using h(4) by linarith
    then show ?thesis using run h(2,3) k(2) True n(3)
      by (intro exI [of _ r2]) (auto simp: marks_def intro: counts_other)
  qed
qed

text \<open>The keys of one email's counters and markers.\<close>

definition ip_failures :: "string \<Rightarrow> (nat \<times> string) list \<Rightarrow> nat" where
  "ip_failures ip hs = length (filter (\<lambda>h. snd h = ip) hs)"

definition lock_keys :: "key_builder set" where
  "lock_keys = {LOGIN_IP_RATE_LIMIT, LOGIN_EMAIL_RATE_LIMIT, LOGIN_LOCKOUT_KEY}"

lemma lock_keys_differ:
  "kb_spec LOGIN_IP_RATE_LIMIT \<noteq> kb_spec LOGIN_EMAIL_RATE_LIMIT"
  "kb_spec LOGIN_IP_RATE_LIMIT \<noteq> kb_spec LOGIN_LOCKOUT_KEY"
  "kb_spec LOGIN_EMAIL_RATE_LIMIT \<noteq> kb_spec LOGIN_LOCKOUT_KEY"
  by (simp_all add: LOGIN_IP_RATE_LIMIT_def LOGIN_EMAIL_RATE_LIMIT_def LOGIN_LOCKOUT_KEY_def auth_key_def)

lemma lock_keys_ne:
  assumes "forTenant b env tn ids = Inr k" "forTenant b' env tn ids' = Inr k'"
    and "b \<in> lock_keys" "b' \<in> lock_keys" "kb_spec b \<noteq> kb_spec b' \<or> ids \<noteq> ids'"
  shows "k \<noteq> k'"
proof -
  have "valid_spec (kb_spec x)" if "x \<in> lock_keys" for x
    using that valid_auth_keys by (auto simp: lock_keys_def)
  then show ?thesis using tenant_key_inj [OF assms(1)] assms(2-5) by metis
qed

lemma lock_key_built:
  assumes "b \<in> lock_keys" "isTenantId tn" "\<forall>i \<in> set ids. i \<noteq> []"
    and "is_segment (ks_app (resolveKeyspaceSettings env))" "is_segment (ks_env (resolveKeyspaceSettings env))"
  shows "\<exists>k. forTenant b env tn ids = Inr k"
proof -
  have "kb_fixed b = None" using assms(1)
    by (auto simp: lock_keys_def LOGIN_IP_RATE_LIMIT_def LOGIN_EMAIL_RATE_LIMIT_def LOGIN_LOCKOUT_KEY_def auth_key_def)
  moreover have "\<exists>xs. escape_all ids = Inr xs" using assms(3)
    by (induction ids) (auto simp: escapeKeyId_def)
  moreover have "tn \<noteq> []" using assms(2) isTenantId_nonempty by blast
  ultimately show ?thesis using assms(2,4,5)
    by (auto simp: forTenant_def build_def kb_settings_def assertSegment_def escapeKeyId_def)
qed

text \<open>What the failures \<open>hs\<close> of one email left in the store.\<close>

definition lock_state ::
  "nat \<Rightarrow> nat \<Rightarrow> (string \<Rightarrow> string option) \<Rightarrow> string \<Rightarrow> string \<Rightarrow> redis_db \<Rightarrow> (nat \<times> string) list \<Rightarrow> bool" where
  "lock_state t0 e env tn em db hs \<longleftrightarrow>
     (\<forall>ip k. forTenant LOGIN_IP_RATE_LIMIT env tn [em, ip] = Inr k \<longrightarrow> counts t0 e db k (ip_failures ip hs))
     \<and> (\<forall>ip k. forTenant LOGIN_LOCKOUT_KEY env tn [''ip'', em, ip] = Inr k \<longrightarrow>
          marks t0 e db k (LOCKOUT_MAX_ATTEMPTS \<le> ip_failures ip hs))
     \<and> (\<forall>k. forTenant LOGIN_EMAIL_RATE_LIMIT env tn [em] = Inr k \<longrightarrow> counts t0 e db k (length hs))
     \<and> (\<forall>k. forTenant LOGIN_LOCKOUT_KEY env tn [''email'', em] = Inr k \<longrightarrow>
          marks t0 e db k (LOCKOUT_EMAIL_MAX \<le> length hs))"

lemma lock_state_Nil:
  assumes "\<forall>b \<in> lock_keys. \<forall>ids k. forTenant b env tn ids = Inr k \<longrightarrow> live t0 db k = None"
  shows "lock_state t0 e env tn em db []"
  using assms by (auto simp: lock_state_def lock_keys_def counts_def marks_def ip_failures_def
    LOCKOUT_MAX_ATTEMPTS_def LOCKOUT_EMAIL_MAX_def)

lemma lock_state_snoc:
  assumes st: "lock_state t0 e env tn em db hs"
    and k: "forTenant LOGIN_IP_RATE_LIMIT env tn [em, ip] = Inr cI" "forTenant LOGIN_LOCKOUT_KEY env tn [''ip'', em, ip] = Inr mI"
      "forTenant LOGIN_EMAIL_RATE_LIMIT env tn [em] = Inr cE" "forTenant LOGIN_LOCKOUT_KEY env tn [''email'', em] = Inr mE"
    and r1: "counts t0 e db1 cI (Suc (ip_failures ip hs))"
      "marks t0 e db1 mI (LOCKOUT_MAX_ATTEMPTS \<le> Suc (ip_failures ip hs))"
      "\<forall>j. j \<noteq> cI \<and> j \<noteq> mI \<longrightarrow> db1 j = db j"
    and r2: "counts t0 e db2 cE (Suc (length hs))" "marks t0 e db2 mE (LOCKOUT_EMAIL_MAX \<le> Suc (length hs))"
      "\<forall>j. j \<noteq> cE \<and> j \<noteq> mE \<longrightarrow> db2 j = db1 j"
  shows "lock_state t0 e env tn em db2 (hs @ [(t, ip)])"
proof -
  have m: "LOGIN_IP_RATE_LIMIT \<in> lock_keys" "LOGIN_EMAIL_RATE_LIMIT \<in> lock_keys" "LOGIN_LOCKOUT_KEY \<in> lock_keys"
    by (simp_all add: lock_keys_def)
  have same: "db2 j = (if x = ip then db1 j else db j)" if "b \<in> lock_keys"
    "forTenant b env tn ids = Inr j" "kb_spec b = kb_spec LOGIN_IP_RATE_LIMIT \<and> ids = [em, x]
      \<or> kb_spec b = kb_spec LOGIN_LOCKOUT_KEY \<and> ids = [''ip'', em, x]" for b ids x j
  proof -
    have "j \<noteq> cE" "j \<noteq> mE" "x \<noteq> ip \<longrightarrow> j \<noteq> cI \<and> j \<noteq> mI"
      using lock_keys_ne [OF that(2) k(3) that(1) m(2)] lock_keys_ne [OF that(2) k(4) that(1) m(3)]
        lock_keys_ne [OF that(2) k(1) that(1) m(1)] lock_keys_ne [OF that(2) k(2) that(1) m(3)] that(3) lock_keys_differ
      by auto
    then show ?thesis using r1(3) r2(3) by auto
  qed
  have f: "ip_failures x (hs @ [(t, ip)]) = (if x = ip then Suc (ip_failures x hs) else ip_failures x hs)" for x
    by (simp add: ip_failures_def)
  have "counts t0 e db2 j (ip_failures x (hs @ [(t, ip)]))"
    if j: "forTenant LOGIN_IP_RATE_LIMIT env tn [em, x] = Inr j" for x j
  proof -
    have "counts t0 e db j (ip_failures x hs)" using st j by (simp add: lock_state_def)
    then show ?thesis using j same [OF m(1) j] r1(1) k(1) f counts_other [of t0 e db1 j _ db2] counts_other [of t0 e db j _ db2]
      by (cases "x = ip") auto
  qed
  moreover have "marks t0 e db2 j (LOCKOUT_MAX_ATTEMPTS \<le> ip_failures x (hs @ [(t, ip)]))"
    if j: "forTenant LOGIN_LOCKOUT_KEY env tn [''ip'', em, x] = Inr j" for x j
  proof -
    have "marks t0 e db j (LOCKOUT_MAX_ATTEMPTS \<le> ip_failures x hs)" using st j by (simp add: lock_state_def)
    then show ?thesis using j same [OF m(3) j] r1(2) k(2) f marks_other [of t0 e db1 j _ db2] marks_other [of t0 e db j _ db2]
      by (cases "x = ip") auto
  qed
  ultimately show ?thesis unfolding lock_state_def using r2(1,2) k(3,4) by simp
qed

lemma recordFailure_state:
  fixes base :: "('r \<times> nat) auth_deps" and exec :: "'r redis_exec"
  defines "d \<equiv> over_redis exec (\<lambda>t. t) base"
  assumes srv: "redis_server exec pipe view" "answering exec view"
    and keys: "isTenantId tn" "to_lower em \<noteq> []" "ip \<noteq> []"
      "is_segment (ks_app (resolveKeyspaceSettings (ax_env base)))"
      "is_segment (ks_env (resolveKeyspaceSettings (ax_env base)))"
    and st: "lock_state t0 e (ax_env base) tn (to_lower em) (view r) hs"
    and t: "t0 \<le> t" "t < e" "e = t0 + 1000 * LOCKOUT_WINDOW_S"
  shows "\<exists>r'. recordFailure d tn em ip (r, t) = (Inr (), r', t)
    \<and> lock_state t0 e (ax_env base) tn (to_lower em) (view r') (hs @ [(t, ip)])"
proof -
  let ?env = "ax_env base" and ?em = "to_lower em"
  have m: "LOGIN_IP_RATE_LIMIT \<in> lock_keys" "LOGIN_EMAIL_RATE_LIMIT \<in> lock_keys" "LOGIN_LOCKOUT_KEY \<in> lock_keys"
    by (simp_all add: lock_keys_def)
  have b: "\<exists>k. forTenant x ?env tn ids = Inr k" if "x \<in> lock_keys" "\<forall>i \<in> set ids. i \<noteq> []" for x ids
    using lock_key_built [OF that(1) keys(1) that(2) keys(4,5)] .
  obtain cI mI cE mE where k: "forTenant LOGIN_IP_RATE_LIMIT ?env tn [?em, ip] = Inr cI"
    "forTenant LOGIN_LOCKOUT_KEY ?env tn [''ip'', ?em, ip] = Inr mI"
    "forTenant LOGIN_EMAIL_RATE_LIMIT ?env tn [?em] = Inr cE"
    "forTenant LOGIN_LOCKOUT_KEY ?env tn [''email'', ?em] = Inr mE"
    using b [OF m(1), of "[?em, ip]"] b [OF m(3), of "[''ip'', ?em, ip]"] b [OF m(2), of "[?em]"]
      b [OF m(3), of "[''email'', ?em]"] keys(2,3) by auto
  have ne: "x \<noteq> y" if "forTenant p ?env tn i = Inr x" "forTenant q ?env tn j = Inr y" "p \<in> lock_keys" "q \<in> lock_keys"
    "kb_spec p \<noteq> kb_spec q \<or> i \<noteq> j" for x y p q i j
    using lock_keys_ne [OF that] .
  have "counts t0 e (view r) cI (ip_failures ip hs)" "marks t0 e (view r) mI (LOCKOUT_MAX_ATTEMPTS \<le> ip_failures ip hs)"
    "cI \<noteq> mI" using st k ne [OF k(1,2) m(1,3)] lock_keys_differ by (auto simp: lock_state_def)
  from countFailure_counts [OF srv IP_POLICY_def _ _ this t(1,2), of base] t
  obtain r1 where r1: "countFailure d cI IP_POLICY mI (r, t) = (Inr (), r1, t)"
    "counts t0 e (view r1) cI (Suc (ip_failures ip hs))"
    "marks t0 e (view r1) mI (LOCKOUT_MAX_ATTEMPTS \<le> Suc (ip_failures ip hs))"
    "\<forall>j. j \<noteq> cI \<and> j \<noteq> mI \<longrightarrow> view r1 j = view r j"
    by (auto simp: d_def LOCKOUT_MAX_ATTEMPTS_def LOCKOUT_WINDOW_S_def)
  have "view r1 cE = view r cE" "view r1 mE = view r mE"
    using r1(4) ne [OF k(3,1) m(2,1)] ne [OF k(3,2) m(2,3)] ne [OF k(4,1) m(3,1)] ne [OF k(4,2) m(3,3)]
      lock_keys_differ by auto
  then have "counts t0 e (view r1) cE (length hs)" "marks t0 e (view r1) mE (LOCKOUT_EMAIL_MAX \<le> length hs)"
    "cE \<noteq> mE" using st k ne [OF k(3,4) m(2,3)] lock_keys_differ
    by (auto simp: lock_state_def intro: counts_other marks_other)
  from countFailure_counts [OF srv EMAIL_POLICY_def _ _ this t(1,2), of base] t
  obtain r2 where r2: "countFailure d cE EMAIL_POLICY mE (r1, t) = (Inr (), r2, t)"
    "counts t0 e (view r2) cE (Suc (length hs))" "marks t0 e (view r2) mE (LOCKOUT_EMAIL_MAX \<le> Suc (length hs))"
    "\<forall>j. j \<noteq> cE \<and> j \<noteq> mE \<longrightarrow> view r2 j = view r1 j"
    by (auto simp: d_def LOCKOUT_EMAIL_MAX_def LOCKOUT_WINDOW_S_def)
  have run: "recordFailure d tn em ip (r, t) = (Inr (), r2, t)"
    using k r1(1) r2(1)
    by (simp add: recordFailure_def Let_def andThen_def key_effs keyed_def lockout_ip_key_def lockout_email_key_def d_def)
  show ?thesis using run lock_state_snoc [OF st k r1(2-4) r2(2-4)] by blast
qed

text \<open>Failed logins of one email, each at its time and from its address.\<close>

fun failed_logins ::
  "('r \<times> nat) auth_deps \<Rightarrow> string \<Rightarrow> string \<Rightarrow> (nat \<times> string) list \<Rightarrow> 'r \<Rightarrow> 'r" where
  "failed_logins d tn em [] r = r"
| "failed_logins d tn em ((t, ip) # hs) r =
     failed_logins d tn em hs (fst (snd (recordFailure d tn em ip (r, t))))"

lemma failed_logins_state:
  fixes base :: "('r \<times> nat) auth_deps" and exec :: "'r redis_exec"
  assumes srv: "redis_server exec pipe view" "answering exec view"
    and keys: "isTenantId tn" "to_lower em \<noteq> []"
      "is_segment (ks_app (resolveKeyspaceSettings (ax_env base)))"
      "is_segment (ks_env (resolveKeyspaceSettings (ax_env base)))"
    and hs: "\<forall>(t, x) \<in> set hs. t0 \<le> t \<and> t < e \<and> x \<noteq> []" and e: "e = t0 + 1000 * LOCKOUT_WINDOW_S"
    and st: "lock_state t0 e (ax_env base) tn (to_lower em) (view r) gs"
  shows "lock_state t0 e (ax_env base) tn (to_lower em)
    (view (failed_logins (over_redis exec (\<lambda>t. t) base) tn em hs r)) (gs @ hs)"
  using hs st
proof (induction hs arbitrary: r gs)
  case (Cons h hs)
  obtain t ip where h: "h = (t, ip)" by force
  with Cons.prems(1) have t: "t0 \<le> t" "t < e" "ip \<noteq> []" by auto
  from recordFailure_state [OF srv keys(1,2) t(3) keys(3,4) Cons.prems(2) t(1,2) e]
  obtain r' where r': "recordFailure (over_redis exec (\<lambda>t. t) base) tn em ip (r, t) = (Inr (), r', t)"
    "lock_state t0 e (ax_env base) tn (to_lower em) (view r') (gs @ [(t, ip)])" by blast
  show ?case using Cons.IH [OF _ r'(2)] Cons.prems(1) r'(1) h by simp
qed simp

lemma assertNotLocked_state:
  fixes base :: "('r \<times> nat) auth_deps" and exec :: "'r redis_exec"
  assumes srv: "redis_server exec pipe view" "answering exec view"
    and keys: "isTenantId tn" "to_lower em \<noteq> []" "ip \<noteq> []"
      "is_segment (ks_app (resolveKeyspaceSettings (ax_env base)))"
      "is_segment (ks_env (resolveKeyspaceSettings (ax_env base)))"
    and st: "lock_state t0 e (ax_env base) tn (to_lower em) (view r) hs" and t: "t0 \<le> t" "t + 499 < e"
  shows "fst (assertNotLocked (over_redis exec (\<lambda>t. t) base) tn em ip (r, t)) =
    (if LOCKOUT_MAX_ATTEMPTS \<le> ip_failures ip hs \<or> LOCKOUT_EMAIL_MAX \<le> length hs then Inl login_locked else Inr ())"
proof -
  let ?env = "ax_env base" and ?em = "to_lower em"
  have m: "LOGIN_LOCKOUT_KEY \<in> lock_keys" by (simp add: lock_keys_def)
  obtain mI mE where k: "forTenant LOGIN_LOCKOUT_KEY ?env tn [''ip'', ?em, ip] = Inr mI"
    "forTenant LOGIN_LOCKOUT_KEY ?env tn [''email'', ?em] = Inr mE"
    using lock_key_built [OF m keys(1) _ keys(4,5), of "[''ip'', ?em, ip]"]
      lock_key_built [OF m keys(1) _ keys(4,5), of "[''email'', ?em]"] keys(2,3) by auto
  obtain r1 where r1: "kv_exists exec t mI r = (Inr (live t (view r) mI \<noteq> None), r1)" "view r1 = view r"
    using kv_exists_answers [OF srv] by blast
  obtain r2 where r2: "kv_exists exec t mE r1 = (Inr (live t (view r1) mE \<noteq> None), r2)"
    using kv_exists_answers [OF srv] by blast
  have "live t (view r) mI \<noteq> None \<longleftrightarrow> LOCKOUT_MAX_ATTEMPTS \<le> ip_failures ip hs"
    "live t (view r) mE \<noteq> None \<longleftrightarrow> LOCKOUT_EMAIL_MAX \<le> length hs"
    using st k marks_live [OF _ t] by (auto simp: lock_state_def)
  then show ?thesis
    using k r1 r2 by (simp add: assertNotLocked_def Let_def andThen_def key_effs keyed_def lockout_ip_key_def
      lockout_email_key_def isMarked_def rescue_def on_fst_def unless_def)
qed

text \<open>C31: Within a window that starts with no counter of the email live, and while the store
  answers, logins of the email from an address are locked out exactly from its fifth failure on,
  and from every address from the thirtieth failure on: never earlier, and no change of
  address or letter case resets the count. The last half second of the window is left out: the
  marker's TTL is the counter's rounded to seconds.\<close>

theorem login_lockout_threshold:
  fixes base :: "('r \<times> nat) auth_deps" and exec :: "'r redis_exec"
  assumes srv: "redis_server exec pipe view" "answering exec view"
    and keys: "isTenantId tn" "to_lower em \<noteq> []" "ip \<noteq> []"
      "is_segment (ks_app (resolveKeyspaceSettings (ax_env base)))"
      "is_segment (ks_env (resolveKeyspaceSettings (ax_env base)))"
    and fresh: "\<forall>b \<in> lock_keys. \<forall>ids k. forTenant b (ax_env base) tn ids = Inr k \<longrightarrow> live t0 (view r) k = None"
    and times: "\<forall>(t, x) \<in> set hs. t0 \<le> t \<and> t < t0 + 900000 \<and> x \<noteq> []" "t0 \<le> t" "t + 499 < t0 + 900000"
    and same: "to_lower em' = to_lower em"
  shows "fst (assertNotLocked (over_redis exec (\<lambda>t. t) base) tn em' ip
      (failed_logins (over_redis exec (\<lambda>t. t) base) tn em hs r, t)) =
    (if 5 \<le> length (filter (\<lambda>h. snd h = ip) hs) \<or> 30 \<le> length hs then Inl login_locked else Inr ())"
proof -
  have e: "t0 + 900000 = t0 + 1000 * LOCKOUT_WINDOW_S" by (simp add: LOCKOUT_WINDOW_S_def)
  note st = failed_logins_state [OF srv keys(1,2,4,5) times(1) e lock_state_Nil [OF fresh], simplified]
  have "to_lower em' \<noteq> []" using keys(2) same by simp
  from assertNotLocked_state [OF srv keys(1) this keys(3-5) st [folded same] times(2,3)]
  show ?thesis by (simp add: ip_failures_def LOCKOUT_MAX_ATTEMPTS_def LOCKOUT_EMAIL_MAX_def)
qed

text \<open>The small deployment with nothing but its clock beside Redis.\<close>

definition clock_base :: "(redis_db \<times> nat) auth_deps" where
  "clock_base =
     \<lparr>ax_env = (\<lambda>_. None), ax_secret = ''k'', ax_now = snd, ax_first = (\<lambda>_. True),
      ax_kvGet = (\<lambda>_. ret None), ax_kvSet = (\<lambda>_ _ _. ret ()), ax_kvDel = (\<lambda>_. ret False),
      ax_kvExists = (\<lambda>_. ret False), ax_hit = (\<lambda>_ _. raise (app_error RATE_LIMITED)),
      ax_findTenant = (\<lambda>t. ret (Some \<lparr>tr_id = t, tr_name = t, tr_status = TenantActive, tr_selfSignup = False\<rparr>)),
      ax_findMember = (\<lambda>_ _. ret None), ax_findByEmail = (\<lambda>t e. ret (if e = ''a@x'' then Some alice else None)),
      ax_findById = (\<lambda>_ _. ret None), ax_recordLogin = (\<lambda>_ _. ret ()), ax_bcrypt = (\<lambda>p h. ret (p = h)),
      ax_uuid = ret ''id'', ax_jwtSign = (\<lambda>_. ret ''jwt''), ax_jwtVerify = (\<lambda>_ _ _. None),
      ax_sha256 = (\<lambda>s. s), ax_hmac = (\<lambda>k m. m), ax_stringify = (\<lambda>_. ''value''), ax_parse = (\<lambda>_. None),
      ax_toBase64url = (\<lambda>s. s), ax_fromBase64url = (\<lambda>s. s)\<rparr>"

lemma clock_keys:
  "isTenantId ''acme''" "is_segment (ks_app (resolveKeyspaceSettings (ax_env clock_base)))"
  "is_segment (ks_env (resolveKeyspaceSettings (ax_env clock_base)))" "to_lower ''A@x'' = to_lower ''a@x''"
  by code_simp+

lemma login_lockout_threshold_witness:
  "fst (assertNotLocked (over_redis sure_exec (\<lambda>t. t) clock_base) ''acme'' ''A@x'' ''::1''
     (failed_logins (over_redis sure_exec (\<lambda>t. t) clock_base) ''acme'' ''a@x''
        [(10, ''::1''), (20, ''::1''), (30, ''::2''), (40, ''::1''), (50, ''::1''), (60, ''::1'')] (\<lambda>_. None), 70))
   = Inl login_locked"
  using login_lockout_threshold [OF sure.redis_server_axioms sure_exec_answering clock_keys(1) _ _ clock_keys(2,3),
    of "''a@x''" "''::1''" 0 "\<lambda>_. None" "[(10, ''::1''), (20, ''::1''), (30, ''::2''), (40, ''::1''), (50, ''::1''), (60, ''::1'')]"
      70 "''A@x''"] clock_keys(4)
  by (simp add: store_simps to_lower_def)

lemma login_passes_every_check_witness:
  "\<exists>w2. assertNotLocked (over_redis sure_exec (\<lambda>t. t) clock_base) ''acme'' ''a@x'' ''::1'' (\<lambda>_. None, 7) = (Inr (), w2)"
proof -
  let ?d = "over_redis sure_exec (\<lambda>t. t) clock_base"
  have k: "forTenant LOGIN_LOCKOUT_KEY (\<lambda>_. None) ''acme'' [''ip'', ''a@x'', ''::1''] =
      Inr ''tropis:development:t.acme:kv:auth:login-lockout:v1:ip:a%40x:%3A%3A1''"
    "forTenant LOGIN_LOCKOUT_KEY (\<lambda>_. None) ''acme'' [''email'', ''a@x''] =
      Inr ''tropis:development:t.acme:kv:auth:login-lockout:v1:email:a%40x''" "to_lower ''a@x'' = ''a@x''"
    by code_simp+
  have "\<exists>w'. authenticate ?d ''acme'' \<lparr>ld_email = ''a@x'', ld_password = ''secret''\<rparr> ''::1'' (\<lambda>_. None, 7) = (Inr alice, w')"
    by (simp add: clock_base_def authenticate_def andThen_def unless_def assertNotLocked_def lockout_reset_def Let_def
      lockout_ip_key_def lockout_email_key_def key_effs keyed_def k isMarked_def rescue_def on_fst_def
      kv_exists_def kv_del_def sure_exec_def redis_del_def live_def live_entry_def alice_def)
  then obtain w' where "authenticate ?d ''acme'' \<lparr>ld_email = ''a@x'', ld_password = ''secret''\<rparr> ''::1'' (\<lambda>_. None, 7) = (Inr alice, w')"
    by blast
  from login_passes_every_check [OF this] show ?thesis by (auto simp: clock_base_def)
qed

lemma login_failures_look_alike_witness:
  "fst (authenticate (clock_base\<lparr>ax_findTenant := (\<lambda>_. ret None)\<rparr>) ''nowhere'' \<lparr>ld_email = ''a@x'', ld_password = ''pw''\<rparr> ''::1'' (\<lambda>_. None, 7))
   = Inl (app_error AUTH_INVALID_CREDENTIALS)"
proof -
  let ?d = "clock_base\<lparr>ax_findTenant := (\<lambda>_. ret None)\<rparr>" and ?dto = "\<lparr>ld_email = ''a@x'', ld_password = ''pw''\<rparr>"
  have k: "\<exists>k. forTenant LOGIN_LOCKOUT_KEY (\<lambda>_. None) ''nowhere'' [''ip'', ''a@x'', ''::1''] = Inr k"
    "\<exists>k. forTenant LOGIN_LOCKOUT_KEY (\<lambda>_. None) ''nowhere'' [''email'', ''a@x''] = Inr k"
    "\<exists>k. forTenant LOGIN_IP_RATE_LIMIT (\<lambda>_. None) ''nowhere'' [''a@x'', ''::1''] = Inr k"
    "\<exists>k. forTenant LOGIN_EMAIL_RATE_LIMIT (\<lambda>_. None) ''nowhere'' [''a@x''] = Inr k"
    using clock_keys(2,3) by (intro lock_key_built; simp add: lock_keys_def clock_base_def; code_simp)+
  have l: "to_lower ''a@x'' = ''a@x''" by code_simp
  have "assertNotLocked ?d ''nowhere'' (ld_email ?dto) ''::1'' (\<lambda>_. None, 7) = (Inr (), \<lambda>_. None, 7)"
    "recordFailure ?d ''nowhere'' (ld_email ?dto) ''::1'' (\<lambda>_. None, 7) = (Inr (), \<lambda>_. None, 7)"
    using k by (auto simp: clock_base_def assertNotLocked_def recordFailure_def countFailure_def rescue_def andThen_def
      Let_def lockout_ip_key_def lockout_email_key_def key_effs keyed_def l isMarked_def unless_def)
  from login_failures_look_alike [OF _ this(1) _ _ this(2), where r = None and user = "Some alice"] show ?thesis
    by (auto simp: clock_base_def alice_def)
qed

end
