(* ===== verification/OAuth.thy ===== *)
theory OAuth
  imports Login
begin

text \<open>
  Sign-in with a provider and the delivery of sessions: \<open>modules/auth/strategies/oauth-state.store.ts\<close>,
  \<open>services/oauth.service.ts\<close>, \<open>cookies/refresh-cookie.ts\<close>, \<open>guards/{cookie-csrf,native-client,logout-actor}.guard.ts\<close>,
  \<open>controllers/auth.controller.ts\<close>, \<open>config/cors.constants.ts\<close> and \<open>packages/shared/src/http/native-clients.ts\<close>.
  Parameters beside those of the authentication service: \<open>decodeURIComponent\<close>, \<open>Number\<close> on a string,
  the base64url digests and random bytes of Node's crypto, and the sign-up command.
\<close>

subsection \<open>Cookies\<close>

definition REFRESH_COOKIE :: string where "REFRESH_COOKIE = ''tropis_rt''"
definition REFRESH_COOKIE_PATH :: string where "REFRESH_COOKIE_PATH = ''/api/auth''"
definition CLIENT_HEADER :: string where "CLIENT_HEADER = ''x-tropis-client''"
definition OAUTH_STATE_COOKIE :: string where "OAUTH_STATE_COOKIE = ''tropis_oauth_state''"
definition OAUTH_STATE_TTL_SECONDS :: nat where "OAUTH_STATE_TTL_SECONDS = 600"

text \<open>The first part of the header named \<open>name\<close>; a value that does not decode is \<open>undefined\<close>.\<close>

fun cookie_part :: "(string \<Rightarrow> string option) \<Rightarrow> string \<Rightarrow> string list \<Rightarrow> string option" where
  "cookie_part decode name [] = None"
| "cookie_part decode name (part # parts) =
     (case split_on CHR ''='' (js_trim part) of
        [] \<Rightarrow> cookie_part decode name parts
      | key # rest \<Rightarrow>
          if key = name then decode (join_with CHR ''='' rest) else cookie_part decode name parts)"

definition readCookie :: "(string \<Rightarrow> string option) \<Rightarrow> string option \<Rightarrow> string \<Rightarrow> string option" where
  "readCookie decode header name =
     (case nonempty header of
        None \<Rightarrow> None
      | Some h \<Rightarrow> cookie_part decode name (split_on CHR '';'' h))"

text \<open>\<open>COOKIE_SECURE\<close> as the validated config gives it: a boolean or a string.\<close>

definition cookieSecure :: "json option \<Rightarrow> string option \<Rightarrow> bool" where
  "cookieSecure explicit env =
     (if explicit \<noteq> None \<and> explicit \<noteq> Some (JStr []) then explicit = Some (JBool True) \<or> explicit = Some (JStr ''true'')
      else env \<noteq> Some ''development'' \<and> env \<noteq> Some ''test'')"

record set_cookie =
  ck_name :: string
  ck_value :: string
  ck_httpOnly :: bool
  ck_sameSite :: string
  ck_secure :: bool
  ck_path :: string
  ck_maxAge :: nat

definition setRefreshCookie :: "string \<Rightarrow> bool \<Rightarrow> set_cookie" where
  "setRefreshCookie token secure =
     \<lparr>ck_name = REFRESH_COOKIE, ck_value = token, ck_httpOnly = True, ck_sameSite = ''strict'', ck_secure = secure,
      ck_path = REFRESH_COOKIE_PATH, ck_maxAge = REFRESH_TOKEN_TTL_SECONDS * 1000\<rparr>"

definition clearRefreshCookie :: "bool \<Rightarrow> set_cookie" where
  "clearRefreshCookie secure =
     \<lparr>ck_name = REFRESH_COOKIE, ck_value = [], ck_httpOnly = True, ck_sameSite = ''strict'', ck_secure = secure,
      ck_path = REFRESH_COOKIE_PATH, ck_maxAge = 0\<rparr>"

definition refreshCookieOf :: "(string \<Rightarrow> string option) \<Rightarrow> string option \<Rightarrow> string option" where
  "refreshCookieOf decode header = nonempty (readCookie decode header REFRESH_COOKIE)"

subsection \<open>Origins and session clients\<close>

definition NATIVE_CLIENT_HEADER_VALUE :: string where "NATIVE_CLIENT_HEADER_VALUE = ''native''"
definition DEFAULT_NATIVE_OAUTH_REDIRECT :: string where
  "DEFAULT_NATIVE_OAUTH_REDIRECT = ''tropis://auth/callback''"
definition DEFAULT_CORS_ORIGIN :: string where "DEFAULT_CORS_ORIGIN = ''http://localhost:5173''"

definition NATIVE_SESSION_ORIGINS :: "string list" where
  "NATIVE_SESSION_ORIGINS = [''tauri://localhost'', ''http://tauri.localhost'', ''capacitor://localhost'', ''https://localhost'']"

definition NATIVE_APP_ORIGINS :: "string list" where
  "NATIVE_APP_ORIGINS =
     [''tauri://localhost'', ''http://tauri.localhost'', ''capacitor://localhost'', ''http://localhost'', ''https://localhost'']"

text \<open>A comma-separated setting, and \<open>[...new Set(...)]\<close>: the first occurrence of each value.\<close>

definition setting_parts :: "string \<Rightarrow> string list" where
  "setting_parts s = map js_trim (split_on CHR '','' s)"

fun js_unique :: "string list \<Rightarrow> string list" where
  "js_unique [] = []"
| "js_unique (x # xs) = x # js_unique (filter (\<lambda>y. y \<noteq> x) xs)"

definition corsOriginList :: "string option \<Rightarrow> string list" where
  "corsOriginList value =
     js_unique (filter (\<lambda>o'. o' \<noteq> []) (setting_parts (option_or value DEFAULT_CORS_ORIGIN)) @ NATIVE_APP_ORIGINS)"

definition primaryWebOrigin :: "string option \<Rightarrow> string" where
  "primaryWebOrigin value = (case corsOriginList value of [] \<Rightarrow> DEFAULT_CORS_ORIGIN | o' # _ \<Rightarrow> o')"

definition isNativeSessionOrigin :: "string option \<Rightarrow> string option \<Rightarrow> bool" where
  "isNativeSessionOrigin origin corsOrigin =
     (case nonempty origin of
        None \<Rightarrow> False
      | Some o' \<Rightarrow>
          o' \<in> set NATIVE_SESSION_ORIGINS \<and> o' \<notin> set (setting_parts (option_or corsOrigin DEFAULT_CORS_ORIGIN)))"

definition nativeOAuthRedirectList :: "string option \<Rightarrow> string list" where
  "nativeOAuthRedirectList value =
     filter (\<lambda>v. v \<noteq> []) (setting_parts (option_or value DEFAULT_NATIVE_OAUTH_REDIRECT))"

datatype session_client = WebClient | NativeClient

definition sessionClientOf :: "string option \<Rightarrow> 'a http_request_scheme \<Rightarrow> thrown + session_client" where
  "sessionClientOf corsOrigin req =
     (if header_first (req_headers req CLIENT_HEADER) \<noteq> Some NATIVE_CLIENT_HEADER_VALUE then Inr WebClient
      else if \<not> isNativeSessionOrigin (header_first (req_headers req ''origin'')) corsOrigin
      then Inl (app_error AUTH_CSRF_REJECTED)
      else Inr NativeClient)"

definition native_client_guard :: "string option \<Rightarrow> 'a http_request_scheme \<Rightarrow> thrown + bool" where
  "native_client_guard corsOrigin req =
     (case sessionClientOf corsOrigin req of
        Inl e \<Rightarrow> Inl e
      | Inr c \<Rightarrow> if c \<noteq> NativeClient then Inl (app_error AUTH_CSRF_REJECTED) else Inr True)"

definition SAME_SITE_FETCH :: "string list" where
  "SAME_SITE_FETCH = [''same-origin'', ''same-site'']"

definition fromAllowedOrigin :: "string option \<Rightarrow> 'a http_request_scheme \<Rightarrow> bool" where
  "fromAllowedOrigin corsOrigin req =
     (case nonempty (header_first (req_headers req ''origin'')) of
        Some o' \<Rightarrow> o' \<in> set (corsOriginList corsOrigin)
      | None \<Rightarrow>
          (case header_first (req_headers req ''sec-fetch-site'') of
             None \<Rightarrow> False
           | Some site \<Rightarrow> site \<in> set SAME_SITE_FETCH))"

definition cookie_csrf_guard :: "string option \<Rightarrow> 'a http_request_scheme \<Rightarrow> thrown + bool" where
  "cookie_csrf_guard corsOrigin req =
     (if header_first (req_headers req CLIENT_HEADER) \<noteq> Some ''1'' \<or> \<not> fromAllowedOrigin corsOrigin req
      then Inl (app_error AUTH_CSRF_REJECTED) else Inr True)"

subsection \<open>The signed state\<close>

text \<open>What \<open>Number(s)\<close> answers.\<close>

datatype js_number = NaN | NegInfinity | Infinity | Finite rat

record state_store =
  ss_secret :: string
  ss_redirects :: "string list"
  ss_hmac :: "string \<Rightarrow> string \<Rightarrow> string"
  ss_toBase64url :: "string \<Rightarrow> string"
  ss_fromBase64url :: "string \<Rightarrow> string"
  ss_number :: "string \<Rightarrow> js_number"
  ss_decode :: "string \<Rightarrow> string option"

definition is_base64url :: "char \<Rightarrow> bool" where
  "is_base64url c \<longleftrightarrow> is_alnum c \<or> c = CHR ''_'' \<or> c = CHR ''-''"

definition challenge_pattern :: "string \<Rightarrow> bool" where
  "challenge_pattern s \<longleftrightarrow> length s = 43 \<and> list_all is_base64url s"

definition state_cookie :: "bool \<Rightarrow> string \<Rightarrow> nat \<Rightarrow> string" where
  "state_cookie secure value maxAge =
     OAUTH_STATE_COOKIE @ ''='' @ encodeURIComponent value @ ''; Max-Age='' @ show_nat maxAge
     @ ''; Path=/api/auth; HttpOnly; SameSite=Lax'' @ (if secure then ''; Secure'' else [])"

definition state_sign :: "state_store \<Rightarrow> string \<Rightarrow> string" where
  "state_sign d payload = ss_hmac d (ss_secret d) (''oauth-state'' @ CHR 0x0A # payload)"

definition query_violation :: "string \<Rightarrow> string \<Rightarrow> thrown" where
  "query_violation name what = app_error_validation [\<lparr>field = name, description = what\<rparr>] None"

definition state_payload :: "state_store \<Rightarrow> string \<Rightarrow> nat \<Rightarrow> string \<Rightarrow> string option \<Rightarrow> string" where
  "state_payload d nonce expiry challenge redirect =
     join_with CHR ''.''
       ([nonce, show_nat expiry, challenge]
        @ (case redirect of None \<Rightarrow> [] | Some r \<Rightarrow> [ss_toBase64url d r]))"

text \<open>\<open>store\<close>: the state for the provider and the cookie for the browser, or the error. \<open>nonce\<close> is
  the base64url of sixteen random bytes.\<close>

definition state_begin ::
  "state_store \<Rightarrow> nat \<Rightarrow> string \<Rightarrow> bool \<Rightarrow> (string \<times> json) list option \<Rightarrow> thrown + string \<times> string" where
  "state_begin d now nonce secure query =
     (let challenge = js_prop (option_or query []) ''challenge''; redirect = js_prop (option_or query []) ''redirect'' in
      case (case redirect of
              None \<Rightarrow> Inr None
            | Some (JStr r) \<Rightarrow> if r \<in> set (ss_redirects d) then Inr (Some r) else Inl ()
            | _ \<Rightarrow> Inl ()) of
        Inl _ \<Rightarrow> Inl (query_violation ''redirect'' ''redirect must be one of the configured native callback URLs'')
      | Inr native \<Rightarrow>
          (case challenge of
             Some (JStr c) \<Rightarrow>
               if \<not> challenge_pattern c
               then Inl (query_violation ''challenge'' ''challenge must be base64url(SHA-256(verifier)), 43 characters'')
               else let payload = state_payload d nonce (now div 1000 + OAUTH_STATE_TTL_SECONDS) c native in
                 Inr (payload @ CHR ''.'' # state_sign d payload, state_cookie secure nonce OAUTH_STATE_TTL_SECONDS)
           | _ \<Rightarrow>
             Inl (query_violation ''challenge'' ''challenge must be base64url(SHA-256(verifier)), 43 characters'')))"

record verified_state =
  vs_challenge :: string
  vs_redirect :: "string option"

definition not_expired :: "js_number \<Rightarrow> nat \<Rightarrow> bool" where
  "not_expired n now = (case n of Infinity \<Rightarrow> True | Finite x \<Rightarrow> x * 1000 > of_nat now | _ \<Rightarrow> False)"

text \<open>The signed parts: nonce, expiry, challenge and perhaps the encoded redirect.\<close>

definition verified_parts :: "state_store \<Rightarrow> nat \<Rightarrow> string \<Rightarrow> string list \<Rightarrow> verified_state option" where
  "verified_parts d now ck rest =
     (case rest of
        nonce # expiry # challenge # tail \<Rightarrow>
          if \<not> not_expired (ss_number d expiry) now then None
          else if \<not> challenge_pattern challenge then None
          else if nonce \<noteq> ck then None
          else (case tail of
              [] \<Rightarrow> Some \<lparr>vs_challenge = challenge, vs_redirect = None\<rparr>
            | encoded # _ \<Rightarrow>
                (let redirect = ss_fromBase64url d encoded in
                 if redirect \<notin> set (ss_redirects d) then None
                 else Some \<lparr>vs_challenge = challenge, vs_redirect = Some redirect\<rparr>))
      | _ \<Rightarrow> None)"

definition verifiedState ::
  "state_store \<Rightarrow> nat \<Rightarrow> json option \<Rightarrow> string option \<Rightarrow> verified_state option" where
  "verifiedState d now state cookie =
     (case (state, nonempty cookie) of
        (Some (JStr s), Some ck) \<Rightarrow>
          (let parts = split_on CHR ''.'' s in
           if length parts \<notin> {4, 5} \<or> [] \<in> set parts then None
           else if last parts \<noteq> state_sign d (join_with CHR ''.'' (butlast parts)) then None
           else verified_parts d now ck (butlast parts))
      | _ \<Rightarrow> None)"

text \<open>\<open>verify\<close>: the cookie is cleared whatever the outcome; the challenge and the redirect are kept
  on the request.\<close>

definition state_verify ::
  "state_store \<Rightarrow> nat \<Rightarrow> bool \<Rightarrow> string option \<Rightarrow> json option \<Rightarrow> (thrown + verified_state) \<times> string" where
  "state_verify d now secure cookie_header state =
     ((case verifiedState d now state (readCookie (ss_decode d) cookie_header OAUTH_STATE_COOKIE) of
         Some v \<Rightarrow> Inr (v\<lparr>vs_redirect := nonempty (vs_redirect v)\<rparr>)
       | None \<Rightarrow> Inl (app_error OAUTH_STATE_INVALID)),
      state_cookie secure [] 0)"

subsection \<open>The provider flow\<close>

record oauth_profile =
  op_provider :: string
  op_providerId :: string
  op_email :: string
  op_name :: string
  op_emailVerified :: bool

record 'w oauth_deps = "'w auth_deps" +
  ox_tenant :: "string option"
  ox_sha256url :: "string \<Rightarrow> string"
  ox_code :: "('w, string) eff"
  ox_findByProvider :: "string \<Rightarrow> string \<Rightarrow> string \<Rightarrow> ('w, auth_user option) eff"
  ox_signUp :: "string \<Rightarrow> oauth_profile \<Rightarrow> string \<Rightarrow> ('w, auth_user) eff"

definition OAUTH_SIGNIN_CODE_KEY :: key_builder where
  "OAUTH_SIGNIN_CODE_KEY = auth_key ''kv'' ''auth'' ''oauth-signin-code''"

lemma OAUTH_SIGNIN_CODE_KEY_defined: "defineKey (kb_spec OAUTH_SIGNIN_CODE_KEY) = Inr OAUTH_SIGNIN_CODE_KEY"
  by code_simp

definition OAUTH_SIGNIN_CODE_TTL_SECONDS :: nat where "OAUTH_SIGNIN_CODE_TTL_SECONDS = 60"

definition verifier_pattern :: "string \<Rightarrow> bool" where
  "verifier_pattern s \<longleftrightarrow> 43 \<le> length s \<and> length s \<le> 128 \<and> list_all is_base64url s"

definition codeKey :: "('w, 'm) oauth_deps_scheme \<Rightarrow> string \<Rightarrow> ('w, string) eff" where
  "codeKey d c = global_key d OAUTH_SIGNIN_CODE_KEY [ax_sha256 d c]"

definition oauth_tenant :: "('w, 'm) oauth_deps_scheme \<Rightarrow> thrown + string" where
  "oauth_tenant d =
     (case nonempty (ox_tenant d) of
        None \<Rightarrow> Inl (app_error TENANT_REQUIRED)
      | Some raw \<Rightarrow> if \<not> isTenantId raw then Inl (app_error TENANT_INVALID) else Inr raw)"

definition oauth_create ::
  "('w, 'm) oauth_deps_scheme \<Rightarrow> oauth_profile \<Rightarrow> string \<Rightarrow> string \<Rightarrow> ('w, auth_user) eff" where
  "oauth_create d profile clientIp tenant =
     andThen (ax_findByEmail d tenant (op_email profile)) (\<lambda>existing.
     if existing \<noteq> None then raise (app_error OAUTH_ACCOUNT_EXISTS)
     else rescue (ox_signUp d tenant profile clientIp) (\<lambda>err.
       raise (case err of
           AppError USER_ALREADY_EXISTS _ _ _ _ \<Rightarrow> app_error_cause OAUTH_ACCOUNT_EXISTS err
         | _ \<Rightarrow> err)))"

definition findOrCreate ::
  "('w, 'm) oauth_deps_scheme \<Rightarrow> oauth_profile \<Rightarrow> string \<Rightarrow> string \<Rightarrow> ('w, auth_user) eff" where
  "findOrCreate d profile clientIp tenant =
     andThen (auth_assertTenantActive d tenant) (\<lambda>_.
     andThen (ox_findByProvider d tenant (op_provider profile) (op_providerId profile)) (\<lambda>existing.
     andThen (case existing of Some u \<Rightarrow> ret u | None \<Rightarrow> oauth_create d profile clientIp tenant) (\<lambda>account.
     if au_status account \<noteq> UserActive then raise (app_error AUTH_ACCOUNT_INACTIVE) else ret account)))"

definition client_name :: "session_client \<Rightarrow> string" where
  "client_name c = (case c of WebClient \<Rightarrow> ''web'' | NativeClient \<Rightarrow> ''native'')"

definition signIn ::
  "('w, 'm) oauth_deps_scheme \<Rightarrow> oauth_profile \<Rightarrow> string \<Rightarrow> string \<Rightarrow> session_client \<Rightarrow> ('w, string) eff" where
  "signIn d profile clientIp challenge client =
     andThen (lift (oauth_tenant d)) (\<lambda>tenant.
     if \<not> challenge_pattern challenge then raise (app_error OAUTH_STATE_INVALID)
     else
       andThen (findOrCreate d profile clientIp tenant) (\<lambda>user.
       andThen (ox_code d) (\<lambda>fresh.
       andThen (codeKey d fresh) (\<lambda>k.
       andThen (ax_kvSet d k
         (Some (JObj [(''tenantId'', JStr tenant), (''userId'', JStr (au_id user)), (''challenge'', JStr challenge),
           (''client'', JStr (client_name client))]))
         (for_seconds (of_nat OAUTH_SIGNIN_CODE_TTL_SECONDS))) (\<lambda>_.
       ret fresh)))))"

definition js_truthy :: "json \<Rightarrow> bool" where
  "js_truthy j =
     (case j of JNull \<Rightarrow> False | JBool b \<Rightarrow> b | JNum x \<Rightarrow> x \<noteq> 0 | JStr s \<Rightarrow> s \<noteq> [] | _ \<Rightarrow> True)"

definition stored_props :: "json \<Rightarrow> (string \<times> json) list" where
  "stored_props j = (case j of JObj ps \<Rightarrow> ps | _ \<Rightarrow> [])"

text \<open>The stored sign-in code, deleted: the first attempt to trade a code spends it.\<close>

definition spend_code :: "('w, 'm) oauth_deps_scheme \<Rightarrow> string \<Rightarrow> ('w, (string \<times> json) list) eff" where
  "spend_code d c =
     andThen (codeKey d c) (\<lambda>k.
     andThen (ax_kvGet d k) (\<lambda>stored.
     case stored of
       None \<Rightarrow> raise (app_error OAUTH_CODE_INVALID)
     | Some j \<Rightarrow>
         if \<not> js_truthy j then raise (app_error OAUTH_CODE_INVALID)
         else andThen (ax_kvDel d k) (\<lambda>existed.
           andThen (unless existed (app_error OAUTH_CODE_INVALID)) (\<lambda>_. ret (stored_props j)))))"

definition code_matches ::
  "('w, 'm) oauth_deps_scheme \<Rightarrow> (string \<times> json) list \<Rightarrow> json option \<Rightarrow> session_client \<Rightarrow> bool" where
  "code_matches d stored verifier client =
     (case (verifier, js_prop stored ''challenge'') of
        (Some (JStr v), Some (JStr challenge)) \<Rightarrow>
          verifier_pattern v \<and> ox_sha256url d v = challenge
          \<and> (case js_prop stored ''client'' of
               None \<Rightarrow> client = WebClient
             | Some JNull \<Rightarrow> client = WebClient
             | Some c \<Rightarrow> c = JStr (client_name client))
      | _ \<Rightarrow> False)"

definition stored_tenant :: "(string \<times> json) list \<Rightarrow> thrown + string" where
  "stored_tenant stored =
     (case tenant_claim (js_prop stored ''tenantId'') of
        Some t \<Rightarrow> Inr t
      | None \<Rightarrow> Inl (key_thrown (InvalidTenantIdError [])))"

text \<open>\<open>signIn\<close> stores strings only; the user id of any other value finds no account.\<close>

definition exchange ::
  "('w, 'm) oauth_deps_scheme \<Rightarrow> json option \<Rightarrow> json option \<Rightarrow> session_client \<Rightarrow> ('w, auth_tokens) eff" where
  "exchange d presented verifier client =
     (case nonEmpty presented of
        None \<Rightarrow> raise (app_error OAUTH_CODE_INVALID)
      | Some c \<Rightarrow>
          andThen (spend_code d c) (\<lambda>stored.
          if \<not> code_matches d stored verifier client then raise (app_error OAUTH_CODE_INVALID)
          else
            andThen (lift (stored_tenant stored)) (\<lambda>tenant.
            andThen (auth_assertTenantActive d tenant) (\<lambda>_.
            andThen (ax_findById d tenant (option_or (nonEmpty (js_prop stored ''userId'')) [])) (\<lambda>user.
            case user of
              None \<Rightarrow> raise (app_error OAUTH_CODE_INVALID)
            | Some u \<Rightarrow>
                if au_status u \<noteq> UserActive then raise (app_error AUTH_ACCOUNT_INACTIVE)
                else issueTokenPair d u)))))"

subsection \<open>The controller\<close>

datatype session_body = AccessOnly string | BothTokens string string

definition session :: "bool \<Rightarrow> auth_tokens \<Rightarrow> session_client \<Rightarrow> set_cookie list \<times> session_body" where
  "session secure tokens client =
     (case client of
        NativeClient \<Rightarrow> ([], BothTokens (at_accessToken tokens) (at_refreshToken tokens))
      | WebClient \<Rightarrow> ([setRefreshCookie (at_refreshToken tokens) secure], AccessOnly (at_accessToken tokens)))"

text \<open>A handler answers the cookies it set and its body, or throws; the cookies set before a throw
  are sent with the error.\<close>

type_synonym ('w, 'a) handler = "'w \<Rightarrow> (set_cookie list \<times> (thrown + 'a)) \<times> 'w"

definition answer :: "('w, set_cookie list \<times> 'a) eff \<Rightarrow> ('w, 'a) handler" where
  "answer f w = (case f w of (Inl e, w') \<Rightarrow> (([], Inl e), w') | (Inr (cs, x), w') \<Rightarrow> ((cs, Inr x), w'))"

definition ctl_login ::
  "('w, 'm) auth_deps_scheme \<Rightarrow> string option \<Rightarrow> bool \<Rightarrow> thrown + string \<Rightarrow> login_dto \<Rightarrow> string
   \<Rightarrow> 'a http_request_scheme \<Rightarrow> ('w, session_body) handler" where
  "ctl_login d corsOrigin secure tenant dto ip req =
     answer
       (andThen (lift (sessionClientOf corsOrigin req)) (\<lambda>client.
        andThen (lift tenant) (\<lambda>t.
        andThen (login d t dto ip) (\<lambda>tokens.
        ret (session secure tokens client)))))"

definition refused :: "thrown \<Rightarrow> bool" where
  "refused e = (case e of AppError c _ _ _ _ \<Rightarrow> httpStatus (getErrorDefinition c) = 401 | _ \<Rightarrow> False)"

text \<open>\<open>None\<close> is the 204 of a request without the cookie.\<close>

definition ctl_refresh ::
  "('w, 'm) auth_deps_scheme \<Rightarrow> (string \<Rightarrow> string option) \<Rightarrow> bool \<Rightarrow> 'a http_request_scheme
   \<Rightarrow> ('w, session_body option) handler" where
  "ctl_refresh d decode secure req w =
     (case refreshCookieOf decode (header_first (req_headers req ''cookie'')) of
        None \<Rightarrow> (([], Inr None), w)
      | Some token \<Rightarrow>
          (case refresh d token w of
             (Inr tokens, w') \<Rightarrow>
               (case session secure tokens WebClient of (cs, body) \<Rightarrow> ((cs, Inr (Some body)), w'))
           | (Inl e, w') \<Rightarrow> ((if refused e then [clearRefreshCookie secure] else [], Inl e), w')))"

definition principal_of ::
  "('w, 'm) auth_deps_scheme \<Rightarrow> http_request \<Rightarrow> ('w, principal option \<times> http_request) eff" where
  "principal_of d req w =
     (case requestCredentials (verify_token d) req w of (c, req', w') \<Rightarrow> (Inr (rc_principal c, req'), w'))"

definition ctl_logout ::
  "('w, 'm) auth_deps_scheme \<Rightarrow> (string \<Rightarrow> string option) \<Rightarrow> bool \<Rightarrow> http_request \<Rightarrow> ('w, unit) handler" where
  "ctl_logout d decode secure req =
     answer
       (andThen (principal_of d req) (\<lambda>(p, req').
        andThen (logout d (map_option p_jti p) (map_option p_exp p)
          (refreshCookieOf decode (header_first (req_headers req' ''cookie'')))) (\<lambda>_.
        ret ([clearRefreshCookie secure], ()))))"

definition ctl_native_refresh ::
  "('w, 'm) auth_deps_scheme \<Rightarrow> string \<Rightarrow> ('w, session_body) handler" where
  "ctl_native_refresh d token =
     answer (andThen (refresh d token) (\<lambda>tokens.
       ret ([], BothTokens (at_accessToken tokens) (at_refreshToken tokens))))"

definition ctl_native_logout ::
  "('w, 'm) auth_deps_scheme \<Rightarrow> http_request \<Rightarrow> string option \<Rightarrow> ('w, unit) handler" where
  "ctl_native_logout d req token =
     answer
       (andThen (principal_of d req) (\<lambda>(p, _).
        andThen (logout d (map_option p_jti p) (map_option p_exp p) token) (\<lambda>_.
        ret ([], ()))))"

definition ctl_exchange ::
  "('w, 'm) oauth_deps_scheme \<Rightarrow> string option \<Rightarrow> bool \<Rightarrow> json option \<Rightarrow> json option \<Rightarrow> 'a http_request_scheme
   \<Rightarrow> ('w, session_body) handler" where
  "ctl_exchange d corsOrigin secure presented verifier req =
     answer
       (andThen (lift (sessionClientOf corsOrigin req)) (\<lambda>client.
        andThen (exchange d presented verifier client) (\<lambda>tokens.
        ret (session secure tokens client))))"

text \<open>The redirect at the end of the provider flow.\<close>

definition finishOAuth ::
  "('w, 'm) oauth_deps_scheme \<Rightarrow> string option \<Rightarrow> oauth_profile \<Rightarrow> string \<Rightarrow> string option \<Rightarrow> string option
   \<Rightarrow> ('w, string) eff" where
  "finishOAuth d corsOrigin profile ip challenge redirect =
     (case nonempty challenge of
        None \<Rightarrow> raise (app_error OAUTH_STATE_INVALID)
      | Some c \<Rightarrow>
          andThen (signIn d profile ip c (if nonempty redirect \<noteq> None then NativeClient else WebClient)) (\<lambda>fresh.
          ret (option_or redirect (primaryWebOrigin corsOrigin @ ''/auth/callback'') @ ''#code='' @ encodeURIComponent fresh)))"

text \<open>Whom the audit entry of a logout names.\<close>

datatype actor = Signed principal | Owner string string

definition isNative :: "string option \<Rightarrow> 'a http_request_scheme \<Rightarrow> bool" where
  "isNative corsOrigin req \<longleftrightarrow> sessionClientOf corsOrigin req = Inr NativeClient"

definition logout_actor_guard ::
  "('w, 'm) auth_deps_scheme \<Rightarrow> (string \<Rightarrow> string option) \<Rightarrow> string option \<Rightarrow> json option \<Rightarrow> http_request
   \<Rightarrow> ('w, actor option) eff" where
  "logout_actor_guard d decode corsOrigin body_token req =
     (if map_option p_userId (req_user req) \<notin> {None, Some []} then ret (map_option Signed (req_user req))
      else
        andThen (principal_of d req) (\<lambda>(p, req').
        case p of
          Some p \<Rightarrow> ret (Some (Signed p))
        | None \<Rightarrow>
            ret (case refreshTokenOwner d
                (if isNative corsOrigin req' then nonEmpty body_token
                 else refreshCookieOf decode (header_first (req_headers req' ''cookie''))) of
              Some (t, u) \<Rightarrow> Some (Owner t u)
            | None \<Rightarrow> map_option Signed (req_user req))))"

definition oauth_configured ::
  "(string \<Rightarrow> string) \<Rightarrow> string option \<Rightarrow> thrown + bool" where
  "oauth_configured config provider =
     (case nonempty provider of
        None \<Rightarrow> Inr True
      | Some p \<Rightarrow>
          (let prefix = to_upper p; clientId = config (prefix @ ''_CLIENT_ID'');
               clientSecret = config (prefix @ ''_CLIENT_SECRET'') in
           if clientId = [] \<or> clientSecret = []
           then Inl (app_error_detail OAUTH_NOT_CONFIGURED
             (p @ '' sign-in is not configured on this server (set '' @ prefix @ ''_CLIENT_ID and '' @ prefix @ ''_CLIENT_SECRET)''))
           else Inr True))"

subsection \<open>Properties\<close>

lemma join_split: "join_with c (split_on c s) = s"
proof (induction s)
  case IH: (Cons a s)
  show ?case
  proof (cases "split_on c s")
    case (Cons p ps)
    then show ?thesis using IH by (cases ps) auto
  qed (simp add: split_on_nonempty)
qed simp

lemma join_snoc: "xs \<noteq> [] \<Longrightarrow> join_with c (xs @ [x]) = join_with c xs @ c # x"
  by (induction c xs rule: join_with.induct) auto

lemma sessionClientOf_native:
  assumes "sessionClientOf corsOrigin req = Inr NativeClient"
  obtains o' where "header_first (req_headers req CLIENT_HEADER) = Some ''native''"
    "header_first (req_headers req ''origin'') = Some o'" "o' \<in> set NATIVE_SESSION_ORIGINS"
    "o' \<notin> set (setting_parts (option_or corsOrigin DEFAULT_CORS_ORIGIN))"
  using assms by (auto simp: sessionClientOf_def isNativeSessionOrigin_def NATIVE_CLIENT_HEADER_VALUE_def nonempty_Some
    split: if_splits option.splits)

lemma answer_Inr: "answer f w = ((cs, Inr x), w') \<longleftrightarrow> f w = (Inr (cs, x), w')"
  by (auto simp: answer_def split: prod.splits sum.splits)

lemma session_delivered:
  "ctl_login d corsOrigin secure tenant dto ip req w = ((cs, Inr body), w') \<Longrightarrow>
     \<exists>tokens client. sessionClientOf corsOrigin req = Inr client \<and> session secure tokens client = (cs, body)"
  "ctl_exchange d' corsOrigin secure presented verifier req v = ((cs, Inr body), v') \<Longrightarrow>
     \<exists>tokens client. sessionClientOf corsOrigin req = Inr client \<and> session secure tokens client = (cs, body)"
  unfolding ctl_login_def ctl_exchange_def answer_Inr eff_simps ret_def by fastforce+

lemma session_refreshed:
  assumes "ctl_refresh d decode secure req w = ((cs, Inr (Some body)), w')"
  shows "\<exists>tokens. session secure tokens WebClient = (cs, body)"
  using assms unfolding ctl_refresh_def by (auto split: option.splits prod.splits sum.splits)

text \<open>A browser page never reads a refresh token. A login or an exchange answers one in its body
  only to a request that names the native client and comes from a native shell origin that is no
  configured web origin, and then sets no cookie; every other answer, and every refresh, carries
  the access token alone, with the refresh token in an HttpOnly, SameSite=Strict cookie that only
  the auth endpoints receive.\<close>

theorem refresh_token_in_body_only_for_native_shells:
  assumes "ctl_login d corsOrigin secure tenant dto ip req w = ((cs, Inr body), w')
    \<or> ctl_exchange d' corsOrigin secure presented verifier req v = ((cs, Inr body), v')
    \<or> ctl_refresh d decode secure req' w = ((cs, Inr (Some body)), w')"
  shows "(\<exists>access token o'. body = BothTokens access token \<and> cs = []
      \<and> header_first (req_headers req CLIENT_HEADER) = Some ''native''
      \<and> header_first (req_headers req ''origin'') = Some o' \<and> o' \<in> set NATIVE_SESSION_ORIGINS
      \<and> o' \<notin> set (setting_parts (option_or corsOrigin DEFAULT_CORS_ORIGIN)))
    \<or> (\<exists>access c. body = AccessOnly access \<and> cs = [c] \<and> ck_name c = ''tropis_rt'' \<and> ck_httpOnly c
      \<and> ck_sameSite c = ''strict'' \<and> ck_path c = ''/api/auth'' \<and> ck_secure c = secure)"
proof -
  have web: "\<exists>access c. body = AccessOnly access \<and> cs = [c] \<and> ck_name c = ''tropis_rt'' \<and> ck_httpOnly c
      \<and> ck_sameSite c = ''strict'' \<and> ck_path c = ''/api/auth'' \<and> ck_secure c = secure"
    if "session secure tokens WebClient = (cs, body)" for tokens
  proof -
    have "body = AccessOnly (at_accessToken tokens)" "cs = [setRefreshCookie (at_refreshToken tokens) secure]"
      using that by (simp_all add: session_def)
    then show ?thesis by (simp add: setRefreshCookie_def REFRESH_COOKIE_def REFRESH_COOKIE_PATH_def)
  qed
  have "(\<exists>tokens client. sessionClientOf corsOrigin req = Inr client \<and> session secure tokens client = (cs, body))
      \<or> (\<exists>tokens. session secure tokens WebClient = (cs, body))"
    using assms
    by (elim disjE) (blast dest: session_delivered session_refreshed)+
  then consider tokens where "session secure tokens WebClient = (cs, body)"
    | tokens where "sessionClientOf corsOrigin req = Inr NativeClient" "session secure tokens NativeClient = (cs, body)"
    by (metis session_client.exhaust)
  then show ?thesis
  proof cases
    case 2
    then have "\<exists>access token. body = BothTokens access token \<and> cs = []" by (auto simp: session_def)
    with sessionClientOf_native [OF 2(1)] show ?thesis by metis
  qed (blast dest: web)
qed

lemma verified_parts_Some:
  assumes "verified_parts d now ck rest = Some v" "length rest \<le> 4"
  obtains expiry tail where "rest = ck # expiry # vs_challenge v # tail"
    "not_expired (ss_number d expiry) now" "challenge_pattern (vs_challenge v)"
    "case vs_redirect v of None \<Rightarrow> tail = []
     | Some r \<Rightarrow> r \<in> set (ss_redirects d) \<and> (\<exists>enc. tail = [enc] \<and> ss_fromBase64url d enc = r)"
  using assms by (auto simp: verified_parts_def Let_def split: list.splits if_splits)

text \<open>The callback of a provider is accepted only with a state whose last part signs the rest
  with our secret, that has not expired, whose nonce is the value of the cookie of this very
  browser, and whose redirect, if any, is on the allow-list.\<close>

theorem oauth_state_accepts_only_signed:
  assumes "verifiedState d now state cookie = Some v"
  shows "\<exists>s nonce expiry tail. state = Some (JStr s) \<and> cookie = Some nonce \<and> nonce \<noteq> []
    \<and> (let payload = join_with CHR ''.'' (nonce # expiry # vs_challenge v # tail)
       in s = payload @ CHR ''.'' # ss_hmac d (ss_secret d) (''oauth-state'' @ CHR 0x0A # payload))
    \<and> not_expired (ss_number d expiry) now \<and> challenge_pattern (vs_challenge v)
    \<and> (case vs_redirect v of None \<Rightarrow> tail = []
       | Some r \<Rightarrow> r \<in> set (ss_redirects d) \<and> (\<exists>enc. tail = [enc] \<and> ss_fromBase64url d enc = r))"
proof -
  obtain s ck where n: "state = Some (JStr s)" "nonempty cookie = Some ck"
    using assms by (auto simp: verifiedState_def split: option.splits json.splits)
  then have s: "state = Some (JStr s)" "cookie = Some ck" "ck \<noteq> []" by (auto simp: nonempty_Some)
  let ?parts = "split_on CHR ''.'' s"
  let ?sig = "last ?parts" and ?rest = "butlast ?parts"
  have p: "length ?parts \<in> {4, 5}" "?sig = state_sign d (join_with CHR ''.'' ?rest)"
    "verified_parts d now ck ?rest = Some v"
    using assms n by (auto simp: verifiedState_def Let_def split: if_splits)
  have l: "length ?rest \<le> 4" using p(1) by auto
  obtain expiry tail where r: "?rest = ck # expiry # vs_challenge v # tail"
    and v: "not_expired (ss_number d expiry) now" "challenge_pattern (vs_challenge v)"
    and e: "case vs_redirect v of None \<Rightarrow> tail = []
     | Some r \<Rightarrow> r \<in> set (ss_redirects d) \<and> (\<exists>enc. tail = [enc] \<and> ss_fromBase64url d enc = r)"
    using p(3) l by (rule verified_parts_Some)
  have "s = join_with CHR ''.'' ?rest @ CHR ''.'' # ?sig"
    using r split_on_nonempty [of "CHR ''.''" s] join_split [of "CHR ''.''" s]
      join_snoc [of ?rest "CHR ''.''" ?sig] by (metis append_butlast_last_id list.distinct(1))
  then show ?thesis using s v e p(2) r by (auto simp: state_sign_def Let_def)
qed

text \<open>What a state needs of the codecs: nonempty texts without a dot, undone by the decoder.\<close>

definition state_codecs :: "state_store \<Rightarrow> bool" where
  "state_codecs d \<longleftrightarrow>
     (\<forall>k m. ss_hmac d k m \<noteq> [] \<and> CHR ''.'' \<notin> set (ss_hmac d k m))
     \<and> (\<forall>s \<in> set (ss_redirects d). ss_toBase64url d s \<noteq> [] \<and> CHR ''.'' \<notin> set (ss_toBase64url d s)
          \<and> ss_fromBase64url d (ss_toBase64url d s) = s)
     \<and> (\<forall>n. ss_number d (show_nat n) = Finite (of_nat n))"

lemma challenge_no_dot: "challenge_pattern c \<Longrightarrow> c \<noteq> [] \<and> CHR ''.'' \<notin> set c"
  by (auto simp: challenge_pattern_def list_all_iff is_base64url_def is_alnum_def is_upper_def is_lower_def is_digit_def)

lemma show_nat_no_dot: "show_nat n \<noteq> [] \<and> CHR ''.'' \<notin> set (show_nat n)"
  using show_nat_props [of n] by (auto simp: is_digit_def)

lemma state_begin_Inr:
  assumes "state_begin d now nonce secure query = Inr (s, ck)"
  obtains c native where "js_prop (option_or query []) ''challenge'' = Some (JStr c)" "challenge_pattern c"
    "js_prop (option_or query []) ''redirect'' = map_option JStr native"
    "\<forall>r. native = Some r \<longrightarrow> r \<in> set (ss_redirects d)"
    "s = (let payload = state_payload d nonce (now div 1000 + OAUTH_STATE_TTL_SECONDS) c native
      in payload @ CHR ''.'' # state_sign d payload)"
    "ck = state_cookie secure nonce OAUTH_STATE_TTL_SECONDS"
proof (cases "js_prop (option_or query []) ''redirect''")
  case None
  then show ?thesis using assms that [of _ None]
    by (auto simp: state_begin_def Let_def split: option.splits json.splits if_splits)
next
  case (Some j)
  with assms obtain r where "j = JStr r" "r \<in> set (ss_redirects d)"
    by (auto simp: state_begin_def Let_def split: option.splits json.splits if_splits)
  then show ?thesis using assms Some that [of _ "Some r"]
    by (auto simp: state_begin_def Let_def split: option.splits json.splits if_splits)
qed

lemma verifiedState_parts:
  assumes "split_on CHR ''.'' s = rest @ [state_sign d (join_with CHR ''.'' rest)]" "length rest \<in> {3, 4}"
    and "[] \<notin> set rest" "state_sign d (join_with CHR ''.'' rest) \<noteq> []" "ck \<noteq> []"
  shows "verifiedState d now (Some (JStr s)) (Some ck) = verified_parts d now ck rest"
proof -
  have "nonempty (Some ck) = Some ck" using assms(5) by (simp add: nonempty_Some)
  then show ?thesis using assms(2-4) by (auto simp: verifiedState_def assms(1) Let_def)
qed

lemma begun_state_verifies:
  assumes codecs: "state_codecs d"
    and nonce: "nonce \<noteq> []" "CHR ''.'' \<notin> set nonce"
    and began: "state_begin d now nonce secure query = Inr (s, ck)"
    and soon: "now' < (now div 1000 + 600) * 1000"
  shows "\<exists>v. verifiedState d now' (Some (JStr s)) (Some nonce) = Some v
    \<and> js_prop (option_or query []) ''challenge'' = Some (JStr (vs_challenge v))
    \<and> js_prop (option_or query []) ''redirect'' = map_option JStr (vs_redirect v)"
proof -
  obtain c native where q: "js_prop (option_or query []) ''challenge'' = Some (JStr c)" "challenge_pattern c"
    "js_prop (option_or query []) ''redirect'' = map_option JStr native"
    "\<forall>r. native = Some r \<longrightarrow> r \<in> set (ss_redirects d)"
    and s: "s = (let payload = state_payload d nonce (now div 1000 + OAUTH_STATE_TTL_SECONDS) c native
      in payload @ CHR ''.'' # state_sign d payload)"
    using state_begin_Inr [OF began] by metis
  let ?exp = "now div 1000 + OAUTH_STATE_TTL_SECONDS"
  let ?rest = "[nonce, show_nat ?exp, c] @ (case native of None \<Rightarrow> [] | Some r \<Rightarrow> [ss_toBase64url d r])"
  let ?sig = "state_sign d (join_with CHR ''.'' ?rest)"
  have dots: "\<forall>p \<in> set (?rest @ [?sig]). p \<noteq> [] \<and> CHR ''.'' \<notin> set p"
    using codecs nonce q(4) challenge_no_dot [OF q(2)] show_nat_no_dot [of ?exp]
    by (auto simp: state_codecs_def state_sign_def split: option.splits)
  have "s = join_with CHR ''.'' (?rest @ [?sig])"
    unfolding s Let_def state_payload_def by (subst join_snoc) auto
  then have parts: "split_on CHR ''.'' s = ?rest @ [?sig]"
    using split_on_join [of "?rest @ [?sig]" "CHR ''.''"] dots by auto
  have "not_expired (ss_number d (show_nat ?exp)) now'"
  proof -
    have "ss_number d (show_nat ?exp) = Finite (of_nat ?exp)" using codecs by (simp add: state_codecs_def)
    moreover have "(of_nat now' :: rat) < of_nat ?exp * 1000"
      using soon unfolding OAUTH_STATE_TTL_SECONDS_def by (metis of_nat_less_iff of_nat_mult of_nat_numeral)
    ultimately show ?thesis by (simp add: not_expired_def)
  qed
  then have v: "verified_parts d now' nonce ?rest = Some \<lparr>vs_challenge = c, vs_redirect = native\<rparr>"
    using q(2,4) codecs by (auto simp: verified_parts_def state_codecs_def Let_def split: option.splits)
  have "length ?rest \<in> {3, 4}" by (simp split: option.split)
  moreover have "[] \<notin> set ?rest" "?sig \<noteq> []" using dots by auto
  ultimately have "verifiedState d now' (Some (JStr s)) (Some nonce) = Some \<lparr>vs_challenge = c, vs_redirect = native\<rparr>"
    using verifiedState_parts [OF parts _ _ _ nonce(1)] v by metis
  then show ?thesis using q by auto
qed

text \<open>A sign-in that began here ends here: within ten minutes, to the second the state was made in,
  the state and the nonce of its cookie are accepted, and give back the challenge and the native
  redirect the sign-in was started with.\<close>

theorem oauth_state_round_trip:
  assumes codecs: "state_codecs d"
    and nonce: "nonce \<noteq> []" "CHR ''.'' \<notin> set nonce"
    and began: "state_begin d now nonce secure query = Inr (s, ck)"
    and soon: "now' < (now div 1000 + 600) * 1000"
  shows "\<exists>v. verifiedState d now' (Some (JStr s)) (Some nonce) = Some v
    \<and> js_prop (option_or query []) ''challenge'' = Some (JStr (vs_challenge v))
    \<and> js_prop (option_or query []) ''redirect'' = map_option JStr (vs_redirect v)"
  by (rule begun_state_verifies [OF assms])

text \<open>A small store, with one native redirect.\<close>

definition small_store :: state_store where
  "small_store =
     \<lparr>ss_secret = ''k'', ss_redirects = [''tropis''], ss_hmac = (\<lambda>k m. CHR ''h'' # filter (\<lambda>c. c \<noteq> CHR ''.'') (k @ m)),
      ss_toBase64url = (\<lambda>s. s),
      ss_fromBase64url = (\<lambda>s. s), ss_number = (\<lambda>s. case parse_nat s of Some n \<Rightarrow> Finite (of_nat n) | None \<Rightarrow> NaN),
      ss_decode = Some\<rparr>"

lemma small_store_hmac: "ss_hmac small_store k m = CHR ''h'' # filter (\<lambda>c. c \<noteq> CHR ''.'') (k @ m)" "ss_secret small_store = ''k''"
  by (simp_all add: small_store_def)

lemma small_store_codecs: "state_codecs small_store"
  by (simp add: state_codecs_def small_store_def)

definition small_challenge :: string where
  "small_challenge = replicate 43 CHR ''A''"

lemma small_challenge_pattern: "challenge_pattern small_challenge"
  by code_simp

lemma small_state_began:
  "\<exists>s ck. state_begin small_store 5000 ''n1'' True (Some [(''challenge'', JStr small_challenge), (''redirect'', JStr ''tropis'')]) = Inr (s, ck)"
  by (simp add: state_begin_def Let_def js_prop_def small_store_def small_challenge_pattern)

lemma oauth_state_round_trip_witness:
  "\<exists>s ck v. state_begin small_store 5000 ''n1'' True (Some [(''challenge'', JStr small_challenge), (''redirect'', JStr ''tropis'')]) = Inr (s, ck)
    \<and> verifiedState small_store 604999 (Some (JStr s)) (Some ''n1'') = Some v
    \<and> vs_challenge v = small_challenge \<and> vs_redirect v = Some ''tropis''"
proof -
  let ?q = "Some [(''challenge'', JStr small_challenge), (''redirect'', JStr ''tropis'')]"
  obtain s ck where b: "state_begin small_store 5000 ''n1'' True ?q = Inr (s, ck)"
    using small_state_began by blast
  have "\<exists>v. verifiedState small_store 604999 (Some (JStr s)) (Some ''n1'') = Some v
    \<and> js_prop (option_or ?q []) ''challenge'' = Some (JStr (vs_challenge v))
    \<and> js_prop (option_or ?q []) ''redirect'' = map_option JStr (vs_redirect v)"
    by (rule oauth_state_round_trip [OF small_store_codecs _ _ b]) simp_all
  then obtain v where v: "verifiedState small_store 604999 (Some (JStr s)) (Some ''n1'') = Some v"
    "small_challenge = vs_challenge v" "Some (JStr ''tropis'') = map_option JStr (vs_redirect v)"
    by (auto simp: js_prop_def)
  then have w: "vs_redirect v = Some ''tropis''" by (cases "vs_redirect v") simp_all
  show ?thesis by (intro exI conjI) (rule b v(1) v(2) [symmetric] w)+
qed

lemma oauth_state_accepts_only_signed_witness:
  "\<exists>s v payload. verifiedState small_store 604999 (Some (JStr s)) (Some ''n1'') = Some v
    \<and> s = payload @ CHR ''.'' # ss_hmac small_store ''k'' (''oauth-state'' @ CHR 0x0A # payload)"
proof -
  obtain s ck where b: "state_begin small_store 5000 ''n1'' True (Some [(''challenge'', JStr small_challenge), (''redirect'', JStr ''tropis'')]) = Inr (s, ck)"
    using small_state_began by blast
  have "\<exists>v. verifiedState small_store 604999 (Some (JStr s)) (Some ''n1'') = Some v"
    using begun_state_verifies [OF small_store_codecs _ _ b, of 604999] by auto
  then obtain v where v: "verifiedState small_store 604999 (Some (JStr s)) (Some ''n1'') = Some v" by blast
  obtain s' nonce e tl where q: "Some (JStr s) = Some (JStr s')"
    "let payload = join_with CHR ''.'' (nonce # e # vs_challenge v # tl)
     in s' = payload @ CHR ''.'' # ss_hmac small_store (ss_secret small_store) (''oauth-state'' @ CHR 0x0A # payload)"
    using oauth_state_accepts_only_signed [OF v] by (elim exE conjE) (rule that)
  have "s = s'" using q(1) by simp
  show ?thesis using v q(2) unfolding Let_def small_store_hmac(2) \<open>s = s'\<close> by (intro exI conjI)
qed

definition cookie_request :: http_request where
  "cookie_request =
     \<lparr>req_headers = (\<lambda>h. if h = ''cookie'' then Some (HeaderOne ''a=1; tropis_rt=x'') else None), req_query = None,
      req_credentials = None, req_tenantId = None, req_tenantError = None, req_user = None\<rparr>"

lemma cookie_request_token: "refreshCookieOf (\<lambda>_. Some small_token) (header_first (req_headers cookie_request ''cookie'')) = Some small_token"
  by code_simp

lemma refresh_token_in_body_only_for_native_shells_witness:
  "\<exists>access c. fst (ctl_refresh small_auth (\<lambda>_. Some small_token) True cookie_request small_world)
    = ([c], Inr (Some (AccessOnly access))) \<and> ck_httpOnly c"
proof -
  obtain pair w' where r: "refresh small_auth small_token small_world = (Inr pair, w')"
    using small_refreshes by (metis prod.collapse sum.collapse(2))
  obtain cs body where s: "session True pair WebClient = (cs, body)" by force
  have c: "ctl_refresh small_auth (\<lambda>_. Some small_token) True cookie_request small_world = ((cs, Inr (Some body)), w')"
    using r s unfolding ctl_refresh_def cookie_request_token by simp
  have body: "body = AccessOnly (at_accessToken pair)" using s by (simp add: session_def)
  from refresh_token_in_body_only_for_native_shells [OF disjI2 [OF disjI2 [OF c]]] c show ?thesis
    unfolding body by auto
qed

subsection \<open>A sign-in code is traded once\<close>

text \<open>What a sign-in writes is under other keys than the code's.\<close>

lemma valid_code_key: "valid_spec (kb_spec OAUTH_SIGNIN_CODE_KEY)"
  using OAUTH_SIGNIN_CODE_KEY_defined by (auto dest!: defineKey_valid)

lemma gone_tenant_set:
  assumes world: "token_world d gone drawn" and k: "global OAUTH_SIGNIN_CODE_KEY env ids = Inr k"
    and b: "valid_spec (kb_spec b)" and f: "\<And>j. j \<noteq> k \<Longrightarrow> keeps (gone k) (f j)"
  shows "keeps (gone k) (andThen (tenant_key d b t ids') f)"
proof (cases "forTenant b (ax_env d) t ids'")
  case (Inl e)
  then show ?thesis by (simp add: key_effs keyed_def keeps_intros)
next
  case (Inr j)
  have "j \<noteq> k" using tenant_global_keys [OF Inr _ b valid_code_key] k by blast
  then show ?thesis using f Inr by (simp add: key_effs keyed_def)
qed

lemma gone_issue:
  assumes world: "token_world d gone drawn" and k: "global OAUTH_SIGNIN_CODE_KEY env ids = Inr k"
  shows "keeps (gone k) (issueTokenPair d u)"
proof -
  have set_other: "j \<noteq> k \<Longrightarrow> keeps (gone k) (ax_kvSet d j v opts)" for j v opts
    using token_world.set_gone [OF world] by metis
  have uuid: "keeps (gone k) (ax_uuid d)" by (rule token_world.uuid_gone [OF world])
  have jwt: "keeps (gone k) (ax_jwtSign d ps)" for ps
    by (rule calls_keepD(10) [OF token_world.calls(1) [OF world]])
  have create: "keeps (gone k) (createRefreshToken d u)"
    unfolding createRefreshToken_def refreshKey_def Let_def
    by (intro keeps_intros uuid set_other gone_tenant_set [OF world k valid_refresh_key])
  have sign: "keeps (gone k) (signAccessToken d u)"
    unfolding signAccessToken_def by (intro keeps_intros uuid jwt)
  show ?thesis unfolding issueTokenPair_def by (intro keeps_intros create sign)
qed

lemma gone_exchange:
  assumes world: "token_world d gone drawn" and k: "global OAUTH_SIGNIN_CODE_KEY env ids = Inr k"
  shows "keeps (gone k) (exchange d presented verifier client)"
  unfolding exchange_def spend_code_def codeKey_def auth_assertTenantActive_def key_effs(2)
  by (intro keeps_intros gone_issue [OF world k] calls_keepD [OF token_world.calls(1) [OF world]])
     (auto simp: keyed_def intro: keeps_intros)

text \<open>Attempts to trade a code, in the order they reach the store: each presents a code, a verifier
  and a kind of client.\<close>

type_synonym attempt = "json option \<times> json option \<times> session_client"

definition attempts :: "('w, 'm) oauth_deps_scheme \<Rightarrow> attempt list \<Rightarrow> 'w \<Rightarrow> 'w" where
  "attempts d = fold (\<lambda>(presented, verifier, client) w. snd (exchange d presented verifier client w))"

lemma gone_attempts:
  assumes world: "token_world d gone drawn" and k: "global OAUTH_SIGNIN_CODE_KEY env ids = Inr k"
  shows "gone k w \<Longrightarrow> gone k (attempts d as w)"
proof (induction as arbitrary: w)
  case (Cons a as)
  have "gone k (snd (exchange d p v c w))" for p v c
    using gone_exchange [OF world k] Cons.prems by (simp add: keeps_def)
  then show ?case using Cons.IH by (cases a) (simp add: attempts_def)
qed (simp add: attempts_def)

lemma spend_code_Inr:
  assumes "spend_code d c w = (Inr stored, w')"
  obtains k w1 j where "global OAUTH_SIGNIN_CODE_KEY (ax_env d) [ax_sha256 d c] = Inr k"
    "ax_kvGet d k w = (Inr (Some j), w1)" "ax_kvDel d k w1 = (Inr True, w')" "stored = stored_props j"
  using assms unfolding spend_code_def codeKey_def key_effs(2)
  by (auto simp: eff_simps split: option.splits if_splits)

lemma exchange_Inr:
  assumes "exchange d presented verifier client w = (Inr pair, w')"
  obtains c stored w1 where "nonEmpty presented = Some c" "spend_code d c w = (Inr stored, w1)"
    "code_matches d stored verifier client"
  using assms unfolding exchange_def by (auto simp: eff_simps split: option.splits if_splits)

lemma gone_spend_fails:
  assumes world: "token_world d gone drawn"
    and k: "global OAUTH_SIGNIN_CODE_KEY (ax_env d) [ax_sha256 d c] = Inr k" and gone: "gone k w"
  shows "spend_code d c w \<noteq> (Inr stored, w')"
proof
  assume "spend_code d c w = (Inr stored, w')"
  then show False
  proof (rule spend_code_Inr)
    fix k' w1 j
    assume r: "global OAUTH_SIGNIN_CODE_KEY (ax_env d) [ax_sha256 d c] = Inr k'"
      "ax_kvGet d k' w = (Inr (Some j), w1)" "ax_kvDel d k' w1 = (Inr True, w')"
    have kk: "k' = k" using r(1) k by simp
    have "gone k w1"
      using keepsD [OF calls_keepD(1) [OF token_world.calls(1) [OF world]] r(2)] gone unfolding kk by blast
    then show False using token_world.del_true [OF world r(3)] unfolding kk by blast
  qed
qed

text \<open>C25: A sign-in code is traded once, and only for the verifier of its challenge. An attempt that
  found the code stored spends it whatever its own outcome: no later attempt with that code, after
  any other attempts, answers tokens. An attempt that answers tokens found the code and presented a
  verifier whose digest is the challenge stored with it, on the kind of client it was issued for.\<close>

theorem sign_in_code_single_use:
  assumes world: "token_world d gone drawn"
    and run: "nonEmpty presented = Some c" "spend_code d c w = (Inr stored, w1)"
      "exchange d presented verifier client w = (res, w2)"
  shows "isl (fst (exchange d presented verifier' client' (attempts d as w2)))
    \<and> (\<not> isl res \<longrightarrow> code_matches d stored verifier client)"
proof
  obtain k wg j where k: "global OAUTH_SIGNIN_CODE_KEY (ax_env d) [ax_sha256 d c] = Inr k"
    "ax_kvDel d k wg = (Inr True, w1)" using run(2) by (rule spend_code_Inr) blast
  have g1: "gone k w1" using token_world.del_true [OF world k(2)] by blast
  let ?rest = "if \<not> code_matches d stored verifier client then raise (app_error OAUTH_CODE_INVALID)
     else andThen (lift (stored_tenant stored)) (\<lambda>tenant.
       andThen (auth_assertTenantActive d tenant) (\<lambda>_.
       andThen (ax_findById d tenant (option_or (nonEmpty (js_prop stored ''userId'')) [])) (\<lambda>user.
       case user of None \<Rightarrow> raise (app_error OAUTH_CODE_INVALID)
       | Some u \<Rightarrow> if au_status u \<noteq> UserActive then raise (app_error AUTH_ACCOUNT_INACTIVE) else issueTokenPair d u)))"
  have eq: "?rest w1 = (res, w2)" using run by (simp add: exchange_def andThen_run)
  have "keeps (gone k) ?rest"
    unfolding auth_assertTenantActive_def
    by (intro keeps_intros gone_issue [OF world k(1)] calls_keepD [OF token_world.calls(1) [OF world]])
  then have "gone k (snd (?rest w1))" using g1 unfolding keeps_def by blast
  then have "gone k (attempts d as w2)" unfolding eq snd_conv by (rule gone_attempts [OF world k(1)])
  then have no: "spend_code d c (attempts d as w2) \<noteq> (Inr st, w')" for st w'
    using gone_spend_fails [OF world k(1)] by blast
  show "isl (fst (exchange d presented verifier' client' (attempts d as w2)))"
  proof (rule ccontr)
    assume "\<not> isl (fst (exchange d presented verifier' client' (attempts d as w2)))"
    then obtain pair w' where "exchange d presented verifier' client' (attempts d as w2) = (Inr pair, w')"
      by (metis prod.collapse sum.collapse(2))
    then show False using no run(1) by (auto elim!: exchange_Inr)
  qed
  show "\<not> isl res \<longrightarrow> code_matches d stored verifier client"
  proof
    assume "\<not> isl res"
    then obtain pair where "exchange d presented verifier client w = (Inr pair, w2)" using run(3) by (cases res) auto
    then show "code_matches d stored verifier client" using run by (auto elim!: exchange_Inr)
  qed
qed

text \<open>The small deployment with a code in its store, and the verifier whose digest it keeps.\<close>

definition small_code_value :: json where
  "small_code_value = JObj [(''tenantId'', JStr ''acme''), (''userId'', JStr ''u1''),
     (''challenge'', JStr small_challenge), (''client'', JStr ''web'')]"

definition small_oauth_base :: "(redis_db \<times> nat \<times> nat) oauth_deps" where
  "small_oauth_base = auth_deps.extend
     (small_base\<lparr>ax_parse := \<lambda>_. Some (JObj [(''v'', JNum 1), (''d'', small_code_value)])\<rparr>)
     (oauth_deps.fields (Some ''acme'') (\<lambda>s. s) (ret ''c'') (\<lambda>_ _ _. ret None) (\<lambda>_ _ _. ret alice))"

definition small_oauth :: "(redis_db \<times> nat \<times> nat) oauth_deps" where
  "small_oauth = over_redis sure_exec fst small_oauth_base"

interpretation small_oauth: redis_tokens sure_exec sure_pipe "\<lambda>db. db" small_oauth_base fst small_drawn
  by unfold_locales
    (auto simp: rest_keeps_def small_oauth_base_def auth_deps.defs oauth_deps.defs small_base_def keeps_def small_drawn_def show_nat_inj)

lemma small_oauth_world:
  "token_world small_oauth (\<lambda>j w. fst w j = None) (\<lambda>i w. small_drawn i (snd w))"
  unfolding small_oauth_def by (rule small_oauth.tokens.token_world_axioms)

definition small_code_world :: "redis_db \<times> nat \<times> nat" where
  "small_code_world =
     ((\<lambda>_. None)(''tropis:development:global:kv:auth:oauth-signin-code:v1:c'' := Some (''value'', Some 60000)), 0, 1)"

lemma small_oauth_parts [simp]:
  "ax_env small_oauth = (\<lambda>_. None)" "ax_now small_oauth = (\<lambda>w. fst (snd w))"
  "ax_uuid small_oauth w = (Inr (show_nat (snd (snd w))), fst w, fst (snd w), Suc (snd (snd w)))"
  "ax_sha256 small_oauth = (\<lambda>s. s)" "ox_sha256url small_oauth = (\<lambda>s. s)"
  "ax_findTenant small_oauth t = ret (if t = ''acme''
     then Some \<lparr>tr_id = t, tr_name = t, tr_status = TenantActive, tr_selfSignup = False\<rparr> else None)"
  "ax_findById small_oauth t u = ret (if t = ''acme'' \<and> u = ''u1'' then Some alice else None)"
  "ax_jwtSign small_oauth ps = ret ''jwt''"
  "ax_kvGet small_oauth k w = on_fst (kv_get sure_exec (\<lambda>_. Some (JObj [(''v'', JNum 1), (''d'', small_code_value)]))
     (fst (snd w)) k) w"
  "ax_kvSet small_oauth k v opts w = on_fst (kv_set sure_exec small_stringify (fst (snd w)) k v opts) w"
  "ax_kvDel small_oauth k w = on_fst (kv_del sure_exec (fst (snd w)) k) w"
  by (simp_all add: small_oauth_def small_oauth_base_def auth_deps.defs oauth_deps.defs small_base_def over_redis_def split: prod.splits)

lemma small_code_key:
  "global OAUTH_SIGNIN_CODE_KEY (\<lambda>_. None) [''c''] = Inr ''tropis:development:global:kv:auth:oauth-signin-code:v1:c''"
  "forTenant REFRESH_TOKEN_KEY (\<lambda>_. None) ''acme'' [''u1'', ''1''] =
     Inr ''tropis:development:t.acme:kv:auth:refresh-token:v1:u1:1''"
  by code_simp+

definition small_spent_world :: "redis_db \<times> nat \<times> nat" where
  "small_spent_world = ((\<lambda>_. None), 0, 1)"

lemma small_code_spends:
  "spend_code small_oauth ''c'' small_code_world = (Inr (stored_props small_code_value), small_spent_world)"
  by (simp add: spend_code_def codeKey_def run_small small_code_key small_code_world_def kv_get_def kv_del_def
    sure_exec_def redis_del_def live_def live_entry_def decodeKvValue_def KV_CODEC_VERSION_def js_prop_def js_has_def
    small_code_value_def js_truthy_def unless_def small_spent_world_def fun_eq_iff)

lemma small_code_matches:
  "code_matches small_oauth (stored_props small_code_value) (Some (JStr small_challenge)) WebClient"
  "verifier_pattern small_challenge"
proof -
  show "verifier_pattern small_challenge" by code_simp
  then show "code_matches small_oauth (stored_props small_code_value) (Some (JStr small_challenge)) WebClient"
    by (simp add: code_matches_def stored_props_def small_code_value_def js_prop_def client_name_def)
qed

lemma acme_tenant: "isTenantId ''acme''"
  by code_simp

lemma small_exchanges:
  "\<not> isl (fst (exchange small_oauth (Some (JStr ''c'')) (Some (JStr small_challenge)) WebClient small_code_world))"
  using small_code_matches small_code_spends
  by (simp add: exchange_def nonEmpty_def run_small small_spent_world_def stored_props_def small_code_value_def
    stored_tenant_def tenant_claim_def js_prop_def auth_assertTenantActive_def assertTenantActive_def issueTokenPair_def
    signAccessToken_def createRefreshToken_def small_code_key acme_tenant)

lemma sign_in_code_single_use_witness:
  "isl (fst (exchange small_oauth (Some (JStr ''c'')) (Some (JStr small_challenge)) WebClient
     (attempts small_oauth [(Some (JStr ''d''), None, NativeClient)]
       (snd (exchange small_oauth (Some (JStr ''c'')) (Some (JStr small_challenge)) WebClient small_code_world)))))
   \<and> code_matches small_oauth (stored_props small_code_value) (Some (JStr small_challenge)) WebClient"
proof -
  have c: "nonEmpty (Some (JStr ''c'')) = Some ''c''" by (simp add: nonEmpty_def)
  obtain res w2 where run: "exchange small_oauth (Some (JStr ''c'')) (Some (JStr small_challenge)) WebClient small_code_world = (res, w2)"
    by (rule prod.exhaust)
  from sign_in_code_single_use [OF small_oauth_world c small_code_spends run] show ?thesis
    using small_exchanges run by simp
qed

end
