(* ===== verification/Signing.thy ===== *)
theory Signing
  imports Guards
begin

text \<open>
  Both ends of a signed request: the SDK that makes it (\<open>packages/sdk/src/signing/index.ts\<close>,
  \<open>trace/index.ts\<close>), and the signing capability that checks it
  (\<open>infrastructure/signing\<close>: \<open>signing.canonical.ts\<close>, the in-process and the native adapter). The
  hash functions are parameters, on byte strings; a request's body travels as its UTF-8 bytes.
\<close>

subsection \<open>Bytes and text\<close>

definition utf8_char :: "char \<Rightarrow> string" where
  "utf8_char c =
     (let n = of_char c :: nat in
      if n < 128 then [c] else [char_of (192 + n div 64), char_of (128 + n mod 64)])"

definition utf8 :: "string \<Rightarrow> string" where
  "utf8 s = concat (map utf8_char s)"

definition lower_hex :: "nat \<Rightarrow> char" where
  "lower_hex n = char_of (if n < 10 then 48 + n else 87 + n)"

record crypto =
  cr_sha256 :: "string \<Rightarrow> string"
  cr_hmac :: "string \<Rightarrow> string \<Rightarrow> string"

subsection \<open>The SDK\<close>

text \<open>\<open>b.toString(16).padStart(2, '0')\<close>.\<close>

definition to_string_16 :: "nat \<Rightarrow> string" where
  "to_string_16 n = (if n < 16 then [lower_hex n] else [lower_hex (n div 16), lower_hex (n mod 16)])"

definition pad_start :: "nat \<Rightarrow> char \<Rightarrow> string \<Rightarrow> string" where
  "pad_start n c s = replicate (n - length s) c @ s"

definition toHex :: "string \<Rightarrow> string" where
  "toHex buf = concat (map (\<lambda>b. pad_start 2 CHR ''0'' (to_string_16 (of_char b))) buf)"

definition sdk_sha256Hex :: "crypto \<Rightarrow> string \<Rightarrow> string" where
  "sdk_sha256Hex c data = toHex (cr_sha256 c (utf8 data))"

definition sdk_hmacSha256Hex :: "crypto \<Rightarrow> string \<Rightarrow> string \<Rightarrow> string" where
  "sdk_hmacSha256Hex c secret data = toHex (cr_hmac c (utf8 secret) (utf8 data))"

definition sdk_buildCanonicalString ::
  "crypto \<Rightarrow> string \<Rightarrow> string \<Rightarrow> string \<Rightarrow> string \<Rightarrow> string \<Rightarrow> string" where
  "sdk_buildCanonicalString c method path timestamp nonce body =
     join_with CHR 0x0A [to_upper method, path, timestamp, nonce, sdk_sha256Hex c body]"

record sign_input =
  sg_method :: string
  sg_path :: string
  sg_body :: "string option"
  sg_keyId :: string
  sg_secret :: string
  sg_timestamp :: "nat option"
  sg_nonce :: "string option"

text \<open>\<open>signRequest\<close>, at the time \<open>now\<close> in milliseconds, with the UUID it would draw.\<close>

definition signRequest :: "crypto \<Rightarrow> nat \<Rightarrow> string \<Rightarrow> sign_input \<Rightarrow> signing_headers" where
  "signRequest c now uuid input =
     (let timestamp = show_nat (option_or (sg_timestamp input) (now div 1000));
          nonce = option_or (sg_nonce input) uuid;
          canonical = sdk_buildCanonicalString c (sg_method input) (sg_path input) timestamp nonce
            (option_or (sg_body input) []) in
      \<lparr>sh_keyId = sg_keyId input, sh_timestamp = timestamp, sh_nonce = nonce,
       sh_signature = sdk_hmacSha256Hex c (sg_secret input) canonical\<rparr>)"

text \<open>\<open>traceparent\<close>: the provider's value when it is a valid header, else a fresh one; a provider
  that throws gives none.\<close>

definition is_lower_hex :: "char \<Rightarrow> bool" where
  "is_lower_hex c \<longleftrightarrow> is_digit c \<or> of_char c \<in> {97 .. (102::nat)}"

definition isValidTraceparent :: "string \<Rightarrow> bool" where
  "isValidTraceparent s =
     (case split_on CHR ''-'' s of
        [ver, traceId, parentId, flags] \<Rightarrow>
          length ver = 2 \<and> length traceId = 32 \<and> length parentId = 16 \<and> length flags = 2
          \<and> list_all (list_all is_lower_hex) [ver, traceId, parentId, flags]
          \<and> ver \<noteq> ''ff'' \<and> \<not> list_all (\<lambda>c. c = CHR ''0'') traceId \<and> \<not> list_all (\<lambda>c. c = CHR ''0'') parentId
      | _ \<Rightarrow> False)"

definition generateTraceparent :: "string \<Rightarrow> string \<Rightarrow> string" where
  "generateTraceparent traceId parentId = ''00-'' @ toHex traceId @ ''-'' @ toHex parentId @ ''-01''"

definition resolveTraceparent :: "string option \<Rightarrow> string \<Rightarrow> string \<Rightarrow> string" where
  "resolveTraceparent active traceId parentId =
     (case active of
        Some s \<Rightarrow> if isValidTraceparent s then s else generateTraceparent traceId parentId
      | None \<Rightarrow> generateTraceparent traceId parentId)"

text \<open>\<open>createSignedFetch\<close>: the request it hands to \<open>fetch\<close>. \<open>pathname\<close> and \<open>search\<close> are the parsed
  URL's, header names are lower case, and a body is a string or something else.\<close>

datatype fetch_body = NoBody | TextBody string | OtherBody

record fetch_init =
  fi_method :: "string option"
  fi_body :: fetch_body
  fi_headers :: "string \<Rightarrow> string option"

record wire_request =
  wr_method :: string
  wr_path :: string
  wr_bytes :: string
  wr_headers :: "string \<Rightarrow> string option"

record signed_fetch =
  sf_keyId :: string
  sf_secret :: string
  sf_active :: "string option"

definition signed_fetch_request ::
  "crypto \<Rightarrow> nat \<Rightarrow> string \<Rightarrow> string \<times> string \<Rightarrow> signed_fetch \<Rightarrow> string \<Rightarrow> string \<Rightarrow> fetch_init \<Rightarrow> thrown + wire_request"
where
  "signed_fetch_request c now uuid trace opts pathname search init =
     (case fi_body init of
        OtherBody \<Rightarrow> Inl (PlainError ''Error''
          ''createSignedFetch: body must be a string so the signature covers the exact bytes sent'' [])
      | _ \<Rightarrow>
        (let body = (case fi_body init of TextBody s \<Rightarrow> s | _ \<Rightarrow> []);
             method = option_or (fi_method init) ''GET'';
             h = signRequest c now uuid \<lparr>sg_method = method, sg_path = pathname @ search, sg_body = Some body,
               sg_keyId = sf_keyId opts, sg_secret = sf_secret opts, sg_timestamp = None, sg_nonce = None\<rparr>;
             caller = (if fi_headers init ''traceparent'' \<noteq> None then fi_headers init
               else (fi_headers init)(''traceparent'' \<mapsto> resolveTraceparent (sf_active opts) (fst trace) (snd trace))) in
         Inr \<lparr>wr_method = method, wr_path = pathname @ search, wr_bytes = utf8 body,
           wr_headers = caller(''x-api-key'' \<mapsto> sh_keyId h, ''x-timestamp'' \<mapsto> sh_timestamp h,
             ''x-nonce'' \<mapsto> sh_nonce h, ''x-signature'' \<mapsto> sh_signature h)\<rparr>))"

subsection \<open>The backend\<close>

text \<open>Node's \<open>digest('hex')\<close>.\<close>

definition digest_hex :: "string \<Rightarrow> string" where
  "digest_hex buf = concat (map (\<lambda>b. [lower_hex (of_char b div 16), lower_hex (of_char b mod 16)]) buf)"

definition buildCanonicalString ::
  "crypto \<Rightarrow> string \<Rightarrow> string \<Rightarrow> string \<Rightarrow> string \<Rightarrow> string \<Rightarrow> string" where
  "buildCanonicalString c method path timestamp nonce bytes =
     join_with CHR 0x0A [to_upper method, path, timestamp, nonce, digest_hex (cr_sha256 c bytes)]"

definition computeSignature :: "crypto \<Rightarrow> string \<Rightarrow> string \<Rightarrow> string" where
  "computeSignature c secret canonical = digest_hex (cr_hmac c (utf8 secret) (utf8 canonical))"

definition canonical :: "crypto \<Rightarrow> signature_input \<Rightarrow> string" where
  "canonical c input =
     buildCanonicalString c (si_method input) (si_path input) (si_timestamp input) (si_nonce input) (si_body input)"

definition inprocess_sign :: "crypto \<Rightarrow> signature_input \<Rightarrow> string \<Rightarrow> string" where
  "inprocess_sign c input secret = computeSignature c secret (canonical c input)"

definition inprocess_verify :: "crypto \<Rightarrow> signature_input \<Rightarrow> string \<Rightarrow> string \<Rightarrow> thrown + bool" where
  "inprocess_verify c input signature secret =
     Inr (utf8 signature = utf8 (computeSignature c secret (canonical c input)))"

subsection \<open>The native adapter\<close>

text \<open>An RPC fails with a code, the error details it carries and the cause of the failure.\<close>

record connect_error =
  ce_code :: rpc_code_name
  ce_details :: "(string \<times> string) list"
  ce_causeCode :: "string option"

definition ERROR_DOMAIN :: string where "ERROR_DOMAIN = ''tropis''"

definition UNREACHABLE :: "string list" where
  "UNREACHABLE = [''ECONNREFUSED'', ''ECONNRESET'', ''EHOSTUNREACH'', ''ENETUNREACH'', ''ENOTFOUND'', ''EAI_AGAIN'',
     ''ETIMEDOUT'', ''EPIPE'']"

definition isUnreachable :: "connect_error \<Rightarrow> bool" where
  "isUnreachable e = (case ce_causeCode e of Some s \<Rightarrow> s \<in> set UNREACHABLE | None \<Rightarrow> False)"

definition fallbackCode :: "connect_error \<Rightarrow> error_code" where
  "fallbackCode e =
     (if ce_code e = Unavailable \<or> isUnreachable e then SERVICE_UNAVAILABLE
      else if ce_code e = DeadlineExceeded then GATEWAY_TIMEOUT else BAD_GATEWAY)"

definition toAppError :: "connect_error \<Rightarrow> thrown \<Rightarrow> thrown" where
  "toAppError e err =
     (case find (\<lambda>(domain, reason). domain = ERROR_DOMAIN) (ce_details e) of
        Some (_, reason) \<Rightarrow>
          (case isErrorCode reason of
             Some ec \<Rightarrow> app_error_cause ec err
           | None \<Rightarrow> app_error_cause (fallbackCode e) err)
      | None \<Rightarrow> app_error_cause (fallbackCode e) err)"

definition parse_int :: "string \<Rightarrow> int option" where
  "parse_int s =
     (case s of
        CHR ''-'' # ds \<Rightarrow> map_option (\<lambda>n. - int n) (parse_nat ds)
      | _ \<Rightarrow> map_option int (parse_nat s))"

definition toUnixSeconds :: "string \<Rightarrow> thrown + int" where
  "toUnixSeconds timestamp =
     (case parse_int timestamp of
        Some n \<Rightarrow> Inr n
      | None \<Rightarrow> Inl (PlainError ''RangeError'' (''Signing timestamp must be integer seconds, got '' @ timestamp) []))"

record verify_response =
  vr_valid :: bool
  vr_reason :: string

text \<open>\<open>rpc\<close> is the generated client's call, \<open>failure\<close> what \<open>ConnectError.from\<close> makes of an error.\<close>

definition native_verify ::
  "(signature_input \<Rightarrow> int \<Rightarrow> string \<Rightarrow> thrown + verify_response) \<Rightarrow> (thrown \<Rightarrow> connect_error)
   \<Rightarrow> signature_input \<Rightarrow> string \<Rightarrow> string \<Rightarrow> thrown + bool" where
  "native_verify rpc failure input signature secret =
     (case toUnixSeconds (si_timestamp input) of
        Inl e \<Rightarrow> Inl e
      | Inr ts \<Rightarrow>
          (case rpc input ts signature of
             Inl err \<Rightarrow> Inl (toAppError (failure err) err)
           | Inr res \<Rightarrow>
               if vr_valid res then Inr True
               else if vr_reason res = ''SIGNATURE_INVALID'' then Inr False
               else (case isErrorCode (vr_reason res) of
                   Some ec \<Rightarrow> Inl (app_error ec)
                 | None \<Rightarrow> Inr False)))"

definition native_sign ::
  "(signature_input \<Rightarrow> int \<Rightarrow> thrown + string) \<Rightarrow> (thrown \<Rightarrow> connect_error) \<Rightarrow> signature_input \<Rightarrow> thrown + string" where
  "native_sign rpc failure input =
     (case toUnixSeconds (si_timestamp input) of
        Inl e \<Rightarrow> Inl e
      | Inr ts \<Rightarrow> map_sum (\<lambda>err. toAppError (failure err) err) id (rpc input ts))"

subsection \<open>Both ends make the same text\<close>

lemma hex_byte: "pad_start 2 CHR ''0'' (to_string_16 n) = [lower_hex (n div 16), lower_hex (n mod 16)]" if "n < 256"
proof -
  have "lower_hex 0 = CHR ''0''" by code_simp
  then show ?thesis using that by (auto simp: pad_start_def to_string_16_def numeral_2_eq_2)
qed

lemma of_char_byte: "(of_char c :: nat) < 256"
  using of_char_mod_256 [of c, where 'a = nat] mod_less_divisor [of 256 "of_char c :: nat"] by simp

lemma nibble: "(of_char c :: nat) div 16 < 16"
  using of_char_byte [of c] by (intro less_mult_imp_div_less) simp

lemma toHex_digest: "toHex buf = digest_hex buf"
  by (simp add: toHex_def digest_hex_def hex_byte of_char_byte)

lemma canonical_alike: "sdk_buildCanonicalString c m p t n body = buildCanonicalString c m p t n (utf8 body)"
  by (simp add: sdk_buildCanonicalString_def buildCanonicalString_def sdk_sha256Hex_def toHex_digest)

lemma signature_alike: "sdk_hmacSha256Hex c secret text = computeSignature c secret text"
  by (simp add: sdk_hmacSha256Hex_def computeSignature_def toHex_digest)

lemma digest_hex_plain: "set (digest_hex buf) \<subseteq> {x. is_alnum x}"
proof -
  have "is_alnum (lower_hex n)" if "n < 16" for n
    using that by (auto simp: lower_hex_def is_alnum_def is_digit_def is_lower_def of_char_of)
  then have "is_alnum (lower_hex (of_char c div 16)) \<and> is_alnum (lower_hex (of_char c mod 16))" for c :: char
    using nibble by simp
  then show ?thesis by (auto simp: digest_hex_def)
qed

lemma upper_char_newline: "CHR 0x0A \<in> set (upper_char c) \<Longrightarrow> c = CHR 0x0A"
proof (rule ccontr)
  let ?n = "of_char c :: nat"
  assume m: "CHR 0x0A \<in> set (upper_char c)" and "c \<noteq> CHR 0x0A"
  then have "?n \<noteq> 223" "?n \<ge> 97" "char_of (?n - 32) = CHR 0x0A"
    by (auto simp: upper_char_def Let_def split: if_splits)
  from arg_cong [OF this(3), of "of_char :: char \<Rightarrow> nat"] have "(?n - 32) mod 256 = 10" by (simp only: of_char_of) simp
  then show False using \<open>?n \<ge> 97\<close> of_char_byte [of c] by simp
qed

lemma to_upper_no_newline:
  assumes "CHR 0x0A \<notin> set s"
  shows "CHR 0x0A \<notin> set (to_upper s)"
  using assms upper_char_newline unfolding to_upper_def by (induction s) auto

lemma hex_no_newline: "CHR 0x0A \<notin> set (digest_hex buf)"
proof -
  have "\<not> is_alnum (CHR 0x0A)" by code_simp
  then show ?thesis using digest_hex_plain [of buf] by blast
qed

lemma canonical_inj:
  assumes "buildCanonicalString c m p t n b = buildCanonicalString c m' p' t' n' b'"
    and "CHR 0x0A \<notin> set (m @ p @ t @ n @ m' @ p' @ t' @ n')"
  shows "to_upper m = to_upper m' \<and> p = p' \<and> t = t' \<and> n = n'
    \<and> digest_hex (cr_sha256 c b) = digest_hex (cr_sha256 c b')"
proof -
  let ?xs = "[to_upper m, p, t, n, digest_hex (cr_sha256 c b)]" and ?ys = "[to_upper m', p', t', n', digest_hex (cr_sha256 c b')]"
  have "\<forall>x \<in> set ?xs. CHR 0x0A \<notin> set x" "\<forall>y \<in> set ?ys. CHR 0x0A \<notin> set y"
    using assms(2) to_upper_no_newline hex_no_newline by auto
  then have "?xs = ?ys"
    using join_with_inj [OF assms(1) [unfolded buildCanonicalString_def]] by blast
  then show ?thesis by simp
qed

text \<open>Two texts that differ in one digit have different digests in hexadecimal.\<close>

lemma lower_hex_inj: "n < 16 \<Longrightarrow> m < 16 \<Longrightarrow> lower_hex n = lower_hex m \<Longrightarrow> n = m"
proof -
  assume a: "n < 16" "m < 16" "lower_hex n = lower_hex m"
  then have "of_char (lower_hex n) = (of_char (lower_hex m) :: nat)" by simp
  then show "n = m" using a(1,2) by (simp add: lower_hex_def of_char_of split: if_splits)
qed

lemma digest_hex_inj: "digest_hex a = digest_hex b \<Longrightarrow> a = b"
proof (induction a arbitrary: b)
  case (Cons x a)
  then obtain y b' where b: "b = y # b'" by (cases b) (auto simp: digest_hex_def)
  have d: "lower_hex (of_char x div 16) = lower_hex (of_char y div 16)" "lower_hex (of_char x mod 16) = lower_hex (of_char y mod 16)"
    "digest_hex a = digest_hex b'" using Cons.prems b by (simp_all add: digest_hex_def)
  have "of_char x div 16 = (of_char y div 16 :: nat)" by (rule lower_hex_inj [OF _ _ d(1)]) (rule nibble)+
  moreover have "of_char x mod 16 = (of_char y mod 16 :: nat)" by (rule lower_hex_inj [OF _ _ d(2)]) simp_all
  ultimately have "of_char x = (of_char y :: nat)" by (metis div_mult_mod_eq)
  then show ?case using Cons.IH d(3) b by simp
qed (auto simp: digest_hex_def)

lemma utf8_Cons: "utf8 (c # s) = utf8_char c @ utf8 s"
  by (simp add: utf8_def)

lemma utf8_char_cases:
  "(of_char c :: nat) < 128 \<and> utf8_char c = [c]
   \<or> (of_char c :: nat) \<ge> 128 \<and> utf8_char c = [char_of (192 + of_char c div 64 :: nat), char_of (128 + of_char c mod 64 :: nat)]"
  by (auto simp: utf8_char_def Let_def)

lemma char_of_inj: "n < 256 \<Longrightarrow> m < 256 \<Longrightarrow> char_of n = (char_of m :: char) \<Longrightarrow> n = (m :: nat)"
  by (drule arg_cong [where f = "of_char :: char \<Rightarrow> nat"]) (simp add: of_char_of)

lemma utf8_lead: "(of_char (char_of (192 + of_char c div 64 :: nat)) :: nat) \<ge> 192"
proof -
  have "(of_char c :: nat) div 64 < 4" using of_char_byte [of c] by (intro less_mult_imp_div_less) simp
  then show ?thesis by (simp only: of_char_of) simp
qed

lemma utf8_inj: "utf8 a = utf8 b \<Longrightarrow> a = b"
proof (induction a arbitrary: b)
  case Nil
  then show ?case using utf8_char_cases [of "hd b"] by (cases b) (auto simp: utf8_Cons utf8_def [of "[]"])
next
  case (Cons c a)
  then obtain d b' where b: "b = d # b'" using utf8_char_cases [of c] by (cases b) (auto simp: utf8_Cons utf8_def [of "[]"])
  have e: "utf8_char c @ utf8 a = utf8_char d @ utf8 b'" using Cons.prems b by (simp add: utf8_Cons)
  note C = utf8_char_cases [of c] and D = utf8_char_cases [of d]
  have "c = d \<and> utf8 a = utf8 b'"
  proof (cases "(of_char c :: nat) < 128"; cases "(of_char d :: nat) < 128")
    assume h: "(of_char c :: nat) < 128" "\<not> (of_char d :: nat) < 128"
    then have "c = char_of (192 + of_char d div 64 :: nat)" using C D e by auto
    then show ?thesis using utf8_lead [of d] h(1) by simp
  next
    assume h: "\<not> (of_char c :: nat) < 128" "(of_char d :: nat) < 128"
    then have "d = char_of (192 + of_char c div 64 :: nat)" using C D e by auto
    then show ?thesis using utf8_lead [of c] h(2) by simp
  next
    assume h: "\<not> (of_char c :: nat) < 128" "\<not> (of_char d :: nat) < 128"
    then have q: "char_of (192 + of_char c div 64 :: nat) = (char_of (192 + of_char d div 64 :: nat) :: char)"
      "char_of (128 + of_char c mod 64 :: nat) = (char_of (128 + of_char d mod 64 :: nat) :: char)" "utf8 a = utf8 b'"
      using C D e by auto
    have l: "(of_char x :: nat) div 64 < 4" "(of_char x :: nat) mod 64 < 64" for x
      using of_char_byte [of x] by (auto intro!: less_mult_imp_div_less)
    have "of_char c div 64 = (of_char d div 64 :: nat)" using char_of_inj [OF _ _ q(1)] l(1) [of c] l(1) [of d] by simp
    moreover have "of_char c mod 64 = (of_char d mod 64 :: nat)" using char_of_inj [OF _ _ q(2)] l(2) [of c] l(2) [of d] by simp
    ultimately have "of_char c = (of_char d :: nat)" by (metis div_mult_mod_eq)
    then show ?thesis using q(3) by simp
  qed (use C D e in auto)
  then show ?case using Cons.IH b by blast
qed

subsection \<open>Properties\<close>

text \<open>The SDK and the backend sign alike: the signature the SDK sends is the one the backend
  computes over the bytes the body travels as.\<close>

theorem sdk_and_backend_sign_alike:
  "sh_signature (signRequest c now uuid input) =
     inprocess_sign c \<lparr>si_method = sg_method input, si_path = sg_path input,
       si_timestamp = sh_timestamp (signRequest c now uuid input), si_nonce = sh_nonce (signRequest c now uuid input),
       si_body = utf8 (option_or (sg_body input) []), si_keyId = sg_keyId input\<rparr> (sg_secret input)"
  by (simp add: signRequest_def Let_def inprocess_sign_def canonical_def signature_alike canonical_alike)

text \<open>A request as it arrives: the signing headers, the method, the path and the bytes sent.\<close>

definition delivers :: "wire_request \<Rightarrow> signed_request \<Rightarrow> bool" where
  "delivers r req \<longleftrightarrow>
     list_all (\<lambda>h. req_headers req h = map_option HeaderOne (wr_headers r h))
       [''x-api-key'', ''x-timestamp'', ''x-nonce'', ''x-signature'']
     \<and> sr_method req = wr_method r \<and> sr_originalUrl req = Some (wr_path r) \<and> option_or (sr_rawBody req) [] = wr_bytes r"

lemma signed_fetch_Inr:
  assumes "signed_fetch_request c now uuid trace opts pathname search init = Inr r"
  obtains body where "wr_bytes r = utf8 body" "wr_path r = pathname @ search"
    "wr_headers r ''x-api-key'' = Some (sf_keyId opts)" "wr_headers r ''x-timestamp'' = Some (show_nat (now div 1000))"
    "wr_headers r ''x-nonce'' = Some uuid"
    "wr_headers r ''x-signature'' = Some (computeSignature c (sf_secret opts)
       (buildCanonicalString c (wr_method r) (wr_path r) (show_nat (now div 1000)) uuid (utf8 body)))"
proof -
  define body where "body = (case fi_body init of TextBody s \<Rightarrow> s | _ \<Rightarrow> [])"
  show thesis
    by (rule that [of body])
      (use assms in \<open>auto simp: signed_fetch_request_def Let_def signRequest_def signature_alike canonical_alike body_def
        split: fetch_body.splits\<close>)
qed

lemma show_nat_nonempty: "show_nat n \<noteq> []"
  using show_nat_props by blast

lemma computeSignature_nonempty: "cr_hmac c (utf8 secret) (utf8 text) \<noteq> [] \<Longrightarrow> computeSignature c secret text \<noteq> []"
  by (cases "cr_hmac c (utf8 secret) (utf8 text)") (auto simp: computeSignature_def digest_hex_def)


text \<open>A signature binds its request. One that verifies for a request, made for another without line
  breaks in its fields, was made for the same method, path, timestamp, nonce and body, unless two
  texts or two bodies with the same hash are at hand.\<close>

theorem signature_binds_request:
  assumes verified: "inprocess_verify c input (inprocess_sign c input' secret) secret = Inr True"
    and plain: "CHR 0x0A \<notin> set (si_method input @ si_path input @ si_timestamp input @ si_nonce input
      @ si_method input' @ si_path input' @ si_timestamp input' @ si_nonce input')"
  shows "(to_upper (si_method input) = to_upper (si_method input') \<and> si_path input = si_path input'
      \<and> si_timestamp input = si_timestamp input' \<and> si_nonce input = si_nonce input' \<and> si_body input = si_body input')
    \<or> (\<exists>a b. a \<noteq> b \<and> cr_hmac c (utf8 secret) a = cr_hmac c (utf8 secret) b)
    \<or> (\<exists>a b. a \<noteq> b \<and> cr_sha256 c a = cr_sha256 c b)"
proof -
  have h: "cr_hmac c (utf8 secret) (utf8 (canonical c input')) = cr_hmac c (utf8 secret) (utf8 (canonical c input))"
    using verified utf8_inj digest_hex_inj unfolding inprocess_verify_def inprocess_sign_def computeSignature_def by blast
  show ?thesis
  proof (cases "canonical c input = canonical c input'")
    case True
    from canonical_inj [OF this [unfolded canonical_def] plain] digest_hex_inj show ?thesis by blast
  next
    case False
    then have "utf8 (canonical c input) \<noteq> utf8 (canonical c input')" using utf8_inj by blast
    then show ?thesis using h by metis
  qed
qed

text \<open>A timestamp written as a number the guard reads and the native service does not, such as
  \<open>1e3\<close>, ends in an unexpected internal error before any signature is checked.\<close>

theorem native_timestamp_escapes_as_internal:
  assumes "signing_headers_of req = Some h" "timestamp_fresh (sd_number deps) now (sh_timestamp h)"
    and "sd_getKey deps (sh_keyId h) = Some key" "sd_verify deps = native_verify rpc failure"
    and "parse_int (sh_timestamp h) = None"
  shows "\<exists>e. signature_checks deps now req = Inl e \<and> ne_code (normalizeError sc num e) = INTERNAL
    \<and> ne_unexpected (normalizeError sc num e)"
proof -
  let ?e = "PlainError ''RangeError'' (''Signing timestamp must be integer seconds, got '' @ sh_timestamp h) []"
  have "signature_checks deps now req = Inl ?e"
    unfolding signature_checks_def assms(1)
    using assms(2-5) by (simp add: native_verify_def toUnixSeconds_def signature_input_of_def)
  moreover have "ne_code (normalizeError sc num ?e) = INTERNAL \<and> ne_unexpected (normalizeError sc num ?e)"
    by (simp add: normalizeError_def KNOWN_ERROR_NAMES_def error_props_def fromHttpErrorsLike_def http_like_status_def
      js_prop_def resolved_def Let_def)
  ultimately show ?thesis by blast
qed

text \<open>A small deployment: one key, and hash functions that keep their input.\<close>

definition small_crypto :: crypto where
  "small_crypto = \<lparr>cr_sha256 = (\<lambda>s. s), cr_hmac = (\<lambda>k m. CHR ''h'' # k @ m)\<rparr>"

definition small_signing :: "unit signature_deps" where
  "small_signing = \<lparr>sd_number = (\<lambda>s. if s = ''1e3'' then Some 1000 else map_option of_nat (parse_nat s)), sd_env = (\<lambda>_. None),
     sd_getKey = (\<lambda>k. if k = ''k1'' then Some \<lparr>ak_secret = ''s'', ak_tenantId = ''acme''\<rparr> else None),
     sd_verify = inprocess_verify small_crypto,
     sd_findTenant = (\<lambda>_. Inr (Some \<lparr>tr_id = ''acme'', tr_name = [], tr_status = TenantActive, tr_selfSignup = False\<rparr>)),
     sd_claim = (\<lambda>_ _ _ _ s. (Inr True, s))\<rparr>"

definition small_fetch :: signed_fetch where
  "small_fetch = \<lparr>sf_keyId = ''k1'', sf_secret = ''s'', sf_active = None\<rparr>"

definition small_init :: fetch_init where
  "small_init = \<lparr>fi_method = Some ''POST'', fi_body = TextBody ''{}'', fi_headers = (\<lambda>_. None)\<rparr>"

definition arrived :: "wire_request \<Rightarrow> signed_request" where
  "arrived r = \<lparr>req_headers = (\<lambda>h. map_option HeaderOne (wr_headers r h)), req_query = None, req_credentials = None,
     req_tenantId = None, req_tenantError = None, req_user = None,
     sr_method = wr_method r, sr_originalUrl = Some (wr_path r), sr_url = wr_path r, sr_rawBody = Some (wr_bytes r)\<rparr>"

lemma arrived_delivers: "delivers r (arrived r)"
  by (simp add: delivers_def arrived_def)


lemma signature_binds_request_witness:
  "let i = \<lparr>si_method = ''POST'', si_path = ''/a'', si_timestamp = ''1'', si_nonce = ''n'', si_body = ''b'', si_keyId = ''k1''\<rparr>;
       j = \<lparr>si_method = ''post'', si_path = ''/a'', si_timestamp = ''1'', si_nonce = ''n'', si_body = ''b'', si_keyId = ''k1''\<rparr>
   in inprocess_verify small_crypto i (inprocess_sign small_crypto j ''s'') ''s'' = Inr True
     \<and> (si_body i = si_body j \<or> (\<exists>a b. a \<noteq> b \<and> CHR ''h'' # a = CHR ''h'' # (b :: string)))"
proof -
  let ?i = "\<lparr>si_method = ''POST'', si_path = ''/a'', si_timestamp = ''1'', si_nonce = ''n'', si_body = ''b'', si_keyId = ''k1''\<rparr>"
  let ?j = "\<lparr>si_method = ''post'', si_path = ''/a'', si_timestamp = ''1'', si_nonce = ''n'', si_body = ''b'', si_keyId = ''k1''\<rparr>"
  have "to_upper ''post'' = to_upper ''POST''" by code_simp
  then have v: "inprocess_verify small_crypto ?i (inprocess_sign small_crypto ?j ''s'') ''s'' = Inr True"
    by (simp add: inprocess_verify_def inprocess_sign_def canonical_def buildCanonicalString_def)
  have inj: "(cr_hmac small_crypto k a = cr_hmac small_crypto k b) = (a = b)" "(cr_sha256 small_crypto a = cr_sha256 small_crypto b) = (a = b)"
    for k a b by (simp_all add: small_crypto_def)
  have "CHR 0x0A \<notin> set (si_method ?i @ si_path ?i @ si_timestamp ?i @ si_nonce ?i
      @ si_method ?j @ si_path ?j @ si_timestamp ?j @ si_nonce ?j)" by code_simp
  from signature_binds_request [OF v this] have "si_body ?i = si_body ?j"
  proof (elim disjE exE conjE)
    fix a b assume "a \<noteq> b" "cr_hmac small_crypto (utf8 ''s'') a = cr_hmac small_crypto (utf8 ''s'') b"
    then show ?thesis unfolding inj by (rule notE)
  next
    fix a b assume "a \<noteq> b" "cr_sha256 small_crypto a = cr_sha256 small_crypto b"
    then show ?thesis unfolding inj by (rule notE)
  qed
  then show ?thesis using v by (simp add: Let_def)
qed

definition small_failure :: "thrown \<Rightarrow> connect_error" where
  "small_failure e = \<lparr>ce_code = Unavailable, ce_details = [], ce_causeCode = None\<rparr>"

definition native_signing :: "unit signature_deps" where
  "native_signing = small_signing\<lparr>sd_verify := native_verify (\<lambda>_ _ _. Inr \<lparr>vr_valid = True, vr_reason = ''OK''\<rparr>) small_failure\<rparr>"

definition odd_request :: signed_request where
  "odd_request = arrived \<lparr>wr_method = ''GET'', wr_path = ''/a'', wr_bytes = [],
     wr_headers = [''x-api-key'' \<mapsto> ''k1'', ''x-timestamp'' \<mapsto> ''1e3'', ''x-nonce'' \<mapsto> ''n'', ''x-signature'' \<mapsto> ''s'']\<rparr>"

lemma native_timestamp_escapes_as_internal_witness:
  "\<exists>e. signature_checks native_signing 1000000 odd_request = Inl e
     \<and> ne_code (normalizeError (\<lambda>_. None) (\<lambda>_. []) e) = INTERNAL"
proof -
  let ?h = "\<lparr>sh_keyId = ''k1'', sh_timestamp = ''1e3'', sh_nonce = ''n'', sh_signature = ''s''\<rparr>"
  have h: "signing_headers_of odd_request = Some ?h"
    by (simp add: signing_headers_of_def req_header_def header_first_def odd_request_def arrived_def)
  have "timestamp_fresh (sd_number native_signing) 1000000 (sh_timestamp ?h)"
    by (simp add: timestamp_fresh_def native_signing_def small_signing_def SIGNATURE_MAX_SKEW_SECONDS_def)
  moreover have "sd_getKey native_signing (sh_keyId ?h) = Some \<lparr>ak_secret = ''s'', ak_tenantId = ''acme''\<rparr>"
    "sd_verify native_signing = native_verify (\<lambda>_ _ _. Inr \<lparr>vr_valid = True, vr_reason = ''OK''\<rparr>) small_failure"
    by (simp_all add: native_signing_def small_signing_def)
  moreover have "parse_int (sh_timestamp ?h) = None" by code_simp
  ultimately show ?thesis using native_timestamp_escapes_as_internal [OF h] by blast
qed

end
