(* ===== verification/Rpc.thy ===== *)
theory Rpc
  imports Tenancy Signing
begin

text \<open>
  The RPC server of the backend: \<open>infrastructure/rpc/{rpc-errors,rpc-authz.service,rpc-validation,
  rpc-server.service}.ts\<close>, \<open>infrastructure/rpc/interceptors/*.ts\<close> but for the metrics, and
  \<open>common/audit/audit-log.service.ts\<close>. An interceptor is a function from handlers to handlers;
  the chain composes them in the server's order. The RPC library, the OpenTelemetry tracer and
  class-validator are parameters. What a handler or an interceptor throws is an error of the
  backend or one that already is an RPC error.
\<close>

subsection \<open>RPC errors\<close>

datatype rpc_detail =
    ErrorInfo (ei_reason: string) (ei_domain: string) (ei_metadata: "(string \<times> string) list")
  | BadRequest "field_violation list"
  | OtherDetail string

record rpc_error =
  re_code :: rpc_code_name
  re_rawMessage :: string
  re_details :: "rpc_detail list"
  re_metadata :: "string \<Rightarrow> string option"

datatype rpc_thrown = Thrown thrown | Connect rpc_error

text \<open>\<open>{ ...metadata, retryable: String(retryable) }\<close>\<close>

definition errorInfo :: "error_code \<Rightarrow> bool \<Rightarrow> (string \<times> string) list \<Rightarrow> rpc_detail" where
  "errorInfo c retry metadata =
     ErrorInfo (error_code_text c) ERROR_DOMAIN
       ((''retryable'', if retry then ''true'' else ''false'') # filter (\<lambda>(k, _). k \<noteq> ''retryable'') metadata)"

definition badRequest :: "field_violation list \<Rightarrow> rpc_detail" where
  "badRequest violations = BadRequest (map (\<lambda>v. \<lparr>field = field v, description = description v\<rparr>) violations)"

fun is_error_info :: "rpc_detail \<Rightarrow> bool" where
  "is_error_info (ErrorInfo _ _ _) = True"
| "is_error_info _ = False"

definition hasErrorInfo :: "rpc_error \<Rightarrow> bool" where
  "hasErrorInfo e \<longleftrightarrow> (\<exists>d \<in> set (re_details e). is_error_info d)"

definition RETRYABLE_RPC_CODES :: "rpc_code_name list" where
  "RETRYABLE_RPC_CODES = [Unavailable, ResourceExhausted, Aborted, DeadlineExceeded]"

record rpc_error_mapping =
  em_error :: rpc_error
  em_unexpected :: bool
  em_code :: error_code

definition mapRpcError ::
  "(rat \<Rightarrow> string option) \<Rightarrow> (rat \<Rightarrow> string) \<Rightarrow> rpc_thrown \<Rightarrow> rpc_error_mapping" where
  "mapRpcError status_codes num err =
     (case err of
        Connect e \<Rightarrow>
          (let c = errorCodeForRpcCode (Inl (re_code e)) in
           \<lparr>em_error = (if hasErrorInfo e then e
              else e\<lparr>re_details := re_details e @ [errorInfo c (re_code e \<in> set RETRYABLE_RPC_CODES) []]\<rparr>),
            em_unexpected = False, em_code = c\<rparr>)
      | Thrown t \<Rightarrow>
          (let n = normalizeError status_codes num t in
           \<lparr>em_error =
              \<lparr>re_code = rpcCode (ne_definition n),
               re_rawMessage = option_or (ne_detail n) (publicMessage (ne_definition n)),
               re_details = [errorInfo (ne_code n) (retryable (ne_definition n)) (ne_metadata n)]
                 @ (if ne_fieldViolations n \<noteq> [] then [badRequest (ne_fieldViolations n)] else []),
               re_metadata = Map.empty\<rparr>,
            em_unexpected = ne_unexpected n, em_code = ne_code n\<rparr>))"

definition toConnectError :: "(rat \<Rightarrow> string option) \<Rightarrow> (rat \<Rightarrow> string) \<Rightarrow> rpc_thrown \<Rightarrow> rpc_error" where
  "toConnectError status_codes num err = em_error (mapRpcError status_codes num err)"

text \<open>\<open>message\<close> is the \<open>message\<close> of an \<open>Error\<close> and \<open>String\<close> of any other value.\<close>

definition errorMessage :: "(thrown \<Rightarrow> string) \<Rightarrow> rpc_thrown \<Rightarrow> string" where
  "errorMessage message err = (case err of Connect e \<Rightarrow> re_rawMessage e | Thrown t \<Rightarrow> message t)"

subsection \<open>Calls and interceptors\<close>

text \<open>A call: the request's headers, the service and method, whether it streams, its message, the
  credentials in the handler context and the tenant slot the handler runs in.\<close>

record 'm rpc_call =
  rq_header :: "string \<Rightarrow> string option"
  rq_service :: string
  rq_method :: string
  rq_stream :: bool
  rq_message :: 'm
  rq_credentials :: request_credentials
  rq_slot :: "tenant_scope option"

type_synonym ('m, 'w, 'a) rpc_handler = "'m rpc_call \<Rightarrow> 'w \<Rightarrow> (rpc_thrown + 'a) \<times> 'w"

text \<open>What the interceptors need: the error tables, the verifier, the policy, the method tables of
  the server, the guarded services, the tracer's trace id and the audit writer.\<close>

record audit_entry =
  ae_action :: string
  ae_actorUserId :: string
  ae_tenantId :: "string option"
  ae_resource :: string
  ae_outcome :: string
  ae_error :: "string option"

record ('m, 'w) rpc_server =
  rs_statusCodes :: "rat \<Rightarrow> string option"
  rs_num :: "rat \<Rightarrow> string"
  rs_message :: "thrown \<Rightarrow> string"
  rs_verify :: "'w token_verifier"
  rs_allow :: "string list \<Rightarrow> permission \<Rightarrow> thrown + bool"
  rs_permission :: "string \<Rightarrow> string \<Rightarrow> permission option"
  rs_dto :: "string \<Rightarrow> string \<Rightarrow> ('m \<Rightarrow> validation_error list) option"
  rs_protoName :: "string \<Rightarrow> string \<Rightarrow> string \<Rightarrow> string option"
  rs_audit :: "string \<Rightarrow> string \<Rightarrow> (string option \<times> string) option"
  rs_record :: "audit_entry \<Rightarrow> 'w \<Rightarrow> 'w"
  rs_traceId :: "'m rpc_call \<Rightarrow> string"

definition errorsInterceptor :: "('m, 'w) rpc_server \<Rightarrow> ('m, 'w, 'a) rpc_handler \<Rightarrow> ('m, 'w, 'a) rpc_handler" where
  "errorsInterceptor s nxt c w =
     (case nxt c w of
        (Inl e, w') \<Rightarrow> (Inl (Connect (toConnectError (rs_statusCodes s) (rs_num s) e)), w')
      | (Inr x, w') \<Rightarrow> (Inr x, w'))"

definition correlationInterceptor :: "('m, 'w) rpc_server \<Rightarrow> ('m, 'w, 'a) rpc_handler \<Rightarrow> ('m, 'w, 'a) rpc_handler" where
  "correlationInterceptor s nxt c w =
     (case nxt c w of
        (Inl (Connect e), w') \<Rightarrow>
          (Inl (Connect (e\<lparr>re_metadata := (re_metadata e)(''x-request-id'' \<mapsto> rs_traceId s c, ''trace-id'' \<mapsto> rs_traceId s c)\<rparr>)), w')
      | r \<Rightarrow> r)"

text \<open>\<open>expected\<close> is the configured service token, \<open>guarded\<close> the services of the internal tier only.\<close>

definition serviceIdentityInterceptor ::
  "string \<Rightarrow> string list \<Rightarrow> ('m, 'w, 'a) rpc_handler \<Rightarrow> ('m, 'w, 'a) rpc_handler" where
  "serviceIdentityInterceptor expected guarded nxt c w =
     (if rq_service c \<notin> set guarded then nxt c w
      else if expected = []
      then (Inl (Thrown (app_error_detail NOT_IMPLEMENTED ''The internal tier is disabled on this server'')), w)
      else if utf8 (option_or (rq_header c ''x-service-token'') []) \<noteq> utf8 expected
      then (Inl (Thrown (app_error_detail FORBIDDEN ''Invalid or missing x-service-token'')), w)
      else nxt c w)"

definition rpc_authenticate :: "('m, 'w) rpc_server \<Rightarrow> 'm rpc_call \<Rightarrow> 'w \<Rightarrow> request_credentials \<times> 'w" where
  "rpc_authenticate s c w = verify_once (rs_verify s) (bearerFromHeader (rq_header c ''authorization'')) w"

definition authenticationInterceptor ::
  "('m, 'w) rpc_server \<Rightarrow> ('m, 'w, 'a) rpc_handler \<Rightarrow> ('m, 'w, 'a) rpc_handler" where
  "authenticationInterceptor s nxt c w =
     (case rpc_authenticate s c w of (creds, w') \<Rightarrow> nxt (c\<lparr>rq_credentials := creds\<rparr>) w')"

definition tenantInterceptor :: "('m, 'w) rpc_server \<Rightarrow> ('m, 'w, 'a) rpc_handler \<Rightarrow> ('m, 'w, 'a) rpc_handler" where
  "tenantInterceptor s nxt c w =
     (case resolveTenant (map_option p_tenantId (rc_principal (rq_credentials c)))
             (map_option JStr (rq_header c ''x-tenant-id'')) of
        Inl e \<Rightarrow> (Inl (Connect (toConnectError (rs_statusCodes s) (rs_num s) (Thrown e))), w)
      | Inr tenant \<Rightarrow>
          (case nonempty tenant of
             None \<Rightarrow> nxt c w
           | Some t \<Rightarrow>
               (case parseTenantId (Some (JStr t)) of
                  Inl e \<Rightarrow> (Inl (Thrown e), w)
                | Inr t' \<Rightarrow> nxt (c\<lparr>rq_slot := Some (TenantScope t')\<rparr>) w)))"
definition auditInterceptor :: "('m, 'w) rpc_server \<Rightarrow> ('m, 'w, 'a) rpc_handler \<Rightarrow> ('m, 'w, 'a) rpc_handler" where
  "auditInterceptor s nxt c w =
     (case rs_audit s (rq_service c) (rq_method c) of
        Some (Some action, resource) \<Rightarrow>
          if action = [] then nxt c w
          else
          (let p = rc_principal (rq_credentials c);
               base = \<lparr>ae_action = action, ae_actorUserId = (case p of Some q \<Rightarrow> p_userId q | None \<Rightarrow> []),
                 ae_tenantId = (case p of Some q \<Rightarrow> Some (p_tenantId q) | None \<Rightarrow> currentTenant (rq_slot c)),
                 ae_resource = resource, ae_outcome = ''success'', ae_error = None\<rparr> in
           (case nxt c w of
              (Inr x, w') \<Rightarrow> (Inr x, rs_record s base w')
            | (Inl e, w') \<Rightarrow>
                (Inl e, rs_record s (base\<lparr>ae_outcome := ''error'', ae_error := Some (errorMessage (rs_message s) e)\<rparr>) w')))
      | _ \<Rightarrow> nxt c w)"

record rpc_caller =
  ca_sub :: string
  ca_email :: string
  ca_roles :: "string list"
  ca_tenantId :: string

definition callerOf :: "('m, 'w) rpc_server \<Rightarrow> request_credentials \<Rightarrow> rpc_thrown + rpc_caller" where
  "callerOf s cr =
     (let refuse = (\<lambda>t. Inl (Connect (toConnectError (rs_statusCodes s) (rs_num s) (Thrown t)))) in
      case nonempty (rc_token cr) of
        None \<Rightarrow> refuse (app_error_detail UNAUTHORIZED ''Missing authorization token'')
      | Some _ \<Rightarrow>
          (case rc_principal cr of
             None \<Rightarrow> refuse (option_or (rc_error cr) (app_error AUTH_TOKEN_INVALID))
           | Some p \<Rightarrow>
               Inr \<lparr>ca_sub = p_userId p, ca_email = p_email p, ca_roles = p_roles p, ca_tenantId = p_tenantId p\<rparr>))"

text \<open>\<open>RpcAuthzService.optionalCaller\<close>: a token that does not verify is not treated as anonymous.\<close>

definition optionalCaller :: "('m, 'w) rpc_server \<Rightarrow> request_credentials \<Rightarrow> rpc_thrown + rpc_caller option" where
  "optionalCaller s cr =
     (case nonempty (rc_token cr) of None \<Rightarrow> Inr None | Some _ \<Rightarrow> map_sum id Some (callerOf s cr))"

definition authorizationInterceptor ::
  "('m, 'w) rpc_server \<Rightarrow> ('m, 'w, 'a) rpc_handler \<Rightarrow> ('m, 'w, 'a) rpc_handler" where
  "authorizationInterceptor s nxt c w =
     (case rs_permission s (rq_service c) (rq_method c) of
        None \<Rightarrow> nxt c w
      | Some perm \<Rightarrow>
          (case callerOf s (rq_credentials c) of
             Inl e \<Rightarrow> (Inl e, w)
           | Inr caller \<Rightarrow>
               (case authorize (rs_allow s) (ca_roles caller) perm of
                  Inl e \<Rightarrow> (Inl (Thrown e), w)
                | Inr _ \<Rightarrow> nxt c w)))"

text \<open>\<open>rpcFieldViolations\<close>: the first part of the field and the leading word of the description are
  renamed; \<open>errors\<close> is what class-validator finds in the message. The pattern \<open>^head\b\<close> matches
  when the text starts with the head and exactly one side of its end is a word character.\<close>

definition word_boundary :: "string \<Rightarrow> string \<Rightarrow> bool" where
  "word_boundary before after \<longleftrightarrow>
     (before \<noteq> [] \<and> is_word_char (last before)) \<noteq> (after \<noteq> [] \<and> is_word_char (hd after))"

definition rename_violation :: "(string \<Rightarrow> string option) \<Rightarrow> field_violation \<Rightarrow> field_violation" where
  "rename_violation protoName v =
     (let parts = split_on CHR ''.'' (field v); head = hd parts; name = option_or (protoName head) head;
          rest = drop (length head) (description v) in
      \<lparr>field = join_with CHR ''.'' (name # tl parts),
       description = (if starts_with head (description v) \<and> word_boundary head rest
                      then name @ rest else description v)\<rparr>)"

definition rpcFieldViolations :: "(string \<Rightarrow> string option) \<Rightarrow> validation_error list \<Rightarrow> field_violation list" where
  "rpcFieldViolations protoName errors =
     map (rename_violation protoName) (fieldViolationsFromValidationErrors errors [])"

definition validationInterceptor ::
  "('m, 'w) rpc_server \<Rightarrow> ('m, 'w, 'a) rpc_handler \<Rightarrow> ('m, 'w, 'a) rpc_handler" where
  "validationInterceptor s nxt c w =
     (case rs_dto s (rq_service c) (rq_method c) of
        Some validate \<Rightarrow>
          if rq_stream c then nxt c w
          else (let violations = rpcFieldViolations (rs_protoName s (rq_service c) (rq_method c)) (validate (rq_message c)) in
                if violations \<noteq> [] then (Inl (Thrown (app_error_validation violations None)), w) else nxt c w)
      | None \<Rightarrow> nxt c w)"

text \<open>The chain of a tier, outermost first. \<open>identity\<close> is the service token and the guarded services
  of the internal tier. The values of a call start empty, outside any tenant.\<close>

definition rpc_chain ::
  "('m, 'w) rpc_server \<Rightarrow> (string \<times> string list) option \<Rightarrow> ('m, 'w, 'a) rpc_handler \<Rightarrow> ('m, 'w, 'a) rpc_handler" where
  "rpc_chain s identity handler =
     correlationInterceptor s (errorsInterceptor s
       ((case identity of None \<Rightarrow> id | Some (expected, guarded) \<Rightarrow> serviceIdentityInterceptor expected guarded)
         (authenticationInterceptor s (tenantInterceptor s (auditInterceptor s
           (authorizationInterceptor s (validationInterceptor s handler)))))))"

definition rpc_incoming :: "(string \<Rightarrow> string option) \<Rightarrow> string \<Rightarrow> string \<Rightarrow> bool \<Rightarrow> 'm \<Rightarrow> 'm rpc_call" where
  "rpc_incoming hdr service method stream message =
     \<lparr>rq_header = hdr, rq_service = service, rq_method = method, rq_stream = stream, rq_message = message,
      rq_credentials = \<lparr>rc_token = None, rc_principal = None, rc_error = None\<rparr>, rq_slot = None\<rparr>"

text \<open>The tiers of a registered service, and the services the internal tier guards.\<close>

datatype rpc_tier = PublicTier | InternalTier

definition guarded_services :: "(string \<times> rpc_tier list) list \<Rightarrow> string list" where
  "guarded_services services =
     map fst (filter (\<lambda>(_, tiers). InternalTier \<in> set tiers \<and> PublicTier \<notin> set tiers) services)"

definition served :: "rpc_tier \<Rightarrow> (string \<times> rpc_tier list) list \<Rightarrow> string list" where
  "served tier services = map fst (filter (\<lambda>(_, tiers). tier \<in> set tiers) services)"

definition tier_handler ::
  "('m, 'w) rpc_server \<Rightarrow> (string \<times> rpc_tier list) list \<Rightarrow> string \<Rightarrow> rpc_tier \<Rightarrow> ('m, 'w, 'a) rpc_handler \<Rightarrow> ('m, 'w, 'a) rpc_handler" where
  "tier_handler s services token tier =
     rpc_chain s (case tier of InternalTier \<Rightarrow> Some (token, guarded_services services) | PublicTier \<Rightarrow> None)"

subsection \<open>Whether the handler runs\<close>

text \<open>A handler whose answer shows in the answer of the chain has run: two handlers that make a
  difference tell which calls come through an interceptor, and how.\<close>

lemma correlation_differs:
  "correlationInterceptor s n c w \<noteq> correlationInterceptor s n' c w \<Longrightarrow> n c w \<noteq> n' c w"
  by (auto simp: correlationInterceptor_def)

lemma errors_differs:
  "errorsInterceptor s n c w \<noteq> errorsInterceptor s n' c w \<Longrightarrow> n c w \<noteq> n' c w"
  by (auto simp: errorsInterceptor_def)

lemma identity_differs:
  assumes "serviceIdentityInterceptor expected guarded n c w \<noteq> serviceIdentityInterceptor expected guarded n' c w"
  shows "n c w \<noteq> n' c w \<and>
    (rq_service c \<in> set guarded \<longrightarrow> expected \<noteq> [] \<and> utf8 (option_or (rq_header c ''x-service-token'') []) = utf8 expected)"
  using assms by (auto simp: serviceIdentityInterceptor_def split: if_splits)

lemma authentication_differs:
  assumes "authenticationInterceptor s n c w \<noteq> authenticationInterceptor s n' c w"
  shows "\<exists>creds w1. rpc_authenticate s c w = (creds, w1) \<and>
    n (c\<lparr>rq_credentials := creds\<rparr>) w1 \<noteq> n' (c\<lparr>rq_credentials := creds\<rparr>) w1"
  using assms by (cases "rpc_authenticate s c w") (auto simp: authenticationInterceptor_def)

lemma tenant_differs:
  assumes "tenantInterceptor s n c w \<noteq> tenantInterceptor s n' c w"
  shows "\<exists>tenant. resolveTenant (map_option p_tenantId (rc_principal (rq_credentials c)))
      (map_option JStr (rq_header c ''x-tenant-id'')) = Inr tenant \<and>
    (case nonempty tenant of
       None \<Rightarrow> n c w \<noteq> n' c w
     | Some t \<Rightarrow> isTenantId t \<and> n (c\<lparr>rq_slot := Some (TenantScope t)\<rparr>) w \<noteq> n' (c\<lparr>rq_slot := Some (TenantScope t)\<rparr>) w)"
  using assms
  by (auto simp: tenantInterceptor_def parseTenantId_def split: sum.splits option.splits if_splits)

lemma audit_differs: "auditInterceptor s n c w \<noteq> auditInterceptor s n' c w \<Longrightarrow> n c w \<noteq> n' c w"
  by (auto simp: auditInterceptor_def Let_def split: option.splits prod.splits if_splits)

lemma tenant_audit_differs:
  assumes "tenantInterceptor s (auditInterceptor s n) c w \<noteq> tenantInterceptor s (auditInterceptor s n') c w"
  obtains tenant where "resolveTenant (map_option p_tenantId (rc_principal (rq_credentials c)))
      (map_option JStr (rq_header c ''x-tenant-id'')) = Inr tenant"
    "case nonempty tenant of
       None \<Rightarrow> n c w \<noteq> n' c w
     | Some t \<Rightarrow> isTenantId t \<and> n (c\<lparr>rq_slot := Some (TenantScope t)\<rparr>) w \<noteq> n' (c\<lparr>rq_slot := Some (TenantScope t)\<rparr>) w"
proof -
  obtain tenant where t: "resolveTenant (map_option p_tenantId (rc_principal (rq_credentials c)))
      (map_option JStr (rq_header c ''x-tenant-id'')) = Inr tenant"
    and d: "case nonempty tenant of
       None \<Rightarrow> auditInterceptor s n c w \<noteq> auditInterceptor s n' c w
     | Some t \<Rightarrow> isTenantId t \<and> auditInterceptor s n (c\<lparr>rq_slot := Some (TenantScope t)\<rparr>) w
         \<noteq> auditInterceptor s n' (c\<lparr>rq_slot := Some (TenantScope t)\<rparr>) w"
    using tenant_differs [OF assms] by blast
  show thesis
    by (rule that [OF t]) (use d in \<open>auto split: option.splits dest: audit_differs\<close>)
qed

lemma authorization_differs:
  assumes "authorizationInterceptor s n c w \<noteq> authorizationInterceptor s n' c w"
  shows "n c w \<noteq> n' c w \<and>
    (\<forall>perm. rs_permission s (rq_service c) (rq_method c) = Some perm \<longrightarrow>
       (\<exists>t p. rc_token (rq_credentials c) = Some t \<and> rc_principal (rq_credentials c) = Some p \<and>
          rs_allow s (p_roles p) perm = Inr True))"
  using assms
  by (auto simp: authorizationInterceptor_def callerOf_def authorize_def Let_def nonempty_Some
      split: option.splits sum.splits if_splits)

lemma validation_differs:
  assumes "validationInterceptor s n c w \<noteq> validationInterceptor s n' c w"
  shows "n c w \<noteq> n' c w \<and>
    (\<forall>validate. rs_dto s (rq_service c) (rq_method c) = Some validate \<longrightarrow> \<not> rq_stream c \<longrightarrow>
       fieldViolationsFromValidationErrors (validate (rq_message c)) [] = [])"
  using assms
  by (auto simp: validationInterceptor_def rpcFieldViolations_def Let_def split: option.splits if_splits)

lemma verify_once_principal:
  assumes "verify_once verify token w = (creds, w1)" "rc_principal creds = Some p"
  shows "\<exists>t. token = Some t \<and> rc_token creds = Some t \<and> verify t w = (Inr p, w1)"
  using assms by (auto simp: verify_once_def split: option.splits prod.splits sum.splits)

lemma resolve_verified:
  assumes "resolveTenant (Some v) hint = Inr tenant" "v \<noteq> []"
  shows "tenant = Some v \<and> (\<forall>r. requested_tenant hint = Inr (Some r) \<longrightarrow> r = v)"
  using assms by (cases v) (auto simp: resolveTenant_def split: sum.splits option.splits if_splits)

text \<open>The calls that reach the handler of a guarded method, and what the handler is given.\<close>

definition admitted ::
  "('m, 'w) rpc_server \<Rightarrow> permission \<Rightarrow> 'm rpc_call \<Rightarrow> 'w \<Rightarrow> principal \<Rightarrow> 'm rpc_call \<Rightarrow> 'w \<Rightarrow> bool" where
  "admitted s perm c w p c' w' \<longleftrightarrow>
     (\<exists>t. bearerFromHeader (rq_header c ''authorization'') = Some t \<and> rs_verify s t w = (Inr p, w')
        \<and> rq_credentials c' = \<lparr>rc_token = Some t, rc_principal = Some p, rc_error = None\<rparr>)
     \<and> rs_allow s (p_roles p) perm = Inr True
     \<and> rq_slot c' = Some (TenantScope (p_tenantId p)) \<and> isTenantId (p_tenantId p)
     \<and> (\<forall>hint. requested_tenant (map_option JStr (rq_header c ''x-tenant-id'')) = Inr (Some hint) \<longrightarrow> hint = p_tenantId p)
     \<and> rq_message c' = rq_message c"

text \<open>C6: The handler of a guarded RPC runs only for a call whose bearer token verifies as a principal
  the policy allows, in that principal's tenant, whatever the tenant header says; on the internal tier
  a guarded service also needs the service token, and a unary message passes its validation first.\<close>

theorem rpc_handler_runs_admitted:
  assumes perm: "rs_permission s svc meth = Some perm"
    and tenants: "\<forall>t w p w'. rs_verify s t w = (Inr p, w') \<longrightarrow> p_tenantId p \<noteq> []"
    and runs: "tier_handler s services token tier h (rpc_incoming hdr svc meth stream msg) w
      \<noteq> tier_handler s services token tier h' (rpc_incoming hdr svc meth stream msg) w"
  shows "(\<exists>p c' w'. admitted s perm (rpc_incoming hdr svc meth stream msg) w p c' w' \<and> h c' w' \<noteq> h' c' w')
    \<and> (tier = InternalTier \<and> svc \<in> set (guarded_services services) \<longrightarrow>
         token \<noteq> [] \<and> utf8 (option_or (hdr ''x-service-token'') []) = utf8 token)
    \<and> (\<forall>validate. rs_dto s svc meth = Some validate \<and> \<not> stream \<longrightarrow>
         fieldViolationsFromValidationErrors (validate msg) [] = [])"
proof -
  let ?c = "rpc_incoming hdr svc meth stream msg"
  let ?chain = "\<lambda>h. authenticationInterceptor s (tenantInterceptor s (auditInterceptor s
    (authorizationInterceptor s (validationInterceptor s h))))"
  have "?chain h ?c w \<noteq> ?chain h' ?c w \<and> (tier = InternalTier \<and> svc \<in> set (guarded_services services) \<longrightarrow>
         token \<noteq> [] \<and> utf8 (option_or (hdr ''x-service-token'') []) = utf8 token)"
    using errors_differs [OF correlation_differs [OF runs [unfolded tier_handler_def rpc_chain_def]]]
      identity_differs [of token "guarded_services services" "?chain h" ?c w "?chain h'"]
    by (cases tier) (auto simp: rpc_incoming_def)
  then have differ: "?chain h ?c w \<noteq> ?chain h' ?c w"
    and identity: "tier = InternalTier \<and> svc \<in> set (guarded_services services) \<longrightarrow>
         token \<noteq> [] \<and> utf8 (option_or (hdr ''x-service-token'') []) = utf8 token"
    by auto
  obtain creds w1 where auth: "rpc_authenticate s ?c w = (creds, w1)"
    and d1: "tenantInterceptor s (auditInterceptor s (authorizationInterceptor s (validationInterceptor s h))) (?c\<lparr>rq_credentials := creds\<rparr>) w1
      \<noteq> tenantInterceptor s (auditInterceptor s (authorizationInterceptor s (validationInterceptor s h'))) (?c\<lparr>rq_credentials := creds\<rparr>) w1"
    using authentication_differs [OF differ] by blast
  obtain tenant where res: "resolveTenant (map_option p_tenantId (rc_principal creds)) (map_option JStr (hdr ''x-tenant-id'')) = Inr tenant"
    and d2: "case nonempty tenant of
       None \<Rightarrow> authorizationInterceptor s (validationInterceptor s h) (?c\<lparr>rq_credentials := creds\<rparr>) w1
         \<noteq> authorizationInterceptor s (validationInterceptor s h') (?c\<lparr>rq_credentials := creds\<rparr>) w1
     | Some t \<Rightarrow> isTenantId t \<and>
         authorizationInterceptor s (validationInterceptor s h) (?c\<lparr>rq_credentials := creds, rq_slot := Some (TenantScope t)\<rparr>) w1
         \<noteq> authorizationInterceptor s (validationInterceptor s h') (?c\<lparr>rq_credentials := creds, rq_slot := Some (TenantScope t)\<rparr>) w1"
    by (rule tenant_audit_differs [OF d1]) (simp add: rpc_incoming_def)
  define c' where "c' = (case nonempty tenant of None \<Rightarrow> ?c\<lparr>rq_credentials := creds\<rparr>
    | Some t \<Rightarrow> ?c\<lparr>rq_credentials := creds, rq_slot := Some (TenantScope t)\<rparr>)"
  have d3: "authorizationInterceptor s (validationInterceptor s h) c' w1 \<noteq> authorizationInterceptor s (validationInterceptor s h') c' w1"
    using d2 by (auto simp: c'_def split: option.splits)
  have c': "rq_service c' = svc" "rq_method c' = meth" "rq_message c' = msg" "rq_stream c' = stream" "rq_credentials c' = creds"
    by (auto simp: c'_def rpc_incoming_def split: option.splits)
  note az = authorization_differs [OF d3, unfolded c']
  then obtain t p where p: "rc_token creds = Some t" "rc_principal creds = Some p" "rs_allow s (p_roles p) perm = Inr True"
    using perm by blast
  note va = validation_differs [OF conjunct1 [OF az], unfolded c']
  obtain t' where t': "bearerFromHeader (hdr ''authorization'') = Some t'" "rs_verify s t' w = (Inr p, w1)" "rc_token creds = Some t'"
    using verify_once_principal [OF auth [unfolded rpc_authenticate_def] p(2)] by (auto simp: rpc_incoming_def)
  have creds: "creds = \<lparr>rc_token = Some t', rc_principal = Some p, rc_error = None\<rparr>"
    using auth t' by (simp add: rpc_authenticate_def verify_once_def rpc_incoming_def)
  have ne: "p_tenantId p \<noteq> []" using tenants t'(2) by blast
  have tn: "tenant = Some (p_tenantId p)"
    "\<forall>r. requested_tenant (map_option JStr (hdr ''x-tenant-id'')) = Inr (Some r) \<longrightarrow> r = p_tenantId p"
    using resolve_verified [OF _ ne, of "map_option JStr (hdr ''x-tenant-id'')" tenant] res p(2) by auto
  have ne': "nonempty tenant = Some (p_tenantId p)" using tn ne by (simp add: nonempty_Some)
  have "admitted s perm ?c w p c' w1"
    using t' creds p ne' d2 tn c' by (auto simp: admitted_def rpc_incoming_def c'_def)
  then show ?thesis using va identity by blast
qed
subsection \<open>The audit trail\<close>

text \<open>A world with an audit trail: writing an entry appends it, and neither the verifier nor the handler
  touches it.\<close>

definition audited_world ::
  "('m, 'w) rpc_server \<Rightarrow> ('m, 'w, 'a) rpc_handler \<Rightarrow> ('w \<Rightarrow> audit_entry list) \<Rightarrow> bool" where
  "audited_world s h trail \<longleftrightarrow>
     (\<forall>e w. trail (rs_record s e w) = trail w @ [e]) \<and> (\<forall>t w. trail (snd (rs_verify s t w)) = trail w)
     \<and> (\<forall>c w. trail (snd (h c w)) = trail w)"

lemma inner_keeps_log:
  assumes "audited_world s h trail"
  shows "trail (snd (authorizationInterceptor s (validationInterceptor s h) c w)) = trail w"
  using assms
  by (auto simp: audited_world_def authorizationInterceptor_def validationInterceptor_def Let_def
      split: option.splits sum.splits)

lemma authenticate_keeps_log:
  assumes "audited_world s h trail"
  shows "trail (snd (rpc_authenticate s c w)) = trail w"
proof -
  have "trail (snd (rs_verify s t w)) = trail w" for t using assms by (simp add: audited_world_def)
  then show ?thesis
    by (auto simp: rpc_authenticate_def verify_once_def split: option.split prod.split sum.split) (metis snd_conv)+
qed

definition is_answer :: "(rpc_thrown + 'a) \<Rightarrow> bool" where
  "is_answer r \<longleftrightarrow> (\<exists>x. r = Inr x)"

text \<open>The entry of a call: whom it names, and how it ended.\<close>

definition audit_of :: "string \<Rightarrow> string \<Rightarrow> principal option \<Rightarrow> bool \<Rightarrow> audit_entry \<Rightarrow> bool" where
  "audit_of action resource p ok e \<longleftrightarrow>
     ae_action e = action \<and> ae_resource e = resource \<and> ae_outcome e = (if ok then ''success'' else ''error'')
     \<and> ae_actorUserId e = (case p of Some q \<Rightarrow> p_userId q | None \<Rightarrow> [])
     \<and> (\<forall>q. p = Some q \<longrightarrow> ae_tenantId e = Some (p_tenantId q)) \<and> (ae_error e = None \<longleftrightarrow> ok)"

lemma audit_writes:
  assumes "audited_world s h trail" "rs_audit s (rq_service c) (rq_method c) = Some (Some action, resource)" "action \<noteq> []"
    and "auditInterceptor s (authorizationInterceptor s (validationInterceptor s h)) c w = (r, w')"
  shows "\<exists>e. trail w' = trail w @ [e] \<and> audit_of action resource (rc_principal (rq_credentials c)) (is_answer r) e"
proof -
  obtain r1 w1 where inner: "authorizationInterceptor s (validationInterceptor s h) c w = (r1, w1)"
    by (cases "authorizationInterceptor s (validationInterceptor s h) c w")
  have "trail w1 = trail w" using inner_keeps_log [OF assms(1), of c w] inner by simp
  moreover have "trail (rs_record s e w1) = trail w1 @ [e]" for e using assms(1) by (simp add: audited_world_def)
  ultimately show ?thesis
    using assms(2-4) inner
    by (cases r1) (auto simp: auditInterceptor_def audit_of_def is_answer_def Let_def)
qed

lemma tenant_writes:
  assumes world: "audited_world s h trail"
    and target: "rs_audit s (rq_service c) (rq_method c) = Some (Some action, resource)" "action \<noteq> []"
    and run: "tenantInterceptor s (auditInterceptor s (authorizationInterceptor s (validationInterceptor s h))) c w = (r, w')"
    and valid: "\<forall>p. rc_principal (rq_credentials c) = Some p \<longrightarrow> isTenantId (p_tenantId p)"
  shows "(\<exists>e. trail w' = trail w @ [e] \<and> audit_of action resource (rc_principal (rq_credentials c)) (is_answer r) e) \<or>
    (trail w' = trail w \<and> \<not> is_answer r \<and>
     (\<exists>e. resolveTenant (map_option p_tenantId (rc_principal (rq_credentials c))) (map_option JStr (rq_header c ''x-tenant-id'')) = Inl e))"
proof (cases "resolveTenant (map_option p_tenantId (rc_principal (rq_credentials c))) (map_option JStr (rq_header c ''x-tenant-id''))")
  case (Inl e)
  then show ?thesis using run by (auto simp: tenantInterceptor_def is_answer_def)
next
  case (Inr tenant)
  have ok: "isTenantId t" if "nonempty tenant = Some t" for t
    using Inr that valid
    by (cases "rc_principal (rq_credentials c)")
      (auto simp: resolveTenant_def requested_tenant_def parseTenantId_def nonempty_Some
        split: sum.splits option.splits json.splits if_splits)
  show ?thesis
  proof (cases "nonempty tenant")
    case None
    then show ?thesis
      using audit_writes [OF world target] run Inr by (simp add: tenantInterceptor_def)
  next
    case (Some t)
    have "rs_audit s (rq_service (c\<lparr>rq_slot := Some (TenantScope t)\<rparr>)) (rq_method (c\<lparr>rq_slot := Some (TenantScope t)\<rparr>)) = Some (Some action, resource)"
      using target by simp
    from audit_writes [OF world this target(2)] show ?thesis
      using run Inr Some ok [OF Some] by (simp add: tenantInterceptor_def parseTenantId_def)
  qed
qed

text \<open>Every call of an audited RPC leaves exactly one audit entry, with its outcome and, as actor, the
  verified principal or no one; only a call refused for its service token or its tenant header leaves
  none. So a denied or invalid call is on record, and a forged token never names an actor.\<close>

theorem rpc_calls_audited:
  assumes world: "audited_world s h trail"
    and target: "rs_audit s svc meth = Some (Some action, resource)" "action \<noteq> []"
    and valid: "\<forall>t w p w'. rs_verify s t w = (Inr p, w') \<longrightarrow> isTenantId (p_tenantId p)"
    and run: "tier_handler s services token tier h (rpc_incoming hdr svc meth stream msg) w = (r, w')"
  shows "let who = rc_principal (fst (rpc_authenticate s (rpc_incoming hdr svc meth stream msg) w)) in
    (\<exists>e. trail w' = trail w @ [e] \<and> audit_of action resource who (is_answer r) e) \<or>
    (trail w' = trail w \<and> \<not> is_answer r \<and>
      ((tier = InternalTier \<and> svc \<in> set (guarded_services services)
          \<and> (token = [] \<or> utf8 (option_or (hdr ''x-service-token'') []) \<noteq> utf8 token)) \<or>
       (\<exists>e. resolveTenant (map_option p_tenantId who) (map_option JStr (hdr ''x-tenant-id'')) = Inl e)))"
proof -
  let ?c = "rpc_incoming hdr svc meth stream msg"
  let ?inner = "tenantInterceptor s (auditInterceptor s (authorizationInterceptor s (validationInterceptor s h)))"
  let ?auth = "authenticationInterceptor s ?inner"
  define idy where "idy = (case tier of InternalTier \<Rightarrow> serviceIdentityInterceptor token (guarded_services services) ?auth | PublicTier \<Rightarrow> ?auth)"
  obtain r1 where idy: "idy ?c w = (r1, w')" "is_answer r \<longleftrightarrow> is_answer r1"
  proof -
    obtain r1 w1 where 1: "idy ?c w = (r1, w1)" by (cases "idy ?c w")
    have "tier_handler s services token tier h ?c w = correlationInterceptor s (errorsInterceptor s idy) ?c w"
      by (cases tier) (simp_all add: tier_handler_def rpc_chain_def idy_def)
    then have "w1 = w' \<and> (is_answer r \<longleftrightarrow> is_answer r1)"
      using run 1 by (cases r1) (auto simp: correlationInterceptor_def errorsInterceptor_def is_answer_def)
    then show thesis using that 1 by simp
  qed
  show ?thesis
  proof (cases "tier = InternalTier \<and> svc \<in> set (guarded_services services)
      \<and> (token = [] \<or> utf8 (option_or (hdr ''x-service-token'') []) \<noteq> utf8 token)")
    case True
    then have "trail w' = trail w \<and> \<not> is_answer r1"
      using idy(1) by (auto simp: idy_def serviceIdentityInterceptor_def is_answer_def rpc_incoming_def split: if_splits)
    then show ?thesis using True idy(2) by (simp add: Let_def)
  next
    case False
    then have auth: "?auth ?c w = (r1, w')"
      using idy(1) by (cases tier) (auto simp: idy_def serviceIdentityInterceptor_def rpc_incoming_def split: if_splits)
    obtain creds w1 where cr: "rpc_authenticate s ?c w = (creds, w1)" by (cases "rpc_authenticate s ?c w")
    have keeps: "trail w1 = trail w" using authenticate_keeps_log [OF world, of ?c w] cr by simp
    let ?d = "?c\<lparr>rq_credentials := creds\<rparr>"
    have inner: "?inner ?d w1 = (r1, w')" using auth cr by (simp add: authenticationInterceptor_def)
    have ok: "\<forall>p. rc_principal (rq_credentials ?d) = Some p \<longrightarrow> isTenantId (p_tenantId p)"
      using verify_once_principal [OF cr [unfolded rpc_authenticate_def]] valid by auto blast
    have "rs_audit s (rq_service ?d) (rq_method ?d) = Some (Some action, resource)"
      using target by (simp add: rpc_incoming_def)
    from tenant_writes [OF world this target(2) inner ok] show ?thesis
      using cr keeps idy(2) unfolding rpc_incoming_def Let_def by auto
  qed
qed

text \<open>One guarded, audited method; the world is its audit log. The token \<open>t\<close> is its member's.\<close>

definition small_member :: principal where
  "small_member = \<lparr>p_userId = ''u1'', p_email = ''m@x'', p_roles = [''admin''], p_tenantId = ''acme'', p_jti = ''j'', p_exp = 0\<rparr>"

definition small_server :: "(unit, audit_entry list) rpc_server" where
  "small_server =
     \<lparr>rs_statusCodes = (\<lambda>_. None), rs_num = (\<lambda>_. []), rs_message = (\<lambda>_. []),
      rs_verify = (\<lambda>t w. (if t = ''t'' then Inr small_member else Inl (app_error AUTH_TOKEN_INVALID), w)),
      rs_allow = (\<lambda>roles _. Inr (''admin'' \<in> set roles)),
      rs_permission = (\<lambda>_ _. Some \<lparr>perm_resource = ''user'', perm_action = ''read''\<rparr>),
      rs_dto = (\<lambda>_ _. None), rs_protoName = (\<lambda>_ _ _. None),
      rs_audit = (\<lambda>_ _. Some (Some ''user.read'', ''Users.read'')),
      rs_record = (\<lambda>e w. w @ [e]), rs_traceId = (\<lambda>_. [])\<rparr>"

definition small_headers :: "string \<Rightarrow> string option" where
  "small_headers k = (if k = ''authorization'' then Some ''Bearer t'' else None)"

definition small_rpc :: "nat \<Rightarrow> (rpc_thrown + nat) \<times> audit_entry list" where
  "small_rpc n = tier_handler small_server [(''Users'', [PublicTier])] [] PublicTier (\<lambda>_ w. (Inr n, w))
     (rpc_incoming small_headers ''Users'' ''read'' False ()) []"

lemma small_tenant: "p_tenantId small_member = ''acme'' \<and> isTenantId ''acme''"
  by code_simp

lemma small_tables:
  "rs_permission small_server a b = Some \<lparr>perm_resource = ''user'', perm_action = ''read''\<rparr>"
  "rs_dto small_server a b = None" "rs_allow small_server (p_roles small_member) q = Inr True"
  by (simp_all add: small_server_def small_member_def)

lemma small_rpc_answers: "fst (small_rpc n) = Inr n"
proof -
  have b: "bearerFromHeader (small_headers ''authorization'') = Some ''t''" by code_simp
  have x: "small_headers ''x-tenant-id'' = None" by code_simp
  have v: "rs_verify small_server ''t'' w = (Inr small_member, w)" for w by (simp add: small_server_def)
  have r: "resolveTenant (Some ''acme'') None = Inr (Some ''acme'')"
    by (simp add: resolveTenant_def requested_tenant_def)
  have p: "parseTenantId (Some (JStr ''acme'')) = Inr ''acme''"
    using small_tenant by (simp add: parseTenantId_def)
  have audit: "fst (auditInterceptor small_server nxt c w) = fst (nxt c w)"
    for nxt :: "(unit, audit_entry list, nat) rpc_handler" and c w
    by (auto simp: auditInterceptor_def Let_def split: option.splits prod.splits sum.splits)
  have inner: "authorizationInterceptor small_server (validationInterceptor small_server h) c w = h c w"
    if "rq_credentials c = \<lparr>rc_token = Some ''t'', rc_principal = Some small_member, rc_error = None\<rparr>"
    for h :: "(unit, audit_entry list, nat) rpc_handler" and c w
    using that
    by (simp add: authorizationInterceptor_def validationInterceptor_def callerOf_def authorize_def Let_def small_tables)
  define nxt :: "(unit, audit_entry list, nat) rpc_handler"
    where "nxt = auditInterceptor small_server (authorizationInterceptor small_server
      (validationInterceptor small_server (\<lambda>_ w. (Inr n, w))))"
  have n: "fst (nxt c w) = Inr n"
    if "rq_credentials c = \<lparr>rc_token = Some ''t'', rc_principal = Some small_member, rc_error = None\<rparr>" for c w
    unfolding nxt_def audit using inner [OF that] by simp
  have t: "fst (authenticationInterceptor small_server (tenantInterceptor small_server nxt)
      (rpc_incoming small_headers ''Users'' ''read'' False ()) []) = Inr n"
    using small_tenant
    by (simp add: authenticationInterceptor_def rpc_authenticate_def rpc_incoming_def b verify_once_def v
        tenantInterceptor_def x r p n)
  then obtain w' where "authenticationInterceptor small_server (tenantInterceptor small_server nxt)
      (rpc_incoming small_headers ''Users'' ''read'' False ()) [] = (Inr n, w')"
    by (metis prod.collapse)
  then show ?thesis
    by (simp add: small_rpc_def tier_handler_def rpc_chain_def correlationInterceptor_def errorsInterceptor_def
        flip: nxt_def)
qed

lemma rpc_handler_runs_admitted_witness:
  "\<exists>p c' w'. admitted small_server \<lparr>perm_resource = ''user'', perm_action = ''read''\<rparr>
     (rpc_incoming small_headers ''Users'' ''read'' False ()) [] p c' w'"
proof -
  have "fst (small_rpc 0) \<noteq> fst (small_rpc 1)" by (simp add: small_rpc_answers)
  then have "small_rpc 0 \<noteq> small_rpc 1" by auto
  from rpc_handler_runs_admitted [OF _ _ this [unfolded small_rpc_def], of "\<lparr>perm_resource = ''user'', perm_action = ''read''\<rparr>"]
  show ?thesis using small_tenant by (auto simp: small_server_def split: if_splits)
qed

lemma rpc_calls_audited_witness:
  "\<exists>e. snd (small_rpc 5) = [e] \<and> ae_outcome e = ''success''"
proof -
  obtain w' where run: "small_rpc 5 = (Inr 5, w')" using small_rpc_answers [of 5] by (metis prod.collapse)
  have world: "audited_world small_server (\<lambda>_ w. (Inr (5 :: nat), w)) id"
    by (auto simp: audited_world_def small_server_def)
  have target: "rs_audit small_server ''Users'' ''read'' = Some (Some ''user.read'', ''Users.read'')"
    by (simp add: small_server_def)
  have valid: "\<forall>t w p w'. rs_verify small_server t w = (Inr p, w') \<longrightarrow> isTenantId (p_tenantId p)"
    using small_tenant by (auto simp: small_server_def split: if_splits)
  show ?thesis
    using rpc_calls_audited [OF world target _ valid run [unfolded small_rpc_def]] run
    by (auto simp: is_answer_def audit_of_def Let_def)
qed

end
