(* ===== verification/Sdk_Errors.thy ===== *)
theory Sdk_Errors
  imports Rpc
begin

text \<open>
  What a caller makes of an error: the HTTP filter \<open>common/filters/http-exception.filter.ts\<close> of the
  backend, and \<open>parseApiError\<close> of the SDK (\<open>packages/sdk/src/errors/index.ts\<close>) on what arrives over
  REST and over RPC. A decoded body is a JSON value; the members of a problem body are read at
  their declared types. The wire keeps an RPC error's code, message, details and metadata.
\<close>

subsection \<open>The HTTP filter\<close>

definition DEFAULT_RETRY_AFTER_SECONDS :: rat where "DEFAULT_RETRY_AFTER_SECONDS = 60"

text \<open>\<open>number\<close> is what \<open>Number\<close> makes of a text, when it is finite; \<open>num\<close> prints a number.\<close>

definition retryAfterSeconds :: "(string \<Rightarrow> rat option) \<Rightarrow> (rat \<Rightarrow> string) \<Rightarrow> normalized_error \<Rightarrow> string" where
  "retryAfterSeconds number num err =
     num (case map_of (ne_metadata err) ''retryAfterSeconds'' of
        Some text \<Rightarrow> (case number text of
            Some given \<Rightarrow> if given > 0 then of_int \<lceil>given\<rceil> else DEFAULT_RETRY_AFTER_SECONDS
          | None \<Rightarrow> DEFAULT_RETRY_AFTER_SECONDS)
      | None \<Rightarrow> DEFAULT_RETRY_AFTER_SECONDS)"

text \<open>\<open>JSON.stringify\<close> leaves out the members that are undefined.\<close>

definition violation_json :: "field_violation \<Rightarrow> json" where
  "violation_json v = JObj [(''field'', JStr (field v)), (''description'', JStr (description v))]"

definition check_json :: "health_check_status \<Rightarrow> json" where
  "check_json c = JObj [(''name'', JStr (hc_name c)),
     (''status'', JStr (case hc_status c of ProbeUp \<Rightarrow> ''up'' | ProbeDown \<Rightarrow> ''down''))]"

definition opt_member :: "string \<Rightarrow> json option \<Rightarrow> (string \<times> json) list" where
  "opt_member k v = (case v of Some j \<Rightarrow> [(k, j)] | None \<Rightarrow> [])"

definition problem_json :: "problem_details \<Rightarrow> json" where
  "problem_json p = JObj
     ([(''type'', JStr (pd_type p)), (''title'', JStr (pd_title p)), (''status'', JNum (pd_status p)),
       (''instance'', JStr (pd_instance p)), (''code'', JStr (error_code_text (pd_code p))),
       (''traceId'', JStr (pd_traceId p)), (''retryable'', JBool (pd_retryable p))]
      @ opt_member ''detail'' (map_option JStr (pd_detail p))
      @ opt_member ''errors'' (map_option (\<lambda>vs. JArr (map violation_json vs)) (pd_errors p))
      @ opt_member ''checks'' (map_option (\<lambda>cs. JArr (map check_json cs)) (pd_checks p)))"

record http_reply =
  hr_status :: rat
  hr_headers :: "(string \<times> string) list"
  hr_body :: json

definition exception_filter ::
  "(rat \<Rightarrow> string option) \<Rightarrow> (rat \<Rightarrow> string) \<Rightarrow> (string \<Rightarrow> rat option) \<Rightarrow> bool \<Rightarrow> string option \<Rightarrow> string \<Rightarrow> thrown \<Rightarrow> http_reply"
where
  "exception_filter status_codes num number headersSent url trace exception =
     (let err = normalizeError status_codes num exception in
      \<lparr>hr_status = ne_httpStatus err,
       hr_headers = (if headersSent then [] else
         [(''x-request-id'', trace)]
         @ (if ne_httpStatus err = 429 then [(''Retry-After'', retryAfterSeconds number num err)] else [])
         @ [(''Content-Type'', ''application/problem+json; charset=utf-8'')]),
       hr_body = problem_json (toProblemDetails err (pathOf url) trace)\<rparr>)"

text \<open>The log entry of an error, if any.\<close>

definition filter_log :: "normalized_error \<Rightarrow> string option" where
  "filter_log err =
     (if ne_unexpected err then Some ''unhandled-error''
      else if ne_checks err \<noteq> None then Some ''health-check-failed''
      else if ne_httpStatus err \<ge> 500 then Some ''request-failed'' else None)"

subsection \<open>What the SDK reads\<close>

record api_error =
  xe_code :: string
  xe_message :: string
  xe_status :: rat
  xe_rpcCode :: "rpc_code_name option"
  xe_retryable :: bool
  xe_fieldErrors :: "field_violation list"
  xe_traceId :: "string option"
  xe_isAuth :: bool
  xe_isNetwork :: bool

record sdk_problem =
  sp_type :: string
  sp_title :: string
  sp_status :: rat
  sp_code :: "string option"
  sp_detail :: "string option"
  sp_retryable :: "bool option"
  sp_errors :: "field_violation list option"
  sp_traceId :: "string option"

definition str_member :: "(string \<times> json) list \<Rightarrow> string \<Rightarrow> string option" where
  "str_member b k = (case js_prop b k of Some (JStr s) \<Rightarrow> Some s | _ \<Rightarrow> None)"

definition violation_of :: "json \<Rightarrow> field_violation" where
  "violation_of j =
     (case j of
        JObj b \<Rightarrow> \<lparr>field = option_or (str_member b ''field'') [], description = option_or (str_member b ''description'') []\<rparr>
      | _ \<Rightarrow> \<lparr>field = [], description = []\<rparr>)"

definition isProblemBody :: "json \<Rightarrow> bool" where
  "isProblemBody v =
     (case v of
        JObj b \<Rightarrow> str_member b ''type'' \<noteq> None \<and> str_member b ''title'' \<noteq> None
          \<and> (case js_prop b ''status'' of Some (JNum _) \<Rightarrow> True | _ \<Rightarrow> False)
      | _ \<Rightarrow> False)"

definition problem_of :: "json \<Rightarrow> sdk_problem" where
  "problem_of v =
     (let b = (case v of JObj b \<Rightarrow> b | _ \<Rightarrow> []) in
      \<lparr>sp_type = option_or (str_member b ''type'') [], sp_title = option_or (str_member b ''title'') [],
       sp_status = (case js_prop b ''status'' of Some (JNum n) \<Rightarrow> n | _ \<Rightarrow> 0),
       sp_code = str_member b ''code'', sp_detail = str_member b ''detail'',
       sp_retryable = (case js_prop b ''retryable'' of Some (JBool r) \<Rightarrow> Some r | _ \<Rightarrow> None),
       sp_errors = (case js_prop b ''errors'' of Some (JArr vs) \<Rightarrow> Some (map violation_of vs) | _ \<Rightarrow> None),
       sp_traceId = str_member b ''traceId''\<rparr>)"

datatype sdk_thrown =
    ConnectErr rpc_error
  | ApiRequestError rat "sdk_problem option" "string option"
  | PlainValue json
  | AnError string

text \<open>The message an \<open>ApiRequestError\<close> shows when it is not parsed.\<close>

fun join_descriptions :: "field_violation list \<Rightarrow> string" where
  "join_descriptions [] = []"
| "join_descriptions [v] = description v"
| "join_descriptions (v # vs) = description v @ ''; '' @ join_descriptions vs"

definition request_error_message :: "(rat \<Rightarrow> string) \<Rightarrow> rat \<Rightarrow> sdk_problem option \<Rightarrow> string" where
  "request_error_message num status problem =
     (case problem of
        None \<Rightarrow> ''Request failed: '' @ num status
      | Some p \<Rightarrow>
          (case sp_detail p of
             Some d \<Rightarrow> d
           | None \<Rightarrow>
               (case sp_errors p of
                  Some (v # vs) \<Rightarrow> join_descriptions (v # vs)
                | _ \<Rightarrow> sp_title p)))"

text \<open>\<open>readApiError\<close>; a body that is not JSON is \<open>None\<close>.\<close>

definition readApiError :: "rat \<Rightarrow> json option \<Rightarrow> string option \<Rightarrow> sdk_thrown" where
  "readApiError status body requestId =
     ApiRequestError status
       (case body of Some v \<Rightarrow> if isProblemBody v then Some (problem_of v) else None | None \<Rightarrow> None) requestId"

text \<open>The dash of the message is an em dash in the source.\<close>

definition NETWORK_MESSAGE :: string where
  "NETWORK_MESSAGE = ''Network error - check your connection''"

definition definitionOf :: "string \<Rightarrow> error_definition option" where
  "definitionOf c = map_option getErrorDefinition (isErrorCode c)"

definition isAuthStatus :: "rat \<Rightarrow> bool" where
  "isAuthStatus status \<longleftrightarrow> status = 401 \<or> status = 403"

text \<open>\<open>find((d) => d.domain === ERROR_DOMAIN)\<close> among the error infos, and every field violation.\<close>

fun is_own_info :: "rpc_detail \<Rightarrow> bool" where
  "is_own_info (ErrorInfo _ d _) \<longleftrightarrow> d = ERROR_DOMAIN"
| "is_own_info _ \<longleftrightarrow> False"

fun detail_violations :: "rpc_detail \<Rightarrow> field_violation list" where
  "detail_violations (BadRequest vs) = vs"
| "detail_violations _ = []"

definition fromConnectError :: "rpc_error \<Rightarrow> api_error" where
  "fromConnectError err =
     (let info = find is_own_info (re_details err);
          transport = getErrorDefinition (errorCodeForRpcCode (Inl (re_code err)));
          c = option_or (nonempty (map_option ei_reason info)) (error_code_text (code transport));
          def = option_or (definitionOf c) transport;
          isNetwork = (info = None \<and> re_code err = Unavailable) in
      \<lparr>xe_code = (if isNetwork then ''NETWORK_ERROR'' else c),
       xe_message = (if isNetwork then NETWORK_MESSAGE
         else if info \<noteq> None then re_rawMessage err else publicMessage transport),
       xe_status = httpStatus def, xe_rpcCode = Some (re_code err),
       xe_retryable = (case info of
           Some i \<Rightarrow> (case map_of (ei_metadata i) ''retryable'' of Some v \<Rightarrow> v = ''true'' | None \<Rightarrow> retryable def)
         | None \<Rightarrow> retryable def),
       xe_fieldErrors = map (\<lambda>v. \<lparr>field = field v, description = description v\<rparr>) (concat (map detail_violations (re_details err))),
       xe_traceId = (case re_metadata err ''trace-id'' of Some t \<Rightarrow> Some t | None \<Rightarrow> re_metadata err ''x-request-id''),
       xe_isAuth = (isAuthStatus (httpStatus def) \<or> re_code err = Unauthenticated \<or> re_code err = PermissionDenied),
       xe_isNetwork = isNetwork\<rparr>)"

definition fromProblem :: "sdk_problem \<Rightarrow> string option \<Rightarrow> api_error" where
  "fromProblem p trace =
     (let generic = errorCodeForHttpStatus (sp_status p);
          c = (case sp_code p of
              Some c \<Rightarrow> c
            | None \<Rightarrow> error_code_text (option_or (errorCodeFromTypeUri (sp_type p)) generic));
          def = option_or (definitionOf c) (getErrorDefinition generic) in
      \<lparr>xe_code = c, xe_message = option_or (sp_detail p) (sp_title p), xe_status = sp_status p, xe_rpcCode = None,
       xe_retryable = option_or (sp_retryable p) (retryable def),
       xe_fieldErrors = map (\<lambda>e. \<lparr>field = field e, description = description e\<rparr>) (option_or (sp_errors p) []),
       xe_traceId = (case sp_traceId p of Some t \<Rightarrow> Some t | None \<Rightarrow> trace),
       xe_isAuth = (isAuthStatus (sp_status p) \<or> isAuthStatus (httpStatus def)), xe_isNetwork = False\<rparr>)"

definition fromStatus :: "rat \<Rightarrow> string option \<Rightarrow> api_error" where
  "fromStatus status trace =
     (let def = getErrorDefinition (errorCodeForHttpStatus status) in
      \<lparr>xe_code = error_code_text (code def), xe_message = publicMessage def, xe_status = status, xe_rpcCode = None,
       xe_retryable = retryable def, xe_fieldErrors = [], xe_traceId = trace, xe_isAuth = isAuthStatus status,
       xe_isNetwork = False\<rparr>)"

fun contains :: "string \<Rightarrow> string \<Rightarrow> bool" where
  "contains [] needle \<longleftrightarrow> needle = []"
| "contains (c # s) needle \<longleftrightarrow> starts_with needle (c # s) \<or> contains s needle"

definition unread :: "string \<Rightarrow> string \<Rightarrow> bool \<Rightarrow> api_error" where
  "unread c message isNetwork =
     \<lparr>xe_code = c, xe_message = message, xe_status = 0, xe_rpcCode = None, xe_retryable = isNetwork, xe_fieldErrors = [],
      xe_traceId = None, xe_isAuth = False, xe_isNetwork = isNetwork\<rparr>"

definition parseApiError :: "sdk_thrown \<Rightarrow> api_error" where
  "parseApiError err =
     (case err of
        ConnectErr e \<Rightarrow> fromConnectError e
      | ApiRequestError status problem trace \<Rightarrow>
          (case problem of Some p \<Rightarrow> fromProblem p trace | None \<Rightarrow> fromStatus status trace)
      | PlainValue v \<Rightarrow>
          if isProblemBody v then fromProblem (problem_of v) None
          else unread ''INTERNAL'' ''An unexpected error occurred'' False
      | AnError message \<Rightarrow>
          (let isNetwork = (contains message ''Failed to fetch'' \<or> contains message ''NetworkError''
                 \<or> contains message ''net::'' \<or> contains message ''timed out'') in
           unread (if isNetwork then ''NETWORK_ERROR'' else ''INTERNAL'')
             (if isNetwork then NETWORK_MESSAGE else message) isNetwork))"

subsection \<open>One error, two transports\<close>

text \<open>A problem body is read back as it was built.\<close>

lemma violation_of_json [simp]: "violation_of (violation_json v) = \<lparr>field = field v, description = description v\<rparr>"
  by (simp add: violation_of_def violation_json_def str_member_def js_prop_def)

lemma problem_of_json:
  "isProblemBody (problem_json p) \<and> problem_of (problem_json p) =
     \<lparr>sp_type = pd_type p, sp_title = pd_title p, sp_status = pd_status p, sp_code = Some (error_code_text (pd_code p)),
      sp_detail = pd_detail p, sp_retryable = Some (pd_retryable p),
      sp_errors = map_option (map (\<lambda>v. \<lparr>field = field v, description = description v\<rparr>)) (pd_errors p),
      sp_traceId = Some (pd_traceId p)\<rparr>"
  by (auto simp: isProblemBody_def problem_of_def problem_json_def str_member_def js_prop_def opt_member_def
      split: option.split)

text \<open>The RPC codes of the catalog's sign-in and access errors are those of its 401 and 403 entries.\<close>

lemma auth_rpc_codes:
  "rpcCode (getErrorDefinition c) = Unauthenticated \<or> rpcCode (getErrorDefinition c) = PermissionDenied \<Longrightarrow>
   isAuthStatus (httpStatus (getErrorDefinition c))"
  by (cases c) (simp_all add: catalog_column [where f = rpcCode] catalog_rpc error_status isAuthStatus_def)

lemma codes_text [simp]: "definitionOf (error_code_text c) = Some (getErrorDefinition c)"
  by (simp add: definitionOf_def isErrorCode_text)

text \<open>What the SDK makes of an error the filter answers, and of one the RPC server answers.\<close>

lemma over_rest:
  assumes "reply = exception_filter sc num number sent url trace t" and "n = normalizeError sc num t"
  shows "parseApiError (readApiError (hr_status reply) (Some (hr_body reply)) rid) =
    \<lparr>xe_code = error_code_text (ne_code n),
     xe_message = option_or (nonempty (ne_detail n)) (publicMessage (ne_definition n)),
     xe_status = ne_httpStatus n, xe_rpcCode = None, xe_retryable = retryable (ne_definition n),
     xe_fieldErrors = ne_fieldViolations n, xe_traceId = Some trace,
     xe_isAuth = (isAuthStatus (ne_httpStatus n) \<or> isAuthStatus (httpStatus (ne_definition n))), xe_isNetwork = False\<rparr>"
proof -
  have d: "getErrorDefinition (ne_code n) = ne_definition n"
    using normalizeError_definition [of sc num t] assms(2) by simp
  have v: "map (\<lambda>v. \<lparr>field = field v, description = description v\<rparr>) vs = vs" for vs :: "field_violation list"
    by (induction vs) auto
  show ?thesis
    using assms d
    by (auto simp: readApiError_def parseApiError_def exception_filter_def Let_def problem_of_json fromProblem_def
        toProblemDetails_def v option_or_def nonempty_def split: option.split list.split)
qed

lemma over_rpc:
  assumes "e = em_error (mapRpcError sc num (Thrown t))" and "n = normalizeError sc num t"
    and "re_metadata e' = m" "e' = e\<lparr>re_metadata := m\<rparr>" "m ''trace-id'' = Some trace"
  shows "parseApiError (ConnectErr e') =
    \<lparr>xe_code = error_code_text (ne_code n),
     xe_message = option_or (ne_detail n) (publicMessage (ne_definition n)),
     xe_status = httpStatus (ne_definition n), xe_rpcCode = Some (rpcCode (ne_definition n)),
     xe_retryable = retryable (ne_definition n),
     xe_fieldErrors = ne_fieldViolations n, xe_traceId = Some trace,
     xe_isAuth = isAuthStatus (httpStatus (ne_definition n)), xe_isNetwork = False\<rparr>"
proof -
  have d: "getErrorDefinition (ne_code n) = ne_definition n"
    using normalizeError_definition [of sc num t] assms(2) by simp
  have v: "map (\<lambda>v. \<lparr>field = field v, description = description v\<rparr>) vs = vs" for vs :: "field_violation list"
    by (induction vs) auto
  have c: "error_code_text (ne_code n) \<noteq> []" by (cases "ne_code n") simp_all
  have auth: "isAuthStatus (httpStatus (ne_definition n)) \<or> rpcCode (ne_definition n) = Unauthenticated
      \<or> rpcCode (ne_definition n) = PermissionDenied \<longleftrightarrow> isAuthStatus (httpStatus (ne_definition n))"
    using auth_rpc_codes [of "ne_code n"] d by auto
  have ne: "nonempty (Some (error_code_text (ne_code n))) = Some (error_code_text (ne_code n))"
    using c by (simp add: nonempty_Some)
  have e: "re_code e' = rpcCode (ne_definition n)" "re_rawMessage e' = option_or (ne_detail n) (publicMessage (ne_definition n))"
    "re_details e' = [errorInfo (ne_code n) (retryable (ne_definition n)) (ne_metadata n)]
       @ (if ne_fieldViolations n \<noteq> [] then [badRequest (ne_fieldViolations n)] else [])"
    "re_metadata e' ''trace-id'' = Some trace"
    using assms by (simp_all add: mapRpcError_def Let_def)
  have info: "find is_own_info (re_details e') = Some (errorInfo (ne_code n) (retryable (ne_definition n)) (ne_metadata n))"
    "concat (map detail_violations (re_details e')) = ne_fieldViolations n"
    "ei_reason (errorInfo (ne_code n) r m) = error_code_text (ne_code n)"
    "map_of (ei_metadata (errorInfo (ne_code n) r m)) ''retryable'' = Some (if r then ''true'' else ''false'')" for r m
    unfolding e(3) by (simp_all add: errorInfo_def badRequest_def v)
  show ?thesis
    by (simp add: parseApiError_def fromConnectError_def info e(1,2,4) ne d v auth option_or_def Let_def)
qed

text \<open>C7: A caller reads one error whichever way the call went. For every value a handler throws, the SDK
  reads the same code, retryability, invalid fields and trace id from the problem body of the HTTP
  filter and from the RPC error of the server; it differs only in the RPC code, in the status and its
  reading as an authentication failure where the thrown status is not its catalog entry's, and in the
  message of an empty detail.\<close>

theorem same_error_over_rest_and_rpc:
  assumes thrown: "h c w = (Inl (Thrown t), w')"
    and n: "n = normalizeError (rs_statusCodes s) (rs_num s) t"
    and reply: "reply = exception_filter (rs_statusCodes s) (rs_num s) number sent url (rs_traceId s c) t"
  shows "\<exists>e. correlationInterceptor s (errorsInterceptor s h) c w = (Inl (Connect e), w') \<and>
    parseApiError (readApiError (hr_status reply) (Some (hr_body reply)) rid) =
      (parseApiError (ConnectErr e))
        \<lparr>xe_rpcCode := None, xe_status := ne_httpStatus n,
         xe_isAuth := (isAuthStatus (ne_httpStatus n) \<or> xe_isAuth (parseApiError (ConnectErr e))),
         xe_message := (if ne_detail n = Some [] then publicMessage (ne_definition n)
                        else xe_message (parseApiError (ConnectErr e)))\<rparr>"
proof -
  let ?e = "em_error (mapRpcError (rs_statusCodes s) (rs_num s) (Thrown t))"
  let ?m = "(re_metadata ?e)(''x-request-id'' \<mapsto> rs_traceId s c, ''trace-id'' \<mapsto> rs_traceId s c)"
  have run: "correlationInterceptor s (errorsInterceptor s h) c w = (Inl (Connect (?e\<lparr>re_metadata := ?m\<rparr>)), w')"
    using thrown by (simp add: correlationInterceptor_def errorsInterceptor_def toConnectError_def)
  have rpc: "parseApiError (ConnectErr (?e\<lparr>re_metadata := ?m\<rparr>)) =
    \<lparr>xe_code = error_code_text (ne_code n),
     xe_message = option_or (ne_detail n) (publicMessage (ne_definition n)),
     xe_status = httpStatus (ne_definition n), xe_rpcCode = Some (rpcCode (ne_definition n)),
     xe_retryable = retryable (ne_definition n),
     xe_fieldErrors = ne_fieldViolations n, xe_traceId = Some (rs_traceId s c),
     xe_isAuth = isAuthStatus (httpStatus (ne_definition n)), xe_isNetwork = False\<rparr>"
    by (rule over_rpc [OF refl n, where m = ?m]) simp_all
  have msg: "option_or (nonempty (ne_detail n)) m =
      (if ne_detail n = Some [] then m else option_or (ne_detail n) m)" for m
    by (auto simp: option_or_def nonempty_def split: option.split list.split)
  show ?thesis
    by (rule exI [of _ "?e\<lparr>re_metadata := ?m\<rparr>"])
      (simp only: run rpc over_rest [OF reply n] msg, simp)
qed

text \<open>A throttled login over both transports.\<close>

definition small_login :: "(unit, audit_entry list, unit) rpc_handler" where
  "small_login c w = (Inl (Thrown (app_error AUTH_LOGIN_LOCKED)), w)"

definition small_call :: "unit rpc_call" where
  "small_call = rpc_incoming small_headers ''Auth'' ''login'' False ()"

lemma same_error_over_rest_and_rpc_witness:
  "\<exists>e. correlationInterceptor small_server (errorsInterceptor small_server small_login) small_call [] = (Inl (Connect e), [])
     \<and> xe_code (parseApiError (ConnectErr e)) = ''AUTH_LOGIN_LOCKED''"
proof -
  let ?n = "normalizeError (rs_statusCodes small_server) (rs_num small_server) (app_error AUTH_LOGIN_LOCKED)"
  let ?reply = "exception_filter (rs_statusCodes small_server) (rs_num small_server) (\<lambda>_. None) False None
    (rs_traceId small_server small_call) (app_error AUTH_LOGIN_LOCKED)"
  have n: "ne_code ?n = AUTH_LOGIN_LOCKED"
    by (simp add: normalizeError_def app_error_def resolved_simps)
  obtain e where e: "correlationInterceptor small_server (errorsInterceptor small_server small_login) small_call [] = (Inl (Connect e), [])"
    and same: "parseApiError (readApiError (hr_status ?reply) (Some (hr_body ?reply)) None) =
      (parseApiError (ConnectErr e))
        \<lparr>xe_rpcCode := None, xe_status := ne_httpStatus ?n,
         xe_isAuth := (isAuthStatus (ne_httpStatus ?n) \<or> xe_isAuth (parseApiError (ConnectErr e))),
         xe_message := (if ne_detail ?n = Some [] then publicMessage (ne_definition ?n)
                        else xe_message (parseApiError (ConnectErr e)))\<rparr>"
    using same_error_over_rest_and_rpc [where h = small_login and c = small_call and w = "[]" and w' = "[]"
        and t = "app_error AUTH_LOGIN_LOCKED" and s = small_server and rid = None,
        OF _ refl refl] small_login_def by blast
  have "xe_code (parseApiError (ConnectErr e)) = error_code_text (ne_code ?n)"
    using arg_cong [OF same, of xe_code] unfolding over_rest [OF refl refl] by simp
  then show ?thesis using e n by auto
qed

text \<open>An RPC error a handler throws itself is read as its code's generic entry.\<close>

lemma retryable_rpc_codes: "r \<in> set RETRYABLE_RPC_CODES \<longleftrightarrow> retryable (getErrorDefinition (errorCodeForRpcCode (Inl r)))"
  by (cases r) (simp_all add: RETRYABLE_RPC_CODES_def errorCodeForRpcCode_def error_retryable)

end
