(* ===== verification/Sdk_Session.thy ===== *)
theory Sdk_Session
  imports OAuth Sdk_Errors
begin

text \<open>
  The session of a client of the SDK: the token store, the refresher and the OAuth sign-in
  (\<open>packages/sdk/src/auth/*.ts\<close>), the requests that refresh and retry (\<open>rest/index.ts\<close>,
  \<open>client/index.ts\<close>) and the facade that starts and ends sessions (\<open>api.ts\<close>). The state holds the
  access token, what its listeners were told, the stored PKCE verifier and the rest of the world;
  every awaited call is an effect on the whole state, so other callers may act while it waits.
\<close>

subsection \<open>The token store\<close>

record 'w sdk_state =
  st_token :: "string option"
  st_notified :: "string option list"
  st_verifier :: "string option"
  st_world :: 'w

definition setToken :: "string \<Rightarrow> 'w sdk_state \<Rightarrow> 'w sdk_state" where
  "setToken t s =
     (if st_token s = Some t then s else s\<lparr>st_token := Some t, st_notified := st_notified s @ [Some t]\<rparr>)"

definition clearToken :: "'w sdk_state \<Rightarrow> 'w sdk_state" where
  "clearToken s =
     (if st_token s = None then s else s\<lparr>st_token := None, st_notified := st_notified s @ [None]\<rparr>)"

text \<open>\<open>exp\<close> of the token's payload; a token that cannot be decoded has \<open>None\<close>. A payload without a
  number is \<open>Some None\<close>, and never expires here.\<close>

definition isExpired :: "(string \<Rightarrow> rat option option) \<Rightarrow> rat \<Rightarrow> string \<Rightarrow> bool" where
  "isExpired exp_of now t =
     (case exp_of t of None \<Rightarrow> True | Some None \<Rightarrow> False | Some (Some e) \<Rightarrow> e * 1000 < now)"

record response =
  rp_status :: nat
  rp_json :: "json option"

definition rp_ok :: "response \<Rightarrow> bool" where
  "rp_ok r \<longleftrightarrow> 200 \<le> rp_status r \<and> rp_status r < 300"

record 's secure_store =
  sx_get :: "('s, string option) eff"
  sx_set :: "string \<Rightarrow> ('s, unit) eff"
  sx_clear :: "('s, unit) eff"

text \<open>\<open>sk_post\<close> posts to an auth endpoint: the bearer token, if it is sent, and the body.\<close>

record 's sdk_deps =
  sk_store :: "'s secure_store option"
  sk_post :: "string \<Rightarrow> string option \<Rightarrow> json option \<Rightarrow> ('s, response) eff"
  sk_expOf :: "string \<Rightarrow> rat option option"
  sk_now :: "'s \<Rightarrow> rat"

definition getToken :: "'w sdk_state sdk_deps \<Rightarrow> 'w sdk_state \<Rightarrow> string option" where
  "getToken d s =
     (case nonempty (st_token s) of
        None \<Rightarrow> None
      | Some t \<Rightarrow> if isExpired (sk_expOf d) (sk_now d s) t then None else Some t)"

subsection \<open>The refresher\<close>

definition quietly :: "('s, 'a) eff \<Rightarrow> ('s, 'a option) eff" where
  "quietly run = rescue (andThen run (\<lambda>x. ret (Some x))) (\<lambda>_. ret None)"

definition endSession :: "'w sdk_state sdk_deps \<Rightarrow> ('w sdk_state, string option) eff" where
  "endSession d =
     andThen (case sk_store d of Some store \<Rightarrow> andThen (quietly (sx_clear store)) (\<lambda>_. ret ()) | None \<Rightarrow> ret ())
       (\<lambda>_ s. (Inr None, clearToken s))"

definition refused_status :: "bool \<Rightarrow> nat \<Rightarrow> bool" where
  "refused_status native status \<longleftrightarrow> status = 204 \<or> status = 401 \<or> status = 403 \<or> (native \<and> status = 400)"

definition body_member :: "json \<Rightarrow> string \<Rightarrow> string option" where
  "body_member j k = (case j of JObj b \<Rightarrow> nonempty (str_member b k) | _ \<Rightarrow> None)"

text \<open>What follows the answer; \<open>None\<close> is a network error or a timeout. A \<open>null\<close> body cannot be read.\<close>

definition refresh_answer :: "'w sdk_state sdk_deps \<Rightarrow> response option \<Rightarrow> ('w sdk_state, string option) eff" where
  "refresh_answer d res =
     (case res of
        None \<Rightarrow> ret None
      | Some r \<Rightarrow>
          if refused_status (sk_store d \<noteq> None) (rp_status r) then endSession d
          else if \<not> rp_ok r then ret None
          else if rp_json r = Some JNull then raise (PlainError ''TypeError'' [] [])
          else
            (let data = option_or (rp_json r) (JObj []) in
             case body_member data ''accessToken'' of
               None \<Rightarrow> endSession d
             | Some a \<Rightarrow>
                 (case sk_store d of
                    None \<Rightarrow> (\<lambda>s. (Inr (Some a), setToken a s))
                  | Some store \<Rightarrow>
                      (case body_member data ''refreshToken'' of
                         None \<Rightarrow> endSession d
                       | Some rt \<Rightarrow>
                           andThen (quietly (sx_set store rt)) (\<lambda>stored.
                           if stored = None then endSession d else (\<lambda>s. (Inr (Some a), setToken a s)))))))"

text \<open>The request a refresh makes; \<open>None\<close> when a native shell has no refresh token it can read.\<close>

definition refresh_request :: "'w sdk_state sdk_deps \<Rightarrow> ('w sdk_state, (string \<times> json option) option) eff" where
  "refresh_request d =
     (case sk_store d of
        Some store \<Rightarrow>
          andThen (quietly (sx_get store)) (\<lambda>got.
          ret (map_option (\<lambda>token. (''native/refresh'', Some (JObj [(''refreshToken'', JStr token)])))
            (nonempty (option_or got None))))
      | None \<Rightarrow> ret (Some (''refresh'', None)))"

definition refresh_run :: "'w sdk_state sdk_deps \<Rightarrow> ('w sdk_state, string option) eff" where
  "refresh_run d =
     andThen (refresh_request d) (\<lambda>request.
     case request of
       None \<Rightarrow> endSession d
     | Some (path, body) \<Rightarrow> andThen (quietly (sk_post d path None body)) (refresh_answer d))"

subsection \<open>Requests that refresh and retry\<close>

text \<open>\<open>fetch\<close> sends the request with the bearer token it is given.\<close>

definition authedFetch ::
  "'w sdk_state sdk_deps \<Rightarrow> ('w sdk_state, string option) eff option \<Rightarrow> (string option \<Rightarrow> ('w sdk_state, response) eff)
   \<Rightarrow> ('w sdk_state, response) eff" where
  "authedFetch d refresher fetch =
     andThen (\<lambda>s. fetch (getToken d s) s) (\<lambda>res.
     case refresher of
       Some rfr \<Rightarrow>
         if rp_status res = 401
         then andThen rfr (\<lambda>token.
           if nonempty token = None then ret res else (\<lambda>s. fetch (getToken d s) s))
         else ret res
     | None \<Rightarrow> ret res)"

text \<open>\<open>refreshInterceptor\<close> around \<open>authInterceptor\<close>; \<open>is_unauthenticated\<close> tells a \<open>ConnectError\<close> with that code.\<close>

definition refreshInterceptor ::
  "'w sdk_state sdk_deps \<Rightarrow> (thrown \<Rightarrow> bool) \<Rightarrow> bool \<Rightarrow> ('w sdk_state, string option) eff
   \<Rightarrow> (string option \<Rightarrow> ('w sdk_state, 'a) eff) \<Rightarrow> ('w sdk_state, 'a) eff" where
  "refreshInterceptor d is_unauthenticated stream rfr call =
     rescue (\<lambda>s. call (getToken d s) s) (\<lambda>err.
       if \<not> is_unauthenticated err \<or> stream then raise err
       else andThen rfr (\<lambda>token.
         if nonempty token = None then raise err else (\<lambda>s. call (getToken d s) s)))"

subsection \<open>Starting and ending a session\<close>

definition failure_error :: "string \<Rightarrow> thrown" where
  "failure_error m = PlainError ''Error'' m []"

definition startSession :: "'w sdk_state sdk_deps \<Rightarrow> json \<Rightarrow> string \<Rightarrow> ('w sdk_state, unit) eff" where
  "startSession d data failure =
     (case body_member data ''accessToken'' of
        None \<Rightarrow> raise (failure_error failure)
      | Some a \<Rightarrow>
          (case sk_store d of
             None \<Rightarrow> (\<lambda>s. (Inr (), setToken a s))
           | Some store \<Rightarrow>
               (case body_member data ''refreshToken'' of
                  None \<Rightarrow> raise (failure_error failure)
                | Some rt \<Rightarrow> andThen (sx_set store rt) (\<lambda>_ s. (Inr (), setToken a s)))))"

text \<open>\<open>json(res)\<close>: the body of a response that is fine, else the error read from it.\<close>

definition read_json :: "response \<Rightarrow> ('s, json) eff" where
  "read_json res =
     (if \<not> rp_ok res then raise (PlainError ''ApiRequestError'' [] [(''status'', JNum (of_nat (rp_status res)))])
      else case rp_json res of Some j \<Rightarrow> ret j | None \<Rightarrow> raise (PlainError ''SyntaxError'' [] []))"

definition authPost :: "'w sdk_state sdk_deps \<Rightarrow> string \<Rightarrow> json option \<Rightarrow> ('w sdk_state, response) eff" where
  "authPost d path body s = sk_post d path (getToken d s) body s"

definition sdk_login :: "'w sdk_state sdk_deps \<Rightarrow> string \<Rightarrow> string \<Rightarrow> ('w sdk_state, unit) eff" where
  "sdk_login d email password =
     andThen (authPost d ''login'' (Some (JObj [(''email'', JStr email), (''password'', JStr password)]))) (\<lambda>res.
     andThen (read_json res) (\<lambda>data. startSession d data ''Login failed: no token in response''))"

definition restoreSession :: "'w sdk_state sdk_deps \<Rightarrow> ('w sdk_state, bool) eff" where
  "restoreSession d s =
     (if getToken d s \<noteq> None then (Inr True, s)
      else andThen (refresh_run d) (\<lambda>t. ret (t \<noteq> None)) s)"

definition rest_logout :: "'w sdk_state sdk_deps \<Rightarrow> string option \<Rightarrow> ('w sdk_state, unit) eff" where
  "rest_logout d refreshToken =
     andThen (quietly
       (if sk_store d \<noteq> None
        then authPost d ''native/logout''
          (Some (JObj (case nonempty refreshToken of Some t \<Rightarrow> [(''refreshToken'', JStr t)] | None \<Rightarrow> [])))
        else authPost d ''logout'' None)) (\<lambda>_. ret ())"

definition sdk_logout :: "'w sdk_state sdk_deps \<Rightarrow> ('w sdk_state, unit) eff" where
  "sdk_logout d =
     andThen (case sk_store d of
         Some store \<Rightarrow>
           andThen (quietly (sx_get store)) (\<lambda>t.
           andThen (rest_logout d (option_or t None)) (\<lambda>_.
           andThen (quietly (sx_clear store)) (\<lambda>_. ret ())))
       | None \<Rightarrow> rest_logout d None) (\<lambda>_ s. (Inr (), clearToken s))"
subsection \<open>PKCE\<close>

text \<open>\<open>btoa\<close> over bytes, and the \<open>base64url\<close> encoding of Node's buffers.\<close>

fun sextets :: "nat list \<Rightarrow> nat list" where
  "sextets [] = []"
| "sextets [a] = [a div 4, a mod 4 * 16]"
| "sextets [a, b] = [a div 4, a mod 4 * 16 + b div 16, b mod 16 * 4]"
| "sextets (a # b # c # bs) =
     a div 4 # (a mod 4 * 16 + b div 16) # (b mod 16 * 4 + c div 64) # c mod 64 # sextets bs"

definition base64_char :: "char \<Rightarrow> char \<Rightarrow> nat \<Rightarrow> char" where
  "base64_char c62 c63 n =
     (if n < 26 then char_of (65 + n) else if n < 52 then char_of (71 + n) else if n < 62 then char_of (n - 4)
      else if n = 62 then c62 else c63)"

definition btoa :: "string \<Rightarrow> string" where
  "btoa s = map (base64_char CHR ''+'' CHR ''/'') (sextets (map of_char s)) @ replicate ((3 - length s mod 3) mod 3) CHR ''=''"

definition node_base64url :: "string \<Rightarrow> string" where
  "node_base64url s = map (base64_char CHR ''-'' CHR ''_'') (sextets (map of_char s))"

text \<open>The SDK: \<open>replace(/\+/g, '-')\<close>, \<open>replace(/\//g, '_')\<close> and \<open>replace(/=+$/, '')\<close>.\<close>

definition sdk_base64Url :: "string \<Rightarrow> string" where
  "sdk_base64Url bytes =
     rev (dropWhile (\<lambda>c. c = CHR ''='')
       (rev (replace_char CHR ''/'' CHR ''_'' (replace_char CHR ''+'' CHR ''-'' (btoa bytes)))))"

definition createCodeVerifier :: "string \<Rightarrow> string" where
  "createCodeVerifier random_bytes = sdk_base64Url random_bytes"

definition codeChallenge :: "(string \<Rightarrow> string) \<Rightarrow> string \<Rightarrow> string" where
  "codeChallenge sha256 verifier = sdk_base64Url (sha256 (utf8 verifier))"

text \<open>\<open>subtle\<close> is false outside a secure context, \<open>storage\<close> when the tab has no session storage.\<close>

definition beginPkce ::
  "(string \<Rightarrow> string) \<Rightarrow> bool \<Rightarrow> bool \<Rightarrow> string \<Rightarrow> ('w sdk_state, string) eff" where
  "beginPkce sha256 subtle storage random_bytes s =
     (let verifier = createCodeVerifier random_bytes in
      if \<not> subtle
      then (Inl (failure_error ''OAuth sign-in needs a secure context (https or localhost) for WebCrypto''), s)
      else if \<not> storage then (Inl (failure_error ''OAuth sign-in needs sessionStorage''), s)
      else (Inr (codeChallenge sha256 verifier), s\<lparr>st_verifier := Some verifier\<rparr>))"

definition takePkceVerifier :: "bool \<Rightarrow> 'w sdk_state \<Rightarrow> string option \<times> 'w sdk_state" where
  "takePkceVerifier storage s =
     (if storage then (st_verifier s, s\<lparr>st_verifier := None\<rparr>) else (None, s))"

definition completeOAuthSignIn :: "'w sdk_state sdk_deps \<Rightarrow> bool \<Rightarrow> string \<Rightarrow> ('w sdk_state, unit) eff" where
  "completeOAuthSignIn d storage c s =
     (case takePkceVerifier storage s of
        (verifier, s1) \<Rightarrow>
          (case nonempty verifier of
             None \<Rightarrow> (Inl (failure_error ''This sign-in was not started in this browser tab; start it again''), s1)
           | Some v \<Rightarrow>
               andThen (authPost d ''oauth/exchange'' (Some (JObj [(''code'', JStr c), (''verifier'', JStr v)]))) (\<lambda>res.
               andThen (read_json res) (\<lambda>data. startSession d data ''Sign-in failed: no token in response'')) s1))"

subsection \<open>What a refresh does to the session\<close>

lemma quietly_cases: "quietly f s = (Inr (case fst (f s) of Inl _ \<Rightarrow> None | Inr x \<Rightarrow> Some x), snd (f s))"
  by (cases "f s"; cases "fst (f s)") (auto simp: quietly_def rescue_def andThen_def)

definition keeps_token :: "('w sdk_state, 'a) eff \<Rightarrow> bool" where
  "keeps_token f \<longleftrightarrow> (\<forall>s. st_token (snd (f s)) = st_token s)"

text \<open>Only the SDK writes the access token, not the calls it makes.\<close>

definition calls_keep_token :: "'w sdk_state sdk_deps \<Rightarrow> bool" where
  "calls_keep_token d \<longleftrightarrow>
     (\<forall>p b j. keeps_token (sk_post d p b j))
     \<and> (\<forall>store. sk_store d = Some store \<longrightarrow>
          keeps_token (sx_get store) \<and> keeps_token (sx_clear store) \<and> (\<forall>t. keeps_token (sx_set store t)))"

lemma quietly_keeps: "keeps_token f \<Longrightarrow> st_token (snd (quietly f s)) = st_token s"
  by (simp add: quietly_cases keeps_token_def)

lemma endSession_run: "fst (endSession d s) = Inr None \<and> st_token (snd (endSession d s)) = None"
  by (simp add: endSession_def andThen_def quietly_cases clearToken_def split: option.split)

lemma setToken_token [simp]: "st_token (setToken a s) = Some a"
  by (simp add: setToken_def)

lemma refresh_request_run:
  assumes "calls_keep_token d"
  shows "\<exists>request s1. refresh_request d s = (Inr request, s1) \<and> st_token s1 = st_token s"
  using assms
  by (auto simp: refresh_request_def andThen_def quietly_cases calls_keep_token_def keeps_token_def split: option.split)

lemma refresh_answer_run:
  assumes calls: "calls_keep_token d"
    and run: "refresh_answer d (Some res) s = (r, s')"
    and change: "st_token s' \<noteq> st_token s"
  shows "(\<exists>a. r = Inr (Some a) \<and> st_token s' = Some a \<and> rp_ok res)
    \<or> (r = Inr None \<and> st_token s' = None \<and> (refused_status (sk_store d \<noteq> None) (rp_status res) \<or> rp_ok res))"
proof -
  have ended: "r = Inr None \<and> st_token s' = None" if "endSession d t = (r, s')" for t
    using endSession_run [of d t] that by simp
  show ?thesis
    using run change
    by (auto simp: refresh_answer_def Let_def andThen_def quietly_cases ended
        split: if_splits option.splits sum.splits dest: ended)
qed


text \<open>A logout while a refresh is waiting is undone. The logout clears the access token, but the refresh
  it does not wait for stores the new one when its answer comes: the client is signed in again, with
  a pair the logout did not revoke.\<close>

theorem logout_during_refresh_is_undone:
  assumes request: "refresh_request d s = (Inr (Some (path, body)), s1)"
    and waiting: "sk_post d path None body s1 = (Inr res, s2)" "sdk_logout d2 s1 = (Inr (), s2)"
    and answer: "rp_status res = 200" "rp_json res = Some (JObj b)" "body_member (JObj b) ''accessToken'' = Some a"
    and kept: "\<forall>store. sk_store d = Some store \<longrightarrow>
      (\<exists>rt s3. body_member (JObj b) ''refreshToken'' = Some rt \<and> sx_set store rt s2 = (Inr (), s3))"
  shows "st_token s2 = None \<and> fst (refresh_run d s) = Inr (Some a) \<and> st_token (snd (refresh_run d s)) = Some a"
proof -
  have out: "st_token s2 = None"
    using waiting(2) by (auto simp: sdk_logout_def andThen_def clearToken_def split: option.splits prod.splits sum.splits if_splits)
  have ok: "\<not> refused_status x (rp_status res)" "rp_ok res" for x
    using answer by (auto simp: refused_status_def rp_ok_def)
  have "refresh_run d s = refresh_answer d (Some res) s2"
    using request waiting by (simp add: refresh_run_def andThen_def quietly_cases)
  moreover have "\<exists>s'. refresh_answer d (Some res) s2 = (Inr (Some a), setToken a s')"
    using answer kept ok
    by (cases "sk_store d") (auto simp: refresh_answer_def andThen_def quietly_cases option_or_def)
  ultimately show ?thesis using out by auto
qed
text \<open>A browser tab with a session, and its server: down, answering, and answering late.\<close>

definition small_tab :: "unit sdk_state" where
  "small_tab = \<lparr>st_token = Some ''old'', st_notified = [], st_verifier = None, st_world = ()\<rparr>"

definition small_sdk :: "nat \<Rightarrow> unit sdk_state sdk_deps" where
  "small_sdk status = \<lparr>sk_store = None,
     sk_post = (\<lambda>_ _ _ s. (Inr \<lparr>rp_status = status, rp_json = Some (JObj [(''accessToken'', JStr ''new'')])\<rparr>, s)),
     sk_expOf = (\<lambda>_. Some None), sk_now = (\<lambda>_. 0)\<rparr>"

definition small_late :: "unit sdk_state sdk_deps" where
  "small_late = (small_sdk 200)\<lparr>sk_post :=
     (\<lambda>_ _ _ s. (Inr \<lparr>rp_status = 200, rp_json = Some (JObj [(''accessToken'', JStr ''new'')])\<rparr>, snd (sdk_logout (small_sdk 204) s)))\<rparr>"


lemma logout_during_refresh_is_undone_witness:
  "st_token (snd (sdk_logout (small_sdk 204) small_tab)) = None
   \<and> st_token (snd (refresh_run small_late small_tab)) = Some ''new''"
proof -
  have req: "refresh_request small_late small_tab = (Inr (Some (''refresh'', None)), small_tab)"
    by (simp add: refresh_request_def small_late_def small_sdk_def)
  have out: "sdk_logout (small_sdk 204) small_tab = (Inr (), snd (sdk_logout (small_sdk 204) small_tab))"
    by (simp add: sdk_logout_def rest_logout_def andThen_def quietly_cases small_sdk_def)
  have post: "sk_post small_late ''refresh'' None None small_tab =
      (Inr \<lparr>rp_status = 200, rp_json = Some (JObj [(''accessToken'', JStr ''new'')])\<rparr>, snd (sdk_logout (small_sdk 204) small_tab))"
    by (simp add: small_late_def)
  have "body_member (JObj [(''accessToken'', JStr ''new'')]) ''accessToken'' = Some ''new''"
    by (simp add: body_member_def str_member_def js_prop_def)
  from logout_during_refresh_is_undone [OF req post out _ _ this] show ?thesis
    by (simp add: small_late_def small_sdk_def)
qed

subsection \<open>The encodings agree\<close>

lemma sextets_below: "\<forall>n \<in> set (sextets bs). n < 64" if "\<forall>b \<in> set bs. b < 256"
  using that by (induction bs rule: sextets.induct) auto

lemma sextets_length: "length (sextets bs) = (4 * length bs + 2) div 3"
  by (induction bs rule: sextets.induct) auto

lemma mixed_eq: "x = x' \<and> y = y'" if eq: "x * m + y = x' * m + y'" and small: "y < m" "y' < m" for x y m :: nat
proof -
  have "(x * m + y) div m = x" "(x' * m + y') div m = x'" using small by simp_all
  then have "x = x'" using eq by simp
  then show ?thesis using eq by simp
qed

lemma div_mod_eq: "a = a'" if "a div k = a' div k" "a mod k = a' mod k" for a k :: nat
  using that by (metis div_mult_mod_eq)

lemma sextets_inj:
  "length bs = length cs \<Longrightarrow> \<forall>b \<in> set bs. b < 256 \<Longrightarrow> \<forall>c \<in> set cs. c < 256 \<Longrightarrow> sextets bs = sextets cs \<Longrightarrow> bs = cs"
proof (induction bs arbitrary: cs rule: sextets.induct)
  case 1
  then show ?case by simp
next
  case (2 a)
  then obtain a' where cs: "cs = [a']" by (cases cs) auto
  with 2 have "a div 4 = a' div 4" "a mod 4 = a' mod 4" by simp_all
  then show ?case using cs div_mod_eq by blast
next
  case (3 a b)
  then obtain a' b' where cs: "cs = [a', b']" by (cases cs; cases "tl cs") auto
  from 3 have eqs: "a div 4 = a' div 4" "a mod 4 * 16 + b div 16 = a' mod 4 * 16 + b' div 16" "b mod 16 = b' mod 16"
    and small: "b div 16 < 16" "b' div 16 < 16"
    by (simp_all add: cs less_mult_imp_div_less)
  have "a mod 4 = a' mod 4" "b div 16 = b' div 16" using mixed_eq [OF eqs(2) small] by simp_all
  then show ?case using cs eqs div_mod_eq by blast
next
  case (4 a b c bs)
  have "length cs = Suc (Suc (Suc (length bs)))" using 4(2) by simp
  then obtain a' b' c' cs' where cs: "cs = a' # b' # c' # cs'"
    by (metis length_Suc_conv)
  from 4 have eqs: "a div 4 = a' div 4" "a mod 4 * 16 + b div 16 = a' mod 4 * 16 + b' div 16"
    "b mod 16 * 4 + c div 64 = b' mod 16 * 4 + c' div 64" "c mod 64 = c' mod 64" "sextets bs = sextets cs'"
    and small: "b div 16 < 16" "b' div 16 < 16" "c div 64 < 4" "c' div 64 < 4"
    by (simp_all add: cs less_mult_imp_div_less)
  have "a mod 4 = a' mod 4" "b div 16 = b' div 16" using mixed_eq [OF eqs(2) small(1,2)] by simp_all
  moreover have "b mod 16 = b' mod 16" "c div 64 = c' div 64" using mixed_eq [OF eqs(3) small(3,4)] by simp_all
  ultimately have "a = a'" "b = b'" "c = c'" using eqs div_mod_eq by blast+
  moreover have "bs = cs'" using 4 cs eqs(5) by auto
  ultimately show ?case by (simp add: cs)
qed

lemma base64_alnum: "is_alnum (base64_char x y n)" if "n < 62"
  using that by (auto simp: base64_char_def is_alnum_def is_upper_def is_lower_def is_digit_def of_char_of)

lemma alnum_special: "is_alnum c \<Longrightarrow> c \<noteq> CHR ''+'' \<and> c \<noteq> CHR ''/'' \<and> c \<noteq> CHR ''=''"
proof -
  have "\<not> is_alnum (CHR ''+'')" "\<not> is_alnum (CHR ''/'')" "\<not> is_alnum (CHR ''='')" by code_simp+
  then show "is_alnum c \<Longrightarrow> c \<noteq> CHR ''+'' \<and> c \<noteq> CHR ''/'' \<and> c \<noteq> CHR ''=''" by blast
qed

definition url_char :: "char \<Rightarrow> char" where
  "url_char c = (let c1 = (if c = CHR ''+'' then CHR ''-'' else c) in if c1 = CHR ''/'' then CHR ''_'' else c1)"

lemma base64_char_eqs:
  assumes "n < 64"
  shows "base64_char CHR ''+'' CHR ''/'' n \<noteq> CHR ''=''"
    and "url_char (base64_char CHR ''+'' CHR ''/'' n) = base64_char CHR ''-'' CHR ''_'' n"
    and "is_base64url (base64_char CHR ''-'' CHR ''_'' n)" "base64_char CHR ''-'' CHR ''_'' n \<noteq> CHR ''=''"
proof -
  consider "n < 62" | "n = 62" | "n = 63" using assms by linarith
  then have "base64_char CHR ''+'' CHR ''/'' n \<noteq> CHR ''='' \<and> url_char (base64_char CHR ''+'' CHR ''/'' n) = base64_char CHR ''-'' CHR ''_'' n
    \<and> is_base64url (base64_char CHR ''-'' CHR ''_'' n) \<and> base64_char CHR ''-'' CHR ''_'' n \<noteq> CHR ''=''"
  proof cases
    case 1
    have "base64_char CHR ''+'' CHR ''/'' n = base64_char CHR ''-'' CHR ''_'' n"
      using 1 by (simp add: base64_char_def)
    then show ?thesis
      using alnum_special [OF base64_alnum [OF 1]] base64_alnum [OF 1] by (simp add: url_char_def is_base64url_def)
  qed (simp_all add: base64_char_def url_char_def is_base64url_def)
  then show "base64_char CHR ''+'' CHR ''/'' n \<noteq> CHR ''=''"
    and "url_char (base64_char CHR ''+'' CHR ''/'' n) = base64_char CHR ''-'' CHR ''_'' n"
    and "is_base64url (base64_char CHR ''-'' CHR ''_'' n)" "base64_char CHR ''-'' CHR ''_'' n \<noteq> CHR ''=''"
    by blast+
qed

lemma bytes_below: "\<forall>b \<in> set (map of_char s). b < (256 :: nat)"
  by (simp add: nat_of_char_less_256)

lemma drop_padding: "rev (dropWhile (\<lambda>c. c = x) (rev (s @ replicate n x))) = s" if "x \<notin> set s"
proof -
  have "dropWhile (\<lambda>c. c = x) (replicate n x @ rev s) = dropWhile (\<lambda>c. c = x) (rev s)"
    by (induction n) simp_all
  moreover have "dropWhile (\<lambda>c. c = x) (rev s) = rev s"
    using that by (cases "rev s") (auto simp: rev_eq_Cons_iff)
  ultimately show ?thesis by simp
qed

text \<open>The SDK's replacements of \<open>btoa\<close> are Node's \<open>base64url\<close>, which keeps the bytes apart.\<close>

lemma base64Url_alike: "sdk_base64Url s = node_base64url s"
proof -
  have below: "n < 64" if "n \<in> set (sextets (map of_char s))" for n
    using sextets_below [OF bytes_below [of s]] that by blast
  have "replace_char CHR ''/'' CHR ''_'' (replace_char CHR ''+'' CHR ''-'' (btoa s))
      = node_base64url s @ replicate ((3 - length s mod 3) mod 3) CHR ''=''"
  proof -
    have "replace_char CHR ''/'' CHR ''_'' (replace_char CHR ''+'' CHR ''-'' t) = map url_char t" for t
      by (simp add: replace_char_def url_char_def Let_def comp_def)
    moreover have "map url_char (btoa s) = node_base64url s @ replicate ((3 - length s mod 3) mod 3) CHR ''=''"
    proof -
      have "url_char CHR ''='' = CHR ''=''" by (simp add: url_char_def)
      then show ?thesis
        using below by (simp add: btoa_def node_base64url_def base64_char_eqs)
    qed
    ultimately show ?thesis by simp
  qed
  moreover have pad: "CHR ''='' \<notin> set (node_base64url s)"
    using below base64_char_eqs(4) by (fastforce simp: node_base64url_def)
  ultimately show ?thesis using drop_padding [OF pad] by (simp only: sdk_base64Url_def)
qed

lemma base64_char_inj:
  assumes "m < 64" "n < 64" "base64_char CHR ''-'' CHR ''_'' m = base64_char CHR ''-'' CHR ''_'' n"
  shows "m = n"
proof -
  have v: "(of_char (base64_char CHR ''-'' CHR ''_'' k) :: nat) = (if k < 26 then 65 + k else if k < 52 then 71 + k
      else if k < 62 then k - 4 else if k = 62 then 45 else 95)" if "k < 64" for k
    using that by (auto simp: base64_char_def of_char_of)
  have "(of_char (base64_char CHR ''-'' CHR ''_'' m) :: nat) = of_char (base64_char CHR ''-'' CHR ''_'' n)"
    using assms by simp
  then show ?thesis using assms(1,2) unfolding v [OF assms(1)] v [OF assms(2)] by (auto split: if_splits)
qed

lemma node_base64url_inj:
  assumes "node_base64url s = node_base64url t" "length s = length t"
  shows "s = t"
proof -
  let ?b = "\<lambda>s :: string. map of_char s :: nat list"
  have len: "length (sextets (?b s)) = length (sextets (?b t))" using assms(2) by (simp add: sextets_length)
  have below: "\<forall>n \<in> set (sextets (?b s)) \<union> set (sextets (?b t)). n < 64"
    using sextets_below [OF bytes_below [of s]] sextets_below [OF bytes_below [of t]] by blast
  have "sextets (?b s) = sextets (?b t)"
    by (rule inj_on_map_eq_map [THEN iffD1, of "base64_char CHR ''-'' CHR ''_''"])
      (use assms(1) below base64_char_inj in \<open>auto simp: node_base64url_def inj_on_def\<close>)
  then have "?b s = ?b t"
    using sextets_inj [OF _ bytes_below bytes_below] assms(2) by simp
  then show ?thesis by (metis (no_types, lifting) list.map_id0 map_map char_of_char comp_def id_def list.map_cong map_idI)
qed

lemma node_base64url_shape:
  "length (node_base64url s) = (4 * length s + 2) div 3 \<and> list_all is_base64url (node_base64url s)"
  using sextets_below [OF bytes_below [of s]] base64_char_eqs(3)
  by (auto simp: node_base64url_def sextets_length list_all_iff)

text \<open>A sign-in started by the SDK finishes at the backend, and only with its verifier. The verifier and
  the challenge of \<open>beginPkce\<close> pass the backend's patterns, the code the backend stores for that
  challenge is traded for that verifier by the flow that started it, and any verifier it is traded
  for has the same digest.\<close>

theorem sdk_sign_in_is_accepted:
  assumes random: "length bytes = 32"
    and digest: "\<forall>s. ox_sha256url d s = node_base64url (sha256 (utf8 s))" "\<forall>s. length (sha256 s) = 32"
    and begun: "beginPkce sha256 True True bytes s = (Inr challenge, s1)"
    and stored: "js_prop stored ''challenge'' = Some (JStr challenge)"
      "js_prop stored ''client'' = Some (JStr (client_name client))"
  shows "challenge_pattern challenge
    \<and> (\<exists>v s2. takePkceVerifier True s1 = (Some v, s2) \<and> st_verifier s2 = None \<and> code_matches d stored (Some (JStr v)) client
        \<and> (\<forall>v'. code_matches d stored (Some (JStr v')) client \<longrightarrow> sha256 (utf8 v') = sha256 (utf8 v)))"
proof -
  define v where "v = createCodeVerifier bytes"
  have ch: "challenge = node_base64url (sha256 (utf8 v))" and s1: "st_verifier s1 = Some v"
    using begun by (auto simp: beginPkce_def codeChallenge_def base64Url_alike v_def Let_def)
  have v: "verifier_pattern v"
    using node_base64url_shape [of bytes] random
    by (simp add: v_def createCodeVerifier_def base64Url_alike verifier_pattern_def)
  have 1: "challenge_pattern challenge"
    using node_base64url_shape [of "sha256 (utf8 v)"] digest by (simp add: ch challenge_pattern_def)
  have 2: "code_matches d stored (Some (JStr v)) client"
    using stored digest v by (simp add: code_matches_def ch)
  have 3: "sha256 (utf8 v') = sha256 (utf8 v)" if "code_matches d stored (Some (JStr v')) client" for v'
  proof -
    have "ox_sha256url d v' = node_base64url (sha256 (utf8 v))"
      using that stored(1) by (simp add: code_matches_def ch)
    then have "node_base64url (sha256 (utf8 v')) = node_base64url (sha256 (utf8 v))"
      using digest(1) by simp
    then show ?thesis by (rule node_base64url_inj) (simp add: digest(2))
  qed
  have 4: "takePkceVerifier True s1 = (Some v, s1\<lparr>st_verifier := None\<rparr>)"
    using s1 by (simp add: takePkceVerifier_def)
  show ?thesis
    by (intro conjI exI [of _ v] exI [of _ "s1\<lparr>st_verifier := None\<rparr>"] allI impI 1 2 3 4) simp
qed

definition small_digest :: "string \<Rightarrow> string" where
  "small_digest s = take 32 (s @ replicate 32 CHR ''x'')"

lemma sdk_sign_in_is_accepted_witness:
  "challenge_pattern (codeChallenge small_digest (createCodeVerifier (replicate 32 CHR ''r'')))"
proof -
  let ?d = "small_oauth_base\<lparr>ox_sha256url := \<lambda>s. node_base64url (small_digest (utf8 s))\<rparr>"
  let ?ch = "codeChallenge small_digest (createCodeVerifier (replicate 32 CHR ''r''))"
  have begun: "beginPkce small_digest True True (replicate 32 CHR ''r'') small_tab =
      (Inr ?ch, small_tab\<lparr>st_verifier := Some (createCodeVerifier (replicate 32 CHR ''r''))\<rparr>)"
    by (simp add: beginPkce_def Let_def)
  have "\<forall>s. length (small_digest s) = 32" by (auto simp: small_digest_def min_def)
  from sdk_sign_in_is_accepted [OF _ _ this begun, of ?d "[(''challenge'', JStr ?ch), (''client'', JStr ''web'')]" WebClient]
  show ?thesis by (simp add: js_prop_def client_name_def)
qed

end
