(* ===== verification/Kafka.thy ===== *)
theory Kafka
  imports Messaging Effects
begin

text \<open>
  The Kafka adapter \<open>infrastructure/messaging/adapters/kafka/kafka-messaging.adapter.ts\<close>: topic names,
  publishing, the pinning of a new group, and the loop that handles one message, with its waits, its
  redeliveries and its dead letter. kafkajs is a parameter: a send, an administrative call and a
  heartbeat are effects on the world, and a consumer group is a step relation over a partition that
  states what the library documents of \<open>eachMessage\<close> and of committed offsets.

  Both loops of the adapter may run forever when the clock stands still, so they are partial
  functions: \<open>None\<close> is a loop that does not end.
\<close>

subsection \<open>Topics\<close>

definition strip_persistent :: "string \<Rightarrow> string" where
  "strip_persistent t =
     (if starts_with ''persistent://'' t then drop 13 t
      else if starts_with ''non-persistent://'' t then drop 17 t else t)"

definition topic_pattern :: "string \<Rightarrow> bool" where
  "topic_pattern s \<longleftrightarrow> 1 \<le> length s \<and> length s \<le> 249
     \<and> list_all (\<lambda>c. is_alnum c \<or> c = CHR ''.'' \<or> c = CHR ''_'' \<or> c = CHR ''-'') s"

definition toKafkaTopic :: "(json \<Rightarrow> string) \<Rightarrow> string \<Rightarrow> thrown + string" where
  "toKafkaTopic stringify t =
     (let mapped = replace_char CHR ''/'' CHR ''.'' (strip_persistent t) in
      if topic_pattern mapped then Inr mapped
      else Inl (PlainError ''Error'' (''Topic '' @ stringify (JStr t) @ '' is not a valid Kafka topic'') []))"

subsection \<open>Messages and what the adapter calls\<close>

record kafka_message =
  km_key :: "string option"
  km_value :: "string option"
  km_headers :: "(string \<times> broker_header) list"
  km_offset :: nat

record kafka_record =
  kr_key :: "string option"
  kr_value :: "string option"
  kr_headers :: "(string \<times> broker_header) list"

text \<open>\<open>kx_consume\<close> is \<open>consumeEnveloped\<close> with the subscription's handler; \<open>kx_sleep\<close> is the wait that a
  \<open>close()\<close> cuts short; \<open>kx_text\<close> is the message of an error.\<close>

record 'w kafka_deps =
  kx_now :: "'w \<Rightarrow> nat"
  kx_closing :: "'w \<Rightarrow> bool"
  kx_sleep :: "nat \<Rightarrow> 'w \<Rightarrow> 'w"
  kx_heartbeat :: "('w, unit) eff"
  kx_consume :: "string \<Rightarrow> msg_props \<Rightarrow> ('w, unit) eff"
  kx_send :: "string \<Rightarrow> kafka_record \<Rightarrow> ('w, unit) eff"
  kx_text :: "thrown \<Rightarrow> string"
  kx_redelivery :: redelivery_options

definition kafka_handle :: "'w kafka_deps \<Rightarrow> kafka_message \<Rightarrow> ('w, unit) eff" where
  "kafka_handle d message = kx_consume d (option_or (km_value message) []) (headersToStrings (km_headers message))"

subsection \<open>Publishing and dead letters\<close>

text \<open>\<open>ensure\<close> creates the topics that are not known yet.\<close>

definition kafka_publish ::
  "'w kafka_deps \<Rightarrow> (string list \<Rightarrow> ('w, unit) eff) \<Rightarrow> (json \<Rightarrow> string) \<Rightarrow> publish_context \<Rightarrow> string \<Rightarrow> msg_payload
   \<Rightarrow> publish_options option \<Rightarrow> ('w, unit) eff" where
  "kafka_publish d ensure stringify c t payload opts =
     andThen (lift (toKafkaTopic stringify t)) (\<lambda>kafkaTopic.
     publishEnveloped stringify c payload opts (\<lambda>message.
       andThen (ensure [kafkaTopic]) (\<lambda>_.
       kx_send d kafkaTopic
         \<lparr>kr_key = nonempty (case opts of Some po \<Rightarrow> po_key po | None \<Rightarrow> None),
          kr_value = Some (og_data message),
          kr_headers = map (\<lambda>(k, v). (k, HvOne v)) (og_properties message)\<rparr>)))"

text \<open>\<open>{ ...headers, [k]: v }\<close>\<close>

fun set_header :: "(string \<times> broker_header) list \<Rightarrow> string \<Rightarrow> string \<Rightarrow> (string \<times> broker_header) list" where
  "set_header [] k v = [(k, HvOne v)]"
| "set_header ((j, x) # hs) k v = (if j = k then (k, HvOne v) # hs else (j, x) # set_header hs k v)"

definition dead_letter_record :: "'w kafka_deps \<Rightarrow> string \<Rightarrow> nat \<Rightarrow> kafka_message \<Rightarrow> thrown \<Rightarrow> kafka_record" where
  "dead_letter_record d source part message err =
     \<lparr>kr_key = km_key message, kr_value = km_value message,
      kr_headers = set_header (set_header (set_header (set_header (km_headers message)
        ''x-dlq-original-topic'' source) ''x-dlq-original-partition'' (show_nat part))
        ''x-dlq-original-offset'' (show_nat (km_offset message))) ''x-dlq-error'' (kx_text d err)\<rparr>"

definition deadLetter :: "'w kafka_deps \<Rightarrow> string \<Rightarrow> string \<Rightarrow> nat \<Rightarrow> kafka_message \<Rightarrow> thrown \<Rightarrow> ('w, unit) eff" where
  "deadLetter d dlqTopic source part message err =
     kx_send d dlqTopic (dead_letter_record d source part message err)"

subsection \<open>The loop of a message\<close>

definition RETRY_HEARTBEAT_MS :: nat where "RETRY_HEARTBEAT_MS = 3000"

definition SubscriptionClosedError :: thrown where
  "SubscriptionClosedError = PlainError ''Error'' ''Subscription closed during redelivery'' []"

text \<open>\<open>waitBeforeRetry\<close> from its deadline on: it sleeps in slices and sends a heartbeat after each.\<close>

partial_function (option) wait_loop :: "'w kafka_deps \<Rightarrow> nat \<Rightarrow> 'w \<Rightarrow> ((thrown + unit) \<times> 'w) option" where
  "wait_loop d until w =
     (if kx_closing d w \<or> until \<le> kx_now d w then Some (Inr (), w)
      else
        (let w1 = kx_sleep d (min RETRY_HEARTBEAT_MS (until - kx_now d w)) w in
         if kx_closing d w1 then wait_loop d until w1
         else (case kx_heartbeat d w1 of
             (Inl e, w2) \<Rightarrow> Some (Inl e, w2)
           | (Inr _, w2) \<Rightarrow> wait_loop d until w2)))"

definition waitBeforeRetry :: "'w kafka_deps \<Rightarrow> nat \<Rightarrow> 'w \<Rightarrow> ((thrown + unit) \<times> 'w) option" where
  "waitBeforeRetry d attempt w = wait_loop d (kx_now d w + redeliveryDelay (kx_redelivery d) (int attempt)) w"

text \<open>\<open>eachMessage\<close>, from the attempt on. An error leaves the offset uncommitted.\<close>

partial_function (option) message_loop ::
  "'w kafka_deps \<Rightarrow> string \<Rightarrow> string \<Rightarrow> nat \<Rightarrow> kafka_message \<Rightarrow> nat \<Rightarrow> 'w \<Rightarrow> ((thrown + unit) \<times> 'w) option" where
  "message_loop d dlqTopic source part message attempt w =
     (if kx_closing d w then Some (Inl SubscriptionClosedError, w)
      else (case kafka_handle d message w of
          (Inr _, w1) \<Rightarrow> Some (Inr (), w1)
        | (Inl err, w1) \<Rightarrow>
            if maxRedeliveries (kx_redelivery d) \<le> attempt
            then Some (deadLetter d dlqTopic source part message err w1)
            else (case waitBeforeRetry d attempt w1 of
                None \<Rightarrow> None
              | Some (Inl e, w2) \<Rightarrow> Some (Inl e, w2)
              | Some (Inr _, w2) \<Rightarrow> message_loop d dlqTopic source part message (attempt + 1) w2)))"

definition eachMessage ::
  "'w kafka_deps \<Rightarrow> string \<Rightarrow> string \<Rightarrow> nat \<Rightarrow> kafka_message \<Rightarrow> 'w \<Rightarrow> ((thrown + unit) \<times> 'w) option" where
  "eachMessage d dlqTopic source part message = message_loop d dlqTopic source part message 0"

subsection \<open>The loops end\<close>

text \<open>Time goes by: a sleep that no \<open>close()\<close> cuts short advances the clock, and nothing turns it back.\<close>

definition clock_runs :: "'w kafka_deps \<Rightarrow> bool" where
  "clock_runs d \<longleftrightarrow>
     (\<forall>ms w. 0 < ms \<longrightarrow> kx_closing d (kx_sleep d ms w) \<or> kx_now d w < kx_now d (kx_sleep d ms w))
     \<and> (\<forall>w. kx_now d w \<le> kx_now d (snd (kx_heartbeat d w)))
     \<and> (\<forall>v p w. kx_now d w \<le> kx_now d (snd (kx_consume d v p w)))"

lemma wait_loop_done: "kx_closing d w \<or> until \<le> kx_now d w \<Longrightarrow> wait_loop d until w = Some (Inr (), w)"
  by (subst wait_loop.simps) simp

text \<open>One turn of the wait: it ends here, or goes on at a later time.\<close>

lemma wait_loop_turn:
  assumes clock: "clock_runs d" and going: "\<not> kx_closing d w" "kx_now d w < until"
  shows "(\<exists>e w'. wait_loop d until w = Some (Inl e, w')) \<or> (\<exists>w'. wait_loop d until w = Some (Inr (), w') \<and> kx_closing d w')
    \<or> (\<exists>w2. wait_loop d until w = wait_loop d until w2 \<and> kx_now d w < kx_now d w2)"
proof -
  let ?ms = "min RETRY_HEARTBEAT_MS (until - kx_now d w)"
  let ?w1 = "kx_sleep d ?ms w"
  have ms: "0 < ?ms" using going by (simp add: RETRY_HEARTBEAT_MS_def)
  have step: "wait_loop d until w = (if kx_closing d ?w1 then wait_loop d until ?w1
      else (case kx_heartbeat d ?w1 of (Inl e, w2) \<Rightarrow> Some (Inl e, w2) | (Inr _, w2) \<Rightarrow> wait_loop d until w2))"
    using going by (subst wait_loop.simps) (simp add: Let_def)
  show ?thesis
  proof (cases "kx_closing d ?w1")
    case True
    then show ?thesis using step wait_loop_done by metis
  next
    case False
    obtain r w2 where beat: "kx_heartbeat d ?w1 = (r, w2)" by fastforce
    have "kx_now d w < kx_now d ?w1" using clock ms False unfolding clock_runs_def by blast
    also have "\<dots> \<le> kx_now d w2" using clock beat unfolding clock_runs_def by (metis snd_conv)
    finally show ?thesis using step False beat by (cases r) auto
  qed
qed

lemma wait_loop_ends:
  assumes "clock_runs d"
  shows "\<exists>r w'. wait_loop d until w = Some (r, w') \<and> (r = Inr () \<longrightarrow> kx_closing d w' \<or> until \<le> kx_now d w')"
proof (induction "until - kx_now d w" arbitrary: w rule: less_induct)
  case less
  show ?case
  proof (cases "kx_closing d w \<or> until \<le> kx_now d w")
    case True
    then show ?thesis using wait_loop_done [of d w until] by auto
  next
    case False
    then have going: "\<not> kx_closing d w" "kx_now d w < until" by auto
    from wait_loop_turn [OF assms going] show ?thesis
    proof (elim disjE exE conjE)
      fix w2 assume same: "wait_loop d until w = wait_loop d until w2" and later: "kx_now d w < kx_now d w2"
      have "until - kx_now d w2 < until - kx_now d w" using later going by linarith
      from less [OF this] show ?thesis unfolding same .
    qed auto
  qed
qed

lemma message_loop_step:
  "message_loop d dlq src part m attempt w =
     (if kx_closing d w then Some (Inl SubscriptionClosedError, w)
      else (case kafka_handle d m w of
          (Inr _, w1) \<Rightarrow> Some (Inr (), w1)
        | (Inl err, w1) \<Rightarrow>
            if maxRedeliveries (kx_redelivery d) \<le> attempt then Some (deadLetter d dlq src part m err w1)
            else (case waitBeforeRetry d attempt w1 of
                None \<Rightarrow> None
              | Some (Inl e, w2) \<Rightarrow> Some (Inl e, w2)
              | Some (Inr _, w2) \<Rightarrow> message_loop d dlq src part m (attempt + 1) w2)))"
  by (subst message_loop.simps) (rule refl)

text \<open>What an answer of \<open>eachMessage\<close> means: the message was handled, or its dead letter was sent.\<close>

definition settles ::
  "'w kafka_deps \<Rightarrow> string \<Rightarrow> string \<Rightarrow> nat \<Rightarrow> kafka_message \<Rightarrow> 'w \<Rightarrow> bool" where
  "settles d dlq src part m w' \<longleftrightarrow>
     (\<exists>w. kafka_handle d m w = (Inr (), w')) \<or> (\<exists>err w. deadLetter d dlq src part m err w = (Inr (), w'))"

text \<open>\<open>calls\<close> counts the runs of the handler; nothing else touches it.\<close>

definition counts_calls :: "'w kafka_deps \<Rightarrow> ('w \<Rightarrow> nat) \<Rightarrow> bool" where
  "counts_calls d calls \<longleftrightarrow>
     (\<forall>v p w. calls (snd (kx_consume d v p w)) = calls w + 1) \<and> (\<forall>t r w. calls (snd (kx_send d t r w)) = calls w)
     \<and> (\<forall>w. calls (snd (kx_heartbeat d w)) = calls w) \<and> (\<forall>ms w. calls (kx_sleep d ms w) = calls w)"

lemma wait_loop_calls:
  assumes "clock_runs d" "counts_calls d calls"
  shows "wait_loop d until w = Some (r, w') \<Longrightarrow> calls w' = calls w"
proof (induction "until - kx_now d w" arbitrary: w rule: less_induct)
  case less
  show ?case
  proof (cases "kx_closing d w \<or> until \<le> kx_now d w")
    case True
    then show ?thesis using wait_loop_done [of d w until] less.prems by simp
  next
    case False
    let ?ms = "min RETRY_HEARTBEAT_MS (until - kx_now d w)"
    let ?w1 = "kx_sleep d ?ms w"
    have step: "Some (r, w') = (if kx_closing d ?w1 then wait_loop d until ?w1
      else (case kx_heartbeat d ?w1 of (Inl e, w2) \<Rightarrow> Some (Inl e, w2) | (Inr _, w2) \<Rightarrow> wait_loop d until w2))"
      using False by (subst less.prems [symmetric], subst wait_loop.simps) (simp add: Let_def)
    have c1: "calls ?w1 = calls w" using assms(2) by (simp add: counts_calls_def)
    show ?thesis
    proof (cases "kx_closing d ?w1")
      case True
      then show ?thesis using step c1 wait_loop_done [of d ?w1 until] by simp
    next
      case open1: False
      obtain b w2 where beat: "kx_heartbeat d ?w1 = (b, w2)" by fastforce
      have c2: "calls w2 = calls w" using assms(2) c1 beat unfolding counts_calls_def by (metis snd_conv)
      show ?thesis
      proof (cases b)
        case (Inl e)
        then show ?thesis using step open1 beat c2 by simp
      next
        case (Inr u)
        have "0 < ?ms" using False by (simp add: RETRY_HEARTBEAT_MS_def)
        then have "kx_now d w < kx_now d ?w1" using assms(1) open1 unfolding clock_runs_def by blast
        also have "\<dots> \<le> kx_now d w2" using assms(1) beat unfolding clock_runs_def by (metis snd_conv)
        finally have "until - kx_now d w2 < until - kx_now d w" using False by linarith
        from less.hyps [OF this] show ?thesis using step open1 beat Inr c2 by simp
      qed
    qed
  qed
qed

lemma message_loop_ends:
  assumes clock: "clock_runs d" and count: "counts_calls d calls"
  shows "\<exists>r w'. message_loop d dlq src part m attempt w = Some (r, w')
    \<and> calls w' \<le> calls w + (maxRedeliveries (kx_redelivery d) - attempt) + 1
    \<and> (r = Inr () \<longrightarrow> settles d dlq src part m w')"
proof (induction "maxRedeliveries (kx_redelivery d) - attempt" arbitrary: attempt w)
  case (0 attempt w)
  then have last: "maxRedeliveries (kx_redelivery d) \<le> attempt" by simp
  obtain h w1 where h: "kafka_handle d m w = (h, w1)" by fastforce
  have c: "calls w1 = calls w + 1" using count h unfolding counts_calls_def kafka_handle_def by (metis snd_conv)
  have send: "calls (snd (deadLetter d dlq src part m err w1)) = calls w1" for err
    using count by (simp add: counts_calls_def deadLetter_def)
  show ?case
  proof (cases h)
    case (Inl err)
    obtain r w' where "deadLetter d dlq src part m err w1 = (r, w')" by fastforce
    then show ?thesis
      using h c send [of err] last Inl by (subst message_loop_step) (auto simp: settles_def)
  qed (use h c in \<open>subst message_loop_step, auto simp: settles_def\<close>)
next
  case (Suc k attempt w)
  then have more: "\<not> maxRedeliveries (kx_redelivery d) \<le> attempt"
    and k: "k = maxRedeliveries (kx_redelivery d) - (attempt + 1)" by simp_all
  obtain h w1 where h: "kafka_handle d m w = (h, w1)" by fastforce
  have c: "calls w1 = calls w + 1" using count h unfolding counts_calls_def kafka_handle_def by (metis snd_conv)
  show ?case
  proof (cases h)
    case (Inl err)
    obtain b w2 where wait: "waitBeforeRetry d attempt w1 = Some (b, w2)"
      using wait_loop_ends [OF clock] unfolding waitBeforeRetry_def by metis
    have c2: "calls w2 = calls w1"
      using wait_loop_calls [OF clock count] wait unfolding waitBeforeRetry_def by blast
    obtain r w' where rest: "message_loop d dlq src part m (attempt + 1) w2 = Some (r, w')"
      "calls w' \<le> calls w2 + k + 1" "r = Inr () \<longrightarrow> settles d dlq src part m w'"
      using Suc.hyps(1) [OF k, of w2] k by auto
    show ?thesis
      using h c c2 wait rest more Inl Suc.hyps(2) by (cases b) (subst message_loop_step, auto)+
  qed (use h c in \<open>subst message_loop_step, auto simp: settles_def\<close>)
qed

text \<open>C11: A message settles. As long as time goes by, whatever the handler, the heartbeats and the sends
  answer, the loop of a message ends; it runs the handler at most once more than there are
  redeliveries; and when it ends well, which commits the offset, the message was handled or its
  copy was sent to the dead-letter topic.\<close>

theorem kafka_message_settles:
  assumes clock: "clock_runs d" and count: "counts_calls d calls"
  shows "\<exists>r w'. eachMessage d dlq src part m w = Some (r, w')
    \<and> calls w' \<le> calls w + maxRedeliveries (kx_redelivery d) + 1
    \<and> (r = Inr () \<longrightarrow> settles d dlq src part m w')"
  using message_loop_ends [OF assms, of dlq src part m 0 w] by (simp add: eachMessage_def)

subsection \<open>An outage shorter than the redeliveries\<close>

definition total_delay :: "redelivery_options \<Rightarrow> nat \<Rightarrow> nat" where
  "total_delay opts attempt = (\<Sum>i \<in> {attempt..<maxRedeliveries opts}. redeliveryDelay opts (int i))"

lemma total_delay_step:
  "attempt < maxRedeliveries opts \<Longrightarrow>
   total_delay opts attempt = redeliveryDelay opts (int attempt) + total_delay opts (attempt + 1)"
  by (simp add: total_delay_def sum.atLeast_Suc_lessThan)

lemma default_total: "total_delay DEFAULT_REDELIVERY 0 = 181000"
proof -
  have "maxRedeliveries DEFAULT_REDELIVERY = 10" by (simp add: DEFAULT_REDELIVERY_def)
  then have "total_delay DEFAULT_REDELIVERY 0 = sum_list (map (\<lambda>i. redeliveryDelay DEFAULT_REDELIVERY (int i)) [0..<10])"
    by (simp only: total_delay_def interv_sum_list_conv_sum_set_nat set_upt)
  also have "\<dots> = sum_list (map (\<lambda>i. min 30000 (1000 * 2 ^ i)) [0, 1, 2, 3, 4, 5, 6, 7, 8, 9])"
  proof -
    have "redeliveryDelay DEFAULT_REDELIVERY (int i) = min 30000 (1000 * 2 ^ i)" for i
      by (simp add: redeliveryDelay_def DEFAULT_REDELIVERY_def option_or_def)
    moreover have "[0..<10] = [0, 1, 2, 3, 4, 5, 6, 7, 8, 9 :: nat]" by (simp add: upt_rec)
    ultimately show ?thesis by simp
  qed
  also have "\<dots> = 181000" by simp
  finally show ?thesis .
qed

text \<open>The loop does not depend on the sends of dead letters when none is sent.\<close>

lemma wait_loop_send:
  assumes "clock_runs d"
  shows "wait_loop (d\<lparr>kx_send := snd'\<rparr>) until w = wait_loop d until w"
proof (induction "until - kx_now d w" arbitrary: w rule: less_induct)
  case less
  let ?d = "d\<lparr>kx_send := snd'\<rparr>"
  show ?case
  proof (cases "kx_closing d w \<or> until \<le> kx_now d w")
    case True
    then show ?thesis by (simp add: wait_loop_done)
  next
    case False
    let ?ms = "min RETRY_HEARTBEAT_MS (until - kx_now d w)"
    let ?w1 = "kx_sleep d ?ms w"
    have step: "wait_loop e until w = (if kx_closing d ?w1 then wait_loop e until ?w1
      else (case kx_heartbeat d ?w1 of (Inl x, w2) \<Rightarrow> Some (Inl x, w2) | (Inr _, w2) \<Rightarrow> wait_loop e until w2))"
      if "e = d \<or> e = ?d" for e
      using False that by (subst wait_loop.simps) (auto simp: Let_def)
    obtain b w2 where beat: "kx_heartbeat d ?w1 = (b, w2)" by fastforce
    show ?thesis
    proof (cases "kx_closing d ?w1")
      case True
      then show ?thesis by (simp add: step wait_loop_done)
    next
      case open1: False
      have "0 < ?ms" using False by (simp add: RETRY_HEARTBEAT_MS_def)
      then have "kx_now d w < kx_now d ?w1" using assms open1 unfolding clock_runs_def by blast
      also have "\<dots> \<le> kx_now d w2" using assms beat unfolding clock_runs_def by (metis snd_conv)
      finally have "until - kx_now d w2 < until - kx_now d w" using False by linarith
      from less [OF this] show ?thesis using open1 beat by (cases b) (simp_all add: step)
    qed
  qed
qed

lemma message_loop_send:
  assumes clock: "clock_runs d"
    and over: "\<forall>w. recovery \<le> kx_now d w \<longrightarrow> (\<exists>w'. kafka_handle d m w = (Inr (), w'))"
  shows "recovery \<le> kx_now d w + total_delay (kx_redelivery d) attempt \<Longrightarrow>
    message_loop (d\<lparr>kx_send := snd'\<rparr>) dlq src part m attempt w = message_loop d dlq src part m attempt w"
proof (induction "maxRedeliveries (kx_redelivery d) - attempt" arbitrary: attempt w)
  case (0 attempt w)
  then have "total_delay (kx_redelivery d) attempt = 0" by (simp add: total_delay_def)
  with 0 over obtain w' where "kafka_handle d m w = (Inr (), w')" by fastforce
  then show ?case by (simp add: message_loop_step [of _ _ _ _ _ _ w] kafka_handle_def)
next
  case (Suc k attempt w)
  let ?d = "d\<lparr>kx_send := snd'\<rparr>"
  have more: "attempt < maxRedeliveries (kx_redelivery d)" and k: "k = maxRedeliveries (kx_redelivery d) - (attempt + 1)"
    using Suc.hyps(2) by simp_all
  have same: "kafka_handle ?d m w = kafka_handle d m w" by (simp add: kafka_handle_def)
  obtain h w1 where h: "kafka_handle d m w = (h, w1)" by fastforce
  have later: "kx_now d w \<le> kx_now d w1"
    using clock h unfolding clock_runs_def kafka_handle_def by (metis snd_conv)
  show ?case
  proof (cases "kx_closing d w")
    case True
    then show ?thesis by (simp add: message_loop_step [of _ _ _ _ _ _ w])
  next
    case going: False
    show ?thesis
    proof (cases h)
      case (Inr u)
      then show ?thesis using h same by (simp add: message_loop_step [of _ _ _ _ _ _ w])
    next
      case (Inl err)
      obtain b w2 where wait: "waitBeforeRetry d attempt w1 = Some (b, w2)"
        and ends: "b = Inr () \<longrightarrow> kx_closing d w2 \<or> kx_now d w1 + redeliveryDelay (kx_redelivery d) (int attempt) \<le> kx_now d w2"
        using wait_loop_ends [OF clock] unfolding waitBeforeRetry_def by metis
      have wait': "waitBeforeRetry ?d attempt w1 = Some (b, w2)"
        using wait wait_loop_send [OF clock] by (simp add: waitBeforeRetry_def)
      have rest: "message_loop ?d dlq src part m (attempt + 1) w2 = message_loop d dlq src part m (attempt + 1) w2"
        if "b = Inr ()"
      proof (cases "kx_closing d w2")
        case True
        then show ?thesis by (simp add: message_loop_step [of _ _ _ _ _ _ w2])
      next
        case False
        then have "recovery \<le> kx_now d w2 + total_delay (kx_redelivery d) (attempt + 1)"
          using Suc.prems total_delay_step [OF more] later ends that by simp
        then show ?thesis using Suc.hyps(1) [OF k] by blast
      qed
      show ?thesis
        using h same Inl going more wait wait' rest
        by (cases b) (simp_all add: message_loop_step [of _ _ _ _ _ _ w])
    qed
  qed
qed

text \<open>C12: An outage of up to three minutes loses nothing. With the default redeliveries, a message whose
  handler works again 181 seconds after the first attempt began is never dead-lettered: the loop
  runs as it would without a dead-letter topic to send to.\<close>

theorem kafka_outage_loses_nothing:
  assumes "clock_runs d" and "kx_redelivery d = DEFAULT_REDELIVERY"
    and "\<forall>w. recovery \<le> kx_now d w \<longrightarrow> (\<exists>w'. kafka_handle d m w = (Inr (), w'))"
    and "recovery \<le> kx_now d w + 181000"
  shows "eachMessage (d\<lparr>kx_send := any_send\<rparr>) dlq src part m w = eachMessage d dlq src part m w"
  using message_loop_send [OF assms(1,3), of w 0] assms(2,4) by (simp add: eachMessage_def default_total)

subsection \<open>A world of the adapter\<close>

text \<open>A clock and a count of the handler's runs. The handler fails before \<open>recovery\<close>; sleeps take
  their time, runs of the handler take none, nothing is ever closed, sends are counted.\<close>

definition outage_deps :: "nat \<Rightarrow> (nat \<times> nat \<times> nat) kafka_deps" where
  "outage_deps recovery =
     \<lparr>kx_now = fst, kx_closing = (\<lambda>_. False), kx_sleep = (\<lambda>ms (t, n, s). (t + ms, n, s)),
      kx_heartbeat = (\<lambda>w. (Inr (), w)),
      kx_consume = (\<lambda>v p (t, n, s). (if recovery \<le> t then Inr () else Inl (PlainError ''Error'' ''down'' []), (t, n + 1, s))),
      kx_send = (\<lambda>t r (t, n, s). (Inr (), (t, n, s + 1))), kx_text = (\<lambda>_. ''down''),
      kx_redelivery = DEFAULT_REDELIVERY\<rparr>"

lemma outage_clock: "clock_runs (outage_deps r)"
  by (auto simp: clock_runs_def outage_deps_def)

lemma outage_calls: "counts_calls (outage_deps r) (\<lambda>(t, n, s). n)"
  by (auto simp: counts_calls_def outage_deps_def)

lemma kafka_message_settles_witness:
  "\<exists>r w'. eachMessage (outage_deps 5) ''t-DLQ'' ''t'' 0 \<lparr>km_key = None, km_value = Some ''x'', km_headers = [], km_offset = 7\<rparr> (0, 0, 0)
       = Some (r, w') \<and> fst (snd w') \<le> 11"
  using kafka_message_settles [OF outage_clock outage_calls, of 5 "''t-DLQ''" "''t''" 0
    "\<lparr>km_key = None, km_value = Some ''x'', km_headers = [], km_offset = 7\<rparr>" "(0, 0, 0)"]
  by (fastforce simp: outage_deps_def DEFAULT_REDELIVERY_def)

lemma kafka_outage_loses_nothing_witness:
  "eachMessage (outage_deps 181000\<lparr>kx_send := \<lambda>t r w. (Inl (PlainError ''Error'' ''no'' []), w)\<rparr>) ''t-DLQ'' ''t'' 0
     \<lparr>km_key = None, km_value = Some ''x'', km_headers = [], km_offset = 7\<rparr> (0, 0, 0)
   = eachMessage (outage_deps 181000) ''t-DLQ'' ''t'' 0
     \<lparr>km_key = None, km_value = Some ''x'', km_headers = [], km_offset = 7\<rparr> (0, 0, 0)"
proof (rule kafka_outage_loses_nothing [OF outage_clock])
  show "kx_redelivery (outage_deps 181000) = DEFAULT_REDELIVERY" by (simp add: outage_deps_def)
  show "\<forall>w. 181000 \<le> kx_now (outage_deps 181000) w \<longrightarrow> (\<exists>w'. kafka_handle (outage_deps 181000)
      \<lparr>km_key = None, km_value = Some ''x'', km_headers = [], km_offset = 7\<rparr> w = (Inr (), w'))"
    by (auto simp: outage_deps_def kafka_handle_def)
  show "181000 \<le> kx_now (outage_deps 181000) (0, 0, 0) + 181000" by simp
qed

subsection \<open>A new group starts at the end\<close>

definition COORDINATOR_RETRIES :: nat where "COORDINATOR_RETRIES = 20"

definition COORDINATOR_RETRY_DELAY_MS :: nat where "COORDINATOR_RETRY_DELAY_MS = 500"

text \<open>\<open>retryRetriable\<close> from an attempt on; \<open>retriable\<close> is the mark kafkajs sets on an error.\<close>

function retry_from ::
  "(thrown \<Rightarrow> bool) \<Rightarrow> (nat \<Rightarrow> 'w \<Rightarrow> 'w) \<Rightarrow> ('w, 'a) eff \<Rightarrow> nat \<Rightarrow> ('w, 'a) eff" where
  "retry_from retriable sleep f attempt w =
     (case f w of
        (Inr x, w1) \<Rightarrow> (Inr x, w1)
      | (Inl err, w1) \<Rightarrow>
          if \<not> retriable err \<or> COORDINATOR_RETRIES \<le> attempt then (Inl err, w1)
          else retry_from retriable sleep f (attempt + 1) (sleep COORDINATOR_RETRY_DELAY_MS w1))"
  by pat_completeness auto

termination by (relation "measure (\<lambda>(_, _, _, attempt, _). COORDINATOR_RETRIES - attempt)") auto

declare retry_from.simps [simp del]

definition retryRetriable :: "(thrown \<Rightarrow> bool) \<Rightarrow> (nat \<Rightarrow> 'w \<Rightarrow> 'w) \<Rightarrow> ('w, 'a) eff \<Rightarrow> ('w, 'a) eff" where
  "retryRetriable retriable sleep f = retry_from retriable sleep f 1"

text \<open>The administrative calls. \<open>fetchOffsets\<close> answers the partitions of the one topic asked for,
  \<open>-1\<close> where the group has committed nothing.\<close>

record 'w kafka_admin =
  ka_fetchOffsets :: "string \<Rightarrow> string \<Rightarrow> ('w, (nat \<times> int) list option) eff"
  ka_fetchTopicOffsets :: "string \<Rightarrow> ('w, (nat \<times> int) list) eff"
  ka_setOffsets :: "string \<Rightarrow> string \<Rightarrow> (nat \<times> int) list \<Rightarrow> ('w, unit) eff"
  ka_sleep :: "nat \<Rightarrow> 'w \<Rightarrow> 'w"
  ka_retriable :: "thrown \<Rightarrow> bool"

definition pinNewGroupToEnd :: "'w kafka_admin \<Rightarrow> ('w, unit) eff \<Rightarrow> string \<Rightarrow> string \<Rightarrow> ('w, unit) eff" where
  "pinNewGroupToEnd a getAdmin groupId t =
     andThen getAdmin (\<lambda>_.
     andThen (retryRetriable (ka_retriable a) (ka_sleep a) (ka_fetchOffsets a groupId t)) (\<lambda>committed.
     let hasOffsets = (case committed of Some ps \<Rightarrow> list_ex (\<lambda>(_, off). off \<noteq> -1) ps | None \<Rightarrow> False) in
     if hasOffsets then ret ()
     else andThen (ka_fetchTopicOffsets a t) (\<lambda>ends.
       rescue (ka_setOffsets a groupId t ends) (\<lambda>_. ret ()))))"

text \<open>\<open>subscribe\<close> up to the consumer's start: both topics exist, and both groups are pinned.\<close>

definition prepare_subscription ::
  "'w kafka_admin \<Rightarrow> ('w, unit) eff \<Rightarrow> (string list \<Rightarrow> ('w, unit) eff) \<Rightarrow> (json \<Rightarrow> string) \<Rightarrow> string \<Rightarrow> string
   \<Rightarrow> ('w, string \<times> string) eff" where
  "prepare_subscription a getAdmin ensure stringify t subscription =
     andThen (lift (toKafkaTopic stringify t)) (\<lambda>kafkaTopic.
     andThen (lift (toKafkaTopic stringify (deadLetterTopic t))) (\<lambda>dlqTopic.
     andThen (ensure [kafkaTopic, dlqTopic]) (\<lambda>_.
     andThen (pinNewGroupToEnd a getAdmin subscription kafkaTopic) (\<lambda>_.
     andThen (pinNewGroupToEnd a getAdmin (deadLetterSubscription subscription) dlqTopic) (\<lambda>_.
     ret (kafkaTopic, dlqTopic))))))"

text \<open>\<open>offs\<close> is what the groups have committed: reads and waits leave it alone, a set that succeeds
  writes the partitions of its group and topic.\<close>

definition reads_offsets ::
  "'w kafka_admin \<Rightarrow> ('w, unit) eff \<Rightarrow> ('w \<Rightarrow> string \<Rightarrow> string \<Rightarrow> (nat \<times> int) list) \<Rightarrow> bool" where
  "reads_offsets a getAdmin offs \<longleftrightarrow>
     (\<forall>w. offs (snd (getAdmin w)) = offs w) \<and> (\<forall>ms w. offs (ka_sleep a ms w) = offs w)
     \<and> (\<forall>t w. offs (snd (ka_fetchTopicOffsets a t w)) = offs w)
     \<and> (\<forall>g t w. offs (snd (ka_fetchOffsets a g t w)) = offs w)
     \<and> (\<forall>g t ps w. fst (ka_fetchOffsets a g t w) = Inr ps \<longrightarrow> ps = Some (offs w g t))
     \<and> (\<forall>g t ps w. offs (snd (ka_setOffsets a g t ps w)) =
          (if fst (ka_setOffsets a g t ps w) = Inr () then (offs w)(g := (offs w g)(t := ps)) else offs w))"

lemma retry_from_reads:
  assumes f: "\<And>w. P (snd (f w)) = P w" "\<And>w ps. fst (f w) = Inr ps \<Longrightarrow> Q ps (P w)"
    and sleep: "\<And>ms w. P (sleep ms w) = P w"
  shows "P (snd (retry_from retriable sleep f attempt w)) = P w
    \<and> (\<forall>ps. fst (retry_from retriable sleep f attempt w) = Inr ps \<longrightarrow> Q ps (P w))"
proof (induction "COORDINATOR_RETRIES - attempt" arbitrary: attempt w rule: less_induct)
  case less
  obtain r w1 where r: "f w = (r, w1)" by fastforce
  have keep: "P w1 = P w" using f(1) [of w] r by simp
  show ?case
  proof (cases "\<exists>e. r = Inl e \<and> retriable e \<and> attempt < COORDINATOR_RETRIES")
    case True
    then have "COORDINATOR_RETRIES - (attempt + 1) < COORDINATOR_RETRIES - attempt" by auto
    from less [OF this, of "sleep COORDINATOR_RETRY_DELAY_MS w1"] True show ?thesis
      by (auto simp: retry_from.simps [of _ _ _ attempt] r sleep keep)
  next
    case False
    then show ?thesis using f(2) [of w] keep r
      by (cases r) (auto simp: retry_from.simps [of _ _ _ attempt])
  qed
qed

text \<open>A group that exists keeps its place. Pinning a group leaves what it has committed as it is; a
  group with nothing committed gets the ends of the topic as they were read, or stays as it was when
  the set fails, and no other group or topic is touched.\<close>

theorem pinned_group_keeps_its_place:
  assumes laws: "reads_offsets a getAdmin offs" and run: "pinNewGroupToEnd a getAdmin g t w = (r, w')"
  shows "offs w' = offs w
    \<or> (list_all (\<lambda>(_, off). off = -1) (offs w g t)
       \<and> (\<exists>ends w1 w2. ka_fetchTopicOffsets a t w1 = (Inr ends, w2) \<and> offs w' = (offs w)(g := (offs w g)(t := ends))))"
proof -
  note law = laws [unfolded reads_offsets_def]
  let ?fetch = "retryRetriable (ka_retriable a) (ka_sleep a) (ka_fetchOffsets a g t)"
  have fetch: "offs (snd (?fetch v)) = offs v \<and> (\<forall>ps. fst (?fetch v) = Inr ps \<longrightarrow> ps = Some (offs v g t))" for v
    unfolding retryRetriable_def
    by (rule retry_from_reads [where Q = "\<lambda>ps o'. ps = Some (o' g t)"]) (use law in auto)
  obtain x w0 where adm: "getAdmin w = (x, w0)" by fastforce
  then have w0: "offs w0 = offs w" using law by (metis snd_conv)
  obtain c w1 where got: "?fetch w0 = (c, w1)" by fastforce
  then have w1: "offs w1 = offs w" and c: "c = Inr ps \<Longrightarrow> ps = Some (offs w g t)" for ps
    using fetch [of w0] w0 by auto
  obtain y w2 where ends: "ka_fetchTopicOffsets a t w1 = (y, w2)" by fastforce
  then have w2: "offs w2 = offs w" using law w1 by (metis snd_conv)
  have w3: "offs (snd (ka_setOffsets a g t ps w2)) = offs w
      \<or> offs (snd (ka_setOffsets a g t ps w2)) = (offs w)(g := (offs w g)(t := ps))" for ps
    using law w2 by auto
  have put: "offs w' = offs w \<or> offs w' = (offs w)(g := (offs w g)(t := ps))"
    if "rescue (ka_setOffsets a g t ps) (\<lambda>_. ret ()) w2 = (r, w')" for ps
    using that w3 [of ps] by (auto simp: rescue_def split: prod.splits sum.splits)
  show ?thesis
    using run adm got ends w0 w1 w2 c put
    by (cases x; cases c; cases y)
      (fastforce simp: pinNewGroupToEnd_def andThen_def list_ex_iff list_all_iff split: if_splits)+
qed

definition toy_admin :: "(string \<Rightarrow> string \<Rightarrow> (nat \<times> int) list) kafka_admin" where
  "toy_admin =
     \<lparr>ka_fetchOffsets = (\<lambda>g t w. (Inr (Some (w g t)), w)), ka_fetchTopicOffsets = (\<lambda>t w. (Inr [(0, 42)], w)),
      ka_setOffsets = (\<lambda>g t ps w. (Inr (), w(g := (w g)(t := ps)))), ka_sleep = (\<lambda>ms w. w), ka_retriable = (\<lambda>_. False)\<rparr>"

lemma toy_admin_run:
  "pinNewGroupToEnd toy_admin (ret ()) ''g'' ''t'' (\<lambda>_ _. [(0, -1)])
     = (Inr (), (\<lambda>_ _. [(0, -1)])(''g'' := (\<lambda>_. [(0, -1)])(''t'' := [(0, 42)])))"
  by (simp add: pinNewGroupToEnd_def toy_admin_def andThen_def retryRetriable_def retry_from.simps rescue_def)

lemma pinned_group_keeps_its_place_witness:
  "list_all (\<lambda>(_, off). off = -1) [(0 :: nat, -1 :: int)]
   \<and> (\<exists>ends w1 w2. ka_fetchTopicOffsets toy_admin ''t'' w1 = (Inr ends, w2)
       \<and> (\<lambda>_ _. [(0, -1)])(''g'' := (\<lambda>_. [(0, -1)])(''t'' := [(0, 42)]))
         = (\<lambda>_ _. [(0, -1)])(''g'' := ((\<lambda>_. [(0, -1)])(''t'' := ends))))"
proof -
  have laws: "reads_offsets toy_admin (ret ()) (\<lambda>w. w)" by (simp add: reads_offsets_def toy_admin_def)
  have "((\<lambda>_ _. [(0, -1)])(''g'' := (\<lambda>_. [(0, -1)])(''t'' := [(0, 42)]))) ''g'' ''t'' \<noteq> ((\<lambda>_ _. [(0 :: nat, -1 :: int)]) ''g'' ''t'')"
    by simp
  then have "(\<lambda>_ _. [(0, -1)])(''g'' := (\<lambda>_. [(0, -1)])(''t'' := [(0, 42)])) \<noteq> (\<lambda>_ _. [(0 :: nat, -1 :: int)])"
    by metis
  then show ?thesis using pinned_group_keeps_its_place [OF laws toy_admin_run] by blast
qed

end
