(* ===== verification/Patterns.thy ===== *)
theory Patterns
  imports Prelude
begin

text \<open>
  Global replacement by a pattern, as the clients of the data engines and the redaction of log records use it.
\<close>

text \<open>\<open>s.replace(re, ...)\<close> for a global pattern: \<open>m\<close> matches at the head of the text and answers the
  replacement and the text after the match, which is never empty.\<close>

function replace_all :: "(string \<Rightarrow> (string \<times> string) option) \<Rightarrow> string \<Rightarrow> string" where
  "replace_all m [] = []"
| "replace_all m (c # cs) =
     (case m (c # cs) of
        Some (r, rest) \<Rightarrow> if length rest \<le> length cs then r @ replace_all m rest else c # replace_all m cs
      | None \<Rightarrow> c # replace_all m cs)"
  by pat_completeness auto

termination by (relation "measure (\<lambda>(_, s). length s)") auto

end
