(* ===== verification/Engines.thy ===== *)
theory Engines
  imports Patterns Stores Keyspace Effects
begin

text \<open>
  The clients that stand between the features and the data engines, each "the single place tenancy
  is enforced": \<open>infrastructure/graph/{graph.tenancy,graph.client}.ts\<close>, \<open>olap/olap.client.ts\<close>,
  \<open>search/search.client.ts\<close>, \<open>vector/vector.client.ts\<close>, and the cache (\<open>cache/cache.codec.ts\<close>,
  \<open>cache.client.ts\<close>). An engine is a parameter: one effect per method of its interface. The values
  printed in error messages are left out.
\<close>

subsection \<open>Text without comments and strings\<close>

abbreviation squote :: char where "squote \<equiv> CHR 0x27"
abbreviation dquote :: char where "dquote \<equiv> CHR 0x22"
abbreviation backtick :: char where "backtick \<equiv> CHR 0x60"
abbreviation backslash :: char where "backslash \<equiv> CHR 0x5C"
abbreviation newline :: char where "newline \<equiv> CHR 0x0A"

fun after_comment :: "string \<Rightarrow> string option" where
  "after_comment (c # d # cs) = (if c = CHR ''*'' \<and> d = CHR ''/'' then Some cs else after_comment (d # cs))"
| "after_comment _ = None"

definition block_comment :: "string \<Rightarrow> (string \<times> string) option" where
  "block_comment s = (if starts_with ''/*'' s then map_option (Pair '' '') (after_comment (drop 2 s)) else None)"

definition line_comment :: "string \<Rightarrow> string \<Rightarrow> (string \<times> string) option" where
  "line_comment p s = (if starts_with p s then Some ('' '', dropWhile (\<lambda>c. c \<noteq> newline) (drop (length p) s)) else None)"

text \<open>The text after the closing quote; a backslash takes the next character with it, unless
  that ends the line.\<close>

definition ends_line :: "char \<Rightarrow> bool" where
  "ends_line c \<longleftrightarrow> of_char c \<in> {10, 13 :: nat}"

fun after_quoted :: "char \<Rightarrow> string \<Rightarrow> string option" where
  "after_quoted q [] = None"
| "after_quoted q [c] = (if c = q then Some [] else None)"
| "after_quoted q (c # d # ds) =
     (if c = q then Some (d # ds)
      else if c = backslash then (if ends_line d then None else after_quoted q ds)
      else after_quoted q (d # ds))"

text \<open>The same where a doubled quote stands for one; \<open>escapes\<close> tells whether a backslash counts. A
  doubled quote with no closing quote after it closes the string itself.\<close>

fun after_doubled :: "char \<Rightarrow> bool \<Rightarrow> string \<Rightarrow> string option" where
  "after_doubled q escapes [] = None"
| "after_doubled q escapes [c] = (if c = q then Some [] else None)"
| "after_doubled q escapes (c # d # ds) =
     (if c = q then
        (if d = q then (case after_doubled q escapes ds of Some r \<Rightarrow> Some r | None \<Rightarrow> Some (d # ds)) else Some (d # ds))
      else if escapes \<and> c = backslash then (if ends_line d then None else after_doubled q escapes ds)
      else after_doubled q escapes (d # ds))"

fun opened :: "char \<Rightarrow> (string \<Rightarrow> string option) \<Rightarrow> string \<Rightarrow> (string \<times> string) option" where
  "opened q after (c # cs) = (if c = q then map_option (Pair [q, q]) (after cs) else None)"
| "opened q after [] = None"

definition graph_stripNonCode :: "string \<Rightarrow> string" where
  "graph_stripNonCode cypher =
     replace_all (opened backtick (after_doubled backtick False))
       (replace_all (opened dquote (after_quoted dquote))
         (replace_all (opened squote (after_quoted squote))
           (replace_all (line_comment ''//'') (replace_all block_comment cypher))))"

definition olap_stripNonCode :: "string \<Rightarrow> string" where
  "olap_stripNonCode sql =
     replace_all (opened squote (after_doubled squote True))
       (replace_all (line_comment ''--'') (replace_all block_comment sql))"

subsection \<open>The rules of graph queries\<close>

definition graph_error :: "string \<Rightarrow> thrown" where
  "graph_error msg = PlainError ''GraphTenancyError'' msg []"

definition TENANT_PARAM :: string where "TENANT_PARAM = ''tenantId''"

definition RESERVED_PROPERTIES :: "string list" where "RESERVED_PROPERTIES = [''tenantId'', ''id'']"

text \<open>\<open>/\$tenantId\b/\<close>\<close>

fun refers_to_tenant :: "string \<Rightarrow> bool" where
  "refers_to_tenant [] = False"
| "refers_to_tenant (c # cs) =
     ((starts_with ''$tenantId'' (c # cs)
         \<and> (case drop 9 (c # cs) of [] \<Rightarrow> True | d # _ \<Rightarrow> \<not> is_word_char d))
      \<or> refers_to_tenant cs)"

definition assertTenantScopedQuery :: "string \<Rightarrow> thrown + unit" where
  "assertTenantScopedQuery cypher =
     (if refers_to_tenant (graph_stripNonCode cypher) then Inr ()
      else Inl (graph_error ''Graph query must reference $tenantId (outside comments and strings)''))"

definition graph_assertTenant :: "string \<Rightarrow> thrown + unit" where
  "graph_assertTenant t = (if isTenantId t then Inr () else Inl (graph_error ''Invalid tenant id''))"

definition bindTenant :: "string \<Rightarrow> (string \<times> json) list \<Rightarrow> thrown + (string \<times> json) list" where
  "bindTenant t params =
     (if js_has params TENANT_PARAM
      then Inl (graph_error ''$tenantId is bound by the port; do not pass it in params'')
      else Inr (js_set params TENANT_PARAM (JStr t)))"

definition assertProperties :: "(string \<times> json) list \<Rightarrow> thrown + unit" where
  "assertProperties props =
     (if list_ex (\<lambda>(k, _). k \<in> set RESERVED_PROPERTIES) props
      then Inl (graph_error ''Property is owned by the graph port and cannot be set'') else Inr ())"

definition assertLabel :: "string \<Rightarrow> thrown + unit" where
  "assertLabel label =
     (if label \<noteq> [] \<and> is_upper (hd label) \<and> list_all is_alnum label then Inr ()
      else Inl (graph_error ''Invalid node label: expected PascalCase''))"

definition assertRelationshipType :: "string \<Rightarrow> thrown + unit" where
  "assertRelationshipType t =
     (if t \<noteq> [] \<and> is_upper (hd t) \<and> list_all (\<lambda>c. is_upper c \<or> is_digit c \<or> c = CHR ''_'') t then Inr ()
      else Inl (graph_error ''Invalid relationship type: expected UPPER_SNAKE_CASE''))"

definition assertNodeId :: "string \<Rightarrow> thrown + unit" where
  "assertNodeId i = (if i = [] then Inl (graph_error ''Node id must be a non-empty string'') else Inr ())"

subsection \<open>What a graph query may answer\<close>

text \<open>\<open>typeof value.properties === 'object'\<close> holds of null as well; reading a property of null throws.\<close>

definition isEntity :: "(string \<times> json) list \<Rightarrow> bool" where
  "isEntity v \<longleftrightarrow>
     (case js_prop v ''properties'' of Some (JObj _) \<Rightarrow> True | Some (JArr _) \<Rightarrow> True | Some JNull \<Rightarrow> True | _ \<Rightarrow> False)
     \<and> (js_has v ''labels'' \<or> js_has v ''type'')"

definition entity_belongs :: "string \<Rightarrow> (string \<times> json) list \<Rightarrow> thrown + unit" where
  "entity_belongs t v =
     (case js_prop v ''properties'' of
        Some (JObj ps) \<Rightarrow>
          if js_prop ps TENANT_PARAM \<noteq> Some (JStr t)
          then Inl (graph_error ''Graph query returned an entity outside the tenant'') else Inr ()
      | Some JNull \<Rightarrow> Inl (PlainError ''TypeError'' ''Cannot read properties of null'' [])
      | _ \<Rightarrow> Inl (graph_error ''Graph query returned an entity outside the tenant''))"

fun visit :: "string \<Rightarrow> json \<Rightarrow> thrown + unit"
  and visit_all :: "string \<Rightarrow> json list \<Rightarrow> thrown + unit"
  and visit_values :: "string \<Rightarrow> (string \<times> json) list \<Rightarrow> thrown + unit" where
  "visit t (JArr vs) = visit_all t vs"
| "visit t (JObj ps) = (if isEntity ps then entity_belongs t ps else visit_values t ps)"
| "visit t _ = Inr ()"
| "visit_all t [] = Inr ()"
| "visit_all t (v # vs) = (case visit t v of Inl e \<Rightarrow> Inl e | Inr _ \<Rightarrow> visit_all t vs)"
| "visit_values t [] = Inr ()"
| "visit_values t ((_, v) # ps) = (case visit t v of Inl e \<Rightarrow> Inl e | Inr _ \<Rightarrow> visit_values t ps)"

definition assertResultTenant :: "string \<Rightarrow> (string \<times> json) list list \<Rightarrow> thrown + unit" where
  "assertResultTenant t records = visit_all t (map JObj records)"

subsection \<open>The graph client\<close>

datatype graph_mode = ReadMode | WriteMode

record 'w graph_engine =
  ge_run :: "graph_mode \<Rightarrow> string \<Rightarrow> (string \<times> json) list \<Rightarrow> ('w, (string \<times> json) list list) eff"

definition graph_run ::
  "'w graph_engine \<Rightarrow> graph_mode \<Rightarrow> string \<Rightarrow> string \<Rightarrow> (string \<times> json) list \<Rightarrow> ('w, (string \<times> json) list list) eff" where
  "graph_run g mode t cypher params =
     andThen (lift (graph_assertTenant t)) (\<lambda>_.
     andThen (lift (assertTenantScopedQuery cypher)) (\<lambda>_.
     andThen (lift (bindTenant t params)) (\<lambda>bound.
     andThen (ge_run g mode cypher bound) (\<lambda>records.
     andThen (lift (assertResultTenant t records)) (\<lambda>_. ret records)))))"

definition graph_read :: "'w graph_engine \<Rightarrow> string \<Rightarrow> string \<Rightarrow> (string \<times> json) list \<Rightarrow> ('w, (string \<times> json) list list) eff" where
  "graph_read g = graph_run g ReadMode"

definition graph_write :: "'w graph_engine \<Rightarrow> string \<Rightarrow> string \<Rightarrow> (string \<times> json) list \<Rightarrow> ('w, (string \<times> json) list list) eff" where
  "graph_write g = graph_run g WriteMode"

definition merge_node_text :: "string \<Rightarrow> string" where
  "merge_node_text label =
     ''MERGE (n:'' @ [backtick] @ label @ [backtick] @ '' {tenantId: $tenantId, id: $id}) SET n += $props''"

definition mergeNode :: "'w graph_engine \<Rightarrow> string \<Rightarrow> string \<Rightarrow> string \<Rightarrow> (string \<times> json) list \<Rightarrow> ('w, unit) eff" where
  "mergeNode g t label i props =
     andThen (lift (assertLabel label)) (\<lambda>_.
     andThen (lift (assertNodeId i)) (\<lambda>_.
     andThen (lift (assertProperties props)) (\<lambda>_.
     andThen (graph_write g t (merge_node_text label) [(''id'', JStr i), (''props'', JObj props)]) (\<lambda>_. ret ()))))"

definition line_break :: string where "line_break = newline # replicate 7 CHR '' ''"

definition merge_edge_text :: "string \<Rightarrow> string \<Rightarrow> string \<Rightarrow> string" where
  "merge_edge_text fromLabel rel toLabel =
     ''MATCH (a:'' @ [backtick] @ fromLabel @ [backtick] @ '' {tenantId: $tenantId, id: $fromId})'' @ line_break @
     ''MATCH (b:'' @ [backtick] @ toLabel @ [backtick] @ '' {tenantId: $tenantId, id: $toId})'' @ line_break @
     ''MERGE (a)-[r:'' @ [backtick] @ rel @ [backtick] @ '' {tenantId: $tenantId}]->(b)'' @ line_break @
     ''SET r += $props'' @ line_break @
     ''RETURN count(r) AS merged''"

text \<open>\<open>Number(rows[0]?.merged ?? 0) > 0\<close>; the count the query returns is a number.\<close>

definition merged_any :: "(string \<times> json) list list \<Rightarrow> bool" where
  "merged_any rows =
     (case rows of
        [] \<Rightarrow> False
      | r # _ \<Rightarrow> (case js_prop r ''merged'' of Some (JNum n) \<Rightarrow> 0 < n | Some (JBool b) \<Rightarrow> b | _ \<Rightarrow> False))"

definition mergeEdge ::
  "'w graph_engine \<Rightarrow> string \<Rightarrow> string \<Rightarrow> string \<Rightarrow> string \<Rightarrow> string \<Rightarrow> string \<Rightarrow> (string \<times> json) list \<Rightarrow> ('w, bool) eff" where
  "mergeEdge g t fromLabel fromId rel toLabel toId props =
     andThen (lift (assertLabel fromLabel)) (\<lambda>_.
     andThen (lift (assertLabel toLabel)) (\<lambda>_.
     andThen (lift (assertRelationshipType rel)) (\<lambda>_.
     andThen (lift (assertNodeId fromId)) (\<lambda>_.
     andThen (lift (assertNodeId toId)) (\<lambda>_.
     andThen (lift (assertProperties props)) (\<lambda>_.
     andThen (graph_write g t (merge_edge_text fromLabel rel toLabel)
       [(''fromId'', JStr fromId), (''toId'', JStr toId), (''props'', JObj props)]) (\<lambda>rows.
     ret (merged_any rows))))))))"

subsection \<open>Graph queries stay in the tenant\<close>

text \<open>The entities of an answer: the nodes and relationships that are not inside another.\<close>

fun entities :: "json \<Rightarrow> (string \<times> json) list list"
  and entities_all :: "json list \<Rightarrow> (string \<times> json) list list"
  and entities_values :: "(string \<times> json) list \<Rightarrow> (string \<times> json) list list" where
  "entities (JArr vs) = entities_all vs"
| "entities (JObj ps) = (if isEntity ps then [ps] else entities_values ps)"
| "entities _ = []"
| "entities_all [] = []"
| "entities_all (v # vs) = entities v @ entities_all vs"
| "entities_values [] = []"
| "entities_values ((_, v) # ps) = entities v @ entities_values ps"

definition of_tenant :: "string \<Rightarrow> (string \<times> json) list \<Rightarrow> bool" where
  "of_tenant t v \<longleftrightarrow> (\<exists>ps. js_prop v ''properties'' = Some (JObj ps) \<and> js_prop ps TENANT_PARAM = Some (JStr t))"

lemma entity_belongs_Inr: "entity_belongs t v = Inr () \<longleftrightarrow> of_tenant t v"
  by (auto simp: entity_belongs_def of_tenant_def split: option.splits json.splits)

lemma visit_Inr:
  "visit t v = Inr () \<longleftrightarrow> list_all (of_tenant t) (entities v)"
  "visit_all t vs = Inr () \<longleftrightarrow> list_all (of_tenant t) (entities_all vs)"
  "visit_values t ps = Inr () \<longleftrightarrow> list_all (of_tenant t) (entities_values ps)"
  by (induction t v and t vs and t ps rule: visit_visit_all_visit_values.induct)
    (auto simp: entity_belongs_Inr split: sum.splits)

lemma bindTenant_Inr:
  "bindTenant t params = Inr bound \<longleftrightarrow> \<not> js_has params TENANT_PARAM \<and> bound = js_set params TENANT_PARAM (JStr t)"
  by (auto simp: bindTenant_def)

text \<open>C14: A graph query stays in its tenant. Whatever \<open>GraphClient\<close> does not refuse before it reaches the engine
  reaches it once, for a valid tenant, with a text that refers to the tenant parameter and with that
  parameter bound to the tenant, whatever the caller passed; and an answer that is returned holds no node
  or relationship of another tenant.\<close>

theorem graph_queries_stay_in_tenant:
  assumes "graph_run g mode t cypher params w = (r, w')"
  shows "(w' = w \<and> (\<exists>e. r = Inl e)) \<or>
    (\<exists>bound answer. isTenantId t \<and> refers_to_tenant (graph_stripNonCode cypher)
      \<and> js_prop bound TENANT_PARAM = Some (JStr t) \<and> (\<forall>k. k \<noteq> TENANT_PARAM \<longrightarrow> js_prop bound k = js_prop params k)
      \<and> ge_run g mode cypher bound w = (answer, w')
      \<and> (\<forall>records. r = Inr records \<longrightarrow> answer = Inr records \<and> list_all (of_tenant t) (entities_all (map JObj records))))"
proof (cases "\<exists>bound. graph_assertTenant t = Inr () \<and> assertTenantScopedQuery cypher = Inr () \<and> bindTenant t params = Inr bound")
  case True
  then obtain bound where ok: "graph_assertTenant t = Inr ()" "assertTenantScopedQuery cypher = Inr ()" "bindTenant t params = Inr bound"
    by blast
  obtain answer w1 where run: "ge_run g mode cypher bound w = (answer, w1)" by fastforce
  have "w1 = w'" "\<forall>records. r = Inr records \<longrightarrow> answer = Inr records \<and> assertResultTenant t records = Inr ()"
    using assms ok run by (auto simp: graph_run_def andThen_def split: sum.splits)
  moreover have "isTenantId t" "refers_to_tenant (graph_stripNonCode cypher)"
    using ok by (simp_all add: graph_assertTenant_def assertTenantScopedQuery_def split: if_splits)
  moreover have "js_prop bound k = (if k = TENANT_PARAM then Some (JStr t) else js_prop params k)" for k
    using ok(3) by (simp add: bindTenant_Inr js_prop_set)
  ultimately show ?thesis
    using run by (intro disjI2 exI [of _ bound] exI [of _ answer]) (simp add: assertResultTenant_def visit_Inr)
next
  case False
  then show ?thesis using assms
    by (cases "graph_assertTenant t"; cases "assertTenantScopedQuery cypher"; cases "bindTenant t params")
      (auto simp: graph_run_def)
qed

definition toy_graph :: "nat graph_engine" where
  "toy_graph = \<lparr>ge_run = (\<lambda>mode cypher params n. (Inr [[(''n'', JObj [(''labels'', JArr []),
     (''properties'', JObj [(''tenantId'', JStr ''acme'')])])]], n + 1))\<rparr>"

lemma graph_queries_stay_in_tenant_witness:
  "\<exists>r. graph_run toy_graph ReadMode ''acme'' ''RETURN $tenantId'' [] 0 = (Inr r, 1)
     \<and> list_all (of_tenant ''acme'') (entities_all (map JObj r))"
proof -
  have run: "graph_run toy_graph ReadMode ''acme'' ''RETURN $tenantId'' [] 0
    = (Inr [[(''n'', JObj [(''labels'', JArr []), (''properties'', JObj [(''tenantId'', JStr ''acme'')])])]], 1)"
    by code_simp
  from graph_queries_stay_in_tenant [OF run] run show ?thesis by auto
qed

text \<open>The words of a label or a type, and the texts of the merges, hold nothing to strip but the quoted
  names, so the two merges are never refused for their text.\<close>

lemma replace_all_skip:
  "\<forall>c \<in> set p. \<forall>u. m (c # u) = None \<Longrightarrow> replace_all m (p @ s) = p @ replace_all m s"
  by (induction p) auto

definition plain_text :: "string \<Rightarrow> bool" where
  "plain_text s \<longleftrightarrow> list_all (\<lambda>c. c \<noteq> CHR ''/'' \<and> c \<noteq> squote \<and> c \<noteq> dquote) s"

lemma plain_text_append [simp]: "plain_text (a @ b) \<longleftrightarrow> plain_text a \<and> plain_text b"
  "plain_text (c # b) \<longleftrightarrow> c \<noteq> CHR ''/'' \<and> c \<noteq> squote \<and> c \<noteq> dquote \<and> plain_text b" "plain_text []"
  by (auto simp: plain_text_def)

lemma replace_all_none: "\<forall>c \<in> set s. \<forall>u. m (c # u) = None \<Longrightarrow> replace_all m s = s"
  using replace_all_skip [of s m "[]"] by simp

lemma strip_plain:
  assumes "plain_text s"
  shows "graph_stripNonCode s = replace_all (opened backtick (after_doubled backtick False)) s"
proof -
  have each: "c \<noteq> CHR ''/'' \<and> c \<noteq> squote \<and> c \<noteq> dquote" if "c \<in> set s" for c
    using assms that by (auto simp: plain_text_def list_all_iff)
  have "replace_all block_comment s = s" "replace_all (line_comment ''//'') s = s"
    "replace_all (opened dquote (after_quoted dquote)) s = s" "replace_all (opened squote (after_quoted squote)) s = s"
    by (rule replace_all_none, use each in \<open>simp add: block_comment_def line_comment_def starts_with_def\<close>)+
  then show ?thesis by (simp add: graph_stripNonCode_def)
qed

lemma after_name:
  "backtick \<notin> set name \<Longrightarrow> c \<noteq> backtick \<Longrightarrow> after_doubled backtick False (name @ backtick # c # rest) = Some (c # rest)"
proof (induction name)
  case (Cons x xs)
  then show ?case by (cases xs) auto
qed simp

lemma strip_name:
  assumes "backtick \<notin> set pre" "backtick \<notin> set name" "c \<noteq> backtick"
  shows "replace_all (opened backtick (after_doubled backtick False)) (pre @ backtick # name @ backtick # c # rest)
    = pre @ backtick # backtick # replace_all (opened backtick (after_doubled backtick False)) (c # rest)"
proof -
  have "\<forall>x \<in> set pre. \<forall>u. opened backtick (after_doubled backtick False) (x # u) = None"
    using assms(1) by auto
  then show ?thesis using assms(2,3) by (subst replace_all_skip) (simp_all add: after_name)
qed

lemma refers_append: "refers_to_tenant s \<Longrightarrow> refers_to_tenant (p @ s)"
  by (induction p) auto

lemma word_name:
  assumes "list_all (\<lambda>c. is_alnum c \<or> c = CHR ''_'') name"
  shows "backtick \<notin> set name" "plain_text name"
  using assms by (auto simp: plain_text_def list_all_iff is_alnum_def is_upper_def is_lower_def is_digit_def)

lemma label_word: "assertLabel label = Inr () \<Longrightarrow> list_all (\<lambda>c. is_alnum c \<or> c = CHR ''_'') label"
  by (auto simp: assertLabel_def list_all_iff split: if_splits)

lemma relationship_word: "assertRelationshipType rel = Inr () \<Longrightarrow> list_all (\<lambda>c. is_alnum c \<or> c = CHR ''_'') rel"
  by (auto simp: assertRelationshipType_def list_all_iff is_alnum_def split: if_splits)

lemma merge_node_text_scoped:
  assumes "assertLabel label = Inr ()"
  shows "assertTenantScopedQuery (merge_node_text label) = Inr ()"
proof -
  note name = word_name [OF label_word [OF assms]]
  have plain: "plain_text (merge_node_text label)" using name(2) by (simp add: merge_node_text_def)
  have "graph_stripNonCode (merge_node_text label)
    = ''MERGE (n:'' @ backtick # backtick # replace_all (opened backtick (after_doubled backtick False))
        '' {tenantId: $tenantId, id: $id}) SET n += $props''"
    unfolding strip_plain [OF plain] using strip_name [of "''MERGE (n:''" label "CHR '' ''" "''{tenantId: $tenantId, id: $id}) SET n += $props''"] name(1)
    by (simp add: merge_node_text_def)
  moreover have "replace_all (opened backtick (after_doubled backtick False)) '' {tenantId: $tenantId, id: $id}) SET n += $props''
    = '' {tenantId: $tenantId, id: $id}) SET n += $props''"
    by (rule replace_all_none) simp
  moreover have "refers_to_tenant '' {tenantId: $tenantId, id: $id}) SET n += $props''" by code_simp
  ultimately have "refers_to_tenant (graph_stripNonCode (merge_node_text label))"
    by (metis refers_append append_Cons append_Nil)
  then show ?thesis by (simp add: assertTenantScopedQuery_def)
qed

lemma merge_edge_text_scoped:
  assumes "assertLabel a = Inr ()" "assertRelationshipType rel = Inr ()" "assertLabel b = Inr ()"
  shows "assertTenantScopedQuery (merge_edge_text a rel b) = Inr ()"
proof -
  note an = word_name [OF label_word [OF assms(1)]] and bn = word_name [OF label_word [OF assms(3)]]
    and rn = word_name [OF relationship_word [OF assms(2)]]
  define more where "more = line_break @ ''MATCH (b:'' @ backtick # b @ backtick # '' {tenantId: $tenantId, id: $toId})'' @
     line_break @ ''MERGE (a)-[r:'' @ backtick # rel @ backtick # '' {tenantId: $tenantId}]->(b)'' @ line_break @
     ''SET r += $props'' @ line_break @ ''RETURN count(r) AS merged''"
  let ?B = "opened backtick (after_doubled backtick False)"
  have whole: "merge_edge_text a rel b
      = ''MATCH (a:'' @ backtick # a @ backtick # CHR '' '' # ''{tenantId: $tenantId, id: $fromId})'' @ more"
    by (simp add: merge_edge_text_def more_def)
  have plain: "plain_text (merge_edge_text a rel b)"
    using an(2) bn(2) rn(2) by (simp add: merge_edge_text_def line_break_def numeral_eq_Suc)
  have skip: "replace_all ?B ('' {tenantId: $tenantId, id: $fromId})'' @ more)
    = '' {tenantId: $tenantId, id: $fromId})'' @ replace_all ?B more"
    by (rule replace_all_skip) simp
  have "graph_stripNonCode (merge_edge_text a rel b)
      = ''MATCH (a:'' @ backtick # backtick # replace_all ?B (CHR '' '' # ''{tenantId: $tenantId, id: $fromId})'' @ more)"
    unfolding whole strip_plain [OF plain [unfolded whole]] by (rule strip_name) (use an(1) in simp_all)
  also have "\<dots> = (''MATCH (a:'' @ [backtick, backtick] @ '' {tenantId: '') @ ''$tenantId, id: $fromId})'' @ replace_all ?B more"
    using skip by simp
  finally have stripped: "graph_stripNonCode (merge_edge_text a rel b)
    = (''MATCH (a:'' @ [backtick, backtick] @ '' {tenantId: '') @ ''$tenantId, id: $fromId})'' @ replace_all ?B more" .
  have "refers_to_tenant (''$tenantId, id: $fromId})'' @ u)" for u
    by (simp add: starts_with_def is_word_char_def is_alnum_def is_upper_def is_lower_def is_digit_def)
  then have "refers_to_tenant (graph_stripNonCode (merge_edge_text a rel b))"
    unfolding stripped by (rule refers_append)
  then show ?thesis by (simp add: assertTenantScopedQuery_def)
qed

text \<open>So the merges reach the engine, with the properties the caller gave, none of which is the port's.\<close>

lemma mergeNode_runs:
  assumes "isTenantId t" "assertLabel label = Inr ()" "i \<noteq> []" "assertProperties props = Inr ()"
  shows "mergeNode g t label i props w
    = andThen (ge_run g WriteMode (merge_node_text label) [(''id'', JStr i), (''props'', JObj props), (''tenantId'', JStr t)])
        (\<lambda>rows. andThen (lift (assertResultTenant t rows)) (\<lambda>_. ret ())) w"
  using assms merge_node_text_scoped [OF assms(2)]
  by (auto simp: mergeNode_def graph_write_def graph_run_def assertNodeId_def graph_assertTenant_def bindTenant_def
      js_has_def TENANT_PARAM_def andThen_def fun_eq_iff split: sum.splits prod.splits)

lemma mergeEdge_runs:
  assumes "isTenantId t" "assertLabel a = Inr ()" "assertLabel b = Inr ()" "assertRelationshipType rel = Inr ()"
    "i \<noteq> []" "j \<noteq> []" "assertProperties props = Inr ()"
  shows "mergeEdge g t a i rel b j props w
    = andThen (ge_run g WriteMode (merge_edge_text a rel b)
          [(''fromId'', JStr i), (''toId'', JStr j), (''props'', JObj props), (''tenantId'', JStr t)])
        (\<lambda>rows. andThen (lift (assertResultTenant t rows)) (\<lambda>_. ret (merged_any rows))) w"
  using assms merge_edge_text_scoped [OF assms(2,4,3)]
  by (auto simp: mergeEdge_def graph_write_def graph_run_def assertNodeId_def graph_assertTenant_def bindTenant_def
      js_has_def TENANT_PARAM_def andThen_def fun_eq_iff split: sum.splits prod.splits)

text \<open>A merge writes in its tenant. With a valid tenant, labels, type and ids the query of \<open>mergeNode\<close> or
  \<open>mergeEdge\<close> passes the check of its text and is run with the tenant as its parameter; the properties
  it sets name neither the tenant nor the id.\<close>

theorem graph_merges_write_in_tenant:
  assumes "isTenantId t" "assertLabel a = Inr ()" "assertLabel b = Inr ()" "assertRelationshipType rel = Inr ()"
    "i \<noteq> []" "j \<noteq> []" "assertProperties props = Inr ()"
  shows "snd (mergeNode g t a i props w)
      = snd (ge_run g WriteMode (merge_node_text a) [(''id'', JStr i), (''props'', JObj props), (''tenantId'', JStr t)] w)
    \<and> snd (mergeEdge g t a i rel b j props w)
      = snd (ge_run g WriteMode (merge_edge_text a rel b)
          [(''fromId'', JStr i), (''toId'', JStr j), (''props'', JObj props), (''tenantId'', JStr t)] w)
    \<and> \<not> js_has props ''tenantId'' \<and> \<not> js_has props ''id''"
  unfolding mergeNode_runs [OF assms(1,2,5,7)] mergeEdge_runs [OF assms]
  using assms(7) by (auto simp: andThen_def assertProperties_def RESERVED_PROPERTIES_def js_has_def list_ex_iff
      split: sum.splits prod.splits if_splits)

lemma graph_merges_write_in_tenant_witness:
  "snd (mergeNode toy_graph ''acme'' ''User'' ''7'' [(''name'', JStr ''Ann'')] 0) = 1"
proof -
  have ok: "isTenantId ''acme''" "assertLabel ''User'' = Inr ()" "assertLabel ''Group'' = Inr ()"
    "assertRelationshipType ''MEMBER_OF'' = Inr ()" "assertProperties [(''name'', JStr ''Ann'')] = Inr ()" by code_simp+
  show ?thesis
    using graph_merges_write_in_tenant [OF ok(1,2,3,4) _ _ ok(5), of "''7''" "''8''" toy_graph 0] by (simp add: toy_graph_def)
qed

subsection \<open>The analytic client\<close>

definition olap_error :: "string \<Rightarrow> thrown" where
  "olap_error msg = PlainError ''OlapTenancyError'' msg []"

definition OLAP_TENANT_PARAM :: string where "OLAP_TENANT_PARAM = ''tenant_id''"

text \<open>What is left of the text after a word, or after white space and a word.\<close>

definition after_word :: "string \<Rightarrow> string \<Rightarrow> string option" where
  "after_word p s = (if starts_with p s then Some (drop (length p) s) else None)"

definition after_spaced :: "string \<Rightarrow> string \<Rightarrow> string option" where
  "after_spaced p s = after_word p (dropWhile is_space s)"

text \<open>\<open>tenant_id\s*=\s*\{\s*tenant_id\s*:\s*String\s*\}\<close> at the head of the text.\<close>

definition binds_tenant :: "string \<Rightarrow> bool" where
  "binds_tenant s =
     (Option.bind (after_word ''tenant_id'' s) (\<lambda>s1.
      Option.bind (after_spaced ''='' s1) (\<lambda>s2.
      Option.bind (after_spaced ''{'' s2) (\<lambda>s3.
      Option.bind (after_spaced ''tenant_id'' s3) (\<lambda>s4.
      Option.bind (after_spaced '':'' s4) (\<lambda>s5.
      Option.bind (after_spaced ''String'' s5) (\<lambda>s6.
      after_spaced ''}'' s6)))))) \<noteq> None)"

text \<open>\<open>(\w+\.)?\<close> before it; a name holds no dot, so the prefix is the longest one.\<close>

definition qualified_binding :: "string \<Rightarrow> bool" where
  "qualified_binding s \<longleftrightarrow> binds_tenant s \<or>
     (takeWhile is_word_char s \<noteq> []
      \<and> (case dropWhile is_word_char s of c # rest \<Rightarrow> c = CHR ''.'' \<and> binds_tenant rest | [] \<Rightarrow> False))"

text \<open>\<open>TENANT_PREDICATE.test\<close>: \<open>before\<close> is the character before the text, if any.\<close>

fun tenant_predicate :: "char option \<Rightarrow> string \<Rightarrow> bool" where
  "tenant_predicate before s =
     (((case before of None \<Rightarrow> True | Some c \<Rightarrow> \<not> is_word_char c \<and> c \<noteq> CHR ''.'') \<and> qualified_binding s)
      \<or> (case s of [] \<Rightarrow> False | c # cs \<Rightarrow> tenant_predicate (Some c) cs))"

declare tenant_predicate.simps [simp del]

definition assertTenantScopedSql :: "string \<Rightarrow> thrown + unit" where
  "assertTenantScopedSql sql =
     (if tenant_predicate None (olap_stripNonCode sql) then Inr ()
      else Inl (olap_error
        ''Tenant-scoped OLAP query must filter tenant_id = {tenant_id:String} (outside comments and strings)''))"

definition olap_assertTenant :: "string \<Rightarrow> thrown + unit" where
  "olap_assertTenant t = (if isTenantId t then Inr () else Inl (olap_error ''Invalid tenant id''))"

record 'w olap_engine =
  oe_insert :: "string \<Rightarrow> (string \<times> json) list list \<Rightarrow> ('w, unit) eff"
  oe_query :: "string \<Rightarrow> (string \<times> json) list \<Rightarrow> ('w, (string \<times> json) list list) eff"
  oe_sortingKey :: "string \<Rightarrow> ('w, string list) eff"

text \<open>The client over the world of its engine: \<open>checkedTables\<close> holds the tables whose check succeeded. A
  caller that finds a check running shares its outcome, as if it had made the check itself.\<close>

record 'w olap_client =
  oc_world :: 'w
  oc_checked :: "string list"

definition olap_call :: "('w, 'a) eff \<Rightarrow> ('w olap_client, 'a) eff" where
  "olap_call f c = (case f (oc_world c) of (r, w) \<Rightarrow> (r, c\<lparr>oc_world := w\<rparr>))"

definition assertTenantTable :: "'w olap_engine \<Rightarrow> string \<Rightarrow> ('w olap_client, unit) eff" where
  "assertTenantTable e table c =
     (if table \<in> set (oc_checked c) then (Inr (), c)
      else (case olap_call (oe_sortingKey e table) c of
          (Inl err, c1) \<Rightarrow> (Inl err, c1)
        | (Inr key, c1) \<Rightarrow>
            if key \<noteq> [] \<and> hd key = OLAP_TENANT_PARAM then (Inr (), c1\<lparr>oc_checked := table # oc_checked c1\<rparr>)
            else (Inl (olap_error ''Table holds tenant rows, so its sorting key must lead with tenant_id''), c1)))"

fun stamp_rows :: "string \<Rightarrow> (string \<times> json) list list \<Rightarrow> thrown + (string \<times> json) list list" where
  "stamp_rows t [] = Inr []"
| "stamp_rows t (row # rows) =
     (case js_prop row OLAP_TENANT_PARAM of
        Some own \<Rightarrow>
          if own \<noteq> JStr t then Inl (olap_error ''Row names a different tenant'')
          else map_sum id ((#) (js_set row OLAP_TENANT_PARAM (JStr t))) (stamp_rows t rows)
      | None \<Rightarrow> map_sum id ((#) (js_set row OLAP_TENANT_PARAM (JStr t))) (stamp_rows t rows))"

definition olap_insert :: "'w olap_engine \<Rightarrow> string \<Rightarrow> string \<Rightarrow> (string \<times> json) list list \<Rightarrow> ('w olap_client, unit) eff" where
  "olap_insert e t table rows =
     andThen (lift (olap_assertTenant t)) (\<lambda>_.
     if rows = [] then ret ()
     else andThen (lift (stamp_rows t rows)) (\<lambda>stamped.
       andThen (assertTenantTable e table) (\<lambda>_. olap_call (oe_insert e table stamped))))"

definition olap_insertGlobal :: "'w olap_engine \<Rightarrow> string \<Rightarrow> (string \<times> json) list list \<Rightarrow> ('w olap_client, unit) eff" where
  "olap_insertGlobal e table rows = (if rows = [] then ret () else olap_call (oe_insert e table rows))"

definition olap_query ::
  "'w olap_engine \<Rightarrow> string \<Rightarrow> string \<Rightarrow> (string \<times> json) list \<Rightarrow> ('w olap_client, (string \<times> json) list list) eff" where
  "olap_query e t sql params =
     andThen (lift (olap_assertTenant t)) (\<lambda>_.
     andThen (lift (assertTenantScopedSql sql)) (\<lambda>_.
     if js_has params OLAP_TENANT_PARAM
     then raise (olap_error ''tenant_id is bound by the OLAP port; do not pass it in params'')
     else olap_call (oe_query e sql (js_set params OLAP_TENANT_PARAM (JStr t)))))"

definition olap_queryGlobal ::
  "'w olap_engine \<Rightarrow> string \<Rightarrow> (string \<times> json) list \<Rightarrow> ('w olap_client, (string \<times> json) list list) eff" where
  "olap_queryGlobal e sql params = olap_call (oe_query e sql params)"

subsection \<open>The filter an analytic query needs\<close>

text \<open>Said without the scanner: somewhere in the text, not inside a longer name, stands
  \<open>tenant_id = {tenant_id:String}\<close>, with any white space between its parts and possibly qualified by a
  table.\<close>

definition white :: "string \<Rightarrow> bool" where "white s \<longleftrightarrow> list_all is_space s"

definition filter_text :: "string \<Rightarrow> bool" where
  "filter_text f \<longleftrightarrow> (\<exists>a b c d h i. white a \<and> white b \<and> white c \<and> white d \<and> white h \<and> white i
     \<and> f = ''tenant_id'' @ a @ ''='' @ b @ ''{'' @ c @ ''tenant_id'' @ d @ '':'' @ h @ ''String'' @ i @ ''}'')"

definition filters_tenant :: "string \<Rightarrow> bool" where
  "filters_tenant sql \<longleftrightarrow> (\<exists>before table f rest. sql = before @ table @ f @ rest \<and> filter_text f
     \<and> (before = [] \<or> (\<not> is_word_char (last before) \<and> last before \<noteq> CHR ''.''))
     \<and> (table = [] \<or> (\<exists>name. name \<noteq> [] \<and> list_all is_word_char name \<and> table = name @ ''.'')))"

text \<open>A text that holds no string literal and no comment.\<close>

definition plain_sql :: "string \<Rightarrow> bool" where
  "plain_sql sql \<longleftrightarrow> squote \<notin> set sql \<and> (\<nexists>p q. sql = p @ ''--'' @ q) \<and> (\<nexists>p q. sql = p @ ''/*'' @ q)"

lemma after_word_Some: "after_word p s = Some r \<longleftrightarrow> s = p @ r"
  by (auto simp: after_word_def starts_with_iff)

lemma dropWhile_split: "p \<noteq> [] \<Longrightarrow> \<not> P (hd p) \<Longrightarrow> dropWhile P s = p @ r \<longleftrightarrow> (\<exists>a. list_all P a \<and> s = a @ p @ r)"
proof
  assume "dropWhile P s = p @ r"
  then show "\<exists>a. list_all P a \<and> s = a @ p @ r"
    by (intro exI [of _ "takeWhile P s"])
      (metis list_all_iff set_takeWhileD takeWhile_dropWhile_id)
next
  assume head: "p \<noteq> []" "\<not> P (hd p)" and "\<exists>a. list_all P a \<and> s = a @ p @ r"
  then obtain a where "list_all P a" "s = a @ p @ r" by blast
  then show "dropWhile P s = p @ r" using head by (cases p) (simp_all add: list_all_iff dropWhile_append2)
qed

lemma after_spaced_Some:
  "p \<noteq> [] \<Longrightarrow> \<not> is_space (hd p) \<Longrightarrow> after_spaced p s = Some r \<longleftrightarrow> (\<exists>a. white a \<and> s = a @ p @ r)"
  by (simp add: after_spaced_def after_word_Some dropWhile_split white_def)

lemma filter_textI:
  "white a \<Longrightarrow> white b \<Longrightarrow> white c \<Longrightarrow> white d \<Longrightarrow> white h \<Longrightarrow> white i \<Longrightarrow>
   filter_text (''tenant_id'' @ a @ ''='' @ b @ ''{'' @ c @ ''tenant_id'' @ d @ '':'' @ h @ ''String'' @ i @ ''}'')"
  unfolding filter_text_def by (intro exI conjI) (assumption | rule refl)+

lemma binds_tenant_filter: "binds_tenant s \<longleftrightarrow> (\<exists>f rest. filter_text f \<and> s = f @ rest)"
proof -
  have marks: "\<not> is_space (hd ''='')" "\<not> is_space (hd ''{'')" "\<not> is_space (hd ''tenant_id'')" "\<not> is_space (hd '':'')"
    "\<not> is_space (hd ''String'')" "\<not> is_space (hd ''}'')" by code_simp+
  note read = after_spaced_Some [OF _ marks(1)] after_spaced_Some [OF _ marks(2)] after_spaced_Some [OF _ marks(3)]
    after_spaced_Some [OF _ marks(4)] after_spaced_Some [OF _ marks(5)] after_spaced_Some [OF _ marks(6)]
  have "binds_tenant s \<longleftrightarrow> (\<exists>s1 s2 s3 s4 s5 s6 rest. after_word ''tenant_id'' s = Some s1 \<and> after_spaced ''='' s1 = Some s2
      \<and> after_spaced ''{'' s2 = Some s3 \<and> after_spaced ''tenant_id'' s3 = Some s4 \<and> after_spaced '':'' s4 = Some s5
      \<and> after_spaced ''String'' s5 = Some s6 \<and> after_spaced ''}'' s6 = Some rest)"
    by (auto simp: binds_tenant_def bind_eq_Some_conv simp del: not_None_eq)
  also have "\<dots> \<longleftrightarrow> (\<exists>f rest. filter_text f \<and> s = f @ rest)"
  proof
    assume "\<exists>s1 s2 s3 s4 s5 s6 rest. after_word ''tenant_id'' s = Some s1 \<and> after_spaced ''='' s1 = Some s2
      \<and> after_spaced ''{'' s2 = Some s3 \<and> after_spaced ''tenant_id'' s3 = Some s4 \<and> after_spaced '':'' s4 = Some s5
      \<and> after_spaced ''String'' s5 = Some s6 \<and> after_spaced ''}'' s6 = Some rest"
    then obtain s1 s2 s3 s4 s5 s6 rest where steps: "after_word ''tenant_id'' s = Some s1" "after_spaced ''='' s1 = Some s2"
      "after_spaced ''{'' s2 = Some s3" "after_spaced ''tenant_id'' s3 = Some s4" "after_spaced '':'' s4 = Some s5"
      "after_spaced ''String'' s5 = Some s6" "after_spaced ''}'' s6 = Some rest" by blast
    obtain a where "white a" "s1 = a @ ''='' @ s2" using steps(2) read(1) by auto
    moreover obtain b where "white b" "s2 = b @ ''{'' @ s3" using steps(3) read(2) by auto
    moreover obtain c where "white c" "s3 = c @ ''tenant_id'' @ s4" using steps(4) read(3) by auto
    moreover obtain d where "white d" "s4 = d @ '':'' @ s5" using steps(5) read(4) by auto
    moreover obtain h where "white h" "s5 = h @ ''String'' @ s6" using steps(6) read(5) by auto
    moreover obtain i where "white i" "s6 = i @ ''}'' @ rest" using steps(7) read(6) by auto
    ultimately have "filter_text (''tenant_id'' @ a @ ''='' @ b @ ''{'' @ c @ ''tenant_id'' @ d @ '':'' @ h @ ''String'' @ i @ ''}'')"
      and "s = (''tenant_id'' @ a @ ''='' @ b @ ''{'' @ c @ ''tenant_id'' @ d @ '':'' @ h @ ''String'' @ i @ ''}'') @ rest"
      using steps(1) by (simp_all only: filter_textI after_word_Some append_assoc)
    then show "\<exists>f rest. filter_text f \<and> s = f @ rest" by blast
  next
    assume "\<exists>f rest. filter_text f \<and> s = f @ rest"
    then obtain a b c d h i rest where w: "white a" "white b" "white c" "white d" "white h" "white i"
      and s: "s = ''tenant_id'' @ a @ ''='' @ b @ ''{'' @ c @ ''tenant_id'' @ d @ '':'' @ h @ ''String'' @ i @ ''}'' @ rest"
      unfolding filter_text_def by auto
    show "\<exists>s1 s2 s3 s4 s5 s6 rest. after_word ''tenant_id'' s = Some s1 \<and> after_spaced ''='' s1 = Some s2
      \<and> after_spaced ''{'' s2 = Some s3 \<and> after_spaced ''tenant_id'' s3 = Some s4 \<and> after_spaced '':'' s4 = Some s5
      \<and> after_spaced ''String'' s5 = Some s6 \<and> after_spaced ''}'' s6 = Some rest"
      unfolding after_word_Some
      apply (rule exI, rule exI, rule exI, rule exI, rule exI, rule exI, rule exI)
      apply (intro conjI)
      apply (rule s)
      apply (subst read(1), simp, rule exI, rule conjI, rule w(1), rule refl)
      apply (subst read(2), simp, rule exI, rule conjI, rule w(2), rule refl)
      apply (subst read(3), simp, rule exI, rule conjI, rule w(3), rule refl)
      apply (subst read(4), simp, rule exI, rule conjI, rule w(4), rule refl)
      apply (subst read(5), simp, rule exI, rule conjI, rule w(5), rule refl)
      apply (subst read(6), simp, rule exI, rule conjI, rule w(6), rule refl)
      done
  qed
  finally show ?thesis .
qed

lemma tenant_binding_filter:
  "qualified_binding s \<longleftrightarrow> (\<exists>table f rest. s = table @ f @ rest \<and> filter_text f
     \<and> (table = [] \<or> (\<exists>name. name \<noteq> [] \<and> list_all is_word_char name \<and> table = name @ ''.'')))"
proof
  assume "qualified_binding s"
  then consider "binds_tenant s" | rest where "takeWhile is_word_char s \<noteq> []"
      "dropWhile is_word_char s = CHR ''.'' # rest" "binds_tenant rest"
    unfolding qualified_binding_def by (auto split: list.splits)
  then show "\<exists>table f rest. s = table @ f @ rest \<and> filter_text f
     \<and> (table = [] \<or> (\<exists>name. name \<noteq> [] \<and> list_all is_word_char name \<and> table = name @ ''.''))"
  proof cases
    case 1
    then obtain f rest where "filter_text f" "s = [] @ f @ rest" unfolding binds_tenant_filter by auto
    then show ?thesis by blast
  next
    case (2 rest)
    obtain f more where f: "filter_text f" "rest = f @ more" using 2(3) unfolding binds_tenant_filter by blast
    have "s = (takeWhile is_word_char s @ ''.'') @ f @ more"
      using takeWhile_dropWhile_id [of is_word_char s] 2(2) f(2) by simp
    moreover have "list_all is_word_char (takeWhile is_word_char s)" by (auto simp: list_all_iff dest: set_takeWhileD)
    ultimately show ?thesis using f(1) 2(1) by blast
  qed
next
  assume "\<exists>table f rest. s = table @ f @ rest \<and> filter_text f
     \<and> (table = [] \<or> (\<exists>name. name \<noteq> [] \<and> list_all is_word_char name \<and> table = name @ ''.''))"
  then obtain table f rest where s: "s = table @ f @ rest" and f: "filter_text f"
    and table: "table = [] \<or> (\<exists>name. name \<noteq> [] \<and> list_all is_word_char name \<and> table = name @ ''.'')" by blast
  have binds: "binds_tenant (f @ rest)" unfolding binds_tenant_filter using f by blast
  from table show "qualified_binding s"
  proof
    assume "table = []"
    then show ?thesis using binds s by (simp add: qualified_binding_def)
  next
    assume "\<exists>name. name \<noteq> [] \<and> list_all is_word_char name \<and> table = name @ ''.''"
    then obtain name where name: "name \<noteq> []" "list_all is_word_char name" "table = name @ ''.''" by blast
    have dot: "\<not> is_word_char (CHR ''.'')" by code_simp
    have "takeWhile is_word_char (name @ CHR ''.'' # f @ rest) = name"
      "dropWhile is_word_char (name @ CHR ''.'' # f @ rest) = CHR ''.'' # f @ rest"
      using name(2) dot by (simp_all add: list_all_iff takeWhile_append2 dropWhile_append2)
    then show ?thesis using name s binds by (simp add: qualified_binding_def)
  qed
qed

lemma split_first: "(\<exists>p r. c # cs = p @ r \<and> Q p r) \<longleftrightarrow> Q [] (c # cs) \<or> (\<exists>p r. cs = p @ r \<and> Q (c # p) r)"
  unfolding Cons_eq_append_conv by auto

lemma tenant_predicate_split:
  "tenant_predicate before s \<longleftrightarrow> (\<exists>p r. s = p @ r \<and> qualified_binding r
     \<and> (if p = [] then (case before of None \<Rightarrow> True | Some c \<Rightarrow> \<not> is_word_char c \<and> c \<noteq> CHR ''.'')
        else \<not> is_word_char (last p) \<and> last p \<noteq> CHR ''.''))"
proof (induction before s rule: tenant_predicate.induct)
  case (1 before s)
  show ?case
  proof (cases s)
    case Nil
    then show ?thesis by (subst tenant_predicate.simps) (simp add: conj_commute)
  next
    case (Cons c cs)
    have "tenant_predicate before s \<longleftrightarrow>
      ((case before of None \<Rightarrow> True | Some c \<Rightarrow> \<not> is_word_char c \<and> c \<noteq> CHR ''.'') \<and> qualified_binding s)
      \<or> tenant_predicate (Some c) cs" using Cons by (subst tenant_predicate.simps) simp
    also have "tenant_predicate (Some c) cs \<longleftrightarrow> (\<exists>p r. cs = p @ r \<and> qualified_binding r
      \<and> \<not> is_word_char (last (c # p)) \<and> last (c # p) \<noteq> CHR ''.'')"
      unfolding "1.IH" [OF Cons] by (intro ex_cong1 conj_cong refl) auto
    finally show ?thesis unfolding Cons split_first by (simp add: conj_commute)
  qed
qed

lemma filters_tenant_predicate: "tenant_predicate None sql \<longleftrightarrow> filters_tenant sql"
proof -
  have edge: "(if p = [] then (case None of None \<Rightarrow> True | Some c \<Rightarrow> \<not> is_word_char c \<and> c \<noteq> CHR ''.'')
        else \<not> is_word_char (last p) \<and> last p \<noteq> CHR ''.'')
    \<longleftrightarrow> (p = [] \<or> (\<not> is_word_char (last p) \<and> last p \<noteq> CHR ''.''))" for p :: string by simp
  show ?thesis unfolding tenant_predicate_split tenant_binding_filter filters_tenant_def edge by blast
qed

lemma replace_all_absent: "\<forall>p r. s = p @ r \<longrightarrow> m r = None \<Longrightarrow> replace_all m s = s"
proof (induction s)
  case (Cons c cs)
  have "m (c # cs) = None" using Cons.prems by (metis append_Nil)
  moreover have "replace_all m cs = cs" using Cons.IH Cons.prems by (metis append_Cons)
  ultimately show ?case by simp
qed simp

lemma plain_sql_stripped: "plain_sql sql \<Longrightarrow> olap_stripNonCode sql = sql"
proof -
  assume plain: "plain_sql sql"
  have "replace_all block_comment sql = sql" "replace_all (line_comment ''--'') sql = sql"
    by (rule replace_all_absent, use plain in \<open>auto simp: plain_sql_def block_comment_def line_comment_def starts_with_iff\<close>)+
  moreover have "replace_all (opened squote (after_doubled squote True)) sql = sql"
    by (rule replace_all_none) (use plain in \<open>auto simp: plain_sql_def\<close>)
  ultimately show ?thesis by (simp add: olap_stripNonCode_def)
qed

subsection \<open>Analytic rows and queries stay in the tenant\<close>

text \<open>What happens to a client and the world of its engine: its own inserts, and anything else in the
  world, its queries included.\<close>

datatype 'w olap_event = Insert string string "(string \<times> json) list list" | Elsewhere "'w \<Rightarrow> 'w"

fun olap_after :: "'w olap_engine \<Rightarrow> 'w olap_event list \<Rightarrow> 'w olap_client \<Rightarrow> 'w olap_client" where
  "olap_after e [] c = c"
| "olap_after e (Insert t table rows # h) c = olap_after e h (snd (olap_insert e t table rows c))"
| "olap_after e (Elsewhere f # h) c = olap_after e h (c\<lparr>oc_world := f (oc_world c)\<rparr>)"

definition olap_fresh :: "'w \<Rightarrow> 'w olap_client" where
  "olap_fresh w = \<lparr>oc_world = w, oc_checked = []\<rparr>"

text \<open>An insert into the table found, when it ran, a sorting key that leads with \<open>tenant_id\<close>.\<close>

definition found_leading :: "'w olap_engine \<Rightarrow> string \<Rightarrow> 'w olap_event list \<Rightarrow> 'w \<Rightarrow> bool" where
  "found_leading e table h w0 \<longleftrightarrow> (\<exists>before t rows more rest w1. h = before @ Insert t table rows # more
     \<and> oe_sortingKey e table (oc_world (olap_after e before (olap_fresh w0))) = (Inr (''tenant_id'' # rest), w1))"

text \<open>A row that holds a \<open>tenant_id\<close> other than the tenant.\<close>

definition of_other_tenant :: "string \<Rightarrow> (string \<times> json) list \<Rightarrow> bool" where
  "of_other_tenant t row \<longleftrightarrow> (\<exists>own. js_prop row ''tenant_id'' = Some own \<and> own \<noteq> JStr t)"

definition stamped_row :: "string \<Rightarrow> (string \<times> json) list \<Rightarrow> (string \<times> json) list \<Rightarrow> bool" where
  "stamped_row t row s \<longleftrightarrow> (\<forall>k. js_prop s k = (if k = ''tenant_id'' then Some (JStr t) else js_prop row k))"

lemma olap_after_append: "olap_after e (h @ h') c = olap_after e h' (olap_after e h c)"
  by (induction e h c rule: olap_after.induct) simp_all

lemma found_leading_more: "found_leading e table h w0 \<Longrightarrow> found_leading e table (h @ h') w0"
  unfolding found_leading_def by fastforce

lemma assertTenantTable_cases:
  assumes "assertTenantTable e table c = (r, c')"
  obtains (known) "table \<in> set (oc_checked c)" "r = Inr ()" "c' = c"
  | (leads) rest w where "oe_sortingKey e table (oc_world c) = (Inr (''tenant_id'' # rest), w)" "r = Inr ()"
      "c' = c\<lparr>oc_world := w, oc_checked := table # oc_checked c\<rparr>"
  | (fails) a w err where "oe_sortingKey e table (oc_world c) = (a, w)" "\<nexists>rest. a = Inr (''tenant_id'' # rest)"
      "r = Inl err" "c' = c\<lparr>oc_world := w\<rparr>"
proof -
  obtain a w where key: "oe_sortingKey e table (oc_world c) = (a, w)" by fastforce
  show ?thesis
  proof (cases "table \<in> set (oc_checked c)")
    case True
    then have "r = Inr ()" "c' = c" using assms by (simp_all add: assertTenantTable_def)
    then show ?thesis using True known by blast
  next
    case unknown: False
    show ?thesis
    proof (cases "\<exists>rest. a = Inr (''tenant_id'' # rest)")
      case True
      then obtain rest where rest: "a = Inr (''tenant_id'' # rest)" by blast
      then have "r = Inr ()" "c' = c\<lparr>oc_world := w, oc_checked := table # oc_checked c\<rparr>"
        using assms unknown key by (simp_all add: assertTenantTable_def olap_call_def OLAP_TENANT_PARAM_def)
      then show ?thesis using key rest leads by blast
    next
      case False
      then have "\<exists>err. r = Inl err" "c' = c\<lparr>oc_world := w\<rparr>" using assms unknown key
        by (auto simp: assertTenantTable_def olap_call_def OLAP_TENANT_PARAM_def neq_Nil_conv split: sum.splits if_splits)
      then show ?thesis using key False fails by blast
    qed
  qed
qed

lemma stamp_rows_result:
  "stamp_rows t rows = (if list_ex (of_other_tenant t) rows then Inl (olap_error ''Row names a different tenant'')
     else Inr (map (\<lambda>row. js_set row ''tenant_id'' (JStr t)) rows))"
  by (induction t rows rule: stamp_rows.induct)
    (auto simp: of_other_tenant_def OLAP_TENANT_PARAM_def split: option.splits)

text \<open>Every way an insert of rows can go: refused before the engine, stopped at the check of the table, or run.\<close>

lemma olap_insert_cases:
  assumes "olap_insert e t table rows c = (r, c')" and "rows \<noteq> []"
  obtains (refused) "\<not> isTenantId t \<or> list_ex (of_other_tenant t) rows" "c' = c"
      "r = Inl (olap_error (if isTenantId t then ''Row names a different tenant'' else ''Invalid tenant id''))"
  | (table) err where "isTenantId t" "list_all (\<lambda>row. \<not> of_other_tenant t row) rows" "r = Inl err"
      "assertTenantTable e table c = (Inl err, c')"
  | (ran) c1 where "isTenantId t" "list_all (\<lambda>row. \<not> of_other_tenant t row) rows"
      "assertTenantTable e table c = (Inr (), c1)" "oc_checked c' = oc_checked c1"
      "oe_insert e table (map (\<lambda>row. js_set row ''tenant_id'' (JStr t)) rows) (oc_world c1) = (r, oc_world c')"
proof (cases "isTenantId t \<and> \<not> list_ex (of_other_tenant t) rows")
  case ok: True
  then have fine: "list_all (\<lambda>row. \<not> of_other_tenant t row) rows" by (auto simp: list_ex_iff list_all_iff)
  obtain x c1 where check: "assertTenantTable e table c = (x, c1)" by fastforce
  show ?thesis
  proof (cases x)
    case (Inl err)
    then have "r = Inl err \<and> c1 = c'" using assms ok check
      by (auto simp: olap_insert_def olap_assertTenant_def stamp_rows_result andThen_def)
    then show ?thesis using ok fine check Inl table by blast
  next
    case (Inr u)
    then have "oc_checked c' = oc_checked c1
        \<and> oe_insert e table (map (\<lambda>row. js_set row ''tenant_id'' (JStr t)) rows) (oc_world c1) = (r, oc_world c')"
      using assms ok check
      by (auto simp: olap_insert_def olap_assertTenant_def stamp_rows_result olap_call_def andThen_def split: prod.splits)
    then show ?thesis using ok fine check Inr ran by (cases u) simp
  qed
next
  case False
  then show ?thesis using assms refused
    by (auto simp: olap_insert_def olap_assertTenant_def stamp_rows_result split: if_splits)
qed

text \<open>The checked tables of a client are those some insert of its past found so.\<close>

lemma checked_found: "table \<in> set (oc_checked (olap_after e h (olap_fresh w0))) \<Longrightarrow> found_leading e table h w0"
proof (induction h rule: rev_induct)
  case (snoc x h)
  let ?c = "olap_after e h (olap_fresh w0)"
  show ?case
  proof (cases "table \<in> set (oc_checked ?c)")
    case True
    show ?thesis by (rule found_leading_more [OF snoc.IH [OF True]])
  next
    case new: False
    show ?thesis
    proof (cases x)
      case (Insert t table' rows)
      obtain r c' where run: "olap_insert e t table' rows ?c = (r, c')" by fastforce
      have here: "table \<in> set (oc_checked c')" using snoc.prems Insert run by (simp add: olap_after_append)
      have some: "rows \<noteq> []" using here new run by (auto simp: olap_insert_def olap_assertTenant_def split: if_splits)
      obtain y c1 where check: "assertTenantTable e table' ?c = (y, c1)" "table \<in> set (oc_checked c1)"
        using here new by (cases rule: olap_insert_cases [OF run some]) auto
      obtain rest w where "table = table'" "oe_sortingKey e table' (oc_world ?c) = (Inr (''tenant_id'' # rest), w)"
        using check(2) new by (cases rule: assertTenantTable_cases [OF check(1)]) auto
      then show ?thesis unfolding found_leading_def Insert by blast
    next
      case (Elsewhere f)
      then show ?thesis using snoc.prems new by (simp add: olap_after_append)
    qed
  qed
qed (simp add: olap_fresh_def)

lemma assertTenantTable_found:
  assumes "assertTenantTable e table (olap_after e h (olap_fresh w0)) = (Inr (), c1)"
  shows "found_leading e table (h @ [Insert t table rows]) w0"
  using assms
proof (cases rule: assertTenantTable_cases)
  case known
  show ?thesis by (rule found_leading_more [OF checked_found [OF known(1)]])
next
  case (leads rest w)
  then show ?thesis unfolding found_leading_def by blast
next
  case (fails a w err)
  then show ?thesis by simp
qed

lemma olap_query_result:
  "olap_query e t sql params c =
     (if \<not> isTenantId t then (Inl (olap_error ''Invalid tenant id''), c)
      else if \<not> tenant_predicate None (olap_stripNonCode sql)
      then (Inl (olap_error ''Tenant-scoped OLAP query must filter tenant_id = {tenant_id:String} (outside comments and strings)''), c)
      else if js_has params ''tenant_id''
      then (Inl (olap_error ''tenant_id is bound by the OLAP port; do not pass it in params''), c)
      else olap_call (oe_query e sql (js_set params ''tenant_id'' (JStr t))) c)"
  by (simp add: olap_query_def olap_assertTenant_def assertTenantScopedSql_def OLAP_TENANT_PARAM_def)


definition toy_olap :: "nat olap_engine" where
  "toy_olap = \<lparr>oe_insert = (\<lambda>table rows n. (Inr (), n + length rows)), oe_query = (\<lambda>sql params n. (Inr [params], n)),
     oe_sortingKey = (\<lambda>table n. (Inr [''tenant_id'', ''ts''], n))\<rparr>"


text \<open>A quoted reference passes. The check of a graph query counts a reference inside a string when
  another string before it holds two slashes, and that of an analytic query one when it holds two
  dashes: a comment is taken off first, with the quote that closes the string.\<close>

theorem quoted_tenant_reference_passes:
  "assertTenantScopedQuery
     (''MATCH (n) WHERE n.url = '' @ [squote] @ ''http://x'' @ [squote, newline] @ ''AND n.note = '' @ [squote] @ ''$tenantId'' @ [squote]
       @ '' RETURN n.name'') = Inr ()
   \<and> assertTenantScopedSql
     (''SELECT n FROM t WHERE a = '' @ [squote] @ ''--'' @ [squote, newline] @ ''AND b = '' @ [squote] @ '' tenant_id = {tenant_id:String}'' @ [squote])
     = Inr ()"
  by (rule conjI) code_simp+

subsection \<open>The search client\<close>

definition search_error :: "string \<Rightarrow> thrown" where
  "search_error msg = PlainError ''SearchTenancyError'' msg []"

definition SEARCH_TENANT_FIELD :: string where "SEARCH_TENANT_FIELD = ''tenantId''"

definition DEFAULT_SIZE :: nat where "DEFAULT_SIZE = 10"

definition searchDocumentId :: "string \<Rightarrow> string \<Rightarrow> string" where
  "searchDocumentId t i = t @ '':'' @ i"

definition assertIndex :: "string \<Rightarrow> thrown + unit" where
  "assertIndex index =
     (if index \<noteq> [] \<and> is_lower (hd index)
         \<and> list_all (\<lambda>c. is_lower c \<or> is_digit c \<or> c = CHR ''_'' \<or> c = CHR ''-'') index
      then Inr () else Inl (search_error ''Index name must be lowercase''))"

definition search_assertScope :: "string \<Rightarrow> string \<Rightarrow> thrown + unit" where
  "search_assertScope t index = (if \<not> isTenantId t then Inl (search_error ''Invalid tenant id'') else assertIndex index)"

definition search_assertId :: "string \<Rightarrow> thrown + unit" where
  "search_assertId i = (if i = [] then Inl (search_error ''Document id must be a non-empty string'') else Inr ())"

record search_options =
  so_fields :: "string list"
  so_fuzzy :: "bool option"
  so_from :: "nat option"
  so_size :: "nat option"

record engine_query =
  eq_text :: string
  eq_fields :: "string list"
  eq_fuzzy :: bool
  eq_from :: nat
  eq_size :: nat
  eq_filter :: "string \<times> string"

record search_result =
  sr_hits :: "(string \<times> json) list list"
  sr_total :: nat

text \<open>A field mapping is a JSON object, from the field's name to its type and analyzer.\<close>

type_synonym field_mapping = "(string \<times> json) list"

record 'w search_engine =
  se_ensureIndex :: "string \<Rightarrow> field_mapping \<Rightarrow> ('w, unit) eff"
  se_put :: "string \<Rightarrow> string \<Rightarrow> (string \<times> json) list \<Rightarrow> ('w, unit) eff"
  se_delete :: "string \<Rightarrow> string \<Rightarrow> ('w, unit) eff"
  se_search :: "string \<Rightarrow> engine_query \<Rightarrow> ('w, search_result) eff"

text \<open>\<open>sc_ready\<close> holds the indexes whose check succeeded since their mapping was declared; a caller that
  finds a check running shares its outcome.\<close>

record 'w search_client =
  sc_world :: 'w
  sc_declared :: "(string \<times> field_mapping) list"
  sc_ready :: "string list"

definition search_call :: "('w, 'a) eff \<Rightarrow> ('w search_client, 'a) eff" where
  "search_call f c = (case f (sc_world c) of (r, w) \<Rightarrow> (r, c\<lparr>sc_world := w\<rparr>))"

definition keyword_mapping :: json where "keyword_mapping = JObj [(''type'', JStr ''keyword'')]"

definition ensured :: "'w search_engine \<Rightarrow> string \<Rightarrow> ('w search_client, unit) eff" where
  "ensured e index c =
     (if index \<in> set (sc_ready c) then (Inr (), c)
      else (case search_call (se_ensureIndex e index
             (option_or (map_of (sc_declared c) index) [(SEARCH_TENANT_FIELD, keyword_mapping)])) c of
          (Inl err, c1) \<Rightarrow> (Inl err, c1)
        | (Inr _, c1) \<Rightarrow> (Inr (), c1\<lparr>sc_ready := index # sc_ready c1\<rparr>)))"

definition ensureIndex :: "'w search_engine \<Rightarrow> string \<Rightarrow> field_mapping \<Rightarrow> ('w search_client, unit) eff" where
  "ensureIndex e index flds =
     andThen (lift (assertIndex index)) (\<lambda>_ c.
       ensured e index
         (c\<lparr>sc_declared := (index, js_set flds SEARCH_TENANT_FIELD keyword_mapping) # sc_declared c,
            sc_ready := filter (\<lambda>i. i \<noteq> index) (sc_ready c)\<rparr>))"

definition search_index ::
  "'w search_engine \<Rightarrow> string \<Rightarrow> string \<Rightarrow> string \<Rightarrow> (string \<times> json) list \<Rightarrow> ('w search_client, unit) eff" where
  "search_index e t index i doc =
     andThen (lift (search_assertScope t index)) (\<lambda>_.
     andThen (lift (search_assertId i)) (\<lambda>_.
     if js_has doc SEARCH_TENANT_FIELD
     then raise (search_error ''tenantId is set by the search port; do not pass it in the document'')
     else andThen (ensured e index) (\<lambda>_.
       search_call (se_put e index (searchDocumentId t i) (js_set doc SEARCH_TENANT_FIELD (JStr t))))))"

definition search_remove :: "'w search_engine \<Rightarrow> string \<Rightarrow> string \<Rightarrow> string \<Rightarrow> ('w search_client, unit) eff" where
  "search_remove e t index i =
     andThen (lift (search_assertScope t index)) (\<lambda>_.
     andThen (lift (search_assertId i)) (\<lambda>_. search_call (se_delete e index (searchDocumentId t i))))"

definition search_query ::
  "'w search_engine \<Rightarrow> string \<Rightarrow> string \<Rightarrow> string \<Rightarrow> search_options \<Rightarrow> ('w search_client, search_result) eff" where
  "search_query e t index words opts =
     andThen (lift (search_assertScope t index)) (\<lambda>_.
     if so_fields opts = [] then raise (search_error ''Search query needs at least one field'')
     else andThen (search_call (se_search e index
         \<lparr>eq_text = words, eq_fields = so_fields opts, eq_fuzzy = option_or (so_fuzzy opts) False,
          eq_from = option_or (so_from opts) 0, eq_size = option_or (so_size opts) DEFAULT_SIZE,
          eq_filter = (SEARCH_TENANT_FIELD, t)\<rparr>)) (\<lambda>result.
       ret \<lparr>sr_hits = map (filter (\<lambda>(k, _). k \<noteq> SEARCH_TENANT_FIELD)) (sr_hits result), sr_total = sr_total result\<rparr>))"

subsection \<open>Documents stay in the tenant\<close>

text \<open>An index that is ready was ensured with a mapping that makes the tenant a keyword, and so were the
  declared mappings.\<close>

definition maps_tenant :: "field_mapping \<Rightarrow> bool" where
  "maps_tenant flds \<longleftrightarrow> js_prop flds SEARCH_TENANT_FIELD = Some keyword_mapping"

definition ready_ok :: "'w search_engine \<Rightarrow> 'w search_client \<Rightarrow> bool" where
  "ready_ok e c \<longleftrightarrow> (\<forall>(index, flds) \<in> set (sc_declared c). maps_tenant flds)
     \<and> (\<forall>index \<in> set (sc_ready c). \<exists>flds w w'. maps_tenant flds \<and> se_ensureIndex e index flds w = (Inr (), w'))"

lemma maps_tenant_default: "maps_tenant [(SEARCH_TENANT_FIELD, keyword_mapping)]"
  "maps_tenant (js_set flds SEARCH_TENANT_FIELD keyword_mapping)"
  by (simp_all add: maps_tenant_def js_prop_set) (simp add: js_prop_def)

lemma ensured_ok:
  assumes "ensured e index c = (r, c')" and ok: "ready_ok e c"
  shows "ready_ok e c'" and "r = Inr () \<Longrightarrow> index \<in> set (sc_ready c')"
proof -
  let ?flds = "option_or (map_of (sc_declared c) index) [(SEARCH_TENANT_FIELD, keyword_mapping)]"
  have flds: "maps_tenant ?flds"
  proof (cases "map_of (sc_declared c) index")
    case (Some fs)
    then have "(index, fs) \<in> set (sc_declared c)" by (rule map_of_SomeD)
    then show ?thesis using ok Some unfolding ready_ok_def by auto
  qed (simp add: maps_tenant_default)
  obtain a w where run: "se_ensureIndex e index ?flds (sc_world c) = (a, w)" by fastforce
  have "ready_ok e c' \<and> (r = Inr () \<longrightarrow> index \<in> set (sc_ready c'))"
  proof (cases "index \<in> set (sc_ready c) \<or> (\<exists>err. a = Inl err)")
    case True
    then have "sc_declared c' = sc_declared c" "sc_ready c' = sc_ready c" "r = Inr () \<longrightarrow> index \<in> set (sc_ready c)"
      using assms(1) run by (auto simp: ensured_def search_call_def split: if_splits)
    then show ?thesis using ok by (simp add: ready_ok_def)
  next
    case False
    then have "c' = c\<lparr>sc_world := w, sc_ready := index # sc_ready c\<rparr>" "a = Inr ()" "r = Inr ()"
      using assms(1) run by (auto simp: ensured_def search_call_def split: sum.splits)
    then show ?thesis using ok flds run unfolding ready_ok_def by auto
  qed
  then show "ready_ok e c'" "r = Inr () \<Longrightarrow> index \<in> set (sc_ready c')" by blast+
qed

lemma ensureIndex_ok:
  assumes "ensureIndex e index flds c = (r, c')" and ok: "ready_ok e c"
  shows "ready_ok e c'"
proof -
  let ?c = "c\<lparr>sc_declared := (index, js_set flds SEARCH_TENANT_FIELD keyword_mapping) # sc_declared c,
    sc_ready := filter (\<lambda>i. i \<noteq> index) (sc_ready c)\<rparr>"
  have "ready_ok e ?c" using ok by (auto simp: ready_ok_def maps_tenant_default)
  then show ?thesis using assms ensured_ok(1) [of e index ?c]
    by (cases "assertIndex index") (auto simp: ensureIndex_def)
qed

lemma searchDocumentId_inj:
  assumes "isTenantId t" "isTenantId t'" "searchDocumentId t i = searchDocumentId t' i'"
  shows "t = t' \<and> i = i'"
proof -
  have no: "CHR '':'' \<notin> set s" if "isTenantId s" for s
    using that by (auto simp: isTenantId_def is_tenant_char_def is_alnum_def is_upper_def is_lower_def is_digit_def split: list.splits)
  have "takeWhile (\<lambda>c. c \<noteq> CHR '':'') (s @ CHR '':'' # j) = s" if "isTenantId s" for s j
    using no [OF that] by (subst takeWhile_append2) auto
  with assms show ?thesis unfolding searchDocumentId_def by (metis append_Cons append_Nil same_append_eq list.inject)
qed

lemma search_query_filters:
  assumes "search_query e t index words opts c = (Inr result, c')"
  shows "\<exists>q answer. se_search e index q (sc_world c) = (Inr answer, sc_world c') \<and> eq_filter q = (SEARCH_TENANT_FIELD, t)
    \<and> sr_total result = sr_total answer \<and> list_all (\<lambda>hit. \<not> js_has hit SEARCH_TENANT_FIELD) (sr_hits result)"
proof -
  define q where "q = \<lparr>eq_text = words, eq_fields = so_fields opts, eq_fuzzy = option_or (so_fuzzy opts) False,
    eq_from = option_or (so_from opts) 0, eq_size = option_or (so_size opts) DEFAULT_SIZE, eq_filter = (SEARCH_TENANT_FIELD, t)\<rparr>"
  obtain answer c1 where found: "search_call (se_search e index q) c = (Inr answer, c1)" "c' = c1"
    "result = \<lparr>sr_hits = map (filter (\<lambda>(k, _). k \<noteq> SEARCH_TENANT_FIELD)) (sr_hits answer), sr_total = sr_total answer\<rparr>"
    using assms by (cases "search_assertScope t index") (auto simp: search_query_def q_def andThen_Inr split: if_splits)
  then have "se_search e index q (sc_world c) = (Inr answer, sc_world c')"
    by (auto simp: search_call_def split: prod.splits)
  moreover have "eq_filter q = (SEARCH_TENANT_FIELD, t)" by (simp add: q_def)
  moreover have "sr_total result = sr_total answer" "list_all (\<lambda>hit. \<not> js_has hit SEARCH_TENANT_FIELD) (sr_hits result)"
    using found(3) by (auto simp: js_has_def list_all_iff)
  ultimately show ?thesis by blast
qed

text \<open>Search documents stay in the tenant. A document reaches the engine only in an index that was ensured
  with the tenant as a keyword, under an id no other tenant can produce and stamped with its tenant; a
  query reaches it with the filter on the tenant, and its hits come back without the field.\<close>

theorem search_documents_stay_in_tenant:
  assumes ok: "ready_ok e c" and run: "search_index e t index i doc c = (Inr (), c')"
  shows "ready_ok e c'
    \<and> (\<exists>flds w w'. maps_tenant flds \<and> se_ensureIndex e index flds w = (Inr (), w'))
    \<and> (\<exists>stamped w. se_put e index (searchDocumentId t i) stamped w = (Inr (), sc_world c')
        \<and> js_prop stamped SEARCH_TENANT_FIELD = Some (JStr t)
        \<and> (\<forall>k. k \<noteq> SEARCH_TENANT_FIELD \<longrightarrow> js_prop stamped k = js_prop doc k))
    \<and> (\<forall>t' i'. isTenantId t' \<longrightarrow> searchDocumentId t' i' = searchDocumentId t i \<longrightarrow> t' = t \<and> i' = i)
    \<and> (\<forall>words opts result c''. search_query e t index words opts c' = (Inr result, c'') \<longrightarrow>
        (\<exists>q answer. se_search e index q (sc_world c') = (Inr answer, sc_world c'') \<and> eq_filter q = (SEARCH_TENANT_FIELD, t)
          \<and> sr_total result = sr_total answer \<and> list_all (\<lambda>hit. \<not> js_has hit SEARCH_TENANT_FIELD) (sr_hits result)))"
proof -
  have scope: "search_assertScope t index = Inr ()" and i: "search_assertId i = Inr ()" and free: "\<not> js_has doc SEARCH_TENANT_FIELD"
    using run by (cases "search_assertScope t index"; cases "search_assertId i"; simp add: search_index_def split: if_splits)+
  then have t: "isTenantId t" by (simp add: search_assertScope_def split: if_splits)
  obtain c1 where ready: "ensured e index c = (Inr (), c1)"
      and put: "search_call (se_put e index (searchDocumentId t i) (js_set doc SEARCH_TENANT_FIELD (JStr t))) c1 = (Inr (), c')"
    using run scope i free by (auto simp: search_index_def andThen_Inr)
  have ok1: "ready_ok e c1" "index \<in> set (sc_ready c1)" using ensured_ok [OF ready ok] by auto
  have c': "se_put e index (searchDocumentId t i) (js_set doc SEARCH_TENANT_FIELD (JStr t)) (sc_world c1) = (Inr (), sc_world c')"
    "ready_ok e c'"
    using put ok1(1) by (auto simp: search_call_def ready_ok_def split: prod.splits)
  show ?thesis
  proof (intro conjI allI impI)
    show "ready_ok e c'" by (rule c'(2))
    show "\<exists>flds w w'. maps_tenant flds \<and> se_ensureIndex e index flds w = (Inr (), w')"
      using ok1 unfolding ready_ok_def by blast
    show "\<exists>stamped w. se_put e index (searchDocumentId t i) stamped w = (Inr (), sc_world c')
        \<and> js_prop stamped SEARCH_TENANT_FIELD = Some (JStr t)
        \<and> (\<forall>k. k \<noteq> SEARCH_TENANT_FIELD \<longrightarrow> js_prop stamped k = js_prop doc k)"
      using c'(1) by (intro exI [of _ "js_set doc SEARCH_TENANT_FIELD (JStr t)"]) (auto simp: js_prop_set)
  qed (use searchDocumentId_inj t search_query_filters in blast)+
qed

definition toy_search :: "nat search_engine" where
  "toy_search = \<lparr>se_ensureIndex = (\<lambda>index flds n. (Inr (), n)), se_put = (\<lambda>index i doc n. (Inr (), n + 1)),
     se_delete = (\<lambda>index i n. (Inr (), n)), se_search = (\<lambda>index q n. (Inr \<lparr>sr_hits = [], sr_total = 0\<rparr>, n))\<rparr>"

lemma search_documents_stay_in_tenant_witness:
  "\<exists>stamped w. se_put toy_search ''users'' (searchDocumentId ''acme'' ''7'') stamped w = (Inr (), 1)
     \<and> js_prop stamped SEARCH_TENANT_FIELD = Some (JStr ''acme'')"
proof -
  have ok: "ready_ok toy_search \<lparr>sc_world = 0, sc_declared = [], sc_ready = []\<rparr>" by (simp add: ready_ok_def)
  have run: "search_index toy_search ''acme'' ''users'' ''7'' [(''name'', JStr ''Ann'')] \<lparr>sc_world = 0, sc_declared = [], sc_ready = []\<rparr>
      = (Inr (), \<lparr>sc_world = 1, sc_declared = [], sc_ready = [''users'']\<rparr>)" by code_simp
  show ?thesis using search_documents_stay_in_tenant [OF ok run] by auto
qed

subsection \<open>The vector client\<close>

definition vector_error :: "string \<Rightarrow> thrown" where
  "vector_error msg = PlainError ''VectorValidationError'' msg []"

definition MAX_K :: rat where "MAX_K = 100"

definition VECTOR_DIMENSIONS :: nat where "VECTOR_DIMENSIONS = 384"

definition collection_pattern :: "string \<Rightarrow> bool" where
  "collection_pattern s \<longleftrightarrow>
     (case split_on CHR ''-'' s of
        [] \<Rightarrow> False
      | first # rest \<Rightarrow>
          first \<noteq> [] \<and> is_lower (hd first)
          \<and> list_all (\<lambda>part. part \<noteq> [] \<and> list_all (\<lambda>c. is_lower c \<or> is_digit c) part) (first # rest))"

text \<open>A number of an embedding is \<open>None\<close> when it is not finite.\<close>

definition vector_assertScope :: "string \<Rightarrow> string \<Rightarrow> thrown + unit" where
  "vector_assertScope t coll =
     (if \<not> isTenantId t then Inl (vector_error ''Invalid tenant id'')
      else if \<not> collection_pattern coll then Inl (vector_error ''Collection must be lowercase kebab-case'')
      else Inr ())"

definition vector_assertId :: "string \<Rightarrow> thrown + unit" where
  "vector_assertId i = (if i = [] then Inl (vector_error ''Vector item id must be a non-empty string'') else Inr ())"

definition assertEmbedding :: "rat option list \<Rightarrow> thrown + unit" where
  "assertEmbedding embedding =
     (if length embedding \<noteq> VECTOR_DIMENSIONS \<or> \<not> list_all (\<lambda>v. v \<noteq> None) embedding
      then Inl (vector_error ''Embedding must be 384 finite numbers'') else Inr ())"

record vector_match =
  vm_id :: string
  vm_distance :: rat
  vm_metadata :: "(string \<times> json) list"

record 'w vector_engine =
  ve_upsert :: "string \<Rightarrow> string \<Rightarrow> string \<Rightarrow> rat option list \<Rightarrow> (string \<times> json) list \<Rightarrow> ('w, unit) eff"
  ve_get :: "string \<Rightarrow> string \<Rightarrow> string \<Rightarrow> ('w, rat option list option) eff"
  ve_similar :: "string \<Rightarrow> string \<Rightarrow> rat option list \<Rightarrow> nat \<Rightarrow> string list \<Rightarrow> ('w, vector_match list) eff"
  ve_delete :: "string \<Rightarrow> string \<Rightarrow> string \<Rightarrow> ('w, unit) eff"

definition vector_upsert ::
  "'w vector_engine \<Rightarrow> string \<Rightarrow> string \<Rightarrow> string \<Rightarrow> rat option list \<Rightarrow> (string \<times> json) list \<Rightarrow> ('w, unit) eff" where
  "vector_upsert e t coll i embedding metadata =
     andThen (lift (vector_assertScope t coll)) (\<lambda>_.
     andThen (lift (vector_assertId i)) (\<lambda>_.
     andThen (lift (assertEmbedding embedding)) (\<lambda>_. ve_upsert e t coll i embedding metadata)))"

definition vector_get :: "'w vector_engine \<Rightarrow> string \<Rightarrow> string \<Rightarrow> string \<Rightarrow> ('w, rat option list option) eff" where
  "vector_get e t coll i =
     andThen (lift (vector_assertScope t coll)) (\<lambda>_.
     andThen (lift (vector_assertId i)) (\<lambda>_. ve_get e t coll i))"

fun each_id :: "string list \<Rightarrow> thrown + unit" where
  "each_id [] = Inr ()"
| "each_id (i # is) = (case vector_assertId i of Inl err \<Rightarrow> Inl err | Inr _ \<Rightarrow> each_id is)"

definition vector_similar ::
  "'w vector_engine \<Rightarrow> string \<Rightarrow> string \<Rightarrow> rat option list \<Rightarrow> rat \<Rightarrow> string list option \<Rightarrow> ('w, vector_match list) eff" where
  "vector_similar e t coll embedding k excluded =
     andThen (lift (vector_assertScope t coll)) (\<lambda>_.
     andThen (lift (assertEmbedding embedding)) (\<lambda>_.
     if \<not> positive_integer k \<or> MAX_K < k then raise (vector_error ''k must be an integer in 1..100'')
     else andThen (lift (each_id (option_or excluded []))) (\<lambda>_.
       ve_similar e t coll embedding (nat \<lfloor>k\<rfloor>) (option_or excluded []))))"

definition vector_delete :: "'w vector_engine \<Rightarrow> string \<Rightarrow> string \<Rightarrow> string \<Rightarrow> ('w, unit) eff" where
  "vector_delete e t coll i =
     andThen (lift (vector_assertScope t coll)) (\<lambda>_.
     andThen (lift (vector_assertId i)) (\<lambda>_. ve_delete e t coll i))"

text \<open>A search that reaches the engine is over 384 finite numbers and asks for 1 to 100 items.\<close>

lemma vector_similar_bounds:
  assumes "vector_similar e t coll embedding k excluded w = (r, w')"
  shows "(w' = w \<and> (\<exists>err. r = Inl err))
    \<or> (isTenantId t \<and> length embedding = VECTOR_DIMENSIONS \<and> None \<notin> set embedding
        \<and> 1 \<le> nat \<lfloor>k\<rfloor> \<and> nat \<lfloor>k\<rfloor> \<le> 100 \<and> of_nat (nat \<lfloor>k\<rfloor>) = k \<and> [] \<notin> set (option_or excluded [])
        \<and> ve_similar e t coll embedding (nat \<lfloor>k\<rfloor>) (option_or excluded []) w = (r, w'))"
proof -
  have ids: "each_id is = Inr () \<Longrightarrow> [] \<notin> set is" for "is"
    by (induction "is") (auto simp: vector_assertId_def split: if_splits)
  have k: "1 \<le> nat \<lfloor>k\<rfloor> \<and> nat \<lfloor>k\<rfloor> \<le> 100 \<and> of_nat (nat \<lfloor>k\<rfloor>) = k" if "positive_integer k" "k \<le> MAX_K"
    using positive_integer_nat [OF that(1)] that(2) by (auto simp: MAX_K_def)
  show ?thesis using assms ids k
    by (cases "each_id (option_or excluded [])")
      (auto simp: vector_similar_def vector_assertScope_def assertEmbedding_def list_all_iff not_less split: if_splits)
qed

subsection \<open>The cache\<close>

definition CACHE_CODEC_VERSION :: rat where "CACHE_CODEC_VERSION = 1"

definition cache_envelope :: "json \<Rightarrow> json" where
  "cache_envelope v = JObj [(''v'', JNum CACHE_CODEC_VERSION), (''d'', v)]"

text \<open>A value is \<open>None\<close> when it is \<open>undefined\<close>; \<open>parse\<close> is \<open>JSON.parse\<close>, \<open>None\<close> where it throws.\<close>

definition encodeCacheValue :: "(json \<Rightarrow> string) \<Rightarrow> json option \<Rightarrow> thrown + string" where
  "encodeCacheValue stringify value =
     (case value of
        None \<Rightarrow> Inl (PlainError ''TypeError'' ''Cannot cache undefined; cache null instead'' [])
      | Some v \<Rightarrow> Inr (stringify (cache_envelope v)))"

definition decodeCacheValue :: "(string \<Rightarrow> json option) \<Rightarrow> string option \<Rightarrow> json option" where
  "decodeCacheValue parse raw =
     (case Option.bind raw parse of
        Some (JObj ps) \<Rightarrow> if js_prop ps ''v'' = Some (JNum CACHE_CODEC_VERSION) then js_prop ps ''d'' else None
      | _ \<Rightarrow> None)"

record 'w cache_store =
  cs_getRaw :: "string \<Rightarrow> ('w, string option) eff"
  cs_setRaw :: "string \<Rightarrow> string \<Rightarrow> nat \<Rightarrow> ('w, unit) eff"
  cs_del :: "string \<Rightarrow> ('w, unit) eff"
  cs_stringify :: "json \<Rightarrow> string"
  cs_parse :: "string \<Rightarrow> json option"

definition cache_get :: "'w cache_store \<Rightarrow> string \<Rightarrow> ('w, json option) eff" where
  "cache_get s key = andThen (cs_getRaw s key) (\<lambda>raw. ret (decodeCacheValue (cs_parse s) raw))"

definition cache_set :: "'w cache_store \<Rightarrow> string \<Rightarrow> json option \<Rightarrow> rat \<Rightarrow> ('w, unit) eff" where
  "cache_set s key value ttl =
     andThen (lift (assertPositiveInteger ttl ''Cache ttlSeconds'')) (\<lambda>_.
     andThen (lift (encodeCacheValue (cs_stringify s) value)) (\<lambda>raw. cs_setRaw s key raw (as_nat ttl)))"

definition cache_del :: "'w cache_store \<Rightarrow> string \<Rightarrow> ('w, unit) eff" where
  "cache_del s key = cs_del s key"

definition cache_load :: "'w cache_store \<Rightarrow> string \<Rightarrow> rat \<Rightarrow> ('w, json option) eff \<Rightarrow> ('w, json option) eff" where
  "cache_load s key ttl loader =
     andThen (rescue (cache_get s key) (\<lambda>err. if is_disabled err then raise err else ret None)) (\<lambda>cached.
     if cached \<noteq> None then ret cached
     else andThen loader (\<lambda>value.
       if value = None then ret value
       else andThen (rescue (cache_set s key value ttl) (\<lambda>_. ret ())) (\<lambda>_. ret value)))"

text \<open>\<open>getOrLoad\<close> of a key that no other call is loading.\<close>

definition getOrLoad :: "'w cache_store \<Rightarrow> string \<Rightarrow> rat \<Rightarrow> ('w, json option) eff \<Rightarrow> ('w, json option) eff" where
  "getOrLoad s key ttl loader =
     andThen (lift (assertPositiveInteger ttl ''Cache ttlSeconds'')) (\<lambda>_. cache_load s key ttl loader)"

text \<open>The cache never gets in the way. A value is read back as it was set. When the store has no
  such value or fails to answer, and is not switched off, \<open>getOrLoad\<close> answers what the loader answers,
  value or error, even when the value cannot be written back.\<close>

theorem cache_degrades_to_loader:
  assumes codec: "cs_parse s (cs_stringify s (cache_envelope v)) = Some (cache_envelope v)" and ttl: "positive_integer ttl"
    and read: "cs_getRaw s key w = (raw, w1)"
  shows "(raw = Inr (Some (cs_stringify s (cache_envelope v))) \<longrightarrow> getOrLoad s key ttl loader w = (Inr (Some v), w1))
    \<and> (\<forall>text. raw = Inr text \<longrightarrow> decodeCacheValue (cs_parse s) text = None \<longrightarrow> fst (getOrLoad s key ttl loader w) = fst (loader w1))
    \<and> (\<forall>err. raw = Inl err \<longrightarrow> \<not> is_disabled err \<longrightarrow> fst (getOrLoad s key ttl loader w) = fst (loader w1))"
proof -
  have load: "fst (andThen loader (\<lambda>value. if value = None then ret value
      else andThen (rescue (cache_set s key value ttl) (\<lambda>_. ret ())) (\<lambda>_. ret value)) w1) = fst (loader w1)"
    by (auto simp: andThen_def rescue_def split: prod.splits sum.splits)
  show ?thesis
    using read ttl codec load
    by (auto simp: getOrLoad_def cache_load_def cache_get_def assertPositiveInteger_def decodeCacheValue_def cache_envelope_def
        andThen_def rescue_def js_prop_def split: prod.splits sum.splits)
qed

definition toy_cache :: "bool \<Rightarrow> nat cache_store" where
  "toy_cache up = \<lparr>cs_getRaw = (\<lambda>key w. (if up then Inr (Some ''x'') else Inl (PlainError ''Error'' ''down'' []), w)),
     cs_setRaw = (\<lambda>key raw ttl w. (Inl (PlainError ''Error'' ''down'' []), w)), cs_del = (\<lambda>key w. (Inr (), w)),
     cs_stringify = (\<lambda>_. ''x''), cs_parse = (\<lambda>_. Some (cache_envelope (JNum 7)))\<rparr>"

lemma cache_degrades_to_loader_witness:
  "getOrLoad (toy_cache True) ''k'' 60 (\<lambda>w. (Inr (Some JNull), w + 1)) 0 = (Inr (Some (JNum 7)), 0)
   \<and> fst (getOrLoad (toy_cache False) ''k'' 60 (\<lambda>w. (Inr (Some JNull), w + 1)) 0) = Inr (Some JNull)"
proof -
  have c: "cs_parse (toy_cache up) (cs_stringify (toy_cache up) (cache_envelope (JNum 7))) = Some (cache_envelope (JNum 7))" for up
    by (simp add: toy_cache_def)
  have ttl: "positive_integer 60" by code_simp
  have read: "cs_getRaw (toy_cache up) ''k'' 0 = (if up then Inr (Some ''x'') else Inl (PlainError ''Error'' ''down'' []), 0)" for up
    by (simp add: toy_cache_def)
  have x: "cs_stringify (toy_cache up) v = ''x''" for up v by (simp add: toy_cache_def)
  show ?thesis
    using cache_degrades_to_loader [OF c ttl read, of True "\<lambda>w. (Inr (Some JNull), w + 1)"]
      cache_degrades_to_loader [OF c ttl read, of False "\<lambda>w. (Inr (Some JNull), w + 1)"] x by simp
qed

end
