(* ===== verification/Tracking.thy ===== *)
theory Tracking
  imports Messaging Engines Tenancy
begin

text \<open>
  Behaviour tracking end to end: the tracker of the SDK (\<open>packages/sdk/src/tracking/index.ts\<close>), the ingest
  of its batches (\<open>features/tracking/services/tracking.service.ts\<close>, the controller) and the consumer that
  writes them (\<open>tracking.processor.ts\<close>, \<open>tracking-sink.service.ts\<close>, \<open>tracking.repository.ts\<close>).
\<close>

subsection \<open>The tracker\<close>

text \<open>The properties of an event are \<open>None\<close> when \<open>JSON.stringify\<close> throws on them: a cycle, a BigInt.\<close>

record tracked_event =
  te_eventId :: string
  te_eventName :: string
  te_anonymousId :: string
  te_userId :: "string option"
  te_sessionId :: string
  te_page :: string
  te_referrer :: string
  te_userAgent :: string
  te_screen :: string
  te_props :: "(string \<times> json) list option"
  te_timestamp :: nat

record tracker =
  tk_anonymousId :: string
  tk_userId :: "string option"
  tk_buffer :: "tracked_event list"
  tk_destroyed :: bool
  tk_listening :: bool

definition SESSION_TTL_MS :: nat where "SESSION_TTL_MS = 30 * 60 * 1000"

text \<open>\<open>getAnonymousId\<close>: the storage is \<open>None\<close> when it throws, else what it holds; with the storage after.\<close>

definition getAnonymousId :: "string option option \<Rightarrow> string \<Rightarrow> string \<times> string option option" where
  "getAnonymousId storage fresh =
     (case storage of
        None \<Rightarrow> (fresh, None)
      | Some held \<Rightarrow> (case nonempty held of Some existing \<Rightarrow> (existing, storage) | None \<Rightarrow> (fresh, Some (Some fresh))))"

text \<open>\<open>getSessionId\<close>. What the storage holds is read as the id and the time it was last used: a text that is not
  JSON, or is null, throws.\<close>

definition session_text :: "(json \<Rightarrow> string) \<Rightarrow> string \<Rightarrow> nat \<Rightarrow> string" where
  "session_text stringify i ts = stringify (JObj [(''id'', JStr i), (''ts'', JNum (of_nat ts))])"

definition live_session :: "nat \<Rightarrow> json \<Rightarrow> string option" where
  "live_session now j =
     (case j of
        JObj ps \<Rightarrow>
          (case (js_prop ps ''id'', js_prop ps ''ts'') of
             (Some (JStr i), Some (JNum ts)) \<Rightarrow> if i \<noteq> [] \<and> of_nat now - ts < of_nat SESSION_TTL_MS then Some i else None
           | _ \<Rightarrow> None)
      | _ \<Rightarrow> None)"

definition getSessionId ::
  "(json \<Rightarrow> string) \<Rightarrow> (string \<Rightarrow> json option) \<Rightarrow> nat \<Rightarrow> string \<Rightarrow> string option option \<Rightarrow> string \<times> string option option" where
  "getSessionId stringify parse now fresh storage =
     (let renewed = (fresh, Some (Some (session_text stringify fresh now))) in
      case storage of
        None \<Rightarrow> (''no-session'', None)
      | Some raw \<Rightarrow>
          (case nonempty raw of
             None \<Rightarrow> renewed
           | Some held \<Rightarrow>
               (case parse held of
                  None \<Rightarrow> (''no-session'', storage)
                | Some JNull \<Rightarrow> (''no-session'', storage)
                | Some j \<Rightarrow>
                    (case live_session now j of
                       Some i \<Rightarrow> (i, Some (Some (session_text stringify i now)))
                     | None \<Rightarrow> renewed))))"

text \<open>The address of the ingest. A beacon cannot set headers, so the tenant is in the query.\<close>

definition tracker_endpoint :: "string \<Rightarrow> string option \<Rightarrow> string" where
  "tracker_endpoint endpoint tenantId =
     (case nonempty tenantId of
        Some t \<Rightarrow> endpoint @ (if CHR ''?'' \<in> set endpoint then ''&'' else ''?'') @ ''tenant='' @ encodeURIComponent t
      | None \<Rightarrow> endpoint)"

text \<open>What the browser does with a batch: whether it has beacons and takes this one, and the bearer token, or
  the error of the functions the host gave for the headers.\<close>

datatype beacon_answer = NoBeacon | BeaconTaken | BeaconRefused | BeaconThrows

record browser =
  br_beacon :: beacon_answer
  br_token :: "thrown + string option"

datatype delivery =
    SentBeacon "tracked_event list"
  | Fetched "string option" "tracked_event list"
  | Lost "tracked_event list"

definition unserializable :: thrown where
  "unserializable = PlainError ''TypeError'' ''Converting circular structure to JSON'' []"

definition tracker_send :: "tracked_event list \<Rightarrow> bool \<Rightarrow> browser \<Rightarrow> (thrown + unit) \<times> delivery list" where
  "tracker_send events beacon b =
     (if events = [] then (Inr (), [])
      else if list_ex (\<lambda>e. te_props e = None) events then (Inl unserializable, [Lost events])
      else if beacon \<and> br_beacon b = BeaconTaken then (Inr (), [SentBeacon events])
      else if beacon \<and> br_beacon b = BeaconThrows then (Inr (), [Lost events])
      else (case br_token b of
          Inl _ \<Rightarrow> (Inr (), [Lost events])
        | Inr tok \<Rightarrow> (Inr (), [Fetched (nonempty tok) events])))"

definition flushBuffer :: "bool \<Rightarrow> browser \<Rightarrow> tracker \<Rightarrow> (thrown + unit) \<times> tracker \<times> delivery list" where
  "flushBuffer beacon b tk =
     (case tracker_send (tk_buffer tk) beacon b of (r, ds) \<Rightarrow> (r, tk\<lparr>tk_buffer := []\<rparr>, ds))"

text \<open>What an event takes from its surroundings.\<close>

record event_context =
  ec_uuid :: string
  ec_session :: string
  ec_now :: nat
  ec_page :: string
  ec_referrer :: string
  ec_userAgent :: string
  ec_screen :: string

definition tracker_event :: "tracker \<Rightarrow> string \<Rightarrow> (string \<times> json) list option \<Rightarrow> event_context \<Rightarrow> tracked_event" where
  "tracker_event tk eventName props c =
     \<lparr>te_eventId = ec_uuid c, te_eventName = eventName, te_anonymousId = tk_anonymousId tk, te_userId = tk_userId tk,
      te_sessionId = ec_session c, te_page = ec_page c, te_referrer = ec_referrer c, te_userAgent = ec_userAgent c,
      te_screen = ec_screen c, te_props = props, te_timestamp = ec_now c\<rparr>"

text \<open>\<open>enqueue\<close>: whatever the flush throws is swallowed.\<close>

definition tracker_enqueue ::
  "nat \<Rightarrow> string \<Rightarrow> (string \<times> json) list option \<Rightarrow> event_context \<Rightarrow> browser \<Rightarrow> tracker \<Rightarrow> tracker \<times> delivery list" where
  "tracker_enqueue maxBatch eventName props c b tk =
     (if tk_destroyed tk then (tk, [])
      else
        (let tk1 = tk\<lparr>tk_buffer := tk_buffer tk @ [tracker_event tk eventName props c]\<rparr> in
         if maxBatch \<le> length (tk_buffer tk1) then snd (flushBuffer False b tk1) else (tk1, [])))"

datatype tracker_op =
    Track string "(string \<times> json) list option" event_context browser
  | TrackPage string event_context browser
  | Identify string
  | ExposeExperiment string string event_context browser
  | Flush browser
  | TimerFires browser
  | PageHides browser
  | DestroyTracker browser

text \<open>One call of the tracker, or one trigger while its listeners are set.\<close>

fun tracker_step :: "nat \<Rightarrow> tracker_op \<Rightarrow> tracker \<Rightarrow> (thrown + unit) \<times> tracker \<times> delivery list" where
  "tracker_step n (Track eventName props c b) tk = (Inr (), tracker_enqueue n eventName props c b tk)"
| "tracker_step n (TrackPage path c b) tk = (Inr (), tracker_enqueue n ''page.view'' (Some [(''path'', JStr path)]) c b tk)"
| "tracker_step n (Identify i) tk = (Inr (), tk\<lparr>tk_userId := Some i\<rparr>, [])"
| "tracker_step n (ExposeExperiment x v c b) tk =
     (Inr (), tracker_enqueue n ''experiment.exposed'' (Some [(''experiment'', JStr x), (''variant'', JStr v)]) c b tk)"
| "tracker_step n (Flush b) tk = flushBuffer False b tk"
| "tracker_step n (TimerFires b) tk = (if tk_listening tk then flushBuffer False b tk else (Inr (), tk, []))"
| "tracker_step n (PageHides b) tk = (if tk_listening tk then flushBuffer True b tk else (Inr (), tk, []))"
| "tracker_step n (DestroyTracker b) tk =
     (case flushBuffer True b tk of
        (Inl e, tk1, ds) \<Rightarrow> (Inl e, tk1, ds)
      | (Inr _, tk1, ds) \<Rightarrow> (Inr (), tk1\<lparr>tk_destroyed := True, tk_listening := False\<rparr>, ds))"

fun tracker_run :: "nat \<Rightarrow> tracker_op list \<Rightarrow> tracker \<Rightarrow> tracker \<times> delivery list" where
  "tracker_run n [] tk = (tk, [])"
| "tracker_run n (op # ops) tk =
     (case tracker_step n op tk of (_, tk1, ds) \<Rightarrow> map_prod id ((@) ds) (tracker_run n ops tk1))"

subsection \<open>Every event is handed over once\<close>

fun events_of :: "delivery \<Rightarrow> tracked_event list" where
  "events_of (SentBeacon es) = es"
| "events_of (Fetched _ es) = es"
| "events_of (Lost es) = es"

fun step_browser :: "tracker_op \<Rightarrow> browser option" where
  "step_browser (Track _ _ _ b) = Some b"
| "step_browser (TrackPage _ _ b) = Some b"
| "step_browser (Identify _) = None"
| "step_browser (ExposeExperiment _ _ _ b) = Some b"
| "step_browser (Flush b) = Some b"
| "step_browser (TimerFires b) = Some b"
| "step_browser (PageHides b) = Some b"
| "step_browser (DestroyTracker b) = Some b"

text \<open>The events a run records.\<close>

fun recorded_event :: "tracker_op \<Rightarrow> tracker \<Rightarrow> tracked_event list" where
  "recorded_event (Track eventName props c b) tk = (if tk_destroyed tk then [] else [tracker_event tk eventName props c])"
| "recorded_event (TrackPage path c b) tk =
     (if tk_destroyed tk then [] else [tracker_event tk ''page.view'' (Some [(''path'', JStr path)]) c])"
| "recorded_event (ExposeExperiment x v c b) tk =
     (if tk_destroyed tk then []
      else [tracker_event tk ''experiment.exposed'' (Some [(''experiment'', JStr x), (''variant'', JStr v)]) c])"
| "recorded_event _ tk = []"

fun recorded :: "nat \<Rightarrow> tracker_op list \<Rightarrow> tracker \<Rightarrow> tracked_event list" where
  "recorded n [] tk = []"
| "recorded n (op # ops) tk = recorded_event op tk @ recorded n ops (fst (snd (tracker_step n op tk)))"

text \<open>Nothing the host or the browser provides throws.\<close>

definition quiet_op :: "tracker_op \<Rightarrow> bool" where
  "quiet_op op \<longleftrightarrow> (\<forall>b. step_browser op = Some b \<longrightarrow> br_beacon b \<noteq> BeaconThrows \<and> \<not> isl (br_token b))
     \<and> (\<forall>name props c b. op = Track name props c b \<longrightarrow> props \<noteq> None)"

definition serializable :: "tracked_event \<Rightarrow> bool" where
  "serializable e \<longleftrightarrow> te_props e \<noteq> None"

lemma send_events:
  assumes "tracker_send es beacon b = (r, ds)"
  shows "concat (map events_of ds) = es" and "\<forall>d \<in> set ds. events_of d = es \<and> es \<noteq> []"
    and "list_all serializable es \<Longrightarrow> br_beacon b \<noteq> BeaconThrows \<Longrightarrow> \<not> isl (br_token b) \<Longrightarrow> Lost xs \<notin> set ds \<and> r = Inr ()"
  using assms
  by (auto simp: tracker_send_def list_ex_iff list_all_iff serializable_def split: if_splits sum.splits)

lemma flush_events:
  assumes "flushBuffer beacon b tk = (r, tk', ds)"
  shows "concat (map events_of ds) = tk_buffer tk" "tk' = tk\<lparr>tk_buffer := []\<rparr>"
    and "\<forall>d \<in> set ds. events_of d = tk_buffer tk \<and> tk_buffer tk \<noteq> []"
    and "list_all serializable (tk_buffer tk) \<Longrightarrow> br_beacon b \<noteq> BeaconThrows \<Longrightarrow> \<not> isl (br_token b) \<Longrightarrow> Lost xs \<notin> set ds \<and> r = Inr ()"
  using assms send_events [of "tk_buffer tk" beacon b] by (auto simp: flushBuffer_def split: prod.splits)

definition step_sound :: "nat \<Rightarrow> tracker_op \<Rightarrow> tracker \<Rightarrow> tracker \<Rightarrow> delivery list \<Rightarrow> bool" where
  "step_sound n op tk tk' ds \<longleftrightarrow>
     concat (map events_of ds) @ tk_buffer tk' = tk_buffer tk @ recorded_event op tk
     \<and> length (tk_buffer tk') < n \<and> (\<forall>d \<in> set ds. events_of d \<noteq> [] \<and> length (events_of d) \<le> n)
     \<and> (quiet_op op \<longrightarrow> list_all serializable (tk_buffer tk) \<longrightarrow>
          list_all serializable (tk_buffer tk') \<and> (\<forall>xs. Lost xs \<notin> set ds))"

lemma enqueue_sound:
  assumes n: "0 < n" and len: "length (tk_buffer tk) < n"
    and run: "tracker_enqueue n name props c b tk = (tk', ds)"
    and op: "recorded_event op tk = (if tk_destroyed tk then [] else [tracker_event tk name props c])"
    and quiet: "quiet_op op \<Longrightarrow> props \<noteq> None \<and> br_beacon b \<noteq> BeaconThrows \<and> \<not> isl (br_token b)"
  shows "step_sound n op tk tk' ds"
proof (cases "tk_destroyed tk")
  case True
  then show ?thesis using len run op by (simp add: tracker_enqueue_def step_sound_def)
next
  case False
  let ?e = "tracker_event tk name props c"
  let ?tk1 = "tk\<lparr>tk_buffer := tk_buffer tk @ [?e]\<rparr>"
  have ser: "serializable ?e" if "quiet_op op" using quiet [OF that] by (simp add: serializable_def tracker_event_def)
  show ?thesis
  proof (cases "n \<le> length (tk_buffer ?tk1)")
    case True
    obtain r where flush: "flushBuffer False b ?tk1 = (r, tk', ds)"
      using run False True by (cases "flushBuffer False b ?tk1") (auto simp: tracker_enqueue_def)
    show ?thesis
      using flush_events [OF flush] n len op False ser quiet unfolding step_sound_def by auto
  next
    case small: False
    then show ?thesis using run False op ser n by (auto simp: tracker_enqueue_def step_sound_def)
  qed
qed

lemma flush_sound:
  assumes n: "0 < n" and len: "length (tk_buffer tk) < n" and run: "flushBuffer beacon b tk = (r, tk', ds)"
    and op: "recorded_event op tk = []" and quiet: "quiet_op op \<Longrightarrow> br_beacon b \<noteq> BeaconThrows \<and> \<not> isl (br_token b)"
  shows "step_sound n op tk tk' ds"
  using flush_events [OF run] n len op quiet unfolding step_sound_def by auto

lemma idle_sound: "length (tk_buffer tk) < n \<Longrightarrow> recorded_event op tk = [] \<Longrightarrow> tk_buffer tk' = tk_buffer tk \<Longrightarrow> step_sound n op tk tk' []"
  by (simp add: step_sound_def)

lemma tracker_step_sound:
  assumes n: "0 < n" and len: "length (tk_buffer tk) < n" and run: "tracker_step n op tk = (r, tk', ds)"
  shows "step_sound n op tk tk' ds"
proof (cases op)
  case (DestroyTracker b)
  obtain r1 tk1 ds1 where flush: "flushBuffer True b tk = (r1, tk1, ds1)" by (cases "flushBuffer True b tk")
  have "step_sound n op tk tk1 ds1"
    by (rule flush_sound [OF n len flush]) (simp_all add: DestroyTracker quiet_op_def)
  then show ?thesis using run flush DestroyTracker by (cases r1) (auto simp: step_sound_def)
next
  case (Identify i)
  then show ?thesis using run len by (auto intro!: idle_sound)
next
  case (TimerFires b)
  then show ?thesis using run n len
    by (cases "tk_listening tk") (auto intro!: idle_sound flush_sound [of n tk False b r] simp: quiet_op_def)
next
  case (PageHides b)
  then show ?thesis using run n len
    by (cases "tk_listening tk") (auto intro!: idle_sound flush_sound [of n tk True b r] simp: quiet_op_def)
next
  case (Flush b)
  then show ?thesis using run n len by (auto intro!: flush_sound [of n tk False b r] simp: quiet_op_def)
qed (use run in \<open>auto intro!: enqueue_sound [OF n len] simp: quiet_op_def\<close>)

text \<open>Every tracked event is handed over once. Over any run of calls, timers and page events, the batches
  handed to the browser, one after the other, and the buffer hold exactly the events recorded, in order, each
  once, so none is sent again; a batch is neither empty nor larger than the limit; and when nothing the host
  or the browser provides throws, no batch is lost before it is handed over.\<close>

theorem tracked_events_handed_over_once:
  assumes "0 < n" and "length (tk_buffer tk) < n" and "tracker_run n ops tk = (tk', ds)"
  shows "concat (map events_of ds) @ tk_buffer tk' = tk_buffer tk @ recorded n ops tk
    \<and> length (tk_buffer tk') < n \<and> (\<forall>d \<in> set ds. events_of d \<noteq> [] \<and> length (events_of d) \<le> n)
    \<and> (list_all quiet_op ops \<longrightarrow> list_all serializable (tk_buffer tk) \<longrightarrow> (\<forall>xs. Lost xs \<notin> set ds))"
  using assms(2,3)
proof (induction ops arbitrary: tk ds)
  case (Cons op ops)
  obtain r tk1 ds1 where step: "tracker_step n op tk = (r, tk1, ds1)" by (cases "tracker_step n op tk")
  obtain ds2 where rest: "tracker_run n ops tk1 = (tk', ds2)" and eq: "ds = ds1 @ ds2"
    using Cons.prems(2) step by (cases "tracker_run n ops tk1") auto
  have sound: "step_sound n op tk tk1 ds1" by (rule tracker_step_sound [OF assms(1) Cons.prems(1) step])
  have "length (tk_buffer tk1) < n" using sound by (simp add: step_sound_def)
  note IH = Cons.IH [OF this rest]
  show ?case using sound IH step unfolding step_sound_def eq by auto
qed auto

definition new_tracker :: "string \<Rightarrow> tracker" where
  "new_tracker i = \<lparr>tk_anonymousId = i, tk_userId = None, tk_buffer = [], tk_destroyed = False, tk_listening = True\<rparr>"

definition plain_browser :: browser where "plain_browser = \<lparr>br_beacon = BeaconTaken, br_token = Inr None\<rparr>"

definition plain_context :: "string \<Rightarrow> event_context" where
  "plain_context i = \<lparr>ec_uuid = i, ec_session = ''s'', ec_now = 1, ec_page = ''/'', ec_referrer = [], ec_userAgent = [], ec_screen = []\<rparr>"

lemma tracked_events_handed_over_once_witness:
  "concat (map events_of (snd (tracker_run 10 [TrackPage ''/'' (plain_context ''a'') plain_browser,
      Track ''nav.click'' (Some []) (plain_context ''b'') plain_browser, PageHides plain_browser] (new_tracker ''x''))))
   = recorded 10 [TrackPage ''/'' (plain_context ''a'') plain_browser,
      Track ''nav.click'' (Some []) (plain_context ''b'') plain_browser, PageHides plain_browser] (new_tracker ''x'')"
proof -
  let ?ops = "[TrackPage ''/'' (plain_context ''a'') plain_browser,
      Track ''nav.click'' (Some []) (plain_context ''b'') plain_browser, PageHides plain_browser]"
  obtain tk' ds where run: "tracker_run 10 ?ops (new_tracker ''x'') = (tk', ds)" by fastforce
  have "tk_buffer tk' = []"
    using run by (auto simp: new_tracker_def tracker_enqueue_def flushBuffer_def tracker_send_def plain_browser_def tracker_event_def)
  then show ?thesis
    using tracked_events_handed_over_once [OF _ _ run] run by (simp add: new_tracker_def)
qed

text \<open>A flush may break the host. When an event in the buffer cannot be printed as JSON, \<open>flush()\<close> and the timer
  throw into the page, which the tracker promises never to do, and \<open>destroy()\<close> throws before it stops: the tracker
  still records events and still listens. A call to \<open>track\<close> with such properties is what puts it there.\<close>

theorem unserializable_event_breaks_flush:
  assumes "\<not> list_all serializable (tk_buffer tk)" and "tk_listening tk" and "\<not> tk_destroyed tk"
  shows "isl (fst (tracker_step n (Flush b) tk)) \<and> isl (fst (tracker_step n (TimerFires b) tk))
    \<and> isl (fst (tracker_step n (DestroyTracker b) tk))
    \<and> \<not> tk_destroyed (fst (snd (tracker_step n (DestroyTracker b) tk)))
    \<and> tk_listening (fst (snd (tracker_step n (DestroyTracker b) tk)))"
proof -
  have send: "tracker_send (tk_buffer tk) beacon b = (Inl unserializable, [Lost (tk_buffer tk)])" for beacon
    using assms(1) by (auto simp: tracker_send_def list_ex_iff list_all_iff serializable_def)
  then show ?thesis using assms(2,3) by (simp add: flushBuffer_def)
qed

lemma unserializable_event_breaks_flush_witness:
  "isl (fst (tracker_step 10 (Flush plain_browser)
     (fst (snd (tracker_step 10 (Track ''x'' None (plain_context ''a'') plain_browser) (new_tracker ''x''))))))"
proof -
  let ?tk = "fst (snd (tracker_step 10 (Track ''x'' None (plain_context ''a'') plain_browser) (new_tracker ''x'')))"
  have "\<not> list_all serializable (tk_buffer ?tk)" "tk_listening ?tk" "\<not> tk_destroyed ?tk"
    by (simp_all add: new_tracker_def tracker_enqueue_def tracker_event_def serializable_def)
  from unserializable_event_breaks_flush [OF this] show ?thesis by blast
qed

subsection \<open>Ingest\<close>

definition TRACKING_TOPIC :: string where "TRACKING_TOPIC = ''tracking-events''"
definition TRACKING_BATCH_EVENT_TYPE :: string where "TRACKING_BATCH_EVENT_TYPE = ''tracking.batch.received''"
definition TRACKING_TABLE :: string where "TRACKING_TABLE = ''logs.user_behavior''"
definition TRACKING_SEEN_TTL_SECONDS :: rat where "TRACKING_SEEN_TTL_SECONDS = 24 * 60 * 60"
definition TRACKING_CLAIM_TTL_SECONDS :: rat where "TRACKING_CLAIM_TTL_SECONDS = 30"
definition TRACKING_MAX_BATCH :: nat where "TRACKING_MAX_BATCH = 100"
definition TRACKING_MAX_FIELD_LEN :: nat where "TRACKING_MAX_FIELD_LEN = 1024"
definition TIMESTAMP_MIN_MS :: rat where "TIMESTAMP_MIN_MS = 1577836800000"

definition tracking_key :: "string \<Rightarrow> key_builder" where
  "tracking_key name = \<lparr>kb_spec = \<lparr>capability = ''dedup'', key_module = ''tracking'', key_name = name, version = ''v1''\<rparr>, kb_fixed = None\<rparr>"

definition TRACKING_EVENT_SEEN :: key_builder where "TRACKING_EVENT_SEEN = tracking_key ''event-seen''"
definition TRACKING_EVENT_WRITTEN :: key_builder where "TRACKING_EVENT_WRITTEN = tracking_key ''event-written''"

text \<open>The key of an event's marker. The builder throws on an empty id or a malformed tenant, which the callers
  have excluded.\<close>

definition marker_key :: "key_builder \<Rightarrow> (string \<Rightarrow> string option) \<Rightarrow> string \<Rightarrow> string \<Rightarrow> string" where
  "marker_key b env t i = (case forTenant b env t [i] of Inr k \<Rightarrow> k | Inl _ \<Rightarrow> [])"

text \<open>An event as it arrives, checked by its validation decorators; \<open>is_uuid\<close> is class-validator's.\<close>

record track_event_dto =
  td_eventId :: string
  td_eventName :: string
  td_anonymousId :: string
  td_userId :: "string option"
  td_sessionId :: string
  td_page :: string
  td_referrer :: "string option"
  td_userAgent :: "string option"
  td_screen :: "string option"
  td_props :: "(string \<times> json) list option"
  td_timestamp :: rat

definition short :: "nat \<Rightarrow> string option \<Rightarrow> bool" where
  "short n s \<longleftrightarrow> (case s of None \<Rightarrow> True | Some v \<Rightarrow> length v \<le> n)"

definition valid_track_event :: "(string \<Rightarrow> bool) \<Rightarrow> track_event_dto \<Rightarrow> bool" where
  "valid_track_event is_uuid e \<longleftrightarrow>
     is_uuid (td_eventId e) \<and> length (td_eventName e) \<le> 128 \<and> length (td_anonymousId e) \<le> 64
     \<and> short 64 (td_userId e) \<and> length (td_sessionId e) \<le> 64 \<and> length (td_page e) \<le> TRACKING_MAX_FIELD_LEN
     \<and> short TRACKING_MAX_FIELD_LEN (td_referrer e) \<and> short TRACKING_MAX_FIELD_LEN (td_userAgent e)
     \<and> short 32 (td_screen e) \<and> TIMESTAMP_MIN_MS \<le> td_timestamp e"

definition valid_track_batch :: "(string \<Rightarrow> bool) \<Rightarrow> track_event_dto list \<Rightarrow> bool" where
  "valid_track_batch is_uuid es \<longleftrightarrow> 1 \<le> length es \<and> length es \<le> TRACKING_MAX_BATCH \<and> list_all (valid_track_event is_uuid) es"

text \<open>The event as published: \<open>JSON.stringify\<close> leaves out an undefined user.\<close>

definition enrich :: "string \<Rightarrow> rat \<Rightarrow> track_event_dto \<Rightarrow> (string \<times> json) list" where
  "enrich t receivedAt e =
     [(''eventId'', JStr (td_eventId e)), (''eventName'', JStr (td_eventName e)), (''anonymousId'', JStr (td_anonymousId e))]
     @ (case td_userId e of Some u \<Rightarrow> [(''userId'', JStr u)] | None \<Rightarrow> [])
     @ [(''sessionId'', JStr (td_sessionId e)), (''tenantId'', JStr t), (''page'', JStr (td_page e)),
        (''referrer'', JStr (option_or (td_referrer e) [])), (''userAgent'', JStr (option_or (td_userAgent e) [])),
        (''screen'', JStr (option_or (td_screen e) [])), (''props'', JObj (option_or (td_props e) [])),
        (''timestamp'', JNum (td_timestamp e)), (''receivedAt'', JNum receivedAt)]"

record 'w tracking_deps =
  tr_find :: "string \<Rightarrow> ('w, tenant_record option) eff"
  tr_publish :: "string \<Rightarrow> msg_payload \<Rightarrow> publish_options \<Rightarrow> ('w, unit) eff"
  tr_dedup :: "'w dedup_ops"
  tr_env :: "string \<Rightarrow> string option"
  tr_insert :: "string \<Rightarrow> string \<Rightarrow> (string \<times> json) list list \<Rightarrow> ('w, unit) eff"
  tr_publishToTenant :: "string \<Rightarrow> string \<Rightarrow> (string \<times> json) list \<Rightarrow> ('w, unit) eff"
  tr_now :: "'w \<Rightarrow> rat"
  tr_stringify :: "json \<Rightarrow> string"
  tr_text :: "json \<Rightarrow> string"

fun is_app_error :: "thrown \<Rightarrow> bool" where
  "is_app_error (AppError _ _ _ _ _) = True"
| "is_app_error _ = False"

definition assertAccepting :: "'w tracking_deps \<Rightarrow> string \<Rightarrow> ('w, unit) eff" where
  "assertAccepting d t =
     andThen (rescue (tr_find d t) (\<lambda>err. if is_app_error err then raise err else raise (app_error_cause SERVICE_UNAVAILABLE err)))
       (\<lambda>found. lift (assertTenantActive found))"

definition seen_key :: "'w tracking_deps \<Rightarrow> string \<Rightarrow> track_event_dto \<Rightarrow> string" where
  "seen_key d t e = marker_key TRACKING_EVENT_SEEN (tr_env d) t (td_eventId e)"

text \<open>The keys of the batch, and which of them this call claimed.\<close>

definition dropAlreadySeen ::
  "'w tracking_deps \<Rightarrow> track_event_dto list \<Rightarrow> string \<Rightarrow> string \<Rightarrow> ('w, track_event_dto list \<times> string list) eff" where
  "dropAlreadySeen d events t owner =
     (let keys = map (seen_key d t) events in
      rescue
        (andThen (do_claimMany (tr_dedup d) keys TRACKING_CLAIM_TTL_SECONDS owner) (\<lambda>claims. ret (pick events claims, pick keys claims)))
        (\<lambda>_. ret (events, [])))"

definition tracking_message :: "string \<Rightarrow> rat \<Rightarrow> track_event_dto list \<Rightarrow> msg_payload \<times> publish_options" where
  "tracking_message t receivedAt events =
     (PayObj [(''events'', JArr (map (\<lambda>e. JObj (enrich t receivedAt e)) events))],
      \<lparr>po_properties = [], po_event = no_event_attributes\<lparr>at_tenantId := Some t, at_type := Some TRACKING_BATCH_EVENT_TYPE\<rparr>, po_key = None\<rparr>)"

definition publish_tracking :: "'w tracking_deps \<Rightarrow> string \<Rightarrow> rat \<Rightarrow> track_event_dto list \<Rightarrow> ('w, unit) eff" where
  "publish_tracking d t receivedAt events =
     (case tracking_message t receivedAt events of (payload, opts) \<Rightarrow> tr_publish d TRACKING_TOPIC payload opts)"

definition settleClaims :: "('w, 'a) eff \<Rightarrow> ('w, unit) eff" where
  "settleClaims settle = rescue (andThen settle (\<lambda>_. ret ())) (\<lambda>_. ret ())"

definition ingest :: "'w tracking_deps \<Rightarrow> string \<Rightarrow> string \<Rightarrow> track_event_dto list \<Rightarrow> ('w, unit) eff" where
  "ingest d owner t dto w0 =
     andThen (dropAlreadySeen d dto t owner) (\<lambda>(fresh, claimed).
       if fresh = [] then ret ()
       else (\<lambda>w. case publish_tracking d t (tr_now d w0) fresh w of
           (Inl err, w1) \<Rightarrow> settleClaims (do_releaseMany (tr_dedup d) claimed owner) w1
         | (Inr _, w1) \<Rightarrow> settleClaims (do_extendMany (tr_dedup d) claimed TRACKING_SEEN_TTL_SECONDS owner) w1)) w0"

text \<open>The handler of both routes: \<open>ingest\<close> is not awaited, and takes effect where it starts.\<close>

definition track :: "'w tracking_deps \<Rightarrow> string \<Rightarrow> tenant_scope option \<Rightarrow> track_event_dto list \<Rightarrow> ('w, nat) eff" where
  "track d owner slot dto =
     andThen (lift (requireTenant slot)) (\<lambda>t.
     andThen (assertAccepting d t) (\<lambda>_.
     andThen (forget (ingest d owner t dto)) (\<lambda>_. ret (length dto))))"

subsection \<open>The consumer\<close>

definition falsy :: "json option \<Rightarrow> bool" where
  "falsy v \<longleftrightarrow> (case v of None \<Rightarrow> True | Some JNull \<Rightarrow> True | Some (JBool b) \<Rightarrow> \<not> b | Some (JNum n) \<Rightarrow> n = 0
     | Some (JStr s) \<Rightarrow> s = [] | _ \<Rightarrow> False)"

definition own_events :: "string \<Rightarrow> (string \<times> json) list list \<Rightarrow> (string \<times> json) list list" where
  "own_events t batch = filter (\<lambda>e. falsy (js_prop e ''tenantId'') \<or> js_prop e ''tenantId'' = Some (JStr t)) batch"

definition with_id :: "(string \<times> json) list list \<Rightarrow> (string \<times> json) list list" where
  "with_id events = filter (\<lambda>e. \<not> falsy (js_prop e ''eventId'')) events"

text \<open>An event id is a string; the builder would print another value.\<close>

definition event_id :: "(string \<times> json) list \<Rightarrow> string" where
  "event_id e = (case js_prop e ''eventId'' of Some (JStr s) \<Rightarrow> s | _ \<Rightarrow> [])"

definition row_field :: "string \<Rightarrow> (string \<times> json) list \<Rightarrow> string \<Rightarrow> (string \<times> json) list" where
  "row_field column e k = (case js_prop e k of Some v \<Rightarrow> [(column, v)] | None \<Rightarrow> [])"

definition tracking_row :: "(json \<Rightarrow> string) \<Rightarrow> (string \<times> json) list \<Rightarrow> (string \<times> json) list" where
  "tracking_row stringify e =
     row_field ''event_id'' e ''eventId'' @ row_field ''event_name'' e ''eventName'' @ row_field ''anonymous_id'' e ''anonymousId''
     @ [(''user_id'', case js_prop e ''userId'' of None \<Rightarrow> JStr [] | Some JNull \<Rightarrow> JStr [] | Some v \<Rightarrow> v)]
     @ row_field ''session_id'' e ''sessionId'' @ row_field ''page'' e ''page'' @ row_field ''referrer'' e ''referrer''
     @ row_field ''user_agent'' e ''userAgent'' @ row_field ''screen'' e ''screen''
     @ [(''props'', JStr (stringify (case js_prop e ''props'' of None \<Rightarrow> JObj [] | Some JNull \<Rightarrow> JObj [] | Some v \<Rightarrow> v)))]
     @ row_field ''timestamp'' e ''timestamp''"

text \<open>What is thrown is an Error, wrapped if it was not; \<open>str_of\<close> is \<open>String\<close>.\<close>

definition as_error :: "(json \<Rightarrow> string) \<Rightarrow> thrown \<Rightarrow> thrown" where
  "as_error str_of err = (case err of NonError j \<Rightarrow> PlainError ''Error'' (str_of j) [] | _ \<Rightarrow> err)"

definition insertEvents :: "'w tracking_deps \<Rightarrow> string \<Rightarrow> (string \<times> json) list list \<Rightarrow> ('w, unit) eff" where
  "insertEvents d t rows =
     (if rows = [] then ret () else rescue (tr_insert d t TRACKING_TABLE rows) (\<lambda>err. raise (as_error (tr_text d) err)))"

definition sink_store :: "'w tracking_deps \<Rightarrow> string \<Rightarrow> (string \<times> json) list list \<Rightarrow> ('w, unit) eff" where
  "sink_store d t events = insertEvents d t (map (tracking_row (tr_stringify d)) events)"

definition sink_notify :: "'w tracking_deps \<Rightarrow> string \<Rightarrow> nat \<Rightarrow> ('w, unit) eff" where
  "sink_notify d t n w =
     rescue (tr_publishToTenant d t ''tracking.event'' [(''count'', JNum (of_nat n)), (''at'', JNum (tr_now d w))]) (\<lambda>_. ret ()) w"

definition tracking_handle :: "'w tracking_deps \<Rightarrow> string \<Rightarrow> string \<Rightarrow> (string \<times> json) list list \<Rightarrow> ('w, unit) eff" where
  "tracking_handle d owner t batch =
     andThen (onceEach (tr_dedup d) owner (with_id (own_events t batch))
       (\<lambda>e. marker_key TRACKING_EVENT_WRITTEN (tr_env d) t (event_id e)) (sink_store d t) (Some TRACKING_SEEN_TTL_SECONDS))
     (\<lambda>written. if written = [] then ret () else sink_notify d t (length written))"
subsection \<open>From the ingest to the rows\<close>

lemma settleClaims_run: "settleClaims f w = (Inr (), snd (f w))"
  by (auto simp: settleClaims_def rescue_def andThen_def split: prod.splits sum.splits)

text \<open>The ingest claims as the consumers do. When the dedup store answers, a batch is published as \<open>onceEach\<close> would run
  the publish: the events whose marker was won, their markers kept for a day after it and given back when it
  fails, so that the batch can be sent again; the error itself is swallowed. When the store does not answer the
  whole batch is published.\<close>

theorem ingest_claims_as_consumers_do:
  assumes "dto \<noteq> []"
  shows "case do_claimMany (tr_dedup d) (map (seen_key d t) dto) TRACKING_CLAIM_TTL_SECONDS owner w of
      (Inr _, _) \<Rightarrow> ingest d owner t dto w
        = (Inr (), snd (onceEach (tr_dedup d) owner dto (seen_key d t) (publish_tracking d t (tr_now d w)) (Some TRACKING_SEEN_TTL_SECONDS) w))
    | (Inl _, w1) \<Rightarrow> fst (ingest d owner t dto w) = Inr ()
        \<and> (\<exists>settle. snd (ingest d owner t dto w) = snd (settle (snd (publish_tracking d t (tr_now d w) dto w1)))
             \<and> (settle = do_releaseMany (tr_dedup d) [] owner \<or> settle = do_extendMany (tr_dedup d) [] TRACKING_SEEN_TTL_SECONDS owner))"
proof -
  obtain claims w1 where c: "do_claimMany (tr_dedup d) (map (seen_key d t) dto) TRACKING_CLAIM_TTL_SECONDS owner w = (claims, w1)" by fastforce
  have ttl: "TRACKING_CLAIM_TTL_SECONDS = CONSUMER_CLAIM_TTL_SECONDS"
    by (simp add: TRACKING_CLAIM_TTL_SECONDS_def CONSUMER_CLAIM_TTL_SECONDS_def)
  have seen: "dropAlreadySeen d dto t owner w
      = (case claims of Inl e \<Rightarrow> (Inr (dto, []), w1) | Inr bs \<Rightarrow> (Inr (pick dto bs, pick (map (seen_key d t) dto) bs), w1))"
    using c by (auto simp: dropAlreadySeen_def Let_def rescue_def andThen_def split: sum.splits)
  show ?thesis
  proof (cases claims)
    case (Inl e)
    then show ?thesis using assms(1) c seen
      by (cases "publish_tracking d t (tr_now d w) dto w1"; cases "fst (publish_tracking d t (tr_now d w) dto w1)")
        (auto simp: ingest_def andThen_def settleClaims_run)
  next
    case (Inr bs)
    then show ?thesis using assms(1) c seen
      by (cases "publish_tracking d t (tr_now d w) (pick dto bs) w1"; cases "fst (publish_tracking d t (tr_now d w) (pick dto bs) w1)")
        (auto simp: ingest_def andThen_def settleClaims_run onceEach_def Let_def ttl [symmetric])
  qed
qed

text \<open>What the ingest publishes, the consumer of that tenant takes.\<close>

lemma enrich_props:
  "js_prop (enrich t ts e) ''tenantId'' = Some (JStr t)" "js_prop (enrich t ts e) ''eventId'' = Some (JStr (td_eventId e))"
  by (auto simp: enrich_def js_prop_def split: option.splits)

lemma enriched_accepted:
  assumes "\<forall>e \<in> set es. td_eventId e \<noteq> []"
  shows "with_id (own_events t (map (enrich t ts) es)) = map (enrich t ts) es" "event_id (enrich t ts e) = td_eventId e"
  using assms by (simp_all add: with_id_def own_events_def enrich_props falsy_def filter_map o_def event_id_def filter_id_conv)

lemma enriched_row:
  "js_prop (tracking_row stringify (enrich t ts e)) column =
     (if column = ''event_id'' then Some (JStr (td_eventId e)) else if column = ''event_name'' then Some (JStr (td_eventName e))
      else if column = ''anonymous_id'' then Some (JStr (td_anonymousId e))
      else if column = ''user_id'' then Some (JStr (option_or (td_userId e) []))
      else if column = ''session_id'' then Some (JStr (td_sessionId e)) else if column = ''page'' then Some (JStr (td_page e))
      else if column = ''referrer'' then Some (JStr (option_or (td_referrer e) []))
      else if column = ''user_agent'' then Some (JStr (option_or (td_userAgent e) []))
      else if column = ''screen'' then Some (JStr (option_or (td_screen e) []))
      else if column = ''props'' then Some (JStr (stringify (JObj (option_or (td_props e) []))))
      else if column = ''timestamp'' then Some (JNum (td_timestamp e)) else None)"
proof -
  have u: "js_prop (enrich t ts e) ''userId'' = map_option JStr (td_userId e)"
    by (auto simp: enrich_def js_prop_def split: option.splits)
  have f: "js_prop (enrich t ts e) ''eventName'' = Some (JStr (td_eventName e))"
    "js_prop (enrich t ts e) ''anonymousId'' = Some (JStr (td_anonymousId e))"
    "js_prop (enrich t ts e) ''sessionId'' = Some (JStr (td_sessionId e))" "js_prop (enrich t ts e) ''page'' = Some (JStr (td_page e))"
    "js_prop (enrich t ts e) ''referrer'' = Some (JStr (option_or (td_referrer e) []))"
    "js_prop (enrich t ts e) ''userAgent'' = Some (JStr (option_or (td_userAgent e) []))"
    "js_prop (enrich t ts e) ''screen'' = Some (JStr (option_or (td_screen e) []))"
    "js_prop (enrich t ts e) ''props'' = Some (JObj (option_or (td_props e) []))"
    "js_prop (enrich t ts e) ''timestamp'' = Some (JNum (td_timestamp e))"
    by (auto simp: enrich_def js_prop_def split: option.splits)
  show ?thesis
    by (cases "td_userId e") (simp_all add: tracking_row_def row_field_def u f enrich_props, simp_all add: js_prop_def)
qed
text \<open>The events of a published batch, as the message carries them.\<close>

definition carried_events :: "msg_payload \<Rightarrow> (string \<times> json) list list" where
  "carried_events p =
     (case p of
        PayObj [(_, JArr vs)] \<Rightarrow> map (\<lambda>v. case v of JObj e \<Rightarrow> e | _ \<Rightarrow> []) vs
      | _ \<Rightarrow> [])"

lemma carried_enriched: "carried_events (fst (tracking_message t ts es)) = map (enrich t ts) es"
  by (simp add: carried_events_def tracking_message_def o_def)

text \<open>The row an event as sent calls for, column by column.\<close>

definition row_as_sent :: "(json \<Rightarrow> string) \<Rightarrow> (string \<times> json) list \<Rightarrow> track_event_dto \<Rightarrow> bool" where
  "row_as_sent stringify row e \<longleftrightarrow> (\<forall>column. js_prop row column =
     map_of [(''event_id'', JStr (td_eventId e)), (''event_name'', JStr (td_eventName e)),
       (''anonymous_id'', JStr (td_anonymousId e)),
       (''user_id'', JStr (case td_userId e of Some u \<Rightarrow> u | None \<Rightarrow> [])),
       (''session_id'', JStr (td_sessionId e)), (''page'', JStr (td_page e)),
       (''referrer'', JStr (case td_referrer e of Some r \<Rightarrow> r | None \<Rightarrow> [])),
       (''user_agent'', JStr (case td_userAgent e of Some u \<Rightarrow> u | None \<Rightarrow> [])),
       (''screen'', JStr (case td_screen e of Some s \<Rightarrow> s | None \<Rightarrow> [])),
       (''props'', JStr (stringify (JObj (case td_props e of Some ps \<Rightarrow> ps | None \<Rightarrow> [])))),
       (''timestamp'', JNum (td_timestamp e))] column)"

lemma tracking_row_as_sent: "row_as_sent stringify (tracking_row stringify (enrich t ts e)) e"
  unfolding row_as_sent_def enriched_row
  by (cases "td_userId e"; cases "td_referrer e"; cases "td_userAgent e"; cases "td_screen e"; cases "td_props e") simp_all

text \<open>C16: A tracked event becomes one row. The consumer takes every event of a batch the ingest published for its
  tenant; of those, it inserts for the tenant one row for each whose marker it wins, and no other, and the row
  holds exactly the eleven columns of the event as it came in, an absent text as the empty one and absent
  properties as none; when the insert fails it gives the markers back and throws, so the batch is redelivered,
  and when it succeeds it keeps them.\<close>

theorem tracked_events_become_rows:
  assumes ids: "\<forall>e \<in> set es. td_eventId e \<noteq> []" and batch: "batch = carried_events (fst (tracking_message t ts es))" "es \<noteq> []"
    and keys: "keys = map (\<lambda>e. marker_key TRACKING_EVENT_WRITTEN (tr_env d) t (td_eventId e)) es"
    and claims: "do_claimMany (tr_dedup d) keys CONSUMER_CLAIM_TTL_SECONDS owner w = (Inr bs, w1)"
  shows "(pick es bs = [] \<longrightarrow> tracking_handle d owner t batch w = (Inr (), w1))
    \<and> (pick es bs \<noteq> [] \<longrightarrow> (\<exists>rows. list_all2 (row_as_sent (tr_stringify d)) rows (pick es bs)
        \<and> (case tr_insert d t TRACKING_TABLE rows w1 of
            (Inl err, w2) \<Rightarrow> tracking_handle d owner t batch w
              = (Inl (as_error (tr_text d) err), snd (do_releaseMany (tr_dedup d) (pick keys bs) owner w2))
          | (Inr _, w2) \<Rightarrow> tracking_handle d owner t batch w
              = sink_notify d t (length (pick es bs)) (snd (do_extendMany (tr_dedup d) (pick keys bs) TRACKING_SEEN_TTL_SECONDS owner w2)))))"
proof -
  have taken: "with_id (own_events t batch) = map (enrich t ts) es"
    unfolding batch(1) carried_enriched by (rule enriched_accepted(1) [OF ids])
  have k: "map (\<lambda>e. marker_key TRACKING_EVENT_WRITTEN (tr_env d) t (event_id e)) (map (enrich t ts) es) = keys"
    unfolding keys by (simp add: enriched_accepted(2) [OF ids] o_def)
  have p: "pick (map f xs) cs = map f (pick xs cs)" for f :: "track_event_dto \<Rightarrow> (string \<times> json) list" and xs cs
    by (induction xs cs rule: pick.induct) simp_all
  have each: "onceEach (tr_dedup d) owner (with_id (own_events t batch))
      (\<lambda>e. marker_key TRACKING_EVENT_WRITTEN (tr_env d) t (event_id e)) (sink_store d t) (Some TRACKING_SEEN_TTL_SECONDS) w
    = (if pick es bs = [] then (Inr [], w1)
       else case sink_store d t (map (enrich t ts) (pick es bs)) w1 of
           (Inl e, w2) \<Rightarrow> (Inl e, snd (do_releaseMany (tr_dedup d) (pick keys bs) owner w2))
         | (Inr _, w2) \<Rightarrow> (Inr (map (enrich t ts) (pick es bs)),
             snd (do_extendMany (tr_dedup d) (pick keys bs) TRACKING_SEEN_TTL_SECONDS owner w2)))"
    unfolding taken onceEach_def Let_def k using batch(2) claims by (simp add: p split: sum.splits prod.splits)
  define rows where "rows = map (tracking_row (tr_stringify d)) (map (enrich t ts) (pick es bs))"
  obtain r w2 where ins: "tr_insert d t TRACKING_TABLE rows w1 = (r, w2)" by fastforce
  have store: "sink_store d t (map (enrich t ts) (pick es bs)) w1
      = (case r of Inl err \<Rightarrow> (Inl (as_error (tr_text d) err), w2) | Inr _ \<Rightarrow> (Inr (), w2))" if "pick es bs \<noteq> []"
    using that ins rows_def by (auto simp: sink_store_def insertEvents_def rescue_def split: sum.splits)
  have sent: "list_all2 (row_as_sent (tr_stringify d)) rows (pick es bs)"
    unfolding rows_def by (simp add: list_all2_map1 list.rel_refl tracking_row_as_sent)
  have "case tr_insert d t TRACKING_TABLE rows w1 of
      (Inl err, w2) \<Rightarrow> tracking_handle d owner t batch w
        = (Inl (as_error (tr_text d) err), snd (do_releaseMany (tr_dedup d) (pick keys bs) owner w2))
    | (Inr _, w2) \<Rightarrow> tracking_handle d owner t batch w
        = sink_notify d t (length (pick es bs)) (snd (do_extendMany (tr_dedup d) (pick keys bs) TRACKING_SEEN_TTL_SECONDS owner w2))"
    if "pick es bs \<noteq> []"
    using each store [OF that] that ins by (auto simp: tracking_handle_def andThen_def split: sum.splits)
  then show ?thesis using each sent by (auto simp: tracking_handle_def andThen_def)
qed

definition toy_tracking :: "(string \<times> json) list list tracking_deps" where
  "toy_tracking =
     \<lparr>tr_find = (\<lambda>t w. (Inr (Some \<lparr>tr_id = t, tr_name = t, tr_status = TenantActive, tr_selfSignup = False\<rparr>), w)),
      tr_publish = (\<lambda>topic p opts w. (Inr (), w)),
      tr_dedup = \<lparr>do_claimMany = (\<lambda>ks ttl owner w. (Inr (map (\<lambda>_. True) ks), w)), do_releaseMany = (\<lambda>ks owner w. (Inr [], w)),
        do_extendMany = (\<lambda>ks ttl owner w. (Inr [], w))\<rparr>,
      tr_env = (\<lambda>_. None), tr_insert = (\<lambda>t table rows w. (Inr (), w @ rows)),
      tr_publishToTenant = (\<lambda>t event body w. (Inr (), w)), tr_now = (\<lambda>_. 0), tr_stringify = (\<lambda>_. ''{}''), tr_text = (\<lambda>_. [])\<rparr>"

definition toy_event :: track_event_dto where
  "toy_event = \<lparr>td_eventId = ''c0ffee'', td_eventName = ''page.view'', td_anonymousId = ''a'', td_userId = None, td_sessionId = ''s'',
     td_page = ''/'', td_referrer = None, td_userAgent = None, td_screen = None, td_props = None, td_timestamp = 1735689600000\<rparr>"

lemma ingest_claims_as_consumers_do_witness:
  "fst (ingest toy_tracking ''o'' ''acme'' [toy_event] []) = Inr ()"
proof -
  have "do_claimMany (tr_dedup toy_tracking) ks ttl o' w = (Inr (map (\<lambda>_. True) ks), w)" for ks ttl o' w
    by (simp add: toy_tracking_def)
  then show ?thesis using ingest_claims_as_consumers_do [of "[toy_event]" toy_tracking "''o''" "''acme''" "[]"] by simp
qed

lemma tracked_events_become_rows_witness:
  "\<exists>row. row_as_sent (\<lambda>_. ''{}'') row toy_event
     \<and> tracking_handle toy_tracking ''o'' ''acme'' (carried_events (fst (tracking_message ''acme'' 0 [toy_event]))) [] = (Inr (), [row])"
proof -
  let ?keys = "map (\<lambda>e. marker_key TRACKING_EVENT_WRITTEN (tr_env toy_tracking) ''acme'' (td_eventId e)) [toy_event]"
  have ids: "\<forall>e \<in> set [toy_event]. td_eventId e \<noteq> []" by (simp add: toy_event_def)
  have claims: "do_claimMany (tr_dedup toy_tracking) ?keys CONSUMER_CLAIM_TTL_SECONDS ''o'' [] = (Inr [True], [])"
    by (simp add: toy_tracking_def)
  have store: "tr_insert toy_tracking ''acme'' TRACKING_TABLE rows [] = (Inr (), rows)" for rows
    by (simp add: toy_tracking_def)
  obtain rows where rows: "list_all2 (row_as_sent (tr_stringify toy_tracking)) rows [toy_event]"
    and ran: "tracking_handle toy_tracking ''o'' ''acme'' (carried_events (fst (tracking_message ''acme'' 0 [toy_event]))) []
      = sink_notify toy_tracking ''acme'' 1 (snd (do_extendMany (tr_dedup toy_tracking) (pick ?keys [True]) TRACKING_SEEN_TTL_SECONDS ''o'' rows))"
    using tracked_events_become_rows [OF ids refl _ refl claims, of 0] by (auto simp: store)
  obtain row where "rows = [row]" using rows by (auto simp: list_all2_Cons2)
  then show ?thesis using rows ran by (simp add: sink_notify_def rescue_def) (simp add: toy_tracking_def)
qed

text \<open>Ingest is open to active tenants only. A batch is taken only inside a tenant that the directory knows and that is
  active; an unknown or suspended tenant, a request without one, and a directory that cannot be read are each
  refused with their own error before anything is claimed or published, and nothing that goes wrong after that
  reaches the caller.\<close>

theorem ingest_open_to_active_tenants:
  "track d owner slot dto w =
     (case requireTenant slot of
        Inl e \<Rightarrow> (Inl e, w)
      | Inr t \<Rightarrow>
          (case tr_find d t w of
             (Inl e, w1) \<Rightarrow> (Inl (if is_app_error e then e else app_error_cause SERVICE_UNAVAILABLE e), w1)
           | (Inr None, w1) \<Rightarrow> (Inl (app_error TENANT_NOT_FOUND), w1)
           | (Inr (Some found), w1) \<Rightarrow>
               if tr_status found = TenantActive then (Inr (length dto), snd (ingest d owner t dto w1))
               else (Inl (app_error TENANT_INACTIVE), w1)))"
  by (auto simp: track_def assertAccepting_def assertTenantActive_def andThen_def rescue_def
      split: sum.splits prod.splits option.splits)

end
