(* ===== verification/Gateway.thy ===== *)
theory Gateway
  imports Tenancy
begin

text \<open>
  The socket gateway \<open>modules/websocket/gateways/notification.gateway.ts\<close> and the pushes of the realtime
  port (\<open>infrastructure/realtime/adapters\<close>). The handlers run up to their next \<open>await\<close>; what happens between
  them is any sequence of steps: sockets come and go, the verifier answers, timers fire, a sweep
  checks a socket again. Of Socket.IO the model takes what it documents: a join and a leave change the
  rooms of a connected socket, a disconnect empties them and runs the disconnect handler, and an emit to rooms
  reaches the connected sockets in them, each once.
\<close>

subsection \<open>Sockets\<close>

text \<open>How far \<open>handleConnection\<close> is: the token is being verified, the rooms are being joined, or it returned.\<close>

datatype ws_phase = Verifying | Joining principal | Settled

record ws_socket =
  ws_token :: string
  ws_connected :: bool
  ws_phase :: ws_phase
  ws_session :: "principal option"
  ws_rooms :: "string list"

record gateway =
  gw_sockets :: "nat \<Rightarrow> ws_socket option"
  gw_timers :: "nat \<Rightarrow> rat option"
  gw_users :: "string \<Rightarrow> nat list"

definition set_socket :: "nat \<Rightarrow> ws_socket \<Rightarrow> gateway \<Rightarrow> gateway" where
  "set_socket i s g = g\<lparr>gw_sockets := (gw_sockets g)(i \<mapsto> s)\<rparr>"

definition socket_user_key :: "principal \<Rightarrow> string option" where
  "socket_user_key p = (case userRoom (p_tenantId p) (p_userId p) of Inr k \<Rightarrow> Some k | Inl _ \<Rightarrow> None)"

fun all_rooms :: "(key_error + string) list \<Rightarrow> key_error + string list" where
  "all_rooms [] = Inr []"
| "all_rooms (r # rs) = (case r of Inl e \<Rightarrow> Inl e | Inr k \<Rightarrow> map_sum id ((#) k) (all_rooms rs))"

definition rooms_of :: "principal \<Rightarrow> key_error + string list" where
  "rooms_of p =
     all_rooms (tenantRoom (p_tenantId p) # userRoom (p_tenantId p) (p_userId p)
       # map (roleRoom (p_tenantId p)) (p_roles p))"

subsection \<open>The handlers\<close>

definition handleDisconnect :: "nat \<Rightarrow> ws_socket \<Rightarrow> gateway \<Rightarrow> gateway" where
  "handleDisconnect i s g =
     (let g1 = g\<lparr>gw_timers := (gw_timers g)(i := None)\<rparr> in
      case Option.bind (ws_session s) socket_user_key of
        None \<Rightarrow> g1
      | Some key \<Rightarrow> g1\<lparr>gw_users := (gw_users g1)(key := filter (\<lambda>j. j \<noteq> i) (gw_users g1 key))\<rparr>)"

text \<open>\<open>client.disconnect(true)\<close>, or the client goes.\<close>

definition ws_disconnect :: "nat \<Rightarrow> gateway \<Rightarrow> gateway" where
  "ws_disconnect i g =
     (case gw_sockets g i of
        None \<Rightarrow> g
      | Some s \<Rightarrow>
          if \<not> ws_connected s then g
          else handleDisconnect i s (set_socket i (s\<lparr>ws_connected := False, ws_rooms := []\<rparr>) g))"

definition handshake_token :: "string option \<Rightarrow> string option \<Rightarrow> string option" where
  "handshake_token auth header = nonempty (case auth of Some t \<Rightarrow> Some t | None \<Rightarrow> bearerFromHeader header)"

text \<open>\<open>handleConnection\<close> up to its first \<open>await\<close>, after the token was verified, and after the join.\<close>

definition connect_start :: "nat \<Rightarrow> string option \<Rightarrow> string option \<Rightarrow> gateway \<Rightarrow> gateway" where
  "connect_start i auth header g =
     (let s = \<lparr>ws_token = option_or (handshake_token auth header) [], ws_connected = True, ws_phase = Verifying,
               ws_session = None, ws_rooms = []\<rparr>;
          g1 = set_socket i s g in
      if handshake_token auth header = None then ws_disconnect i (set_socket i (s\<lparr>ws_phase := Settled\<rparr>) g) else g1)"

definition connect_verified :: "nat \<Rightarrow> thrown + principal \<Rightarrow> gateway \<Rightarrow> gateway" where
  "connect_verified i answer g =
     (case gw_sockets g i of
        None \<Rightarrow> g
      | Some s \<Rightarrow>
          (case answer of
             Inl _ \<Rightarrow> ws_disconnect i (set_socket i (s\<lparr>ws_phase := Settled\<rparr>) g)
           | Inr p \<Rightarrow>
               if \<not> ws_connected s then set_socket i (s\<lparr>ws_phase := Settled\<rparr>) g
               else (case rooms_of p of
                   Inl _ \<Rightarrow> set_socket i (s\<lparr>ws_phase := Settled, ws_session := Some p\<rparr>) g
                 | Inr rooms \<Rightarrow> set_socket i (s\<lparr>ws_phase := Joining p, ws_session := Some p, ws_rooms := rooms\<rparr>) g)))"

text \<open>\<open>delay <= 0\<close> closes the socket, else a timer is set.\<close>

definition armExpiry :: "nat \<Rightarrow> rat \<Rightarrow> rat \<Rightarrow> gateway \<Rightarrow> gateway" where
  "armExpiry i expiry now g =
     (if expiry * 1000 - now \<le> 0 then ws_disconnect i g else g\<lparr>gw_timers := (gw_timers g)(i := Some expiry)\<rparr>)"

definition connect_joined :: "nat \<Rightarrow> principal \<Rightarrow> rat \<Rightarrow> gateway \<Rightarrow> gateway" where
  "connect_joined i p now g =
     (case gw_sockets g i of
        None \<Rightarrow> g
      | Some s \<Rightarrow>
          let g1 = set_socket i (s\<lparr>ws_phase := Settled\<rparr>) g in
          if \<not> ws_connected s then g1
          else
            (let g2 = armExpiry i (p_exp p) now g1 in
             case socket_user_key p of
               None \<Rightarrow> g2
             | Some key \<Rightarrow> g2\<lparr>gw_users := (gw_users g2)(key := List.insert i (gw_users g2 key))\<rparr>))"

definition expiry_fires :: "nat \<Rightarrow> rat \<Rightarrow> rat \<Rightarrow> gateway \<Rightarrow> gateway" where
  "expiry_fires i expiry now g =
     (let g1 = g\<lparr>gw_timers := (gw_timers g)(i := None)\<rparr> in
      if expiry * 1000 \<le> now then ws_disconnect i g1 else armExpiry i expiry now g1)"

subsection \<open>Sweeps\<close>

definition endsSession :: "thrown \<Rightarrow> bool" where
  "endsSession err =
     (case err of
        AppError c _ _ _ _ \<Rightarrow> starts_with ''AUTH_'' (error_code_text c) \<or> c = TENANT_INACTIVE
      | _ \<Rightarrow> False)"

text \<open>The rooms of a member whose roles changed: those of lost roles are left, those of new roles joined. A room
  name that cannot be built throws; the names were built when the socket joined.\<close>

definition role_rooms :: "string \<Rightarrow> string list \<Rightarrow> string list" where
  "role_rooms t roles = concat (map (\<lambda>r. case roleRoom t r of Inr k \<Rightarrow> [k] | Inl _ \<Rightarrow> []) roles)"

definition syncRoleRooms :: "nat \<Rightarrow> ws_socket \<Rightarrow> principal \<Rightarrow> principal \<Rightarrow> gateway \<Rightarrow> gateway" where
  "syncRoleRooms i s before current g =
     (let lost = filter (\<lambda>r. r \<notin> set (p_roles current)) (p_roles before);
          added = filter (\<lambda>r. r \<notin> set (p_roles before)) (p_roles current);
          gone = role_rooms (p_tenantId current) lost;
          rooms = (if ws_connected s then filter (\<lambda>k. k \<notin> set gone) (ws_rooms s) @ role_rooms (p_tenantId current) added
                   else ws_rooms s) in
      set_socket i (s\<lparr>ws_rooms := rooms, ws_session := Some current\<rparr>) g)"

text \<open>One socket of a sweep; \<open>answer\<close> is what the verifier says of its token now.\<close>

definition revalidate_socket :: "nat \<Rightarrow> thrown + principal \<Rightarrow> gateway \<Rightarrow> gateway" where
  "revalidate_socket i answer g =
     (case gw_sockets g i of
        None \<Rightarrow> g
      | Some s \<Rightarrow>
          (case ws_session s of
             None \<Rightarrow> ws_disconnect i g
           | Some before \<Rightarrow>
               (case answer of
                  Inl err \<Rightarrow> if endsSession err then ws_disconnect i g else g
                | Inr current \<Rightarrow> syncRoleRooms i s before current g)))"

definition getOnlineUserCount :: "string list \<Rightarrow> gateway \<Rightarrow> nat" where
  "getOnlineUserCount known g = length (filter (\<lambda>k. gw_users g k \<noteq> []) (remdups known))"

subsection \<open>Pushes\<close>

definition emit_to :: "string list \<Rightarrow> gateway \<Rightarrow> nat set" where
  "emit_to rooms g = {i. \<exists>s. gw_sockets g i = Some s \<and> ws_connected s \<and> (\<exists>k \<in> set rooms. k \<in> set (ws_rooms s))}"

definition publishToUser :: "string \<Rightarrow> string \<Rightarrow> gateway \<Rightarrow> key_error + nat set" where
  "publishToUser t u g = (case userRoom t u of Inl e \<Rightarrow> Inl e | Inr k \<Rightarrow> Inr (emit_to [k] g))"

definition publishToRoles :: "string \<Rightarrow> string list \<Rightarrow> gateway \<Rightarrow> key_error + nat set" where
  "publishToRoles t roles g =
     (case all_rooms (map (roleRoom t) roles) of
        Inl e \<Rightarrow> Inl e
      | Inr rooms \<Rightarrow> Inr (if rooms = [] then {} else emit_to rooms g))"

definition publishToTenant :: "string \<Rightarrow> gateway \<Rightarrow> key_error + nat set" where
  "publishToTenant t g = (case tenantRoom t of Inl e \<Rightarrow> Inl e | Inr k \<Rightarrow> Inr (emit_to [k] g))"

subsection \<open>What may happen\<close>

text \<open>\<open>admits token p\<close>: the verifier may answer \<open>p\<close> for the token. It may refuse any token at any moment.\<close>

definition may_answer :: "(string \<Rightarrow> principal \<Rightarrow> bool) \<Rightarrow> ws_socket \<Rightarrow> thrown + principal \<Rightarrow> bool" where
  "may_answer admits s answer \<longleftrightarrow> (\<forall>p. answer = Inr p \<longrightarrow> admits (ws_token s) p)"

inductive gw_step :: "(string \<Rightarrow> principal \<Rightarrow> bool) \<Rightarrow> gateway \<Rightarrow> gateway \<Rightarrow> bool" for admits where
  arrives: "gw_sockets g i = None \<Longrightarrow> gw_step admits g (connect_start i auth header g)"
| verified: "gw_sockets g i = Some s \<Longrightarrow> ws_phase s = Verifying \<Longrightarrow> may_answer admits s answer \<Longrightarrow>
    gw_step admits g (connect_verified i answer g)"
| joined: "gw_sockets g i = Some s \<Longrightarrow> ws_phase s = Joining p \<Longrightarrow> gw_step admits g (connect_joined i p now g)"
| leaves: "gw_step admits g (ws_disconnect i g)"
| expires: "gw_timers g i = Some expiry \<Longrightarrow> gw_step admits g (expiry_fires i expiry now g)"
| swept: "gw_sockets g i = Some s \<Longrightarrow> ws_connected s \<Longrightarrow> may_answer admits s answer \<Longrightarrow>
    gw_step admits g (revalidate_socket i answer g)"

inductive_cases gw_stepE: "gw_step admits g g'"

definition no_sockets :: gateway where
  "no_sockets = \<lparr>gw_sockets = \<lambda>_. None, gw_timers = \<lambda>_. None, gw_users = \<lambda>_. []\<rparr>"

definition gw_reachable :: "(string \<Rightarrow> principal \<Rightarrow> bool) \<Rightarrow> gateway \<Rightarrow> bool" where
  "gw_reachable admits g \<longleftrightarrow> (gw_step admits)\<^sup>*\<^sup>* no_sockets g"

text \<open>A token belongs to one account of one tenant, with names a room can be built from.\<close>

definition tokens_name_accounts :: "(string \<Rightarrow> principal \<Rightarrow> bool) \<Rightarrow> bool" where
  "tokens_name_accounts admits \<longleftrightarrow>
     (\<forall>tok p. admits tok p \<longrightarrow> isTenantId (p_tenantId p) \<and> p_userId p \<noteq> [] \<and> [] \<notin> set (p_roles p))
     \<and> (\<forall>tok p q. admits tok p \<longrightarrow> admits tok q \<longrightarrow> p_tenantId p = p_tenantId q \<and> p_userId p = p_userId q \<and> p_exp p = p_exp q)"

subsection \<open>Rooms are apart\<close>

lemma room_parts:
  assumes "isTenantId t"
  obtains x where "escapeKeyId t = Inr x" "tenantRoom t = Inr (''t.'' @ x)"
    "\<And>u y. escapeKeyId u = Inr y \<Longrightarrow> userRoom t u = Inr (''t.'' @ x @ '':user:'' @ y)"
    "\<And>r y. escapeKeyId r = Inr y \<Longrightarrow> roleRoom t r = Inr (''t.'' @ x @ '':role:'' @ y)"
proof -
  obtain x where "escapeKeyId t = Inr x"
    using assms by (auto simp: escapeKeyId_eq isTenantId_def split: list.splits)
  then show ?thesis using assms
    by (intro that) (auto simp: tenantRoom_def userRoom_def roleRoom_def member_room_def tenantScope_def)
qed

lemma escaped: "u \<noteq> [] \<Longrightarrow> \<exists>y. escapeKeyId u = Inr y \<and> CHR '':'' \<notin> set y"
  using escapeKeyId_chars [of u _ "CHR '':''"] by (fastforce simp: escapeKeyId_eq is_key_char_def is_alnum_def is_upper_def is_lower_def is_digit_def)

lemma colon_free_room:
  "CHR '':'' \<notin> set x \<Longrightarrow> split_on CHR '':'' (''t.'' @ x) = [''t.'' @ x]"
  "CHR '':'' \<notin> set x \<Longrightarrow> CHR '':'' \<notin> set y \<Longrightarrow> split_on CHR '':'' (''t.'' @ x @ '':user:'' @ y) = [''t.'' @ x, ''user'', y]"
  "CHR '':'' \<notin> set x \<Longrightarrow> CHR '':'' \<notin> set y \<Longrightarrow> split_on CHR '':'' (''t.'' @ x @ '':role:'' @ y) = [''t.'' @ x, ''role'', y]"
  using split_on_single [of "CHR '':''" "''t.'' @ x"] split_on_prefix [of "CHR '':''" "''t.'' @ x" "''user:'' @ y"]
    split_on_prefix [of "CHR '':''" "''t.'' @ x" "''role:'' @ y"] split_on_single [of "CHR '':''" y]
    split_on_prefix [of "CHR '':''" "''user''" y] split_on_prefix [of "CHR '':''" "''role''" y]
  by simp_all

lemma room_split:
  assumes "isTenantId t"
  obtains x where "escapeKeyId t = Inr x" "\<And>k. tenantRoom t = Inr k \<Longrightarrow> split_on CHR '':'' k = [''t.'' @ x]"
    "\<And>u k. u \<noteq> [] \<Longrightarrow> userRoom t u = Inr k \<Longrightarrow> \<exists>y. escapeKeyId u = Inr y \<and> split_on CHR '':'' k = [''t.'' @ x, ''user'', y]"
    "\<And>r k. r \<noteq> [] \<Longrightarrow> roleRoom t r = Inr k \<Longrightarrow> \<exists>y. escapeKeyId r = Inr y \<and> split_on CHR '':'' k = [''t.'' @ x, ''role'', y]"
proof -
  obtain x where x: "escapeKeyId t = Inr x" "tenantRoom t = Inr (''t.'' @ x)"
    "\<And>u y. escapeKeyId u = Inr y \<Longrightarrow> userRoom t u = Inr (''t.'' @ x @ '':user:'' @ y)"
    "\<And>r y. escapeKeyId r = Inr y \<Longrightarrow> roleRoom t r = Inr (''t.'' @ x @ '':role:'' @ y)"
    by (rule room_parts [OF assms]) blast
  have "t \<noteq> []" using assms by (simp add: isTenantId_def split: list.splits)
  then have c: "CHR '':'' \<notin> set x" using escaped [of t] x(1) by auto
  show ?thesis
  proof (rule that [OF x(1)])
    fix u k assume "u \<noteq> []" "userRoom t u = Inr k"
    then show "\<exists>y. escapeKeyId u = Inr y \<and> split_on CHR '':'' k = [''t.'' @ x, ''user'', y]"
      using escaped [of u] x(3) colon_free_room(2) [OF c] by auto
  next
    fix r k assume "r \<noteq> []" "roleRoom t r = Inr k"
    then show "\<exists>y. escapeKeyId r = Inr y \<and> split_on CHR '':'' k = [''t.'' @ x, ''role'', y]"
      using escaped [of r] x(4) colon_free_room(3) [OF c] by auto
  qed (use x(2) colon_free_room(1) [OF c] in simp)
qed

text \<open>The names that may share a room: none but equal ones.\<close>

lemma rooms_apart:
  assumes "isTenantId t" "isTenantId t'"
  shows "tenantRoom t = Inr k \<Longrightarrow> tenantRoom t' = Inr k \<Longrightarrow> t = t'"
    and "u \<noteq> [] \<Longrightarrow> u' \<noteq> [] \<Longrightarrow> userRoom t u = Inr k \<Longrightarrow> userRoom t' u' = Inr k \<Longrightarrow> t = t' \<and> u = u'"
    and "r \<noteq> [] \<Longrightarrow> r' \<noteq> [] \<Longrightarrow> roleRoom t r = Inr k \<Longrightarrow> roleRoom t' r' = Inr k \<Longrightarrow> t = t' \<and> r = r'"
    and "u \<noteq> [] \<Longrightarrow> r \<noteq> [] \<Longrightarrow> userRoom t u = Inr k \<Longrightarrow> roleRoom t' r \<noteq> Inr k"
    and "u \<noteq> [] \<Longrightarrow> userRoom t u = Inr k \<Longrightarrow> tenantRoom t' \<noteq> Inr k"
    and "r \<noteq> [] \<Longrightarrow> roleRoom t r = Inr k \<Longrightarrow> tenantRoom t' \<noteq> Inr k"
proof -
  obtain x where x: "escapeKeyId t = Inr x" "\<And>k. tenantRoom t = Inr k \<Longrightarrow> split_on CHR '':'' k = [''t.'' @ x]"
    "\<And>u k. u \<noteq> [] \<Longrightarrow> userRoom t u = Inr k \<Longrightarrow> \<exists>y. escapeKeyId u = Inr y \<and> split_on CHR '':'' k = [''t.'' @ x, ''user'', y]"
    "\<And>r k. r \<noteq> [] \<Longrightarrow> roleRoom t r = Inr k \<Longrightarrow> \<exists>y. escapeKeyId r = Inr y \<and> split_on CHR '':'' k = [''t.'' @ x, ''role'', y]"
    by (rule room_split [OF assms(1)]) blast
  obtain z where z: "escapeKeyId t' = Inr z" "\<And>k. tenantRoom t' = Inr k \<Longrightarrow> split_on CHR '':'' k = [''t.'' @ z]"
    "\<And>u k. u \<noteq> [] \<Longrightarrow> userRoom t' u = Inr k \<Longrightarrow> \<exists>y. escapeKeyId u = Inr y \<and> split_on CHR '':'' k = [''t.'' @ z, ''user'', y]"
    "\<And>r k. r \<noteq> [] \<Longrightarrow> roleRoom t' r = Inr k \<Longrightarrow> \<exists>y. escapeKeyId r = Inr y \<and> split_on CHR '':'' k = [''t.'' @ z, ''role'', y]"
    by (rule room_split [OF assms(2)]) blast
  have inj: "x = z \<Longrightarrow> t = t'" using x(1) z(1) escapeKeyId_inj by blast
  show "tenantRoom t = Inr k \<Longrightarrow> tenantRoom t' = Inr k \<Longrightarrow> t = t'" using x(2) z(2) inj by fastforce
  show "u \<noteq> [] \<Longrightarrow> u' \<noteq> [] \<Longrightarrow> userRoom t u = Inr k \<Longrightarrow> userRoom t' u' = Inr k \<Longrightarrow> t = t' \<and> u = u'"
    using x(3) [of u k] z(3) [of u' k] inj escapeKeyId_inj by auto
  show "r \<noteq> [] \<Longrightarrow> r' \<noteq> [] \<Longrightarrow> roleRoom t r = Inr k \<Longrightarrow> roleRoom t' r' = Inr k \<Longrightarrow> t = t' \<and> r = r'"
    using x(4) [of r k] z(4) [of r' k] inj escapeKeyId_inj by auto
  show "u \<noteq> [] \<Longrightarrow> r \<noteq> [] \<Longrightarrow> userRoom t u = Inr k \<Longrightarrow> roleRoom t' r \<noteq> Inr k"
    using x(3) [of u k] z(4) [of r k] by auto
  show "u \<noteq> [] \<Longrightarrow> userRoom t u = Inr k \<Longrightarrow> tenantRoom t' \<noteq> Inr k" using x(3) [of u k] z(2) [of k] by auto
  show "r \<noteq> [] \<Longrightarrow> roleRoom t r = Inr k \<Longrightarrow> tenantRoom t' \<noteq> Inr k" using x(4) [of r k] z(2) [of k] by auto
qed

subsection \<open>Every socket is in the rooms of its principal\<close>

definition room_set :: "principal \<Rightarrow> string set" where
  "room_set p = {k. tenantRoom (p_tenantId p) = Inr k \<or> userRoom (p_tenantId p) (p_userId p) = Inr k
     \<or> (\<exists>r \<in> set (p_roles p). roleRoom (p_tenantId p) r = Inr k)}"

text \<open>A socket with no session is in no room; one with a session is, while connected, in the rooms of a
  principal the verifier answered for its token; once its connection is set up, a timer is set at the
  expiry of that token.\<close>

definition socket_ok :: "(string \<Rightarrow> principal \<Rightarrow> bool) \<Rightarrow> rat option \<Rightarrow> ws_socket \<Rightarrow> bool" where
  "socket_ok admits timer s \<longleftrightarrow>
     (case ws_session s of
        None \<Rightarrow> ws_rooms s = [] \<and> (ws_phase s = Settled \<longrightarrow> \<not> ws_connected s)
      | Some p \<Rightarrow> admits (ws_token s) p \<and> ws_phase s \<noteq> Verifying
          \<and> (ws_connected s \<longrightarrow> set (ws_rooms s) = room_set p)
          \<and> (ws_connected s \<longrightarrow> ws_phase s = Settled \<longrightarrow> timer = Some (p_exp p)))
     \<and> (\<not> ws_connected s \<longrightarrow> ws_rooms s = [])
     \<and> (\<forall>q. ws_phase s = Joining q \<longrightarrow> admits (ws_token s) q \<and> ws_session s \<noteq> None)"

definition gateway_ok :: "(string \<Rightarrow> principal \<Rightarrow> bool) \<Rightarrow> gateway \<Rightarrow> bool" where
  "gateway_ok admits g \<longleftrightarrow> (\<forall>i s. gw_sockets g i = Some s \<longrightarrow> socket_ok admits (gw_timers g i) s)"

lemma gateway_okI:
  assumes "gateway_ok admits g" and "\<And>j. j \<noteq> i \<Longrightarrow> gw_sockets g' j = gw_sockets g j \<and> gw_timers g' j = gw_timers g j"
    and "\<And>s. gw_sockets g' i = Some s \<Longrightarrow> socket_ok admits (gw_timers g' i) s"
  shows "gateway_ok admits g'"
  using assms unfolding gateway_ok_def by metis

lemma disconnect_others:
  "j \<noteq> i \<Longrightarrow> gw_sockets (ws_disconnect i g) j = gw_sockets g j \<and> gw_timers (ws_disconnect i g) j = gw_timers g j"
  by (auto simp: ws_disconnect_def handleDisconnect_def set_socket_def Let_def split: option.splits)

lemma disconnect_self:
  "gw_sockets (ws_disconnect i g) i = map_option (\<lambda>s. if ws_connected s then s\<lparr>ws_connected := False, ws_rooms := []\<rparr> else s) (gw_sockets g i)"
  by (auto simp: ws_disconnect_def handleDisconnect_def set_socket_def Let_def split: option.splits)

text \<open>What a socket must satisfy for its disconnection to be fine.\<close>

definition socket_known :: "(string \<Rightarrow> principal \<Rightarrow> bool) \<Rightarrow> ws_socket \<Rightarrow> bool" where
  "socket_known admits s \<longleftrightarrow>
     (case ws_session s of None \<Rightarrow> True | Some p \<Rightarrow> admits (ws_token s) p \<and> ws_phase s \<noteq> Verifying)
     \<and> (\<not> ws_connected s \<longrightarrow> ws_rooms s = [])
     \<and> (\<forall>q. ws_phase s = Joining q \<longrightarrow> admits (ws_token s) q \<and> ws_session s \<noteq> None)"

lemma socket_ok_known: "socket_ok admits timer s \<Longrightarrow> socket_known admits s"
  by (auto simp: socket_ok_def socket_known_def split: option.splits)

lemma disconnected_ok: "socket_known admits s \<Longrightarrow> \<not> ws_connected s \<Longrightarrow> socket_ok admits timer s"
  by (auto simp: socket_ok_def socket_known_def split: option.splits)

lemma disconnect_ok:
  assumes "gateway_ok admits g" and "\<And>j. j \<noteq> i \<Longrightarrow> gw_sockets g' j = gw_sockets g j \<and> gw_timers g' j = gw_timers g j"
    and "\<And>s. gw_sockets g' i = Some s \<Longrightarrow> socket_known admits s"
  shows "gateway_ok admits (ws_disconnect i g')"
proof (rule gateway_okI [OF assms(1), of i])
  fix s assume "gw_sockets (ws_disconnect i g') i = Some s"
  then obtain s0 where s0: "gw_sockets g' i = Some s0" "s = (if ws_connected s0 then s0\<lparr>ws_connected := False, ws_rooms := []\<rparr> else s0)"
    by (auto simp: disconnect_self)
  have "socket_known admits s" "\<not> ws_connected s"
    using assms(3) [OF s0(1)] s0(2) by (auto simp: socket_known_def split: option.splits)
  then show "socket_ok admits (gw_timers (ws_disconnect i g') i) s" by (rule disconnected_ok)
qed (use assms(2) disconnect_others in metis)

lemma set_all_rooms: "all_rooms rs = Inr ks \<Longrightarrow> set ks = {k. Inr k \<in> set rs}"
  by (induction rs arbitrary: ks) (auto split: sum.splits simp: map_sum_def)

lemma set_rooms_of: "rooms_of p = Inr ks \<Longrightarrow> set ks = room_set p"
  unfolding rooms_of_def by (drule set_all_rooms) (auto simp: room_set_def image_iff eq_commute [of "Inr k" for k])

lemma rooms_of_built:
  assumes "isTenantId (p_tenantId p)" "p_userId p \<noteq> []" "[] \<notin> set (p_roles p)"
  shows "\<exists>ks. rooms_of p = Inr ks"
proof -
  obtain x where x: "tenantRoom (p_tenantId p) = Inr (''t.'' @ x)"
    "\<And>u y. escapeKeyId u = Inr y \<Longrightarrow> userRoom (p_tenantId p) u = Inr (''t.'' @ x @ '':user:'' @ y)"
    "\<And>r y. escapeKeyId r = Inr y \<Longrightarrow> roleRoom (p_tenantId p) r = Inr (''t.'' @ x @ '':role:'' @ y)"
    by (rule room_parts [OF assms(1)]) blast
  have "\<forall>r \<in> set (p_roles p). \<exists>y. escapeKeyId r = Inr y" using assms(3) escaped by metis
  then have "\<exists>ks. all_rooms (map (roleRoom (p_tenantId p)) rs) = Inr ks" if "set rs \<subseteq> set (p_roles p)" for rs
    using that by (induction rs) (use x(3) in force)+
  then show ?thesis using x(1,2) escaped [OF assms(2)] by (fastforce simp: rooms_of_def)
qed

lemma set_role_rooms: "set (role_rooms t rs) = {k. \<exists>r \<in> set rs. roleRoom t r = Inr k}"
  by (auto simp: role_rooms_def split: sum.splits)

lemma synced_rooms:
  assumes names: "isTenantId t" "p_tenantId p = t" "p_tenantId q = t" "p_userId p = p_userId q" "p_userId p \<noteq> []"
    "[] \<notin> set (p_roles p)" "[] \<notin> set (p_roles q)"
    and lost: "lost = filter (\<lambda>r. r \<notin> set (p_roles q)) (p_roles p)"
    and added: "added = filter (\<lambda>r. r \<notin> set (p_roles p)) (p_roles q)"
  shows "(room_set p - set (role_rooms t lost)) \<union> set (role_rooms t added) = room_set q"
proof -
  note apart = rooms_apart [OF names(1,1)]
  have named: "r \<noteq> []" if "r \<in> set (p_roles p)" for r using that names(6) by metis
  have lost_iff: "k \<in> set (role_rooms t lost) \<longleftrightarrow> (\<exists>r \<in> set (p_roles p). r \<notin> set (p_roles q) \<and> roleRoom t r = Inr k)" for k
    by (auto simp: set_role_rooms lost)
  have a: "k \<notin> set (role_rooms t lost)" if "tenantRoom t = Inr k \<or> userRoom t (p_userId p) = Inr k" for k
    using that apart(4) [OF names(5) named] apart(6) [OF named] unfolding lost_iff by blast
  have b: "k \<in> set (role_rooms t lost) \<longleftrightarrow> r \<notin> set (p_roles q)" if "r \<in> set (p_roles p)" "roleRoom t r = Inr k" for r k
    using that apart(3) [OF named named] unfolding lost_iff by blast
  let ?base = "\<lambda>k. tenantRoom t = Inr k \<or> userRoom t (p_userId p) = Inr k"
  have p: "k \<in> room_set p \<longleftrightarrow> ?base k \<or> (\<exists>r \<in> set (p_roles p). roleRoom t r = Inr k)" for k
    using names by (simp add: room_set_def)
  have q: "k \<in> room_set q \<longleftrightarrow> ?base k \<or> (\<exists>r \<in> set (p_roles q). roleRoom t r = Inr k)" for k
    using names by (simp add: room_set_def)
  have new: "k \<in> set (role_rooms t added) \<longleftrightarrow> (\<exists>r \<in> set (p_roles q). r \<notin> set (p_roles p) \<and> roleRoom t r = Inr k)" for k
    by (auto simp: set_role_rooms added)
  show ?thesis
  proof (rule set_eqI)
    fix k
    show "k \<in> (room_set p - set (role_rooms t lost)) \<union> set (role_rooms t added) \<longleftrightarrow> k \<in> room_set q"
      unfolding Un_iff Diff_iff p q new using a [of k] b [of _ k] by blast
  qed
qed

lemma set_socket_simps [simp]:
  "gw_sockets (set_socket i s g) = (gw_sockets g)(i \<mapsto> s)" "gw_timers (set_socket i s g) = gw_timers g"
  "gw_users (set_socket i s g) = gw_users g"
  by (simp_all add: set_socket_def)

lemma arrives_ok:
  assumes "gateway_ok admits g" "gw_sockets g i = None"
  shows "gateway_ok admits (connect_start i auth header g)"
proof (cases "handshake_token auth header")
  case None
  then show ?thesis
    unfolding connect_start_def Let_def
    by (simp, intro disconnect_ok [OF assms(1)]) (auto simp: socket_known_def)
next
  case (Some tok)
  then show ?thesis
    unfolding connect_start_def Let_def
    by (simp, intro gateway_okI [OF assms(1), of i]) (auto simp: socket_ok_def)
qed

lemma verified_ok:
  assumes ok: "gateway_ok admits g" and tokens: "tokens_name_accounts admits" and s: "gw_sockets g i = Some s"
    and phase: "ws_phase s = Verifying" and answer: "may_answer admits s answer"
  shows "gateway_ok admits (connect_verified i answer g)"
proof -
  have s_ok: "socket_ok admits (gw_timers g i) s" using ok s by (simp add: gateway_ok_def)
  then have none: "ws_session s = None" "ws_rooms s = []"
    using phase by (auto simp: socket_ok_def split: option.splits)
  show ?thesis
  proof (cases answer)
    case (Inl e)
    then show ?thesis using s none
      unfolding connect_verified_def by (simp, intro disconnect_ok [OF ok]) (auto simp: socket_known_def)
  next
    case (Inr p)
    then have p: "admits (ws_token s) p" using answer by (simp add: may_answer_def)
    then obtain ks where ks: "rooms_of p = Inr ks"
      using tokens rooms_of_built [of p] unfolding tokens_name_accounts_def by blast
    have a: "gateway_ok admits (set_socket i (s\<lparr>ws_phase := Settled\<rparr>) g)" if "\<not> ws_connected s"
      by (rule gateway_okI [OF ok, of i]) (use that none in \<open>auto simp: socket_ok_def\<close>)
    have b: "gateway_ok admits (set_socket i (s\<lparr>ws_phase := Joining p, ws_session := Some p, ws_rooms := ks\<rparr>) g)"
      if "ws_connected s"
      by (rule gateway_okI [OF ok, of i]) (use that p set_rooms_of [OF ks] in \<open>auto simp: socket_ok_def\<close>)
    show ?thesis using Inr s ks a b by (simp add: connect_verified_def)
  qed
qed

lemma timer_simps [simp]: "gw_sockets (g\<lparr>gw_timers := tm\<rparr>) = gw_sockets g" "gw_sockets (g\<lparr>gw_users := us\<rparr>) = gw_sockets g"
  "gw_timers (g\<lparr>gw_users := us\<rparr>) = gw_timers g"
  by simp_all

lemma users_ok: "gateway_ok admits (g\<lparr>gw_users := us\<rparr>) = gateway_ok admits g"
  by (simp add: gateway_ok_def)

lemma arm_ok:
  assumes ok: "gateway_ok admits g" and others: "\<And>j. j \<noteq> i \<Longrightarrow> gw_sockets g' j = gw_sockets g j \<and> gw_timers g' j = gw_timers g j"
    and known: "\<And>s. gw_sockets g' i = Some s \<Longrightarrow> socket_known admits s"
    and armed: "\<And>s. gw_sockets g' i = Some s \<Longrightarrow> socket_ok admits (Some expiry) s"
  shows "gateway_ok admits (armExpiry i expiry now g')"
proof (cases "expiry * 1000 - now \<le> 0")
  case True
  then show ?thesis using disconnect_ok [OF ok others known] by (simp add: armExpiry_def)
next
  case False
  then show ?thesis unfolding armExpiry_def
    by (simp, intro gateway_okI [OF ok, of i]) (use others armed in auto)
qed

lemma joined_ok:
  assumes ok: "gateway_ok admits g" and tokens: "tokens_name_accounts admits" and s: "gw_sockets g i = Some s"
    and phase: "ws_phase s = Joining p"
  shows "gateway_ok admits (connect_joined i p now g)"
proof -
  have s_ok: "socket_ok admits (gw_timers g i) s" using ok s by (simp add: gateway_ok_def)
  then obtain q where q: "ws_session s = Some q" "admits (ws_token s) q" "admits (ws_token s) p"
    using phase by (auto simp: socket_ok_def split: option.splits)
  then have same: "p_exp q = p_exp p" using tokens unfolding tokens_name_accounts_def by blast
  let ?g1 = "set_socket i (s\<lparr>ws_phase := Settled\<rparr>) g"
  have arm: "gateway_ok admits (armExpiry i (p_exp p) now ?g1)"
  proof (rule arm_ok [OF ok])
    fix s' assume "gw_sockets ?g1 i = Some s'"
    then have s': "s' = s\<lparr>ws_phase := Settled\<rparr>" by simp
    show "socket_known admits s'" "socket_ok admits (Some (p_exp p)) s'"
      using s_ok q same unfolding s' by (auto simp: socket_ok_def socket_known_def)
  qed simp
  show ?thesis
  proof (cases "ws_connected s")
    case True
    then show ?thesis using s arm by (auto simp: connect_joined_def Let_def users_ok split: option.splits)
  next
    case False
    have "gateway_ok admits ?g1"
      by (rule gateway_okI [OF ok, of i]) (use s_ok q False in \<open>auto simp: socket_ok_def\<close>)
    then show ?thesis using s False by (simp add: connect_joined_def)
  qed
qed

lemma expires_ok:
  assumes ok: "gateway_ok admits g" and timer: "gw_timers g i = Some expiry"
  shows "gateway_ok admits (expiry_fires i expiry now g)"
proof -
  let ?g1 = "g\<lparr>gw_timers := (gw_timers g)(i := None)\<rparr>"
  have known: "socket_known admits s" "socket_ok admits (Some expiry) s" if "gw_sockets ?g1 i = Some s" for s
    using ok timer that socket_ok_known by (fastforce simp: gateway_ok_def)+
  have a: "gateway_ok admits (ws_disconnect i ?g1)" by (rule disconnect_ok [OF ok]) (use known in auto)
  have b: "gateway_ok admits (armExpiry i expiry now ?g1)" by (rule arm_ok [OF ok]) (use known in auto)
  show ?thesis using a b by (simp add: expiry_fires_def Let_def)
qed

lemma swept_ok:
  assumes ok: "gateway_ok admits g" and tokens: "tokens_name_accounts admits" and s: "gw_sockets g i = Some s"
    and answer: "may_answer admits s answer"
  shows "gateway_ok admits (revalidate_socket i answer g)"
proof -
  have s_ok: "socket_ok admits (gw_timers g i) s" using ok s by (simp add: gateway_ok_def)
  have drop: "gateway_ok admits (ws_disconnect i g)"
    by (rule disconnect_ok [OF ok]) (use s socket_ok_known [OF s_ok] in auto)
  show ?thesis
  proof (cases "ws_session s")
    case None
    then show ?thesis using s drop by (simp add: revalidate_socket_def)
  next
    case (Some p)
    show ?thesis
    proof (cases answer)
      case (Inl e)
      then show ?thesis using s Some drop ok by (simp add: revalidate_socket_def)
    next
      case (Inr q)
      have pq: "admits (ws_token s) p" "admits (ws_token s) q"
        using s_ok Some answer Inr by (auto simp: socket_ok_def may_answer_def)
      then have names: "isTenantId (p_tenantId q)" "p_tenantId p = p_tenantId q" "p_userId p = p_userId q" "p_userId p \<noteq> []"
          "[] \<notin> set (p_roles p)" "[] \<notin> set (p_roles q)" "p_exp p = p_exp q"
        using tokens unfolding tokens_name_accounts_def by blast+
      have rooms: "set (ws_rooms s) = room_set p" if "ws_connected s" using s_ok Some that by (simp add: socket_ok_def)
      note sync = synced_rooms [OF names(1,2) refl names(3-6) refl refl]
      have "gateway_ok admits (syncRoleRooms i s p q g)"
        by (rule gateway_okI [OF ok, of i])
          (use s_ok s Some pq names rooms sync in \<open>auto simp: syncRoleRooms_def Let_def socket_ok_def\<close>)
      then show ?thesis using s Some Inr by (simp add: revalidate_socket_def)
    qed
  qed
qed

lemma gateway_steps_ok: "gw_step admits g g' \<Longrightarrow> tokens_name_accounts admits \<Longrightarrow> gateway_ok admits g \<Longrightarrow> gateway_ok admits g'"
proof (induction rule: gw_step.induct)
  case (leaves g i)
  then show ?case using disconnect_ok [of admits g i g] socket_ok_known by (fastforce simp: gateway_ok_def)
qed (blast intro: arrives_ok verified_ok joined_ok expires_ok swept_ok)+

lemma gateway_reachable_ok: "gw_reachable admits g \<Longrightarrow> tokens_name_accounts admits \<Longrightarrow> gateway_ok admits g"
  unfolding gw_reachable_def
proof (induction rule: rtranclp_induct)
  case base
  then show ?case by (simp add: gateway_ok_def no_sockets_def)
qed (blast intro: gateway_steps_ok)
lemma received:
  assumes "gateway_ok admits g" "i \<in> emit_to rooms g"
  shows "\<exists>s p k. gw_sockets g i = Some s \<and> ws_session s = Some p \<and> admits (ws_token s) p \<and> k \<in> set rooms \<and> k \<in> room_set p"
proof -
  obtain s k where s: "gw_sockets g i = Some s" "ws_connected s" "k \<in> set rooms" "k \<in> set (ws_rooms s)"
    using assms(2) by (auto simp: emit_to_def)
  then have "socket_ok admits (gw_timers g i) s" using assms(1) by (simp add: gateway_ok_def)
  then show ?thesis using s by (cases "ws_session s") (auto simp: socket_ok_def)
qed

lemma names_of: "tokens_name_accounts admits \<Longrightarrow> admits tok p \<Longrightarrow>
    isTenantId (p_tenantId p) \<and> p_userId p \<noteq> [] \<and> [] \<notin> set (p_roles p)"
  unfolding tokens_name_accounts_def by blast

text \<open>Whose rooms a room is.\<close>

lemma room_set_member:
  assumes t: "isTenantId t" and p: "isTenantId (p_tenantId p) \<and> p_userId p \<noteq> [] \<and> [] \<notin> set (p_roles p)" and k: "k \<in> room_set p"
  shows "u \<noteq> [] \<Longrightarrow> userRoom t u = Inr k \<Longrightarrow> p_tenantId p = t \<and> p_userId p = u"
    and "r \<noteq> [] \<Longrightarrow> roleRoom t r = Inr k \<Longrightarrow> p_tenantId p = t \<and> r \<in> set (p_roles p)"
    and "tenantRoom t = Inr k \<Longrightarrow> p_tenantId p = t"
proof -
  have rp: "x \<noteq> []" if "x \<in> set (p_roles p)" for x using p that by metis
  have tp: "isTenantId (p_tenantId p)" and up: "p_userId p \<noteq> []" using p by auto
  note k' = k [unfolded room_set_def, simplified]
  note a = rooms_apart [OF t tp] and b = rooms_apart [OF tp t]
  show "u \<noteq> [] \<Longrightarrow> userRoom t u = Inr k \<Longrightarrow> p_tenantId p = t \<and> p_userId p = u"
    using k' a(2) [OF _ up] a(4) [OF _ rp] a(5) by blast
  show "r \<noteq> [] \<Longrightarrow> roleRoom t r = Inr k \<Longrightarrow> p_tenantId p = t \<and> r \<in> set (p_roles p)"
    using k' a(3) [OF _ rp] a(6) b(4) [OF up] by blast
  show "tenantRoom t = Inr k \<Longrightarrow> p_tenantId p = t"
    using k' a(1) b(5) [OF up] b(6) [OF rp] by blast
qed

text \<open>C13: A push reaches only whom it names. Whatever sequence of arrivals, answers of the verifier, timers and
  sweeps led here, a push to a user reaches sockets whose token was verified for that user of that tenant, a
  push to roles sockets whose member held one of the roles when last verified, in that tenant, and a push to
  a tenant sockets of its users; and a socket that is open has a timer at the expiry of its token.\<close>

theorem pushes_reach_only_their_audience:
  assumes tokens: "tokens_name_accounts admits" and reach: "gw_reachable admits g" and t: "isTenantId t"
  shows "(\<forall>u is. u \<noteq> [] \<longrightarrow> publishToUser t u g = Inr is \<longrightarrow>
        (\<forall>i \<in> is. \<exists>s p. gw_sockets g i = Some s \<and> admits (ws_token s) p \<and> p_tenantId p = t \<and> p_userId p = u))
    \<and> (\<forall>roles is. [] \<notin> set roles \<longrightarrow> publishToRoles t roles g = Inr is \<longrightarrow>
        (\<forall>i \<in> is. \<exists>s p. gw_sockets g i = Some s \<and> ws_session s = Some p \<and> admits (ws_token s) p \<and> p_tenantId p = t
          \<and> (\<exists>r \<in> set roles. r \<in> set (p_roles p))))
    \<and> (\<forall>is. publishToTenant t g = Inr is \<longrightarrow>
        (\<forall>i \<in> is. \<exists>s p. gw_sockets g i = Some s \<and> admits (ws_token s) p \<and> p_tenantId p = t))
    \<and> (\<forall>i s. gw_sockets g i = Some s \<longrightarrow> ws_connected s \<longrightarrow> ws_phase s = Settled \<longrightarrow>
        (\<exists>p. admits (ws_token s) p \<and> gw_timers g i = Some (p_exp p)))"
proof -
  have ok: "gateway_ok admits g" using gateway_reachable_ok [OF reach tokens] .
  note room = room_set_member [OF t names_of [OF tokens]]
  show ?thesis
  proof (intro conjI allI impI ballI)
    fix u "is" i assume u: "u \<noteq> []" "publishToUser t u g = Inr is" "i \<in> is"
    then obtain k where k: "userRoom t u = Inr k" "i \<in> emit_to [k] g" by (auto simp: publishToUser_def split: sum.splits)
    show "\<exists>s p. gw_sockets g i = Some s \<and> admits (ws_token s) p \<and> p_tenantId p = t \<and> p_userId p = u"
      using received [OF ok k(2)] room(1) [OF _ _ u(1) k(1)] by fastforce
  next
    fix roles "is" i assume r: "[] \<notin> set roles" "publishToRoles t roles g = Inr is" "i \<in> is"
    then obtain ks where ks: "all_rooms (map (roleRoom t) roles) = Inr ks" "i \<in> emit_to ks g"
      by (auto simp: publishToRoles_def split: sum.splits if_splits)
    from received [OF ok ks(2)] obtain s p k where s: "gw_sockets g i = Some s" "ws_session s = Some p" "admits (ws_token s) p"
      "k \<in> set ks" "k \<in> room_set p" by blast
    then obtain ro where ro: "ro \<in> set roles" "Inr k = roleRoom t ro"
      using set_all_rooms [OF ks(1)] by (auto simp: image_iff)
    then have "ro \<noteq> []" using r(1) by metis
    then show "\<exists>s p. gw_sockets g i = Some s \<and> ws_session s = Some p \<and> admits (ws_token s) p \<and> p_tenantId p = t
        \<and> (\<exists>r \<in> set roles. r \<in> set (p_roles p))"
      using s ro room(2) [OF s(3) s(5) _ ro(2) [symmetric]] by blast
  next
    fix "is" i assume "publishToTenant t g = Inr is" "i \<in> is"
    then obtain k where k: "tenantRoom t = Inr k" "i \<in> emit_to [k] g" by (auto simp: publishToTenant_def split: sum.splits)
    show "\<exists>s p. gw_sockets g i = Some s \<and> admits (ws_token s) p \<and> p_tenantId p = t"
      using received [OF ok k(2)] room(3) [OF _ _ k(1)] by fastforce
  next
    fix i s assume s: "gw_sockets g i = Some s" "ws_connected s" "ws_phase s = Settled"
    then have "socket_ok admits (gw_timers g i) s" using ok by (simp add: gateway_ok_def)
    then show "\<exists>p. admits (ws_token s) p \<and> gw_timers g i = Some (p_exp p)"
      using s by (cases "ws_session s") (auto simp: socket_ok_def)
  qed
qed

subsection \<open>Two sockets, and two defects\<close>

definition ann :: principal where
  "ann = \<lparr>p_userId = ''7'', p_email = ''ann@acme.io'', p_roles = [''ADMIN''], p_tenantId = ''acme'', p_jti = ''j'', p_exp = 100\<rparr>"

definition only_ann :: "string \<Rightarrow> principal \<Rightarrow> bool" where
  "only_ann tok p \<longleftrightarrow> tok = ''tok'' \<and> p = ann"

lemma only_ann_names: "tokens_name_accounts only_ann"
proof -
  have "isTenantId ''acme''" by code_simp
  then show ?thesis by (auto simp: tokens_name_accounts_def only_ann_def ann_def)
qed

definition ann_arrived :: gateway where "ann_arrived = connect_start 5 (Some ''tok'') None no_sockets"

definition ann_joining :: gateway where "ann_joining = connect_verified 5 (Inr ann) ann_arrived"

lemma ann_socket:
  "gw_sockets ann_arrived 5 = Some \<lparr>ws_token = ''tok'', ws_connected = True, ws_phase = Verifying, ws_session = None, ws_rooms = []\<rparr>"
  by (simp add: ann_arrived_def connect_start_def handshake_token_def Let_def)

lemma ann_rooms: "rooms_of ann = Inr [''t.acme'', ''t.acme:user:7'', ''t.acme:role:ADMIN'']"
  by code_simp

lemma ann_joining_socket:
  "gw_sockets ann_joining 5 = Some \<lparr>ws_token = ''tok'', ws_connected = True, ws_phase = Joining ann, ws_session = Some ann,
     ws_rooms = [''t.acme'', ''t.acme:user:7'', ''t.acme:role:ADMIN'']\<rparr>"
  by (simp add: ann_joining_def connect_verified_def ann_socket ann_rooms)

lemma ann_arrives: "gw_reachable only_ann ann_arrived"
  unfolding gw_reachable_def ann_arrived_def
  by (rule r_into_rtranclp, rule gw_step.arrives) (simp add: no_sockets_def)

lemma ann_joins: "gw_reachable only_ann ann_joining"
proof -
  have "gw_step only_ann ann_arrived ann_joining"
    unfolding ann_joining_def by (rule gw_step.verified [OF ann_socket]) (simp_all add: may_answer_def only_ann_def)
  then show ?thesis using ann_arrives unfolding gw_reachable_def by (rule rtranclp.rtrancl_into_rtrancl [rotated])
qed

lemma pushes_reach_only_their_audience_witness:
  "publishToUser ''acme'' ''7'' ann_joining = Inr (emit_to [''t.acme:user:7''] ann_joining)
   \<and> 5 \<in> emit_to [''t.acme:user:7''] ann_joining
   \<and> (\<exists>s p. gw_sockets ann_joining 5 = Some s \<and> only_ann (ws_token s) p \<and> p_userId p = ''7'')"
proof -
  have t: "isTenantId ''acme''" by code_simp
  have "userRoom ''acme'' ''7'' = Inr ''t.acme:user:7''" by code_simp
  then have push: "publishToUser ''acme'' ''7'' ann_joining = Inr (emit_to [''t.acme:user:7''] ann_joining)"
    by (simp add: publishToUser_def)
  note audience = conjunct1 [OF pushes_reach_only_their_audience [OF only_ann_names ann_joins t]]
  have member: "5 \<in> emit_to [''t.acme:user:7''] ann_joining" using ann_joining_socket by (simp add: emit_to_def)
  have "\<exists>s p. gw_sockets ann_joining 5 = Some s \<and> only_ann (ws_token s) p \<and> p_tenantId p = ''acme'' \<and> p_userId p = ''7''"
    using audience [rule_format, OF _ push member] by simp
  then show ?thesis using push member by blast
qed

text \<open>A sweep closes a socket that is still being verified. It finds no session there, so the socket is
  disconnected, whatever the verifier says of its token, and stays closed when the verification succeeds.\<close>

theorem sweep_closes_unverified_socket:
  assumes tokens: "tokens_name_accounts admits" and reach: "gw_reachable admits g"
    and s: "gw_sockets g i = Some s" "ws_phase s = Verifying"
  shows "\<exists>s1 s2. gw_sockets (revalidate_socket i answer g) i = Some s1 \<and> \<not> ws_connected s1
    \<and> gw_sockets (connect_verified i (Inr p) (revalidate_socket i answer g)) i = Some s2 \<and> \<not> ws_connected s2"
proof -
  have "socket_ok admits (gw_timers g i) s" using gateway_reachable_ok [OF reach tokens] s by (simp add: gateway_ok_def)
  then have "ws_session s = None" using s(2) by (auto simp: socket_ok_def split: option.splits)
  then have "revalidate_socket i answer g = ws_disconnect i g" using s by (simp add: revalidate_socket_def)
  then show ?thesis using s disconnect_self [of i g] by (auto simp: connect_verified_def)
qed

lemma sweep_closes_unverified_socket_witness:
  "\<exists>s1. gw_sockets (revalidate_socket 5 (Inr ann) ann_arrived) 5 = Some s1 \<and> \<not> ws_connected s1"
  using sweep_closes_unverified_socket [OF only_ann_names ann_arrives ann_socket, of "Inr ann" ann] by auto

text \<open>A closed socket counts as online. When the token expires while the rooms are joined, the socket is
  closed, which removes it from the online users, and then added to them, where it stays.\<close>

theorem closed_socket_counts_as_online:
  "\<exists>g s. gw_reachable only_ann g \<and> gw_sockets g 5 = Some s \<and> \<not> ws_connected s
     \<and> getOnlineUserCount [''t.acme:user:7''] g = 1"
proof -
  let ?g = "connect_joined 5 ann 100000 ann_joining"
  have "gw_step only_ann ann_joining ?g" by (rule gw_step.joined [OF ann_joining_socket]) simp
  then have reach: "gw_reachable only_ann ?g"
    using ann_joins unfolding gw_reachable_def by (rule rtranclp.rtrancl_into_rtrancl [rotated])
  have key: "socket_user_key ann = Some ''t.acme:user:7''" by code_simp
  have exp: "p_exp ann = 100" by (simp add: ann_def)
  have "\<exists>s. gw_sockets ?g 5 = Some s \<and> \<not> ws_connected s" "5 \<in> set (gw_users ?g ''t.acme:user:7'')"
    using ann_joining_socket disconnect_self [of 5 "set_socket 5 _ ann_joining"]
    by (simp_all add: connect_joined_def Let_def armExpiry_def key exp)
  then show ?thesis using reach by (intro exI [of _ ?g]) (auto simp: getOnlineUserCount_def)
qed

end
