(* ===== verification/Jobs.thy ===== *)
theory Jobs
  imports Tenancy Effects "HOL-Library.AList"
begin

text \<open>
  Background jobs: the scope and the trace a job carries (\<open>infrastructure/jobs/job-tenant.ts\<close>, \<open>job-trace.ts\<close>), the
  registry of queues (\<open>jobs.registry.ts\<close>), the BullMQ adapter's enqueue and the workers that run a job, with
  their dead letters (\<open>adapters/bullmq\<close>). Of BullMQ the model takes what it documents: a job is tried until
  an attempt succeeds, its attempts are used up, or it fails with an \<open>UnrecoverableError\<close>, and the worker emits
  \<open>failed\<close> after each failed attempt. Spans, metrics and log lines are left out.
\<close>

subsection \<open>The scope of a job\<close>

definition JOB_TENANT_FIELD :: string where "JOB_TENANT_FIELD = ''__tenant''"
definition JOB_TRACE_FIELD :: string where "JOB_TRACE_FIELD = ''__trace''"

definition scope_json :: "tenant_scope \<Rightarrow> json" where
  "scope_json sc =
     (case sc of
        TenantScope t \<Rightarrow> JObj [(''scope'', JStr ''tenant''), (''tenantId'', JStr t)]
      | GlobalScope \<Rightarrow> JObj [(''scope'', JStr ''global'')])"

definition captureJobScope :: "(thrown + tenant_scope) scoped" where
  "captureJobScope slot =
     (case nonempty (currentTenant slot) of
        Some t \<Rightarrow> Inr (TenantScope t)
      | None \<Rightarrow>
          if isGlobalScope slot then Inr GlobalScope
          else Inl (app_error_detail TENANT_REQUIRED ''A job must be enqueued inside a tenant or global scope''))"

definition attachJobScope :: "json \<Rightarrow> tenant_scope \<Rightarrow> thrown + json" where
  "attachJobScope payload sc =
     (case payload of
        JObj ps \<Rightarrow> Inr (JObj (js_set ps JOB_TENANT_FIELD (scope_json sc)))
      | _ \<Rightarrow> Inl (PlainError ''TypeError'' ''Job data must be a plain object to carry its tenant'' []))"

definition parseScope :: "json option \<Rightarrow> thrown + tenant_scope option" where
  "parseScope raw =
     (case raw of
        Some (JObj ps) \<Rightarrow>
          if js_prop ps ''scope'' = Some (JStr ''global'') then Inr (Some GlobalScope)
          else if js_prop ps ''scope'' = Some (JStr ''tenant'')
          then map_sum id (\<lambda>t. Some (TenantScope t)) (parseTenantId (js_prop ps ''tenantId''))
          else Inr None
      | _ \<Rightarrow> Inr None)"

definition without :: "string \<Rightarrow> (string \<times> json) list \<Rightarrow> (string \<times> json) list" where
  "without k ps = filter (\<lambda>(j, _). j \<noteq> k) ps"

definition detachJobScope :: "json \<Rightarrow> thrown + json \<times> tenant_scope option" where
  "detachJobScope payload =
     (case payload of
        JObj ps \<Rightarrow>
          if js_has ps JOB_TENANT_FIELD
          then map_sum id (Pair (JObj (without JOB_TENANT_FIELD ps))) (parseScope (js_prop ps JOB_TENANT_FIELD))
          else Inr (payload, None)
      | _ \<Rightarrow> Inr (payload, None))"

text \<open>The work of an attempt gets the slot its async context binds; \<open>stringify\<close> is \<open>JSON.stringify\<close>.\<close>

type_synonym ('w, 'a) scoped_eff = "tenant_scope option \<Rightarrow> ('w, 'a) eff"

definition runInJobScope :: "tenant_scope option \<Rightarrow> ('w, 'a) scoped_eff \<Rightarrow> ('w, 'a) eff" where
  "runInJobScope sc fn =
     (case sc of
        None \<Rightarrow> raise (app_error_detail TENANT_REQUIRED ''The job carries no tenant scope'')
      | Some (TenantScope t) \<Rightarrow>
          (case parseTenantId (Some (JStr t)) of Inl e \<Rightarrow> raise e | Inr t' \<Rightarrow> fn (Some (TenantScope t')))
      | Some GlobalScope \<Rightarrow> fn (Some GlobalScope))"

subsection \<open>The trace of a job\<close>

definition attachTraceContext :: "json \<Rightarrow> (string \<times> string) list \<Rightarrow> json" where
  "attachTraceContext payload carrier =
     (case payload of
        JObj ps \<Rightarrow> if carrier = [] then payload else JObj (js_set ps JOB_TRACE_FIELD (JObj (map (\<lambda>(k, v). (k, JStr v)) carrier)))
      | _ \<Rightarrow> payload)"

definition string_entries :: "json option \<Rightarrow> (string \<times> string) list" where
  "string_entries raw =
     (case raw of
        Some (JObj ps) \<Rightarrow> concat (map (\<lambda>(k, v). case v of JStr s \<Rightarrow> [(k, s)] | _ \<Rightarrow> []) ps)
      | _ \<Rightarrow> [])"

definition detachTraceContext :: "json \<Rightarrow> json \<times> (string \<times> string) list" where
  "detachTraceContext payload =
     (case payload of
        JObj ps \<Rightarrow>
          if js_has ps JOB_TRACE_FIELD then (JObj (without JOB_TRACE_FIELD ps), string_entries (js_prop ps JOB_TRACE_FIELD))
          else (payload, [])
      | _ \<Rightarrow> (payload, []))"

definition enqueueWithTrace ::
  "(string \<times> string) list \<Rightarrow> json \<Rightarrow> (json \<Rightarrow> ('w, 'a) eff) \<Rightarrow> ('w, 'a) scoped_eff" where
  "enqueueWithTrace carrier payload enqueue slot =
     andThen (lift (captureJobScope slot)) (\<lambda>sc.
     andThen (lift (attachJobScope payload sc)) (\<lambda>bound.
     enqueue (attachTraceContext bound carrier)))"

text \<open>An attempt. What is thrown before the promise exists is thrown by the call itself, \<open>Thrown_now\<close>.\<close>

datatype ('w, 'a) started = Thrown_now thrown | Running_now "('w, 'a) eff"

definition processWithTrace :: "json \<Rightarrow> (json \<Rightarrow> ('w, 'a) scoped_eff) \<Rightarrow> ('w, 'a) started" where
  "processWithTrace payload fn =
     (case detachJobScope (fst (detachTraceContext payload)) of
        Inl e \<Rightarrow> Thrown_now e
      | Inr (rest, sc) \<Rightarrow> Running_now (runInJobScope sc (fn rest)))"

subsection \<open>Queues\<close>

text \<open>Options by name; an option that is present and undefined is \<open>None\<close>. \<open>jq_ref\<close> is the identity of the object.\<close>

type_synonym enqueue_options = "(string \<times> json option) list"

record job_queue =
  jq_name :: string
  jq_defaults :: enqueue_options
  jq_deadLetter :: bool
  jq_ref :: nat

definition QUEUE_DLQ :: string where "QUEUE_DLQ = ''dead-letter''"

definition DEAD_LETTER_QUEUE :: job_queue where
  "DEAD_LETTER_QUEUE = \<lparr>jq_name = QUEUE_DLQ,
     jq_defaults = [(''removeOnComplete'', Some (JBool False)), (''removeOnFail'', Some (JBool False))],
     jq_deadLetter = False, jq_ref = 0\<rparr>"

definition new_registry :: "job_queue list" where "new_registry = [DEAD_LETTER_QUEUE]"

definition registry_get :: "(json \<Rightarrow> string) \<Rightarrow> job_queue list \<Rightarrow> string \<Rightarrow> thrown + job_queue" where
  "registry_get stringify queues name =
     (case find (\<lambda>q. jq_name q = name) queues of
        Some q \<Rightarrow> Inr q
      | None \<Rightarrow> Inl (PlainError ''UnknownJobQueueError'' 
          (''Unknown job queue '' @ stringify (JStr name) @ ''; register it with JobsModule.forFeature'') []))"

definition registry_register :: "(json \<Rightarrow> string) \<Rightarrow> job_queue \<Rightarrow> job_queue list \<Rightarrow> thrown + job_queue list" where
  "registry_register stringify q queues =
     (case find (\<lambda>x. jq_name x = jq_name q) queues of
        Some x \<Rightarrow> if jq_ref x \<noteq> jq_ref q then Inl (PlainError ''Error'' (''Job queue '' @ stringify (JStr (jq_name q)) @ '' is declared twice'') []) else Inr queues
      | None \<Rightarrow> Inr (queues @ [q]))"

definition registry_names :: "job_queue list \<Rightarrow> string list" where "registry_names queues = map jq_name queues"

definition spread_options :: "enqueue_options \<Rightarrow> enqueue_options \<Rightarrow> enqueue_options" where
  "spread_options a b = AList.updates (map fst b) (map snd b) a"

text \<open>\<open>toJobsOptions\<close>: the options that are defined, under BullMQ's names.\<close>

definition bullmq_backoff :: "json \<Rightarrow> json" where
  "bullmq_backoff b =
     (case b of
        JObj ps \<Rightarrow> JObj (concat (map (\<lambda>(k, n). case js_prop ps k of Some v \<Rightarrow> [(n, v)] | None \<Rightarrow> []) [(''type'', ''type''), (''delayMs'', ''delay'')]))
      | _ \<Rightarrow> JObj [])"

definition toJobsOptions :: "enqueue_options \<Rightarrow> (string \<times> json) list" where
  "toJobsOptions opts =
     concat (map (\<lambda>(k, n, f). case map_of opts k of Some (Some v) \<Rightarrow> [(n, f v)] | _ \<Rightarrow> [])
       [(''jobId'', ''jobId'', id), (''delayMs'', ''delay'', id), (''attempts'', ''attempts'', id),
        (''backoff'', ''backoff'', bullmq_backoff), (''priority'', ''priority'', id),
        (''removeOnComplete'', ''removeOnComplete'', id), (''removeOnFail'', ''removeOnFail'', id)])"

definition jobs_enqueue ::
  "(json \<Rightarrow> string) \<Rightarrow> job_queue list \<Rightarrow> (string \<Rightarrow> string \<Rightarrow> json \<Rightarrow> (string \<times> json) list \<Rightarrow> ('w, 'i) eff) \<Rightarrow> (string \<times> string) list
   \<Rightarrow> string \<Rightarrow> string \<Rightarrow> json \<Rightarrow> enqueue_options \<Rightarrow> ('w, 'i) scoped_eff" where
  "jobs_enqueue stringify queues add carrier queue name payload opts slot =
     andThen (lift (registry_get stringify queues queue)) (\<lambda>q.
       enqueueWithTrace carrier payload
         (\<lambda>traced. add queue name traced (toJobsOptions (spread_options (jq_defaults q) opts))) slot)"

subsection \<open>Workers\<close>

record bull_job =
  bj_id :: string
  bj_name :: string
  bj_data :: json
  bj_attempts :: "nat option"
  bj_backoff :: "json option"
  bj_made :: nat

record 'w worker_deps =
  wd_process :: "bull_job \<Rightarrow> json \<Rightarrow> ('w, unit) scoped_eff"
  wd_dlq_add :: "string \<Rightarrow> json \<Rightarrow> (string \<times> json) list \<Rightarrow> ('w, unit) eff"
  wd_message :: "thrown \<Rightarrow> string"

definition UnrecoverableError :: "string \<Rightarrow> thrown" where
  "UnrecoverableError msg = PlainError ''UnrecoverableError'' msg []"

fun is_unrecoverable :: "thrown \<Rightarrow> bool" where
  "is_unrecoverable (PlainError n _ _) = (n = ''UnrecoverableError'')"
| "is_unrecoverable _ = False"

text \<open>The function a worker runs for one attempt. \<open>.catch\<close> sees only what the promise rejects with.\<close>

definition worker_attempt :: "'w worker_deps \<Rightarrow> bull_job \<Rightarrow> ('w, unit) eff" where
  "worker_attempt d job =
     (case processWithTrace (bj_data job) (wd_process d job) of
        Thrown_now e \<Rightarrow> raise e
      | Running_now f \<Rightarrow>
          rescue f (\<lambda>err. if isPermanentFailure err then raise (UnrecoverableError (wd_message d err)) else raise err))"

definition dead_letter_data :: "'w worker_deps \<Rightarrow> string \<Rightarrow> bull_job \<Rightarrow> thrown \<Rightarrow> json" where
  "dead_letter_data d queue job err =
     JObj (js_set (js_set (js_set (js_set (option_or (js_record (bj_data job)) []) ''__sourceQueue'' (JStr queue))
                ''__sourceJobId'' (JStr (bj_id job)))
            ''__sourceOpts'' (JObj ((case bj_attempts job of Some n \<Rightarrow> [(''attempts'', JNum (of_nat n))] | None \<Rightarrow> [])
              @ (case bj_backoff job of Some b \<Rightarrow> [(''backoff'', b)] | None \<Rightarrow> []))))
          ''__failReason'' (JStr (wd_message d err)))"

definition dead_letter_job :: "'w worker_deps \<Rightarrow> string \<Rightarrow> bull_job \<Rightarrow> thrown \<Rightarrow> ('w, unit) eff" where
  "dead_letter_job d queue job err =
     (let attemptsLeft = int (option_or (bj_attempts job) 1) - int (bj_made job) in
      if attemptsLeft > 0 \<and> \<not> is_unrecoverable err then ret ()
      else rescue (wd_dlq_add d (bj_name job) (dead_letter_data d queue job err)
          [(''removeOnComplete'', JBool False), (''removeOnFail'', JBool False)]) (\<lambda>_. ret ()))"

text \<open>The listener of \<open>failed\<close>.\<close>

definition on_failed :: "'w worker_deps \<Rightarrow> job_queue \<Rightarrow> bull_job \<Rightarrow> thrown \<Rightarrow> ('w, unit) eff" where
  "on_failed d q job err = (if jq_deadLetter q then dead_letter_job d (jq_name q) job err else ret ())"

text \<open>A job from its current attempt on, with \<open>left\<close> attempts: whether it completed.\<close>

fun bull_run :: "'w worker_deps \<Rightarrow> job_queue \<Rightarrow> bull_job \<Rightarrow> nat \<Rightarrow> 'w \<Rightarrow> bool \<times> 'w" where
  "bull_run d q job 0 w = (False, w)"
| "bull_run d q job (Suc left) w =
     (case worker_attempt d job w of
        (Inr _, w1) \<Rightarrow> (True, w1)
      | (Inl err, w1) \<Rightarrow>
          (let failed = job\<lparr>bj_made := bj_made job + 1\<rparr>; w2 = snd (on_failed d q failed err w1) in
           if is_unrecoverable err then (False, w2) else bull_run d q failed left w2))"

subsection \<open>A job runs where it was enqueued\<close>

lemma without_js_set: "\<not> js_has ps k \<Longrightarrow> without k (js_set ps k v) = ps"
proof (induction ps k v rule: js_set.induct)
  case (2 j x ps k v)
  then show ?case by (auto simp: js_has_def without_def filter_id_conv)
qed (simp add: without_def)

lemma js_has_set: "js_has (js_set ps k v) j \<longleftrightarrow> j = k \<or> js_has ps j"
  by (simp add: js_has_iff js_prop_set)

lemma entries_back: "string_entries (Some (JObj (map (\<lambda>(k, v). (k, JStr v)) carrier))) = carrier"
  by (induction carrier) (auto simp: string_entries_def)

lemma scope_back:
  assumes "sc = TenantScope t \<longrightarrow> isTenantId t" "\<And>t. sc = TenantScope t \<Longrightarrow> isTenantId t"
  shows "parseScope (Some (scope_json sc)) = Inr (Some sc)"
  using assms by (cases sc) (simp_all add: scope_json_def parseScope_def js_prop_def parseTenantId_JStr)

text \<open>C17: A job runs where it was enqueued. Data a caller in a tenant or global scope enqueues reaches the handler, at
  whichever attempt, exactly as it was and in exactly that scope, with the trace it was sent with; a caller with no
  scope is refused before anything is added to the queue.\<close>

theorem job_runs_in_its_enqueuers_scope:
  fixes fn :: "json \<Rightarrow> ('w, 'a) scoped_eff" and enq :: "json \<Rightarrow> ('w, 'a) eff"
  assumes plain: "\<not> js_has ps JOB_TENANT_FIELD" "\<not> js_has ps JOB_TRACE_FIELD"
    and scope: "slot = Some GlobalScope \<or> (\<exists>t. slot = Some (TenantScope t) \<and> isTenantId t)"
  shows "\<exists>traced. (\<forall>enqueue :: json \<Rightarrow> ('w, 'a) eff. enqueueWithTrace carrier (JObj ps) enqueue slot = enqueue traced)
    \<and> processWithTrace traced fn = Running_now (fn (JObj ps) slot) \<and> snd (detachTraceContext traced) = carrier
    \<and> enqueueWithTrace carrier (JObj ps) enq None w
        = (Inl (app_error_detail TENANT_REQUIRED ''A job must be enqueued inside a tenant or global scope''), w)"
proof -
  obtain sc where sc: "slot = Some sc" "\<And>t. sc = TenantScope t \<Longrightarrow> isTenantId t" using scope by auto
  have cap: "captureJobScope slot = Inr sc"
    using sc isTenantId_nonempty by (cases sc) (auto simp: captureJobScope_def currentTenant_def isGlobalScope_def nonempty_def split: list.splits)
  let ?bound = "js_set ps JOB_TENANT_FIELD (scope_json sc)"
  let ?traced = "attachTraceContext (JObj ?bound) carrier"
  have enqueued: "enqueueWithTrace carrier (JObj ps) enqueue slot = enqueue ?traced" for enqueue :: "json \<Rightarrow> ('w, 'a) eff"
    using cap by (simp add: enqueueWithTrace_def attachJobScope_def)
  have no_trace: "\<not> js_has ?bound JOB_TRACE_FIELD" using plain by (simp add: js_has_set JOB_TENANT_FIELD_def JOB_TRACE_FIELD_def)
  have undone: "detachTraceContext ?traced = (JObj ?bound, carrier)"
    using no_trace without_js_set [OF no_trace] entries_back [of carrier]
    by (auto simp: attachTraceContext_def detachTraceContext_def js_has_set js_prop_set)
  have det: "detachJobScope (JObj ?bound) = Inr (JObj ps, Some sc)"
    using scope_back [of sc undefined] sc(2) without_js_set [OF plain(1)]
    by (simp add: detachJobScope_def js_has_set js_prop_set)
  have run: "runInJobScope (Some sc) f = f (Some sc)" for f :: "('w, 'a) scoped_eff"
    using sc(2) by (cases sc) (auto simp: runInJobScope_def parseTenantId_JStr)
  have none: "enqueueWithTrace carrier (JObj ps) enq None w
        = (Inl (app_error_detail TENANT_REQUIRED ''A job must be enqueued inside a tenant or global scope''), w)"
    by (simp add: enqueueWithTrace_def captureJobScope_def currentTenant_def isGlobalScope_def)
  have processed: "processWithTrace ?traced fn = Running_now (fn (JObj ps) slot)"
    by (simp add: processWithTrace_def undone det run sc(1))
  show ?thesis
    by (intro exI [of _ ?traced] conjI allI) (rule enqueued processed none | simp add: undone)+
qed

lemma job_runs_in_its_enqueuers_scope_witness:
  "\<exists>traced. processWithTrace traced (\<lambda>payload slot w. (Inr payload, slot))
     = Running_now (\<lambda>w. (Inr (JObj [(''n'', JNum 5)]), Some (TenantScope ''acme'')))"
proof -
  have acme: "isTenantId ''acme''" by code_simp
  have free: "\<not> js_has [(''n'', JNum 5)] JOB_TENANT_FIELD" "\<not> js_has [(''n'', JNum 5)] JOB_TRACE_FIELD"
    by (simp_all add: js_has_def JOB_TENANT_FIELD_def JOB_TRACE_FIELD_def)
  show ?thesis
    using job_runs_in_its_enqueuers_scope [OF free, of "Some (TenantScope ''acme'')" "[]"
        "\<lambda>payload slot w. (Inr payload, slot)" "\<lambda>_ w. (Inr (JNum 0), w)" None] acme by blast
qed

text \<open>A job with a malformed tenant is retried. The comment of \<open>BullmqWorkersService\<close> says a permanent failure is not
  retried. But \<open>processWithTrace\<close> reads the scope before its promise exists, so a tenant id that is not valid is
  thrown past the worker's \<open>.catch\<close>: the attempt fails with a \<open>TENANT_INVALID\<close> that counts as permanent and is not
  unrecoverable, and the job is tried again, and fails again the same way, with every attempt it has.\<close>

theorem malformed_scope_is_retried:
  assumes "js_has ps JOB_TENANT_FIELD" "\<not> js_has ps JOB_TRACE_FIELD"
    and "js_prop ps JOB_TENANT_FIELD = Some (JObj [(''scope'', JStr ''tenant''), (''tenantId'', JStr t)])" "\<not> isTenantId t"
    and "bj_data job = JObj ps" "jq_deadLetter q" "option_or (bj_attempts job) 1 = bj_made job + Suc (Suc left)"
  shows "worker_attempt d job w = (Inl TENANT_INVALID_error, w) \<and> isPermanentFailure TENANT_INVALID_error
    \<and> bull_run d q job (Suc (Suc left)) w = bull_run d q (job\<lparr>bj_made := bj_made job + 1\<rparr>) (Suc left) w"
proof -
  have "detachJobScope (JObj ps) = Inl TENANT_INVALID_error"
    using assms(1,3,4) by (simp add: detachJobScope_def parseScope_def js_prop_def parseTenantId_JStr)
  then have once: "worker_attempt d job w = (Inl TENANT_INVALID_error, w)"
    using assms(2,5) by (simp add: worker_attempt_def processWithTrace_def detachTraceContext_def raise_def)
  have "isPermanentFailure TENANT_INVALID_error"
    by (simp add: isPermanentFailure_def TENANT_INVALID_error_def app_error_def app_error_detail_def error_status)
  moreover have "bull_run d q job (Suc (Suc left)) w = bull_run d q (job\<lparr>bj_made := bj_made job + 1\<rparr>) (Suc left) w"
    using assms(7) by (simp only: bull_run.simps(2) [of d q job "Suc left" w] once)
      (simp add: TENANT_INVALID_error_def app_error_def app_error_detail_def on_failed_def dead_letter_job_def ret_def Let_def)
  ultimately show ?thesis using once by blast
qed

definition sample_worker :: "(string \<times> json) list worker_deps" where
  "sample_worker = \<lparr>wd_process = \<lambda>job payload slot w. (Inl (PlainError ''Error'' ''down'' []), w),
     wd_dlq_add = \<lambda>n payload opts w. (Inr (), w @ [(n, payload)]), wd_message = \<lambda>_. ''down''\<rparr>"

definition sample_queue :: job_queue where
  "sample_queue = \<lparr>jq_name = ''mail'', jq_defaults = [], jq_deadLetter = True, jq_ref = 5\<rparr>"

definition sample_job :: "string \<Rightarrow> bull_job" where
  "sample_job t = \<lparr>bj_id = ''7'', bj_name = ''send'',
     bj_data = JObj [(JOB_TENANT_FIELD, JObj [(''scope'', JStr ''tenant''), (''tenantId'', JStr t)])],
     bj_attempts = Some 3, bj_backoff = None, bj_made = 0\<rparr>"

lemma malformed_scope_is_retried_witness:
  "worker_attempt sample_worker (sample_job ''a b'') [] = (Inl TENANT_INVALID_error, [])"
proof -
  let ?ps = "[(JOB_TENANT_FIELD, JObj [(''scope'', JStr ''tenant''), (''tenantId'', JStr ''a b'')])]"
  have bad: "\<not> isTenantId ''a b''" by code_simp
  show ?thesis
    using malformed_scope_is_retried [of ?ps "''a b''" "sample_job ''a b''" sample_queue 1 sample_worker "[]"] bad
    by (simp add: js_has_def js_prop_def JOB_TENANT_FIELD_def JOB_TRACE_FIELD_def sample_job_def sample_queue_def option_or_def)
qed

subsection \<open>A job settles once\<close>

text \<open>What a dead letter keeps of its job.\<close>

definition is_dead_letter_of :: "bull_job \<Rightarrow> job_queue \<Rightarrow> string \<times> json \<Rightarrow> bool" where
  "is_dead_letter_of job q l \<longleftrightarrow>
     fst l = bj_name job \<and>
     (\<forall>k. k \<notin> {''__sourceQueue'', ''__sourceJobId'', ''__sourceOpts'', ''__failReason''} \<longrightarrow>
        js_prop (option_or (js_record (snd l)) []) k = js_prop (option_or (js_record (bj_data job)) []) k) \<and>
     js_prop (option_or (js_record (snd l)) []) ''__sourceQueue'' = Some (JStr (jq_name q)) \<and>
     js_prop (option_or (js_record (snd l)) []) ''__sourceJobId'' = Some (JStr (bj_id job))"

lemma dead_letter_data_keeps:
  "is_dead_letter_of job q (bj_name job, dead_letter_data d (jq_name q) (job\<lparr>bj_made := n\<rparr>) err)"
  by (simp add: is_dead_letter_of_def dead_letter_data_def js_record.simps option_or_def js_prop_set)

lemma worker_attempt_keeps:
  assumes "\<And>job payload slot w. dead (snd (wd_process d job payload slot w)) = dead w"
  shows "dead (snd (worker_attempt d job w)) = dead w"
  using assms by (auto simp: worker_attempt_def processWithTrace_def runInJobScope_def raise_def rescue_def ret_def
      split: sum.splits started.splits option.splits tenant_scope.splits prod.splits) (metis snd_conv)+

text \<open>The assumptions of a job's settling: the handler leaves the dead-letter queue, of which \<open>dead\<close> is the content, alone,
  and the queue takes what it is given.\<close>

definition dead_letters_appended :: "'w worker_deps \<Rightarrow> ('w \<Rightarrow> (string \<times> json) list) \<Rightarrow> bool" where
  "dead_letters_appended d dead \<longleftrightarrow>
     (\<forall>job payload slot w. dead (snd (wd_process d job payload slot w)) = dead w) \<and>
     (\<forall>n payload opts w. \<exists>w'. wd_dlq_add d n payload opts w = (Inr (), w') \<and> dead w' = dead w @ [(n, payload)])"

lemma on_failed_last:
  assumes "dead_letters_appended d dead" "jq_deadLetter q" "option_or (bj_attempts job) 1 \<le> n \<or> is_unrecoverable err"
  shows "\<exists>l. dead (snd (on_failed d q (job\<lparr>bj_made := n\<rparr>) err w)) = dead w @ [l] \<and> is_dead_letter_of job q l"
proof -
  let ?data = "dead_letter_data d (jq_name q) (job\<lparr>bj_made := n\<rparr>) err"
  obtain w' where "wd_dlq_add d (bj_name job) ?data [(''removeOnComplete'', JBool False), (''removeOnFail'', JBool False)] w = (Inr (), w')"
      "dead w' = dead w @ [(bj_name job, ?data)]"
    using assms(1) unfolding dead_letters_appended_def by blast
  then have "dead (snd (on_failed d q (job\<lparr>bj_made := n\<rparr>) err w)) = dead w @ [(bj_name job, ?data)]"
    using assms(2,3) by (auto simp: on_failed_def dead_letter_job_def rescue_def)
  then show ?thesis using dead_letter_data_keeps by blast
qed

lemma on_failed_more:
  assumes "n < option_or (bj_attempts job) 1" "\<not> is_unrecoverable err"
  shows "on_failed d q (job\<lparr>bj_made := n\<rparr>) err w = (Inr (), w)"
  using assms by (simp add: on_failed_def dead_letter_job_def)

lemma dead_letter_of_again: "is_dead_letter_of (job\<lparr>bj_made := n\<rparr>) q l = is_dead_letter_of job q l"
  by (simp add: is_dead_letter_of_def)

lemma bull_run_settles:
  assumes dead: "dead_letters_appended d dead" and q: "jq_deadLetter q"
  shows "option_or (bj_attempts job) 1 = bj_made job + Suc left \<Longrightarrow> bull_run d q job (Suc left) w = (ok, w') \<Longrightarrow>
    (if ok then dead w' = dead w else \<exists>l. dead w' = dead w @ [l] \<and> is_dead_letter_of job q l)"
proof (induction left arbitrary: job w)
  case (0 job w)
  obtain res w1 where att: "worker_attempt d job w = (res, w1)" by (metis prod.exhaust)
  have same: "dead w1 = dead w" using worker_attempt_keeps [of dead d job w] dead att by (simp add: dead_letters_appended_def)
  show ?case
  proof (cases res)
    case (Inl err)
    then have "\<not> ok" "w' = snd (on_failed d q (job\<lparr>bj_made := bj_made job + 1\<rparr>) err w1)"
      using "0.prems"(2) att by (simp_all add: Let_def split: if_splits)
    then show ?thesis using on_failed_last [OF dead q, of job "bj_made job + 1" err w1] "0.prems"(1) same by simp
  next
    case (Inr u)
    then show ?thesis using "0.prems"(2) att same by auto
  qed
next
  case (Suc left job w)
  obtain res w1 where att: "worker_attempt d job w = (res, w1)" by (metis prod.exhaust)
  have same: "dead w1 = dead w" using worker_attempt_keeps [of dead d job w] dead att by (simp add: dead_letters_appended_def)
  show ?case
  proof (cases res)
    case (Inl err)
    let ?failed = "job\<lparr>bj_made := bj_made job + 1\<rparr>"
    show ?thesis
    proof (cases "is_unrecoverable err")
      case True
      then have "\<not> ok" "w' = snd (on_failed d q ?failed err w1)"
        using Suc.prems(2) att Inl by (simp_all only: bull_run.simps(2) [of d q job "Suc left" w]) (simp_all add: Let_def)
      then show ?thesis using on_failed_last [OF dead q, of job "bj_made job + 1" err w1] True same by simp
    next
      case False
      have "on_failed d q ?failed err w1 = (Inr (), w1)"
        using Suc.prems(1) False by (intro on_failed_more) simp_all
      then have "bull_run d q ?failed (Suc left) w1 = (ok, w')"
        using Suc.prems(2) att Inl False by (simp only: bull_run.simps(2) [of d q job "Suc left" w]) (simp add: Let_def)
      from Suc.IH [OF _ this] Suc.prems(1)
      have "if ok then dead w' = dead w1 else \<exists>l. dead w' = dead w1 @ [l] \<and> is_dead_letter_of ?failed q l" by simp
      then show ?thesis by (simp only: same dead_letter_of_again)
    qed
  next
    case (Inr u)
    then show ?thesis using Suc.prems(2) att same by auto
  qed
qed

text \<open>C18: A job settles once. Against a dead-letter queue that takes what it is given, a job of a dead-lettering queue with at
  least one attempt either completes and leaves no dead letter, or fails and leaves exactly one, under its own name, saying
  which queue and job it was, and keeping every field the job had, its tenant among them.\<close>

theorem job_settles_once:
  assumes "dead_letters_appended d dead" "jq_deadLetter q" "bj_made job = 0" "option_or (bj_attempts job) 1 = Suc left"
  shows "\<exists>ok w'. bull_run d q job (Suc left) w = (ok, w') \<and>
    (if ok then dead w' = dead w
     else \<exists>l. dead w' = dead w @ [l] \<and> is_dead_letter_of job q l \<and>
       js_prop (option_or (js_record (snd l)) []) JOB_TENANT_FIELD = js_prop (option_or (js_record (bj_data job)) []) JOB_TENANT_FIELD)"
proof -
  obtain ok w' where run: "bull_run d q job (Suc left) w = (ok, w')" by (metis prod.exhaust)
  have "if ok then dead w' = dead w else \<exists>l. dead w' = dead w @ [l] \<and> is_dead_letter_of job q l"
    using bull_run_settles [OF assms(1,2) _ run] assms(3,4) by simp
  moreover have "js_prop (option_or (js_record (snd l)) []) JOB_TENANT_FIELD = js_prop (option_or (js_record (bj_data job)) []) JOB_TENANT_FIELD"
    if "is_dead_letter_of job q l" for l
    using that unfolding is_dead_letter_of_def by (simp add: JOB_TENANT_FIELD_def)
  ultimately have "if ok then dead w' = dead w else \<exists>l. dead w' = dead w @ [l] \<and> is_dead_letter_of job q l \<and>
       js_prop (option_or (js_record (snd l)) []) JOB_TENANT_FIELD = js_prop (option_or (js_record (bj_data job)) []) JOB_TENANT_FIELD"
    by (simp only: if_bool_eq_conj) blast
  then show ?thesis using run by blast
qed

lemma job_settles_once_witness:
  "\<exists>l. snd (bull_run sample_worker sample_queue (sample_job ''acme'') 3 []) = [l] \<and> fst l = ''send''
    \<and> js_has (option_or (js_record (snd l)) []) JOB_TENANT_FIELD"
proof -
  have setting: "dead_letters_appended sample_worker (\<lambda>w. w)" "jq_deadLetter sample_queue" "bj_made (sample_job ''acme'') = 0"
      "option_or (bj_attempts (sample_job ''acme'')) 1 = Suc 2"
    by (simp_all add: dead_letters_appended_def sample_worker_def sample_queue_def sample_job_def option_or_def)
  have acme: "isTenantId ''acme''" by code_simp
  have down: "worker_attempt sample_worker (sample_job ''acme''\<lparr>bj_made := n\<rparr>) w = (Inl (PlainError ''Error'' ''down'' []), w)" for n w
    using acme by (simp add: worker_attempt_def processWithTrace_def detachTraceContext_def detachJobScope_def parseScope_def
        js_has_def js_prop_def parseTenantId_JStr runInJobScope_def isPermanentFailure_def rescue_def
        sample_job_def sample_worker_def JOB_TENANT_FIELD_def JOB_TRACE_FIELD_def)
  have step: "fst (bull_run sample_worker sample_queue (sample_job ''acme''\<lparr>bj_made := n\<rparr>) (Suc m) w)
      = fst (bull_run sample_worker sample_queue (sample_job ''acme''\<lparr>bj_made := n + 1\<rparr>) m
          (snd (on_failed sample_worker sample_queue (sample_job ''acme''\<lparr>bj_made := n + 1\<rparr>) (PlainError ''Error'' ''down'' []) w)))"
    for n m w
    by (subst bull_run.simps(2)) (simp only: down prod.case sum.case Let_def, simp)
  have zero: "sample_job ''acme'' = sample_job ''acme''\<lparr>bj_made := 0\<rparr>" by (simp add: sample_job_def)
  have failed: "\<not> fst (bull_run sample_worker sample_queue (sample_job ''acme'') 3 [])"
    unfolding numeral_3_eq_3 by (subst zero, subst step, subst step, subst step) simp
  obtain ok w' where "bull_run sample_worker sample_queue (sample_job ''acme'') (Suc 2) [] = (ok, w')"
    "if ok then w' = [] else \<exists>l. w' = [] @ [l] \<and> is_dead_letter_of (sample_job ''acme'') sample_queue l \<and>
       js_prop (option_or (js_record (snd l)) []) JOB_TENANT_FIELD
         = js_prop (option_or (js_record (bj_data (sample_job ''acme''))) []) JOB_TENANT_FIELD"
    using job_settles_once [OF setting, of "[]"] by blast
  then show ?thesis using failed
    by (auto simp: is_dead_letter_of_def sample_job_def option_or_def js_prop_def js_has_iff numeral_3_eq_3 numeral_2_eq_2)
qed

end
