(* ===== verification/Observability.thy ===== *)
theory Observability
  imports Patterns Signing "HOL-Library.AList"
begin

text \<open>
  What log records may show, and the trace a request belongs to (\<open>common/observability\<close>): the redaction of
  \<open>redaction.ts\<close>, with the pattern of an email address written out, and the trace ids of \<open>trace-context.ts\<close>
  and of the carriers \<open>propagation.ts\<close> writes. SHA-256 is a parameter, and so are the OpenTelemetry SDK's spans.
\<close>

subsection \<open>Redaction\<close>

definition REDACTED :: string where "REDACTED = ''[redacted]''"

definition EXACT_KEYS :: "string list" where
  "EXACT_KEYS = [''authorization'', ''cookie'', ''setcookie'', ''password'', ''passwordhash'', ''token'', ''tokens'',
     ''accesstoken'', ''refreshtoken'', ''secret'', ''clientsecret'', ''apikey'', ''xapikey'', ''xservicetoken'', ''xsignature'']"

definition SECRET_SUFFIXES :: "string list" where
  "SECRET_SUFFIXES = [''token'', ''secret'', ''password'', ''passwordhash'', ''apikey'']"

definition MAX_DEPTH :: nat where "MAX_DEPTH = 6"

definition normalise :: "string \<Rightarrow> string" where
  "normalise key = filter (\<lambda>c. c \<noteq> CHR ''-'' \<and> c \<noteq> CHR ''_'') (to_lower key)"

definition isSecretKey :: "string \<Rightarrow> bool" where
  "isSecretKey key \<longleftrightarrow> normalise key \<in> set EXACT_KEYS \<or> (\<exists>s \<in> set SECRET_SUFFIXES. ends_with s (normalise key))"

definition isEmailKey :: "string \<Rightarrow> bool" where
  "isEmailKey key \<longleftrightarrow> ends_with ''email'' (normalise key)"

definition hashEmail :: "(string \<Rightarrow> string) \<Rightarrow> string \<Rightarrow> string" where
  "hashEmail sha256 email = ''sha256:'' @ take 16 (sha256 (to_lower (js_trim email)))"

text \<open>\<open>EMAIL_IN_TEXT\<close> at the head of a text. Neither part of an address can give a character back to what follows
  it, so the longest runs are the match.\<close>

definition local_char :: "char \<Rightarrow> bool" where
  "local_char c \<longleftrightarrow> is_alnum c \<or> c \<in> set ''._%+-''"

definition label_char :: "char \<Rightarrow> bool" where
  "label_char c \<longleftrightarrow> is_alnum c \<or> c = CHR ''-''"

function dotted_labels :: "string \<Rightarrow> string \<times> string" where
  "dotted_labels (c # cs) =
     (if c = CHR ''.'' \<and> takeWhile label_char cs \<noteq> []
      then (case dotted_labels (dropWhile label_char cs) of (m, rest) \<Rightarrow> (c # takeWhile label_char cs @ m, rest))
      else ([], c # cs))"
| "dotted_labels [] = ([], [])"
  by pat_completeness auto

termination
  by (relation "measure length") (auto simp: length_dropWhile_le less_Suc_eq_le)

definition email_at :: "string \<Rightarrow> (string \<times> string) option" where
  "email_at s =
     (let name = takeWhile local_char s in
      case dropWhile local_char s of
        a # r \<Rightarrow>
          (let host = takeWhile label_char r; (labels, rest) = dotted_labels (dropWhile label_char r) in
           if name \<noteq> [] \<and> a = CHR ''@'' \<and> host \<noteq> [] \<and> labels \<noteq> [] then Some (name @ a # host @ labels, rest) else None)
      | [] \<Rightarrow> None)"

definition scrubText :: "(string \<Rightarrow> string) \<Rightarrow> string \<Rightarrow> string" where
  "scrubText sha256 = replace_all (\<lambda>s. map_option (map_prod (hashEmail sha256) id) (email_at s))"

text \<open>A logged value: a string, another primitive, an array, a plain object, or an instance of a class.\<close>

datatype logged =
    LUndefined
  | LNull
  | LText string
  | LPrimitive string
  | LArray "logged list"
  | LPlain "(string \<times> logged) list"
  | LInstance nat

fun text_of :: "logged \<Rightarrow> string option" where
  "text_of (LText s) = Some s"
| "text_of _ = None"

fun redact :: "(string \<Rightarrow> string) \<Rightarrow> nat \<Rightarrow> logged \<Rightarrow> logged"
  and redact_each :: "(string \<Rightarrow> string) \<Rightarrow> nat \<Rightarrow> logged list \<Rightarrow> logged list"
  and redact_entries :: "(string \<Rightarrow> string) \<Rightarrow> nat \<Rightarrow> (string \<times> logged) list \<Rightarrow> (string \<times> logged) list" where
  "redact sha256 d (LText s) = LText (scrubText sha256 s)"
| "redact sha256 d (LArray vs) = (if d > MAX_DEPTH then LArray vs else LArray (redact_each sha256 d vs))"
| "redact sha256 d (LPlain ps) = (if d > MAX_DEPTH then LPlain ps else LPlain (redact_entries sha256 d ps))"
| "redact sha256 d v = v"
| "redact_each sha256 d [] = []"
| "redact_each sha256 d (v # vs) = redact sha256 (Suc d) v # redact_each sha256 d vs"
| "redact_entries sha256 d [] = []"
| "redact_entries sha256 d ((k, v) # ps) =
     (k, if isSecretKey k then if v = LUndefined \<or> v = LNull then v else LText REDACTED
         else (case (if isEmailKey k then text_of v else None) of
                 Some s \<Rightarrow> LText (hashEmail sha256 s)
               | None \<Rightarrow> redact sha256 (Suc d) v)) # redact_entries sha256 d ps"

subsection \<open>Traces\<close>

record parsed_traceparent =
  tp_traceId :: string
  tp_spanId :: string
  tp_sampled :: bool

definition hex_value :: "char \<Rightarrow> nat" where
  "hex_value c = (if is_digit c then of_char c - 48 else of_char c - 87)"

definition all_zero :: "string \<Rightarrow> bool" where "all_zero s \<longleftrightarrow> list_all (\<lambda>c. c = CHR ''0'') s"

definition parseTraceparent :: "string option \<Rightarrow> parsed_traceparent option" where
  "parseTraceparent value =
     (case split_on CHR ''-'' (to_lower (js_trim (option_or value []))) of
        [ver, traceId, spanId, flags] \<Rightarrow>
          if length ver = 2 \<and> length traceId = 32 \<and> length spanId = 16 \<and> length flags = 2
             \<and> list_all (list_all is_lower_hex) [ver, traceId, spanId, flags]
             \<and> ver \<noteq> ''ff'' \<and> \<not> all_zero traceId \<and> \<not> all_zero spanId
          then Some \<lparr>tp_traceId = traceId, tp_spanId = spanId, tp_sampled = odd (hex_value (flags ! 0) * 16 + hex_value (flags ! 1))\<rparr>
          else None
      | _ \<Rightarrow> None)"

text \<open>\<open>newTraceId\<close> draws until the id is not all zeros; \<open>None\<close> when the draws given are used up.\<close>

fun newTraceId :: "string list \<Rightarrow> string option" where
  "newTraceId [] = None"
| "newTraceId (d # ds) = (if all_zero d then newTraceId ds else Some d)"

text \<open>The id memoised on a request, its active span and its \<open>traceparent\<close> header.\<close>

record traced_request =
  tq_memo :: "string option"
  tq_span :: "string option"
  tq_header :: "string option"

definition requestTraceId :: "string list \<Rightarrow> traced_request \<Rightarrow> string option \<times> traced_request" where
  "requestTraceId draws req =
     (case nonempty (tq_memo req) of
        Some known \<Rightarrow> (Some known, req)
      | None \<Rightarrow>
          (let i = (case tq_span req of
                      Some t \<Rightarrow> Some t
                    | None \<Rightarrow> (case parseTraceparent (tq_header req) of Some p \<Rightarrow> Some (tp_traceId p) | None \<Rightarrow> newTraceId draws))
           in (i, req\<lparr>tq_memo := i\<rparr>)))"

definition writable_trace_id :: "string \<Rightarrow> bool" where
  "writable_trace_id t \<longleftrightarrow> length t = 32 \<and> list_all is_lower_hex t \<and> \<not> all_zero t"

text \<open>What \<open>injectTraceContext\<close> adds to a carrier the propagator has written to: \<open>active\<close> is the trace id of the context's span,
  \<open>bound\<close> that of the request context, \<open>fresh\<close> sixteen random hexadecimal digits.\<close>

definition injectTraceContext :: "string option \<Rightarrow> string option \<Rightarrow> string \<Rightarrow> (string \<times> string) list \<Rightarrow> (string \<times> string) list" where
  "injectTraceContext active bound fresh carrier =
     (case nonempty (map_of carrier ''traceparent'') of
        Some _ \<Rightarrow> carrier
      | None \<Rightarrow>
          (case (case active of Some t \<Rightarrow> Some t | None \<Rightarrow> bound) of
             Some t \<Rightarrow> if writable_trace_id t then AList.update ''traceparent'' (''00-'' @ t @ ''-'' @ fresh @ ''-01'') carrier else carrier
           | None \<Rightarrow> carrier))"

subsection \<open>Addresses in text\<close>

definition sep :: "char \<Rightarrow> bool" where "sep c \<longleftrightarrow> \<not> local_char c \<and> c \<noteq> CHR ''@''"

lemma while_stops:
  "\<not> P c \<Longrightarrow> takeWhile P (xs @ c # s) = takeWhile P xs" "\<not> P c \<Longrightarrow> dropWhile P (xs @ c # s) = dropWhile P xs @ c # s"
  by (induction xs) auto

lemma sep_not_label: "sep c \<Longrightarrow> \<not> label_char c" "sep c \<Longrightarrow> c \<noteq> CHR ''.''" "sep c \<Longrightarrow> \<not> local_char c" "sep c \<Longrightarrow> c \<noteq> CHR ''@''"
  by (auto simp: sep_def local_char_def label_char_def)

lemma dotted_labels_sep: "sep c \<Longrightarrow> dotted_labels (pre @ c # s) = map_prod id (\<lambda>r. r @ c # s) (dotted_labels pre)"
proof (induction pre rule: dotted_labels.induct)
  case (1 x xs)
  then show ?case by (auto simp: while_stops sep_not_label split: prod.splits)
next
  case 2
  then show ?case by (simp add: sep_not_label)
qed

lemma email_at_none: "(\<And>a r. dropWhile local_char s = a # r \<Longrightarrow> a \<noteq> CHR ''@'') \<Longrightarrow> email_at s = None"
  unfolding email_at_def Let_def by (cases "dropWhile local_char s") (auto simp del: dropWhile_eq_Nil_conv split: prod.splits)

lemma email_at_sep:
  assumes "sep c" shows "email_at (pre @ c # s) = map_option (map_prod id (\<lambda>r. r @ c # s)) (email_at pre)"
proof (cases "dropWhile local_char pre")
  case Nil
  then have "email_at pre = None" by (intro email_at_none) (simp del: dropWhile_eq_Nil_conv)
  moreover have "email_at (pre @ c # s) = None"
    using Nil sep_not_label [OF assms] by (intro email_at_none) (auto simp: while_stops simp del: dropWhile_eq_Nil_conv)
  ultimately show ?thesis by simp
next
  case (Cons a r)
  then show ?thesis
    using sep_not_label [OF assms] dotted_labels_sep [OF assms, of "dropWhile label_char r" s]
    by (simp add: email_at_def while_stops Let_def split: prod.splits)
qed

lemma scrubText_sep:
  assumes "sep c" shows "scrubText h (pre @ c # s) = scrubText h pre @ c # scrubText h s"
proof -
  let ?m = "\<lambda>s. map_option (map_prod (hashEmail h) id) (email_at s)"
  have at: "?m (pre @ c # s) = map_option (map_prod id (\<lambda>r. r @ c # s)) (?m pre)" for pre
    by (simp add: email_at_sep [OF assms] option.map_comp comp_def prod.map_comp)
  have "replace_all ?m (pre @ c # s) = replace_all ?m pre @ c # replace_all ?m s"
  proof (induction ?m pre rule: replace_all.induct)
    case 1
    then show ?case using at [of "[]"] by (simp add: email_at_def)
  next
    case (2 x xs)
    then show ?case using at [of "x # xs"] by (auto split: option.splits prod.splits)
  qed
  then show ?thesis by (simp add: scrubText_def)
qed

lemma scrubText_address: "email_at e = Some (e, []) \<Longrightarrow> scrubText h e = hashEmail h e"
  by (cases e) (auto simp: scrubText_def email_at_def)

lemma email_at_at: "CHR ''@'' \<notin> set s \<Longrightarrow> email_at s = None"
  by (rule email_at_none) (metis list.set_intros(1) set_dropWhileD)

lemma scrubText_plain: "CHR ''@'' \<notin> set s \<Longrightarrow> scrubText h s = s"
  unfolding scrubText_def by (induction s) (auto simp: email_at_at)

text \<open>Addresses in text are hashed. In a text of words separated by a character no address has, every word that is an
  address appears as the hash of the address, whatever its case, and every word without an at sign as it is.\<close>

theorem addresses_in_text_are_hashed:
  assumes "sep c" "CHR ''@'' \<notin> set before"
  shows "scrubText h (join_with c ws) = join_with c (map (scrubText h) ws)
    \<and> (email_at e = Some (e, []) \<longrightarrow> scrubText h e = hashEmail h e) \<and> scrubText h before = before"
proof -
  have "scrubText h (join_with c ws) = join_with c (map (scrubText h) ws)"
    using assms(1) by (induction c ws rule: join_with.induct) (simp_all add: scrubText_sep scrubText_plain)
  then show ?thesis using assms(2) by (simp add: scrubText_address scrubText_plain)
qed

subsection \<open>Records that show nothing\<close>

text \<open>What redaction is for, without its helpers. A key spells a word when it is the word in any case, with any
  hyphens and underscores in it.\<close>

fun spells :: "string \<Rightarrow> string \<Rightarrow> bool" where
  "spells [] w \<longleftrightarrow> w = []"
| "spells (c # cs) w \<longleftrightarrow>
     (if c = CHR ''-'' \<or> c = CHR ''_'' then spells cs w
      else (case w of [] \<Rightarrow> False
            | d # ds \<Rightarrow> (c = d \<or> (is_upper c \<and> (of_char c :: nat) + 32 = of_char d)) \<and> spells cs ds))"

definition CREDENTIAL_NAMES :: "string list" where
  "CREDENTIAL_NAMES = [''authorization'', ''cookie'', ''setcookie'', ''tokens'', ''xsignature'']"

definition CREDENTIAL_ENDINGS :: "string list" where
  "CREDENTIAL_ENDINGS = [''token'', ''secret'', ''password'', ''passwordhash'', ''apikey'']"

definition credential_key :: "string \<Rightarrow> bool" where
  "credential_key k \<longleftrightarrow> (\<exists>w \<in> set CREDENTIAL_NAMES. spells k w)
     \<or> (\<exists>w \<in> set CREDENTIAL_ENDINGS. \<exists>p s. k = p @ s \<and> spells s w)"

definition address_key :: "string \<Rightarrow> bool" where
  "address_key k \<longleftrightarrow> (\<exists>p s. k = p @ s \<and> spells s ''email'')"

text \<open>The entries of the objects of a value, each with how many objects and arrays its object is inside.\<close>

fun shown :: "nat \<Rightarrow> logged \<Rightarrow> (nat \<times> string \<times> logged) list"
  and shown_each :: "nat \<Rightarrow> logged list \<Rightarrow> (nat \<times> string \<times> logged) list"
  and shown_entries :: "nat \<Rightarrow> (string \<times> logged) list \<Rightarrow> (nat \<times> string \<times> logged) list" where
  "shown n (LArray vs) = shown_each (Suc n) vs"
| "shown n (LPlain ps) = shown_entries n ps"
| "shown n v = []"
| "shown_each n [] = []"
| "shown_each n (v # vs) = shown n v @ shown_each n vs"
| "shown_entries n [] = []"
| "shown_entries n ((k, v) # ps) = (n, k, v) # shown (Suc n) v @ shown_entries n ps"

text \<open>A value with nothing to hide: no such key, and no text with an at sign.\<close>

fun harmless :: "logged \<Rightarrow> bool"
  and harmless_each :: "logged list \<Rightarrow> bool"
  and harmless_entries :: "(string \<times> logged) list \<Rightarrow> bool" where
  "harmless (LText s) \<longleftrightarrow> CHR ''@'' \<notin> set s"
| "harmless (LArray vs) \<longleftrightarrow> harmless_each vs"
| "harmless (LPlain ps) \<longleftrightarrow> harmless_entries ps"
| "harmless v \<longleftrightarrow> True"
| "harmless_each [] \<longleftrightarrow> True"
| "harmless_each (v # vs) \<longleftrightarrow> harmless v \<and> harmless_each vs"
| "harmless_entries [] \<longleftrightarrow> True"
| "harmless_entries ((k, v) # ps) \<longleftrightarrow> \<not> credential_key k \<and> \<not> address_key k \<and> harmless v \<and> harmless_entries ps"

text \<open>Two values that differ only under keys of credentials, or in the case and the spaces of an address under an
  email key, in objects inside at most six others.\<close>

definition nullish :: "logged \<Rightarrow> bool" where "nullish v \<longleftrightarrow> v = LUndefined \<or> v = LNull"

fun same_public :: "nat \<Rightarrow> logged \<Rightarrow> logged \<Rightarrow> bool"
  and same_each :: "nat \<Rightarrow> logged list \<Rightarrow> logged list \<Rightarrow> bool"
  and same_entries :: "nat \<Rightarrow> (string \<times> logged) list \<Rightarrow> (string \<times> logged) list \<Rightarrow> bool" where
  "same_public d (LArray vs) (LArray ws) = (if d > 6 then vs = ws else same_each d vs ws)"
| "same_public d (LPlain ps) (LPlain qs) = (if d > 6 then ps = qs else same_entries d ps qs)"
| "same_public d v w = (v = w)"
| "same_each d (v # vs) (w # ws) = (same_public (Suc d) v w \<and> same_each d vs ws)"
| "same_each d vs ws = (vs = ws)"
| "same_entries d ((k, v) # ps) ((j, w) # qs) =
     (k = j \<and>
      (if credential_key k then v = w \<or> \<not> nullish v \<and> \<not> nullish w
       else (address_key k \<and> (\<exists>a b. v = LText a \<and> w = LText b \<and> to_lower (js_trim a) = to_lower (js_trim b)))
         \<or> same_public (Suc d) v w) \<and>
      same_entries d ps qs)"
| "same_entries d ps qs = (ps = qs)"

lemma letter_spelled:
  assumes "is_lower d"
  shows "(c = d \<or> (is_upper c \<and> (of_char c :: nat) + 32 = of_char d)) \<longleftrightarrow> lower_char c = d"
proof -
  let ?n = "of_char c :: nat" and ?m = "of_char d :: nat"
  have m: "97 \<le> ?m" "?m \<le> 122" using assms by (simp_all add: is_lower_def)
  have same: "c = d \<longleftrightarrow> ?n = ?m" by simp
  have up: "char_of (?n + 32) = d \<longleftrightarrow> ?n + 32 = ?m" if "?n + 32 < 256"
    using that by (metis char_of_char of_char_of mod_less)
  show ?thesis
  proof (cases "?n \<in> {65 .. 90}")
    case True
    then show ?thesis using m up same by (auto simp: lower_char_def Let_def is_upper_def)
  next
    case False
    show ?thesis
    proof (cases "?n \<in> {192 .. 222} \<and> ?n \<noteq> 215")
      case True
      then show ?thesis using m up same by (auto simp: lower_char_def Let_def is_upper_def)
    next
      case no: False
      then have "lower_char c = c" using False by (auto simp: lower_char_def Let_def)
      then show ?thesis using False by (auto simp: is_upper_def)
    qed
  qed
qed

lemma lower_no_separator: "is_lower d \<Longrightarrow> d \<noteq> CHR ''-'' \<and> d \<noteq> CHR ''_''"
  by (auto simp: is_lower_def)

lemma lower_char_separator: "lower_char c = CHR ''-'' \<longleftrightarrow> c = CHR ''-''" "lower_char c = CHR ''_'' \<longleftrightarrow> c = CHR ''_''"
proof -
  have "lower_char c = s \<longleftrightarrow> c = s" if s: "(of_char s :: nat) \<in> {45, 95}" for s
  proof (cases "lower_char c = c")
    case False
    then have n: "(of_char c :: nat) \<in> {65 .. 90} \<or> (of_char c :: nat) \<in> {192 .. 222}"
      by (auto simp: lower_char_def Let_def split: if_splits)
    then have "(of_char (lower_char c) :: nat) = of_char c + 32" using False
      by (auto simp: lower_char_def Let_def)
    then show ?thesis using n s by auto
  qed simp
  then show "lower_char c = CHR ''-'' \<longleftrightarrow> c = CHR ''-''" "lower_char c = CHR ''_'' \<longleftrightarrow> c = CHR ''_''" by simp_all
qed

lemma spells_normalise: "list_all is_lower w \<Longrightarrow> spells k w \<longleftrightarrow> normalise k = w"
proof (induction k arbitrary: w)
  case (Cons c cs)
  show ?case
  proof (cases "c = CHR ''-'' \<or> c = CHR ''_''")
    case True
    then show ?thesis using Cons by (auto simp: normalise_def to_lower_def lower_char_separator)
  next
    case False
    then have "normalise (c # cs) = lower_char c # normalise cs"
      by (simp add: normalise_def to_lower_def lower_char_separator)
    then show ?thesis using False Cons by (cases w) (auto simp: letter_spelled simp del: not_None_eq)
  qed
qed (auto simp: normalise_def to_lower_def)

lemma normalise_append: "normalise (a @ b) = normalise a @ normalise b"
  by (simp add: normalise_def to_lower_def)

lemma normalise_split: "normalise k = p @ w \<Longrightarrow> \<exists>a s. k = a @ s \<and> normalise s = w"
proof (induction k arbitrary: p)
  case (Cons c cs)
  show ?case
  proof (cases p)
    case Nil
    then show ?thesis using Cons.prems by (metis append_Nil)
  next
    case (Cons d ds)
    then have "\<exists>q. normalise cs = q @ w" using Cons.prems by (auto simp: normalise_def to_lower_def split: if_splits)
    then show ?thesis using Cons.IH by (metis append_Cons)
  qed
qed (simp add: normalise_def to_lower_def)

lemma ends_spelled:
  assumes "list_all is_lower w"
  shows "(\<exists>p s. k = p @ s \<and> spells s w) \<longleftrightarrow> ends_with w (normalise k)"
proof -
  have "ends_with w (normalise k) \<longleftrightarrow> (\<exists>p. normalise k = p @ w)"
    by (metis ends_with_def starts_with_iff rev_append rev_rev_ident)
  also have "\<dots> \<longleftrightarrow> (\<exists>p s. k = p @ s \<and> normalise s = w)"
    using normalise_split normalise_append by metis
  finally show ?thesis using spells_normalise [OF assms] by simp
qed

lemma isEmailKey_spelled: "isEmailKey k \<longleftrightarrow> address_key k"
proof -
  have "list_all is_lower ''email''" by code_simp
  then show ?thesis by (simp add: isEmailKey_def address_key_def ends_spelled)
qed

lemma isSecretKey_spelled: "isSecretKey k \<longleftrightarrow> credential_key k"
proof -
  have names: "list_all (list_all is_lower) CREDENTIAL_NAMES" "list_all (list_all is_lower) CREDENTIAL_ENDINGS"
    "list_all (\<lambda>w. w \<in> set EXACT_KEYS) CREDENTIAL_NAMES"
    "list_all (\<lambda>w. w \<in> set CREDENTIAL_NAMES \<or> list_ex (\<lambda>s. ends_with s w) CREDENTIAL_ENDINGS) EXACT_KEYS" by code_simp+
  have "isSecretKey k \<longleftrightarrow> normalise k \<in> set EXACT_KEYS \<or> (\<exists>s \<in> set CREDENTIAL_ENDINGS. ends_with s (normalise k))"
    unfolding isSecretKey_def SECRET_SUFFIXES_def CREDENTIAL_ENDINGS_def by (rule refl)
  also have "\<dots> \<longleftrightarrow> normalise k \<in> set CREDENTIAL_NAMES \<or> (\<exists>s \<in> set CREDENTIAL_ENDINGS. ends_with s (normalise k))"
    using names(3,4) unfolding list_all_iff list_ex_iff by blast
  also have "normalise k \<in> set CREDENTIAL_NAMES \<longleftrightarrow> (\<exists>w \<in> set CREDENTIAL_NAMES. spells k w)"
    using spells_normalise names(1) unfolding list_all_iff [of _ CREDENTIAL_NAMES] by metis
  also have "(\<exists>s \<in> set CREDENTIAL_ENDINGS. ends_with s (normalise k))
      \<longleftrightarrow> (\<exists>w \<in> set CREDENTIAL_ENDINGS. \<exists>p s. k = p @ s \<and> spells s w)"
    using ends_spelled names(2) unfolding list_all_iff [of _ CREDENTIAL_ENDINGS] by metis
  finally show ?thesis unfolding credential_key_def .
qed

lemma same_text: "same_public d (LText a) w \<longleftrightarrow> w = LText a" "same_public d v (LText a) \<longleftrightarrow> v = LText a"
  by (cases w; auto) (cases v; auto)

lemma text_of_iff: "text_of v = Some s \<longleftrightarrow> v = LText s"
  by (cases v) auto

lemma entry_same:
  assumes "same_public (Suc d) v w" "redact sha256 (Suc d) v = redact sha256 (Suc d) w"
  shows "(case (if e then text_of v else None) of Some s \<Rightarrow> LText (hashEmail sha256 s) | None \<Rightarrow> redact sha256 (Suc d) v)
    = (case (if e then text_of w else None) of Some s \<Rightarrow> LText (hashEmail sha256 s) | None \<Rightarrow> redact sha256 (Suc d) w)"
proof -
  have "text_of v = text_of w" using assms(1) same_text by (metis not_None_eq text_of_iff)
  then show ?thesis using assms(2) by (simp split: option.splits)
qed

lemma entry_email:
  assumes "isEmailKey k" "v = LText a" "w = LText b" "to_lower (js_trim a) = to_lower (js_trim b)"
  shows "(case (if isEmailKey k then text_of v else None) of Some s \<Rightarrow> LText (hashEmail sha256 s) | None \<Rightarrow> redact sha256 (Suc d) v)
    = (case (if isEmailKey k then text_of w else None) of Some s \<Rightarrow> LText (hashEmail sha256 s) | None \<Rightarrow> redact sha256 (Suc d) w)"
  using assms by (simp add: hashEmail_def)

lemma redaction_hides:
  "same_public d v w \<Longrightarrow> redact sha256 d v = redact sha256 d w"
  "same_each d vs ws \<Longrightarrow> redact_each sha256 d vs = redact_each sha256 d ws"
  "same_entries d ps qs \<Longrightarrow> redact_entries sha256 d ps = redact_entries sha256 d qs"
proof (induction d v w and d vs ws and d ps qs rule: same_public_same_each_same_entries.induct)
  case (6 d k v ps j w qs)
  note IH = 6(1,2) and same = 6(3)
  show ?case
  proof (cases "credential_key k")
    case True
    then show ?thesis using same IH(2) by (auto simp: nullish_def isSecretKey_spelled)
  next
    case False
    then have "(\<exists>a b. isEmailKey k \<and> v = LText a \<and> w = LText b \<and> to_lower (js_trim a) = to_lower (js_trim b)) \<or> same_public (Suc d) v w"
      using same by (auto simp: isEmailKey_spelled)
    then have "(case (if isEmailKey k then text_of v else None) of Some s \<Rightarrow> LText (hashEmail sha256 s) | None \<Rightarrow> redact sha256 (Suc d) v)
      = (case (if isEmailKey k then text_of w else None) of Some s \<Rightarrow> LText (hashEmail sha256 s) | None \<Rightarrow> redact sha256 (Suc d) w)"
      using entry_email entry_same IH(1) [OF False] by blast
    then show ?thesis using False same IH(2) by (simp add: isSecretKey_spelled)
  qed
qed (auto simp: MAX_DEPTH_def)

text \<open>What is shown of an entry with a key that tells of a credential or an address.\<close>

definition hidden :: "(string \<Rightarrow> string) \<Rightarrow> string \<Rightarrow> logged \<Rightarrow> bool" where
  "hidden sha256 k v \<longleftrightarrow>
     (if credential_key k then v \<in> {LUndefined, LNull, LText ''[redacted]''}
      else address_key k \<longrightarrow> (\<forall>s. v = LText s \<longrightarrow> (\<exists>a. s = ''sha256:'' @ take 16 (sha256 (to_lower (js_trim a))))))"

lemma shown_level:
  "(m, k, w) \<in> set (shown n v) \<Longrightarrow> n \<le> m" "(m, k, w) \<in> set (shown_each n vs) \<Longrightarrow> n \<le> m"
  "(m, k, w) \<in> set (shown_entries n ps) \<Longrightarrow> n \<le> m"
  by (induction n v and n vs and n ps rule: shown_shown_each_shown_entries.induct) (auto dest: Suc_leD)

lemma redact_text: "redact sha256 d v = LText s \<Longrightarrow> text_of v \<noteq> None"
  by (cases v) (auto split: if_splits)

lemma redaction_shown:
  "(n, k, w) \<in> set (shown d (redact sha256 d v)) \<Longrightarrow> n \<le> 6 \<Longrightarrow> hidden sha256 k w"
  "(n, k, w) \<in> set (shown_each (Suc d) (redact_each sha256 d vs)) \<Longrightarrow> n \<le> 6 \<Longrightarrow> hidden sha256 k w"
  "(n, k, w) \<in> set (shown_entries d (redact_entries sha256 d ps)) \<Longrightarrow> n \<le> 6 \<Longrightarrow> hidden sha256 k w"
proof (induction sha256 d v and sha256 d vs and sha256 d ps rule: redact_redact_each_redact_entries.induct)
  case (2 sha256 d vs)
  show ?case
  proof (cases "6 < d")
    case True
    then show ?thesis using 2(2,3) shown_level(2) [of n k w "Suc d" vs] by (simp add: MAX_DEPTH_def)
  next
    case False
    then show ?thesis using 2 by (simp add: MAX_DEPTH_def)
  qed
next
  case (3 sha256 d ps)
  show ?case
  proof (cases "6 < d")
    case True
    then show ?thesis using 3(2,3) shown_level(3) [of n k w d ps] by (simp add: MAX_DEPTH_def)
  next
    case False
    then show ?thesis using 3 by (simp add: MAX_DEPTH_def)
  qed
next
  case (8 sha256 d key v ps)
  let ?out = "if isSecretKey key then if v = LUndefined \<or> v = LNull then v else LText REDACTED
         else (case (if isEmailKey key then text_of v else None) of
                 Some s \<Rightarrow> LText (hashEmail sha256 s) | None \<Rightarrow> redact sha256 (Suc d) v)"
  have "(n, k, w) = (d, key, ?out) \<or> (n, k, w) \<in> set (shown (Suc d) ?out)
      \<or> (n, k, w) \<in> set (shown_entries d (redact_entries sha256 d ps))" using 8(3) by simp
  then show ?case
  proof (elim disjE)
    assume here: "(n, k, w) = (d, key, ?out)"
    show ?thesis
    proof (cases "isSecretKey key")
      case True
      then show ?thesis using here by (auto simp: hidden_def isSecretKey_spelled [symmetric] REDACTED_def)
    next
      case False
      then have "\<exists>a. s = ''sha256:'' @ take 16 (sha256 (to_lower (js_trim a)))" if "isEmailKey key" "?out = LText s" for s
        using that redact_text [of sha256 "Suc d" v s] by (auto simp: hashEmail_def split: option.splits)
      then show ?thesis using here False by (auto simp: hidden_def isSecretKey_spelled isEmailKey_spelled)
    qed
  next
    assume "(n, k, w) \<in> set (shown (Suc d) ?out)"
    then have "\<not> isSecretKey key \<and> (n, k, w) \<in> set (shown (Suc d) (redact sha256 (Suc d) v))"
      by (auto split: if_splits option.splits)
    moreover from this have "text_of v = None" by (cases v) auto
    ultimately show ?thesis using 8(1,4) by auto
  next
    assume "(n, k, w) \<in> set (shown_entries d (redact_entries sha256 d ps))"
    then show ?thesis using 8(2,4) by blast
  qed
qed auto

lemma redaction_keeps_harmless:
  "harmless v \<Longrightarrow> redact sha256 d v = v" "harmless_each vs \<Longrightarrow> redact_each sha256 d vs = vs"
  "harmless_entries ps \<Longrightarrow> redact_entries sha256 d ps = ps"
  by (induction sha256 d v and sha256 d vs and sha256 d ps rule: redact_redact_each_redact_entries.induct)
    (simp_all add: scrubText_plain isSecretKey_spelled isEmailKey_spelled)

text \<open>C27: Log records show no credential. In what \<open>redact\<close> makes of a value, take any entry of an object that is inside
  at most six others. Under a key that spells, in any case and with any hyphens and underscores, the name of a
  credential (authorization, cookie, set-cookie, tokens, x-signature, or an ending of token, secret, password,
  password-hash or api-key) stands nothing or \<open>[redacted]\<close>; under one that ends in email no text stands but the
  hash of an address. Two values that differ only there make the same record, and a value with nothing to hide is
  logged as it is. Below six levels nothing is hidden: \<open>redaction_stops_at_depth\<close>.\<close>

theorem redaction_hides_credentials:
  "(\<forall>n k v. (n, k, v) \<in> set (shown 0 (redact sha256 0 x)) \<and> n \<le> 6 \<longrightarrow> hidden sha256 k v)
   \<and> (same_public 0 x y \<longrightarrow> redact sha256 0 x = redact sha256 0 y)
   \<and> (harmless x \<longrightarrow> redact sha256 0 x = x)"
  using redaction_shown(1) redaction_hides(1) redaction_keeps_harmless(1) by blast

definition toy_digest :: "string \<Rightarrow> string" where "toy_digest s = replicate 64 CHR ''0''"

lemma redaction_hides_credentials_witness:
  "redact toy_digest 0 (LPlain [(''User-Email'', LText '' Ann@x.io''), (''auth'', LPlain [(''Refresh_Token'', LText ''aaa'')])])
     = redact toy_digest 0 (LPlain [(''User-Email'', LText ''ann@X.IO''), (''auth'', LPlain [(''Refresh_Token'', LText ''bbb'')])])
   \<and> hidden toy_digest ''API-Key'' (LText ''[redacted]'')
   \<and> redact toy_digest 0 (LPlain [(''msg'', LText ''hello'')]) = LPlain [(''msg'', LText ''hello'')]"
proof -
  have keys: "address_key ''User-Email''" "\<not> credential_key ''User-Email''" "\<not> credential_key ''auth''"
      "credential_key ''Refresh_Token''" "\<not> credential_key ''msg''" "\<not> address_key ''msg''"
    unfolding isSecretKey_spelled [symmetric] isEmailKey_spelled [symmetric] by code_simp+
  have "to_lower (js_trim '' Ann@x.io'') = to_lower (js_trim ''ann@X.IO'')" by code_simp
  then have "same_public 0 (LPlain [(''User-Email'', LText '' Ann@x.io''), (''auth'', LPlain [(''Refresh_Token'', LText ''aaa'')])])
    (LPlain [(''User-Email'', LText ''ann@X.IO''), (''auth'', LPlain [(''Refresh_Token'', LText ''bbb'')])])"
    by (simp add: keys nullish_def)
  moreover have "(0, ''API-Key'', LText ''[redacted]'') \<in> set (shown 0 (redact toy_digest 0 (LPlain [(''API-Key'', LText ''k'')])))"
    by code_simp
  moreover have "harmless (LPlain [(''msg'', LText ''hello'')])" by (simp add: keys)
  ultimately show ?thesis using redaction_hides_credentials by blast
qed

lemma addresses_in_text_are_hashed_witness:
  "scrubText toy_digest ''from ann@x.io'' = ''from '' @ hashEmail toy_digest ''ann@x.io''"
proof -
  have s: "sep CHR '' ''" "CHR ''@'' \<notin> set ''from''" "email_at ''ann@x.io'' = Some (''ann@x.io'', [])" by code_simp+
  note hashed = addresses_in_text_are_hashed [OF s(1,2), of toy_digest]
  have "scrubText toy_digest ''ann@x.io'' = hashEmail toy_digest ''ann@x.io''" "scrubText toy_digest ''from'' = ''from''"
    using hashed s(3) by blast+
  moreover have "scrubText toy_digest (join_with CHR '' '' [''from'', ''ann@x.io''])
      = join_with CHR '' '' [scrubText toy_digest ''from'', scrubText toy_digest ''ann@x.io'']"
    using conjunct1 [OF hashed [of "[''from'', ''ann@x.io'']" "[]"]] by (simp only: list.map)
  ultimately show ?thesis by simp
qed

text \<open>A value \<open>n\<close> objects deep.\<close>

primrec nested :: "nat \<Rightarrow> logged \<Rightarrow> logged" where
  "nested 0 v = v"
| "nested (Suc n) v = LPlain [(''a'', nested n v)]"

lemma redact_nested: "d + n \<le> Suc MAX_DEPTH \<Longrightarrow> redact sha256 d (nested n v) = nested n (redact sha256 (d + n) v)"
proof (induction n arbitrary: d)
  case 0
  show ?case by simp
next
  case (Suc n)
  have "\<not> isSecretKey ''a''" "\<not> isEmailKey ''a''" by code_simp+
  then show ?case using Suc.IH [of "Suc d"] Suc.prems by simp
qed

text \<open>Redaction stops. A credential seven objects deep, whatever its key, is logged as it is, while one object up it is
  hidden; the comment of \<open>redact\<close> makes no exception for depth.\<close>

theorem redaction_stops_at_depth:
  assumes "isSecretKey k"
  shows "redact sha256 0 (nested 7 (LPlain [(k, LText secret)])) = nested 7 (LPlain [(k, LText secret)])
    \<and> redact sha256 0 (nested 6 (LPlain [(k, LText secret)])) = nested 6 (LPlain [(k, LText REDACTED)])"
  using redact_nested [of 0 7] redact_nested [of 0 6] assms by (simp add: MAX_DEPTH_def)

lemma redaction_stops_at_depth_witness:
  "redact toy_digest 0 (nested 7 (LPlain [(''password'', LText ''hunter2'')])) = nested 7 (LPlain [(''password'', LText ''hunter2'')])"
proof -
  have "isSecretKey ''password''" by code_simp
  then show ?thesis using redaction_stops_at_depth [of "''password''"] by blast
qed
subsection \<open>A trace goes on\<close>

definition trace_char :: "char \<Rightarrow> bool" where "trace_char c \<longleftrightarrow> is_lower_hex c \<or> c = CHR ''-''"

lemma trace_char_plain: "trace_char c \<Longrightarrow> lower_char c = c" "trace_char c \<Longrightarrow> \<not> is_space c"
  by (auto simp: trace_char_def is_lower_hex_def is_digit_def lower_char_def is_space_def Let_def)

lemma trace_text_plain: "list_all trace_char s \<Longrightarrow> to_lower (js_trim s) = s"
proof -
  assume all: "list_all trace_char s"
  then have "dropWhile is_space s = s" by (cases s) (auto simp: trace_char_plain)
  moreover have "dropWhile is_space (rev s) = rev s"
    using all by (cases s rule: rev_cases) (auto simp: trace_char_plain)
  ultimately have "js_trim s = s" by (simp add: js_trim_def)
  then show ?thesis using all by (simp add: to_lower_def list_all_iff trace_char_plain map_idI)
qed

lemma hex_not_dash: "list_all is_lower_hex s \<Longrightarrow> CHR ''-'' \<notin> set s"
  by (auto simp: list_all_iff is_lower_hex_def is_digit_def)

lemma parse_parts:
  assumes "length ver = 2" "length t = 32" "length sp = 16" "length fl = 2" "ver \<noteq> ''ff''" "\<not> all_zero t" "\<not> all_zero sp"
    and hex: "list_all (list_all is_lower_hex) [ver, t, sp, fl]"
  shows "parseTraceparent (Some (join_with CHR ''-'' [ver, t, sp, fl]))
    = Some \<lparr>tp_traceId = t, tp_spanId = sp, tp_sampled = odd (hex_value (fl ! 0) * 16 + hex_value (fl ! 1))\<rparr>"
proof -
  let ?s = "join_with CHR ''-'' [ver, t, sp, fl]"
  have "list_all trace_char ?s" using hex by (auto simp: list_all_iff trace_char_def)
  then have "to_lower (js_trim ?s) = ?s" by (rule trace_text_plain)
  moreover have "split_on CHR ''-'' ?s = [ver, t, sp, fl]"
    using hex hex_not_dash by (intro split_on_join) auto
  ultimately show ?thesis using assms by (simp add: parseTraceparent_def option_or_def)
qed

lemma valid_traceparent_parses:
  assumes "isValidTraceparent s"
  shows "\<exists>p. parseTraceparent (Some s) = Some p \<and> tp_traceId p = split_on CHR ''-'' s ! 1 \<and> writable_trace_id (tp_traceId p)"
proof -
  obtain ver t sp fl where parts: "split_on CHR ''-'' s = [ver, t, sp, fl]"
    and ok: "length ver = 2" "length t = 32" "length sp = 16" "length fl = 2" "ver \<noteq> ''ff''" "\<not> all_zero t" "\<not> all_zero sp"
      "list_all (list_all is_lower_hex) [ver, t, sp, fl]"
    using assms by (auto simp: isValidTraceparent_def all_zero_def split: list.splits)
  have "list_all trace_char s"
    using set_split_on [of s "CHR ''-''"] ok(8) unfolding parts by (auto simp: list_all_iff trace_char_def)
  then have "to_lower (js_trim s) = s" by (rule trace_text_plain)
  then show ?thesis using ok by (simp add: parseTraceparent_def option_or_def parts writable_trace_id_def)
qed

text \<open>C39: A trace of the SDK goes on in the backend. The trace id of a request that carries a valid \<open>traceparent\<close>, in a process
  with no tracing SDK, is the one the header names, for the first reader of the request and for every later one; and the
  carrier of the messages that request writes leads back to the same trace.\<close>

theorem sdk_trace_continues:
  assumes "isValidTraceparent s" "length fresh = 16" "list_all is_lower_hex fresh" "\<not> all_zero fresh"
    and "map_of carrier ''traceparent'' = None"
  shows "\<exists>t req. requestTraceId draws \<lparr>tq_memo = None, tq_span = None, tq_header = Some s\<rparr> = (Some t, req)
    \<and> t = split_on CHR ''-'' s ! 1 \<and> requestTraceId draws' req = (Some t, req)
    \<and> parseTraceparent (map_of (injectTraceContext None (Some t) fresh carrier) ''traceparent'')
        = Some \<lparr>tp_traceId = t, tp_spanId = fresh, tp_sampled = True\<rparr>"
proof -
  obtain p where p: "parseTraceparent (Some s) = Some p" "tp_traceId p = split_on CHR ''-'' s ! 1" "writable_trace_id (tp_traceId p)"
    using valid_traceparent_parses [OF assms(1)] by blast
  let ?t = "tp_traceId p"
  have t: "length ?t = 32" "list_all is_lower_hex ?t" "\<not> all_zero ?t" "?t \<noteq> []" using p(3) by (auto simp: writable_trace_id_def)
  have written: "map_of (injectTraceContext None (Some ?t) fresh carrier) ''traceparent''
      = Some (join_with CHR ''-'' [''00'', ?t, fresh, ''01''])"
    using assms(5) p(3) by (simp add: injectTraceContext_def nonempty_def update_conv)
  have "parseTraceparent (Some (join_with CHR ''-'' [''00'', ?t, fresh, ''01'']))
      = Some \<lparr>tp_traceId = ?t, tp_spanId = fresh, tp_sampled = True\<rparr>"
    using t assms(2-4) by (subst parse_parts) (simp_all add: is_lower_hex_def is_digit_def hex_value_def)
  then have returns: "parseTraceparent (map_of (injectTraceContext None (Some ?t) fresh carrier) ''traceparent'')
      = Some \<lparr>tp_traceId = ?t, tp_spanId = fresh, tp_sampled = True\<rparr>"
    using written by simp
  let ?req = "\<lparr>tq_memo = Some ?t, tq_span = None, tq_header = Some s\<rparr>"
  have first: "requestTraceId draws \<lparr>tq_memo = None, tq_span = None, tq_header = Some s\<rparr> = (Some ?t, ?req)"
    using p(1) by (simp add: requestTraceId_def nonempty_def Let_def)
  have later: "requestTraceId draws' ?req = (Some ?t, ?req)"
    using t(4) by (simp add: requestTraceId_def nonempty_def split: list.splits)
  show ?thesis by (intro exI [of _ ?t] exI [of _ ?req] conjI first p(2) later returns)
qed

lemma sdk_trace_continues_witness:
  "\<exists>req. requestTraceId [] \<lparr>tq_memo = None, tq_span = None,
      tq_header = Some ''00-0af7651916cd43dd8448eb211c80319c-b7ad6b7169203331-01''\<rparr> = (Some ''0af7651916cd43dd8448eb211c80319c'', req)"
proof -
  let ?s = "''00-0af7651916cd43dd8448eb211c80319c-b7ad6b7169203331-01''"
  have s: "isValidTraceparent ?s" by code_simp
  have fresh: "length ''00f067aa0ba902b7'' = 16" "list_all is_lower_hex ''00f067aa0ba902b7''" "\<not> all_zero ''00f067aa0ba902b7''"
    by code_simp+
  have t: "split_on CHR ''-'' ?s ! 1 = ''0af7651916cd43dd8448eb211c80319c''" by code_simp
  show ?thesis using sdk_trace_continues [OF s fresh, of "[]" "[]" "[]"] unfolding t by auto
qed

text \<open>Trace ids are never all zeros. \<open>newTraceId\<close> answers as soon as one of its draws is not, and then with that draw.\<close>

theorem new_trace_id_is_valid:
  "(newTraceId draws = None \<longleftrightarrow> list_all all_zero draws)
    \<and> (case newTraceId draws of Some t \<Rightarrow> t \<in> set draws \<and> \<not> all_zero t | None \<Rightarrow> True)"
  by (induction draws) (auto split: option.splits)

end
