(* ===== verification/Membership.thy ===== *)
theory Membership
  imports Engines Messaging User_Service
begin

text \<open>
  The membership graph (\<open>features/membership-graph\<close>): the projection of user events into the graph capability by
  \<open>MembershipGraphService\<close> and its consumer, and the two queries over it. The service runs on the graph client of
  theory Engines; what Neo4j does with the service's five texts is the assumption \<open>membership_engine\<close>.
\<close>

subsection \<open>The texts\<close>

definition USER_LABEL :: string where "USER_LABEL = ''User''"
definition TENANT_LABEL :: string where "TENANT_LABEL = ''Tenant''"
definition MEMBER_OF :: string where "MEMBER_OF = ''MEMBER_OF''"
definition INVITED :: string where "INVITED = ''INVITED''"
definition MAX_INVITATION_HOPS :: nat where "MAX_INVITATION_HOPS = 10"
definition MAX_MEMBERS_PAGE :: nat where "MAX_MEMBERS_PAGE = 500"
definition MAX_SAFE_INTEGER :: nat where "MAX_SAFE_INTEGER = 9007199254740991"

definition removed_text :: string where
  "removed_text = ''MATCH (u:User {tenantId: $tenantId, id: $userId})'' @ line_break @ ''RETURN u.removed AS removed''"

definition remove_text :: string where
  "remove_text =
     ''MERGE (u:User {tenantId: $tenantId, id: $userId})'' @ line_break @ ''SET u.removed = true'' @ line_break @ ''WITH u'' @ line_break @
     ''OPTIONAL MATCH (u)-[m:MEMBER_OF {tenantId: $tenantId}]->(:Tenant {tenantId: $tenantId})'' @ line_break @ ''DELETE m''"

definition members_text :: string where
  "members_text =
     ''MATCH (u:User {tenantId: $tenantId})-[:MEMBER_OF {tenantId: $tenantId}]->(:Tenant {tenantId: $tenantId, id: $tenantId})'' @ line_break @
     ''RETURN u.id AS userId'' @ line_break @ ''ORDER BY userId'' @ line_break @ ''SKIP toInteger($offset) LIMIT toInteger($limit)''"

definition chain_text :: "nat \<Rightarrow> string" where
  "chain_text hops =
     ''MATCH p = (:User {tenantId: $tenantId})-[:INVITED*1..'' @ show_nat hops @ '']->(:User {tenantId: $tenantId, id: $userId})'' @ line_break @
     ''WHERE all(r IN relationships(p) WHERE r.tenantId = $tenantId)'' @ line_break @ ''  AND all(n IN nodes(p) WHERE n.tenantId = $tenantId)'' @ line_break @
     ''RETURN [n IN reverse(nodes(p))[1..] | n.id] AS chain'' @ line_break @ ''ORDER BY length(p) DESC'' @ line_break @ ''LIMIT 1''"

subsection \<open>The service\<close>

definition first_prop :: "(string \<times> json) list list \<Rightarrow> string \<Rightarrow> json option" where
  "first_prop rows k = (case rows of [] \<Rightarrow> None | r # _ \<Rightarrow> js_prop r k)"

definition recordInviter :: "'w graph_engine \<Rightarrow> string \<Rightarrow> string \<Rightarrow> string option \<Rightarrow> ('w, bool) eff" where
  "recordInviter g t userId invitedBy =
     (case nonempty invitedBy of
        Some inviter \<Rightarrow>
          if inviter \<noteq> userId
          then andThen (mergeNode g t USER_LABEL inviter []) (\<lambda>_.
               andThen (mergeEdge g t USER_LABEL inviter INVITED USER_LABEL userId []) (\<lambda>_. ret True))
          else ret True
      | None \<Rightarrow> ret True)"

definition recordMember :: "'w graph_engine \<Rightarrow> string \<Rightarrow> string \<Rightarrow> string option \<Rightarrow> ('w, bool) eff" where
  "recordMember g t userId invitedBy =
     andThen (graph_read g t removed_text [(''userId'', JStr userId)]) (\<lambda>rows.
     if first_prop rows ''removed'' = Some (JBool True) then ret False
     else
       andThen (mergeNode g t TENANT_LABEL t []) (\<lambda>_.
       andThen (mergeNode g t USER_LABEL userId [(''removed'', JBool False)]) (\<lambda>_.
       andThen (mergeEdge g t USER_LABEL userId MEMBER_OF TENANT_LABEL t []) (\<lambda>_.
       recordInviter g t userId invitedBy))))"

definition removeMember :: "'w graph_engine \<Rightarrow> string \<Rightarrow> string \<Rightarrow> ('w, unit) eff" where
  "removeMember g t userId = andThen (graph_write g t remove_text [(''userId'', JStr userId)]) (\<lambda>_. ret ())"

definition boundedInt :: "rat \<Rightarrow> nat \<Rightarrow> nat \<Rightarrow> string \<Rightarrow> thrown + rat" where
  "boundedInt v lo hi f =
     (if v \<noteq> of_int \<lfloor>v\<rfloor> \<or> v < of_nat lo \<or> v > of_nat hi
      then Inl (app_error_validation [\<lparr>field = f,
             description = ''must be an integer between '' @ show_nat lo @ '' and '' @ show_nat hi\<rparr>] None)
      else Inr v)"

definition membersOf :: "'w graph_engine \<Rightarrow> string \<Rightarrow> rat option \<Rightarrow> rat option \<Rightarrow> ('w, json option list) eff" where
  "membersOf g t limit offset =
     andThen (lift (boundedInt (option_or limit 100) 1 MAX_MEMBERS_PAGE ''limit'')) (\<lambda>l.
     andThen (lift (boundedInt (option_or offset 0) 0 MAX_SAFE_INTEGER ''offset'')) (\<lambda>off.
     andThen (graph_read g t members_text [(''limit'', JNum l), (''offset'', JNum off)]) (\<lambda>rows.
     ret (map (\<lambda>r. js_prop r ''userId'') rows))))"

definition invitationChain :: "'w graph_engine \<Rightarrow> string \<Rightarrow> string \<Rightarrow> rat option \<Rightarrow> ('w, json) eff" where
  "invitationChain g t userId maxHops =
     andThen (lift (boundedInt (option_or maxHops (of_nat MAX_INVITATION_HOPS)) 1 MAX_INVITATION_HOPS ''maxHops'')) (\<lambda>hops.
     andThen (graph_read g t (chain_text (nat \<lfloor>hops\<rfloor>)) [(''userId'', JStr userId)]) (\<lambda>rows.
     ret (case first_prop rows ''chain'' of Some v \<Rightarrow> if v = JNull then JArr [] else v | None \<Rightarrow> JArr [])))"

subsection \<open>The consumer\<close>

definition PROJECTED :: "string list" where "PROJECTED = [USER_CREATED, USER_UPDATED, USER_DELETED]"

definition membership_user :: "(string \<times> json) list \<Rightarrow> string option \<Rightarrow> string option" where
  "membership_user body subject =
     nonempty (case js_prop body ''userId'' of Some (JStr u) \<Rightarrow> Some u | _ \<Rightarrow> subject)"

definition membership_inviter :: "(string \<times> json) list \<Rightarrow> string option" where
  "membership_inviter body = (case js_prop body ''invitedBy'' of Some (JStr u) \<Rightarrow> nonempty (Some u) | _ \<Rightarrow> None)"

definition project_member :: "'w graph_engine \<Rightarrow> string \<Rightarrow> string \<Rightarrow> string \<Rightarrow> string option \<Rightarrow> ('w, unit) eff" where
  "project_member g ty t userId invitedBy =
     (if ty = USER_DELETED then removeMember g t userId
      else andThen (recordMember g t userId invitedBy) (\<lambda>_. ret ()))"

text \<open>\<open>mark\<close> is the key of an envelope's marker, \<open>MEMBERSHIP_GRAPH_EVENT_SEEN.global\<close>.\<close>

definition membership_handle ::
  "'w graph_engine \<Rightarrow> 'w dedup_ops \<Rightarrow> string \<Rightarrow> (string \<Rightarrow> string) \<Rightarrow> string \<Rightarrow> string \<Rightarrow> string \<Rightarrow> string option
   \<Rightarrow> (string \<times> json) list \<Rightarrow> ('w, unit) eff" where
  "membership_handle g ops owner mark t envelopeId ty subject body =
     (case membership_user body subject of
        None \<Rightarrow> ret ()
      | Some userId \<Rightarrow>
          (let ty' = canonicalEventType ty in
           if ty' \<notin> set PROJECTED then ret ()
           else andThen (once ops owner (mark envelopeId) (project_member g ty' t userId (membership_inviter body)) None) (\<lambda>_. ret ())))"

subsection \<open>What the engine does\<close>

text \<open>The membership of a tenant, and how an engine answers: a call that fails may have taken effect or not, and no call
  touches another tenant.\<close>

record membership =
  mb_users :: "string set"
  mb_removed :: "string \<Rightarrow> bool"
  mb_members :: "string set"
  mb_invited :: "(string \<times> string) set"

definition no_members :: membership where
  "no_members = \<lparr>mb_users = {}, mb_removed = (\<lambda>_. False), mb_members = {}, mb_invited = {}\<rparr>"

definition engine_does ::
  "'w graph_engine \<Rightarrow> ('w \<Rightarrow> string \<Rightarrow> membership) \<Rightarrow> string \<Rightarrow> graph_mode \<Rightarrow> string \<Rightarrow> (string \<times> json) list
   \<Rightarrow> (membership \<Rightarrow> membership) \<Rightarrow> (membership \<Rightarrow> (string \<times> json) list list \<Rightarrow> bool) \<Rightarrow> bool" where
  "engine_does g view t mode cypher params effect gives \<longleftrightarrow>
     (\<forall>w. case ge_run g mode cypher (params @ [(''tenantId'', JStr t)]) w of (res, w') \<Rightarrow>
        (\<forall>t'. t' \<noteq> t \<longrightarrow> view w' t' = view w t') \<and>
        (case res of
           Inr rows \<Rightarrow> view w' t = effect (view w t) \<and> gives (view w t) rows \<and> assertResultTenant t rows = Inr ()
         | Inl _ \<Rightarrow> view w' t = view w t \<or> view w' t = effect (view w t)))"

definition user_merged :: "string \<Rightarrow> membership \<Rightarrow> membership" where
  "user_merged u m = m\<lparr>mb_users := insert u (mb_users m)\<rparr>"

definition user_kept :: "string \<Rightarrow> membership \<Rightarrow> membership" where
  "user_kept u m = m\<lparr>mb_users := insert u (mb_users m), mb_removed := (mb_removed m)(u := False)\<rparr>"

definition user_joined :: "string \<Rightarrow> membership \<Rightarrow> membership" where
  "user_joined u m = (if u \<in> mb_users m then m\<lparr>mb_members := insert u (mb_members m)\<rparr> else m)"

definition user_invited :: "string \<Rightarrow> string \<Rightarrow> membership \<Rightarrow> membership" where
  "user_invited v u m = (if v \<in> mb_users m \<and> u \<in> mb_users m then m\<lparr>mb_invited := insert (v, u) (mb_invited m)\<rparr> else m)"

definition user_removed :: "string \<Rightarrow> membership \<Rightarrow> membership" where
  "user_removed u m = m\<lparr>mb_users := insert u (mb_users m), mb_removed := (mb_removed m)(u := True), mb_members := mb_members m - {u}\<rparr>"

definition any_rows :: "membership \<Rightarrow> (string \<times> json) list list \<Rightarrow> bool" where "any_rows m rows = True"

definition membership_engine :: "'w graph_engine \<Rightarrow> ('w \<Rightarrow> string \<Rightarrow> membership) \<Rightarrow> bool" where
  "membership_engine g view \<longleftrightarrow>
     (\<forall>t u v.
        engine_does g view t ReadMode removed_text [(''userId'', JStr u)] id
          (\<lambda>m rows. first_prop rows ''removed'' = Some (JBool True) \<longleftrightarrow> mb_removed m u) \<and>
        engine_does g view t WriteMode (merge_node_text TENANT_LABEL) [(''id'', JStr t), (''props'', JObj [])] id any_rows \<and>
        engine_does g view t WriteMode (merge_node_text USER_LABEL) [(''id'', JStr u), (''props'', JObj [(''removed'', JBool False)])] (user_kept u) any_rows \<and>
        engine_does g view t WriteMode (merge_node_text USER_LABEL) [(''id'', JStr u), (''props'', JObj [])] (user_merged u) any_rows \<and>
        engine_does g view t WriteMode (merge_edge_text USER_LABEL MEMBER_OF TENANT_LABEL)
          [(''fromId'', JStr u), (''toId'', JStr t), (''props'', JObj [])] (user_joined u) any_rows \<and>
        engine_does g view t WriteMode (merge_edge_text USER_LABEL INVITED USER_LABEL)
          [(''fromId'', JStr v), (''toId'', JStr u), (''props'', JObj [])] (user_invited v u) any_rows \<and>
        engine_does g view t WriteMode remove_text [(''userId'', JStr u)] (user_removed u) any_rows)"

subsection \<open>Running the service\<close>

text \<open>What a call may make of the tenant's membership, and of nothing else.\<close>

definition makes ::
  "('w \<Rightarrow> string \<Rightarrow> membership) \<Rightarrow> string \<Rightarrow> ('w, 'a) eff \<Rightarrow> (membership \<Rightarrow> 'a option \<Rightarrow> membership \<Rightarrow> bool) \<Rightarrow> bool" where
  "makes view t f R \<longleftrightarrow>
     (\<forall>w res w'. f w = (res, w') \<longrightarrow>
        (\<forall>t'. t' \<noteq> t \<longrightarrow> view w' t' = view w t') \<and>
        R (view w t) (case res of Inr x \<Rightarrow> Some x | Inl _ \<Rightarrow> None) (view w' t))"

lemma makes_ret: "makes view t (ret x) (\<lambda>m res m'. res = Some x \<and> m' = m)"
  by (simp add: makes_def)

lemma makes_then:
  assumes "makes view t f R" "\<And>x. makes view t (h x) (S x)"
  shows "makes view t (andThen f h) (\<lambda>m res m'. (\<exists>x m1. R m (Some x) m1 \<and> S x m1 res m') \<or> (res = None \<and> R m None m'))"
  unfolding makes_def
proof (intro allI impI)
  fix w res w'
  assume run: "andThen f h w = (res, w')"
  obtain r1 w1 where f: "f w = (r1, w1)" by (metis prod.exhaust)
  show "(\<forall>t'. t' \<noteq> t \<longrightarrow> view w' t' = view w t') \<and>
    ((\<exists>x m1. R (view w t) (Some x) m1 \<and> S x m1 (case res of Inr x \<Rightarrow> Some x | Inl _ \<Rightarrow> None) (view w' t))
     \<or> ((case res of Inr x \<Rightarrow> Some x | Inl _ \<Rightarrow> None) = None \<and> R (view w t) None (view w' t)))"
  proof (cases r1)
    case (Inl e)
    then have "res = Inl e" "w' = w1" using run f by (simp_all add: andThen_def)
    then show ?thesis using assms(1) f Inl unfolding makes_def by fastforce
  next
    case (Inr x)
    then have h: "h x w1 = (res, w')" using run f by (simp add: andThen_def)
    have "(\<forall>t'. t' \<noteq> t \<longrightarrow> view w1 t' = view w t') \<and> R (view w t) (Some x) (view w1 t)"
      using assms(1) f Inr unfolding makes_def by fastforce
    moreover have "(\<forall>t'. t' \<noteq> t \<longrightarrow> view w' t' = view w1 t') \<and> S x (view w1 t) (case res of Inr x \<Rightarrow> Some x | Inl _ \<Rightarrow> None) (view w' t)"
      using assms(2) [of x] h unfolding makes_def by blast
    ultimately show ?thesis by metis
  qed
qed

lemma makes_mono: "makes view t f R \<Longrightarrow> (\<And>m res m'. R m res m' \<Longrightarrow> S m res m') \<Longrightarrow> makes view t f S"
  unfolding makes_def by blast

lemma js_set_new: "\<not> js_has ps k \<Longrightarrow> js_set ps k v = ps @ [(k, v)]"
  by (induction ps k v rule: js_set.induct) (auto simp: js_has_def)

lemma graph_run_does:
  assumes "engine_does g view t mode cypher params effect gives" "isTenantId t" "assertTenantScopedQuery cypher = Inr ()"
    and "\<not> js_has params TENANT_PARAM"
  shows "makes view t (graph_run g mode t cypher params)
    (\<lambda>m res m'. case res of Some rows \<Rightarrow> m' = effect m \<and> gives m rows | None \<Rightarrow> m' = m \<or> m' = effect m)"
  unfolding makes_def
proof (intro allI impI)
  fix w res w'
  assume run: "graph_run g mode t cypher params w = (res, w')"
  have bound: "bindTenant t params = Inr (params @ [(''tenantId'', JStr t)])"
    using assms(4) by (simp add: bindTenant_def TENANT_PARAM_def js_set_new)
  obtain r1 w1 where e: "ge_run g mode cypher (params @ [(''tenantId'', JStr t)]) w = (r1, w1)" by (metis prod.exhaust)
  note does = assms(1) [unfolded engine_does_def, rule_format, of w, unfolded e prod.case]
  show "(\<forall>t'. t' \<noteq> t \<longrightarrow> view w' t' = view w t') \<and>
    (case case res of Inr x \<Rightarrow> Some x | Inl _ \<Rightarrow> None of Some rows \<Rightarrow> view w' t = effect (view w t) \<and> gives (view w t) rows
      | None \<Rightarrow> view w' t = view w t \<or> view w' t = effect (view w t))"
    using run does e assms(2,3) bound
    by (cases r1) (auto simp: graph_run_def graph_assertTenant_def andThen_def)
qed
definition took :: "(membership \<Rightarrow> membership) \<Rightarrow> membership \<Rightarrow> 'a option \<Rightarrow> membership \<Rightarrow> bool" where
  "took effect m res m' \<longleftrightarrow> m' = effect m \<or> res = None \<and> m' = m"

lemma engine_does_cases:
  assumes "engine_does g view t mode cypher params effect gives" "ge_run g mode cypher (params @ [(''tenantId'', JStr t)]) w = (r, w')"
  shows "\<forall>t'. t' \<noteq> t \<longrightarrow> view w' t' = view w t'"
    and "\<And>rows. r = Inr rows \<Longrightarrow> view w' t = effect (view w t) \<and> assertResultTenant t rows = Inr ()"
    and "view w' t = effect (view w t) \<or> view w' t = view w t"
  using assms(1) [unfolded engine_does_def, rule_format, of w, unfolded assms(2) prod.case] by (auto split: sum.splits)

lemma mergeNode_makes:
  assumes "engine_does g view t WriteMode (merge_node_text label) [(''id'', JStr i), (''props'', JObj props)] effect any_rows"
    and "isTenantId t" "assertLabel label = Inr ()" "i \<noteq> []" "assertProperties props = Inr ()"
  shows "makes view t (mergeNode g t label i props) (took effect)"
  unfolding makes_def
proof (intro allI impI)
  fix w res w'
  assume run: "mergeNode g t label i props w = (res, w')"
  let ?params = "[(''id'', JStr i), (''props'', JObj props)]"
  obtain r1 w1 where e: "ge_run g WriteMode (merge_node_text label) (?params @ [(''tenantId'', JStr t)]) w = (r1, w1)" by (metis prod.exhaust)
  note does = engine_does_cases [OF assms(1) e]
  have "w' = w1 \<and> (\<forall>rows. r1 = Inr rows \<longrightarrow> assertResultTenant t rows = Inr ()) \<and> ((\<exists>x. res = Inr x) \<longrightarrow> (\<exists>rows. r1 = Inr rows))"
    using run e does(2) unfolding mergeNode_runs [OF assms(2-5)] by (cases r1) (auto simp: andThen_def)
  then show "(\<forall>t'. t' \<noteq> t \<longrightarrow> view w' t' = view w t') \<and> took effect (view w t) (case res of Inr x \<Rightarrow> Some x | Inl _ \<Rightarrow> None) (view w' t)"
    using does by (auto simp: took_def split: sum.splits)
qed

lemma mergeEdge_makes:
  assumes "engine_does g view t WriteMode (merge_edge_text a rel b) [(''fromId'', JStr i), (''toId'', JStr j), (''props'', JObj props)] effect any_rows"
    and "isTenantId t" "assertLabel a = Inr ()" "assertLabel b = Inr ()" "assertRelationshipType rel = Inr ()" "i \<noteq> []" "j \<noteq> []"
    "assertProperties props = Inr ()"
  shows "makes view t (mergeEdge g t a i rel b j props) (took effect)"
  unfolding makes_def
proof (intro allI impI)
  fix w res w'
  assume run: "mergeEdge g t a i rel b j props w = (res, w')"
  let ?params = "[(''fromId'', JStr i), (''toId'', JStr j), (''props'', JObj props)]"
  obtain r1 w1 where e: "ge_run g WriteMode (merge_edge_text a rel b) (?params @ [(''tenantId'', JStr t)]) w = (r1, w1)" by (metis prod.exhaust)
  note does = engine_does_cases [OF assms(1) e]
  have "w' = w1 \<and> ((\<exists>x. res = Inr x) \<longrightarrow> (\<exists>rows. r1 = Inr rows))"
    using run e does(2) unfolding mergeEdge_runs [OF assms(2-8)] by (cases r1) (auto simp: andThen_def)
  then show "(\<forall>t'. t' \<noteq> t \<longrightarrow> view w' t' = view w t') \<and> took effect (view w t) (case res of Inr x \<Rightarrow> Some x | Inl _ \<Rightarrow> None) (view w' t)"
    using does by (auto simp: took_def split: sum.splits)
qed

lemma labels_ok: "assertLabel USER_LABEL = Inr ()" "assertLabel TENANT_LABEL = Inr ()"
  "assertRelationshipType MEMBER_OF = Inr ()" "assertRelationshipType INVITED = Inr ()"
  "assertProperties [] = Inr ()" "assertProperties [(''removed'', JBool False)] = Inr ()"
  by code_simp+

lemma texts_scoped: "assertTenantScopedQuery removed_text = Inr ()" "assertTenantScopedQuery remove_text = Inr ()"
  by code_simp+

text \<open>What recording \<open>u\<close> may change: nobody's removal, and nobody's membership but that of \<open>u\<close>, which it may gain.\<close>

definition tame :: "string \<Rightarrow> membership \<Rightarrow> membership \<Rightarrow> bool" where
  "tame u m m' \<longleftrightarrow> mb_removed m' = mb_removed m \<and> mb_users m \<subseteq> mb_users m' \<and> mb_members m \<subseteq> mb_members m'
     \<and> mb_members m' \<subseteq> insert u (mb_members m)"

lemma tame_refl: "tame u m m" and tame_trans: "tame u m m1 \<Longrightarrow> tame u m1 m2 \<Longrightarrow> tame u m m2"
  by (auto simp: tame_def)

lemma tame_effects:
  "tame u m (user_merged v m)" "tame u m (user_joined u m)" "tame u m (user_invited v x m)" "\<not> mb_removed m u \<Longrightarrow> tame u m (user_kept u m)"
  by (auto simp: tame_def user_merged_def user_joined_def user_invited_def user_kept_def fun_upd_idem)

lemma took_tame: "took effect m res m' \<Longrightarrow> tame u m (effect m) \<Longrightarrow> tame u m m'"
  by (auto simp: took_def tame_refl)

lemma took_joined: "took (user_joined v) m res m' \<Longrightarrow> tame v m m'"
  by (erule took_tame) (rule tame_effects)

lemma took_kept: "took (user_kept v) m res m' \<Longrightarrow> \<not> mb_removed m v \<Longrightarrow> tame v m m'"
  by (erule took_tame) (rule tame_effects)

lemma recordInviter_makes:
  assumes eng: "membership_engine g view" and t: "isTenantId t" and u: "u \<noteq> []"
  shows "makes view t (recordInviter g t u who) (\<lambda>m res m'. tame u m m')"
proof (cases "nonempty who")
  case None
  have "makes view t (ret True) (\<lambda>m res m'. tame u m m')"
    by (rule makes_mono [OF makes_ret]) (simp add: tame_refl)
  then show ?thesis using None by (simp add: recordInviter_def)
next
  case (Some v)
  note does = eng [unfolded membership_engine_def, rule_format]
  have v: "v \<noteq> []" using Some by (auto simp: nonempty_def split: option.splits list.splits)
  have n: "makes view t (mergeNode g t USER_LABEL v []) (took (user_merged v))"
    by (rule mergeNode_makes) (use does t v labels_ok in auto)
  have e: "makes view t (mergeEdge g t USER_LABEL v INVITED USER_LABEL u []) (took (user_invited v u))"
    by (rule mergeEdge_makes) (use does t u v labels_ok in auto)
  have tame: "tame u m m1" if "took (user_merged v) m res m1 \<or> took (user_invited v u) m res' m1" for m m1 and res :: "unit option" and res' :: "bool option"
    using that took_tame tame_effects by metis
  have both: "makes view t (andThen (mergeNode g t USER_LABEL v []) (\<lambda>_.
      andThen (mergeEdge g t USER_LABEL v INVITED USER_LABEL u []) (\<lambda>_. ret True))) (\<lambda>m res m'. tame u m m')"
    by (rule makes_mono [OF makes_then [OF n makes_then [OF e makes_ret]]]) (use tame tame_trans in blast)
  have "makes view t (ret True) (\<lambda>m res m'. tame u m m')"
    by (rule makes_mono [OF makes_ret]) (simp add: tame_refl)
  then show ?thesis using Some both by (simp add: recordInviter_def)
qed

text \<open>The rest of a recording, backwards: the edge, the node, the tenant's node, the check.\<close>

lemma join_makes:
  assumes eng: "membership_engine g view" and t: "isTenantId t" and u: "u \<noteq> []"
  shows "makes view t (andThen (mergeEdge g t USER_LABEL u MEMBER_OF TENANT_LABEL t []) (\<lambda>_. recordInviter g t u who))
    (\<lambda>m res m'. tame u m m' \<and> (res \<noteq> None \<longrightarrow> u \<in> mb_users m \<longrightarrow> u \<in> mb_members m'))"
proof -
  note does = eng [unfolded membership_engine_def, rule_format]
  have e: "makes view t (mergeEdge g t USER_LABEL u MEMBER_OF TENANT_LABEL t []) (took (user_joined u))"
    by (rule mergeEdge_makes) (use does t u isTenantId_nonempty labels_ok in auto)
  show ?thesis
  proof (rule makes_mono [OF makes_then [OF e recordInviter_makes [OF assms]]], elim disjE exE conjE)
    fix m and res :: "bool option" and m' x m1
    assume took: "took (user_joined u) m (Some x) m1" and more: "tame u m1 m'"
    then have "tame u m m'" using took_joined [OF took] tame_trans by blast
    moreover have "u \<in> mb_members m'" if "u \<in> mb_users m"
      using took more that by (auto simp: took_def user_joined_def tame_def)
    ultimately show "tame u m m' \<and> (res \<noteq> None \<longrightarrow> u \<in> mb_users m \<longrightarrow> u \<in> mb_members m')" by blast
  next
    fix m and res :: "bool option" and m'
    assume "res = None" "took (user_joined u) m None m'"
    then show "tame u m m' \<and> (res \<noteq> None \<longrightarrow> u \<in> mb_users m \<longrightarrow> u \<in> mb_members m')"
      using took_joined by blast
  qed
qed

lemma keep_makes:
  assumes eng: "membership_engine g view" and t: "isTenantId t" and u: "u \<noteq> []"
  shows "makes view t (andThen (mergeNode g t USER_LABEL u [(''removed'', JBool False)]) (\<lambda>_.
      andThen (mergeEdge g t USER_LABEL u MEMBER_OF TENANT_LABEL t []) (\<lambda>_. recordInviter g t u who)))
    (\<lambda>m res m'. \<not> mb_removed m u \<longrightarrow> tame u m m' \<and> (res \<noteq> None \<longrightarrow> u \<in> mb_members m'))"
proof -
  note does = eng [unfolded membership_engine_def, rule_format]
  have n: "makes view t (mergeNode g t USER_LABEL u [(''removed'', JBool False)]) (took (user_kept u))"
    by (rule mergeNode_makes) (use does t u labels_ok in auto)
  show ?thesis
  proof (rule makes_mono [OF makes_then [OF n join_makes [OF assms]]], elim disjE exE conjE)
    fix m and res :: "bool option" and m' x m1
    assume took: "took (user_kept u) m (Some x) m1"
      and more: "tame u m1 m'" "res \<noteq> None \<longrightarrow> u \<in> mb_users m1 \<longrightarrow> u \<in> mb_members m'"
    have "u \<in> mb_users m1" using took by (auto simp: took_def user_kept_def)
    moreover have "tame u m m'" if "\<not> mb_removed m u"
      using took_kept [OF took that] more(1) tame_trans by blast
    ultimately show "\<not> mb_removed m u \<longrightarrow> tame u m m' \<and> (res \<noteq> None \<longrightarrow> u \<in> mb_members m')" using more(2) by blast
  next
    fix m and res :: "bool option" and m'
    assume "res = None" "took (user_kept u) m None m'"
    then show "\<not> mb_removed m u \<longrightarrow> tame u m m' \<and> (res \<noteq> None \<longrightarrow> u \<in> mb_members m')"
      using took_kept by blast
  qed
qed

lemma tenant_makes:
  assumes eng: "membership_engine g view" and t: "isTenantId t"
  shows "makes view t (mergeNode g t TENANT_LABEL t []) (\<lambda>m res m'. m' = m)"
proof -
  have "makes view t (mergeNode g t TENANT_LABEL t []) (took id)"
    by (rule mergeNode_makes) (use eng [unfolded membership_engine_def, rule_format] t isTenantId_nonempty labels_ok in auto)
  then show ?thesis by (rule makes_mono) (auto simp: took_def)
qed

lemma recordMember_makes:
  assumes eng: "membership_engine g view" and t: "isTenantId t" and u: "u \<noteq> []"
  shows "makes view t (recordMember g t u who) (\<lambda>m res m'.
    (mb_removed m u \<longrightarrow> m' = m) \<and> (\<not> mb_removed m u \<longrightarrow> tame u m m' \<and> (res \<noteq> None \<longrightarrow> u \<in> mb_members m')))"
proof -
  note does = eng [unfolded membership_engine_def, rule_format]
  have read: "makes view t (graph_read g t removed_text [(''userId'', JStr u)])
     (\<lambda>m res m'. m' = m \<and> (case res of Some rows \<Rightarrow> (first_prop rows ''removed'' = Some (JBool True) \<longleftrightarrow> mb_removed m u) | None \<Rightarrow> True))"
    unfolding graph_read_def
    by (rule makes_mono [OF graph_run_does [OF conjunct1 [OF does [of t u undefined]] t texts_scoped(1)]])
      (auto simp: js_has_def TENANT_PARAM_def split: option.splits)
  let ?S = "\<lambda>rows m res m'. if first_prop rows ''removed'' = Some (JBool True) then m' = m
      else \<not> mb_removed m u \<longrightarrow> tame u m m' \<and> (res \<noteq> None \<longrightarrow> u \<in> mb_members m')"
  have rest: "makes view t (andThen (mergeNode g t TENANT_LABEL t []) (\<lambda>_.
      andThen (mergeNode g t USER_LABEL u [(''removed'', JBool False)]) (\<lambda>_.
      andThen (mergeEdge g t USER_LABEL u MEMBER_OF TENANT_LABEL t []) (\<lambda>_. recordInviter g t u who))))
      (\<lambda>m res m'. \<not> mb_removed m u \<longrightarrow> tame u m m' \<and> (res \<noteq> None \<longrightarrow> u \<in> mb_members m'))"
    by (rule makes_mono [OF makes_then [OF tenant_makes [OF eng t] keep_makes [OF assms]]]) (use tame_refl in blast)
  have "makes view t (ret False) (\<lambda>m (res :: bool option) m'. m' = m)"
    by (rule makes_mono [OF makes_ret]) simp
  then have cont: "makes view t (if first_prop rows ''removed'' = Some (JBool True) then ret False
      else andThen (mergeNode g t TENANT_LABEL t []) (\<lambda>_.
        andThen (mergeNode g t USER_LABEL u [(''removed'', JBool False)]) (\<lambda>_.
        andThen (mergeEdge g t USER_LABEL u MEMBER_OF TENANT_LABEL t []) (\<lambda>_. recordInviter g t u who)))) (?S rows)" for rows
    using rest by simp
  show ?thesis unfolding recordMember_def
    by (rule makes_mono [OF makes_then [OF read cont]]) (auto simp: tame_refl split: if_splits)
qed

lemma removeMember_makes:
  assumes "membership_engine g view" "isTenantId t"
  shows "makes view t (removeMember g t u) (took (user_removed u))"
proof -
  have "engine_does g view t WriteMode remove_text [(''userId'', JStr u)] (user_removed u) any_rows"
    using assms(1) unfolding membership_engine_def by blast
  then have "makes view t (graph_write g t remove_text [(''userId'', JStr u)]) (took (user_removed u))"
    unfolding graph_write_def
    by (rule makes_mono [OF graph_run_does [OF _ assms(2) texts_scoped(2)]])
      (auto simp: js_has_def TENANT_PARAM_def took_def split: option.splits)
  then show ?thesis unfolding removeMember_def
    by (rule makes_mono [OF makes_then [OF _ makes_ret]]) (auto simp: took_def)
qed
subsection \<open>The projection converges\<close>

text \<open>The events of a tenant as the consumer works on them, one after the other, failed attempts and redeliveries among them:
  which of the attempts succeeded.\<close>

type_synonym member_event = "string \<times> string \<times> string option"

fun project_all :: "'w graph_engine \<Rightarrow> string \<Rightarrow> member_event list \<Rightarrow> 'w \<Rightarrow> bool list \<times> 'w" where
  "project_all g t [] w = ([], w)"
| "project_all g t ((ty, u, who) # evs) w =
     (case project_member g ty t u who w of (res, w1) \<Rightarrow>
        (case project_all g t evs w1 of (oks, w2) \<Rightarrow> ((case res of Inr _ \<Rightarrow> True | Inl _ \<Rightarrow> False) # oks, w2)))"

definition project_rel :: "string \<Rightarrow> string \<Rightarrow> membership \<Rightarrow> bool \<Rightarrow> membership \<Rightarrow> bool" where
  "project_rel ty u m ok m' \<longleftrightarrow>
     (if ty = USER_DELETED then m' = user_removed u m \<or> \<not> ok \<and> m' = m
      else (mb_removed m u \<longrightarrow> m' = m) \<and> (\<not> mb_removed m u \<longrightarrow> tame u m m' \<and> (ok \<longrightarrow> u \<in> mb_members m')))"

lemma project_member_makes:
  assumes "membership_engine g view" "isTenantId t" "u \<noteq> []"
  shows "makes view t (project_member g ty t u who) (\<lambda>m res m'. project_rel ty u m (res \<noteq> None) m')"
proof (cases "ty = USER_DELETED")
  case True
  have "makes view t (removeMember g t u) (\<lambda>m res m'. project_rel ty u m (res \<noteq> None) m')"
    by (rule makes_mono [OF removeMember_makes [OF assms(1,2)]]) (use True in \<open>auto simp: project_rel_def took_def\<close>)
  then show ?thesis using True by (simp add: project_member_def)
next
  case False
  have "makes view t (andThen (recordMember g t u who) (\<lambda>_. ret ())) (\<lambda>m res m'. project_rel ty u m (res \<noteq> None) m')"
    by (rule makes_mono [OF makes_then [OF recordMember_makes [OF assms] makes_ret]]) (use False in \<open>auto simp: project_rel_def\<close>)
  then show ?thesis using False by (simp add: project_member_def)
qed

definition user_settled :: "(member_event \<times> bool) set \<Rightarrow> membership \<Rightarrow> string \<Rightarrow> bool" where
  "user_settled tried m x \<longleftrightarrow>
     (mb_removed m x \<longrightarrow> (\<exists>who ok. ((USER_DELETED, x, who), ok) \<in> tried) \<and> x \<notin> mb_members m) \<and>
     (x \<in> mb_members m \<longrightarrow> (\<exists>ty who ok. ((ty, x, who), ok) \<in> tried \<and> ty \<noteq> USER_DELETED)) \<and>
     (\<forall>who. ((USER_DELETED, x, who), True) \<in> tried \<longrightarrow> mb_removed m x) \<and>
     (\<forall>ty who. ((ty, x, who), True) \<in> tried \<longrightarrow> ty \<noteq> USER_DELETED \<longrightarrow> mb_removed m x \<or> x \<in> mb_members m)"

definition projected_ok :: "(member_event \<times> bool) set \<Rightarrow> membership \<Rightarrow> bool" where
  "projected_ok tried m \<longleftrightarrow> (\<forall>x. user_settled tried m x)"

lemma settled_other:
  assumes "user_settled tried m x" "x \<noteq> u" "mb_removed m' x = mb_removed m x" "x \<in> mb_members m' \<longleftrightarrow> x \<in> mb_members m"
  shows "user_settled (insert ((ty, u, who), ok) tried) m' x"
  using assms unfolding user_settled_def by blast

lemma settled_grows:
  assumes "user_settled tried m x" "\<not> ok \<or> (if ty = USER_DELETED then mb_removed m x else mb_removed m x \<or> x \<in> mb_members m)"
  shows "user_settled (insert ((ty, x, who), ok) tried) m x"
  using assms unfolding user_settled_def by auto

lemma projected_step:
  assumes "projected_ok tried m" "project_rel ty u m ok m'"
  shows "projected_ok (insert ((ty, u, who), ok) tried) m'"
  unfolding projected_ok_def
proof
  fix x
  have x: "user_settled tried m x" using assms(1) by (simp add: projected_ok_def)
  show "user_settled (insert ((ty, u, who), ok) tried) m' x"
  proof (cases "x = u")
    case False
    moreover have "mb_removed m' x = mb_removed m x \<and> (x \<in> mb_members m' \<longleftrightarrow> x \<in> mb_members m)"
      using assms(2) False by (auto simp: project_rel_def user_removed_def tame_def split: if_splits)
    ultimately show ?thesis using settled_other x by blast
  next
    case True
    consider "m' = m" "\<not> ok \<or> (if ty = USER_DELETED then mb_removed m x else mb_removed m x \<or> x \<in> mb_members m)"
      | "ty = USER_DELETED" "m' = user_removed u m"
      | "ty \<noteq> USER_DELETED" "\<not> mb_removed m u" "tame u m m'" "ok \<longrightarrow> u \<in> mb_members m'"
      using assms(2) True by (auto simp: project_rel_def split: if_splits)
    then show ?thesis
    proof cases
      case 1
      then show ?thesis using settled_grows x True by blast
    next
      case 2
      then show ?thesis using True by (auto simp: user_settled_def user_removed_def)
    next
      case 3
      then have "\<not> mb_removed m' u" "x \<in> mb_members m \<longrightarrow> x \<in> mb_members m'" by (auto simp: tame_def)
      then show ?thesis using 3 True x unfolding user_settled_def by auto
    qed
  qed
qed

lemma project_all_ok:
  assumes "membership_engine g view" "isTenantId t"
  shows "project_all g t evs w = (oks, w') \<Longrightarrow> \<forall>(ty, u, who) \<in> set evs. u \<noteq> [] \<Longrightarrow> projected_ok tried (view w t) \<Longrightarrow>
    projected_ok (tried \<union> set (zip evs oks)) (view w' t) \<and> length oks = length evs \<and> (\<forall>t'. t' \<noteq> t \<longrightarrow> view w' t' = view w t')"
proof (induction evs arbitrary: w w' oks tried)
  case Nil
  then show ?case by auto
next
  case (Cons e evs)
  obtain ty u who where e: "e = (ty, u, who)" by (metis prod.exhaust)
  obtain res w1 where one: "project_member g ty t u who w = (res, w1)" by (metis prod.exhaust)
  obtain oks2 w2 where rest: "project_all g t evs w1 = (oks2, w2)" by (metis prod.exhaust)
  let ?ok = "case res of Inr _ \<Rightarrow> True | Inl _ \<Rightarrow> False"
  have oks: "oks = ?ok # oks2" "w' = w2" using Cons.prems(1) e one rest by auto
  have u: "u \<noteq> []" using Cons.prems(2) e by simp
  have made: "(\<forall>t'. t' \<noteq> t \<longrightarrow> view w1 t' = view w t') \<and> project_rel ty u (view w t) ?ok (view w1 t)"
    using project_member_makes [OF assms u, unfolded makes_def, rule_format, OF one] by (cases res) simp_all
  then have "projected_ok (insert (e, ?ok) tried) (view w1 t)" using projected_step Cons.prems(3) e by blast
  from Cons.IH [OF rest _ this] Cons.prems(2)
  have "projected_ok (insert (e, ?ok) tried \<union> set (zip evs oks2)) (view w2 t) \<and> length oks2 = length evs
      \<and> (\<forall>t'. t' \<noteq> t \<longrightarrow> view w2 t' = view w1 t')"
    by simp
  then show ?case using made oks by simp
qed

text \<open>C28: The membership graph converges. Whatever the order in which the events of a tenant arrive, however often they
  come back and wherever attempts fail half way, once every event has been worked on successfully the members of the
  tenant are the users created or updated and never deleted, and no other tenant has been touched.\<close>

theorem membership_converges:
  assumes engine: "membership_engine g view" and t: "isTenantId t" and users: "\<forall>(ty, u, who) \<in> set evs. u \<noteq> []"
    and start: "view w t = no_members" and run: "project_all g t evs w = (oks, w')"
    and settled: "\<forall>e \<in> set evs. (e, True) \<in> set (zip evs oks)"
  shows "mb_members (view w' t)
      = {u. (\<exists>ty who. (ty, u, who) \<in> set evs \<and> ty \<noteq> USER_DELETED) \<and> (\<forall>who. (USER_DELETED, u, who) \<notin> set evs)}
    \<and> (\<forall>t'. t' \<noteq> t \<longrightarrow> view w' t' = view w t')"
proof -
  have "projected_ok {} (view w t)" by (simp add: start no_members_def projected_ok_def user_settled_def)
  from project_all_ok [OF engine t run users this]
  have ok: "projected_ok (set (zip evs oks)) (view w' t)" and others: "\<forall>t'. t' \<noteq> t \<longrightarrow> view w' t' = view w t'" by simp_all
  have tried: "(e, ok) \<in> set (zip evs oks) \<Longrightarrow> e \<in> set evs" for e ok by (rule set_zip_leftD)
  have "u \<in> mb_members (view w' t) \<longleftrightarrow>
      (\<exists>ty who. (ty, u, who) \<in> set evs \<and> ty \<noteq> USER_DELETED) \<and> (\<forall>who. (USER_DELETED, u, who) \<notin> set evs)" for u
  proof
    assume "u \<in> mb_members (view w' t)"
    then show "(\<exists>ty who. (ty, u, who) \<in> set evs \<and> ty \<noteq> USER_DELETED) \<and> (\<forall>who. (USER_DELETED, u, who) \<notin> set evs)"
      using ok [unfolded projected_ok_def user_settled_def, rule_format, of u] tried settled by blast
  next
    assume "(\<exists>ty who. (ty, u, who) \<in> set evs \<and> ty \<noteq> USER_DELETED) \<and> (\<forall>who. (USER_DELETED, u, who) \<notin> set evs)"
    then show "u \<in> mb_members (view w' t)"
      using ok [unfolded projected_ok_def user_settled_def, rule_format, of u] tried settled by blast
  qed
  then show ?thesis using others by blast
qed

text \<open>An engine that does what the assumption says, and never fails.\<close>

definition param :: "(string \<times> json) list \<Rightarrow> string \<Rightarrow> string" where
  "param params k = (case js_prop params k of Some (JStr s) \<Rightarrow> s | _ \<Rightarrow> [])"

definition sure_graph :: "(string \<Rightarrow> membership) graph_engine" where
  "sure_graph = \<lparr>ge_run = (\<lambda>mode cypher params w.
     let t = param params ''tenantId'';
         change = (if cypher = merge_node_text USER_LABEL
                   then if js_prop params ''props'' = Some (JObj []) then user_merged (param params ''id'') else user_kept (param params ''id'')
                   else if cypher = merge_edge_text USER_LABEL MEMBER_OF TENANT_LABEL then user_joined (param params ''fromId'')
                   else if cypher = merge_edge_text USER_LABEL INVITED USER_LABEL then user_invited (param params ''fromId'') (param params ''toId'')
                   else if cypher = remove_text then user_removed (param params ''userId'') else id)
     in (Inr (if cypher = removed_text then [[(''removed'', JBool (mb_removed (w t) (param params ''userId'')))]] else []), w(t := change (w t))))\<rparr>"

lemma texts_differ:
  "removed_text \<noteq> merge_node_text USER_LABEL" "removed_text \<noteq> merge_edge_text USER_LABEL MEMBER_OF TENANT_LABEL"
  "removed_text \<noteq> merge_edge_text USER_LABEL INVITED USER_LABEL" "removed_text \<noteq> remove_text"
  "merge_node_text TENANT_LABEL \<noteq> merge_node_text USER_LABEL" "merge_node_text TENANT_LABEL \<noteq> merge_edge_text USER_LABEL MEMBER_OF TENANT_LABEL"
  "merge_node_text TENANT_LABEL \<noteq> merge_edge_text USER_LABEL INVITED USER_LABEL" "merge_node_text TENANT_LABEL \<noteq> remove_text"
  "merge_edge_text USER_LABEL MEMBER_OF TENANT_LABEL \<noteq> merge_node_text USER_LABEL"
  "merge_edge_text USER_LABEL INVITED USER_LABEL \<noteq> merge_node_text USER_LABEL"
  "merge_edge_text USER_LABEL INVITED USER_LABEL \<noteq> merge_edge_text USER_LABEL MEMBER_OF TENANT_LABEL"
  "remove_text \<noteq> merge_node_text USER_LABEL" "remove_text \<noteq> merge_edge_text USER_LABEL MEMBER_OF TENANT_LABEL"
  "remove_text \<noteq> merge_edge_text USER_LABEL INVITED USER_LABEL"
  by code_simp+

lemma sure_graph_ok: "membership_engine sure_graph (\<lambda>w. w)"
  unfolding membership_engine_def engine_does_def
  by (simp add: sure_graph_def texts_differ texts_differ [symmetric] param_def js_prop_def first_prop_def any_rows_def assertResultTenant_def
      isEntity_def js_has_def)

definition succeeds :: "('w, 'a) eff \<Rightarrow> bool" where "succeeds f \<longleftrightarrow> (\<forall>w. \<exists>x w'. f w = (Inr x, w'))"

lemma succeeds_then: "succeeds f \<Longrightarrow> (\<And>x. succeeds (h x)) \<Longrightarrow> succeeds (andThen f h)"
  unfolding succeeds_def andThen_def by (metis (no_types, lifting) prod.case sum.case(2))

lemma succeeds_ret: "succeeds (ret x)"
  by (simp add: succeeds_def)

lemma sure_runs: "\<exists>rows w'. ge_run sure_graph mode cypher params w = (Inr rows, w') \<and> assertResultTenant t rows = Inr ()"
  by (simp add: sure_graph_def Let_def assertResultTenant_def isEntity_def js_has_def)

lemma sure_node:
  assumes "isTenantId t" "assertLabel label = Inr ()" "i \<noteq> []" "assertProperties props = Inr ()"
  shows "succeeds (mergeNode sure_graph t label i props)"
  unfolding succeeds_def
proof
  fix w
  obtain rows w' where "ge_run sure_graph WriteMode (merge_node_text label) [(''id'', JStr i), (''props'', JObj props), (''tenantId'', JStr t)] w = (Inr rows, w')"
      "assertResultTenant t rows = Inr ()"
    using sure_runs by blast
  then show "\<exists>x w'. mergeNode sure_graph t label i props w = (Inr x, w')"
    unfolding mergeNode_runs [OF assms] by (simp add: andThen_def)
qed

lemma sure_edge:
  assumes "isTenantId t" "assertLabel a = Inr ()" "assertLabel b = Inr ()" "assertRelationshipType rel = Inr ()" "i \<noteq> []" "j \<noteq> []"
    "assertProperties props = Inr ()"
  shows "succeeds (mergeEdge sure_graph t a i rel b j props)"
  unfolding succeeds_def
proof
  fix w
  obtain rows w' where "ge_run sure_graph WriteMode (merge_edge_text a rel b)
        [(''fromId'', JStr i), (''toId'', JStr j), (''props'', JObj props), (''tenantId'', JStr t)] w = (Inr rows, w')"
      "assertResultTenant t rows = Inr ()"
    using sure_runs by blast
  then show "\<exists>x w'. mergeEdge sure_graph t a i rel b j props w = (Inr x, w')"
    unfolding mergeEdge_runs [OF assms] by (simp add: andThen_def)
qed

lemma sure_query:
  assumes "isTenantId t" "assertTenantScopedQuery cypher = Inr ()"
  shows "succeeds (graph_run sure_graph mode t cypher [(''userId'', JStr u)])"
  unfolding succeeds_def
proof
  fix w
  obtain rows w' where "ge_run sure_graph mode cypher [(''userId'', JStr u), (''tenantId'', JStr t)] w = (Inr rows, w')" "assertResultTenant t rows = Inr ()"
    using sure_runs by blast
  then show "\<exists>x w'. graph_run sure_graph mode t cypher [(''userId'', JStr u)] w = (Inr x, w')"
    using assms by (simp add: graph_run_def graph_assertTenant_def bindTenant_def js_has_def TENANT_PARAM_def andThen_def)
qed

lemma sure_project:
  assumes t: "isTenantId t" and u: "u \<noteq> []"
  shows "succeeds (project_member sure_graph ty t u None)"
proof -
  have "recordInviter sure_graph t u None = ret True" by (simp add: recordInviter_def nonempty_def)
  then have "succeeds (recordMember sure_graph t u None)"
    unfolding recordMember_def graph_read_def
    using t u isTenantId_nonempty [OF t] labels_ok texts_scoped succeeds_ret
    by (auto intro!: succeeds_then sure_query sure_node sure_edge)
  moreover have "succeeds (removeMember sure_graph t u)"
    unfolding removeMember_def graph_write_def using t texts_scoped succeeds_ret by (auto intro!: succeeds_then sure_query)
  ultimately show ?thesis unfolding project_member_def using succeeds_ret by (auto intro!: succeeds_then)
qed

lemma membership_converges_witness:
  "mb_members (snd (project_all sure_graph ''acme''
      [(USER_DELETED, ''ann'', None), (USER_CREATED, ''ann'', None), (USER_CREATED, ''bob'', None)] (\<lambda>_. no_members)) ''acme'') = {''bob''}"
proof -
  let ?evs = "[(USER_DELETED, ''ann'', None), (USER_CREATED, ''ann'', None), (USER_CREATED, ''bob'', None)]"
  have t: "isTenantId ''acme''" by code_simp
  obtain oks w' where run: "project_all sure_graph ''acme'' ?evs (\<lambda>_. no_members) = (oks, w')" by (metis prod.exhaust)
  have ok: "\<exists>w'. project_member sure_graph ty ''acme'' u None w = (Inr (), w')" if "u \<noteq> []" for ty u w
    using sure_project [OF t that, of ty] unfolding succeeds_def by simp
  obtain w1 where w1: "project_member sure_graph USER_DELETED ''acme'' ''ann'' None (\<lambda>_. no_members) = (Inr (), w1)" using ok by blast
  obtain w2 where w2: "project_member sure_graph USER_CREATED ''acme'' ''ann'' None w1 = (Inr (), w2)" using ok by blast
  obtain w3 where w3: "project_member sure_graph USER_CREATED ''acme'' ''bob'' None w2 = (Inr (), w3)" using ok by blast
  have oks: "oks = [True, True, True]" using run by (simp add: w1 w2 w3)
  have users: "\<forall>(ty, u, who) \<in> set ?evs. u \<noteq> []" by simp
  have settled: "\<forall>e \<in> set ?evs. (e, True) \<in> set (zip ?evs oks)" by (simp add: oks)
  show ?thesis
    using conjunct1 [OF membership_converges [OF sure_graph_ok t users _ run settled]] run
    by (auto simp: USER_DELETED_def USER_CREATED_def)
qed

end
