(* ===== verification/Analytics.thy ===== *)
theory Analytics
  imports Tracking Outbox "HOL-Library.Countable"
begin

text \<open>
  Analytics events (\<open>features/analytics\<close>): recording an event and its outbox row in one transaction, the stats of the
  last day with their cache, the queries behind them, and the consumer that writes an event into the OLAP store. The
  ports are those of the earlier theories: the cache is theory Engines' client, the dedup markers are theory Messaging's.
\<close>

subsection \<open>Recording an event\<close>

definition ANALYTICS_TOPIC :: string where "ANALYTICS_TOPIC = ''analytics-events''"
definition ANALYTICS_EVENT_RECORDED :: string where "ANALYTICS_EVENT_RECORDED = ''analytics.event.recorded''"
definition ANALYTICS_CACHE_TTL_SEC :: rat where "ANALYTICS_CACHE_TTL_SEC = 30"
definition ANALYTICS_EVENTS_TABLE :: string where "ANALYTICS_EVENTS_TABLE = ''logs.analytics_events''"
definition ANALYTICS_MINUTELY_TABLE :: string where "ANALYTICS_MINUTELY_TABLE = ''logs.analytics_minutely''"
definition ANALYTICS_LIVE_FEED_ROLES :: "string list" where "ANALYTICS_LIVE_FEED_ROLES = [''admin'', ''editor'', ''viewer'']"

definition ANALYTICS_STATS_CACHE :: key_builder where
  "ANALYTICS_STATS_CACHE = \<lparr>kb_spec = \<lparr>capability = ''cache'', key_module = ''analytics'', key_name = ''stats'', version = ''v1''\<rparr>, kb_fixed = None\<rparr>"

definition ANALYTICS_EVENT_SEEN :: key_builder where
  "ANALYTICS_EVENT_SEEN = \<lparr>kb_spec = \<lparr>capability = ''dedup'', key_module = ''analytics'', key_name = ''event-seen'', version = ''v1''\<rparr>, kb_fixed = None\<rparr>"

record analytics_event =
  ae_eventId :: string
  ae_eventType :: string
  ae_userId :: string
  ae_metadata :: "(string \<times> json) list option"
  ae_timestamp :: rat

record create_event =
  ce_eventType :: string
  ce_userId :: string
  ce_metadata :: "(string \<times> json) list option"

text \<open>The ports. \<open>an_tx\<close> runs its work in one transaction and answers what the committed run answered; \<open>an_query\<close> and
  \<open>an_insert\<close> are the OLAP client's, bound to the tenant; \<open>an_number\<close> is \<open>Number\<close>.\<close>

record 'w analytics_deps =
  an_tx :: "('w, analytics_event) eff \<Rightarrow> ('w, analytics_event) eff"
  an_log :: "string \<Rightarrow> analytics_event \<Rightarrow> ('w, analytics_event) eff"
  an_outbox :: "outbox_event_input \<Rightarrow> ('w, unit) eff"
  an_cache :: "'w cache_store"
  an_query :: "string \<Rightarrow> string \<Rightarrow> (string \<times> json) list \<Rightarrow> ('w, (string \<times> json) list list) eff"
  an_insert :: "string \<Rightarrow> string \<Rightarrow> (string \<times> json) list list \<Rightarrow> ('w, unit) eff"
  an_recent :: "string \<Rightarrow> nat \<Rightarrow> ('w, analytics_event list) eff"
  an_dedup :: "'w dedup_ops"
  an_publishToRoles :: "string \<Rightarrow> string list \<Rightarrow> string \<Rightarrow> analytics_event \<Rightarrow> ('w, unit) eff"
  an_env :: "string \<Rightarrow> string option"
  an_now :: "'w \<Rightarrow> rat"
  an_number :: "json option \<Rightarrow> rat"
  an_stringify :: "json \<Rightarrow> string"

definition analytics_outbox_input :: "string \<Rightarrow> analytics_event \<Rightarrow> outbox_event_input" where
  "analytics_outbox_input t e =
     \<lparr>in_topic = ANALYTICS_TOPIC, in_aggregateId = ae_eventId e, in_type = ANALYTICS_EVENT_RECORDED, in_tenantId = t,
      in_data = [(''eventId'', JStr (ae_eventId e)), (''eventType'', JStr (ae_eventType e)), (''userId'', JStr (ae_userId e)),
        (''metadata'', JObj (option_or (ae_metadata e) [])), (''timestamp'', JNum (ae_timestamp e)), (''tenantId'', JStr t)],
      in_subject = None, in_id = Some (ae_eventId e), in_schemaVersion = None\<rparr>"

text \<open>The cache key of a tenant's stats. The builder throws on a malformed tenant, which the caller's scope excludes.\<close>

definition stats_key :: "'w analytics_deps \<Rightarrow> string \<Rightarrow> string" where
  "stats_key d t = (case forTenant ANALYTICS_STATS_CACHE (an_env d) t [] of Inr k \<Rightarrow> k | Inl _ \<Rightarrow> [])"

definition new_event :: "string \<Rightarrow> create_event \<Rightarrow> rat \<Rightarrow> analytics_event" where
  "new_event eventId dto timestamp =
     \<lparr>ae_eventId = eventId, ae_eventType = ce_eventType dto, ae_userId = ce_userId dto,
      ae_metadata = Some (option_or (ce_metadata dto) []), ae_timestamp = timestamp\<rparr>"

definition record_event :: "'w analytics_deps \<Rightarrow> string \<Rightarrow> analytics_event \<Rightarrow> ('w, analytics_event) eff" where
  "record_event d t e = andThen (an_log d t e) (\<lambda>doc. andThen (an_outbox d (analytics_outbox_input t e)) (\<lambda>_. ret doc))"

definition analytics_create :: "'w analytics_deps \<Rightarrow> string \<Rightarrow> string \<Rightarrow> create_event \<Rightarrow> ('w, analytics_event) eff" where
  "analytics_create d eventId t dto w =
     andThen (an_tx d (record_event d t (new_event eventId dto (an_now d w)))) (\<lambda>doc.
     andThen (cache_del (an_cache d) (stats_key d t)) (\<lambda>_. ret doc)) w"

subsection \<open>Stats\<close>

definition stats_text :: string where
  "stats_text =
     newline # replicate 10 CHR '' '' @ ''SELECT'' @ newline # replicate 12 CHR '' '' @ ''event_type  AS eventType,'' @
     newline # replicate 12 CHR '' '' @ ''count()     AS count,'' @ newline # replicate 12 CHR '' '' @ ''max(ts)     AS lastSeen'' @
     newline # replicate 10 CHR '' '' @ ''FROM '' @ ANALYTICS_EVENTS_TABLE @
     newline # replicate 10 CHR '' '' @ ''WHERE tenant_id = {tenant_id:String} AND ts >= {from:Int64}'' @
     newline # replicate 10 CHR '' '' @ ''GROUP BY event_type'' @ newline # replicate 10 CHR '' '' @ ''ORDER BY count DESC'' @
     newline # replicate 8 CHR '' ''"

definition minutely_text :: string where
  "minutely_text =
     newline # replicate 10 CHR '' '' @ ''SELECT'' @
     newline # replicate 12 CHR '' '' @ ''toUnixTimestamp(window_start) * 1000 AS windowMs,'' @
     newline # replicate 12 CHR '' '' @ ''event_type                           AS eventType,'' @
     newline # replicate 12 CHR '' '' @ ''sum(event_count)                     AS count'' @
     newline # replicate 10 CHR '' '' @ ''FROM '' @ ANALYTICS_MINUTELY_TABLE @
     newline # replicate 10 CHR '' '' @ ''WHERE tenant_id = {tenant_id:String}'' @
     newline # replicate 12 CHR '' '' @ ''AND window_start >= now() - INTERVAL {minutes:Int32} MINUTE'' @
     newline # replicate 10 CHR '' '' @ ''GROUP BY window_start, event_type'' @ newline # replicate 10 CHR '' '' @ ''ORDER BY window_start ASC'' @
     newline # replicate 8 CHR '' ''"

record type_stat =
  ts_eventType :: "json option"
  ts_count :: rat
  ts_lastSeen :: rat

definition getStatsByType :: "'w analytics_deps \<Rightarrow> rat \<Rightarrow> string \<Rightarrow> ('w, type_stat list) eff" where
  "getStatsByType d from t =
     rescue
       (andThen (an_query d t stats_text [(''from'', JNum from)]) (\<lambda>rows.
        ret (map (\<lambda>r. \<lparr>ts_eventType = js_prop r ''eventType'', ts_count = an_number d (js_prop r ''count''),
                       ts_lastSeen = an_number d (js_prop r ''lastSeen'')\<rparr>) rows)))
       (\<lambda>_. ret [])"

record minutely_stat =
  mn_windowMs :: rat
  mn_eventType :: "json option"
  mn_count :: rat

definition getMinutelyStats :: "'w analytics_deps \<Rightarrow> rat \<Rightarrow> string \<Rightarrow> ('w, minutely_stat list) eff" where
  "getMinutelyStats d minutes t =
     rescue
       (andThen (an_query d t minutely_text [(''minutes'', JNum minutes)]) (\<lambda>rows.
        ret (map (\<lambda>r. \<lparr>mn_windowMs = an_number d (js_prop r ''windowMs''), mn_eventType = js_prop r ''eventType'',
                       mn_count = an_number d (js_prop r ''count'')\<rparr>) rows)))
       (\<lambda>_. ret [])"

definition stat_json :: "type_stat \<Rightarrow> json" where
  "stat_json s = JObj ((case ts_eventType s of Some v \<Rightarrow> [(''eventType'', v)] | None \<Rightarrow> [])
     @ [(''count'', JNum (ts_count s)), (''lastSeen'', JNum (ts_lastSeen s))])"

definition stats_json :: "type_stat list \<Rightarrow> rat \<Rightarrow> bool \<Rightarrow> (string \<times> json) list" where
  "stats_json byType cachedAt fromCache =
     [(''totalEvents'', JNum (sum_list (map ts_count byType))), (''byType'', JArr (map stat_json byType)),
      (''cachedAt'', JNum cachedAt), (''fromCache'', JBool fromCache)]"

text \<open>Only objects are ever cached under the key; another truthy value would be spread.\<close>

definition getStats :: "'w analytics_deps \<Rightarrow> string \<Rightarrow> ('w, (string \<times> json) list) eff" where
  "getStats d t =
     andThen (cache_get (an_cache d) (stats_key d t)) (\<lambda>cached.
       case Option.bind cached js_record of
         Some ps \<Rightarrow> ret (js_set ps ''fromCache'' (JBool True))
       | None \<Rightarrow> (\<lambda>w.
           andThen (getStatsByType d (an_now d w - 24 * 60 * 60 * 1000) t) (\<lambda>byType w1.
             (let stats = stats_json byType (an_now d w1) False in
              andThen (cache_set (an_cache d) (stats_key d t) (Some (JObj stats)) ANALYTICS_CACHE_TTL_SEC) (\<lambda>_. ret stats)) w1) w))"

definition getRecent :: "'w analytics_deps \<Rightarrow> string \<Rightarrow> ('w, analytics_event list) eff" where
  "getRecent d t = an_recent d t 20"

subsection \<open>The consumer\<close>

definition insertEvent :: "'w analytics_deps \<Rightarrow> string \<Rightarrow> (string \<times> json) list \<Rightarrow> ('w, unit) eff" where
  "insertEvent d t row =
     rescue (an_insert d t ANALYTICS_EVENTS_TABLE [row])
       (\<lambda>err. raise (AppError SERVICE_UNAVAILABLE (Some ''Analytics event insert failed'') [] [] (Some err)))"

definition analytics_store :: "'w analytics_deps \<Rightarrow> string \<Rightarrow> analytics_event \<Rightarrow> ('w, unit) eff" where
  "analytics_store d t e =
     insertEvent d t [(''event_id'', JStr (ae_eventId e)), (''event_type'', JStr (ae_eventType e)), (''user_id'', JStr (ae_userId e)),
       (''payload'', JStr (an_stringify d (JObj (option_or (ae_metadata e) [])))), (''ts'', JNum (ae_timestamp e))]"

definition publishLive :: "'w analytics_deps \<Rightarrow> string \<Rightarrow> analytics_event \<Rightarrow> ('w, unit) eff" where
  "publishLive d t e = rescue (an_publishToRoles d t ANALYTICS_LIVE_FEED_ROLES ''analytics.event'' e) (\<lambda>_. ret ())"

definition analytics_seen :: "'w analytics_deps \<Rightarrow> string \<Rightarrow> string" where
  "analytics_seen d i = (case global ANALYTICS_EVENT_SEEN (an_env d) [i] of Inr k \<Rightarrow> k | Inl _ \<Rightarrow> [])"

definition analytics_handle :: "'w analytics_deps \<Rightarrow> string \<Rightarrow> string \<Rightarrow> analytics_event \<Rightarrow> ('w, unit) eff" where
  "analytics_handle d owner t e =
     (if ae_eventId e = [] then ret ()
      else andThen (once (an_dedup d) owner (analytics_seen d (ae_eventId e)) (analytics_store d t e) None) (\<lambda>fresh.
        if fresh then publishLive d t e else ret ()))"

subsection \<open>What a recorded event leaves\<close>

text \<open>A cache that fails makes recorded events look refused. The event and its outbox row are committed before the stats
  are dropped from the cache, so when that fails the caller gets the cache's error for an event that is recorded and will
  be published; a retry draws a new event id and records it again.\<close>

theorem recorded_event_reported_refused:
  assumes committed: "an_tx d (record_event d t (new_event i dto (an_now d w))) w = (Inr doc, w1)"
    and cache: "cs_del (an_cache d) (stats_key d t) w1 = (Inl err, w2)"
  shows "analytics_create d i t dto w = (Inl err, w2)"
  using assms by (simp add: analytics_create_def andThen_def cache_del_def)

subsection \<open>Cached stats\<close>

text \<open>A cache that keeps what it is given, \<open>kept\<close>, and gives it back.\<close>

definition cache_keeps :: "'w analytics_deps \<Rightarrow> (string \<Rightarrow> 'w \<Rightarrow> string option) \<Rightarrow> bool" where
  "cache_keeps d kept \<longleftrightarrow>
     (\<forall>k w. \<exists>w'. cs_getRaw (an_cache d) k w = (Inr (kept k w), w') \<and> kept k w' = kept k w) \<and>
     (\<forall>k raw ttl w. \<exists>w'. cs_setRaw (an_cache d) k raw ttl w = (Inr (), w') \<and> kept k w' = Some raw) \<and>
     (\<forall>v. cs_parse (an_cache d) (cs_stringify (an_cache d) (cache_envelope v)) = Some (cache_envelope v))"

lemma cache_envelope_back: "cache_keeps d kept \<Longrightarrow> decodeCacheValue (cs_parse (an_cache d)) (Some (cs_stringify (an_cache d) (cache_envelope v))) = Some v"
  by (simp add: cache_keeps_def decodeCacheValue_def cache_envelope_def js_prop_def)

lemma ttl_ok: "assertPositiveInteger ANALYTICS_CACHE_TTL_SEC ''Cache ttlSeconds'' = Inr ()"
  by (simp add: assertPositiveInteger_def ANALYTICS_CACHE_TTL_SEC_def positive_integer_def) 

text \<open>One reading: what a miss computes, stores and answers, and what a hit answers.\<close>

lemma getStatsByType_total: "\<exists>byType w1. getStatsByType d from t w = (Inr byType, w1)"
  by (cases "an_query d t stats_text [(''from'', JNum from)] w"; cases "fst (an_query d t stats_text [(''from'', JNum from)] w)")
    (auto simp: getStatsByType_def rescue_def andThen_def)

lemma getStats_miss:
  assumes keeps: "cache_keeps d kept" and miss: "kept (stats_key d t) w = None"
  shows "\<exists>w0 byType w1 now w2. getStatsByType d (an_now d w0 - 24 * 60 * 60 * 1000) t w0 = (Inr byType, w1) \<and>
    getStats d t w = (Inr (stats_json byType now False), w2) \<and>
    kept (stats_key d t) w2 = Some (cs_stringify (an_cache d) (cache_envelope (JObj (stats_json byType now False))))"
proof -
  obtain w0 where got: "cs_getRaw (an_cache d) (stats_key d t) w = (Inr None, w0)"
    using keeps miss unfolding cache_keeps_def by metis
  obtain byType w1 where types: "getStatsByType d (an_now d w0 - 24 * 60 * 60 * 1000) t w0 = (Inr byType, w1)"
    using getStatsByType_total [of d "an_now d w0 - 24 * 60 * 60 * 1000" t w0] by blast
  let ?stats = "stats_json byType (an_now d w1) False"
  obtain w2 where kept: "cs_setRaw (an_cache d) (stats_key d t) (cs_stringify (an_cache d) (cache_envelope (JObj ?stats))) (as_nat ANALYTICS_CACHE_TTL_SEC) w1 = (Inr (), w2)"
      "kept (stats_key d t) w2 = Some (cs_stringify (an_cache d) (cache_envelope (JObj ?stats)))"
    using keeps unfolding cache_keeps_def by metis
  have "getStats d t w = (Inr ?stats, w2)"
    using got types kept(1) by (simp add: getStats_def cache_get_def cache_set_def decodeCacheValue_def ttl_ok encodeCacheValue_def andThen_def Let_def)
  then show ?thesis using types kept(2) by blast
qed

lemma getStats_hit:
  assumes keeps: "cache_keeps d kept" and hit: "kept (stats_key d t) w = Some (cs_stringify (an_cache d) (cache_envelope (JObj ps)))"
  shows "fst (getStats d t w) = Inr (js_set ps ''fromCache'' (JBool True))"
proof -
  obtain w0 where got: "cs_getRaw (an_cache d) (stats_key d t) w = (Inr (Some (cs_stringify (an_cache d) (cache_envelope (JObj ps)))), w0)"
    using keeps hit unfolding cache_keeps_def by metis
  then show ?thesis using cache_envelope_back [OF keeps, of "JObj ps"] by (simp add: getStats_def cache_get_def andThen_def)
qed

text \<open>C40: Stats are kept, wrong ones too. With no stats in the cache a reading computes them, with the total of the counts by
  type, and every reader finds them, marked as cached, as long as the cache holds them. When the OLAP query fails the
  stats are all zero, and these are kept and served like any others, also once the query would answer again.\<close>

theorem failed_stats_are_cached:
  assumes keeps: "cache_keeps d kept" and miss: "kept (stats_key d t) w = None"
  shows "\<exists>byType now w2. getStats d t w = (Inr (stats_json byType now False), w2)
    \<and> (\<forall>w3. kept (stats_key d t) w3 = kept (stats_key d t) w2 \<longrightarrow> fst (getStats d t w3) = Inr (stats_json byType now True))
    \<and> ((\<forall>p v. \<exists>e v'. an_query d t stats_text p v = (Inl e, v')) \<longrightarrow> byType = [])"
proof -
  obtain w0 byType w1 now w2 where types: "getStatsByType d (an_now d w0 - 24 * 60 * 60 * 1000) t w0 = (Inr byType, w1)"
    and stats: "getStats d t w = (Inr (stats_json byType now False), w2)"
    and kept: "kept (stats_key d t) w2 = Some (cs_stringify (an_cache d) (cache_envelope (JObj (stats_json byType now False))))"
    using getStats_miss [OF assms] by blast
  have "js_set (stats_json byType now False) ''fromCache'' (JBool True) = stats_json byType now True" by (simp add: stats_json_def)
  then have later: "\<forall>w3. kept (stats_key d t) w3 = kept (stats_key d t) w2 \<longrightarrow> fst (getStats d t w3) = Inr (stats_json byType now True)"
    using getStats_hit [OF keeps] kept by metis
  have "byType = []" if down: "\<forall>p v. \<exists>e v'. an_query d t stats_text p v = (Inl e, v')"
  proof -
    obtain e v' where "an_query d t stats_text [(''from'', JNum (an_now d w0 - 24 * 60 * 60 * 1000))] w0 = (Inl e, v')" using down by blast
    then show ?thesis using types by (simp add: getStatsByType_def rescue_def andThen_def)
  qed
  then show ?thesis using stats later by blast
qed

subsection \<open>Writing an event\<close>

text \<open>An event is written before it is shown. An event without an id is dropped; one whose marker is won is inserted as one
  row, and the consumer acknowledges it exactly when the row was inserted, whatever becomes of the live push; an event
  already written is acknowledged and not written again.\<close>

theorem analytics_event_written_once:
  assumes claim: "do_claimMany (an_dedup d) [analytics_seen d (ae_eventId e)] CONSUMER_CLAIM_TTL_SECONDS owner w = (Inr [won], w1)"
    and "ae_eventId e \<noteq> []"
  shows "if won
    then (case an_insert d t ANALYTICS_EVENTS_TABLE
        [[(''event_id'', JStr (ae_eventId e)), (''event_type'', JStr (ae_eventType e)), (''user_id'', JStr (ae_userId e)),
          (''payload'', JStr (an_stringify d (JObj (option_or (ae_metadata e) [])))), (''ts'', JNum (ae_timestamp e))]] w1 of
      (Inr _, w2) \<Rightarrow> fst (analytics_handle d owner t e w) = Inr ()
    | (Inl err, w2) \<Rightarrow> analytics_handle d owner t e w
        = (Inl (AppError SERVICE_UNAVAILABLE (Some ''Analytics event insert failed'') [] [] (Some err)),
           snd (do_releaseMany (an_dedup d) [analytics_seen d (ae_eventId e)] owner w2)))
    else analytics_handle d owner t e w = (Inr (), w1)"
proof -
  have push: "fst (publishLive d t e v) = Inr ()" for v
    by (auto simp: publishLive_def rescue_def split: prod.splits sum.splits)
  obtain res w2 where ins: "an_insert d t ANALYTICS_EVENTS_TABLE
        [[(''event_id'', JStr (ae_eventId e)), (''event_type'', JStr (ae_eventType e)), (''user_id'', JStr (ae_userId e)),
          (''payload'', JStr (an_stringify d (JObj (option_or (ae_metadata e) [])))), (''ts'', JNum (ae_timestamp e))]] w1 = (res, w2)"
    by (metis prod.exhaust)
  show ?thesis
    using assms ins push
    by (cases res; cases won)
      (simp_all add: analytics_handle_def once_def onceEach_def analytics_store_def insertEvent_def rescue_def andThen_def Let_def)
qed

subsection \<open>A concrete service\<close>

text \<open>JSON values are countable, so they can be printed as numbers; a cache of one slot, an OLAP store that does not answer.\<close>

instance json :: countable
  by countable_datatype

definition print_json :: "json \<Rightarrow> string" where "print_json v = replicate (to_nat v) CHR ''1''"
definition parse_json :: "string \<Rightarrow> json option" where "parse_json s = Some (from_nat (length s))"

definition one_slot :: "bool \<Rightarrow> string option cache_store" where
  "one_slot up = \<lparr>cs_getRaw = (\<lambda>k w. (Inr w, w)), cs_setRaw = (\<lambda>k raw ttl w. (Inr (), Some raw)),
     cs_del = (\<lambda>k w. if up then (Inr (), None) else (Inl (PlainError ''Error'' ''cache down'' []), w)),
     cs_stringify = print_json, cs_parse = parse_json\<rparr>"

definition plain_analytics :: "bool \<Rightarrow> string option analytics_deps" where
  "plain_analytics up = \<lparr>an_tx = (\<lambda>f. f), an_log = (\<lambda>t e. ret e), an_outbox = (\<lambda>i. ret ()), an_cache = one_slot up,
     an_query = (\<lambda>t text params. raise (PlainError ''Error'' ''olap down'' [])), an_insert = (\<lambda>t table rows. ret ()),
     an_recent = (\<lambda>t n. ret []),
     an_dedup = \<lparr>do_claimMany = (\<lambda>ks ttl owner w. (Inr (map (\<lambda>_. True) ks), w)),
       do_releaseMany = (\<lambda>ks owner w. (Inr [], w)), do_extendMany = (\<lambda>ks ttl owner w. (Inr [], w))\<rparr>,
     an_publishToRoles = (\<lambda>t roles name e. raise (PlainError ''Error'' ''push down'' [])), an_env = (\<lambda>_. None), an_now = (\<lambda>_. 5),
     an_number = (\<lambda>_. 0), an_stringify = print_json\<rparr>"

lemma recorded_event_reported_refused_witness:
  "fst (analytics_create (plain_analytics False) ''e1'' ''acme'' \<lparr>ce_eventType = ''page_view'', ce_userId = ''7'', ce_metadata = None\<rparr> None)
    = Inl (PlainError ''Error'' ''cache down'' [])"
proof -
  let ?dto = "\<lparr>ce_eventType = ''page_view'', ce_userId = ''7'', ce_metadata = None\<rparr>"
  let ?d = "plain_analytics False"
  have "an_tx ?d (record_event ?d ''acme'' (new_event ''e1'' ?dto (an_now ?d None))) None = (Inr (new_event ''e1'' ?dto (an_now ?d None)), None)"
    by (simp add: plain_analytics_def record_event_def andThen_def)
  moreover have "cs_del (an_cache ?d) (stats_key ?d ''acme'') None = (Inl (PlainError ''Error'' ''cache down'' []), None)"
    by (simp add: plain_analytics_def one_slot_def)
  ultimately show ?thesis using recorded_event_reported_refused by fastforce
qed

lemma one_slot_keeps: "cache_keeps (plain_analytics True) (\<lambda>k w. w)"
  by (simp add: cache_keeps_def plain_analytics_def one_slot_def print_json_def parse_json_def)

lemma failed_stats_are_cached_witness:
  "\<exists>now w2. getStats (plain_analytics True) ''acme'' None = (Inr (stats_json [] now False), w2)
    \<and> fst (getStats (plain_analytics True) ''acme'' w2) = Inr (stats_json [] now True)"
proof -
  have down: "\<forall>p v. \<exists>e v'. an_query (plain_analytics True) ''acme'' stats_text p v = (Inl e, v')"
    by (simp add: plain_analytics_def)
  show ?thesis using failed_stats_are_cached [OF one_slot_keeps, where t = "''acme''" and w = None] down by blast
qed

lemma analytics_event_written_once_witness:
  "fst (analytics_handle (plain_analytics True) ''o'' ''acme'' (new_event ''e1'' \<lparr>ce_eventType = ''page_view'', ce_userId = ''7'', ce_metadata = None\<rparr> 5) None) = Inr ()"
proof -
  let ?e = "new_event ''e1'' \<lparr>ce_eventType = ''page_view'', ce_userId = ''7'', ce_metadata = None\<rparr> 5"
  have "do_claimMany (an_dedup (plain_analytics True)) [analytics_seen (plain_analytics True) (ae_eventId ?e)] CONSUMER_CLAIM_TTL_SECONDS ''o'' None = (Inr [True], None)"
    by (simp add: plain_analytics_def)
  moreover have "an_insert (plain_analytics True) t table rows None = (Inr (), None)" for t table rows
    by (simp add: plain_analytics_def)
  moreover have "ae_eventId ?e \<noteq> []" by (simp add: new_event_def)
  ultimately show ?thesis
    using analytics_event_written_once [of "plain_analytics True" ?e "''o''" None True None "''acme''"] by (simp only: if_True prod.case sum.case) blast
qed

end
