(* ===== verification/Vault.thy ===== *)
theory Vault
  imports Effects
begin

text \<open>
  Secrets from Vault (\<open>infrastructure/secrets/adapters/vault\<close>): the secrets merged into the environment at boot
  (\<open>vault-env-loader.ts\<close>), and the adapter (\<open>vault-secrets.adapter.ts\<close>), its values and its logins and renewals, whose
  timers and requests interleave in any order. Vault's HTTP answers are parameters; log lines are left out.
\<close>

subsection \<open>The environment\<close>

type_synonym env = "string \<Rightarrow> string option"

text \<open>The requests: logging in answers the token if there is one, reading a path the secrets under it.\<close>

record 'w vault_http =
  vh_login :: "string \<Rightarrow> string \<Rightarrow> string \<Rightarrow> ('w, string option) eff"
  vh_read :: "string \<Rightarrow> string \<Rightarrow> string \<Rightarrow> ('w, (string \<times> json) list option) eff"
  vh_stringify :: "json \<Rightarrow> string"

definition unset :: "string option \<Rightarrow> bool" where "unset v \<longleftrightarrow> v = None \<or> v = Some []"

definition no_token :: thrown where "no_token = PlainError ''Error'' ''AppRole login returned no token'' []"

text \<open>\<open>login\<close>: the token to read with.\<close>

definition vault_login :: "'w vault_http \<Rightarrow> env \<Rightarrow> string \<Rightarrow> ('w, string option) eff" where
  "vault_login h env addr =
     (case (nonempty (env ''VAULT_ROLE_ID''), nonempty (env ''VAULT_SECRET_ID'')) of
        (Some role, Some secret) \<Rightarrow>
          andThen (vh_login h addr role secret) (\<lambda>token.
            case nonempty token of Some tk \<Rightarrow> ret (Some tk) | None \<Rightarrow> raise no_token)
      | _ \<Rightarrow> ret (nonempty (env ''VAULT_TOKEN'')))"

definition secret_text :: "(json \<Rightarrow> string) \<Rightarrow> json \<Rightarrow> string" where
  "secret_text stringify v = (case v of JStr s \<Rightarrow> s | _ \<Rightarrow> stringify v)"

definition inject :: "(json \<Rightarrow> string) \<Rightarrow> (string \<times> json) \<Rightarrow> nat \<times> env \<Rightarrow> nat \<times> env" where
  "inject stringify kv acc =
     (case (kv, acc) of ((k, v), (n, env)) \<Rightarrow>
        if unset (env k) \<and> v \<noteq> JNull
        then (n + 1, env(k := Some (secret_text stringify v)))
        else (n, env))"

definition inject_all :: "(json \<Rightarrow> string) \<Rightarrow> (string \<times> json) list \<Rightarrow> env \<Rightarrow> nat \<times> env" where
  "inject_all stringify secrets env = fold (inject stringify) secrets (0, env)"

definition no_credentials :: thrown where
  "no_credentials = PlainError ''Error''
     ''VAULT_ADDR is set but no Vault credentials are (VAULT_TOKEN or VAULT_ROLE_ID + VAULT_SECRET_ID)'' []"

definition truthy_or :: "string option \<Rightarrow> string \<Rightarrow> string" where
  "truthy_or v d = option_or (nonempty v) d"

text \<open>The environment it leaves, and how many keys were injected.\<close>

definition loadVaultSecretsIntoEnv :: "'w vault_http \<Rightarrow> env \<Rightarrow> ('w, nat \<times> env) eff" where
  "loadVaultSecretsIntoEnv h env =
     (if truthy_or (env ''SECRETS_ADAPTER'') ''vault'' \<noteq> ''vault'' then ret (0, env)
      else case nonempty (env ''VAULT_ADDR'') of
        None \<Rightarrow> ret (0, env)
      | Some addr \<Rightarrow>
          (let path = truthy_or (env ''VAULT_SECRET_PATH'') ''secret/data/tropis''; production = (env ''NODE_ENV'' = Some ''production'') in
           rescue
             (andThen (vault_login h env addr) (\<lambda>token.
              case token of
                None \<Rightarrow> if production then raise no_credentials else ret (0, env)
              | Some tk \<Rightarrow> andThen (vh_read h addr tk path) (\<lambda>secrets.
                  ret (inject_all (vh_stringify h) (option_or secrets []) env))))
             (\<lambda>err. if production then raise err else ret (0, env))))"

subsection \<open>The adapter\<close>

definition VAULT_RELOGIN_INTERVAL_MS :: nat where "VAULT_RELOGIN_INTERVAL_MS = 30000"
definition RENEW_INCREMENT_SECONDS :: nat where "RENEW_INCREMENT_SECONDS = 60 * 60"

definition renewIntervalFor :: "nat \<Rightarrow> nat" where
  "renewIntervalFor ttlSecs = max 30 (ttlSecs div 3)"

text \<open>How the adapter authenticates, from its configuration.\<close>

datatype vault_auth = AppRole | StaticToken string | NoCredentials

definition vault_auth_of :: "env \<Rightarrow> vault_auth" where
  "vault_auth_of config =
     (if nonempty (config ''VAULT_ROLE_ID'') \<noteq> None \<and> nonempty (config ''VAULT_SECRET_ID'') \<noteq> None then AppRole
      else case nonempty (config ''VAULT_TOKEN'') of Some t \<Rightarrow> StaticToken t | None \<Rightarrow> NoCredentials)"

text \<open>The adapter: the token of its client, the interval of its renewal timer in seconds, whether the timer of the next login
  is armed, why there is no client, and what it awaits: the logins in flight, and the renewals, with the interval of
  the timer that started each.\<close>

record vault_adapter =
  va_client :: "string option"
  va_renewal :: "nat option"
  va_relogin :: bool
  va_failure :: "thrown option"
  va_logins :: nat
  va_renewals :: "nat list"
  va_destroyed :: bool

definition new_adapter :: vault_adapter where
  "new_adapter = \<lparr>va_client = None, va_renewal = None, va_relogin = False, va_failure = None, va_logins = 0, va_renewals = [],
     va_destroyed = False\<rparr>"

text \<open>\<open>connect\<close> up to its first await: a static token makes the client at once, then asks Vault for its health.\<close>

definition connect_begin :: "vault_auth \<Rightarrow> vault_adapter \<Rightarrow> vault_adapter" where
  "connect_begin auth a =
     (case auth of
        StaticToken t \<Rightarrow> a\<lparr>va_client := Some t, va_logins := va_logins a + 1\<rparr>
      | _ \<Rightarrow> a\<lparr>va_logins := va_logins a + 1\<rparr>)"

text \<open>What authentication may answer: the token and lease of an AppRole login, the health of a static token, or an error; with no
  credentials, only an error.\<close>

datatype auth_answer = LoggedIn string nat | Healthy | AuthFailed thrown

definition may_authenticate :: "vault_auth \<Rightarrow> auth_answer \<Rightarrow> bool" where
  "may_authenticate auth ans \<longleftrightarrow>
     (case ans of LoggedIn t _ \<Rightarrow> auth = AppRole \<and> t \<noteq> [] | Healthy \<Rightarrow> (\<exists>t. auth = StaticToken t) | AuthFailed _ \<Rightarrow> True)"

definition connect_end :: "auth_answer \<Rightarrow> vault_adapter \<Rightarrow> vault_adapter" where
  "connect_end ans a =
     (let b = a\<lparr>va_logins := va_logins a - 1\<rparr> in
      case ans of
        LoggedIn t ttl \<Rightarrow> b\<lparr>va_client := Some t, va_renewal := Some (renewIntervalFor ttl), va_failure := None\<rparr>
      | Healthy \<Rightarrow> b\<lparr>va_renewal := Some (renewIntervalFor RENEW_INCREMENT_SECONDS), va_failure := None\<rparr>
      | AuthFailed err \<Rightarrow> b\<lparr>va_client := None, va_failure := Some err, va_renewal := None, va_relogin := True\<rparr>)"

definition relogin_fires :: "vault_auth \<Rightarrow> vault_adapter \<Rightarrow> vault_adapter" where
  "relogin_fires auth a = connect_begin auth (a\<lparr>va_relogin := False\<rparr>)"

definition renew_begin :: "nat \<Rightarrow> vault_adapter \<Rightarrow> vault_adapter" where
  "renew_begin interval a = (if va_client a = None then a else a\<lparr>va_renewals := interval # va_renewals a\<rparr>)"

text \<open>\<open>renewedTtl\<close> is the new lease when it is a positive number.\<close>

definition renew_end :: "vault_auth \<Rightarrow> nat \<Rightarrow> thrown + nat option \<Rightarrow> vault_adapter \<Rightarrow> vault_adapter" where
  "renew_end auth interval ans a =
     (let b = a\<lparr>va_renewals := remove1 interval (va_renewals a)\<rparr> in
      case ans of
        Inr (Some ttl) \<Rightarrow>
          if ttl > 0 \<and> renewIntervalFor ttl \<noteq> interval then b\<lparr>va_renewal := Some (renewIntervalFor ttl)\<rparr> else b
      | Inr None \<Rightarrow> b
      | Inl _ \<Rightarrow> if auth = AppRole then connect_begin auth b else b)"

definition vault_destroy :: "vault_adapter \<Rightarrow> vault_adapter" where
  "vault_destroy a = a\<lparr>va_renewal := None, va_relogin := False, va_destroyed := True\<rparr>"

datatype capability_health = HealthDisabled | HealthDown thrown | HealthProbed string

definition vault_health :: "vault_adapter \<Rightarrow> capability_health" where
  "vault_health a =
     (case va_client a of
        Some t \<Rightarrow> HealthProbed t
      | None \<Rightarrow> (case va_failure a of Some err \<Rightarrow> HealthDown err | None \<Rightarrow> HealthDisabled))"

inductive vault_step :: "vault_auth \<Rightarrow> vault_adapter \<Rightarrow> vault_adapter \<Rightarrow> bool" for auth where
  settled: "va_logins a > 0 \<Longrightarrow> may_authenticate auth ans \<Longrightarrow> vault_step auth a (connect_end ans a)"
| relogin: "va_relogin a \<Longrightarrow> vault_step auth a (relogin_fires auth a)"
| renews: "va_renewal a = Some interval \<Longrightarrow> vault_step auth a (renew_begin interval a)"
| renewed: "interval \<in> set (va_renewals a) \<Longrightarrow> vault_step auth a (renew_end auth interval ans a)"
| destroyed: "vault_step auth a (vault_destroy a)"

text \<open>From \<open>onModuleInit\<close> with \<open>VAULT_ADDR\<close> set.\<close>

definition vault_reachable :: "vault_auth \<Rightarrow> vault_adapter \<Rightarrow> bool" where
  "vault_reachable auth a \<longleftrightarrow> (vault_step auth)\<^sup>*\<^sup>* (connect_begin auth new_adapter) a"

subsection \<open>Values\<close>

text \<open>The requests of a client, by token: \<open>vc_write\<close> answers the \<open>data\<close> of the answer, as \<open>vc_read\<close> does. \<open>vc_base64\<close> encodes
  text, \<open>vc_text\<close> decodes it.\<close>

record 'w vault_client =
  vc_read :: "string \<Rightarrow> string \<Rightarrow> ('w, (string \<times> json) list option) eff"
  vc_write :: "string \<Rightarrow> string \<Rightarrow> (string \<times> json) list \<Rightarrow> ('w, (string \<times> json) list option) eff"
  vc_base64 :: "string \<Rightarrow> string"
  vc_text :: "string \<Rightarrow> string"

definition string_at :: "(string \<times> json) list option \<Rightarrow> string \<Rightarrow> string option" where
  "string_at res k = (case res of Some ps \<Rightarrow> (case js_prop ps k of Some (JStr s) \<Rightarrow> Some s | _ \<Rightarrow> None) | None \<Rightarrow> None)"

definition getSecret :: "'w vault_client \<Rightarrow> vault_adapter \<Rightarrow> string \<Rightarrow> string \<Rightarrow> ('w, string option) eff" where
  "getSecret c a path key =
     (case va_client a of
        None \<Rightarrow> ret None
      | Some t \<Rightarrow> rescue (andThen (vc_read c t path) (\<lambda>res.
          ret (case Option.bind res (\<lambda>ps. js_prop ps ''data'') of Some (JObj inner) \<Rightarrow> string_at (Some inner) key | _ \<Rightarrow> None)))
          (\<lambda>_. ret None))"

definition vault_encrypt :: "'w vault_client \<Rightarrow> vault_adapter \<Rightarrow> string \<Rightarrow> string \<Rightarrow> ('w, string option) eff" where
  "vault_encrypt c a keyName plaintext =
     (case va_client a of
        None \<Rightarrow> ret None
      | Some t \<Rightarrow> rescue (andThen (vc_write c t (''transit/encrypt/'' @ keyName) [(''plaintext'', JStr (vc_base64 c plaintext))])
          (\<lambda>res. ret (string_at res ''ciphertext''))) (\<lambda>_. ret None))"

definition vault_decrypt :: "'w vault_client \<Rightarrow> vault_adapter \<Rightarrow> string \<Rightarrow> string \<Rightarrow> ('w, string option) eff" where
  "vault_decrypt c a keyName ciphertext =
     (case va_client a of
        None \<Rightarrow> ret None
      | Some t \<Rightarrow> rescue (andThen (vc_write c t (''transit/decrypt/'' @ keyName) [(''ciphertext'', JStr ciphertext)])
          (\<lambda>res. ret (map_option (vc_text c) (nonempty (string_at res ''plaintext''))))) (\<lambda>_. ret None))"

definition getDynamicDbCredentials :: "'w vault_client \<Rightarrow> vault_adapter \<Rightarrow> string \<Rightarrow> ('w, (string \<times> string) option) eff" where
  "getDynamicDbCredentials c a roleName =
     (case va_client a of
        None \<Rightarrow> ret None
      | Some t \<Rightarrow> rescue (andThen (vc_read c t (''database/creds/'' @ roleName)) (\<lambda>res.
          ret (case (nonempty (string_at res ''username''), nonempty (string_at res ''password'')) of
                 (Some u, Some p) \<Rightarrow> Some (u, p) | _ \<Rightarrow> None)))
          (\<lambda>_. ret None))"

subsection \<open>Secrets fill the gaps of the environment\<close>

lemma fold_inject:
  assumes "distinct (map fst secrets)"
  shows "fst (fold (inject sf) secrets (n, env)) = n + length (filter (\<lambda>(k, v). unset (env k) \<and> v \<noteq> JNull) secrets)
    \<and> snd (fold (inject sf) secrets (n, env)) k =
      (case map_of secrets k of
         Some v \<Rightarrow> if unset (env k) \<and> v \<noteq> JNull then Some (secret_text sf v) else env k
       | None \<Rightarrow> env k)"
  using assms
proof (induction secrets arbitrary: n env)
  case (Cons kv secrets)
  obtain a v where kv: "kv = (a, v)" by (cases kv)
  have fresh: "a \<notin> set (map fst secrets)" using Cons.prems kv by simp
  then have none: "map_of secrets a = None" by (simp add: map_of_eq_None_iff)
  define e where "e = env(a := Some (secret_text sf v))"
  have e: "e a = Some (secret_text sf v)" "\<And>j. j \<noteq> a \<Longrightarrow> e j = env j" by (simp_all add: e_def)
  have same: "filter (\<lambda>(j, u). unset (e j) \<and> u \<noteq> JNull) secrets = filter (\<lambda>(j, u). unset (env j) \<and> u \<noteq> JNull) secrets"
  proof (rule filter_cong [OF refl])
    fix x assume "x \<in> set secrets"
    then have "fst x \<noteq> a" using fresh by auto
    then show "(case x of (j, u) \<Rightarrow> unset (e j) \<and> u \<noteq> JNull) = (case x of (j, u) \<Rightarrow> unset (env j) \<and> u \<noteq> JNull)"
      using e(2) by (cases x) simp
  qed
  have rest: "distinct (map fst secrets)" using Cons.prems kv by simp
  show ?case
  proof (cases "unset (env a) \<and> v \<noteq> JNull")
    case True
    then have step: "inject sf kv (n, env) = (n + 1, e)" by (simp add: inject_def kv e_def)
    show ?thesis using Cons.IH [OF rest, of "n + 1" e] True none e
      unfolding fold_Cons comp_def step same by (cases "k = a") (simp_all add: kv split: option.splits)
  next
    case False
    then have step: "inject sf kv (n, env) = (n, env)" by (auto simp: inject_def kv)
    show ?thesis using Cons.IH [OF rest, of n env] False none
      unfolding fold_Cons comp_def step by (cases "k = a") (auto simp: kv split: option.splits)
  qed
qed simp

text \<open>C30: Vault fills the gaps of the environment and nothing else. When its secrets are read, a variable that was set keeps its
  value, one that was not takes the secret of its name if there is one that is not null, and the count is the number of
  variables set; when they cannot be read, or there is nothing to log in with, production refuses to start, and any
  other environment goes on unchanged.\<close>

theorem vault_fills_environment_gaps:
  assumes on: "truthy_or (env ''SECRETS_ADAPTER'') ''vault'' = ''vault''" "env ''VAULT_ADDR'' = Some addr" "addr \<noteq> []"
    and run: "andThen (vault_login h env addr) (\<lambda>token. case token of None \<Rightarrow> raise no_credentials
        | Some tk \<Rightarrow> vh_read h addr tk (truthy_or (env ''VAULT_SECRET_PATH'') ''secret/data/tropis'')) w = (res, w1)"
    and keys: "\<And>ps. res = Inr (Some ps) \<Longrightarrow> distinct (map fst ps)"
  shows "case res of
      Inr secrets \<Rightarrow> (\<exists>env'. loadVaultSecretsIntoEnv h env w
          = (Inr (length (filter (\<lambda>(k, v). unset (env k) \<and> v \<noteq> JNull) (option_or secrets [])), env'), w1)
        \<and> (\<forall>k. env' k = (case map_of (option_or secrets []) k of
              Some v \<Rightarrow> if unset (env k) \<and> v \<noteq> JNull then Some (secret_text (vh_stringify h) v) else env k
            | None \<Rightarrow> env k)))
    | Inl err \<Rightarrow> loadVaultSecretsIntoEnv h env w = (if env ''NODE_ENV'' = Some ''production'' then Inl err else Inr (0, env), w1)"
proof -
  let ?path = "truthy_or (env ''VAULT_SECRET_PATH'') ''secret/data/tropis''"
  obtain r0 w0 where login: "vault_login h env addr w = (r0, w0)" by (metis prod.exhaust)
  have addr: "nonempty (env ''VAULT_ADDR'') = Some addr" using on(2,3) by (cases addr) (simp_all add: nonempty_def)
  show ?thesis
  proof (cases r0)
    case (Inl err)
    then show ?thesis using run login on(1) addr by (auto simp: loadVaultSecretsIntoEnv_def andThen_def rescue_def Let_def)
  next
    case (Inr token)
    show ?thesis
    proof (cases token)
      case None
      then show ?thesis using run login on(1) addr Inr by (auto simp: loadVaultSecretsIntoEnv_def andThen_def rescue_def Let_def)
    next
      case (Some tk)
      have read: "vh_read h addr tk ?path w0 = (res, w1)" using run login Inr Some by (simp add: andThen_def)
      show ?thesis
      proof (cases res)
        case (Inl err)
        then show ?thesis using read login on(1) addr \<open>r0 = Inr token\<close> Some by (auto simp: loadVaultSecretsIntoEnv_def andThen_def rescue_def Let_def)
      next
        case (Inr secrets)
        let ?ps = "option_or secrets []"
        have "distinct (map fst ?ps)" using keys Inr by (cases secrets) simp_all
        note injected = fold_inject [OF this, of "vh_stringify h" 0 env]
        have "loadVaultSecretsIntoEnv h env w = (Inr (inject_all (vh_stringify h) ?ps env), w1)"
          using read login on(1) addr \<open>r0 = Inr token\<close> Some Inr by (simp add: loadVaultSecretsIntoEnv_def andThen_def rescue_def Let_def)
        then show ?thesis using Inr injected by (auto simp: inject_all_def intro!: exI [of _ "snd (fold (inject (vh_stringify h)) ?ps (0, env))"] prod_eqI)
      qed
    qed
  qed
qed

subsection \<open>The adapter keeps trying\<close>

inductive_cases vault_stepE: "vault_step auth a b"

definition vault_ok :: "vault_auth \<Rightarrow> vault_adapter \<Rightarrow> bool" where
  "vault_ok auth a \<longleftrightarrow> \<not> va_destroyed a \<longrightarrow>
     (va_logins a = 0 \<longrightarrow> \<not> va_relogin a \<longrightarrow> va_client a \<noteq> None \<and> va_renewal a \<noteq> None) \<and>
     ((\<exists>t. auth = StaticToken t) \<longrightarrow> va_client a = None \<longrightarrow> va_relogin a)"

lemma vault_ok_step: "vault_step auth a b \<Longrightarrow> vault_ok auth a \<Longrightarrow> vault_ok auth b"
proof (erule vault_stepE)
  fix ans assume "vault_ok auth a" "b = connect_end ans a" "va_logins a > 0" "may_authenticate auth ans"
  then show "vault_ok auth b"
    by (cases ans) (auto simp: vault_ok_def connect_end_def may_authenticate_def Let_def)
next
  assume "vault_ok auth a" "b = relogin_fires auth a" "va_relogin a"
  then show "vault_ok auth b" by (auto simp: vault_ok_def relogin_fires_def connect_begin_def split: vault_auth.splits)
next
  fix interval assume "vault_ok auth a" "b = renew_begin interval a"
  then show "vault_ok auth b" by (auto simp: vault_ok_def renew_begin_def)
next
  fix interval ans assume "vault_ok auth a" "b = renew_end auth interval ans a"
  then show "vault_ok auth b"
    by (auto simp: vault_ok_def renew_end_def connect_begin_def Let_def split: sum.splits option.splits)
next
  assume "b = vault_destroy a"
  then show "vault_ok auth b" by (simp add: vault_ok_def vault_destroy_def)
qed

text \<open>C29: A configured Vault is never given up. In every interleaving of logins, renewals and timers, as long as the adapter is
  not shut down, a login is in flight, or the next one is armed, or there is a client and a renewal is scheduled; and when
  the next login is armed and nothing is in flight, one login that succeeds is enough to have a client again.\<close>

theorem vault_never_given_up:
  assumes "vault_reachable auth a" "\<not> va_destroyed a"
  shows "(va_logins a > 0 \<or> va_relogin a \<or> va_client a \<noteq> None \<and> va_renewal a \<noteq> None)
    \<and> (va_relogin a \<longrightarrow> may_authenticate auth ans \<longrightarrow> (\<forall>e. ans \<noteq> AuthFailed e) \<longrightarrow>
        (let b = connect_end ans (relogin_fires auth a) in
          (vault_step auth)\<^sup>*\<^sup>* a b \<and> va_client b \<noteq> None \<and> va_renewal b \<noteq> None \<and> va_failure b = None))"
proof -
  have start: "vault_ok auth (connect_begin auth new_adapter)"
    by (auto simp: vault_ok_def connect_begin_def new_adapter_def split: vault_auth.splits)
  have "(vault_step auth)\<^sup>*\<^sup>* x y \<Longrightarrow> vault_ok auth x \<Longrightarrow> vault_ok auth y" for x y
    by (induction rule: rtranclp_induct) (auto intro: vault_ok_step)
  then have "vault_ok auth a" using assms(1) start by (auto simp: vault_reachable_def)
  then have live: "va_logins a > 0 \<or> va_relogin a \<or> va_client a \<noteq> None \<and> va_renewal a \<noteq> None"
    using assms(2) by (auto simp: vault_ok_def)
  have again: "(vault_step auth)\<^sup>*\<^sup>* a b \<and> va_client b \<noteq> None \<and> va_renewal b \<noteq> None \<and> va_failure b = None"
    if armed: "va_relogin a" and may: "may_authenticate auth ans" and won: "\<forall>e. ans \<noteq> AuthFailed e"
      and b: "b = connect_end ans (relogin_fires auth a)" for b
  proof -
    have "vault_step auth a (relogin_fires auth a)" using armed by (rule vault_step.relogin)
    moreover have "vault_step auth (relogin_fires auth a) b"
      unfolding b using may by (intro vault_step.settled) (auto simp: relogin_fires_def connect_begin_def split: vault_auth.splits)
    ultimately have "(vault_step auth)\<^sup>*\<^sup>* a b" by (meson converse_rtranclp_into_rtranclp r_into_rtranclp)
    moreover have "va_client b \<noteq> None \<and> va_renewal b \<noteq> None \<and> va_failure b = None"
      using may won b by (cases ans) (auto simp: connect_end_def may_authenticate_def relogin_fires_def connect_begin_def Let_def)
    ultimately show ?thesis by blast
  qed
  show ?thesis unfolding Let_def
    by (rule conjI [OF live], intro impI) (rule again [OF _ _ _ refl])
qed

lemma vault_never_given_up_witness:
  "va_logins (relogin_fires AppRole (connect_end (AuthFailed no_token) (connect_begin AppRole new_adapter))) > 0
    \<and> va_client (connect_end (LoggedIn ''s.1'' 3600) (relogin_fires AppRole (connect_end (AuthFailed no_token) (connect_begin AppRole new_adapter)))) \<noteq> None"
proof -
  let ?down = "connect_end (AuthFailed no_token) (connect_begin AppRole new_adapter)"
  have "vault_step AppRole (connect_begin AppRole new_adapter) ?down"
    by (rule vault_step.settled) (simp_all add: connect_begin_def may_authenticate_def)
  then have reach: "vault_reachable AppRole ?down" by (simp add: vault_reachable_def)
  have armed: "\<not> va_destroyed ?down" "va_relogin ?down"
    by (simp_all add: connect_end_def connect_begin_def new_adapter_def Let_def)
  have may: "may_authenticate AppRole (LoggedIn ''s.1'' 3600)" by (simp add: may_authenticate_def)
  have "va_client (connect_end (LoggedIn ''s.1'' 3600) (relogin_fires AppRole ?down)) \<noteq> None"
    using vault_never_given_up [OF reach armed(1), of "LoggedIn ''s.1'' 3600"] armed(2) may unfolding Let_def
    by (simp only: auth_answer.distinct simp_thms) 
  moreover have "va_logins (relogin_fires AppRole ?down) > 0" by (simp add: relogin_fires_def connect_begin_def)
  ultimately show ?thesis by blast
qed

text \<open>A short lease runs out. The interval of the renewal timer leaves at least two thirds of a lease of ninety seconds or
  more, but it is never below half a minute, so a lease of half a minute or less has expired when the timer first fires;
  the comment says the interval is clamped to renew well before expiry.\<close>

theorem short_vault_lease_expires:
  "(90 \<le> ttl \<longrightarrow> 3 * renewIntervalFor ttl \<le> ttl) \<and> (ttl \<le> 30 \<longrightarrow> ttl \<le> renewIntervalFor ttl)
    \<and> renewIntervalFor RENEW_INCREMENT_SECONDS < RENEW_INCREMENT_SECONDS"
  by (auto simp: renewIntervalFor_def RENEW_INCREMENT_SECONDS_def)

lemma short_vault_lease_expires_witness: "20 \<le> renewIntervalFor 20 \<and> 3 * renewIntervalFor 3600 \<le> 3600"
  using short_vault_lease_expires [of 20] short_vault_lease_expires [of 3600] by simp

text \<open>A timer outlives the adapter. When the adapter is shut down while a login is in flight, the login that succeeds
  afterwards schedules a renewal, and one that fails arms the next login, which nothing stops any more.\<close>

theorem vault_timer_outlives_adapter:
  "va_renewal (connect_end (LoggedIn t ttl) (vault_destroy a)) \<noteq> None \<and> va_destroyed (connect_end (LoggedIn t ttl) (vault_destroy a))
    \<and> va_relogin (connect_end (AuthFailed err) (vault_destroy a))"
  by (simp add: connect_end_def vault_destroy_def Let_def)

subsection \<open>Encrypted values come back\<close>

text \<open>What Vault encrypts it decrypts. With a transit engine that returns the plaintext it was given, \<open>decrypt\<close> gives back every
  text that \<open>encrypt\<close> answered a ciphertext for, except the empty one, for which it answers null; without a client, or
  when a request fails, the answer is null.\<close>

theorem vault_transit_round_trip:
  assumes codec: "\<And>p. vc_text c (vc_base64 c p) = p" "\<And>p. vc_base64 c p = [] \<longleftrightarrow> p = []"
    and engine: "\<And>w w' ct tk p ps. vc_write c tk (''transit/encrypt/'' @ k) [(''plaintext'', JStr p)] w = (Inr (Some ps), w') \<Longrightarrow>
      js_prop ps ''ciphertext'' = Some (JStr ct) \<Longrightarrow>
      \<exists>w2. vc_write c tk (''transit/decrypt/'' @ k) [(''ciphertext'', JStr ct)] w' = (Inr (Some [(''plaintext'', JStr p)]), w2)"
    and enc: "vault_encrypt c a k p w = (Inr (Some ct), w')"
  shows "fst (vault_decrypt c a k ct w') = Inr (if p = [] then None else Some p)"
proof -
  obtain tk where tk: "va_client a = Some tk" using enc by (cases "va_client a") (auto simp: vault_encrypt_def)
  obtain ps where ps: "vc_write c tk (''transit/encrypt/'' @ k) [(''plaintext'', JStr (vc_base64 c p))] w = (Inr (Some ps), w')"
      "js_prop ps ''ciphertext'' = Some (JStr ct)"
    using enc tk by (auto simp: vault_encrypt_def andThen_def rescue_def string_at_def split: prod.splits sum.splits option.splits json.splits)
  obtain w2 where "vc_write c tk (''transit/decrypt/'' @ k) [(''ciphertext'', JStr ct)] w' = (Inr (Some [(''plaintext'', JStr (vc_base64 c p))]), w2)"
    using engine [OF ps] by blast
  moreover have "nonempty (Some (vc_base64 c p)) = (if p = [] then None else Some (vc_base64 c p))"
    using codec(2) [of p] by (cases "vc_base64 c p") (auto simp: nonempty_def)
  ultimately show ?thesis using tk codec(1)
    by (simp add: vault_decrypt_def andThen_def rescue_def string_at_def js_prop_def)
qed

text \<open>A Vault whose ciphertexts are marked plaintexts, and one that knows a few secrets.\<close>

definition toy_transit :: "unit vault_client" where
  "toy_transit = \<lparr>vc_read = (\<lambda>tk path. ret None),
     vc_write = (\<lambda>tk path params. ret (case js_prop params ''plaintext'' of
         Some (JStr p) \<Rightarrow> Some [(''ciphertext'', JStr (''v1:'' @ p))]
       | _ \<Rightarrow> (case js_prop params ''ciphertext'' of Some (JStr ct) \<Rightarrow> Some [(''plaintext'', JStr (drop 3 ct))] | _ \<Rightarrow> None))),
     vc_base64 = (\<lambda>p. p), vc_text = (\<lambda>p. p)\<rparr>"

lemma vault_transit_round_trip_witness:
  "fst (vault_decrypt toy_transit (new_adapter\<lparr>va_client := Some ''s.1''\<rparr>) ''pii'' ''v1:ann'' ()) = Inr (Some ''ann'')"
proof -
  let ?a = "new_adapter\<lparr>va_client := Some ''s.1''\<rparr>"
  have enc: "vault_encrypt toy_transit ?a ''pii'' ''ann'' () = (Inr (Some ''v1:ann''), ())"
    by (simp add: vault_encrypt_def toy_transit_def andThen_def rescue_def string_at_def js_prop_def)
  have "fst (vault_decrypt toy_transit ?a ''pii'' ''v1:ann'' ()) = Inr (if ''ann'' = [] then None else Some ''ann'')"
  proof (rule vault_transit_round_trip [OF _ _ _ enc])
    show "vc_text toy_transit (vc_base64 toy_transit p) = p" "vc_base64 toy_transit p = [] \<longleftrightarrow> p = []" for p
      by (simp_all add: toy_transit_def)
    show "\<exists>w2. vc_write toy_transit tk (''transit/decrypt/'' @ ''pii'') [(''ciphertext'', JStr ct)] w' = (Inr (Some [(''plaintext'', JStr p)]), w2)"
      if "vc_write toy_transit tk (''transit/encrypt/'' @ ''pii'') [(''plaintext'', JStr p)] w = (Inr (Some ps), w')"
        "js_prop ps ''ciphertext'' = Some (JStr ct)" for w w' ct tk p ps
      using that by (auto simp: toy_transit_def js_prop_def)
  qed
  then show ?thesis by simp
qed

definition toy_vault :: "unit vault_http" where
  "toy_vault = \<lparr>vh_login = (\<lambda>addr role secret. ret None), vh_read = (\<lambda>addr tk path. ret (Some [(''JWT_SECRET'', JStr ''s3'')])),
     vh_stringify = (\<lambda>_. [])\<rparr>"

definition toy_env :: env where
  "toy_env = (\<lambda>_. None)(''VAULT_ADDR'' := Some ''http://vault'', ''VAULT_TOKEN'' := Some ''s.1'', ''PORT'' := Some ''3000'')"

lemma vault_fills_environment_gaps_witness:
  "\<exists>env'. fst (loadVaultSecretsIntoEnv toy_vault toy_env ()) = Inr (1, env') \<and> env' ''JWT_SECRET'' = Some ''s3'' \<and> env' ''PORT'' = Some ''3000''"
proof -
  have "truthy_or (toy_env ''SECRETS_ADAPTER'') ''vault'' = ''vault''" "toy_env ''VAULT_ADDR'' = Some ''http://vault''" "''http://vault'' \<noteq> []"
    by (simp_all add: truthy_or_def toy_env_def nonempty_def)
  moreover have "andThen (vault_login toy_vault toy_env ''http://vault'') (\<lambda>token. case token of None \<Rightarrow> raise no_credentials
      | Some tk \<Rightarrow> vh_read toy_vault ''http://vault'' tk (truthy_or (toy_env ''VAULT_SECRET_PATH'') ''secret/data/tropis'')) ()
      = (Inr (Some [(''JWT_SECRET'', JStr ''s3'')]), ())"
    by (simp add: vault_login_def toy_env_def toy_vault_def nonempty_def andThen_def)
  ultimately show ?thesis
    using vault_fills_environment_gaps [of toy_env "''http://vault''" toy_vault "()" "Inr (Some [(''JWT_SECRET'', JStr ''s3'')])" "()"]
    by (fastforce simp: unset_def toy_env_def secret_text_def)
qed

end
