(* ===== verification/Spec2Isabelle.thy ===== *)
theory Spec2Isabelle
  imports Circuit_Breaker Relay User_Service Sdk_Session Kafka Tracking Gateway Jobs Observability Membership Analytics Vault
begin

text \<open>
  Tropis is a multi-tenant user platform: a NestJS backend that runs as four processes
  (\<open>apps/backend/src/roles\<close>: the public and the private API, the worker and the scheduler), a client
  SDK (\<open>packages/sdk\<close>), a package both share (\<open>packages/shared\<close>) and web clients. This library models
  the backend's own rules, those that hold between processes that fail at any moment, and the SDK's.

  \<^bold>\<open>How the parts interact.\<close> A request is signed by the SDK, admitted by the guards, put into a
  tenant and authorised; a command then changes users, their event history and the outbox in
  one database transaction. The relay takes each outbox row to the broker under a lease, in order per
  aggregate; a consumer claims an idempotency marker, runs its handler and commits the marker. An
  error is normalised to an entry of one catalog, sent over REST or RPC, and read back by the SDK.
  Sessions, leases, markers, counters and nonces live in Redis under keys that carry the tenant.

  \<^bold>\<open>Foundations.\<close>
  \<^item> \<open>Prelude\<close>: JSON values as a TypeScript \<open>unknown\<close>, string functions, percent encoding, and the
    lemmas and collections (\<open>named_theorems\<close>) the components share.
  \<^item> \<open>Effects\<close>: asynchronous code over a world: an effect is a function from the world to a value or
    a thrown error and the next world. The world holds every other caller, so whatever they may do
    between two awaited calls is a possible next world.
  \<^item> \<open>Error_Catalog\<close> (\<open>packages/shared/src/errors/catalog.ts\<close>) and \<open>Errors\<close>
    (\<open>common/errors/*.ts\<close>): the catalog entry by entry, thrown values and their normalisation.
  \<^item> \<open>Keyspace\<close> (\<open>common/keyspace\<close>, rooms and object keys): key builders, and that two tenants never
    share a key.
  \<^item> \<open>Tenancy\<close> (\<open>common/tenant\<close>, the HTTP guards and interceptor, \<open>infrastructure/documents/tenant-scope.ts\<close>):
    which tenant a request runs in, and the fence around every document operation.

  \<^bold>\<open>Stores.\<close>
  \<^item> \<open>Redis\<close>: the documented effect of the commands the adapters send, as the predicate \<open>redis_ok\<close> on
    a server that is a parameter.
  \<^item> \<open>Stores\<close> (\<open>infrastructure/{lock,dedup,ratelimit,kv}\<close>): leases, markers, counters and values with a
    lifetime, refined to a map of live entries.
  \<^item> \<open>Circuit_Breaker\<close>: the breaker's states with interleaved calls.

  \<^bold>\<open>Events.\<close>
  \<^item> \<open>Outbox\<close> (\<open>infrastructure/outbox/outbox.{schema,service,constants}.ts\<close>): rows and heads as sequences of
    database commands, the life of a row and the repair of heads.
  \<^item> \<open>Relay\<close> (\<open>outbox.relay.ts\<close>): the poll, the turn of an aggregate and its publishes, with any
    interference between calls: order within an aggregate, and that a turn drains it.
  \<^item> \<open>Messaging\<close> (envelope, wire form, \<open>event-consumer.ts\<close>): round trip of an envelope, claim-then-commit,
    the consumer's life.
  \<^item> \<open>Kafka\<close> (the broker adapter): the redelivery loop of a message ends, and when it drops one.

  \<^bold>\<open>Requests and sessions.\<close>
  \<^item> \<open>Guards\<close> (signatures, API keys, throttling), \<open>Signing\<close> (both ends of a signed request),
    \<open>Rpc\<close> (interceptors of both tiers), \<open>Sdk_Errors\<close> (the HTTP filter and the SDK's reading of errors).
  \<^item> \<open>Auth\<close> and \<open>Login\<close> (password login, tokens, lockout, verification), \<open>OAuth\<close> (sign-in with a
    provider, cookies, controller), \<open>Sdk_Session\<close> (token store, refresher, PKCE).

  \<^bold>\<open>Users.\<close>
  \<^item> \<open>Users\<close> (commands, repository, event store), \<open>User_History\<close> (any interleaving of transactions under
    snapshot isolation: the event log rebuilds the users, the last admin survives, committed
    transactions have a serial order), \<open>User_Service\<close> (errors the caller sees, projections).

  \<^bold>\<open>How code becomes definitions.\<close> A TypeScript interface is a \<open>record\<close>, a union a \<open>datatype\<close>, an
  awaited call an effect, \<open>try/catch\<close> is \<open>rescue\<close>, a loop a recursive function. \<open>undefined\<close> is \<open>None\<close>. Numbers are
  \<open>rat\<close> where a caller may pass a fraction, \<open>nat\<close> or \<open>int\<close> where the code has checked. Strings are
  lists of Latin-1 characters. Thrown values are the datatype \<open>thrown\<close>; a fallible pure function answers
  \<open>thrown + 'a\<close>. Mongo, Redis, the broker, bcrypt, hashes, JWTs, the policy engine and kafkajs are
  arguments of the definitions; what is relied on of them is a named predicate (\<open>redis_ok\<close>,
  \<open>clock_runs\<close>, ...), and each property with such a premise has a witness on a concrete instance.

  \<^bold>\<open>Bounds and loops.\<close> Loops over lists are structural. The relay's passes are bounded by the constants
  of the source (the batch, the attempts), carried as the count that is left. The two loops of the
  Kafka adapter wait for the clock, so they are partial functions, \<open>None\<close> being a loop that does not
  end; \<open>kafka_message_settles\<close> shows that they end when sleeps let time pass. The default
  redeliveries add up to 181 seconds. The retry of administrative calls has a measure, the attempts left of 20.

  \<^bold>\<open>Not modelled.\<close> Log lines, metrics and trace spans. Module wiring, configuration schemas, bootstrap
  and generated code, which hold no rule of the program's own. The engines behind a
  port (Elasticsearch, Neo4j, ClickHouse, pgvector, MinIO, Aerospike, Temporal, BullMQ, Vault,
  Pulsar), whose adapters translate calls. The web clients, which render what the SDK answers.
  The manifest lists each with its reason.
\<close>

end
